(* ===== verification/Lithium_Prelude.thy ===== *)
theory Lithium_Prelude
  imports Complex_Main "HOL-Library.AList" "HOL-Library.Char_ord" "HOL-Library.List_Lexorder"
    "HOL-Library.Product_Lexorder"
begin

text \<open>
  Shared vocabulary of the development: the exceptions of the C++ code as values, the parts of
  the standard library the components use (\<^verbatim>\<open>std::string_view::find\<close>, \<^verbatim>\<open>std::from_chars\<close>,
  \<^verbatim>\<open>std::format\<close> of an integer, \<^verbatim>\<open>std::vector::erase\<close>), association lists for the unordered
  maps (a list of entries with distinct keys, in iteration order), and the generic lemmas on them.
\<close>

named_theorems lith_defs \<open>definitions that unfold to case distinctions\<close>

section \<open>Exceptions as values\<close>

datatype exn =
    InvalidArgument string
  | RuntimeError string
  | OutOfRange string
  | TaskTimeout string
  | OtherException string

type_synonym 'a result = "exn + 'a"

primrec what :: "exn \<Rightarrow> string" where
  "what (InvalidArgument m) = m"
| "what (RuntimeError m) = m"
| "what (OutOfRange m) = m"
| "what (TaskTimeout m) = m"
| "what (OtherException m) = m"

definition is_error :: "'a result \<Rightarrow> bool" where
  "is_error r = (case r of Inl _ \<Rightarrow> True | Inr _ \<Rightarrow> False)"

lemma is_error_simps [simp]: "is_error (Inl e)" "\<not> is_error (Inr x)"
  by (simp_all add: is_error_def)

section \<open>String views\<close>

text \<open>\<^verbatim>\<open>sv.find(c, pos)\<close>: the first index at or after \<open>pos\<close> that holds \<open>c\<close>; \<open>None\<close> is npos.\<close>

definition sv_find :: "char \<Rightarrow> string \<Rightarrow> nat \<Rightarrow> nat option" where
  "sv_find c s pos =
     (let k = pos + length (takeWhile (\<lambda>x. x \<noteq> c) (drop pos s))
      in if k < length s then Some k else None)"

text \<open>\<^verbatim>\<open>sv.substr(pos, n)\<close> with \<open>pos \<le> size\<close>: at most \<open>n\<close> characters.\<close>

definition sv_substr :: "string \<Rightarrow> nat \<Rightarrow> nat \<Rightarrow> string" where
  "sv_substr s pos n = take n (drop pos s)"

lemma sv_find_shift: "sv_find c (p @ s) (length p) = map_option (\<lambda>k. length p + k) (sv_find c s 0)"
  by (simp add: sv_find_def Let_def)

lemma sv_find_append:
  assumes "c \<notin> set a" "length p = pos"
  shows "sv_find c (p @ a @ c # b) pos = Some (pos + length a)"
proof -
  have "takeWhile (\<lambda>x. x \<noteq> c) (a @ c # b) = a"
    using assms(1) by (subst takeWhile_append2) auto
  then show ?thesis using assms(2) by (auto simp: sv_find_def Let_def)
qed

lemma sv_find_none:
  assumes "c \<notin> set a" "length p = pos"
  shows "sv_find c (p @ a) pos = None"
proof -
  have "length (takeWhile (\<lambda>x. x \<noteq> c) a) = length a"
    using assms(1) by (induction a) auto
  then show ?thesis using assms(2) by (auto simp: sv_find_def Let_def)
qed

section \<open>Decimal integers\<close>

definition is_digit :: "char \<Rightarrow> bool" where
  "is_digit c \<longleftrightarrow> (48::nat) \<le> of_char c \<and> of_char c \<le> (57::nat)"

definition digit_char :: "nat \<Rightarrow> char" where
  "digit_char d = char_of (48 + d)"

definition digit_val :: "char \<Rightarrow> nat" where
  "digit_val c = of_char c - 48"

fun show_nat :: "nat \<Rightarrow> string" where
  "show_nat n = (if n < 10 then [digit_char n] else show_nat (n div 10) @ [digit_char (n mod 10)])"

declare show_nat.simps [simp del]

definition show_int :: "int \<Rightarrow> string" where
  "show_int i = (if i < 0 then CHR ''-'' # show_nat (nat (- i)) else show_nat (nat i))"

definition nat_of_digits :: "string \<Rightarrow> nat" where
  "nat_of_digits ds = foldl (\<lambda>acc c. 10 * acc + digit_val c) 0 ds"

lemma of_char_digit_char: "d < 10 \<Longrightarrow> of_char (digit_char d) = 48 + d"
  by (simp add: digit_char_def)

lemma is_digit_digit_char [simp]: "d < 10 \<Longrightarrow> is_digit (digit_char d)"
  by (simp add: is_digit_def of_char_digit_char)

lemma digit_val_digit_char [simp]: "d < 10 \<Longrightarrow> digit_val (digit_char d) = d"
  by (simp add: digit_val_def of_char_digit_char)

lemma show_nat_digits: "\<forall>c \<in> set (show_nat n). is_digit c"
proof (induction n rule: show_nat.induct)
  case (1 n)
  then show ?case by (subst show_nat.simps) (auto simp: less_imp_le)
qed

lemma show_nat_nonempty [simp]: "show_nat n \<noteq> []"
  by (subst show_nat.simps) simp

lemma nat_of_digits_snoc: "nat_of_digits (ds @ [c]) = 10 * nat_of_digits ds + digit_val c"
  by (simp add: nat_of_digits_def)

lemma nat_of_digits_show_nat [simp]: "nat_of_digits (show_nat n) = n"
proof (induction n rule: show_nat.induct)
  case (1 n)
  show ?case
  proof (cases "n < 10")
    case True
    then show ?thesis by (subst show_nat.simps) (simp add: nat_of_digits_def)
  next
    case False
    then have "nat_of_digits (show_nat n) = 10 * (n div 10) + n mod 10"
      using "1.IH" by (subst show_nat.simps) (simp add: nat_of_digits_snoc)
    then show ?thesis by simp
  qed
qed

text \<open>Characters the version grammar uses as separators are not digits.\<close>

lemma not_digit_seps [simp]:
  "\<not> is_digit CHR ''.''" "\<not> is_digit CHR ''-''" "\<not> is_digit CHR ''+''" "\<not> is_digit CHR '' ''"
  "\<not> is_digit CHR '',''"
  by (simp_all add: is_digit_def)

lemma show_nat_no_sep: "\<not> is_digit c \<Longrightarrow> c \<notin> set (show_nat n)"
  using show_nat_digits by blast

lemma show_int_no_sep: "\<not> is_digit c \<Longrightarrow> c \<noteq> CHR ''-'' \<Longrightarrow> c \<notin> set (show_int i)"
  by (auto simp: show_int_def show_nat_no_sep)

text \<open>
  \<^verbatim>\<open>std::from_chars\<close> on an \<^verbatim>\<open>int\<close>: an optional minus sign, then the longest run of digits;
  \<open>None\<close> for no digits or a value outside the 32-bit range. What follows the digits is ignored.
\<close>

definition int_min :: int where "int_min = - (2 ^ 31)"
definition int_max :: int where "int_max = 2 ^ 31 - 1"

definition in_int :: "int \<Rightarrow> bool" where
  "in_int i \<longleftrightarrow> int_min \<le> i \<and> i \<le> int_max"

definition from_chars :: "string \<Rightarrow> int option" where
  "from_chars s =
     (let neg = (s \<noteq> [] \<and> hd s = CHR ''-'');
          ds = takeWhile is_digit (if neg then tl s else s);
          v = (if neg then - int (nat_of_digits ds) else int (nat_of_digits ds))
      in if ds = [] \<or> \<not> in_int v then None else Some v)"

lemma takeWhile_digits:
  "\<forall>c \<in> set ds. is_digit c \<Longrightarrow> rest = [] \<or> \<not> is_digit (hd rest) \<Longrightarrow> takeWhile is_digit (ds @ rest) = ds"
  by (cases rest) (auto simp: takeWhile_append)

lemma hd_show_nat: "hd (show_nat n @ rest) \<noteq> CHR ''-''"
proof -
  have "hd (show_nat n @ rest) \<in> set (show_nat n)" by simp
  then show ?thesis using show_nat_digits [of n] by force
qed

lemma from_chars_show_int:
  assumes "in_int i" "rest = [] \<or> \<not> is_digit (hd rest)"
  shows "from_chars (show_int i @ rest) = Some i"
proof (cases "i < 0")
  case True
  then show ?thesis
    using assms takeWhile_digits [OF show_nat_digits assms(2)]
    by (simp add: from_chars_def show_int_def Let_def)
next
  case False
  then show ?thesis
    using assms takeWhile_digits [OF show_nat_digits assms(2)] hd_show_nat [of "nat i" rest]
    by (simp add: from_chars_def show_int_def Let_def)
qed

lemma from_chars_Nil [simp]: "from_chars [] = None"
  by (simp add: from_chars_def)

lemma from_chars_no_digit: "s \<noteq> [] \<Longrightarrow> hd s \<noteq> CHR ''-'' \<Longrightarrow> \<not> is_digit (hd s) \<Longrightarrow> from_chars s = None"
  by (cases s) (simp_all add: from_chars_def)

lemma from_chars_range: "from_chars s = Some i \<Longrightarrow> in_int i"
  by (auto simp: from_chars_def Let_def split: if_splits)

text \<open>\<^verbatim>\<open>std::tolower\<close> in the C locale.\<close>

definition to_lower :: "char \<Rightarrow> char" where
  "to_lower c = (let k = of_char c :: nat in if 65 \<le> k \<and> k \<le> 90 then char_of (k + 32) else c)"

lemma to_lower_idem [simp]: "to_lower (to_lower c) = to_lower c"
  by (simp add: to_lower_def Let_def)

text \<open>The conversion of an \<^verbatim>\<open>int\<close> to \<^verbatim>\<open>size_t\<close>, modulo the width of the type.\<close>

definition size_t :: "int \<Rightarrow> nat" where
  "size_t n = nat (n mod 2 ^ 64)"

text \<open>The conversion of a wider integer to \<^verbatim>\<open>int\<close>, which wraps.\<close>

definition to_int32 :: "int \<Rightarrow> int" where
  "to_int32 x = (x + 2 ^ 31) mod 2 ^ 32 - 2 ^ 31"

lemma to_int32_id: "in_int x \<Longrightarrow> to_int32 x = x"
  by (simp add: to_int32_def in_int_def int_min_def int_max_def)

section \<open>Unordered maps as association lists\<close>

text \<open>
  An \<^verbatim>\<open>std::unordered_map\<close> is the list of its entries in iteration order. \<^verbatim>\<open>m[k] = v\<close> is
  \<^const>\<open>AList.update\<close>, \<^verbatim>\<open>m.erase(k)\<close> is \<^const>\<open>AList.delete\<close>, \<^verbatim>\<open>m.find(k)\<close> is \<^const>\<open>map_of\<close>;
  an \<^verbatim>\<open>std::unordered_set\<close> is the list of its elements, with \<^const>\<open>List.insert\<close> and \<^const>\<open>removeAll\<close>.
\<close>

type_synonym 'a umap = "(string \<times> 'a) list"

definition keys :: "('k \<times> 'v) list \<Rightarrow> 'k set" where
  "keys m = fst ` set m"

definition try_emplace :: "'k \<Rightarrow> 'v \<Rightarrow> ('k \<times> 'v) list \<Rightarrow> ('k \<times> 'v) list" where
  "try_emplace k v m = (if map_of m k = None then AList.update k v m else m)"

text \<open>The value a lookup sees when absent keys count as a default.\<close>

definition lookup_or :: "'v \<Rightarrow> ('k \<times> 'v) list \<Rightarrow> 'k \<Rightarrow> 'v" where
  "lookup_or d m k = (case map_of m k of None \<Rightarrow> d | Some v \<Rightarrow> v)"

definition map_vals :: "('v \<Rightarrow> 'w) \<Rightarrow> ('k \<times> 'v) list \<Rightarrow> ('k \<times> 'w) list" where
  "map_vals f m = map (\<lambda>(k, v). (k, f v)) m"

lemma finite_keys [simp]: "finite (keys m)"
  by (simp add: keys_def)

lemma keys_Nil [simp]: "keys [] = {}"
  by (simp add: keys_def)

lemma keys_Cons [simp]: "keys ((k, v) # m) = insert k (keys m)"
  by (simp add: keys_def)

lemma map_of_None_keys: "map_of m k = None \<longleftrightarrow> k \<notin> keys m"
  by (simp add: keys_def map_of_eq_None_iff)

lemma map_of_keysD: "map_of m k = Some v \<Longrightarrow> k \<in> keys m"
  by (metis map_of_None_keys option.distinct(1))

lemma keysE: "k \<in> keys m \<Longrightarrow> (\<And>v. map_of m k = Some v \<Longrightarrow> thesis) \<Longrightarrow> thesis"
  by (metis map_of_None_keys not_None_eq)

lemma keys_update [simp]: "keys (AList.update k v m) = insert k (keys m)"
  by (simp add: keys_def dom_update)

lemma keys_delete [simp]: "keys (AList.delete k m) = keys m - {k}"
  by (auto simp: keys_def AList.delete_eq image_iff)

lemma keys_map_vals [simp]: "keys (map_vals f m) = keys m"
  by (force simp: keys_def map_vals_def)

lemma keys_try_emplace [simp]: "keys (try_emplace k v m) = insert k (keys m)"
  by (auto simp: try_emplace_def dest: map_of_keysD)

lemma map_of_map_vals [simp]: "map_of (map_vals f m) k = map_option f (map_of m k)"
  by (induction m) (auto simp: map_vals_def)

lemma map_of_try_emplace:
  "map_of (try_emplace k v m) k' = (if k' = k \<and> k \<notin> keys m then Some v else map_of m k')"
  by (auto simp: try_emplace_def update_conv' map_of_None_keys [symmetric])

lemma lookup_or_update [simp]:
  "lookup_or d (AList.update k v m) k' = (if k' = k then v else lookup_or d m k')"
  by (simp add: lookup_or_def update_conv')

lemma lookup_or_delete [simp]:
  "lookup_or d (AList.delete k m) k' = (if k' = k then d else lookup_or d m k')"
  by (simp add: lookup_or_def delete_conv')

lemma lookup_or_map_vals: "f d = d \<Longrightarrow> lookup_or d (map_vals f m) k = f (lookup_or d m k)"
  by (cases "map_of m k") (simp_all add: lookup_or_def)

lemma lookup_or_try_emplace [simp]: "lookup_or d (try_emplace k d m) k' = lookup_or d m k'"
  by (auto simp: lookup_or_def map_of_try_emplace split: option.split dest: map_of_keysD)

lemma lookup_or_absent: "k \<notin> keys m \<Longrightarrow> lookup_or d m k = d"
  by (simp add: lookup_or_def flip: map_of_None_keys)

lemma lookup_or_Nil [simp]: "lookup_or d [] k = d"
  by (simp add: lookup_or_def)

lemma distinct_map_vals [simp]: "distinct (map fst (map_vals f m)) = distinct (map fst m)"
  by (simp add: map_vals_def case_prod_unfold comp_def)

lemma distinct_try_emplace [simp]: "distinct (map fst m) \<Longrightarrow> distinct (map fst (try_emplace k v m))"
  by (simp add: try_emplace_def distinct_update)

lemma set_update_distinct:
  "distinct (map fst m) \<Longrightarrow> set (AList.update k v m) = insert (k, v) {x \<in> set m. fst x \<noteq> k}"
  by (induction m) (auto simp: image_iff)

lemma bex_key:
  "distinct (map fst m) \<Longrightarrow> (\<exists>x \<in> set m. fst x = k \<and> P (snd x)) \<longleftrightarrow> (\<exists>v. map_of m k = Some v \<and> P v)"
  by (metis (no_types, lifting) fst_conv map_of_SomeD map_of_is_SomeI prod.collapse snd_conv)

lemma update_fresh: "k \<notin> keys m \<Longrightarrow> AList.update k v m = m @ [(k, v)]"
  by (induction m) (auto simp: keys_def)

lemma keys_filterD: "k \<in> keys (filter P m) \<Longrightarrow> k \<in> keys m"
  by (auto simp: keys_def)

lemma map_of_filter_vals:
  "distinct (map fst m) \<Longrightarrow> map_of (filter (\<lambda>x. P (snd x)) m) k
     = (case map_of m k of Some v \<Rightarrow> if P v then Some v else None | None \<Rightarrow> None)"
proof (induction m)
  case (Cons x m)
  show ?case
  proof (cases "fst x = k")
    case True
    then have "map_of m k = None" using Cons.prems by (auto simp: map_of_eq_None_iff image_iff)
    then show ?thesis using Cons True by auto
  next
    case False
    then show ?thesis using Cons by auto
  qed
qed simp

text \<open>Lists collected under distinct keys, whose elements determine their key, have no duplicates.\<close>

lemma distinct_concat_keyed:
  "distinct (map fst m) \<Longrightarrow> (\<And>x. x \<in> set m \<Longrightarrow> distinct (f x)) \<Longrightarrow>
   (\<And>x u. x \<in> set m \<Longrightarrow> u \<in> set (f x) \<Longrightarrow> g u = fst x) \<Longrightarrow> distinct (concat (map f m))"
proof (induction m)
  case (Cons x m)
  have "set (f x) \<inter> (\<Union>y \<in> set m. set (f y)) = {}"
  proof (rule ccontr)
    assume "\<not> ?thesis"
    then obtain y u where "y \<in> set m" "u \<in> set (f x)" "u \<in> set (f y)" by blast
    then have "fst y = fst x" using Cons.prems(3) [of x u] Cons.prems(3) [of y u] by auto
    then show False using Cons.prems(1) \<open>y \<in> set m\<close> by (auto simp: image_iff)
  qed
  then show ?case using Cons by auto
qed simp

end
