(* ===== verification/Version.thy ===== *)
theory Version
  imports Lithium_Prelude
begin

text \<open>
  Semantic versions, date versions and version ranges of
  \<^verbatim>\<open>src/src/components/core/version.hpp\<close> and \<^verbatim>\<open>version.cpp\<close>: parsing, printing, the ordering
  operators, \<^verbatim>\<open>checkVersion\<close>, \<^verbatim>\<open>checkDateVersion\<close> and the range operations. The C++ \<^verbatim>\<open>int\<close>
  components are integers, with the 32-bit range check where \<^verbatim>\<open>std::from_chars\<close> makes it;
  \<^verbatim>\<open>std::string\<close> comparison is the lexicographic order of bytes.
\<close>

section \<open>Data\<close>

datatype VersionCompareStrategy = Strict | IgnorePrerelease | OnlyMajorMinor

record version =
  major :: int
  minor :: int
  patch :: int
  prerelease :: string
  build :: string

definition mk_version :: "int \<Rightarrow> int \<Rightarrow> int \<Rightarrow> version" where
  "mk_version a b c = \<lparr>major = a, minor = b, patch = c, prerelease = [], build = []\<rparr>"

record date_version =
  year :: int
  month :: int
  day :: int

record version_range =
  vr_min :: version
  vr_max :: version
  includeMin :: bool
  includeMax :: bool

section \<open>Operations\<close>

definition parseInt :: "string \<Rightarrow> int result" where
  "parseInt str =
     (case from_chars str of
        None \<Rightarrow> Inl (InvalidArgument ''Invalid integer format'')
      | Some r \<Rightarrow> Inr r)"

text \<open>\<^verbatim>\<open>std::min\<close> of two positions where \<open>None\<close> is npos, the largest value.\<close>

definition min_pos :: "nat option \<Rightarrow> nat option \<Rightarrow> nat option" where
  "min_pos a b =
     (case a of None \<Rightarrow> b
      | Some x \<Rightarrow> (case b of None \<Rightarrow> Some x | Some y \<Rightarrow> Some (min x y)))"

definition Version_parse :: "string \<Rightarrow> version result" where
  "Version_parse versionStr =
    (if versionStr = [] then Inl (InvalidArgument ''Empty version string'')
     else case sv_find CHR ''.'' versionStr 0 of
       None \<Rightarrow> Inl (InvalidArgument ''Invalid version format'')
     | Some firstDot \<Rightarrow>
       (case parseInt (sv_substr versionStr 0 firstDot) of
          Inl e \<Rightarrow> Inl e
        | Inr maj \<Rightarrow>
          (let pos = firstDot + 1 in
           case sv_find CHR ''.'' versionStr pos of
             None \<Rightarrow> Inl (InvalidArgument ''Invalid version format'')
           | Some secondDot \<Rightarrow>
             (case parseInt (sv_substr versionStr pos (secondDot - pos)) of
                Inl e \<Rightarrow> Inl e
              | Inr mino \<Rightarrow>
                (let pos = secondDot + 1;
                     dashPos = sv_find CHR ''-'' versionStr pos;
                     plusPos = sv_find CHR ''+'' versionStr pos;
                     patchStr = (case min_pos dashPos plusPos of
                                   None \<Rightarrow> drop pos versionStr
                                 | Some endPos \<Rightarrow> sv_substr versionStr pos (endPos - pos))
                 in case parseInt patchStr of
                      Inl e \<Rightarrow> Inl e
                    | Inr pat \<Rightarrow>
                      Inr \<lparr>major = maj, minor = mino, patch = pat,
                           prerelease =
                             (case dashPos of None \<Rightarrow> []
                              | Some d \<Rightarrow>
                                (let prereleaseEnd =
                                       (case plusPos of
                                          Some p \<Rightarrow> if p > d then p else length versionStr
                                        | None \<Rightarrow> length versionStr)
                                 in sv_substr versionStr (d + 1) (prereleaseEnd - d - 1))),
                           build =
                             (case plusPos of None \<Rightarrow> [] | Some p \<Rightarrow> drop (p + 1) versionStr)\<rparr>)))))"

definition Version_toString :: "version \<Rightarrow> string" where
  "Version_toString v =
     show_int (major v) @ ''.'' @ show_int (minor v) @ ''.'' @ show_int (patch v)
     @ (if prerelease v \<noteq> [] then ''-'' @ prerelease v else [])
     @ (if build v \<noteq> [] then ''+'' @ build v else [])"

definition Version_toShortString :: "version \<Rightarrow> string" where
  "Version_toShortString v = show_int (major v) @ ''.'' @ show_int (minor v)"

definition Version_less :: "version \<Rightarrow> version \<Rightarrow> bool" where
  "Version_less a b =
     (if major a \<noteq> major b then major a < major b
      else if minor a \<noteq> minor b then minor a < minor b
      else if patch a \<noteq> patch b then patch a < patch b
      else if prerelease a = [] \<and> prerelease b = [] then False
      else if prerelease a = [] then False
      else if prerelease b = [] then True
      else prerelease a < prerelease b)"

definition Version_greater :: "version \<Rightarrow> version \<Rightarrow> bool" where
  "Version_greater a b = Version_less b a"

definition Version_eq :: "version \<Rightarrow> version \<Rightarrow> bool" where
  "Version_eq a b \<longleftrightarrow> major a = major b \<and> minor a = minor b \<and> patch a = patch b
     \<and> prerelease a = prerelease b"

definition Version_le :: "version \<Rightarrow> version \<Rightarrow> bool" where
  "Version_le a b \<longleftrightarrow> \<not> Version_less b a"

definition Version_ge :: "version \<Rightarrow> version \<Rightarrow> bool" where
  "Version_ge a b \<longleftrightarrow> \<not> Version_less a b"

definition Version_isCompatibleWith :: "version \<Rightarrow> version \<Rightarrow> bool" where
  "Version_isCompatibleWith a b =
     (if major a \<noteq> major b then False
      else if minor a < minor b then True
      else minor a = minor b \<and> patch a \<le> patch b)"

definition Version_satisfiesRange :: "version \<Rightarrow> version \<Rightarrow> version \<Rightarrow> bool" where
  "Version_satisfiesRange v lo hi \<longleftrightarrow> Version_ge v lo \<and> Version_le v hi"

text \<open>The normalisation \<^verbatim>\<open>checkVersion\<close> applies to both sides, by strategy.\<close>

definition strategy_view :: "VersionCompareStrategy \<Rightarrow> version \<Rightarrow> version" where
  "strategy_view st v =
     (case st of
        Strict \<Rightarrow> v
      | IgnorePrerelease \<Rightarrow> mk_version (major v) (minor v) (patch v)
      | OnlyMajorMinor \<Rightarrow> mk_version (major v) (minor v) 0)"

definition checkVersion :: "version \<Rightarrow> string \<Rightarrow> VersionCompareStrategy \<Rightarrow> bool result" where
  "checkVersion actualVersion req st =
     (if req = [] then Inr True
      else
        let opLength = (if length req > 1 \<and> (req ! 1 = CHR ''='' \<or> req ! 1 = CHR ''>'') then 2 else 1);
            oper = take opLength req;
            versionPart = drop opLength req
        in case Version_parse versionPart of
             Inl e \<Rightarrow> Inl (InvalidArgument (''Invalid version format: '' @ what e))
           | Inr requiredVersion \<Rightarrow>
             (let actual = strategy_view st actualVersion;
                  required = strategy_view st requiredVersion
              in Inr (if oper = ''^'' then major actual = major required \<and> Version_ge actual required
                      else if oper = ''~'' then
                        major actual = major required \<and> minor actual = minor required
                        \<and> Version_ge actual required
                      else if oper = ''>'' then Version_greater actual required
                      else if oper = ''<'' then Version_less actual required
                      else if oper = ''>='' then Version_ge actual required
                      else if oper = ''<='' then Version_le actual required
                      else if oper = ''='' then Version_eq actual required
                      else Version_eq actual required)))"

subsection \<open>Date versions\<close>

definition DateVersion_parse :: "string \<Rightarrow> date_version result" where
  "DateVersion_parse dateStr =
    (if dateStr = [] then Inl (InvalidArgument ''Empty date string'')
     else case sv_find CHR ''-'' dateStr 0 of
       None \<Rightarrow> Inl (InvalidArgument ''Invalid date format'')
     | Some firstDash \<Rightarrow>
       (case parseInt (sv_substr dateStr 0 firstDash) of
          Inl e \<Rightarrow> Inl e
        | Inr y \<Rightarrow>
          (let pos = firstDash + 1 in
           case sv_find CHR ''-'' dateStr pos of
             None \<Rightarrow> Inl (InvalidArgument ''Invalid date format'')
           | Some secondDash \<Rightarrow>
             (case parseInt (sv_substr dateStr pos (secondDash - pos)) of
                Inl e \<Rightarrow> Inl e
              | Inr m \<Rightarrow>
                (case parseInt (drop (secondDash + 1) dateStr) of
                   Inl e \<Rightarrow> Inl e
                 | Inr d \<Rightarrow>
                   if m < 1 \<or> m > 12 \<or> d < 1 \<or> d > 31
                   then Inl (InvalidArgument ''Invalid date values'')
                   else Inr \<lparr>year = y, month = m, day = d\<rparr>)))))"

text \<open>The \<^verbatim>\<open>{:02d}\<close> format of a value that is not negative.\<close>

definition show_02d :: "int \<Rightarrow> string" where
  "show_02d i = (if 0 \<le> i \<and> i < 10 then CHR ''0'' # show_int i else show_int i)"

definition DateVersion_print :: "date_version \<Rightarrow> string" where
  "DateVersion_print d = show_int (year d) @ ''-'' @ show_02d (month d) @ ''-'' @ show_02d (day d)"

definition DateVersion_less :: "date_version \<Rightarrow> date_version \<Rightarrow> bool" where
  "DateVersion_less a b =
     (if year a \<noteq> year b then year a < year b
      else if month a \<noteq> month b then month a < month b
      else day a < day b)"

definition checkDateVersion :: "date_version \<Rightarrow> string \<Rightarrow> bool result" where
  "checkDateVersion actual req =
     (if req = [] then Inr True
      else
        let opLength = (if length req > 1 \<and> req ! 1 = CHR ''='' then 2 else 1);
            oper = take opLength req;
            versionPart = drop opLength req
        in case DateVersion_parse versionPart of
             Inl e \<Rightarrow> Inl e
           | Inr required \<Rightarrow>
             (if oper = ''>'' then Inr (DateVersion_less required actual)
              else if oper = ''<'' then Inr (DateVersion_less actual required)
              else if oper = ''>='' then Inr (\<not> DateVersion_less actual required)
              else if oper = ''<='' then Inr (\<not> DateVersion_less required actual)
              else if oper = ''='' then
                Inr (year actual = year required \<and> month actual = month required
                     \<and> day actual = day required)
              else Inl (InvalidArgument ''Invalid comparison operator'')))"

subsection \<open>Version ranges\<close>

definition VersionRange_contains :: "version_range \<Rightarrow> version \<Rightarrow> bool" where
  "VersionRange_contains r v \<longleftrightarrow>
     (if includeMin r then Version_ge v (vr_min r) else Version_greater v (vr_min r))
     \<and> (if includeMax r then Version_le v (vr_max r) else Version_less v (vr_max r))"

definition VersionRange_parse :: "string \<Rightarrow> version_range result" where
  "VersionRange_parse rangeStr =
    (if rangeStr = [] then Inl (InvalidArgument ''Empty version range string'')
     else case sv_find CHR '','' rangeStr 0 of
       None \<Rightarrow> Inl (InvalidArgument ''Invalid version range format'')
     | Some sep \<Rightarrow>
       (let incMin = (hd rangeStr = CHR ''['');
            incMax = (last rangeStr = CHR '']'')
        in if length rangeStr < 3 then Inl (InvalidArgument ''Invalid version range format'')
           else
             \<comment> \<open>a comma in first place makes \<^verbatim>\<open>sep - 1\<close> wrap to npos: the rest of the string\<close>
             let minStr = (if sep = 0 then drop 1 rangeStr else sv_substr rangeStr 1 (sep - 1));
                 maxStr = (if length rangeStr < sep + 2 then drop (sep + 1) rangeStr
                           else sv_substr rangeStr (sep + 1) (length rangeStr - sep - 2))
             in case Version_parse minStr of
                  Inl e \<Rightarrow> Inl e
                | Inr lo \<Rightarrow>
                  (case Version_parse maxStr of
                     Inl e \<Rightarrow> Inl e
                   | Inr hi \<Rightarrow>
                     Inr \<lparr>vr_min = lo, vr_max = hi, includeMin = incMin, includeMax = incMax\<rparr>)))"

definition VersionRange_from :: "version \<Rightarrow> version_range" where
  "VersionRange_from v =
     \<lparr>vr_min = v, vr_max = mk_version 999 999 999, includeMin = True, includeMax = False\<rparr>"

definition VersionRange_upTo :: "version \<Rightarrow> version_range" where
  "VersionRange_upTo v =
     \<lparr>vr_min = mk_version 0 0 0, vr_max = v, includeMin = True, includeMax = True\<rparr>"

definition VersionRange_toString :: "version_range \<Rightarrow> string" where
  "VersionRange_toString r =
     (if includeMin r then ''['' else ''('')
     @ show_int (major (vr_min r)) @ ''.'' @ show_int (minor (vr_min r)) @ ''.''
     @ show_int (patch (vr_min r)) @ '', ''
     @ show_int (major (vr_max r)) @ ''.'' @ show_int (minor (vr_max r)) @ ''.''
     @ show_int (patch (vr_max r)) @ (if includeMax r then '']'' else '')'')"

definition VersionRange_overlaps :: "version_range \<Rightarrow> version_range \<Rightarrow> bool" where
  "VersionRange_overlaps a b =
     (if Version_less (vr_max a) (vr_min b) \<or> Version_less (vr_max b) (vr_min a) then False
      else if Version_eq (vr_max a) (vr_min b) then includeMax a \<and> includeMin b
      else if Version_eq (vr_min a) (vr_max b) then includeMin a \<and> includeMax b
      else True)"

section \<open>The ordering\<close>

text \<open>
  The operators compare a key: the three numbers, then the absence of a prerelease (a release
  comes after its prereleases), then the prerelease text. Build metadata is not part of it.
\<close>

definition version_key :: "version \<Rightarrow> int \<times> int \<times> int \<times> nat \<times> string" where
  "version_key v = (major v, minor v, patch v, (if prerelease v = [] then 1 else 0), prerelease v)"

lemma Version_less_key [lith_defs]: "Version_less a b \<longleftrightarrow> version_key a < version_key b"
  by (auto simp: Version_less_def version_key_def)

lemma Version_eq_key [lith_defs]: "Version_eq a b \<longleftrightarrow> version_key a = version_key b"
  by (auto simp: Version_eq_def version_key_def)

lemma Version_le_key [lith_defs]: "Version_le a b \<longleftrightarrow> version_key a \<le> version_key b"
  by (auto simp: Version_le_def Version_less_key)

lemma Version_ge_key [lith_defs]: "Version_ge a b \<longleftrightarrow> version_key b \<le> version_key a"
  by (auto simp: Version_ge_def Version_less_key)

lemma Version_greater_key [lith_defs]: "Version_greater a b \<longleftrightarrow> version_key b < version_key a"
  by (simp add: Version_greater_def Version_less_key)

section \<open>Parsing what was printed\<close>

text \<open>The part of \<^verbatim>\<open>Version::parse\<close> after the second dot, on the text from there on.\<close>

definition parse_tail :: "int \<Rightarrow> int \<Rightarrow> string \<Rightarrow> version result" where
  "parse_tail a b s =
     (let dash = sv_find CHR ''-'' s 0; plus = sv_find CHR ''+'' s 0
      in case parseInt (case min_pos dash plus of None \<Rightarrow> s | Some e \<Rightarrow> take e s) of
           Inl e \<Rightarrow> Inl e
         | Inr pat \<Rightarrow>
           Inr \<lparr>major = a, minor = b, patch = pat,
                prerelease =
                  (case dash of None \<Rightarrow> []
                   | Some d \<Rightarrow>
                     take ((case plus of Some p \<Rightarrow> if p > d then p else length s
                            | None \<Rightarrow> length s) - d - 1) (drop (d + 1) s)),
                build = (case plus of None \<Rightarrow> [] | Some p \<Rightarrow> drop (p + 1) s)\<rparr>)"

lemma parseInt_show_int: "in_int i \<Longrightarrow> parseInt (show_int i) = Inr i"
  using from_chars_show_int [of i "[]"] by (simp add: parseInt_def)

lemma Version_parse_steps:
  assumes v: "v = q @ s" "length q = Suc j"
    and dots: "sv_find CHR ''.'' v 0 = Some i" "sv_find CHR ''.'' v (Suc i) = Some j"
    and ints: "parseInt (take i v) = Inr a" "parseInt (sv_substr v (Suc i) (j - Suc i)) = Inr b"
  shows "Version_parse v = parse_tail a b s"
proof -
  have f: "sv_find c v (Suc j) = map_option (\<lambda>k. Suc j + k) (sv_find c s 0)" for c
    using sv_find_shift [of c q s] v by simp
  have dr: "drop (Suc (j + k)) v = drop k s" "drop (Suc (Suc (j + k))) v = drop (Suc k) s" for k
    using v by (simp_all add: Suc_diff_le)
  have dr0: "drop (Suc j) v = s" and ne: "v \<noteq> []" and len: "length v = Suc j + length s"
    using v by auto
  show ?thesis
    using dots ints
    by (cases "sv_find CHR ''-'' s 0"; cases "sv_find CHR ''+'' s 0")
      (simp_all add: Version_parse_def parse_tail_def Let_def f ne sv_substr_def min_pos_def dr dr0 len
        min_def split: sum.split)
qed

lemma Version_parse_prefix:
  assumes "in_int a" "in_int b"
  shows "Version_parse (show_int a @ ''.'' @ show_int b @ ''.'' @ s) = parse_tail a b s"
proof (rule Version_parse_steps)
  let ?v = "show_int a @ ''.'' @ show_int b @ ''.'' @ s"
  let ?i = "length (show_int a)"
  let ?j = "Suc (length (show_int a)) + length (show_int b)"
  show "?v = (show_int a @ ''.'' @ show_int b @ ''.'') @ s" by simp
  show "length (show_int a @ ''.'' @ show_int b @ ''.'') = Suc ?j" by simp
  show "sv_find CHR ''.'' ?v 0 = Some ?i"
    using sv_find_append [of "CHR ''.''" "show_int a" "[]" 0 "show_int b @ ''.'' @ s"]
    by (simp add: show_int_no_sep)
  show "sv_find CHR ''.'' ?v (Suc ?i) = Some ?j"
    using sv_find_append [of "CHR ''.''" "show_int b" "show_int a @ ''.''" "Suc ?i" s]
    by (simp add: show_int_no_sep)
  show "parseInt (take ?i ?v) = Inr a"
    using assms by (simp add: parseInt_show_int)
  show "parseInt (sv_substr ?v (Suc ?i) (?j - Suc ?i)) = Inr b"
    using assms by (simp add: parseInt_show_int sv_substr_def)
qed

text \<open>
  What a version must satisfy so that its text is read back: components in the \<^verbatim>\<open>int\<close> range,
  a patch without sign, no plus sign in the prerelease and, without a prerelease, no dash in the
  build metadata.
\<close>

definition printable :: "version \<Rightarrow> bool" where
  "printable v \<longleftrightarrow> in_int (major v) \<and> in_int (minor v) \<and> 0 \<le> patch v \<and> in_int (patch v)
     \<and> CHR ''+'' \<notin> set (prerelease v) \<and> (prerelease v = [] \<longrightarrow> CHR ''-'' \<notin> set (build v))"

lemma show_int_nonneg: "0 \<le> c \<Longrightarrow> show_int c = show_nat (nat c)"
  by (simp add: show_int_def)

lemma sv_find_hit: "c \<notin> set a \<Longrightarrow> sv_find c (a @ c # b) 0 = Some (length a)"
  using sv_find_append [of c a "[]" 0 b] by simp

lemma sv_find_miss: "c \<notin> set a \<Longrightarrow> sv_find c a 0 = None"
  using sv_find_none [of c a "[]" 0] by simp

lemma parse_tail_plain:
  assumes "0 \<le> c" "in_int c" "rest = [] \<or> \<not> is_digit (hd rest)"
    "CHR ''-'' \<notin> set rest" "CHR ''+'' \<notin> set rest"
  shows "parse_tail a b (show_int c @ rest)
           = Inr \<lparr>major = a, minor = b, patch = c, prerelease = [], build = []\<rparr>"
proof -
  let ?s = "show_int c @ rest"
  have "sv_find CHR ''-'' ?s 0 = None" "sv_find CHR ''+'' ?s 0 = None"
    using assms by (intro sv_find_miss; simp add: show_int_nonneg show_nat_no_sep)+
  moreover have "from_chars ?s = Some c"
    using assms(2,3) by (rule from_chars_show_int)
  ultimately show ?thesis
    by (simp add: parse_tail_def min_pos_def parseInt_def)
qed

lemma parse_tail_build:
  assumes "0 \<le> c" "in_int c" "CHR ''-'' \<notin> set bld"
  shows "parse_tail a b (show_int c @ CHR ''+'' # bld)
           = Inr \<lparr>major = a, minor = b, patch = c, prerelease = [], build = bld\<rparr>"
proof -
  let ?s = "show_int c @ CHR ''+'' # bld"
  have "sv_find CHR ''-'' ?s 0 = None"
    using assms by (intro sv_find_miss) (simp add: show_int_nonneg show_nat_no_sep)
  moreover have "sv_find CHR ''+'' ?s 0 = Some (length (show_int c))"
    by (intro sv_find_hit) (simp add: show_int_no_sep)
  ultimately show ?thesis
    using assms by (simp add: parse_tail_def min_pos_def parseInt_show_int)
qed

lemma parse_tail_pre:
  assumes "0 \<le> c" "in_int c" "CHR ''+'' \<notin> set pre" "rest = [] \<or> (\<exists>bld. rest = CHR ''+'' # bld)"
  shows "parse_tail a b (show_int c @ CHR ''-'' # pre @ rest)
           = Inr \<lparr>major = a, minor = b, patch = c, prerelease = pre, build = tl rest\<rparr>"
proof -
  let ?s = "show_int c @ CHR ''-'' # pre @ rest"
  have dash: "sv_find CHR ''-'' ?s 0 = Some (length (show_int c))"
    using assms by (intro sv_find_hit) (simp add: show_int_nonneg show_nat_no_sep)
  consider "rest = []" | bld where "rest = CHR ''+'' # bld" using assms(4) by blast
  then show ?thesis
  proof cases
    case 1
    have "sv_find CHR ''+'' ?s 0 = None"
      using assms 1 by (intro sv_find_miss) (simp add: show_int_no_sep)
    then show ?thesis using dash assms 1
      by (simp add: parse_tail_def min_pos_def parseInt_show_int)
  next
    case 2
    have "sv_find CHR ''+'' ((show_int c @ CHR ''-'' # pre) @ CHR ''+'' # bld) 0
            = Some (length (show_int c @ CHR ''-'' # pre))"
      using assms by (intro sv_find_hit) (simp add: show_int_no_sep)
    then show ?thesis using dash assms 2
      by (simp add: parse_tail_def min_pos_def parseInt_show_int)
  qed
qed

lemma Version_parse_toString: "printable v \<Longrightarrow> Version_parse (Version_toString v) = Inr v"
proof -
  assume p: "printable v"
  let ?tail = "show_int (patch v) @ (if prerelease v \<noteq> [] then ''-'' @ prerelease v else [])
     @ (if build v \<noteq> [] then ''+'' @ build v else [])"
  have "Version_parse (Version_toString v) = parse_tail (major v) (minor v) ?tail"
    using p by (simp add: Version_toString_def printable_def Version_parse_prefix flip: append_Cons)
  also have "\<dots> = Inr v"
    using p parse_tail_plain [of "patch v" "[]"] parse_tail_build [of "patch v" "build v"]
      parse_tail_pre [of "patch v" "prerelease v" "if build v \<noteq> [] then ''+'' @ build v else []"]
    by (auto simp: printable_def)
  finally show ?thesis .
qed

section \<open>Constraint strings\<close>

lemma hd_show_int: "hd (show_int i @ rest) = CHR ''-'' \<or> is_digit (hd (show_int i @ rest))"
proof (cases "i < 0")
  case False
  have "is_digit (hd (show_nat (nat i) @ rest))"
    by (rule bspec [OF show_nat_digits [of "nat i"]]) simp
  then show ?thesis using False by (simp add: show_int_def)
qed (simp add: show_int_def)

lemma show_int_nonempty [simp]: "show_int i \<noteq> []"
  by (simp add: show_int_def)

lemma toString_nonempty [simp]: "Version_toString v \<noteq> []"
  by (simp add: Version_toString_def)

lemma hd_toString: "hd (Version_toString v) \<noteq> CHR ''=''" "hd (Version_toString v) \<noteq> CHR ''>''"
proof -
  obtain rest where r: "Version_toString v = show_int (major v) @ rest"
    by (simp add: Version_toString_def)
  show "hd (Version_toString v) \<noteq> CHR ''=''" "hd (Version_toString v) \<noteq> CHR ''>''"
    using hd_show_int [of "major v" rest] unfolding r by (auto simp: is_digit_def)
qed

text \<open>What the code computes for an operator text, over the order key.\<close>

definition constraint_holds :: "string \<Rightarrow> version \<Rightarrow> version \<Rightarrow> bool" where
  "constraint_holds oper a r =
     (if oper = ''^'' then major a = major r \<and> version_key r \<le> version_key a
      else if oper = ''~'' then major a = major r \<and> minor a = minor r \<and> version_key r \<le> version_key a
      else if oper = ''>'' then version_key r < version_key a
      else if oper = ''<'' then version_key a < version_key r
      else if oper = ''>='' then version_key r \<le> version_key a
      else if oper = ''<='' then version_key a \<le> version_key r
      else version_key a = version_key r)"

lemma checkVersion_single:
  assumes "printable r"
  shows "checkVersion v (c # Version_toString r) st
           = Inr (constraint_holds [c] (strategy_view st v) (strategy_view st r))"
proof -
  obtain x xs where t: "Version_toString r = x # xs"
    by (metis toString_nonempty neq_Nil_conv)
  have "x \<noteq> CHR ''=''" "x \<noteq> CHR ''>''" using hd_toString [of r] by (simp_all add: t)
  then show ?thesis
    using Version_parse_toString [OF assms]
    by (simp add: checkVersion_def t Let_def constraint_holds_def lith_defs)
qed

lemma checkVersion_double:
  assumes "printable r" "d = CHR ''=''"
  shows "checkVersion v (c # d # Version_toString r) st
           = Inr (constraint_holds [c, d] (strategy_view st v) (strategy_view st r))"
  using Version_parse_toString [OF assms(1)] assms(2)
  by (simp add: checkVersion_def Let_def constraint_holds_def lith_defs)

section \<open>Dates\<close>

definition valid_date :: "date_version \<Rightarrow> bool" where
  "valid_date d \<longleftrightarrow> 0 \<le> year d \<and> in_int (year d) \<and> 1 \<le> month d \<and> month d \<le> 12 \<and> 1 \<le> day d \<and> day d \<le> 31"

lemma from_chars_digits:
  assumes "\<forall>c \<in> set ds. is_digit c" "ds \<noteq> []" "in_int (int (nat_of_digits ds))"
  shows "from_chars ds = Some (int (nat_of_digits ds))"
proof -
  have "hd ds \<noteq> CHR ''-''" using assms(1,2) by (cases ds) auto
  moreover have "from_chars ds
      = (if hd ds = CHR ''-'' then from_chars ds else Some (int (nat_of_digits ds)))"
    using assms takeWhile_eq_all_conv [THEN iffD2, OF assms(1)]
    by (simp add: from_chars_def Let_def del: takeWhile_eq_all_conv)
  ultimately show ?thesis by simp
qed

lemma show_02d_digits: "0 \<le> i \<Longrightarrow> \<forall>c \<in> set (show_02d i). is_digit c"
  by (auto simp: show_02d_def show_int_nonneg is_digit_def dest: show_nat_digits [THEN bspec])

lemma nat_of_digits_zero: "nat_of_digits (CHR ''0'' # ds) = nat_of_digits ds"
  by (simp add: nat_of_digits_def digit_val_def)

lemma parseInt_show_02d: "0 \<le> i \<Longrightarrow> in_int i \<Longrightarrow> parseInt (show_02d i) = Inr i"
  using from_chars_digits [OF show_02d_digits, of i]
  by (simp add: parseInt_def show_02d_def show_int_nonneg nat_of_digits_zero split: if_splits)

lemma show_02d_nonempty [simp]: "show_02d i \<noteq> []"
  by (simp add: show_02d_def)

lemma DateVersion_parse_print:
  assumes "valid_date d"
  shows "DateVersion_parse (DateVersion_print d) = Inr d"
proof -
  let ?y = "show_int (year d)" and ?m = "show_02d (month d)" and ?d = "show_02d (day d)"
  let ?s = "?y @ CHR ''-'' # ?m @ CHR ''-'' # ?d"
  have m: "in_int (month d)" "in_int (day d)"
    using assms by (auto simp: valid_date_def in_int_def int_min_def int_max_def)
  have "CHR ''-'' \<notin> set ?m"
    using show_02d_digits [of "month d"] assms by (auto simp: valid_date_def)
  then have "sv_find CHR ''-'' ((?y @ ''-'') @ ?m @ CHR ''-'' # ?d) (Suc (length ?y))
               = Some (Suc (length ?y) + length ?m)"
    by (intro sv_find_append) simp_all
  moreover have "sv_find CHR ''-'' ?s 0 = Some (length ?y)"
    using assms by (intro sv_find_hit) (simp add: valid_date_def show_int_nonneg show_nat_no_sep)
  ultimately show ?thesis
    using assms m
    by (simp add: DateVersion_parse_def DateVersion_print_def sv_substr_def valid_date_def
        parseInt_show_int parseInt_show_02d)
qed

section \<open>Ranges\<close>

lemma VersionRange_parse_text:
  assumes "printable lo" "printable hi" "CHR '','' \<notin> set (Version_toString lo)" "p \<noteq> CHR '',''"
  shows "VersionRange_parse (p # Version_toString lo @ CHR '','' # Version_toString hi @ [q])
           = Inr \<lparr>vr_min = lo, vr_max = hi, includeMin = (p = CHR ''[''), includeMax = (q = CHR '']'')\<rparr>"
proof -
  let ?s = "(p # Version_toString lo) @ CHR '','' # Version_toString hi @ [q]"
  have "sv_find CHR '','' ?s 0 = Some (length (p # Version_toString lo))"
    using assms by (intro sv_find_hit) auto
  then show ?thesis
    using assms
    by (simp add: VersionRange_parse_def Let_def sv_substr_def Version_parse_toString)
qed

lemma Version_parse_space: "is_error (Version_parse (CHR '' '' # show_int a @ ''.'' @ rest))"
proof -
  have "sv_find CHR ''.'' (CHR '' '' # show_int a @ ''.'' @ rest) 0 = Some (Suc (length (show_int a)))"
    using sv_find_hit [of "CHR ''.''" "CHR '' '' # show_int a" rest] by (simp add: show_int_no_sep)
  then show ?thesis
    by (simp add: Version_parse_def sv_substr_def parseInt_def from_chars_no_digit)
qed

lemma VersionRange_parse_space:
  assumes "CHR '','' \<notin> set lo" "p \<noteq> CHR '',''"
  shows "is_error (VersionRange_parse (p # lo @ '', '' @ show_int a @ ''.'' @ rest @ [q]))"
proof -
  let ?s = "(p # lo) @ CHR '','' # CHR '' '' # show_int a @ ''.'' @ rest @ [q]"
  have f: "sv_find CHR '','' ?s 0 = Some (length (p # lo))"
    using assms by (intro sv_find_hit) auto
  have "is_error (Version_parse (CHR '' '' # show_int a @ CHR ''.'' # rest))"
    using Version_parse_space [of a rest] by simp
  then show ?thesis
    using f by (auto simp: VersionRange_parse_def Let_def sv_substr_def is_error_def split: sum.splits)
qed

lemma overlaps_common:
  assumes "VersionRange_contains a v" "VersionRange_contains b v"
  shows "VersionRange_overlaps a b"
  using assms
  by (auto simp: VersionRange_contains_def VersionRange_overlaps_def lith_defs split: if_splits)

lemma overlaps_closed:
  assumes "includeMin a" "includeMax a" "includeMin b" "includeMax b"
    "Version_le (vr_min a) (vr_max a)" "Version_le (vr_min b) (vr_max b)"
    "VersionRange_overlaps a b"
  shows "VersionRange_contains a (vr_min b) \<and> VersionRange_contains b (vr_min b)
       \<or> VersionRange_contains a (vr_min a) \<and> VersionRange_contains b (vr_min a)"
  using assms
  by (auto simp: VersionRange_contains_def VersionRange_overlaps_def lith_defs split: if_splits)

section \<open>Properties\<close>

text \<open>
  A version whose parts are printable is read back from its own text, with the
  prerelease and the build metadata separated again.
\<close>

theorem version_roundtrip: "printable v \<Longrightarrow> Version_parse (Version_toString v) = Inr v"
  by (rule Version_parse_toString)

theorem version_roundtrip_witness:
  "Version_parse (Version_toString
      \<lparr>major = 1, minor = 2, patch = 3, prerelease = ''rc-1'', build = ''b+7''\<rparr>)
   = Inr \<lparr>major = 1, minor = 2, patch = 3, prerelease = ''rc-1'', build = ''b+7''\<rparr>"
  by (rule version_roundtrip) (simp add: printable_def in_int_def int_min_def int_max_def)

text \<open>
  the six comparison operators of versions all agree with one total order, that of
  the key (numbers, then release after prerelease, then prerelease text): exactly one of less,
  equal and greater holds, and the order is transitive.
\<close>

theorem version_order:
  "(Version_less a b \<longleftrightarrow> version_key a < version_key b)
   \<and> (Version_eq a b \<longleftrightarrow> version_key a = version_key b)
   \<and> (Version_greater a b \<longleftrightarrow> \<not> Version_less a b \<and> \<not> Version_eq a b)
   \<and> (Version_le a b \<longleftrightarrow> Version_less a b \<or> Version_eq a b)
   \<and> (Version_ge a b \<longleftrightarrow> Version_greater a b \<or> Version_eq a b)
   \<and> \<not> (Version_less a b \<and> Version_less b c \<and> \<not> Version_less a c)"
  by (auto simp: lith_defs)

text \<open>The operators a constraint text may start with.\<close>

definition version_operators :: "string list" where
  "version_operators = [''^'', ''~'', ''>'', ''<'', ''='', ''>='', ''<='']"

text \<open>
  a constraint made of one of the operators and the text of a printable version is
  decided as documented: caret and tilde pin the major or the major and minor number and ask for
  at least the required version, the others compare. Both sides go through the chosen strategy.
\<close>

theorem checkVersion_operators:
  assumes "oper \<in> set version_operators" "printable r"
  shows "checkVersion v (oper @ Version_toString r) st
           = Inr (constraint_holds oper (strategy_view st v) (strategy_view st r))"
  using assms checkVersion_single [OF assms(2)] checkVersion_double [OF assms(2)]
  by (auto simp: version_operators_def)

theorem checkVersion_operators_witness:
  "checkVersion (mk_version 1 5 0) (''^'' @ Version_toString (mk_version 1 2 3)) Strict = Inr True"
  by (subst checkVersion_operators)
    (simp_all add: version_operators_def printable_def in_int_def int_min_def int_max_def
      mk_version_def constraint_holds_def strategy_view_def version_key_def)

text \<open>
  A constraint without an operator loses its first character. A digit put in front of
  the text of a version does not change the verdict: \<^verbatim>\<open>checkVersion\<close> compares with the version
  behind that digit.
\<close>

theorem checkVersion_bare_digit:
  assumes "is_digit d" "printable r"
  shows "checkVersion v (d # Version_toString r) st
           = Inr (version_key (strategy_view st v) = version_key (strategy_view st r))"
proof -
  have "d \<noteq> CHR ''^''" "d \<noteq> CHR ''~''" "d \<noteq> CHR ''>''" "d \<noteq> CHR ''<''"
    using assms(1) by (auto simp: is_digit_def)
  then show ?thesis
    using checkVersion_single [OF assms(2)] by (simp add: constraint_holds_def)
qed

theorem checkVersion_bare_digit_witness:
  "checkVersion (mk_version 2 0 0) (CHR ''1'' # Version_toString (mk_version 2 0 0)) Strict = Inr True"
  by (subst checkVersion_bare_digit)
    (simp_all add: is_digit_def printable_def in_int_def int_min_def int_max_def mk_version_def)

text \<open>
  two ranges with a version in common are reported as overlapping.
  For closed, nonempty ranges the report is exact: they overlap only if a common version exists.
\<close>

theorem VersionRange_overlaps_correct:
  "((\<exists>v. VersionRange_contains a v \<and> VersionRange_contains b v) \<longrightarrow> VersionRange_overlaps a b)
   \<and> (includeMin a \<and> includeMax a \<and> includeMin b \<and> includeMax b
      \<and> Version_le (vr_min a) (vr_max a) \<and> Version_le (vr_min b) (vr_max b)
      \<longrightarrow> (VersionRange_overlaps a b
           \<longleftrightarrow> (\<exists>v. VersionRange_contains a v \<and> VersionRange_contains b v)))"
  using overlaps_common [of a _ b] overlaps_closed [of a b] by blast

theorem VersionRange_overlaps_witness:
  "let a = \<lparr>vr_min = mk_version 1 0 0, vr_max = mk_version 2 0 0, includeMin = True, includeMax = True\<rparr>;
       b = \<lparr>vr_min = mk_version 1 5 0, vr_max = mk_version 3 0 0, includeMin = True, includeMax = True\<rparr>
   in VersionRange_overlaps a b \<and> (\<exists>v. VersionRange_contains a v \<and> VersionRange_contains b v)"
  using VersionRange_overlaps_correct
    [of "\<lparr>vr_min = mk_version 1 0 0, vr_max = mk_version 2 0 0, includeMin = True, includeMax = True\<rparr>"
      "\<lparr>vr_min = mk_version 1 5 0, vr_max = mk_version 3 0 0, includeMin = True, includeMax = True\<rparr>"]
  by (simp add: VersionRange_overlaps_def lith_defs version_key_def mk_version_def Let_def)

text \<open>
  The text \<^verbatim>\<open>VersionRange::toString\<close> produces is never accepted by
  \<^verbatim>\<open>VersionRange::parse\<close>: the space after the comma ends up in front of the major number.
\<close>

theorem VersionRange_no_roundtrip: "is_error (VersionRange_parse (VersionRange_toString r))"
proof -
  let ?lo = "show_int (major (vr_min r)) @ ''.'' @ show_int (minor (vr_min r)) @ ''.''
     @ show_int (patch (vr_min r))"
  have "CHR '','' \<notin> set ?lo" by (simp add: show_int_no_sep)
  then show ?thesis
    using VersionRange_parse_space [of ?lo "if includeMin r then CHR ''['' else CHR ''(''"
        "major (vr_max r)" "show_int (minor (vr_max r)) @ ''.'' @ show_int (patch (vr_max r))"
        "if includeMax r then CHR '']'' else CHR '')''"]
    by (cases "includeMin r"; cases "includeMax r") (simp_all add: VersionRange_toString_def)
qed

text \<open>
  Dates are read back from their text, and an accepted date has its month in 1..12
  and its day in 1..31.
\<close>

theorem DateVersion_roundtrip:
  "(valid_date d \<longrightarrow> DateVersion_parse (DateVersion_print d) = Inr d)
   \<and> (\<forall>s d'. DateVersion_parse s = Inr d' \<longrightarrow> 1 \<le> month d' \<and> month d' \<le> 12 \<and> 1 \<le> day d' \<and> day d' \<le> 31)"
  using DateVersion_parse_print
  by (auto simp: DateVersion_parse_def Let_def split: if_splits option.splits sum.splits)

theorem DateVersion_roundtrip_witness:
  "DateVersion_parse (DateVersion_print \<lparr>year = 2024, month = 3, day = 9\<rparr>)
     = Inr \<lparr>year = 2024, month = 3, day = 9\<rparr>
   \<and> 1 \<le> month \<lparr>year = 2024, month = 3, day = 9\<rparr>"
  using DateVersion_roundtrip [of "\<lparr>year = 2024, month = 3, day = 9\<rparr>"]
  by (simp add: valid_date_def in_int_def int_min_def int_max_def)

end
