(* ===== verification/Graph_Search.thy ===== *)
theory Graph_Search
  imports Lithium_Prelude
begin

text \<open>
  The contract shared by the depth-first cycle searches of the program
  (\<^verbatim>\<open>DependencyGraph::hasCycleUtil\<close> and the closure inside
  \<^verbatim>\<open>ExposureSequence::findCyclicDependency\<close>): a set of visited nodes, a recursion stack, a visit of
  one node, a scan of its successors and a scan of the roots. The locale \<open>cycle_search\<close> lists the
  equations a client has to satisfy and proves, once, that the search finds a cycle if and only if
  there is one. Both components interpret it.
\<close>

definition edges :: "('a \<Rightarrow> 'a list) \<Rightarrow> ('a \<times> 'a) set" where
  "edges succs = {(x, y). y \<in> set (succs x)}"

lemma edges_iff [simp]: "(x, y) \<in> edges succs \<longleftrightarrow> y \<in> set (succs x)"
  by (simp add: edges_def)

lemma closed_trancl:
  assumes "\<And>x y. x \<in> B \<Longrightarrow> (x, y) \<in> E \<Longrightarrow> y \<in> B" "(a, b) \<in> E\<^sup>+" "a \<in> B"
  shows "b \<in> B"
  using assms(2,3) by (induction rule: trancl_induct) (auto intro: assms(1))

lemma closed_rtrancl:
  assumes "\<And>x y. x \<in> B \<Longrightarrow> (x, y) \<in> E \<Longrightarrow> y \<in> B" "(a, b) \<in> E\<^sup>*" "a \<in> B"
  shows "b \<in> B"
  using assms(2,3) by (induction rule: rtrancl_induct) (auto intro: assms(1))

text \<open>
  The measure of the nested searches over an adjacency map: keys not visited yet. Visiting a node
  uses one up, unless the node has no entry, and then it has no successors either.
\<close>

definition fresh :: "'a list umap \<Rightarrow> string list \<Rightarrow> nat" where
  "fresh m vis = card (keys m - set vis)"

lemma fresh_mono: "set vis \<subseteq> set vis' \<Longrightarrow> fresh m vis' \<le> fresh m vis"
  unfolding fresh_def by (intro card_mono) auto

lemma fresh_less: "x \<in> keys m \<Longrightarrow> x \<notin> set vis \<Longrightarrow> insert x (set vis) \<subseteq> set vis' \<Longrightarrow> fresh m vis' < fresh m vis"
  unfolding fresh_def by (intro psubset_card_mono) auto

lemma fresh_visit:
  assumes "y \<notin> set vis"
  shows "fresh m (y # vis) < fresh m vis \<or> fresh m (y # vis) = fresh m vis \<and> lookup_or [] m y = []"
proof (cases "y \<in> keys m")
  case True
  then have "fresh m (y # vis) < fresh m vis" using assms by (intro fresh_less) auto
  then show ?thesis ..
next
  case False
  then show ?thesis by (simp add: lookup_or_absent fresh_def Diff_insert0)
qed

section \<open>Finite graphs given by successor lists\<close>

locale successors =
  fixes succs :: "'a \<Rightarrow> 'a list" and nodes :: "'a set"
  assumes finite_nodes: "finite nodes"
    and succs_closed: "x \<in> nodes \<Longrightarrow> set (succs x) \<subseteq> nodes"
begin

definition unvisited :: "'a list \<Rightarrow> nat" where
  "unvisited vis = card (nodes - set vis)"

lemma unvisited_mono: "set vis \<subseteq> set vis' \<Longrightarrow> unvisited vis' \<le> unvisited vis"
  unfolding unvisited_def using finite_nodes by (intro card_mono) auto

lemma unvisited_less:
  assumes "x \<in> nodes" "x \<notin> set vis" "insert x (set vis) \<subseteq> set vis'"
  shows "unvisited vis' < unvisited vis"
  unfolding unvisited_def using assms finite_nodes by (intro psubset_card_mono) auto

end

section \<open>Search for a cycle\<close>

locale cycle_search = successors +
  fixes visit :: "'a \<Rightarrow> 'a list \<Rightarrow> 'a list \<Rightarrow> bool \<times> 'a list \<times> 'a list"
    and scan :: "'a \<Rightarrow> 'a list \<Rightarrow> 'a list \<Rightarrow> 'a list \<Rightarrow> bool \<times> 'a list \<times> 'a list"
    and roots :: "'a list \<Rightarrow> 'a list \<Rightarrow> 'a list \<Rightarrow> bool"
  assumes visit_new: "x \<in> nodes \<Longrightarrow> x \<notin> set vis \<Longrightarrow> x \<notin> set stack \<Longrightarrow>
      visit x vis stack =
        (case scan x (succs x) (x # vis) (x # stack) of
           (b, vis', stack') \<Rightarrow> if b then (True, vis', stack') else (False, vis', removeAll x stack'))"
    and scan_Nil: "scan x [] vis stack = (False, vis, stack)"
    and scan_new: "x \<in> nodes \<Longrightarrow> y \<in> nodes \<Longrightarrow> y \<notin> set vis \<Longrightarrow> visit y vis stack = (b, vis', stack') \<Longrightarrow>
      y \<notin> set stack' \<Longrightarrow> y \<in> set vis' \<Longrightarrow>
      scan x (y # ys) vis stack = (if b then (True, vis', stack') else scan x ys vis' stack')"
    and scan_found: "x \<in> nodes \<Longrightarrow> y \<in> nodes \<Longrightarrow> y \<notin> set vis \<Longrightarrow>
      fst (visit y vis stack) \<Longrightarrow> fst (scan x (y # ys) vis stack)"
    and scan_grey: "x \<in> nodes \<Longrightarrow> y \<in> nodes \<Longrightarrow> y \<in> set vis \<Longrightarrow> y \<in> set stack \<Longrightarrow>
      fst (scan x (y # ys) vis stack)"
    and scan_black: "x \<in> nodes \<Longrightarrow> y \<in> nodes \<Longrightarrow> y \<in> set vis \<Longrightarrow> y \<notin> set stack \<Longrightarrow>
      scan x (y # ys) vis stack = scan x ys vis stack"
    and roots_Nil: "\<not> roots [] vis []"
    and roots_visited: "x \<in> nodes \<Longrightarrow> x \<in> set vis \<Longrightarrow> roots (x # xs) vis [] = roots xs vis []"
    and roots_found: "x \<in> nodes \<Longrightarrow> x \<notin> set vis \<Longrightarrow> fst (visit x vis []) \<Longrightarrow> roots (x # xs) vis []"
    and roots_next: "x \<in> nodes \<Longrightarrow> x \<notin> set vis \<Longrightarrow> visit x vis [] = (False, vis', []) \<Longrightarrow>
      roots (x # xs) vis [] = roots xs vis' []"
begin

abbreviation E where "E \<equiv> edges succs"

text \<open>
  The search invariant: the nodes that are visited and off the stack are closed under successors,
  and none of them lies on a cycle.
\<close>

definition search_inv :: "'a list \<Rightarrow> 'a list \<Rightarrow> bool" where
  "search_inv vis stack \<longleftrightarrow> set stack \<subseteq> set vis \<and> set vis \<subseteq> nodes
     \<and> (\<forall>x \<in> set vis - set stack. set (succs x) \<subseteq> set vis - set stack \<and> (x, x) \<notin> E\<^sup>+)"

text \<open>What a visit or a scan guarantees when it reports no cycle, and when it reports one.\<close>

definition outcome :: "'a set \<Rightarrow> 'a list \<Rightarrow> 'a list \<Rightarrow> bool \<times> 'a list \<times> 'a list \<Rightarrow> bool" where
  "outcome done vis stack r \<longleftrightarrow>
     (if fst r then \<exists>c. (c, c) \<in> E\<^sup>+
      else snd (snd r) = stack \<and> set vis \<subseteq> set (fst (snd r)) \<and> search_inv (fst (snd r)) stack
           \<and> done \<subseteq> set (fst (snd r)) - set stack)"

lemma search_inv_push:
  "search_inv vis stack \<Longrightarrow> x \<in> nodes \<Longrightarrow> x \<notin> set vis \<Longrightarrow> search_inv (x # vis) (x # stack)"
  by (auto simp: search_inv_def)

lemma search_inv_pop:
  assumes "search_inv vis (x # stack)" "set (succs x) \<subseteq> set vis - set (x # stack)" "x \<notin> set stack"
  shows "search_inv vis stack"
proof -
  let ?black = "set vis - set (x # stack)"
  have "(x, x) \<notin> E\<^sup>+"
  proof
    assume "(x, x) \<in> E\<^sup>+"
    then obtain y where y: "y \<in> set (succs x)" "(y, x) \<in> E\<^sup>*" by (auto dest: tranclD)
    have "x \<in> ?black"
    proof (rule closed_rtrancl [OF _ y(2)])
      show "y \<in> ?black" using y(1) assms(2) by blast
    qed (use assms(1) in \<open>auto simp: search_inv_def\<close>)
    then show False by simp
  qed
  then show ?thesis using assms by (fastforce simp: search_inv_def)
qed

lemma scan_outcome:
  assumes ind: "\<And>y vis'. y \<in> nodes \<Longrightarrow> y \<notin> set vis' \<Longrightarrow> set vis \<subseteq> set vis' \<Longrightarrow> search_inv vis' stack \<Longrightarrow>
      \<forall>r \<in> set stack. (r, y) \<in> E\<^sup>+ \<Longrightarrow> outcome {y} vis' stack (visit y vis' stack)"
    and x: "x \<in> nodes" "set ys \<subseteq> set (succs x)" "\<forall>r \<in> set stack. (r, x) \<in> E\<^sup>*"
    and inv: "search_inv vis stack"
  shows "outcome (set ys) vis stack (scan x ys vis stack)"
  using ind x(2) inv
proof (induction ys arbitrary: vis)
  case Nil
  then show ?case by (simp add: outcome_def scan_Nil)
next
  case (Cons y ys)
  have y: "y \<in> nodes" "y \<in> set (succs x)" using Cons.prems(2) succs_closed [OF x(1)] by auto
  then have reach: "\<forall>r \<in> set stack. (r, y) \<in> E\<^sup>+"
    using x(3) by (auto intro: rtrancl_into_trancl1)
  consider "y \<in> set stack" | "y \<in> set vis" "y \<notin> set stack" | "y \<notin> set vis" by blast
  then show ?case
  proof cases
    case 1
    then have "fst (scan x (y # ys) vis stack)"
      using Cons.prems(3) x(1) y(1) by (intro scan_grey) (auto simp: search_inv_def)
    then show ?thesis using 1 reach by (auto simp: outcome_def)
  next
    case 2
    then have eq: "scan x (y # ys) vis stack = scan x ys vis stack"
      using x(1) y(1) by (intro scan_black)
    have "outcome (set ys) vis stack (scan x ys vis stack)"
      using Cons.prems(2,3) by (intro Cons.IH Cons.prems(1)) auto
    then show ?thesis unfolding eq using 2 by (auto simp: outcome_def split: if_splits)
  next
    case 3
    then have o: "outcome {y} vis stack (visit y vis stack)"
      using Cons.prems(1) [of y vis] Cons.prems(3) y(1) reach by simp
    show ?thesis
    proof (cases "visit y vis stack")
      case (fields b vis' stack')
      show ?thesis
      proof (cases b)
        case True
        then show ?thesis using o scan_found [OF x(1) y(1) 3, of stack ys] fields
          by (simp add: outcome_def)
      next
        case False
        then have v: "stack' = stack" "set vis \<subseteq> set vis'" "search_inv vis' stack" "y \<in> set vis' - set stack"
          using o fields by (auto simp: outcome_def)
        have "outcome (set ys) vis' stack (scan x ys vis' stack)"
          using Cons.prems(2) v by (intro Cons.IH Cons.prems(1)) auto
        then show ?thesis
          using scan_new [OF x(1) y(1) 3 fields] False v
          by (auto simp: outcome_def dest: subsetD split: if_splits)
      qed
    qed
  qed
qed

lemma visit_outcome:
  "x \<in> nodes \<Longrightarrow> x \<notin> set vis \<Longrightarrow> search_inv vis stack \<Longrightarrow> \<forall>r \<in> set stack. (r, x) \<in> E\<^sup>+ \<Longrightarrow>
   outcome {x} vis stack (visit x vis stack)"
proof (induction "unvisited vis" arbitrary: x vis stack rule: less_induct)
  case less
  have ns: "x \<notin> set stack" using less.prems by (auto simp: search_inv_def)
  have s: "outcome (set (succs x)) (x # vis) (x # stack) (scan x (succs x) (x # vis) (x # stack))"
  proof (rule scan_outcome)
    show "search_inv (x # vis) (x # stack)" using less.prems by (intro search_inv_push)
    show "\<forall>r \<in> set (x # stack). (r, x) \<in> E\<^sup>*" using less.prems by auto
    fix y vis'
    assume "y \<in> nodes" "y \<notin> set vis'" "set (x # vis) \<subseteq> set vis'" "search_inv vis' (x # stack)"
      "\<forall>r \<in> set (x # stack). (r, y) \<in> E\<^sup>+"
    then show "outcome {y} vis' (x # stack) (visit y vis' (x # stack))"
      using less.prems unvisited_less [of x vis vis'] by (intro less.hyps) auto
  qed (use less.prems in auto)
  obtain b vis' stack' where r: "scan x (succs x) (x # vis) (x # stack) = (b, vis', stack')"
    by (cases "scan x (succs x) (x # vis) (x # stack)")
  note eq = visit_new [OF less.prems(1,2) ns, unfolded r]
  show ?case
  proof (cases b)
    case True
    then show ?thesis using s eq r by (simp add: outcome_def)
  next
    case False
    then have v: "stack' = x # stack" "set (x # vis) \<subseteq> set vis'" "search_inv vis' (x # stack)"
      "set (succs x) \<subseteq> set vis' - set (x # stack)"
      using s r by (simp_all add: outcome_def)
    have "search_inv vis' stack" by (rule search_inv_pop [OF v(3,4) ns])
    moreover have "visit x vis stack = (False, vis', stack)" using eq False v(1) ns by simp
    ultimately show ?thesis using v(2) ns by (simp add: outcome_def)
  qed
qed

lemma roots_outcome:
  assumes "set xs \<subseteq> nodes" "search_inv vis []"
  shows "if \<not> roots xs vis [] then \<exists>vis'. search_inv vis' [] \<and> set xs \<union> set vis \<subseteq> set vis'
         else \<exists>c. (c, c) \<in> E\<^sup>+"
  using assms
proof (induction xs arbitrary: vis)
  case Nil
  then show ?case by (auto simp: roots_Nil)
next
  case (Cons x xs)
  show ?case
  proof (cases "x \<in> set vis")
    case True
    then show ?thesis using Cons.IH [of vis] Cons.prems by (auto simp: roots_visited split: if_splits)
  next
    case False
    have o: "outcome {x} vis [] (visit x vis [])"
      using Cons.prems False by (intro visit_outcome) auto
    obtain b vis' stack' where r: "visit x vis [] = (b, vis', stack')"
      by (cases "visit x vis []")
    show ?thesis
    proof (cases b)
      case True
      then show ?thesis using o r roots_found [of x vis xs] Cons.prems(1) False
        by (auto simp: outcome_def)
    next
      case f: False
      then have v: "stack' = []" "set vis \<subseteq> set vis'" "search_inv vis' []" "x \<in> set vis'"
        using o r by (auto simp: outcome_def)
      moreover have "roots (x # xs) vis [] = roots xs vis' []"
        using Cons.prems(1) False f r v(1) by (intro roots_next) auto
      ultimately show ?thesis
        using Cons.IH [of vis'] Cons.prems(1) by (auto split: if_splits) (metis subset_trans subsetD)
    qed
  qed
qed

theorem search_correct:
  assumes "set xs \<subseteq> nodes" "\<And>x. succs x \<noteq> [] \<Longrightarrow> x \<in> set xs"
  shows "\<not> roots xs [] [] \<longleftrightarrow> acyclic E"
proof
  assume "\<not> roots xs [] []"
  then obtain vis where v: "search_inv vis []" "set xs \<subseteq> set vis"
    using roots_outcome [OF assms(1), of "[]"] by (auto simp: search_inv_def)
  have "(c, c) \<notin> E\<^sup>+" for c
  proof
    assume c: "(c, c) \<in> E\<^sup>+"
    then obtain y where "y \<in> set (succs c)" by (auto dest: tranclD)
    then have "c \<in> set xs" using assms(2) [of c] by fastforce
    then show False using v c by (auto simp: search_inv_def)
  qed
  then show "acyclic E" by (simp add: acyclic_def)
next
  assume "acyclic E"
  then show "\<not> roots xs [] []"
    using roots_outcome [OF assms(1), of "[]"] by (auto simp: search_inv_def acyclic_def split: if_splits)
qed

end

end
