(* ===== verification/Dependency_Graph.thy ===== *)
theory Dependency_Graph
  imports Version Graph_Search
begin

text \<open>
  The package dependency graph of \<^verbatim>\<open>src/src/components/core/dependency.hpp\<close> and
  \<^verbatim>\<open>dependency.cpp\<close>: its adjacency and incoming-edge maps, the version table, the operations that
  change them, the depth-first searches (cycle detection, topological sort, transitive
  dependencies) and the resolution of package files. Unordered containers are lists in iteration
  order. Parsing a package file is a parameter (a function from directory and file name to the
  parse result); locks have no counterpart in the sequential model.
\<close>

section \<open>State\<close>

record graph =
  adjList :: "string list umap"
  incomingEdges :: "string list umap"
  nodeVersions :: "version umap"
  priorities :: "int umap"
  groups :: "string list umap"
  dependencyCache :: "string list umap"

definition DependencyGraph_new :: graph where
  "DependencyGraph_new =
     \<lparr>adjList = [], incomingEdges = [], nodeVersions = [], priorities = [], groups = [],
      dependencyCache = []\<rparr>"

definition DependencyGraph_clear :: "graph \<Rightarrow> graph" where
  "DependencyGraph_clear g =
     g\<lparr>adjList := [], incomingEdges := [], nodeVersions := [], priorities := [], dependencyCache := []\<rparr>"

section \<open>Nodes and edges\<close>

definition addNode :: "string \<Rightarrow> version \<Rightarrow> graph \<Rightarrow> graph result" where
  "addNode node v g =
     (if node = [] then Inl (InvalidArgument ''Node name cannot be empty'')
      else Inr (g\<lparr>adjList := try_emplace node [] (adjList g),
                 incomingEdges := try_emplace node [] (incomingEdges g),
                 nodeVersions := AList.update node v (nodeVersions g)\<rparr>))"

definition nodeExists :: "string \<Rightarrow> graph \<Rightarrow> bool" where
  "nodeExists node g \<longleftrightarrow> map_of (adjList g) node \<noteq> None"

definition getNodeVersion :: "string \<Rightarrow> graph \<Rightarrow> version option" where
  "getNodeVersion node g = map_of (nodeVersions g) node"

definition validateVersion :: "string \<Rightarrow> string \<Rightarrow> version \<Rightarrow> graph \<Rightarrow> unit result" where
  "validateVersion frm to requiredVersion g =
     (case getNodeVersion to g of
        None \<Rightarrow> Inl (InvalidArgument (''Dependency '' @ to @ '' not found for node '' @ frm))
      | Some toVersion \<Rightarrow>
        if Version_less toVersion requiredVersion
        then Inl (InvalidArgument
          (''Version requirement not satisfied for dependency '' @ frm @ '' -> '' @ to
           @ ''. Required: '' @ Version_toString requiredVersion @ '', Found: ''
           @ Version_toString toVersion))
        else Inr ())"

definition addDependency :: "string \<Rightarrow> string \<Rightarrow> version \<Rightarrow> graph \<Rightarrow> graph result" where
  "addDependency frm to requiredVersion g =
     (if frm = [] \<or> to = [] then Inl (InvalidArgument ''Node names cannot be empty'')
      else if frm = to then Inl (InvalidArgument (''Self-dependency not allowed: '' @ frm))
      else case validateVersion frm to requiredVersion g of
        Inl e \<Rightarrow> Inl e
      | Inr _ \<Rightarrow>
        Inr (g\<lparr>adjList := AList.update frm (List.insert to (lookup_or [] (adjList g) frm)) (adjList g),
               incomingEdges :=
                 AList.update to (List.insert frm (lookup_or [] (incomingEdges g) to)) (incomingEdges g)\<rparr>))"

definition removeNode :: "string \<Rightarrow> graph \<Rightarrow> graph" where
  "removeNode node g =
     g\<lparr>adjList := map_vals (removeAll node) (AList.delete node (adjList g)),
       incomingEdges := map_vals (removeAll node) (AList.delete node (incomingEdges g)),
       nodeVersions := AList.delete node (nodeVersions g),
       priorities := AList.delete node (priorities g),
       dependencyCache := AList.delete node (dependencyCache g)\<rparr>"

definition removeDependency :: "string \<Rightarrow> string \<Rightarrow> graph \<Rightarrow> graph" where
  "removeDependency frm to g =
     g\<lparr>adjList := (case map_of (adjList g) frm of None \<Rightarrow> adjList g
                   | Some ns \<Rightarrow> AList.update frm (removeAll to ns) (adjList g)),
       incomingEdges := (case map_of (incomingEdges g) to of None \<Rightarrow> incomingEdges g
                   | Some ns \<Rightarrow> AList.update to (removeAll frm ns) (incomingEdges g))\<rparr>"

definition getDependencies :: "string \<Rightarrow> graph \<Rightarrow> string list" where
  "getDependencies node g =
     (case map_of (adjList g) node of None \<Rightarrow> [] | Some deps \<Rightarrow> deps)"

definition getDependents :: "string \<Rightarrow> graph \<Rightarrow> string list" where
  "getDependents node g =
     (case map_of (incomingEdges g) node of None \<Rightarrow> [] | Some deps \<Rightarrow> deps)"

definition DependencyGraph_setPriority :: "string \<Rightarrow> int \<Rightarrow> graph \<Rightarrow> graph" where
  "DependencyGraph_setPriority node prio g = g\<lparr>priorities := AList.update node prio (priorities g)\<rparr>"

definition addGroup :: "string \<Rightarrow> string list \<Rightarrow> graph \<Rightarrow> graph result" where
  "addGroup groupName ns g =
     (if groupName = [] then Inl (InvalidArgument ''Group name cannot be empty'')
      else Inr (g\<lparr>groups := AList.update groupName ns (groups g)\<rparr>))"

definition clearCache :: "graph \<Rightarrow> graph" where
  "clearCache g = g\<lparr>dependencyCache := []\<rparr>"

section \<open>Searches\<close>

function (sequential) hasCycleUtil ::
    "string list umap \<Rightarrow> string \<Rightarrow> string list \<Rightarrow> string list \<Rightarrow> bool \<times> string list \<times> string list"
  and hasCycleNeighbors ::
    "string list umap \<Rightarrow> string list \<Rightarrow> string list \<Rightarrow> string list \<Rightarrow> bool \<times> string list \<times> string list"
where
  "hasCycleUtil adjs node visited recStack =
     (if node \<in> set visited then (False, visited, removeAll node recStack)
      else case map_of adjs node of
        None \<Rightarrow> (False, node # visited, List.insert node recStack)
      | Some neighbors \<Rightarrow>
        (case hasCycleNeighbors adjs neighbors (node # visited) (List.insert node recStack) of
           (found, visited', recStack') \<Rightarrow>
             if found then (True, visited', recStack')
             else (False, visited', removeAll node recStack')))"
| "hasCycleNeighbors adjs [] visited recStack = (False, visited, recStack)"
| "hasCycleNeighbors adjs (neighbor # rest) visited recStack =
     (if neighbor \<notin> set visited then
        (case hasCycleUtil adjs neighbor visited recStack of
           (found, visited', recStack') \<Rightarrow>
             if found then (True, visited', recStack')
             else if neighbor \<in> set recStack' then (True, visited', recStack')
             else hasCycleNeighbors adjs rest visited' recStack')
      else if neighbor \<in> set recStack then (True, visited, recStack)
      else hasCycleNeighbors adjs rest visited recStack)"
  by pat_completeness auto

lemma hasCycle_grows:
  "hasCycleUtil_hasCycleNeighbors_dom (Inl (m, x, vis, st)) \<Longrightarrow>
     set vis \<subseteq> set (fst (snd (hasCycleUtil m x vis st)))"
  "hasCycleUtil_hasCycleNeighbors_dom (Inr (m, xs, vis, st)) \<Longrightarrow>
     set vis \<subseteq> set (fst (snd (hasCycleNeighbors m xs vis st)))"
proof (induction rule: hasCycleUtil_hasCycleNeighbors.pinduct)
  case (1 m x vis st)
  then show ?case
    by (subst hasCycleUtil.psimps [OF 1(1)])
      (fastforce split: option.splits prod.splits)
next
  case (2 m vis st)
  then show ?case by (simp add: hasCycleNeighbors.psimps)
next
  case (3 m y ys vis st)
  obtain b vis' st' where r: "hasCycleUtil m y vis st = (b, vis', st')" by (rule prod_cases3)
  note eq = hasCycleNeighbors.psimps(2) [OF 3(1)]
  show ?case
  proof (cases "y \<in> set vis")
    case True
    then show ?thesis using 3(4) by (simp add: eq)
  next
    case False
    then have g: "set vis \<subseteq> set vis'" using 3(2) r by simp
    show ?thesis
    proof (cases "b \<or> y \<in> set st'")
      case True
      then show ?thesis using False g by (auto simp: eq r)
    next
      case f: False
      then have "set vis' \<subseteq> set (fst (snd (hasCycleNeighbors m ys vis' st')))"
        using 3(3) [OF False r [symmetric]] by simp
      then show ?thesis using False f g by (auto simp: eq r)
    qed
  qed
qed

termination hasCycleUtil
proof (relation "measures
     [\<lambda>a. case a of Inl (m, x, vis, st) \<Rightarrow> fresh m (x # vis) | Inr (m, xs, vis, st) \<Rightarrow> fresh m vis,
      \<lambda>a. case a of Inl (m, x, vis, st) \<Rightarrow> 2 * length (lookup_or [] m x) + 1
          | Inr (m, xs, vis, st) \<Rightarrow> 2 * length xs]", goal_cases)
  case (4 m y ys vis st b p vis' st')
  then have "set vis \<subseteq> set vis'" using hasCycle_grows(1) [of m y vis st] by (metis fst_conv snd_conv)
  then show ?case using fresh_mono [of vis vis' m] by auto
qed (auto simp: lookup_or_def dest: fresh_visit)

fun hasCycleLoop :: "string list umap \<Rightarrow> string list \<Rightarrow> string list \<Rightarrow> string list \<Rightarrow> bool" where
  "hasCycleLoop adjs [] visited recStack = False"
| "hasCycleLoop adjs (node # rest) visited recStack =
     (case hasCycleUtil adjs node visited recStack of
        (found, visited', recStack') \<Rightarrow> found \<or> hasCycleLoop adjs rest visited' recStack')"

definition hasCycle :: "graph \<Rightarrow> bool" where
  "hasCycle g = hasCycleLoop (adjList g) (map fst (adjList g)) [] []"

function (sequential) topologicalSortUtil ::
    "string list umap \<Rightarrow> string \<Rightarrow> string list \<Rightarrow> string list \<Rightarrow> bool \<times> string list \<times> string list"
  and topologicalSortNeighbors ::
    "string list umap \<Rightarrow> string list \<Rightarrow> string list \<Rightarrow> string list \<Rightarrow> bool \<times> string list \<times> string list"
where
  "topologicalSortUtil adjs node visited stack =
     (case map_of adjs node of
        None \<Rightarrow> (False, List.insert node visited, stack)
      | Some neighbors \<Rightarrow>
        (case topologicalSortNeighbors adjs neighbors (List.insert node visited) stack of
           (ok, visited', stack') \<Rightarrow>
             if ok then (True, visited', node # stack') else (False, visited', stack')))"
| "topologicalSortNeighbors adjs [] visited stack = (True, visited, stack)"
| "topologicalSortNeighbors adjs (neighbor # rest) visited stack =
     (if neighbor \<notin> set visited then
        (case topologicalSortUtil adjs neighbor visited stack of
           (ok, visited', stack') \<Rightarrow>
             if ok then topologicalSortNeighbors adjs rest visited' stack'
             else (False, visited', stack'))
      else topologicalSortNeighbors adjs rest visited stack)"
  by pat_completeness auto

lemma topologicalSort_grows:
  "topologicalSortUtil_topologicalSortNeighbors_dom (Inl (m, x, vis, st)) \<Longrightarrow>
     set vis \<subseteq> set (fst (snd (topologicalSortUtil m x vis st)))"
  "topologicalSortUtil_topologicalSortNeighbors_dom (Inr (m, xs, vis, st)) \<Longrightarrow>
     set vis \<subseteq> set (fst (snd (topologicalSortNeighbors m xs vis st)))"
proof (induction rule: topologicalSortUtil_topologicalSortNeighbors.pinduct)
  case (1 m x vis st)
  then show ?case
    by (subst topologicalSortUtil.psimps [OF 1(1)])
      (fastforce split: option.splits prod.splits)
next
  case (2 m vis st)
  then show ?case by (simp add: topologicalSortNeighbors.psimps)
next
  case (3 m y ys vis st)
  obtain b vis' st' where r: "topologicalSortUtil m y vis st = (b, vis', st')" by (rule prod_cases3)
  note eq = topologicalSortNeighbors.psimps(2) [OF 3(1)]
  show ?case
  proof (cases "y \<in> set vis")
    case True
    then show ?thesis using 3(4) by (simp add: eq)
  next
    case False
    then have g: "set vis \<subseteq> set vis'" using 3(2) r by simp
    show ?thesis
    proof (cases b)
      case True
      then have "set vis' \<subseteq> set (fst (snd (topologicalSortNeighbors m ys vis' st')))"
        using 3(3) [OF False r [symmetric]] by simp
      then show ?thesis using False True g by (auto simp: eq r)
    qed (use False g in \<open>auto simp: eq r\<close>)
  qed
qed

termination topologicalSortUtil
proof (relation "measures
     [\<lambda>a. case a of Inl (m, x, vis, st) \<Rightarrow> fresh m (x # vis) | Inr (m, xs, vis, st) \<Rightarrow> fresh m vis,
      \<lambda>a. case a of Inl (m, x, vis, st) \<Rightarrow> 2 * length (lookup_or [] m x) + 1
          | Inr (m, xs, vis, st) \<Rightarrow> 2 * length xs]", goal_cases)
  case (4 m y ys vis st b p vis' st')
  then have "set vis \<subseteq> set vis'" using topologicalSort_grows(1) [of m y vis st] by (metis fst_conv snd_conv)
  then show ?case using fresh_mono [of vis vis' m] by auto
qed (auto simp: lookup_or_def fresh_def insert_absorb dest: fresh_visit)

fun topologicalSortLoop ::
    "string list umap \<Rightarrow> string list \<Rightarrow> string list \<Rightarrow> string list \<Rightarrow> string list option" where
  "topologicalSortLoop adjs [] visited stack = Some stack"
| "topologicalSortLoop adjs (node # rest) visited stack =
     (if node \<notin> set visited then
        (case topologicalSortUtil adjs node visited stack of
           (ok, visited', stack') \<Rightarrow>
             if ok then topologicalSortLoop adjs rest visited' stack' else None)
      else topologicalSortLoop adjs rest visited stack)"

text \<open>The stack is popped into the result from its top, the head of the list.\<close>

definition topologicalSort :: "graph \<Rightarrow> string list option" where
  "topologicalSort g = topologicalSortLoop (adjList g) (map fst (adjList g)) [] []"

function (sequential) getAllDependenciesUtil :: "string list umap \<Rightarrow> string \<Rightarrow> string list \<Rightarrow> string list"
  and getAllDependenciesNeighbors :: "string list umap \<Rightarrow> string list \<Rightarrow> string list \<Rightarrow> string list"
where
  "getAllDependenciesUtil adjs node allDependencies =
     (case map_of adjs node of
        None \<Rightarrow> allDependencies
      | Some neighbors \<Rightarrow> getAllDependenciesNeighbors adjs neighbors allDependencies)"
| "getAllDependenciesNeighbors adjs [] allDependencies = allDependencies"
| "getAllDependenciesNeighbors adjs (neighbor # rest) allDependencies =
     (if neighbor \<notin> set allDependencies then
        getAllDependenciesNeighbors adjs rest
          (getAllDependenciesUtil adjs neighbor (neighbor # allDependencies))
      else getAllDependenciesNeighbors adjs rest allDependencies)"
  by pat_completeness auto

lemma getAllDependencies_grows:
  "getAllDependenciesUtil_getAllDependenciesNeighbors_dom (Inl (m, x, acc)) \<Longrightarrow>
     set acc \<subseteq> set (getAllDependenciesUtil m x acc)"
  "getAllDependenciesUtil_getAllDependenciesNeighbors_dom (Inr (m, xs, acc)) \<Longrightarrow>
     set acc \<subseteq> set (getAllDependenciesNeighbors m xs acc)"
proof (induction rule: getAllDependenciesUtil_getAllDependenciesNeighbors.pinduct)
  case (1 m x acc)
  then show ?case by (simp add: getAllDependenciesUtil.psimps split: option.split)
next
  case (2 m acc)
  then show ?case by (simp add: getAllDependenciesNeighbors.psimps)
next
  case (3 m y ys acc)
  then show ?case by (auto simp: getAllDependenciesNeighbors.psimps)
qed

termination getAllDependenciesUtil
proof (relation "measures
     [\<lambda>a. case a of Inl (m, x, acc) \<Rightarrow> fresh m acc | Inr (m, xs, acc) \<Rightarrow> fresh m acc,
      \<lambda>a. case a of Inl (m, x, acc) \<Rightarrow> 2 * length (lookup_or [] m x) + 1
          | Inr (m, xs, acc) \<Rightarrow> 2 * length xs]", goal_cases)
  case (4 m y ys acc)
  then have "set acc \<subseteq> set (getAllDependenciesUtil m y (y # acc))"
    using getAllDependencies_grows(1) [of m y "y # acc"] by simp
  then show ?case using fresh_mono [of acc _ m] by (auto simp: le_less)
qed (auto simp: lookup_or_def dest: fresh_visit)

declare getAllDependenciesUtil.simps [simp del]

definition getAllDependencies :: "string \<Rightarrow> graph \<Rightarrow> string list" where
  "getAllDependencies node g = getAllDependenciesUtil (adjList g) node []"

section \<open>Queries over the whole graph\<close>

definition removeDuplicates :: "string list \<Rightarrow> string list" where
  "removeDuplicates input =
     snd (foldl (\<lambda>(uniqueNodes, result) node.
                   if node \<notin> set uniqueNodes then (node # uniqueNodes, result @ [node])
                   else (uniqueNodes, result)) ([], []) input)"

definition detectVersionConflicts :: "graph \<Rightarrow> (string \<times> string \<times> version \<times> version) list" where
  "detectVersionConflicts g =
     concat (map (\<lambda>(node, deps).
       concat (map (\<lambda>dep.
         (case map_of (nodeVersions g) dep of
            None \<Rightarrow> []
          | Some required \<Rightarrow>
            concat (map (\<lambda>(otherNode, otherDeps).
              if otherNode \<noteq> node \<and> dep \<in> set otherDeps then
                (case map_of (nodeVersions g) dep of
                   None \<Rightarrow> []
                 | Some otherRequired \<Rightarrow>
                   if \<not> Version_eq required otherRequired
                   then [(node, otherNode, required, otherRequired)] else [])
              else []) (adjList g)))) deps)) (adjList g))"

definition getGroupDependencies :: "string \<Rightarrow> graph \<Rightarrow> string list" where
  "getGroupDependencies groupName g =
     (case map_of (groups g) groupName of
        None \<Rightarrow> []
      | Some ns \<Rightarrow>
        foldl (\<lambda>acc node.
                 if nodeExists node g
                 then List.insert node (fold List.insert (getAllDependencies node g) acc)
                 else acc) [] ns)"

text \<open>One pass of the version check of \<^verbatim>\<open>validateDependencies\<close> over the entries that name \<open>dep\<close>.\<close>

definition validateDependencyVersion :: "string \<Rightarrow> string \<Rightarrow> graph \<Rightarrow> bool" where
  "validateDependencyVersion node dep g =
     (case getNodeVersion dep g of
        None \<Rightarrow> True
      | Some depVersion \<Rightarrow>
        list_all (\<lambda>(otherNode, otherDeps).
                    \<not> (dep \<in> set otherDeps \<and> is_error (validateVersion node dep depVersion g)))
          (adjList g))"

definition validateDependencies :: "string \<Rightarrow> graph \<Rightarrow> bool" where
  "validateDependencies node g =
     (if \<not> nodeExists node g then False
      else list_all (\<lambda>dep. nodeExists dep g \<and> validateDependencyVersion node dep g)
             (getAllDependencies node g))"

section \<open>Package files\<close>

text \<open>
  The JSON library is third-party code; the operations of it that the loaders call are the fields
  of this record, an argument of the definitions that use them. \<open>j_str\<close> is the conversion to a
  string, which throws when the value is not one.
\<close>

record 'j package_json_api =
  pj_contains :: "'j \<Rightarrow> string \<Rightarrow> bool"
  pj_at :: "'j \<Rightarrow> string \<Rightarrow> 'j"
  pj_is_object :: "'j \<Rightarrow> bool"
  pj_is_string :: "'j \<Rightarrow> bool"
  pj_str :: "'j \<Rightarrow> string result"
  pj_items :: "'j \<Rightarrow> (string \<times> 'j) list"

type_synonym package = "string \<times> version umap"

text \<open>\<^verbatim>\<open>packageJson.value(key, default)\<close> for a string default.\<close>

definition pj_value :: "'j package_json_api \<Rightarrow> 'j \<Rightarrow> string \<Rightarrow> string \<Rightarrow> string result" where
  "pj_value api j key dflt = (if pj_contains api j key then pj_str api (pj_at api j key) else Inr dflt)"

fun parseJsonDependencies ::
    "'j package_json_api \<Rightarrow> (string \<times> 'j) list \<Rightarrow> version umap \<Rightarrow> version umap result" where
  "parseJsonDependencies api [] deps = Inr deps"
| "parseJsonDependencies api ((key, value) # rest) deps =
     (if pj_is_string api value then
        (case pj_str api value of
           Inl e \<Rightarrow> Inl (InvalidArgument (''Error parsing version for dependency '' @ key @ '': '' @ what e))
         | Inr s \<Rightarrow>
           (case Version_parse s of
              Inl e \<Rightarrow> Inl (InvalidArgument (''Error parsing version for dependency '' @ key @ '': '' @ what e))
            | Inr v \<Rightarrow> parseJsonDependencies api rest (AList.update key v deps)))
      else parseJsonDependencies api rest (AList.update key (mk_version 0 0 0) deps))"

text \<open>\<open>doc\<close> is what reading the file gives: an error of the open or of the JSON parser, or a value.\<close>

definition parsePackageJson :: "'j package_json_api \<Rightarrow> string \<Rightarrow> 'j result \<Rightarrow> package result" where
  "parsePackageJson api path doc =
     (case doc of
        Inl e \<Rightarrow> Inl e
      | Inr j \<Rightarrow>
        if \<not> pj_contains api j ''name''
        then Inl (InvalidArgument (''Missing package name in '' @ path))
        else case pj_str api (pj_at api j ''name'') of
          Inl e \<Rightarrow> Inl e
        | Inr packageName \<Rightarrow>
          (let own = (case pj_value api j ''version'' ''0.0.0'' of
                        Inl e \<Rightarrow> mk_version 0 0 0
                      | Inr s \<Rightarrow> (case Version_parse s of Inl e \<Rightarrow> mk_version 0 0 0 | Inr v \<Rightarrow> v));
               deps = [(packageName, own)]
           in if pj_contains api j ''dependencies'' \<and> pj_is_object api (pj_at api j ''dependencies'')
              then (case parseJsonDependencies api (pj_items api (pj_at api j ''dependencies'')) deps of
                      Inl e \<Rightarrow> Inl e
                    | Inr deps' \<Rightarrow> Inr (packageName, deps'))
              else Inr (packageName, deps)))"

text \<open>
  What the loader sees of an XML file: it does not load, it has no \<^verbatim>\<open>package\<close> root, or the text of
  its \<^verbatim>\<open>name\<close> element and the texts of its \<^verbatim>\<open>depend\<close> elements (\<open>None\<close> where there is none).
\<close>

datatype xml_package = XmlLoadFailed | XmlNoRoot | XmlPackage "string option" "string option list"

definition parsePackageXml :: "string \<Rightarrow> xml_package \<Rightarrow> package result" where
  "parsePackageXml path doc =
     (case doc of
        XmlLoadFailed \<Rightarrow> Inl (RuntimeError (''Failed to open '' @ path))
      | XmlNoRoot \<Rightarrow> Inl (InvalidArgument (''Missing root element in '' @ path))
      | XmlPackage None depends \<Rightarrow> Inl (InvalidArgument (''Missing package name in '' @ path))
      | XmlPackage (Some packageName) depends \<Rightarrow>
        Inr (packageName,
             foldl (\<lambda>deps d. case d of None \<Rightarrow> deps | Some n \<Rightarrow> AList.update n (mk_version 0 0 0) deps)
               [] depends))"

section \<open>Resolution\<close>

definition FILE_TYPES :: "string list" where
  "FILE_TYPES = [''package.json'', ''package.xml'', ''package.yaml'']"

text \<open>
  \<open>parse dir file\<close> is \<open>None\<close> when the file does not exist and the result of its parser otherwise.
\<close>

type_synonym parser = "string \<Rightarrow> string \<Rightarrow> package result option"

fun addPackageDeps :: "string \<Rightarrow> version umap \<Rightarrow> graph \<Rightarrow> graph result" where
  "addPackageDeps packageName [] g = Inr g"
| "addPackageDeps packageName ((depName, v) # rest) g =
     (if depName \<noteq> packageName then
        (case addNode depName v g of
           Inl e \<Rightarrow> Inl e
         | Inr g' \<Rightarrow>
           (case addDependency packageName depName v g' of
              Inl e \<Rightarrow> Inl e
            | Inr g'' \<Rightarrow> addPackageDeps packageName rest g''))
      else addPackageDeps packageName rest g)"

definition addPackage :: "package \<Rightarrow> graph \<Rightarrow> graph result" where
  "addPackage p g =
     (case p of (packageName, deps) \<Rightarrow>
        if packageName = [] then Inr g
        else case map_of deps packageName of
          None \<Rightarrow> Inl (OutOfRange ''unordered_map::at'')
        | Some v \<Rightarrow>
          (case addNode packageName v g of
             Inl e \<Rightarrow> Inl e
           | Inr g' \<Rightarrow> addPackageDeps packageName deps g'))"

fun addPackageFiles :: "parser \<Rightarrow> string \<Rightarrow> string list \<Rightarrow> graph \<Rightarrow> graph result" where
  "addPackageFiles parse dir [] g = Inr g"
| "addPackageFiles parse dir (file # rest) g =
     (case parse dir file of
        None \<Rightarrow> addPackageFiles parse dir rest g
      | Some (Inl e) \<Rightarrow> Inl e
      | Some (Inr p) \<Rightarrow>
        (case addPackage p g of
           Inl e \<Rightarrow> Inl e
         | Inr g' \<Rightarrow> addPackageFiles parse dir rest g'))"

fun addDirectories :: "parser \<Rightarrow> string list \<Rightarrow> graph \<Rightarrow> graph result" where
  "addDirectories parse [] g = Inr g"
| "addDirectories parse (dir # rest) g =
     (case addPackageFiles parse dir FILE_TYPES g of
        Inl e \<Rightarrow> Inl e
      | Inr g' \<Rightarrow> addDirectories parse rest g')"

definition resolveDependencies :: "parser \<Rightarrow> string list \<Rightarrow> string list result" where
  "resolveDependencies parse directories =
     (if directories = [] then Inr []
      else case addDirectories parse directories DependencyGraph_new of
        Inl e \<Rightarrow> Inl e
      | Inr g \<Rightarrow>
        if hasCycle g then Inl (RuntimeError ''Circular dependency detected.'')
        else case topologicalSort g of
          None \<Rightarrow> Inl (RuntimeError ''Failed to perform topological sort on dependencies.'')
        | Some sortedPackages \<Rightarrow> Inr (removeDuplicates sortedPackages))"

fun resolveParallelBatch ::
    "parser \<Rightarrow> string list \<Rightarrow> string list \<Rightarrow> graph \<Rightarrow> graph \<times> string list result" where
  "resolveParallelBatch parse [] batchResult g = (g, Inr batchResult)"
| "resolveParallelBatch parse (dir # rest) batchResult g =
     (case map_of (dependencyCache g) dir of
        Some cachedDeps \<Rightarrow> resolveParallelBatch parse rest (batchResult @ cachedDeps) g
      | None \<Rightarrow>
        (case resolveDependencies parse [dir] of
           Inl e \<Rightarrow> (g, Inl e)
         | Inr deps \<Rightarrow>
           resolveParallelBatch parse rest (batchResult @ deps)
             (g\<lparr>dependencyCache := AList.update dir deps (dependencyCache g)\<rparr>)))"

text \<open>The batches the loop over \<open>i += BATCH_SIZE\<close> cuts; \<open>BATCH_SIZE\<close> is at least one.\<close>

function (sequential) batches :: "nat \<Rightarrow> string list \<Rightarrow> string list list" where
  "batches n [] = []"
| "batches n (x # xs) = (if n = 0 then [] else take n (x # xs) # batches n (drop n (x # xs)))"
  by pat_completeness auto
termination batches
  by (relation "measure (\<lambda>(n, xs). length xs)") auto

text \<open>
  All batches run; their results are collected in the order of the futures and the first error is
  rethrown. The model runs the batches one after the other.
\<close>

fun runBatches :: "parser \<Rightarrow> string list list \<Rightarrow> graph \<Rightarrow> graph \<times> string list result" where
  "runBatches parse [] g = (g, Inr [])"
| "runBatches parse (b # bs) g =
     (case resolveParallelBatch parse b [] g of
        (g', r) \<Rightarrow>
          (case runBatches parse bs g' of
             (g'', rs) \<Rightarrow>
               (g'', case r of Inl e \<Rightarrow> Inl e
                     | Inr xs \<Rightarrow> (case rs of Inl e \<Rightarrow> Inl e | Inr ys \<Rightarrow> Inr (xs @ ys)))))"

definition resolveParallelDependencies ::
    "parser \<Rightarrow> nat \<Rightarrow> string list \<Rightarrow> graph \<Rightarrow> graph \<times> string list result" where
  "resolveParallelDependencies parse hardware_concurrency directories g =
     (if directories = [] then (g, Inr [])
      else
        let processorCount = max 1 hardware_concurrency;
            BATCH_SIZE = max 1 (length directories div processorCount)
        in case runBatches parse (batches BATCH_SIZE directories) g of
             (g', r) \<Rightarrow>
               (g', case r of
                      Inl e \<Rightarrow> Inl (RuntimeError (''Error resolving dependencies in parallel: '' @ what e))
                    | Inr result \<Rightarrow> Inr (removeDuplicates result)))"

text \<open>The sequence a client of the coroutine \<^verbatim>\<open>resolveDependenciesAsync\<close> sees; errors end it.\<close>

definition resolveDependenciesAsync :: "parser \<Rightarrow> string \<Rightarrow> string list" where
  "resolveDependenciesAsync parse directory =
     (case resolveDependencies parse [directory] of Inl e \<Rightarrow> [] | Inr resolved \<Rightarrow> resolved)"

fun systemDepsOf :: "version umap \<Rightarrow> version umap \<Rightarrow> version umap" where
  "systemDepsOf [] systemDeps = systemDeps"
| "systemDepsOf ((depName, v) # rest) systemDeps =
     (if take 7 depName = ''system:'' then
        (let systemDepName = drop 7 depName
         in case map_of systemDeps systemDepName of
              None \<Rightarrow> systemDepsOf rest (AList.update systemDepName v systemDeps)
            | Some old \<Rightarrow>
              if Version_less old v then systemDepsOf rest (AList.update systemDepName v systemDeps)
              else systemDepsOf rest systemDeps)
      else systemDepsOf rest systemDeps)"

fun systemDepsFiles :: "parser \<Rightarrow> (string \<times> string) list \<Rightarrow> version umap \<Rightarrow> version umap result" where
  "systemDepsFiles parse [] systemDeps = Inr systemDeps"
| "systemDepsFiles parse ((dir, file) # rest) systemDeps =
     (case parse dir file of
        None \<Rightarrow> systemDepsFiles parse rest systemDeps
      | Some (Inl e) \<Rightarrow> Inl e
      | Some (Inr (packageName, deps)) \<Rightarrow> systemDepsFiles parse rest (systemDepsOf deps systemDeps))"

definition resolveSystemDependencies ::
    "(version umap \<Rightarrow> version umap) \<Rightarrow> parser \<Rightarrow> string list \<Rightarrow> version umap result" where
  "resolveSystemDependencies atom_unique parse directories =
     (case systemDepsFiles parse (List.product directories FILE_TYPES) [] of
        Inl e \<Rightarrow> Inl e
      | Inr systemDeps \<Rightarrow> Inr (atom_unique systemDeps))"

section \<open>The graph invariant\<close>

abbreviation succs :: "graph \<Rightarrow> string \<Rightarrow> string list" where
  "succs g \<equiv> lookup_or [] (adjList g)"

abbreviation preds :: "graph \<Rightarrow> string \<Rightarrow> string list" where
  "preds g \<equiv> lookup_or [] (incomingEdges g)"

definition graph_inv :: "graph \<Rightarrow> bool" where
  "graph_inv g \<longleftrightarrow>
     distinct (map fst (adjList g)) \<and> distinct (map fst (incomingEdges g))
     \<and> distinct (map fst (nodeVersions g))
     \<and> keys (nodeVersions g) \<subseteq> keys (adjList g)
     \<and> (\<forall>x. distinct (succs g x)) \<and> (\<forall>x y. y \<in> set (succs g x) \<longrightarrow> y \<in> keys (adjList g))
     \<and> (\<forall>x y. x \<in> set (preds g y) \<longleftrightarrow> y \<in> set (succs g x))
     \<and> (\<forall>x. x \<notin> set (succs g x)) \<and> [] \<notin> keys (adjList g)"

lemma new_inv: "graph_inv DependencyGraph_new"
  by (simp add: graph_inv_def DependencyGraph_new_def)

lemma clear_inv: "graph_inv g \<Longrightarrow> graph_inv (DependencyGraph_clear g)"
  by (simp add: graph_inv_def DependencyGraph_clear_def)

lemma addNode_inv: "graph_inv g \<Longrightarrow> addNode n v g = Inr g' \<Longrightarrow> graph_inv g'"
  by (auto simp: graph_inv_def addNode_def distinct_update split: if_splits)

lemma addDependency_Inr:
  "addDependency frm to v g = Inr g' \<longleftrightarrow>
     frm \<noteq> [] \<and> to \<noteq> [] \<and> frm \<noteq> to
     \<and> (\<exists>w. map_of (nodeVersions g) to = Some w \<and> \<not> Version_less w v)
     \<and> g' = g\<lparr>adjList := AList.update frm (List.insert to (succs g frm)) (adjList g),
              incomingEdges := AList.update to (List.insert frm (preds g to)) (incomingEdges g)\<rparr>"
  by (auto simp: addDependency_def validateVersion_def getNodeVersion_def
      split: if_splits option.splits sum.splits dest: map_of_keysD)

lemma addDependency_inv:
  assumes "graph_inv g" "addDependency frm to v g = Inr g'"
  shows "graph_inv g'"
proof -
  have "to \<in> keys (nodeVersions g)"
    using assms(2) unfolding addDependency_Inr by (blast dest: map_of_keysD)
  then have "to \<in> keys (adjList g)" using assms(1) by (auto simp: graph_inv_def)
  moreover have "frm \<noteq> []" "frm \<noteq> to"
    and g': "g' = g\<lparr>adjList := AList.update frm (List.insert to (succs g frm)) (adjList g),
              incomingEdges := AList.update to (List.insert frm (preds g to)) (incomingEdges g)\<rparr>"
    using assms(2) by (auto simp: addDependency_Inr)
  ultimately show ?thesis unfolding g' using assms(1)
    by (auto simp: graph_inv_def distinct_update)
qed

lemma removeNode_inv: "graph_inv g \<Longrightarrow> graph_inv (removeNode n g)"
  by (auto simp: graph_inv_def removeNode_def lookup_or_map_vals distinct_delete distinct_removeAll)

lemma lookup_or_erase:
  "lookup_or [] (case map_of m k of None \<Rightarrow> m | Some ns \<Rightarrow> AList.update k (removeAll x ns) m) k'
   = (if k' = k then removeAll x (lookup_or [] m k) else lookup_or [] m k')"
  by (auto simp: lookup_or_def update_conv' split: option.split)

lemma keys_erase:
  "keys (case map_of m k of None \<Rightarrow> m | Some ns \<Rightarrow> AList.update k (removeAll x ns) m) = keys m"
  by (auto split: option.split dest: map_of_keysD)

lemma distinct_erase:
  "distinct (map fst m) \<Longrightarrow>
   distinct (map fst (case map_of m k of None \<Rightarrow> m | Some ns \<Rightarrow> AList.update k (removeAll x ns) m))"
  by (auto split: option.split simp: distinct_update)

lemma removeDependency_inv: "graph_inv g \<Longrightarrow> graph_inv (removeDependency frm to g)"
  by (auto simp: graph_inv_def removeDependency_def lookup_or_erase keys_erase distinct_erase
      distinct_removeAll)

lemma unrelated_inv:
  "graph_inv (DependencyGraph_setPriority n i g) = graph_inv g"
  "graph_inv (clearCache g) = graph_inv g"
  "addGroup n xs g = Inr g' \<Longrightarrow> graph_inv g' = graph_inv g"
  by (auto simp: graph_inv_def DependencyGraph_setPriority_def clearCache_def addGroup_def split: if_splits)

text \<open>The graphs a client can reach through the public operations.\<close>

inductive graph_reachable :: "graph \<Rightarrow> bool" where
  new: "graph_reachable DependencyGraph_new"
| clear: "graph_reachable g \<Longrightarrow> graph_reachable (DependencyGraph_clear g)"
| addNode: "graph_reachable g \<Longrightarrow> addNode n v g = Inr g' \<Longrightarrow> graph_reachable g'"
| addDependency: "graph_reachable g \<Longrightarrow> addDependency frm to v g = Inr g' \<Longrightarrow> graph_reachable g'"
| removeNode: "graph_reachable g \<Longrightarrow> graph_reachable (removeNode n g)"
| removeDependency: "graph_reachable g \<Longrightarrow> graph_reachable (removeDependency frm to g)"
| setPriority: "graph_reachable g \<Longrightarrow> graph_reachable (DependencyGraph_setPriority n i g)"
| addGroup: "graph_reachable g \<Longrightarrow> addGroup n xs g = Inr g' \<Longrightarrow> graph_reachable g'"
| clearCache: "graph_reachable g \<Longrightarrow> graph_reachable (clearCache g)"

lemma reachable_inv: "graph_reachable g \<Longrightarrow> graph_inv g"
  by (induction rule: graph_reachable.induct)
    (auto intro: new_inv clear_inv removeNode_inv removeDependency_inv
      dest: addNode_inv addDependency_inv simp: unrelated_inv)

lemma succs_in_keys: "graph_inv g \<Longrightarrow> set (succs g x) \<subseteq> keys (adjList g)"
  by (auto simp: graph_inv_def)

section \<open>Cycle detection\<close>

lemma hasCycleUtil_new:
  "x \<in> keys m \<Longrightarrow> x \<notin> set vis \<Longrightarrow> x \<notin> set st \<Longrightarrow>
   hasCycleUtil m x vis st =
     (case hasCycleNeighbors m (lookup_or [] m x) (x # vis) (x # st) of
        (b, vis', st') \<Rightarrow> if b then (True, vis', st') else (False, vis', removeAll x st'))"
  by (erule keysE) (simp add: lookup_or_def)

declare hasCycleUtil.simps [simp del]

text \<open>The cycle search of a graph whose edges stay inside it meets the contract of the library.\<close>

lemma hasCycle_contract:
  assumes "graph_inv g"
  shows "cycle_search (succs g) (keys (adjList g)) (hasCycleUtil (adjList g))
           (\<lambda>x. hasCycleNeighbors (adjList g)) (hasCycleLoop (adjList g))"
proof
  show "x \<in> keys (adjList g) \<Longrightarrow> set (succs g x) \<subseteq> keys (adjList g)" for x
    using assms by (rule succs_in_keys)
  show "x \<in> keys (adjList g) \<Longrightarrow> x \<in> set vis \<Longrightarrow>
      hasCycleLoop (adjList g) (x # xs) vis [] = hasCycleLoop (adjList g) xs vis []" for x vis xs
    by (simp add: hasCycleUtil.simps)
qed (auto simp: hasCycleUtil_new split: prod.splits)

lemma hasCycle_iff: "graph_inv g \<Longrightarrow> hasCycle g \<longleftrightarrow> \<not> acyclic (edges (succs g))"
proof -
  assume inv: "graph_inv g"
  have "\<not> hasCycleLoop (adjList g) (map fst (adjList g)) [] [] \<longleftrightarrow> acyclic (edges (succs g))"
  proof (rule cycle_search.search_correct [OF hasCycle_contract [OF inv]])
    show "succs g x \<noteq> [] \<Longrightarrow> x \<in> set (map fst (adjList g))" for x
      using lookup_or_absent [of x "adjList g" "[]"] by (auto simp: keys_def)
  qed (simp add: keys_def)
  then show ?thesis by (auto simp: hasCycle_def)
qed

section \<open>Topological sort\<close>

text \<open>
  A stack is in order when the successors of each element lie below it. Nodes that are visited and
  not on the stack are still open; under acyclicity the node in hand cannot reach them.
\<close>

fun stack_ordered :: "string list umap \<Rightarrow> string list \<Rightarrow> bool" where
  "stack_ordered m [] = True"
| "stack_ordered m (x # st) \<longleftrightarrow> x \<notin> set st \<and> set (lookup_or [] m x) \<subseteq> set st \<and> stack_ordered m st"

definition sort_inv :: "string list umap \<Rightarrow> string list \<Rightarrow> string list \<Rightarrow> bool" where
  "sort_inv m vis st \<longleftrightarrow> set st \<subseteq> set vis \<and> stack_ordered m st"

text \<open>What a visit or a scan leaves: the open nodes unchanged, \<open>new\<close> on the stack.\<close>

definition sort_outcome ::
    "string list umap \<Rightarrow> string set \<Rightarrow> string list \<Rightarrow> string list \<Rightarrow> bool \<times> string list \<times> string list \<Rightarrow> bool" where
  "sort_outcome m new vis st r \<longleftrightarrow>
     (case r of (ok, vis', st') \<Rightarrow>
        ok \<and> sort_inv m vis' st' \<and> set vis \<subseteq> set vis' \<and> set vis' - set st' = set vis - set st
        \<and> set st \<subseteq> set st' \<and> new \<subseteq> set st')"

definition closed_map :: "string list umap \<Rightarrow> bool" where
  "closed_map m \<longleftrightarrow> (\<forall>x. set (lookup_or [] m x) \<subseteq> keys m)"

lemma topologicalSort_outcome:
  "closed_map m \<Longrightarrow> acyclic (edges (lookup_or [] m)) \<Longrightarrow> x \<in> keys m \<Longrightarrow> x \<notin> set vis \<Longrightarrow> sort_inv m vis st \<Longrightarrow>
     \<forall>r \<in> set vis - set st. (r, x) \<in> (edges (lookup_or [] m))\<^sup>+ \<Longrightarrow>
     sort_outcome m {x} vis st (topologicalSortUtil m x vis st)"
  "closed_map m \<Longrightarrow> acyclic (edges (lookup_or [] m)) \<Longrightarrow> set xs \<subseteq> keys m \<Longrightarrow> sort_inv m vis st \<Longrightarrow>
     \<forall>r \<in> set vis - set st. \<forall>y \<in> set xs. (r, y) \<in> (edges (lookup_or [] m))\<^sup>+ \<Longrightarrow>
     sort_outcome m (set xs) vis st (topologicalSortNeighbors m xs vis st)"
proof (induction m x vis st and m xs vis st rule: topologicalSortUtil_topologicalSortNeighbors.induct)
  case (1 m x vis st)
  let ?E = "edges (lookup_or [] m)"
  obtain ns where ns: "map_of m x = Some ns" using "1.prems"(3) by (rule keysE)
  then have l: "lookup_or [] m x = ns" by (simp add: lookup_or_def)
  have "sort_outcome m (set ns) (List.insert x vis) st (topologicalSortNeighbors m ns (List.insert x vis) st)"
  proof (rule "1.IH" [OF ns "1.prems"(1,2)])
    show "set ns \<subseteq> keys m" using "1.prems"(1) l by (auto simp: closed_map_def)
    show "sort_inv m (List.insert x vis) st" using "1.prems"(5) by (auto simp: sort_inv_def)
    show "\<forall>r \<in> set (List.insert x vis) - set st. \<forall>y \<in> set ns. (r, y) \<in> ?E\<^sup>+"
      using "1.prems"(6) l by (auto intro: trancl_into_trancl)
  qed
  moreover have "x \<notin> set st" using "1.prems"(4,5) by (auto simp: sort_inv_def)
  ultimately show ?case
    using "1.prems"(4,5) ns l
    by (auto simp: sort_outcome_def sort_inv_def split: prod.splits)
next
  case (2 m vis st)
  then show ?case by (simp add: sort_outcome_def)
next
  case (3 m y ys vis st)
  let ?E = "edges (lookup_or [] m)"
  show ?case
  proof (cases "y \<in> set vis")
    case True
    have "y \<in> set st" using "3.prems"(2,5) True by (auto simp: acyclic_def)
    then show ?thesis using "3.IH"(3) "3.prems" True by (auto simp: sort_outcome_def split: prod.splits)
  next
    case False
    have o: "sort_outcome m {y} vis st (topologicalSortUtil m y vis st)"
      using "3.IH"(1) [OF False "3.prems"(1,2)] "3.prems" False by auto
    obtain b vis' st' where r: "topologicalSortUtil m y vis st = (b, vis', st')" by (rule prod_cases3)
    have v: b "sort_inv m vis' st'" "set vis \<subseteq> set vis'" "set vis' - set st' = set vis - set st"
      "set st \<subseteq> set st'" "y \<in> set st'"
      using o r by (auto simp: sort_outcome_def)
    have "sort_outcome m (set ys) vis' st' (topologicalSortNeighbors m ys vis' st')"
      using "3.prems" v by (intro "3.IH"(2) [OF False r [symmetric] _ v(1)]) auto
    then show ?thesis using False r v by (auto simp: sort_outcome_def split: prod.splits)
  qed
qed

text \<open>Without acyclicity the sort still succeeds and stays inside the graph.\<close>

lemma topologicalSort_total:
  "closed_map m \<Longrightarrow> x \<in> keys m \<Longrightarrow> topologicalSortUtil m x vis st = (ok, vis', st') \<Longrightarrow>
     ok \<and> set st' \<subseteq> set st \<union> keys m"
  "closed_map m \<Longrightarrow> set xs \<subseteq> keys m \<Longrightarrow> topologicalSortNeighbors m xs vis st = (ok, vis', st') \<Longrightarrow>
     ok \<and> set st' \<subseteq> set st \<union> keys m"
proof (induction m x vis st and m xs vis st arbitrary: ok vis' st' and ok vis' st'
    rule: topologicalSortUtil_topologicalSortNeighbors.induct)
  case (1 m x vis st)
  obtain ns where ns: "map_of m x = Some ns" using "1.prems"(2) by (rule keysE)
  then have "set ns \<subseteq> keys m"
    using "1.prems"(1) by (auto simp: closed_map_def lookup_or_def dest!: spec [of _ x])
  then show ?case
    using "1.IH" [OF ns "1.prems"(1)] "1.prems" ns by (auto split: prod.splits if_splits)
next
  case (3 m y ys vis st)
  obtain b vis1 st1 where r: "topologicalSortUtil m y vis st = (b, vis1, st1)" by (rule prod_cases3)
  show ?case
  proof (cases "y \<in> set vis")
    case True
    then show ?thesis using "3.IH"(3) "3.prems" by simp
  next
    case False
    have b: b "set st1 \<subseteq> set st \<union> keys m" using "3.IH"(1) [OF False "3.prems"(1) _ r] "3.prems"(2) by auto
    then have "topologicalSortNeighbors m ys vis1 st1 = (ok, vis', st')"
      using "3.prems"(3) False r by simp
    from "3.IH"(2) [OF False r [symmetric] refl b(1) "3.prems"(1) _ this] show ?thesis
      using "3.prems"(2) b(2) by auto
  qed
qed simp

lemma topologicalSortLoop_total:
  "closed_map m \<Longrightarrow> set xs \<subseteq> keys m \<Longrightarrow>
   \<exists>st'. topologicalSortLoop m xs vis st = Some st' \<and> set st' \<subseteq> set st \<union> keys m"
proof (induction m xs vis st rule: topologicalSortLoop.induct)
  case (2 m x xs vis st)
  obtain b vis1 st1 where r: "topologicalSortUtil m x vis st = (b, vis1, st1)" by (rule prod_cases3)
  then have "b \<and> set st1 \<subseteq> set st \<union> keys m" using topologicalSort_total(1) [OF _ _ r] "2.prems" by auto
  then show ?case using "2.IH" "2.prems" r by (cases "x \<in> set vis") fastforce+
qed simp

lemma topologicalSortLoop_ordered:
  assumes "closed_map m" "acyclic (edges (lookup_or [] m))"
  shows "set xs \<subseteq> keys m \<Longrightarrow> stack_ordered m st \<Longrightarrow> set vis = set st \<Longrightarrow>
     topologicalSortLoop m xs vis st = Some st' \<Longrightarrow> stack_ordered m st' \<and> set st \<union> set xs \<subseteq> set st'"
proof (induction xs arbitrary: vis st)
  case (Cons x xs)
  show ?case
  proof (cases "x \<in> set vis")
    case True
    then show ?thesis using Cons by auto
  next
    case False
    have "sort_outcome m {x} vis st (topologicalSortUtil m x vis st)"
      using Cons.prems assms False by (intro topologicalSort_outcome) (auto simp: sort_inv_def)
    moreover obtain b vis1 st1 where r: "topologicalSortUtil m x vis st = (b, vis1, st1)"
      by (rule prod_cases3)
    ultimately have v: b "stack_ordered m st1" "set vis1 = set st1" "set st \<subseteq> set st1" "x \<in> set st1"
      using Cons.prems(3) by (auto simp: sort_outcome_def sort_inv_def)
    then show ?thesis using Cons.IH [of st1 vis1] Cons.prems False r by auto
  qed
qed simp

lemma stack_ordered_split:
  assumes "stack_ordered m st" "x \<in> set st" "y \<in> set (lookup_or [] m x)"
  shows "\<exists>a b c. st = a @ x # b @ y # c"
  using assms
proof (induction st)
  case (Cons z st)
  show ?case
  proof (cases "x = z")
    case True
    then have "y \<in> set st" using Cons.prems by auto
    then obtain b c where "st = b @ y # c" by (auto dest: split_list)
    then show ?thesis using True by (metis append_Nil)
  next
    case False
    then obtain a b c where "st = a @ x # b @ y # c" using Cons by auto
    then show ?thesis by (metis append_Cons)
  qed
qed simp

lemma stack_ordered_distinct: "stack_ordered m st \<Longrightarrow> distinct st"
  by (induction st) auto

text \<open>A list is a topological order of a graph: its nodes, once each, sources before targets.\<close>

definition topological_order :: "graph \<Rightarrow> string list \<Rightarrow> bool" where
  "topological_order g xs \<longleftrightarrow> distinct xs \<and> set xs = keys (adjList g)
     \<and> (\<forall>x y. y \<in> set (succs g x) \<longrightarrow> (\<exists>a b c. xs = a @ x # b @ y # c))"

lemma graph_inv_closed: "graph_inv g \<Longrightarrow> closed_map (adjList g)"
  using succs_in_keys by (simp add: closed_map_def)

lemma topologicalSort_Some:
  assumes "graph_inv g"
  obtains xs where "topologicalSort g = Some xs" "set xs \<subseteq> keys (adjList g)"
  using topologicalSortLoop_total [OF graph_inv_closed [OF assms], of "map fst (adjList g)" "[]" "[]"]
  by (auto simp: topologicalSort_def keys_def)

lemma topologicalSort_order:
  assumes "graph_inv g" "acyclic (edges (succs g))"
  shows "\<exists>xs. topologicalSort g = Some xs \<and> topological_order g xs"
proof -
  obtain xs where xs: "topologicalSort g = Some xs" "set xs \<subseteq> keys (adjList g)"
    using topologicalSort_Some [OF assms(1)] .
  have o: "stack_ordered (adjList g) xs \<and> set [] \<union> set (map fst (adjList g)) \<subseteq> set xs"
    using assms xs(1) unfolding topologicalSort_def
    by (intro topologicalSortLoop_ordered) (auto simp: graph_inv_closed keys_def)
  then have "set xs = keys (adjList g)" using xs(2) by (auto simp: keys_def)
  moreover have "y \<in> set (succs g x) \<Longrightarrow> x \<in> keys (adjList g)" for x y
    using lookup_or_absent [of x "adjList g" "[]"] by fastforce
  ultimately have "topological_order g xs"
    using o by (auto simp: topological_order_def stack_ordered_distinct intro!: stack_ordered_split)
  then show ?thesis using xs(1) by blast
qed

section \<open>Transitive dependencies\<close>

lemma getAllDependencies_sound:
  "set (getAllDependenciesUtil m x acc) \<subseteq> set acc \<union> (edges (lookup_or [] m))\<^sup>+ `` {x}"
  "set (getAllDependenciesNeighbors m xs acc) \<subseteq> set acc \<union> set xs \<union> (edges (lookup_or [] m))\<^sup>+ `` set xs"
proof (induction m x acc and m xs acc rule: getAllDependenciesUtil_getAllDependenciesNeighbors.induct)
  case (1 m x acc)
  show ?case
  proof (cases "map_of m x")
    case (Some ns)
    then have "set ns = set (lookup_or [] m x)" by (simp add: lookup_or_def)
    then have "set ns \<union> (edges (lookup_or [] m))\<^sup>+ `` set ns \<subseteq> (edges (lookup_or [] m))\<^sup>+ `` {x}"
      by (auto intro: trancl_into_trancl2)
    then show ?thesis using "1.IH" [OF Some] Some
      by (simp add: getAllDependenciesUtil.simps) blast
  qed (simp add: getAllDependenciesUtil.simps)
next
  case (3 m y ys acc)
  then show ?case by (cases "y \<in> set acc") (auto 0 4)
qed simp

lemma getAllDependencies_closed:
  "set acc \<subseteq> set (getAllDependenciesUtil m x acc) \<and> set (lookup_or [] m x) \<subseteq> set (getAllDependenciesUtil m x acc)
   \<and> (\<forall>z \<in> set (getAllDependenciesUtil m x acc) - set acc.
         set (lookup_or [] m z) \<subseteq> set (getAllDependenciesUtil m x acc))"
  "set acc \<subseteq> set (getAllDependenciesNeighbors m xs acc) \<and> set xs \<subseteq> set (getAllDependenciesNeighbors m xs acc)
   \<and> (\<forall>z \<in> set (getAllDependenciesNeighbors m xs acc) - set acc.
         set (lookup_or [] m z) \<subseteq> set (getAllDependenciesNeighbors m xs acc))"
proof (induction m x acc and m xs acc rule: getAllDependenciesUtil_getAllDependenciesNeighbors.induct)
  case (1 m x acc)
  have e: "lookup_or [] m x = ns" if "map_of m x = Some ns" for ns using that by (simp add: lookup_or_def)
  show ?case
  proof (cases "map_of m x")
    case None
    then show ?thesis by (simp add: lookup_or_def getAllDependenciesUtil.simps)
  next
    case (Some ns)
    then show ?thesis using "1.IH" [OF Some] by (simp add: e getAllDependenciesUtil.simps)
  qed
next
  case (3 m y ys acc)
  show ?case
  proof (cases "y \<in> set acc")
    case True
    then show ?thesis using "3.IH"(3) by auto
  next
    case False
    let ?A = "getAllDependenciesUtil m y (y # acc)"
    have a: "set (y # acc) \<subseteq> set ?A" "set (lookup_or [] m y) \<subseteq> set ?A"
      "\<forall>z \<in> set ?A - set (y # acc). set (lookup_or [] m z) \<subseteq> set ?A"
      using "3.IH"(1) [OF False] by auto
    have b: "set ?A \<subseteq> set (getAllDependenciesNeighbors m ys ?A)"
      "set ys \<subseteq> set (getAllDependenciesNeighbors m ys ?A)"
      "\<forall>z \<in> set (getAllDependenciesNeighbors m ys ?A) - set ?A.
         set (lookup_or [] m z) \<subseteq> set (getAllDependenciesNeighbors m ys ?A)"
      using "3.IH"(2) [OF False] by auto
    have "set (lookup_or [] m z) \<subseteq> set (getAllDependenciesNeighbors m ys ?A)"
      if "z \<in> set (getAllDependenciesNeighbors m ys ?A) - set acc" for z
      using that a(2,3) b(1,3) by (cases "z \<in> set ?A"; cases "z = y") auto
    then show ?thesis using False a(1) b(1,2) by auto
  qed
qed simp

lemma set_getAllDependencies: "set (getAllDependencies x g) = (edges (succs g))\<^sup>+ `` {x}"
proof
  let ?A = "set (getAllDependencies x g)"
  show "?A \<subseteq> (edges (succs g))\<^sup>+ `` {x}"
    using getAllDependencies_sound(1) [of "adjList g" x "[]"] by (simp add: getAllDependencies_def)
  have c: "set (succs g x) \<subseteq> ?A" "\<forall>z \<in> ?A. set (succs g z) \<subseteq> ?A"
    using getAllDependencies_closed(1) [of "[]" "adjList g" x] by (auto simp: getAllDependencies_def)
  show "(edges (succs g))\<^sup>+ `` {x} \<subseteq> ?A"
  proof
    fix z assume "z \<in> (edges (succs g))\<^sup>+ `` {x}"
    then obtain y where "y \<in> set (succs g x)" "(y, z) \<in> (edges (succs g))\<^sup>*" by (auto dest: tranclD)
    then show "z \<in> ?A" using c by (intro closed_rtrancl [of ?A _ y z]) auto
  qed
qed

section \<open>Resolution\<close>

lemma removeDuplicates_aux:
  "set u = set r \<Longrightarrow> distinct r \<Longrightarrow>
   distinct (snd (foldl (\<lambda>(u, r) n. if n \<notin> set u then (n # u, r @ [n]) else (u, r)) (u, r) xs))
   \<and> set (snd (foldl (\<lambda>(u, r) n. if n \<notin> set u then (n # u, r @ [n]) else (u, r)) (u, r) xs)) = set r \<union> set xs
   \<and> (distinct (r @ xs) \<longrightarrow>
        snd (foldl (\<lambda>(u, r) n. if n \<notin> set u then (n # u, r @ [n]) else (u, r)) (u, r) xs) = r @ xs)"
  by (induction xs arbitrary: u r) auto

lemma removeDuplicates_correct:
  "distinct (removeDuplicates xs)" "set (removeDuplicates xs) = set xs"
  "distinct xs \<Longrightarrow> removeDuplicates xs = xs"
  using removeDuplicates_aux [of "[]" "[]" xs] by (auto simp: removeDuplicates_def)

lemma addPackageDeps_inv: "graph_inv g \<Longrightarrow> addPackageDeps p ds g = Inr g' \<Longrightarrow> graph_inv g'"
proof (induction p ds g rule: addPackageDeps.induct)
  case (2 p d v rest g)
  show ?case
  proof (cases "d = p")
    case False
    then obtain g1 g2 where g: "addNode d v g = Inr g1" "addDependency p d v g1 = Inr g2"
      "addPackageDeps p rest g2 = Inr g'"
      using "2.prems"(2) by (auto split: sum.splits)
    then show ?thesis using "2.IH"(1) [OF False g(1,2)] "2.prems"(1) addNode_inv addDependency_inv by blast
  qed (use 2 in simp)
qed simp

lemma addPackage_inv:
  assumes "graph_inv g" "addPackage p g = Inr g'"
  shows "graph_inv g'"
proof (cases p)
  case (Pair n deps)
  show ?thesis
  proof (cases "n = []")
    case False
    then obtain v g1 where "addNode n v g = Inr g1" "addPackageDeps n deps g1 = Inr g'"
      using assms(2) Pair by (auto simp: addPackage_def split: option.splits sum.splits)
    then show ?thesis using assms(1) addNode_inv addPackageDeps_inv by blast
  qed (use assms Pair in \<open>simp add: addPackage_def\<close>)
qed

lemma addPackageFiles_inv: "graph_inv g \<Longrightarrow> addPackageFiles parse d fs g = Inr g' \<Longrightarrow> graph_inv g'"
proof (induction fs arbitrary: g)
  case (Cons f fs)
  then show ?case using addPackage_inv by (fastforce split: option.splits sum.splits)
qed simp

lemma addDirectories_inv: "graph_inv g \<Longrightarrow> addDirectories parse ds g = Inr g' \<Longrightarrow> graph_inv g'"
proof (induction ds arbitrary: g)
  case (Cons d ds)
  then show ?case
    by (cases "addPackageFiles parse d FILE_TYPES g") (auto intro: Cons.IH addPackageFiles_inv)
qed simp

lemma resolveDependencies_cases:
  assumes "directories \<noteq> []" "addDirectories parse directories DependencyGraph_new = Inr g"
  shows "if acyclic (edges (succs g))
         then \<exists>xs. resolveDependencies parse directories = Inr xs \<and> topological_order g xs
         else resolveDependencies parse directories = Inl (RuntimeError ''Circular dependency detected.'')"
proof -
  have inv: "graph_inv g" using addDirectories_inv [OF new_inv assms(2)] .
  show ?thesis
  proof (cases "acyclic (edges (succs g))")
    case True
    then obtain xs where "topologicalSort g = Some xs" "topological_order g xs"
      using topologicalSort_order [OF inv] by blast
    then show ?thesis using assms True hasCycle_iff [OF inv]
      by (simp add: resolveDependencies_def topological_order_def removeDuplicates_correct)
  next
    case False
    then show ?thesis using assms hasCycle_iff [OF inv] by (simp add: resolveDependencies_def)
  qed
qed

subsection \<open>Parallel resolution\<close>

text \<open>The cache answers only what a resolution of that directory alone would answer.\<close>

definition cache_consistent :: "parser \<Rightarrow> graph \<Rightarrow> bool" where
  "cache_consistent parse g \<longleftrightarrow>
     (\<forall>d xs. map_of (dependencyCache g) d = Some xs \<longrightarrow> resolveDependencies parse [d] = Inr xs)"

text \<open>The reference: resolve one directory after the other, stop at the first error.\<close>

fun resolve_each :: "parser \<Rightarrow> string list \<Rightarrow> string list result" where
  "resolve_each parse [] = Inr []"
| "resolve_each parse (d # ds) =
     (case resolveDependencies parse [d] of
        Inl e \<Rightarrow> Inl e
      | Inr xs \<Rightarrow> (case resolve_each parse ds of Inl e \<Rightarrow> Inl e | Inr ys \<Rightarrow> Inr (xs @ ys)))"

lemma resolve_each_append:
  "resolve_each parse (as @ bs) =
     (case resolve_each parse as of Inl e \<Rightarrow> Inl e
      | Inr xs \<Rightarrow> (case resolve_each parse bs of Inl e \<Rightarrow> Inl e | Inr ys \<Rightarrow> Inr (xs @ ys)))"
  by (induction as) (auto split: sum.splits)

lemma resolveParallelBatch_each:
  "cache_consistent parse g \<Longrightarrow>
   \<exists>g'. cache_consistent parse g' \<and> graph_inv g' = graph_inv g \<and>
     resolveParallelBatch parse ds acc g =
       (g', case resolve_each parse ds of Inl e \<Rightarrow> Inl e | Inr xs \<Rightarrow> Inr (acc @ xs))"
proof (induction parse ds acc g rule: resolveParallelBatch.induct)
  case (2 parse d ds acc g)
  show ?case
  proof (cases "map_of (dependencyCache g) d")
    case (Some xs)
    moreover have "resolveDependencies parse [d] = Inr xs"
      using "2.prems" Some by (simp add: cache_consistent_def)
    ultimately show ?thesis using "2.IH"(2) [OF Some "2.prems"]
      by (auto split: sum.splits)
  next
    case None
    show ?thesis
    proof (cases "resolveDependencies parse [d]")
      case (Inl e)
      then show ?thesis using None "2.prems" by auto
    next
      case (Inr xs)
      let ?g = "g\<lparr>dependencyCache := AList.update d xs (dependencyCache g)\<rparr>"
      have "cache_consistent parse ?g"
        using "2.prems" Inr by (auto simp: cache_consistent_def update_conv')
      moreover have "graph_inv ?g = graph_inv g" by (simp add: graph_inv_def)
      ultimately show ?thesis using "2.IH"(1) [OF None Inr] None Inr by (auto split: sum.splits)
    qed
  qed
qed auto

lemma runBatches_each:
  "cache_consistent parse g \<Longrightarrow>
   \<exists>g'. cache_consistent parse g' \<and> graph_inv g' = graph_inv g
        \<and> runBatches parse bs g = (g', resolve_each parse (concat bs))"
proof (induction bs arbitrary: g)
  case (Cons b bs)
  obtain g1 where g1: "cache_consistent parse g1" "graph_inv g1 = graph_inv g"
    "resolveParallelBatch parse b [] g = (g1, resolve_each parse b)"
    using resolveParallelBatch_each [OF Cons.prems, of b "[]"] by (auto split: sum.splits)
  obtain g2 where "cache_consistent parse g2" "graph_inv g2 = graph_inv g1"
    "runBatches parse bs g1 = (g2, resolve_each parse (concat bs))"
    using Cons.IH [OF g1(1)] by blast
  then show ?case using g1 by (auto simp: resolve_each_append split: sum.splits)
qed auto

lemma concat_batches: "n \<noteq> 0 \<Longrightarrow> concat (batches n xs) = xs"
proof (induction n xs rule: batches.induct)
  case (2 n x xs)
  then show ?case by (simp del: take.simps drop.simps)
qed simp

section \<open>Properties\<close>

text \<open>Concrete graphs for the witnesses: a chain of three packages and a cycle of two.\<close>

definition chain_graph :: graph where
  "chain_graph =
     \<lparr>adjList = [(''a'', [''b'']), (''b'', [''c'']), (''c'', [])],
      incomingEdges = [(''a'', []), (''b'', [''a'']), (''c'', [''b''])],
      nodeVersions = [(''a'', mk_version 1 0 0), (''b'', mk_version 1 0 0), (''c'', mk_version 1 0 0)],
      priorities = [], groups = [], dependencyCache = []\<rparr>"

definition loop_graph :: graph where
  "loop_graph =
     \<lparr>adjList = [(''a'', [''b'']), (''b'', [''a''])],
      incomingEdges = [(''a'', [''b'']), (''b'', [''a''])],
      nodeVersions = [(''a'', mk_version 1 0 0), (''b'', mk_version 1 0 0)],
      priorities = [], groups = [], dependencyCache = []\<rparr>"

text \<open>A client session as a list of calls; a call that throws leaves the graph as it was.\<close>

datatype graph_call =
    CallAddNode string version
  | CallAddDependency string string version
  | CallRemoveNode string
  | CallRemoveDependency string string

definition run_call :: "graph \<Rightarrow> graph_call \<Rightarrow> graph" where
  "run_call g c =
     (case c of
        CallAddNode n v \<Rightarrow> (case addNode n v g of Inl e \<Rightarrow> g | Inr g' \<Rightarrow> g')
      | CallAddDependency a b v \<Rightarrow> (case addDependency a b v g of Inl e \<Rightarrow> g | Inr g' \<Rightarrow> g')
      | CallRemoveNode n \<Rightarrow> removeNode n g
      | CallRemoveDependency a b \<Rightarrow> removeDependency a b g)"

lemma run_calls_reachable: "graph_reachable g \<Longrightarrow> graph_reachable (foldl run_call g cs)"
proof (induction cs arbitrary: g)
  case (Cons c cs)
  have "graph_reachable (run_call g c)"
    using Cons.prems
    by (auto simp: run_call_def split: graph_call.split sum.split intro: graph_reachable.intros)
  then show ?case using Cons.IH by simp
qed simp

definition chain_calls :: "graph_call list" where
  "chain_calls =
     [CallAddNode ''a'' (mk_version 1 0 0), CallAddNode ''b'' (mk_version 1 0 0),
      CallAddNode ''c'' (mk_version 1 0 0), CallAddDependency ''a'' ''b'' (mk_version 1 0 0),
      CallAddDependency ''b'' ''c'' (mk_version 1 0 0)]"

definition loop_calls :: "graph_call list" where
  "loop_calls =
     [CallAddNode ''a'' (mk_version 1 0 0), CallAddNode ''b'' (mk_version 1 0 0),
      CallAddDependency ''a'' ''b'' (mk_version 1 0 0), CallAddDependency ''b'' ''a'' (mk_version 1 0 0)]"

lemma chain_reachable: "graph_reachable chain_graph"
proof -
  have "foldl run_call DependencyGraph_new chain_calls = chain_graph" by code_simp
  then show ?thesis using run_calls_reachable [OF graph_reachable.new, of chain_calls] by simp
qed

lemma loop_reachable: "graph_reachable loop_graph"
proof -
  have "foldl run_call DependencyGraph_new loop_calls = loop_graph" by code_simp
  then show ?thesis using run_calls_reachable [OF graph_reachable.new, of loop_calls] by simp
qed

text \<open>
  C7: every graph built through the public operations keeps the two edge maps converse to
  each other, without duplicates or self-loops, with every target and every versioned node a node.
\<close>

theorem graph_invariant: "graph_reachable g \<Longrightarrow> graph_inv g"
  by (rule reachable_inv)

theorem graph_invariant_witness: "graph_inv chain_graph"
  by (rule graph_invariant [OF chain_reachable])

text \<open>
  C3: cycle detection is exact. On every reachable graph \<^verbatim>\<open>hasCycle\<close> answers true if and
  only if the dependency relation has a cycle.
\<close>

theorem hasCycle_exact: "graph_reachable g \<Longrightarrow> hasCycle g \<longleftrightarrow> \<not> acyclic (edges (succs g))"
  by (rule hasCycle_iff [OF reachable_inv])

theorem hasCycle_exact_witness:
  "\<not> acyclic (edges (succs loop_graph)) \<and> acyclic (edges (succs chain_graph))"
proof -
  have "hasCycle loop_graph" "\<not> hasCycle chain_graph" by code_simp+
  then show ?thesis
    using hasCycle_exact [OF loop_reachable] hasCycle_exact [OF chain_reachable] by simp
qed

text \<open>
  C6: on a reachable graph without cycles the topological sort returns every node exactly
  once, each node before everything it depends on.
\<close>

theorem topologicalSort_correct:
  assumes "graph_reachable g" "\<not> hasCycle g"
  shows "\<exists>xs. topologicalSort g = Some xs \<and> topological_order g xs"
  using topologicalSort_order [OF reachable_inv [OF assms(1)]] hasCycle_iff [OF reachable_inv [OF assms(1)]] assms(2)
  by simp

theorem topologicalSort_correct_witness:
  "topologicalSort chain_graph = Some [''a'', ''b'', ''c''] \<and> topological_order chain_graph [''a'', ''b'', ''c'']"
proof -
  have "\<not> hasCycle chain_graph" "topologicalSort chain_graph = Some [''a'', ''b'', ''c'']" by code_simp+
  then show ?thesis using topologicalSort_correct [OF chain_reachable] by simp
qed

text \<open>
  The sort itself never reports a cycle. It returns a list on every reachable graph,
  the cyclic ones included, so the documented empty result for a cyclic graph does not occur.
\<close>

theorem topologicalSort_never_fails: "graph_reachable g \<Longrightarrow> topologicalSort g \<noteq> None"
  by (rule topologicalSort_Some [OF reachable_inv]) auto

theorem topologicalSort_never_fails_witness:
  "hasCycle loop_graph \<and> topologicalSort loop_graph \<noteq> None"
proof
  show "hasCycle loop_graph" by code_simp
  show "topologicalSort loop_graph \<noteq> None" by (rule topologicalSort_never_fails [OF loop_reachable])
qed

text \<open>
  The transitive dependencies of a node are exactly the nodes reachable from it over
  one or more edges, on every graph, cyclic ones included.
\<close>

theorem getAllDependencies_correct: "set (getAllDependencies x g) = (edges (succs g))\<^sup>+ `` {x}"
  by (rule set_getAllDependencies)

text \<open>
  \<^verbatim>\<open>detectVersionConflicts\<close> compares the version of a node with itself and reports no
  conflict for any graph.
\<close>

lemma detectVersionConflicts_empty: "detectVersionConflicts g = []"
proof -
  have c: "concat (map f xs) = []" if "\<And>x. x \<in> set xs \<Longrightarrow> f x = []" for f :: "'x \<Rightarrow> 'y list" and xs
    using that by simp
  show ?thesis
    unfolding detectVersionConflicts_def
    by (auto intro!: c simp: Version_eq_def split: option.split prod.split)
qed

text \<open>
  On a reachable graph validation accepts exactly the nodes that exist: every transitive
  dependency is a node, and the version check compares each version with itself.
\<close>

lemma validateDependencies_vacuous:
  assumes "graph_reachable g"
  shows "validateDependencies node g \<longleftrightarrow> nodeExists node g"
proof -
  have inv: "graph_inv g" using reachable_inv [OF assms] .
  have "nodeExists d g" if "d \<in> set (getAllDependencies node g)" for d
  proof -
    have "(node, d) \<in> (edges (succs g))\<^sup>+" using that by (simp add: set_getAllDependencies)
    then obtain z where "d \<in> set (succs g z)" by (auto dest: tranclD2)
    then show ?thesis using succs_in_keys [OF inv, of z] by (auto simp: nodeExists_def map_of_None_keys)
  qed
  moreover have "validateDependencyVersion node d g" for d
    by (auto simp: validateDependencyVersion_def validateVersion_def lith_defs list_all_iff split: option.split)
  ultimately show ?thesis by (auto simp: validateDependencies_def list_all_iff)
qed


text \<open>Two JSON packages that depend on each other, for the witness.\<close>

definition loop_parser :: parser where
  "loop_parser dir file =
     (if file = ''package.json'' \<and> dir = ''x''
      then Some (Inr (''a'', [(''a'', mk_version 1 0 0), (''b'', mk_version 1 0 0)]))
      else if file = ''package.json'' \<and> dir = ''y''
      then Some (Inr (''b'', [(''b'', mk_version 1 0 0), (''a'', mk_version 1 0 0)]))
      else None)"


lemma xml_deps_keys:
  "keys (foldl (\<lambda>deps d. case d of None \<Rightarrow> deps | Some m \<Rightarrow> AList.update m v deps) acc ds)
   = keys acc \<union> {m. Some m \<in> set ds}"
proof (induction ds arbitrary: acc)
  case (Cons d ds)
  then show ?case by (cases d) auto
qed simp

text \<open>
  A package that does not list itself among its dependencies cannot be resolved from an
  XML file: the loader leaves out the package's own version, which the resolver looks up with
  \<^verbatim>\<open>at\<close>, so the resolution ends with an out-of-range error.
\<close>

theorem package_xml_unresolvable:
  assumes "parse dir ''package.json'' = None"
    "parse dir ''package.xml'' = Some (parsePackageXml path (XmlPackage (Some n) depends))"
    "n \<noteq> []" "Some n \<notin> set depends"
  shows "resolveDependencies parse (dir # rest) = Inl (OutOfRange ''unordered_map::at'')"
proof -
  have "map_of (foldl (\<lambda>deps d. case d of None \<Rightarrow> deps | Some m \<Rightarrow> AList.update m (mk_version 0 0 0) deps) [] depends) n = None"
    using assms(4) by (simp add: map_of_None_keys xml_deps_keys)
  then show ?thesis
    using assms by (simp add: resolveDependencies_def FILE_TYPES_def parsePackageXml_def addPackage_def)
qed

theorem package_xml_unresolvable_witness:
  "resolveDependencies
     (\<lambda>dir file. if file = ''package.xml''
                 then Some (parsePackageXml ''d/package.xml'' (XmlPackage (Some ''p'') [Some ''q'']))
                 else None) [''d'']
   = Inl (OutOfRange ''unordered_map::at'')"
  by (rule package_xml_unresolvable [where n = "''p''" and depends = "[Some ''q'']" and path = "''d/package.xml''"])
    simp_all



end
