(* ===== verification/Task.thy ===== *)
theory Task
  imports Lithium_Prelude
begin

text \<open>
  The task of \<^verbatim>\<open>src/src/task/core/task.hpp\<close> and \<^verbatim>\<open>task.cpp\<close>: its fields, setters, dependency
  bookkeeping, parameter validation, cancellation and \<^verbatim>\<open>execute\<close> with pre- and post-tasks. A task is a
  tree, since it owns its pre- and post-tasks. What is outside the file is a parameter: the JSON
  library (\<open>json_api\<close>), and the actions, exception callbacks and clocks (\<open>task_env\<close>), which read
  and change a world of an arbitrary type. Actions throw standard exceptions only.
\<close>

section \<open>Data\<close>

datatype TaskStatus = Pending | InProgress | Completed | Failed

datatype TaskErrorType =
    NoError | Timeout | InvalidParameter | DeviceError | SystemError | ExecutionFailed | Cancelled
  | DependencyFailed | ResourceUnavailable | UnknownError

record 'j ParamDefinition =
  pd_name :: string
  pd_type :: string
  pd_required :: bool
  pd_defaultValue :: 'j
  pd_description :: string

text \<open>The operations of the JSON library that tasks and targets use; \<open>j_null\<close> is the value of \<^verbatim>\<open>{}\<close>.\<close>

record 'j json_api =
  j_find :: "'j \<Rightarrow> string \<Rightarrow> 'j option"
  j_is_string :: "'j \<Rightarrow> bool"
  j_is_number :: "'j \<Rightarrow> bool"
  j_is_boolean :: "'j \<Rightarrow> bool"
  j_is_array :: "'j \<Rightarrow> bool"
  j_is_object :: "'j \<Rightarrow> bool"
  j_null :: 'j

record 'j task_core =
  tk_name :: string
  tk_uuid :: string
  tk_taskType :: string
  tk_timeout :: int
  tk_status :: TaskStatus
  tk_error :: "string option"
  tk_priority :: int
  tk_dependencies :: "string list"
  tk_dependencyStatus :: "bool umap"
  tk_executionTime :: int
  tk_logLevel :: int
  tk_errorType :: TaskErrorType
  tk_errorDetails :: string
  tk_taskHistory :: "string list"
  tk_paramDefinitions :: "'j ParamDefinition list"
  tk_paramErrors :: "string list"
  tk_hasExceptionCallback :: bool
  tk_cancelled :: bool
  tk_creationTime :: int
  tk_startTime :: "int option"
  tk_endTime :: "int option"

datatype 'j task =
  Task (core: "'j task_core") (preTasks: "'j task list") (postTasks: "'j task list")

text \<open>
  What running an action amounts to for its task: whether \<^verbatim>\<open>cancel()\<close> was called on it meanwhile,
  the exception that reaches \<^verbatim>\<open>execute\<close> (none if it returned), and, for a run with a timeout,
  whether the future became ready in time.
\<close>

record action_outcome =
  cancel_called :: bool
  thrown :: "exn option"
  ready :: bool

record ('j, 'w) task_env =
  env_action :: "string \<Rightarrow> 'j \<Rightarrow> 'w \<Rightarrow> action_outcome \<times> 'w"
  env_timed_action :: "string \<Rightarrow> int \<Rightarrow> 'j \<Rightarrow> 'w \<Rightarrow> action_outcome \<times> 'w"
  env_callback :: "string \<Rightarrow> exn \<Rightarrow> 'w \<Rightarrow> 'w"
  env_system_clock :: "'w \<Rightarrow> int"
  env_hires_clock :: "'w \<Rightarrow> int"

definition Task_new :: "string \<Rightarrow> string \<Rightarrow> int \<Rightarrow> 'j task" where
  "Task_new name uuid now =
     Task \<lparr>tk_name = name, tk_uuid = uuid, tk_taskType = [], tk_timeout = 0, tk_status = Pending,
           tk_error = None, tk_priority = 5, tk_dependencies = [], tk_dependencyStatus = [],
           tk_executionTime = 0, tk_logLevel = 2, tk_errorType = NoError, tk_errorDetails = [],
           tk_taskHistory = [], tk_paramDefinitions = [], tk_paramErrors = [],
           tk_hasExceptionCallback = False, tk_cancelled = False, tk_creationTime = now,
           tk_startTime = None, tk_endTime = None\<rparr> [] []"

abbreviation getUUID :: "'j task \<Rightarrow> string" where "getUUID t \<equiv> tk_uuid (core t)"
abbreviation getStatus :: "'j task \<Rightarrow> TaskStatus" where "getStatus t \<equiv> tk_status (core t)"

section \<open>Fields\<close>

definition Task_setTimeout :: "int \<Rightarrow> 'j task_core \<Rightarrow> 'j task_core" where
  "Task_setTimeout s c = c\<lparr>tk_timeout := s\<rparr>"

definition Task_setPriority :: "int \<Rightarrow> 'j task_core \<Rightarrow> 'j task_core result" where
  "Task_setPriority p c =
     (if p < 1 \<or> p > 10 then Inl (InvalidArgument ''Priority must be between 1 and 10'')
      else Inr (c\<lparr>tk_priority := p\<rparr>))"

definition Task_addDependency :: "string \<Rightarrow> 'j task_core \<Rightarrow> 'j task_core" where
  "Task_addDependency taskId c =
     (if taskId \<notin> set (tk_dependencies c)
      then c\<lparr>tk_dependencies := tk_dependencies c @ [taskId],
             tk_dependencyStatus := AList.update taskId False (tk_dependencyStatus c)\<rparr>
      else c)"

definition Task_removeDependency :: "string \<Rightarrow> 'j task_core \<Rightarrow> 'j task_core" where
  "Task_removeDependency taskId c =
     (if taskId \<in> set (tk_dependencies c)
      then c\<lparr>tk_dependencies := removeAll taskId (tk_dependencies c),
             tk_dependencyStatus := AList.delete taskId (tk_dependencyStatus c)\<rparr>
      else c)"

definition Task_hasDependency :: "string \<Rightarrow> 'j task_core \<Rightarrow> bool" where
  "Task_hasDependency taskId c \<longleftrightarrow> taskId \<in> set (tk_dependencies c)"

definition Task_setDependencyStatus :: "string \<Rightarrow> bool \<Rightarrow> 'j task_core \<Rightarrow> 'j task_core" where
  "Task_setDependencyStatus taskId st c =
     (if Task_hasDependency taskId c
      then c\<lparr>tk_dependencyStatus := AList.update taskId st (tk_dependencyStatus c)\<rparr> else c)"

fun dependenciesSatisfied :: "bool umap \<Rightarrow> string list \<Rightarrow> bool result" where
  "dependenciesSatisfied st [] = Inr True"
| "dependenciesSatisfied st (dep # rest) =
     (case map_of st dep of
        None \<Rightarrow> Inl (OutOfRange ''unordered_map::at'')
      | Some False \<Rightarrow> Inr False
      | Some True \<Rightarrow> dependenciesSatisfied st rest)"

definition Task_isDependencySatisfied :: "'j task_core \<Rightarrow> bool result" where
  "Task_isDependencySatisfied c = dependenciesSatisfied (tk_dependencyStatus c) (tk_dependencies c)"

definition Task_setLogLevel :: "int \<Rightarrow> 'j task_core \<Rightarrow> 'j task_core result" where
  "Task_setLogLevel l c =
     (if l < 0 \<or> l > 4 then Inl (InvalidArgument ''Log level must be between 0 and 4'')
      else Inr (c\<lparr>tk_logLevel := l\<rparr>))"

definition Task_setErrorType :: "TaskErrorType \<Rightarrow> 'j task_core \<Rightarrow> 'j task_core" where
  "Task_setErrorType et c = c\<lparr>tk_errorType := et\<rparr>"

definition Task_addHistoryEntry :: "string \<Rightarrow> 'j task_core \<Rightarrow> 'j task_core" where
  "Task_addHistoryEntry entry c = c\<lparr>tk_taskHistory := tk_taskHistory c @ [entry]\<rparr>"

definition Task_addParamDefinition :: "'j ParamDefinition \<Rightarrow> 'j task_core \<Rightarrow> 'j task_core" where
  "Task_addParamDefinition d c = c\<lparr>tk_paramDefinitions := tk_paramDefinitions c @ [d]\<rparr>"

definition Task_removeParamDefinition :: "string \<Rightarrow> 'j task_core \<Rightarrow> 'j task_core" where
  "Task_removeParamDefinition name c =
     c\<lparr>tk_paramDefinitions := filter (\<lambda>d. pd_name d \<noteq> name) (tk_paramDefinitions c)\<rparr>"

definition Task_setExceptionCallback :: "'j task_core \<Rightarrow> 'j task_core" where
  "Task_setExceptionCallback c = c\<lparr>tk_hasExceptionCallback := True\<rparr>"

definition Task_clearExceptionCallback :: "'j task_core \<Rightarrow> 'j task_core" where
  "Task_clearExceptionCallback c = c\<lparr>tk_hasExceptionCallback := False\<rparr>"

definition Task_setTaskType :: "string \<Rightarrow> 'j task_core \<Rightarrow> 'j task_core" where
  "Task_setTaskType ty c = c\<lparr>tk_taskType := ty\<rparr>"

definition Task_cancel :: "'j task_core \<Rightarrow> bool \<times> 'j task_core" where
  "Task_cancel c =
     (if tk_status c = InProgress
      then (True, c\<lparr>tk_cancelled := True, tk_status := Failed, tk_errorType := Cancelled,
                    tk_error := Some ''Task was cancelled''\<rparr>)
      else (False, c))"

definition Task_setStatus :: "TaskStatus \<Rightarrow> 'j task_core \<Rightarrow> 'j task_core" where
  "Task_setStatus st c = c\<lparr>tk_status := st\<rparr>"

definition Task_setError :: "string \<Rightarrow> 'j task_core \<Rightarrow> 'j task_core" where
  "Task_setError e c = c\<lparr>tk_error := Some e, tk_errorDetails := e\<rparr>"

definition Task_clearError :: "'j task_core \<Rightarrow> 'j task_core" where
  "Task_clearError c = c\<lparr>tk_error := None, tk_errorType := NoError, tk_errorDetails := []\<rparr>"

definition Task_markStartTime :: "int \<Rightarrow> 'j task_core \<Rightarrow> 'j task_core" where
  "Task_markStartTime now c = c\<lparr>tk_startTime := Some now\<rparr>"

definition Task_markEndTime :: "int \<Rightarrow> 'j task_core \<Rightarrow> 'j task_core" where
  "Task_markEndTime now c = c\<lparr>tk_endTime := Some now\<rparr>"

section \<open>Parameter validation\<close>

definition validateParamType :: "'j json_api \<Rightarrow> string \<Rightarrow> 'j \<Rightarrow> bool" where
  "validateParamType api ty v =
     (if ty = ''string'' \<and> \<not> j_is_string api v then False
      else if ty = ''number'' \<and> \<not> j_is_number api v then False
      else if ty = ''boolean'' \<and> \<not> j_is_boolean api v then False
      else if ty = ''array'' \<and> \<not> j_is_array api v then False
      else if ty = ''object'' \<and> \<not> j_is_object api v then False
      else True)"

definition paramErrors_of :: "'j json_api \<Rightarrow> 'j \<Rightarrow> 'j ParamDefinition \<Rightarrow> string list" where
  "paramErrors_of api params d =
     (case j_find api params (pd_name d) of
        None \<Rightarrow> if pd_required d then [''Missing required parameter: '' @ pd_name d] else []
      | Some v \<Rightarrow>
        if \<not> validateParamType api (pd_type d) v
        then [''Invalid type for parameter '' @ pd_name d @ '': expected '' @ pd_type d] else [])"

definition Task_validateParams :: "'j json_api \<Rightarrow> 'j \<Rightarrow> 'j task_core \<Rightarrow> bool \<times> 'j task_core" where
  "Task_validateParams api params c =
     (let errs = concat (map (paramErrors_of api params) (tk_paramDefinitions c))
      in (errs = [], c\<lparr>tk_paramErrors := errs\<rparr>))"

text \<open>The \<^verbatim>\<open>std::accumulate\<close> over the error texts.\<close>

fun joinErrors :: "string list \<Rightarrow> string" where
  "joinErrors [] = []"
| "joinErrors (e # es) = foldl (\<lambda>a b. a @ ''; '' @ b) e es"

section \<open>Pre- and post-tasks\<close>

definition Task_addPreTask :: "'j task option \<Rightarrow> 'j task \<Rightarrow> 'j task" where
  "Task_addPreTask nt t =
     (case nt of None \<Rightarrow> t
      | Some x \<Rightarrow>
        if getUUID x \<notin> getUUID ` set (preTasks t)
        then Task (core t) (preTasks t @ [x]) (postTasks t) else t)"

text \<open>\<^verbatim>\<open>find_if\<close> and \<^verbatim>\<open>erase\<close>: the first element with the uuid goes.\<close>

fun erase_uuid :: "string \<Rightarrow> 'j task list \<Rightarrow> 'j task list" where
  "erase_uuid u [] = []"
| "erase_uuid u (t # ts) = (if getUUID t = u then ts else t # erase_uuid u ts)"

definition Task_removePreTask :: "'j task \<Rightarrow> 'j task \<Rightarrow> 'j task" where
  "Task_removePreTask x t = Task (core t) (erase_uuid (getUUID x) (preTasks t)) (postTasks t)"

definition arePreTasksCompleted :: "'j task list \<Rightarrow> bool" where
  "arePreTasksCompleted pre = list_all (\<lambda>t. getStatus t = Completed) pre"

definition Task_addPostTask :: "'j task option \<Rightarrow> 'j task \<Rightarrow> 'j task" where
  "Task_addPostTask nt t =
     (case nt of None \<Rightarrow> t
      | Some x \<Rightarrow>
        if getUUID x \<notin> getUUID ` set (postTasks t)
        then Task (core t) (preTasks t) (postTasks t @ [x]) else t)"

definition Task_removePostTask :: "'j task \<Rightarrow> 'j task \<Rightarrow> 'j task" where
  "Task_removePostTask x t = Task (core t) (preTasks t) (erase_uuid (getUUID x) (postTasks t))"

section \<open>Execution\<close>

text \<open>The \<^verbatim>\<open>dynamic_cast\<close> chain that names the kind of an exception.\<close>

definition exn_error_type :: "exn \<Rightarrow> TaskErrorType" where
  "exn_error_type e =
     (case e of TaskTimeout _ \<Rightarrow> Timeout | InvalidArgument _ \<Rightarrow> InvalidParameter | _ \<Rightarrow> ExecutionFailed)"

text \<open>The catch block of \<^verbatim>\<open>execute\<close>.\<close>

definition Task_catch :: "('j, 'w) task_env \<Rightarrow> exn \<Rightarrow> 'j task_core \<Rightarrow> 'w \<Rightarrow> 'j task_core \<times> 'w" where
  "Task_catch env e c w =
     (let c = c\<lparr>tk_status := Failed, tk_error := Some (what e)\<rparr>;
          w = (if tk_hasExceptionCallback c then env_callback env (tk_uuid c) e w else w);
          c = (if tk_errorType c = NoError
               then Task_setErrorType
                      (exn_error_type e) c
               else c);
          c = c\<lparr>tk_errorDetails := what e\<rparr>
      in (Task_addHistoryEntry (''Task failed: '' @ what e) c, w))"

text \<open>
  The part of the try block up to the action: \<open>Inl c\<close> is an early return, \<open>Inr (Inl (e, c))\<close> a
  throw, \<open>Inr (Inr c)\<close> the state in which the action starts.
\<close>

definition Task_prepare ::
    "'j json_api \<Rightarrow> 'j \<Rightarrow> 'j task list \<Rightarrow> int \<Rightarrow> 'j task_core
     \<Rightarrow> 'j task_core + ((exn \<times> 'j task_core) + 'j task_core)" where
  "Task_prepare api params pre now c =
     (if tk_cancelled c then
        Inl (Task_markEndTime now
          (c\<lparr>tk_status := Failed, tk_errorType := Cancelled,
             tk_error := Some ''Task was cancelled before execution''\<rparr>))
      else if \<not> arePreTasksCompleted pre then
        Inr (Inl (RuntimeError ''Pre-tasks not completed'', c\<lparr>tk_errorType := DependencyFailed\<rparr>))
      else
        (case Task_validateParams api params c of
           (ok, c) \<Rightarrow>
             if \<not> ok then
               Inl (Task_markEndTime now
                 (c\<lparr>tk_status := Failed, tk_errorType := InvalidParameter,
                    tk_error := Some (if tk_paramErrors c \<noteq> []
                      then ''Parameter validation failed: '' @ joinErrors (tk_paramErrors c)
                      else ''Parameter validation failed'')\<rparr>))
             else Inr (Inr (Task_addHistoryEntry ''Task execution started''
               (c\<lparr>tk_status := InProgress, tk_error := None, tk_errorType := NoError\<rparr>)))))"

text \<open>The call of the action, with or without a timeout, and what it does to the task.\<close>

definition Task_runAction ::
    "('j, 'w) task_env \<Rightarrow> 'j \<Rightarrow> 'j task_core \<Rightarrow> 'w \<Rightarrow> exn option \<times> 'j task_core \<times> 'w" where
  "Task_runAction env params c w =
     (if tk_timeout c > 0 then
        (case env_timed_action env (tk_uuid c) (tk_timeout c) params w of
           (oc, w) \<Rightarrow>
             (case thrown oc of
                Some e \<Rightarrow> Some e
              | None \<Rightarrow> if ready oc then None else Some (TaskTimeout ''Task timed out''),
              if cancel_called oc then snd (Task_cancel c) else c, w))
      else
        (case env_action env (tk_uuid c) params w of
           (oc, w) \<Rightarrow> (thrown oc, if cancel_called oc then snd (Task_cancel c) else c, w)))"

definition Task_finish :: "('j, 'w) task_env \<Rightarrow> int \<Rightarrow> 'j task_core \<Rightarrow> 'w \<Rightarrow> 'j task_core" where
  "Task_finish env started c w =
     (Task_markEndTime (env_system_clock env w) c)\<lparr>tk_executionTime := env_hires_clock env w - started\<rparr>"

fun Task_execute ::
    "('j, 'w) task_env \<Rightarrow> 'j json_api \<Rightarrow> 'j \<Rightarrow> 'j task \<Rightarrow> 'w \<Rightarrow> 'j task \<times> 'w"
  and triggerPostTasks ::
    "('j, 'w) task_env \<Rightarrow> 'j json_api \<Rightarrow> 'j task list \<Rightarrow> 'w \<Rightarrow> 'j task list \<times> 'w"
where
  "Task_execute env api params (Task c pre post) w =
     (let start = env_hires_clock env w;
          c = Task_markStartTime (env_system_clock env w) c
      in case Task_prepare api params pre (env_system_clock env w) c of
           Inl c \<Rightarrow> (Task c pre post, w)
         | Inr (Inl (e, c)) \<Rightarrow>
           (case Task_catch env e c w of
              (c, w) \<Rightarrow> (Task (Task_finish env start c w) pre post, w))
         | Inr (Inr c) \<Rightarrow>
           (case Task_runAction env params c w of
              (Some e, c, w) \<Rightarrow>
                (case Task_catch env e c w of
                   (c, w) \<Rightarrow> (Task (Task_finish env start c w) pre post, w))
            | (None, c, w) \<Rightarrow>
                if tk_cancelled c then
                  (Task (Task_finish env start
                     (Task_addHistoryEntry ''Task cancelled during execution''
                        (c\<lparr>tk_status := Failed, tk_errorType := Cancelled,
                           tk_error := Some ''Task was cancelled during execution''\<rparr>)) w) pre post, w)
                else
                  (let c = Task_addHistoryEntry ''Task executed successfully'' (c\<lparr>tk_status := Completed\<rparr>)
                   in case triggerPostTasks env api post w of
                        (post, w) \<Rightarrow> (Task (Task_finish env start c w) pre post, w))))"
| "triggerPostTasks env api [] w = ([], w)"
| "triggerPostTasks env api (t # ts) w =
     (if getStatus t = Pending then
        (case Task_execute env api (j_null api) t w of
           (t', w') \<Rightarrow> (case triggerPostTasks env api ts w' of (ts', w'') \<Rightarrow> (t' # ts', w'')))
      else (case triggerPostTasks env api ts w of (ts', w'') \<Rightarrow> (t # ts', w'')))"

declare Task_execute.simps [simp del]

section \<open>Outcome of an execution\<close>

lemma Task_catch_simps [simp]:
  "tk_status (fst (Task_catch env e c w)) = Failed"
  "tk_uuid (fst (Task_catch env e c w)) = tk_uuid c"
  "tk_name (fst (Task_catch env e c w)) = tk_name c"
  "tk_cancelled (fst (Task_catch env e c w)) = tk_cancelled c"
  "tk_error (fst (Task_catch env e c w)) = Some (what e)"
  "tk_errorType (fst (Task_catch env e c w)) = (if tk_errorType c = NoError then exn_error_type e else tk_errorType c)"
  by (simp_all add: Task_catch_def Let_def Task_addHistoryEntry_def Task_setErrorType_def)

lemma Task_catch_keeps:
  "Task_catch env e c w = (c', w') \<Longrightarrow>
   tk_status c' = Failed \<and> tk_uuid c' = tk_uuid c \<and> tk_name c' = tk_name c \<and> tk_cancelled c' = tk_cancelled c
   \<and> tk_error c' = Some (what e)
   \<and> tk_errorType c' = (if tk_errorType c = NoError then exn_error_type e else tk_errorType c)"
  using Task_catch_simps [of env e c w] by simp

lemma Task_finish_simps [simp]:
  "tk_status (Task_finish env s c w) = tk_status c"
  "tk_uuid (Task_finish env s c w) = tk_uuid c"
  "tk_name (Task_finish env s c w) = tk_name c"
  "tk_errorType (Task_finish env s c w) = tk_errorType c"
  "tk_error (Task_finish env s c w) = tk_error c"
  "tk_cancelled (Task_finish env s c w) = tk_cancelled c"
  by (simp_all add: Task_finish_def Task_markEndTime_def)

lemma Task_runAction_keeps:
  assumes "Task_runAction env params c w = (r, c', w')"
  shows "tk_uuid c' = tk_uuid c" "tk_name c' = tk_name c"
  using assms by (auto simp: Task_runAction_def Task_cancel_def split: if_splits prod.splits option.splits)

lemma Task_markStartTime_simps [simp]:
  "tk_cancelled (Task_markStartTime n c) = tk_cancelled c"
  "tk_paramDefinitions (Task_markStartTime n c) = tk_paramDefinitions c"
  "tk_uuid (Task_markStartTime n c) = tk_uuid c" "tk_name (Task_markStartTime n c) = tk_name c"
  "tk_timeout (Task_markStartTime n c) = tk_timeout c"
  by (simp_all add: Task_markStartTime_def)

lemma Task_prepare_Inl:
  "Task_prepare api params pre now c = Inl c' \<Longrightarrow>
   tk_status c' = Failed \<and> tk_uuid c' = tk_uuid c \<and> tk_name c' = tk_name c \<and> tk_cancelled c' = tk_cancelled c
   \<and> (if tk_cancelled c then tk_errorType c' = Cancelled
      else arePreTasksCompleted pre \<and> \<not> fst (Task_validateParams api params c) \<and> tk_errorType c' = InvalidParameter)"
  by (auto simp: Task_prepare_def Task_validateParams_def Task_markEndTime_def Let_def split: if_splits)

lemma Task_prepare_throw:
  "Task_prepare api params pre now c = Inr (Inl (e, c')) \<Longrightarrow>
   \<not> tk_cancelled c \<and> \<not> arePreTasksCompleted pre \<and> c' = c\<lparr>tk_errorType := DependencyFailed\<rparr> \<and> e = RuntimeError ''Pre-tasks not completed''"
  by (auto simp: Task_prepare_def Task_validateParams_def Let_def split: if_splits)

lemma Task_prepare_start:
  "Task_prepare api params pre now c = Inr (Inr c') \<longleftrightarrow>
   \<not> tk_cancelled c \<and> arePreTasksCompleted pre \<and> fst (Task_validateParams api params c)
   \<and> c' = c\<lparr>tk_paramErrors := [], tk_status := InProgress, tk_error := None, tk_errorType := NoError,
            tk_taskHistory := tk_taskHistory c @ [''Task execution started'']\<rparr>"
  by (auto simp: Task_prepare_def Task_validateParams_def Task_addHistoryEntry_def Let_def split: if_splits)

text \<open>
  What the action of a started task leads to: the exception that reaches the handler, and whether
  the task counts as cancelled afterwards.
\<close>

definition action_of :: "('j, 'w) task_env \<Rightarrow> 'j \<Rightarrow> 'j task_core \<Rightarrow> 'w \<Rightarrow> action_outcome \<times> 'w" where
  "action_of env params c w =
     (if tk_timeout c > 0 then env_timed_action env (tk_uuid c) (tk_timeout c) params w
      else env_action env (tk_uuid c) params w)"

definition action_exn :: "'j task_core \<Rightarrow> action_outcome \<Rightarrow> exn option" where
  "action_exn c oc =
     (case thrown oc of
        Some e \<Rightarrow> Some e
      | None \<Rightarrow> if tk_timeout c > 0 \<and> \<not> ready oc then Some (TaskTimeout ''Task timed out'') else None)"

definition action_succeeds :: "('j, 'w) task_env \<Rightarrow> 'j \<Rightarrow> 'j task_core \<Rightarrow> 'w \<Rightarrow> bool" where
  "action_succeeds env params c w \<longleftrightarrow>
     (let oc = fst (action_of env params c w)
      in action_exn c oc = None \<and> \<not> cancel_called oc)"

text \<open>The error type an execution is classified with.\<close>

definition expected_error ::
    "('j, 'w) task_env \<Rightarrow> 'j json_api \<Rightarrow> 'j \<Rightarrow> 'j task \<Rightarrow> 'w \<Rightarrow> TaskErrorType" where
  "expected_error env api params t w =
     (if tk_cancelled (core t) then Cancelled
      else if \<not> arePreTasksCompleted (preTasks t) then DependencyFailed
      else if \<not> fst (Task_validateParams api params (core t)) then InvalidParameter
      else
        let oc = fst (action_of env params (core t) w)
        in if cancel_called oc then Cancelled
           else case action_exn (core t) oc of None \<Rightarrow> NoError | Some e \<Rightarrow> exn_error_type e)"

text \<open>The conditions under which an execution completes.\<close>

definition can_complete :: "('j, 'w) task_env \<Rightarrow> 'j json_api \<Rightarrow> 'j \<Rightarrow> 'j task \<Rightarrow> 'w \<Rightarrow> bool" where
  "can_complete env api params t w \<longleftrightarrow>
     \<not> tk_cancelled (core t) \<and> arePreTasksCompleted (preTasks t)
     \<and> fst (Task_validateParams api params (core t)) \<and> action_succeeds env params (core t) w"

lemma Task_runAction_None:
  assumes "Task_runAction env params c w = (r, c', w')" "tk_status c = InProgress" "\<not> tk_cancelled c"
  shows "(r = None \<and> \<not> tk_cancelled c') = action_succeeds env params c w"
    "w' = snd (action_of env params c w)"
    "tk_errorType c' = (if cancel_called (fst (action_of env params c w)) then Cancelled else tk_errorType c)"
    "tk_cancelled c' = cancel_called (fst (action_of env params c w))"
    "r = action_exn c (fst (action_of env params c w))"
  using assms
  by (auto simp: Task_runAction_def Task_cancel_def action_succeeds_def action_of_def action_exn_def Let_def
      split: if_splits prod.splits option.splits)

lemma action_started:
  "tk_timeout c' = tk_timeout c \<Longrightarrow> tk_uuid c' = tk_uuid c \<Longrightarrow>
   action_of env params c' w = action_of env params c w \<and>
   action_succeeds env params c' w = action_succeeds env params c w \<and> action_exn c' oc = action_exn c oc"
  by (auto simp: action_of_def action_succeeds_def action_exn_def)

text \<open>One case distinction for all runs: early failure, or the action ran and succeeded or failed.\<close>

lemma Task_execute_cases:
  obtains (failed) c' w' where "\<not> can_complete env api params t w"
      "Task_execute env api params t w = (Task c' (preTasks t) (postTasks t), w')"
      "tk_status c' = Failed" "tk_uuid c' = getUUID t" "tk_name c' = tk_name (core t)"
      "tk_errorType c' = expected_error env api params t w"
  | (completed) c' post' w' where "can_complete env api params t w"
      "triggerPostTasks env api (postTasks t) (snd (action_of env params (core t) w)) = (post', w')"
      "Task_execute env api params t w = (Task c' (preTasks t) post', w')"
      "tk_status c' = Completed" "tk_uuid c' = getUUID t" "tk_name c' = tk_name (core t)"
      "tk_errorType c' = NoError" "expected_error env api params t w = NoError"
proof (cases t)
  case (Task c pre post)
  let ?c = "Task_markStartTime (env_system_clock env w) c"
  let ?p = "Task_prepare api params pre (env_system_clock env w) ?c"
  have v: "fst (Task_validateParams api params ?c) = fst (Task_validateParams api params c)"
    by (simp add: Task_validateParams_def)
  note eq = Task Task_execute.simps [of env api params c pre post w, unfolded Let_def]
  consider (early) c' where "?p = Inl c'" | (throws) e c' where "?p = Inr (Inl (e, c'))"
    | (start) c' where "?p = Inr (Inr c')"
    by (metis surj_pair sumE)
  then show thesis
  proof cases
    case early
    then have "\<not> can_complete env api params t w"
      using Task Task_prepare_start [of api params pre "env_system_clock env w" ?c] v
      by (auto simp: can_complete_def)
    then show thesis using failed [of c' w] early Task_prepare_Inl [OF early] v
      by (simp add: eq expected_error_def split: if_splits)
  next
    case throws
    obtain c2 w2 where k: "Task_catch env e c' w = (c2, w2)" by (cases "Task_catch env e c' w")
    show thesis
      using Task_prepare_throw [OF throws] Task_catch_keeps [OF k] throws k
      by (intro failed [of "Task_finish env (env_hires_clock env w) c2 w2" w2])
        (auto simp: can_complete_def eq expected_error_def)
  next
    case start
    obtain r c1 w1 where a: "Task_runAction env params c' w = (r, c1, w1)" by (rule prod_cases3)
    note s = start [unfolded Task_prepare_start]
    have st: "tk_status c' = InProgress" "\<not> tk_cancelled c'" "tk_timeout c' = tk_timeout c" "tk_uuid c' = tk_uuid c"
      "tk_name c' = tk_name c" "tk_errorType c' = NoError"
      using s by simp_all
    have can: "can_complete env api params t w \<longleftrightarrow> r = None \<and> \<not> tk_cancelled c1"
      using s v Task_runAction_None(1) [OF a st(1,2)] action_started [OF st(3,4), of env params w undefined] Task
      by (simp add: can_complete_def)
    have w1: "w1 = snd (action_of env params c w)"
      using Task_runAction_None(2) [OF a st(1,2)] action_started [OF st(3,4), of env params w undefined] by simp
    note k = Task_runAction_keeps [OF a] st(4,5)
    let ?oc = "fst (action_of env params c w)"
    have et: "tk_errorType c1 = (if cancel_called ?oc then Cancelled else NoError)"
      "tk_cancelled c1 = cancel_called ?oc" "r = action_exn c ?oc"
      using Task_runAction_None(3-5) [OF a st(1,2)] st(6) action_started [OF st(3,4), of env params w ?oc] by simp_all
    have ex: "expected_error env api params t w = (if cancel_called ?oc then Cancelled
        else case r of None \<Rightarrow> NoError | Some e \<Rightarrow> exn_error_type e)"
      using s v et(3) Task by (simp add: expected_error_def Let_def)
    show thesis
    proof (cases "r = None \<and> \<not> tk_cancelled c1")
      case True
      obtain post' w2 where p: "triggerPostTasks env api post w1 = (post', w2)" by (cases "triggerPostTasks env api post w1")
      show thesis
        using True p start a can w1 k et ex
        by (intro completed [of post' w2 "Task_finish env (env_hires_clock env w)
              (Task_addHistoryEntry ''Task executed successfully'' (c1\<lparr>tk_status := Completed\<rparr>)) w2"])
          (auto simp: eq Task_addHistoryEntry_def)
    next
      case False
      show thesis
      proof (cases r)
        case None
        then show thesis using False start a can k et ex
          by (auto simp: eq Task_addHistoryEntry_def intro!: failed)
      next
        case (Some e)
        obtain c2 w2 where k2: "Task_catch env e c1 w1 = (c2, w2)" by (cases "Task_catch env e c1 w1")
        show thesis using Some False start a can k k2 et ex Task_catch_keeps [OF k2]
          by (intro failed [of "Task_finish env (env_hires_clock env w) c2 w2" w2]) (auto simp: eq)
      qed
    qed
  qed
qed

lemma Task_execute_final:
  "getStatus (fst (Task_execute env api params t w)) = Completed
   \<or> getStatus (fst (Task_execute env api params t w)) = Failed"
  by (rule Task_execute_cases [of env api params t w]) auto

lemma Task_execute_uuid: "getUUID (fst (Task_execute env api params t w)) = getUUID t"
  by (rule Task_execute_cases [of env api params t w]) auto

lemma Task_execute_completed:
  "getStatus (fst (Task_execute env api params t w)) = Completed \<longleftrightarrow> can_complete env api params t w"
  by (rule Task_execute_cases [of env api params t w]) auto

lemma triggerPostTasks_none_pending:
  "triggerPostTasks env api ts w = (ts', w') \<Longrightarrow>
   map getUUID ts' = map getUUID ts \<and> list_all (\<lambda>t. getStatus t \<noteq> Pending) ts'"
proof (induction ts arbitrary: w ts' w')
  case (Cons t ts)
  show ?case
  proof (cases "getStatus t = Pending")
    case True
    obtain t1 w1 where r: "Task_execute env api (j_null api) t w = (t1, w1)"
      by (cases "Task_execute env api (j_null api) t w")
    obtain ts1 w2 where s: "triggerPostTasks env api ts w1 = (ts1, w2)"
      by (cases "triggerPostTasks env api ts w1")
    have "getUUID t1 = getUUID t" "getStatus t1 \<noteq> Pending"
      using Task_execute_uuid [of env api "j_null api" t w] Task_execute_final [of env api "j_null api" t w] r
      by auto
    then show ?thesis using Cons.IH [OF s] Cons.prems True r s by auto
  next
    case False
    then show ?thesis using Cons by (cases "triggerPostTasks env api ts w") auto
  qed
qed simp

section \<open>The interface of a task\<close>

text \<open>
  What a client of the virtual \<^verbatim>\<open>Task::execute\<close> relies on: when it returns, the task is completed or
  failed; an exception may escape from an overriding class; the task keeps its identity either way.
  Targets are verified against this interface.
\<close>

locale task_runner =
  fixes run :: "'p \<Rightarrow> 't \<Rightarrow> 'w \<Rightarrow> exn option \<times> 't \<times> 'w"
    and stat :: "'t \<Rightarrow> TaskStatus"
    and ident :: "'t \<Rightarrow> string"
  assumes run_final: "run p t w = (None, t', w') \<Longrightarrow> stat t' = Completed \<or> stat t' = Failed"
    and run_ident: "run p t w = (r, t', w') \<Longrightarrow> ident t' = ident t"

text \<open>The base class: no exception escapes from \<^const>\<open>Task_execute\<close>.\<close>

definition Task_call :: "('j, 'w) task_env \<Rightarrow> 'j json_api \<Rightarrow> 'j \<Rightarrow> 'j task \<Rightarrow> 'w \<Rightarrow> exn option \<times> 'j task \<times> 'w" where
  "Task_call env api params t w = (None, Task_execute env api params t w)"

interpretation task_exec: task_runner "Task_call env api" getStatus getUUID
proof
  fix p :: 'a and t t' :: "'a task" and w w' :: 'b and r
  show "getStatus t' = Completed \<or> getStatus t' = Failed" if "Task_call env api p t w = (None, t', w')"
    using Task_execute_final [of env api p t w] that by (simp add: Task_call_def)
  show "getUUID t' = getUUID t" if "Task_call env api p t w = (r, t', w')"
    using Task_execute_uuid [of env api p t w] that by (simp add: Task_call_def)
qed

section \<open>Field invariant\<close>

definition task_inv :: "'j task_core \<Rightarrow> bool" where
  "task_inv c \<longleftrightarrow> 1 \<le> tk_priority c \<and> tk_priority c \<le> 10 \<and> 0 \<le> tk_logLevel c \<and> tk_logLevel c \<le> 4
     \<and> distinct (tk_dependencies c) \<and> keys (tk_dependencyStatus c) = set (tk_dependencies c)"

text \<open>The states of the fields that the public operations lead to.\<close>

inductive task_step ::
    "('j, 'w) task_env \<Rightarrow> 'j json_api \<Rightarrow> 'j task_core \<Rightarrow> 'j task_core \<Rightarrow> bool"
  for env api where
  setTimeout: "task_step env api c (Task_setTimeout s c)"
| setPriority: "Task_setPriority p c = Inr c' \<Longrightarrow> task_step env api c c'"
| addDependency: "task_step env api c (Task_addDependency d c)"
| removeDependency: "task_step env api c (Task_removeDependency d c)"
| setDependencyStatus: "task_step env api c (Task_setDependencyStatus d b c)"
| setLogLevel: "Task_setLogLevel l c = Inr c' \<Longrightarrow> task_step env api c c'"
| setErrorType: "task_step env api c (Task_setErrorType et c)"
| addHistoryEntry: "task_step env api c (Task_addHistoryEntry s c)"
| addParamDefinition: "task_step env api c (Task_addParamDefinition d c)"
| removeParamDefinition: "task_step env api c (Task_removeParamDefinition s c)"
| validateParams: "task_step env api c (snd (Task_validateParams api params c))"
| setExceptionCallback: "task_step env api c (Task_setExceptionCallback c)"
| clearExceptionCallback: "task_step env api c (Task_clearExceptionCallback c)"
| setTaskType: "task_step env api c (Task_setTaskType s c)"
| cancel: "task_step env api c (snd (Task_cancel c))"
| setStatus: "task_step env api c (Task_setStatus st c)"
| setError: "task_step env api c (Task_setError s c)"
| clearError: "task_step env api c (Task_clearError c)"
| execute: "task_step env api c (core (fst (Task_execute env api params (Task c pre post) w)))"

inductive_cases task_stepE: "task_step env api c c'"

lemmas task_field_defs =
  Task_setTimeout_def Task_setPriority_def Task_addDependency_def Task_removeDependency_def
  Task_setDependencyStatus_def Task_setLogLevel_def Task_setErrorType_def Task_addHistoryEntry_def
  Task_addParamDefinition_def Task_removeParamDefinition_def Task_validateParams_def
  Task_setExceptionCallback_def Task_clearExceptionCallback_def Task_setTaskType_def Task_cancel_def
  Task_setStatus_def Task_setError_def Task_clearError_def Task_markEndTime_def Task_markStartTime_def

text \<open>The fields an execution leaves alone.\<close>

definition kept :: "'j task_core \<Rightarrow> int \<times> int \<times> string list \<times> bool umap" where
  "kept c = (tk_priority c, tk_logLevel c, tk_dependencies c, tk_dependencyStatus c)"

lemma kept_updates [simp]:
  "kept (Task_markStartTime n c) = kept c" "kept (Task_addHistoryEntry s c) = kept c"
  "kept (c\<lparr>tk_status := st\<rparr>) = kept c" "kept (c\<lparr>tk_error := e\<rparr>) = kept c"
  "kept (c\<lparr>tk_errorType := et\<rparr>) = kept c" "kept (c\<lparr>tk_paramErrors := pe\<rparr>) = kept c"
  "kept (c\<lparr>tk_taskHistory := h\<rparr>) = kept c" "kept (snd (Task_cancel c)) = kept c"
  "kept (Task_finish env i c w) = kept c" "kept (fst (Task_catch env x c w)) = kept c"
  by (simp_all add: kept_def task_field_defs Task_finish_def Task_catch_def Let_def)

lemma Task_prepare_kept:
  "Task_prepare api params pre now c = Inl c' \<Longrightarrow> kept c' = kept c"
  "Task_prepare api params pre now c = Inr (Inl (e, c')) \<Longrightarrow> kept c' = kept c"
  "Task_prepare api params pre now c = Inr (Inr c') \<Longrightarrow> kept c' = kept c"
  by (auto simp: Task_prepare_def Task_validateParams_def Task_markEndTime_def kept_def
      Task_addHistoryEntry_def Let_def split: if_splits)

lemma Task_runAction_kept: "Task_runAction env params c w = (r, c', w') \<Longrightarrow> kept c' = kept c"
  by (auto simp: Task_runAction_def split: if_splits prod.splits)

lemma Task_execute_kept: "kept (core (fst (Task_execute env api params (Task c pre post) w))) = kept c"
proof -
  have catch: "kept c' = kept c1" if "Task_catch env e c1 w1 = (c', w')" for e c1 w1 c' w'
    using kept_updates(10) [of env e c1 w1] that by simp
  show ?thesis
    by (auto simp: Task_execute.simps Let_def split: sum.split prod.split option.split
        dest!: Task_prepare_kept Task_runAction_kept catch)
qed

lemma task_inv_new: "task_inv (core (Task_new name uuid now))"
  by (simp add: task_inv_def Task_new_def)

lemma task_inv_step: "task_step env api c c' \<Longrightarrow> task_inv c \<Longrightarrow> task_inv c'"
proof (induction rule: task_step.induct)
  case (execute c params pre post w)
  then show ?case using Task_execute_kept [of env api params c pre post w] by (simp add: task_inv_def kept_def)
qed (auto simp: task_inv_def task_field_defs Task_hasDependency_def distinct_removeAll Let_def split: if_splits)

lemma task_inv_steps: "(task_step env api)\<^sup>*\<^sup>* c c' \<Longrightarrow> task_inv c \<Longrightarrow> task_inv c'"
  by (induction rule: rtranclp_induct) (auto intro: task_inv_step)

lemma dependenciesSatisfied_keys:
  "set ds \<subseteq> keys st \<Longrightarrow> dependenciesSatisfied st ds = Inr (list_all (\<lambda>d. map_of st d = Some True) ds)"
  by (induction ds) (auto split: option.split bool.split elim: keysE)

section \<open>Properties\<close>

text \<open>
  A world for the witnesses: it counts the runs of actions; the action of the task ''bad'' throws.
  JSON values are strings here, and no parameter is ever present.
\<close>

definition count_env :: "(string, nat) task_env" where
  "count_env =
     \<lparr>env_action = \<lambda>u j w. (\<lparr>cancel_called = False,
         thrown = (if u = ''bad'' then Some (RuntimeError ''broken'') else None), ready = True\<rparr>, w + 1),
      env_timed_action = \<lambda>u s j w. (\<lparr>cancel_called = False, thrown = None, ready = False\<rparr>, w + 1),
      env_callback = \<lambda>u e w. w, env_system_clock = int, env_hires_clock = int\<rparr>"

definition string_api :: "string json_api" where
  "string_api =
     \<lparr>j_find = \<lambda>j k. None, j_is_string = \<lambda>j. True, j_is_number = \<lambda>j. False, j_is_boolean = \<lambda>j. False,
      j_is_array = \<lambda>j. False, j_is_object = \<lambda>j. False, j_null = []\<rparr>"


text \<open>
  a cancelled task stays cancelled. Executing it does not run its action or its
  post-tasks, leaves the world unchanged and records the cancellation.
\<close>

theorem Task_cancelled_never_runs:
  assumes "tk_cancelled (core t)"
  shows "\<exists>c'. Task_execute env api params t w = (Task c' (preTasks t) (postTasks t), w)
           \<and> tk_status c' = Failed \<and> tk_errorType c' = Cancelled \<and> tk_cancelled c'"
  using assms
  by (cases t) (simp add: Task_execute.simps Let_def Task_prepare_def Task_markEndTime_def)

theorem Task_cancelled_never_runs_witness:
  "\<exists>c'. Task_execute count_env string_api [] (Task ((core (Task_new ''n'' ''u'' 0))\<lparr>tk_cancelled := True\<rparr>) [] []) 7
          = (Task c' [] [], 7) \<and> tk_status c' = Failed \<and> tk_errorType c' = Cancelled \<and> tk_cancelled c'"
  using Task_cancelled_never_runs
    [of "Task ((core (Task_new ''n'' ''u'' 0))\<lparr>tk_cancelled := True\<rparr>) [] []" count_env string_api "[]" 7]
  by simp

text \<open>
  post-tasks run only after success. When the execution fails they are returned as they
  were; when it completes none of them is left pending, and the task keeps the same post-tasks.
\<close>

theorem Task_post_tasks:
  "if can_complete env api params t w
   then list_all (\<lambda>p. getStatus p \<noteq> Pending) (postTasks (fst (Task_execute env api params t w)))
        \<and> map getUUID (postTasks (fst (Task_execute env api params t w))) = map getUUID (postTasks t)
   else postTasks (fst (Task_execute env api params t w)) = postTasks t"
proof (rule Task_execute_cases [of env api params t w])
  fix c' post' w'
  assume "can_complete env api params t w"
    "triggerPostTasks env api (postTasks t) (snd (action_of env params (core t) w)) = (post', w')"
    "Task_execute env api params t w = (Task c' (preTasks t) post', w')"
  then show ?thesis using triggerPostTasks_none_pending by fastforce
qed simp

text \<open>
  parameter validation accepts exactly the parameter objects in which every required
  parameter is present and every present one has the declared JSON type; one message per
  definition that is violated is recorded, in the order of the definitions.
\<close>

theorem Task_validateParams_correct:
  "(fst (Task_validateParams api params c) \<longleftrightarrow>
     list_all (\<lambda>d. case j_find api params (pd_name d) of
                     None \<Rightarrow> \<not> pd_required d | Some v \<Rightarrow> validateParamType api (pd_type d) v)
       (tk_paramDefinitions c))
   \<and> length (tk_paramErrors (snd (Task_validateParams api params c)))
     = length (filter (\<lambda>d. case j_find api params (pd_name d) of
                     None \<Rightarrow> pd_required d | Some v \<Rightarrow> \<not> validateParamType api (pd_type d) v)
       (tk_paramDefinitions c))"
proof -
  have "concat (map (paramErrors_of api params) ds) = [] \<longleftrightarrow>
      list_all (\<lambda>d. case j_find api params (pd_name d) of
                     None \<Rightarrow> \<not> pd_required d | Some v \<Rightarrow> validateParamType api (pd_type d) v) ds"
    and "length (concat (map (paramErrors_of api params) ds))
      = length (filter (\<lambda>d. case j_find api params (pd_name d) of
                     None \<Rightarrow> pd_required d | Some v \<Rightarrow> \<not> validateParamType api (pd_type d) v) ds)" for ds
    by (induction ds) (auto simp: paramErrors_of_def split: option.splits)
  then show ?thesis by (simp add: Task_validateParams_def Let_def del: concat_eq_Nil_conv)
qed

text \<open>
  Whatever sequence of public operations and executions a new task goes through, its
  priority stays in 1..10, its log level in 0..4, and the dependency statuses cover exactly the
  dependencies, so that the query for satisfied dependencies never throws and answers whether all of
  them are marked true.
\<close>

theorem Task_invariant:
  assumes "(task_step env api)\<^sup>*\<^sup>* (core (Task_new name uuid now)) c"
  shows "1 \<le> tk_priority c \<and> tk_priority c \<le> 10 \<and> 0 \<le> tk_logLevel c \<and> tk_logLevel c \<le> 4
    \<and> Task_isDependencySatisfied c
        = Inr (list_all (\<lambda>d. map_of (tk_dependencyStatus c) d = Some True) (tk_dependencies c))"
proof -
  have "task_inv c" using task_inv_steps [OF assms task_inv_new] .
  then show ?thesis
    using dependenciesSatisfied_keys by (auto simp: task_inv_def Task_isDependencySatisfied_def)
qed

theorem Task_invariant_witness:
  "Task_isDependencySatisfied (Task_addDependency ''d'' (core (Task_new ''n'' ''u'' 0 :: string task))) = Inr False"
proof -
  have "(task_step count_env string_api)\<^sup>*\<^sup>* (core (Task_new ''n'' ''u'' 0))
      (Task_addDependency ''d'' (core (Task_new ''n'' ''u'' 0)))"
    by (intro r_into_rtranclp task_step.addDependency)
  from Task_invariant [OF this] show ?thesis
    by (simp add: Task_addDependency_def Task_new_def)
qed

end
