(* ===== verification/Task_Factory.thy ===== *)
theory Task_Factory
  imports Task
begin

text \<open>
  The table of task types, \<^verbatim>\<open>src/src/task/core/factory.cpp\<close>: what is registered under a type is a creator and a description. Calling a creator is a
  parameter: it throws, or returns a task or nothing. Of the JSON library the code asks whether an object has a member and whether it is empty. Every
  operation is one critical section; logging is left out.
\<close>

section \<open>State\<close>

record 'j TypeInfo =
  fi_name :: string
  fi_description :: string
  fi_category :: string
  fi_requiredParameters :: "string list"
  fi_parameterSchema :: 'j
  fi_version :: string
  fi_dependencies :: "string list"
  fi_isEnabled :: bool

record ('j, 'c) task_factory =
  tf_creators :: "'c umap"
  tf_taskInfos :: "'j TypeInfo umap"

record ('j, 'c) factory_env =
  fe_create :: "'c \<Rightarrow> string \<Rightarrow> 'j \<Rightarrow> exn + 'j task_core option"
  fe_contains :: "'j \<Rightarrow> string \<Rightarrow> bool"
  fe_empty :: "'j \<Rightarrow> bool"

definition TaskFactory_new :: "('j, 'c) task_factory" where
  "TaskFactory_new = \<lparr>tf_creators = [], tf_taskInfos = []\<rparr>"

section \<open>Operations\<close>

definition registerTask :: "string \<Rightarrow> 'c \<Rightarrow> 'j TypeInfo \<Rightarrow> ('j, 'c) task_factory \<Rightarrow> ('j, 'c) task_factory" where
  "registerTask ty creator info f =
     f\<lparr>tf_creators := AList.update ty creator (tf_creators f), tf_taskInfos := AList.update ty info (tf_taskInfos f)\<rparr>"

definition unregisterTask :: "string \<Rightarrow> ('j, 'c) task_factory \<Rightarrow> ('j, 'c) task_factory" where
  "unregisterTask ty f =
     (let f = (if map_of (tf_creators f) ty \<noteq> None then f\<lparr>tf_creators := AList.delete ty (tf_creators f)\<rparr> else f)
      in if map_of (tf_taskInfos f) ty \<noteq> None then f\<lparr>tf_taskInfos := AList.delete ty (tf_taskInfos f)\<rparr> else f)"

definition validateTaskParameters :: "('j, 'c) factory_env \<Rightarrow> string \<Rightarrow> 'j \<Rightarrow> ('j, 'c) task_factory \<Rightarrow> bool" where
  "validateTaskParameters env ty params f =
     (case map_of (tf_taskInfos f) ty of
        None \<Rightarrow> False
      | Some info \<Rightarrow> list_all (\<lambda>r. fe_contains env params r) (fi_requiredParameters info))"

definition createTask :: "('j, 'c) factory_env \<Rightarrow> string \<Rightarrow> string \<Rightarrow> 'j \<Rightarrow> ('j, 'c) task_factory \<Rightarrow> 'j task_core option" where
  "createTask env ty name config f =
     (case map_of (tf_creators f) ty of
        None \<Rightarrow> None
      | Some creator \<Rightarrow>
        (case map_of (tf_taskInfos f) ty of
           Some info \<Rightarrow>
             if \<not> fi_isEnabled info then None
             else if \<not> fe_empty env (fi_parameterSchema info) \<and> \<not> validateTaskParameters env ty config f then None
             else (case fe_create env creator name config of
                     Inl _ \<Rightarrow> None
                   | Inr None \<Rightarrow> None
                   | Inr (Some t) \<Rightarrow> Some (Task_setTaskType ty t))
         | None \<Rightarrow>
           (case fe_create env creator name config of
              Inl _ \<Rightarrow> None
            | Inr None \<Rightarrow> None
            | Inr (Some t) \<Rightarrow> Some (Task_setTaskType ty t))))"

definition isTaskRegistered :: "string \<Rightarrow> ('j, 'c) task_factory \<Rightarrow> bool" where
  "isTaskRegistered ty f \<longleftrightarrow> map_of (tf_creators f) ty \<noteq> None"

definition getRegisteredTaskTypes :: "('j, 'c) task_factory \<Rightarrow> string list" where
  "getRegisteredTaskTypes f = sort (map fst (tf_creators f))"

definition TaskFactory_getTaskInfo :: "string \<Rightarrow> ('j, 'c) task_factory \<Rightarrow> 'j TypeInfo option" where
  "TaskFactory_getTaskInfo ty f = map_of (tf_taskInfos f) ty"

definition getTasksByCategory :: "('j, 'c) task_factory \<Rightarrow> 'j TypeInfo list umap" where
  "getTasksByCategory f =
     map_vals (sort_key fi_name)
       (foldl (\<lambda>m e. AList.update (fi_category (snd e)) (lookup_or [] m (fi_category (snd e)) @ [snd e]) m) [] (tf_taskInfos f))"

definition TaskFactory_clear :: "('j, 'c) task_factory \<Rightarrow> ('j, 'c) task_factory" where
  "TaskFactory_clear f = f\<lparr>tf_creators := [], tf_taskInfos := []\<rparr>"

definition setTaskEnabled :: "string \<Rightarrow> bool \<Rightarrow> ('j, 'c) task_factory \<Rightarrow> ('j, 'c) task_factory" where
  "setTaskEnabled ty e f =
     (case map_of (tf_taskInfos f) ty of
        Some info \<Rightarrow> f\<lparr>tf_taskInfos := AList.update ty (info\<lparr>fi_isEnabled := e\<rparr>) (tf_taskInfos f)\<rparr>
      | None \<Rightarrow> f)"

definition TaskFactory_checkDependencies :: "string \<Rightarrow> ('j, 'c) task_factory \<Rightarrow> string list" where
  "TaskFactory_checkDependencies ty f =
     (case map_of (tf_taskInfos f) ty of
        None \<Rightarrow> []
      | Some info \<Rightarrow> filter (\<lambda>dep. map_of (tf_creators f) dep = None) (fi_dependencies info))"

definition TaskFactory_getDependencyGraph :: "('j, 'c) task_factory \<Rightarrow> string list umap" where
  "TaskFactory_getDependencyGraph f = map_vals fi_dependencies (tf_taskInfos f)"

section \<open>Properties\<close>

inductive factory_reachable :: "('j, 'c) task_factory \<Rightarrow> bool" where
  tf_new: "factory_reachable TaskFactory_new"
| tf_register: "factory_reachable f \<Longrightarrow> factory_reachable (registerTask ty c i f)"
| tf_unregister: "factory_reachable f \<Longrightarrow> factory_reachable (unregisterTask ty f)"
| tf_clear: "factory_reachable f \<Longrightarrow> factory_reachable (TaskFactory_clear f)"
| tf_enable: "factory_reachable f \<Longrightarrow> factory_reachable (setTaskEnabled ty e f)"

lemma factory_same_keys: "factory_reachable f \<Longrightarrow> keys (tf_taskInfos f) = keys (tf_creators f)"
  by (induction rule: factory_reachable.induct)
    (auto simp: TaskFactory_new_def registerTask_def unregisterTask_def TaskFactory_clear_def setTaskEnabled_def map_of_None_keys Let_def
      split: option.split dest: map_of_keysD)

lemma factory_distinct: "factory_reachable f \<Longrightarrow> distinct (map fst (tf_creators f)) \<and> distinct (map fst (tf_taskInfos f))"
  by (induction rule: factory_reachable.induct)
    (auto simp: TaskFactory_new_def registerTask_def unregisterTask_def TaskFactory_clear_def setTaskEnabled_def distinct_update distinct_delete Let_def
      split: option.split)

text \<open>
  The factory creates a task exactly when it should. In every state the operations reach, a creator is registered under a type if and
  only if a description is; a task is created if and only if the type is registered and enabled, the required parameters are present when the type
  has a schema, and its creator returns a task, and then it carries the type it was asked for. The dependencies reported missing are those that are
  not registered.
\<close>

theorem createTask_correct:
  assumes "factory_reachable f"
  shows "(isTaskRegistered ty f \<longleftrightarrow> TaskFactory_getTaskInfo ty f \<noteq> None)
    \<and> (createTask env ty name config f = Some t \<longleftrightarrow>
        (\<exists>c info t0. map_of (tf_creators f) ty = Some c \<and> TaskFactory_getTaskInfo ty f = Some info \<and> fi_isEnabled info
          \<and> (fe_empty env (fi_parameterSchema info) \<or> (\<forall>r \<in> set (fi_requiredParameters info). fe_contains env config r))
          \<and> fe_create env c name config = Inr (Some t0) \<and> t = t0\<lparr>tk_taskType := ty\<rparr>))
    \<and> set (TaskFactory_checkDependencies ty f) = {d. \<exists>info. TaskFactory_getTaskInfo ty f = Some info \<and> d \<in> set (fi_dependencies info) \<and> \<not> isTaskRegistered d f}"
proof (intro conjI)
  have k: "map_of (tf_creators f) ty = None \<longleftrightarrow> map_of (tf_taskInfos f) ty = None"
    using factory_same_keys [OF assms] by (simp add: map_of_None_keys)
  then show "isTaskRegistered ty f \<longleftrightarrow> TaskFactory_getTaskInfo ty f \<noteq> None"
    by (simp add: isTaskRegistered_def TaskFactory_getTaskInfo_def)
  show "createTask env ty name config f = Some t \<longleftrightarrow>
        (\<exists>c info t0. map_of (tf_creators f) ty = Some c \<and> TaskFactory_getTaskInfo ty f = Some info \<and> fi_isEnabled info
          \<and> (fe_empty env (fi_parameterSchema info) \<or> (\<forall>r \<in> set (fi_requiredParameters info). fe_contains env config r))
          \<and> fe_create env c name config = Inr (Some t0) \<and> t = t0\<lparr>tk_taskType := ty\<rparr>)"
    using k by (auto simp: createTask_def validateTaskParameters_def TaskFactory_getTaskInfo_def Task_setTaskType_def list_all_iff
        split: option.splits sum.splits)
  show "set (TaskFactory_checkDependencies ty f) = {d. \<exists>info. TaskFactory_getTaskInfo ty f = Some info \<and> d \<in> set (fi_dependencies info) \<and> \<not> isTaskRegistered d f}"
    by (cases "map_of (tf_taskInfos f) ty")
      (auto simp: TaskFactory_checkDependencies_def TaskFactory_getTaskInfo_def isTaskRegistered_def)
qed

definition plain_info :: "string \<Rightarrow> string list TypeInfo" where
  "plain_info n = \<lparr>fi_name = n, fi_description = [], fi_category = ''camera'', fi_requiredParameters = [''exposure''],
     fi_parameterSchema = [''exposure''], fi_version = ''1'', fi_dependencies = [], fi_isEnabled = True\<rparr>"

definition plain_env :: "(string list, unit) factory_env" where
  "plain_env = \<lparr>fe_create = \<lambda>c n j. Inr None, fe_contains = \<lambda>j k. k \<in> set j, fe_empty = \<lambda>j. j = []\<rparr>"

theorem createTask_correct_witness:
  "isTaskRegistered ''shot'' (registerTask ''shot'' () (plain_info ''shot'') TaskFactory_new)
   \<and> createTask plain_env ''shot'' ''t'' [''exposure''] (registerTask ''shot'' () (plain_info ''shot'') TaskFactory_new) = None"
proof -
  let ?f = "registerTask ''shot'' () (plain_info ''shot'') TaskFactory_new"
  have "factory_reachable ?f" by (intro tf_register tf_new)
  from createTask_correct [OF this, of "''shot''" plain_env "''t''" "[''exposure'']"] show ?thesis
    by (cases "createTask plain_env ''shot'' ''t'' [''exposure''] ?f")
      (auto simp: registerTask_def TaskFactory_new_def TaskFactory_getTaskInfo_def plain_env_def)
qed

end
