(* ===== verification/Exposure.thy ===== *)
theory Exposure
  imports Lithium_Prelude
begin

text \<open>
  The observation planning data of \<^verbatim>\<open>src/src/tools/astronomy\<close>: exposure plans and their collection
  (\<^verbatim>\<open>exposure.hpp\<close>), altitude constraints and observability windows (\<^verbatim>\<open>constraints.hpp\<close>), the meridian
  flip state (\<^verbatim>\<open>meridian.hpp\<close>), coordinates (\<^verbatim>\<open>coordinates.hpp\<close>) and the target configuration (\<^verbatim>\<open>target_config.hpp\<close>). A \<^verbatim>\<open>double\<close>
  is a real number here, so rounding is not modelled; time points are integers in nanoseconds, and the
  clock reading is an argument. JSON conversion is left out.
\<close>

section \<open>Exposure plans\<close>

record ExposurePlan =
  ep_filterName :: string
  ep_exposureTime :: real
  ep_count :: int
  ep_completedCount :: int
  ep_binning :: int
  ep_gain :: int
  ep_offset :: int
  ep_ditherEnabled :: bool
  ep_ditherEvery :: int

definition ExposurePlan_new :: "string \<Rightarrow> real \<Rightarrow> int \<Rightarrow> ExposurePlan" where
  "ExposurePlan_new f expTime cnt =
     \<lparr>ep_filterName = f, ep_exposureTime = expTime, ep_count = cnt, ep_completedCount = 0, ep_binning = 1,
      ep_gain = - 1, ep_offset = - 1, ep_ditherEnabled = True, ep_ditherEvery = 1\<rparr>"

definition ep_remaining :: "ExposurePlan \<Rightarrow> int" where
  "ep_remaining p = max 0 (ep_count p - ep_completedCount p)"

definition ep_progress :: "ExposurePlan \<Rightarrow> real" where
  "ep_progress p =
     (if ep_count p = 0 then 100 else real_of_int (ep_completedCount p) / real_of_int (ep_count p) * 100)"

definition ep_isComplete :: "ExposurePlan \<Rightarrow> bool" where
  "ep_isComplete p \<longleftrightarrow> ep_completedCount p \<ge> ep_count p"

definition ep_totalExposureTime :: "ExposurePlan \<Rightarrow> real" where
  "ep_totalExposureTime p = ep_exposureTime p * real_of_int (ep_count p)"

definition ep_remainingExposureTime :: "ExposurePlan \<Rightarrow> real" where
  "ep_remainingExposureTime p = ep_exposureTime p * real_of_int (ep_remaining p)"

definition ep_completedExposureTime :: "ExposurePlan \<Rightarrow> real" where
  "ep_completedExposureTime p = ep_exposureTime p * real_of_int (ep_completedCount p)"

definition ep_recordExposure :: "ExposurePlan \<Rightarrow> bool \<times> ExposurePlan" where
  "ep_recordExposure p =
     (if ep_isComplete p then (False, p) else (True, p\<lparr>ep_completedCount := ep_completedCount p + 1\<rparr>))"

definition ep_reset :: "ExposurePlan \<Rightarrow> ExposurePlan" where
  "ep_reset p = p\<lparr>ep_completedCount := 0\<rparr>"

text \<open>The exposure number is at least one, so the C++ remainder is the mathematical one.\<close>

definition ep_shouldDither :: "int \<Rightarrow> ExposurePlan \<Rightarrow> bool" where
  "ep_shouldDither exposureNumber p =
     (if \<not> ep_ditherEnabled p then False
      else if ep_ditherEvery p \<le> 0 then False
      else exposureNumber mod ep_ditherEvery p = 0)"

text \<open>The comparison constant of \<^verbatim>\<open>constants.hpp\<close> is an argument.\<close>

definition ep_eq :: "real \<Rightarrow> ExposurePlan \<Rightarrow> ExposurePlan \<Rightarrow> bool" where
  "ep_eq EPS a b \<longleftrightarrow> ep_filterName a = ep_filterName b \<and> \<bar>ep_exposureTime a - ep_exposureTime b\<bar> < EPS
     \<and> ep_count a = ep_count b \<and> ep_binning a = ep_binning b \<and> ep_gain a = ep_gain b
     \<and> ep_offset a = ep_offset b"

section \<open>Collections of plans\<close>

type_synonym plans = "ExposurePlan list"

definition addPlan :: "ExposurePlan \<Rightarrow> plans \<Rightarrow> plans" where
  "addPlan p ps = ps @ [p]"

fun removePlan :: "string \<Rightarrow> plans \<Rightarrow> bool \<times> plans" where
  "removePlan f [] = (False, [])"
| "removePlan f (p # ps) =
     (if ep_filterName p = f then (True, ps)
      else (case removePlan f ps of (found, ps') \<Rightarrow> (found, p # ps')))"

definition getPlan :: "string \<Rightarrow> plans \<Rightarrow> ExposurePlan option" where
  "getPlan f ps = find (\<lambda>p. ep_filterName p = f) ps"

definition totalPlannedExposureTime :: "plans \<Rightarrow> real" where
  "totalPlannedExposureTime ps = foldl (\<lambda>total p. total + ep_totalExposureTime p) 0 ps"

definition totalRemainingExposureTime :: "plans \<Rightarrow> real" where
  "totalRemainingExposureTime ps = foldl (\<lambda>total p. total + ep_remainingExposureTime p) 0 ps"

definition overallProgress :: "plans \<Rightarrow> real" where
  "overallProgress ps =
     (case foldl (\<lambda>(pl, co) p. (pl + real_of_int (ep_count p), co + real_of_int (ep_completedCount p)))
             (0, 0) ps of
        (totalPlanned, totalCompleted) \<Rightarrow>
          if totalPlanned = 0 then 100 else totalCompleted / totalPlanned * 100)"

definition plans_isComplete :: "plans \<Rightarrow> bool" where
  "plans_isComplete ps = (if ps = [] then True else list_all ep_isComplete ps)"

definition totalExposureCount :: "plans \<Rightarrow> int" where
  "totalExposureCount ps = foldl (\<lambda>total p. total + ep_count p) 0 ps"

definition totalCompletedCount :: "plans \<Rightarrow> int" where
  "totalCompletedCount ps = foldl (\<lambda>total p. total + ep_completedCount p) 0 ps"

definition resetAll :: "plans \<Rightarrow> plans" where
  "resetAll ps = map ep_reset ps"

section \<open>Constraints\<close>

record AltitudeConstraints =
  ac_minAltitude :: real
  ac_maxAltitude :: real
  ac_horizonOffset :: real

definition ac_isValid :: "AltitudeConstraints \<Rightarrow> real \<Rightarrow> bool" where
  "ac_isValid c altitude \<longleftrightarrow> altitude \<ge> ac_minAltitude c + ac_horizonOffset c \<and> altitude \<le> ac_maxAltitude c"

definition ac_areConstraintsValid :: "AltitudeConstraints \<Rightarrow> bool" where
  "ac_areConstraintsValid c \<longleftrightarrow>
     ac_minAltitude c \<ge> - 90 \<and> ac_minAltitude c \<le> 90 \<and> ac_maxAltitude c \<ge> - 90 \<and> ac_maxAltitude c \<le> 90
     \<and> ac_minAltitude c < ac_maxAltitude c"

text \<open>\<^verbatim>\<open>duration_cast\<close> of nanoseconds to seconds truncates towards zero.\<close>

definition to_seconds :: "int \<Rightarrow> int" where
  "to_seconds d = (if d < 0 then - ((- d) div 1000000000) else d div 1000000000)"

record ObservabilityWindow =
  ow_riseTime :: int
  ow_transitTime :: int
  ow_setTime :: int
  ow_maxAltitude :: real
  ow_transitAzimuth :: real
  ow_isCircumpolar :: bool
  ow_neverRises :: bool

definition ow_isObservableNow :: "int \<Rightarrow> ObservabilityWindow \<Rightarrow> bool" where
  "ow_isObservableNow now win =
     (if ow_neverRises win then False
      else if ow_isCircumpolar win then True
      else now \<ge> ow_riseTime win \<and> now \<le> ow_setTime win)"

definition ow_remainingSeconds :: "int \<Rightarrow> ObservabilityWindow \<Rightarrow> int" where
  "ow_remainingSeconds now win =
     (if ow_neverRises win then 0
      else if ow_isCircumpolar win then 86400
      else if now > ow_setTime win then 0
      else if now < ow_riseTime win then 0
      else to_seconds (ow_setTime win - now))"

definition ow_totalDurationSeconds :: "ObservabilityWindow \<Rightarrow> int" where
  "ow_totalDurationSeconds win =
     (if ow_neverRises win then 0
      else if ow_isCircumpolar win then 86400
      else to_seconds (ow_setTime win - ow_riseTime win))"

definition ow_hasCrossedMeridian :: "int \<Rightarrow> ObservabilityWindow \<Rightarrow> bool" where
  "ow_hasCrossedMeridian now win \<longleftrightarrow> now > ow_transitTime win"

definition ow_secondsToMeridian :: "int \<Rightarrow> ObservabilityWindow \<Rightarrow> int" where
  "ow_secondsToMeridian now win = to_seconds (ow_transitTime win - now)"

record TimeConstraints =
  tc_startTime :: int
  tc_endTime :: int
  tc_enabled :: bool

definition tc_isWithinWindow :: "int \<Rightarrow> TimeConstraints \<Rightarrow> bool" where
  "tc_isWithinWindow time c =
     (if \<not> tc_enabled c then True else time \<ge> tc_startTime c \<and> time \<le> tc_endTime c)"

section \<open>Meridian flip\<close>

datatype MeridianState = East | West | NearMeridian | UnknownState

definition meridianStateToString :: "MeridianState \<Rightarrow> string" where
  "meridianStateToString s =
     (case s of East \<Rightarrow> ''East'' | West \<Rightarrow> ''West'' | NearMeridian \<Rightarrow> ''NearMeridian''
      | UnknownState \<Rightarrow> ''Unknown'')"

definition stringToMeridianState :: "string \<Rightarrow> MeridianState" where
  "stringToMeridianState str =
     (if str = ''East'' then East
      else if str = ''West'' then West
      else if str = ''NearMeridian'' then NearMeridian
      else UnknownState)"

record MeridianFlipInfo =
  mf_currentState :: MeridianState
  mf_flipTime :: int
  mf_flipRequired :: bool
  mf_flipCompleted :: bool
  mf_hourAngle :: real

definition mf_secondsToFlip :: "int \<Rightarrow> MeridianFlipInfo \<Rightarrow> int" where
  "mf_secondsToFlip now i = (if \<not> mf_flipRequired i then 0 else to_seconds (mf_flipTime i - now))"

definition mf_isFlipImminent :: "int \<Rightarrow> int \<Rightarrow> MeridianFlipInfo \<Rightarrow> bool" where
  "mf_isFlipImminent thresholdSeconds now i =
     (if \<not> mf_flipRequired i \<or> mf_flipCompleted i then False
      else let seconds = mf_secondsToFlip now i in seconds > 0 \<and> seconds \<le> thresholdSeconds)"

definition mf_isFlipOverdue :: "int \<Rightarrow> MeridianFlipInfo \<Rightarrow> bool" where
  "mf_isFlipOverdue now i =
     (if \<not> mf_flipRequired i \<or> mf_flipCompleted i then False else mf_secondsToFlip now i < 0)"

definition mf_isTrackable :: "MeridianFlipInfo \<Rightarrow> bool" where
  "mf_isTrackable i \<longleftrightarrow> \<not> mf_flipRequired i \<or> mf_flipCompleted i"

definition stateFromHourAngle :: "real \<Rightarrow> real \<Rightarrow> MeridianState" where
  "stateFromHourAngle ha nearThreshold =
     (if \<bar>ha\<bar> \<le> nearThreshold then NearMeridian else if ha < 0 then East else West)"

definition mf_updateStateFromHourAngle :: "real \<Rightarrow> MeridianFlipInfo \<Rightarrow> MeridianFlipInfo" where
  "mf_updateStateFromHourAngle nearThreshold i =
     i\<lparr>mf_currentState := stateFromHourAngle (mf_hourAngle i) nearThreshold\<rparr>"

section \<open>Target configuration\<close>

record Coordinates =
  co_ra :: real
  co_dec :: real
  co_epoch :: real

definition co_isValid :: "Coordinates \<Rightarrow> bool" where
  "co_isValid c \<longleftrightarrow> co_ra c \<ge> 0 \<and> co_ra c < 360 \<and> co_dec c \<ge> - 90 \<and> co_dec c \<le> 90"

record HorizontalCoordinates =
  hc_altitude :: real
  hc_azimuth :: real

text \<open>The fields of the configuration that the modelled code reads or writes.\<close>

record TargetConfig =
  cfg_coordinates :: Coordinates
  cfg_altConstraints :: AltitudeConstraints
  cfg_autoMeridianFlip :: bool
  cfg_exposurePlans :: plans
  cfg_startTime :: int
  cfg_endTime :: int
  cfg_useTimeConstraints :: bool
  cfg_priority :: int

definition cfg_isValid :: "TargetConfig \<Rightarrow> bool" where
  "cfg_isValid cfg \<longleftrightarrow> co_isValid (cfg_coordinates cfg) \<and> ac_areConstraintsValid (cfg_altConstraints cfg)
     \<and> cfg_priority cfg \<ge> 1 \<and> cfg_priority cfg \<le> 10"

section \<open>Lemmas\<close>

lemma foldl_sum: "foldl (\<lambda>a p. a + f p) x ps = x + sum_list (map f ps)" for x :: "'a :: comm_monoid_add"
  by (induction ps arbitrary: x) (simp_all add: ac_simps)

lemma sum_list_upd: "i < length xs \<Longrightarrow> sum_list (xs[i := x]) = sum_list xs + x - xs ! i" for x :: int
  by (induction xs arbitrary: i) (auto split: nat.split)

lemma overallProgress_counts:
  "overallProgress ps =
     (if totalExposureCount ps = 0 then 100
      else real_of_int (totalCompletedCount ps) / real_of_int (totalExposureCount ps) * 100)"
proof -
  have "foldl (\<lambda>(pl, co) p. (pl + real_of_int (ep_count p), co + real_of_int (ep_completedCount p)))
          (real_of_int a, real_of_int b) ps
        = (real_of_int (a + sum_list (map ep_count ps)), real_of_int (b + sum_list (map ep_completedCount ps)))" for a b
    by (induction ps arbitrary: a b) (simp_all flip: of_int_add add: ac_simps)
  from this [of 0 0] show ?thesis
    by (simp add: overallProgress_def totalExposureCount_def totalCompletedCount_def foldl_sum)
qed

text \<open>Plans as the program sets them up: no negative counts, no overshoot, no negative times.\<close>

definition plan_ok :: "ExposurePlan \<Rightarrow> bool" where
  "plan_ok p \<longleftrightarrow> 0 \<le> ep_completedCount p \<and> ep_completedCount p \<le> ep_count p \<and> 0 \<le> ep_exposureTime p"

lemma plan_ok_recordExposure: "plan_ok p \<Longrightarrow> plan_ok (snd (ep_recordExposure p))"
  by (auto simp: plan_ok_def ep_recordExposure_def ep_isComplete_def)

lemma plan_ok_reset: "plan_ok p \<Longrightarrow> plan_ok (ep_reset p)"
  by (simp add: plan_ok_def ep_reset_def)

lemma completed_le_planned:
  "list_all plan_ok ps \<Longrightarrow> 0 \<le> totalCompletedCount ps \<and> totalCompletedCount ps \<le> totalExposureCount ps"
  by (induction ps) (auto simp: totalCompletedCount_def totalExposureCount_def foldl_sum plan_ok_def)

lemma complete_iff_counts:
  "list_all plan_ok ps \<Longrightarrow> plans_isComplete ps \<longleftrightarrow> totalCompletedCount ps = totalExposureCount ps"
proof (induction ps)
  case (Cons p ps)
  then have "totalCompletedCount ps \<le> totalExposureCount ps" using completed_le_planned by simp
  then show ?case using Cons
    by (auto simp: plans_isComplete_def totalCompletedCount_def totalExposureCount_def foldl_sum plan_ok_def
        ep_isComplete_def split: if_splits)
qed (simp add: plans_isComplete_def totalCompletedCount_def totalExposureCount_def)

lemma remaining_plus_completed:
  "list_all plan_ok ps \<Longrightarrow>
   totalRemainingExposureTime ps + sum_list (map ep_completedExposureTime ps) = totalPlannedExposureTime ps"
  by (induction ps)
    (auto simp: totalRemainingExposureTime_def totalPlannedExposureTime_def foldl_sum plan_ok_def
      ep_remainingExposureTime_def ep_completedExposureTime_def ep_totalExposureTime_def ep_remaining_def
      max_def algebra_simps)

section \<open>Properties\<close>

text \<open>
  For plans without overshoot the aggregate figures agree: the overall progress lies in
  0..100, it is 100 exactly when every plan is complete, and the remaining and the completed exposure
  time add up to the planned time.
\<close>

theorem plans_progress:
  assumes "list_all plan_ok ps"
  shows "0 \<le> overallProgress ps \<and> overallProgress ps \<le> 100
    \<and> (overallProgress ps = 100 \<longleftrightarrow> plans_isComplete ps)
    \<and> totalRemainingExposureTime ps + sum_list (map ep_completedExposureTime ps) = totalPlannedExposureTime ps"
proof -
  let ?c = "totalCompletedCount ps" and ?n = "totalExposureCount ps"
  have c: "0 \<le> ?c" "?c \<le> ?n" using completed_le_planned [OF assms] by auto
  have "overallProgress ps = 100 \<longleftrightarrow> ?c = ?n"
    using c by (auto simp: overallProgress_counts divide_simps)
  then have "overallProgress ps = 100 \<longleftrightarrow> plans_isComplete ps" using complete_iff_counts [OF assms] by simp
  then show ?thesis using c remaining_plus_completed [OF assms]
    by (auto simp: overallProgress_counts divide_simps)
qed

theorem plans_progress_witness:
  "overallProgress [ExposurePlan_new ''L'' 60 10, ExposurePlan_new ''R'' 30 5] \<le> 100
   \<and> \<not> plans_isComplete [ExposurePlan_new ''L'' 60 10, ExposurePlan_new ''R'' 30 5]"
  using plans_progress [of "[ExposurePlan_new ''L'' 60 10, ExposurePlan_new ''R'' 30 5]"]
  by (simp add: plan_ok_def ExposurePlan_new_def plans_isComplete_def ep_isComplete_def)

text \<open>
  The names of the meridian states are read back, a pending flip is never imminent and
  overdue at once, and neither once the target is trackable again.
\<close>

lemma meridian_flip_states:
  "stringToMeridianState (meridianStateToString s) = s
   \<and> \<not> (mf_isFlipImminent threshold now i \<and> mf_isFlipOverdue now i)
   \<and> \<not> (mf_isTrackable i \<and> (mf_isFlipImminent threshold now i \<or> mf_isFlipOverdue now i))
   \<and> mf_secondsToFlip now (i\<lparr>mf_flipRequired := True, mf_flipTime := now + 1000000000 * k\<rparr>) = k"
  by (cases s) (auto simp: meridianStateToString_def stringToMeridianState_def mf_isFlipImminent_def
      mf_isFlipOverdue_def mf_isTrackable_def mf_secondsToFlip_def to_seconds_def Let_def)

end
