(* ===== verification/Target.thy ===== *)
theory Target
  imports Task Exposure
begin

text \<open>
  The observation target of \<^verbatim>\<open>src/src/task/core/target.hpp\<close> and \<^verbatim>\<open>target.cpp\<close>: its task list,
  groups and task dependencies, \<^verbatim>\<open>execute\<close> and \<^verbatim>\<open>executeGroup\<close>, the exposure plans and the
  observability queries. Tasks are of an arbitrary type \<open>'t\<close> with the operations of the interface
  \<open>task_runner\<close>, as \<^verbatim>\<open>Task::execute\<close> is virtual; the properties are stated for the base class.
  The callbacks act on the world through one function of the notified event. The task factory
  behind \<^verbatim>\<open>loadTasksFromJson\<close> and the JSON conversion are not modelled.
\<close>

section \<open>Data\<close>

datatype TargetStatus = TPending | TInProgress | TCompleted | TFailed | TSkipped

datatype target_event =
    TargetStart string
  | TargetEnd string TargetStatus
  | TargetError string exn

record ('t, 'j) target =
  tg_name :: string
  tg_uuid :: string
  tg_tasks :: "'t list"
  tg_cooldown :: int
  tg_enabled :: bool
  tg_status :: TargetStatus
  tg_completedTasks :: nat
  tg_totalTasks :: nat
  tg_hasOnStart :: bool
  tg_hasOnEnd :: bool
  tg_hasOnError :: bool
  tg_maxRetries :: int
  tg_taskParams :: "'j umap"
  tg_params :: 'j
  tg_taskGroups :: "string list umap"
  tg_taskDependencies :: "string list umap"
  tg_astroConfig :: TargetConfig
  tg_observability :: ObservabilityWindow
  tg_currentAltAz :: HorizontalCoordinates
  tg_meridianInfo :: MeridianFlipInfo
  tg_currentExposurePlanIndex :: nat
  tg_paused :: bool
  tg_aborted :: bool

definition default_config :: TargetConfig where
  "default_config =
     \<lparr>cfg_coordinates = \<lparr>co_ra = 0, co_dec = 0, co_epoch = 2000\<rparr>,
      cfg_altConstraints = \<lparr>ac_minAltitude = 15, ac_maxAltitude = 85, ac_horizonOffset = 0\<rparr>,
      cfg_autoMeridianFlip = True, cfg_exposurePlans = [], cfg_startTime = 0, cfg_endTime = 0,
      cfg_useTimeConstraints = False, cfg_priority = 5\<rparr>"

text \<open>The constructor throws when the global task queue is missing; \<open>haveQueue\<close> says whether it is there.\<close>

definition Target_new ::
    "bool \<Rightarrow> 'j \<Rightarrow> string \<Rightarrow> string \<Rightarrow> int \<Rightarrow> int \<Rightarrow> ('t, 'j) target result" where
  "Target_new haveQueue nullJson name uuid cooldown maxRetries =
     (if haveQueue then
        Inr \<lparr>tg_name = name, tg_uuid = uuid, tg_tasks = [], tg_cooldown = cooldown, tg_enabled = True,
             tg_status = TPending, tg_completedTasks = 0, tg_totalTasks = 0, tg_hasOnStart = False,
             tg_hasOnEnd = False, tg_hasOnError = False, tg_maxRetries = maxRetries, tg_taskParams = [],
             tg_params = nullJson, tg_taskGroups = [], tg_taskDependencies = [],
             tg_astroConfig = default_config,
             tg_observability = \<lparr>ow_riseTime = 0, ow_transitTime = 0, ow_setTime = 0, ow_maxAltitude = 0,
               ow_transitAzimuth = 0, ow_isCircumpolar = False, ow_neverRises = False\<rparr>,
             tg_currentAltAz = \<lparr>hc_altitude = 0, hc_azimuth = 0\<rparr>,
             tg_meridianInfo = \<lparr>mf_currentState = UnknownState, mf_flipTime = 0, mf_flipRequired = False,
               mf_flipCompleted = False, mf_hourAngle = 0\<rparr>,
             tg_currentExposurePlanIndex = 0, tg_paused = False, tg_aborted = False\<rparr>
      else Inl (RuntimeError ''Task queue not found in global shared memory''))"

section \<open>Fields\<close>

definition Target_addTask :: "'t option \<Rightarrow> ('t, 'j) target \<Rightarrow> ('t, 'j) target result" where
  "Target_addTask task tg =
     (case task of
        None \<Rightarrow> Inl (InvalidArgument ''Cannot add a null task'')
      | Some t \<Rightarrow> Inr (tg\<lparr>tg_tasks := tg_tasks tg @ [t], tg_totalTasks := length (tg_tasks tg @ [t])\<rparr>))"

definition Target_setCooldown :: "int \<Rightarrow> ('t, 'j) target \<Rightarrow> ('t, 'j) target" where
  "Target_setCooldown s tg = tg\<lparr>tg_cooldown := s\<rparr>"

definition Target_setEnabled :: "bool \<Rightarrow> ('t, 'j) target \<Rightarrow> ('t, 'j) target" where
  "Target_setEnabled b tg = tg\<lparr>tg_enabled := b\<rparr>"

definition Target_setMaxRetries :: "int \<Rightarrow> ('t, 'j) target \<Rightarrow> ('t, 'j) target" where
  "Target_setMaxRetries n tg = tg\<lparr>tg_maxRetries := n\<rparr>"

definition Target_setStatus :: "TargetStatus \<Rightarrow> ('t, 'j) target \<Rightarrow> ('t, 'j) target" where
  "Target_setStatus st tg = tg\<lparr>tg_status := st\<rparr>"

definition Target_getProgress :: "('t, 'j) target \<Rightarrow> real" where
  "Target_getProgress tg =
     (if tg_totalTasks tg = 0 then 100 else real (tg_completedTasks tg) / real (tg_totalTasks tg) * 100)"

definition notifyStart :: "(target_event \<Rightarrow> 'w \<Rightarrow> 'w) \<Rightarrow> ('t, 'j) target \<Rightarrow> 'w \<Rightarrow> 'w" where
  "notifyStart notify tg w = (if tg_hasOnStart tg then notify (TargetStart (tg_name tg)) w else w)"

definition notifyEnd :: "(target_event \<Rightarrow> 'w \<Rightarrow> 'w) \<Rightarrow> TargetStatus \<Rightarrow> ('t, 'j) target \<Rightarrow> 'w \<Rightarrow> 'w" where
  "notifyEnd notify st tg w = (if tg_hasOnEnd tg then notify (TargetEnd (tg_name tg) st) w else w)"

definition notifyError :: "(target_event \<Rightarrow> 'w \<Rightarrow> 'w) \<Rightarrow> exn \<Rightarrow> ('t, 'j) target \<Rightarrow> 'w \<Rightarrow> 'w" where
  "notifyError notify e tg w = (if tg_hasOnError tg then notify (TargetError (tg_name tg) e) w else w)"

definition Target_setTaskParams :: "string \<Rightarrow> 'j \<Rightarrow> ('t, 'j) target \<Rightarrow> ('t, 'j) target" where
  "Target_setTaskParams u j tg = tg\<lparr>tg_taskParams := AList.update u j (tg_taskParams tg)\<rparr>"

definition Target_getTaskParams :: "string \<Rightarrow> ('t, 'j) target \<Rightarrow> 'j option" where
  "Target_getTaskParams u tg = map_of (tg_taskParams tg) u"

definition Target_setParams :: "'j \<Rightarrow> ('t, 'j) target \<Rightarrow> ('t, 'j) target" where
  "Target_setParams j tg = tg\<lparr>tg_params := j\<rparr>"

section \<open>Groups and task dependencies\<close>

definition createTaskGroup :: "string \<Rightarrow> ('t, 'j) target \<Rightarrow> ('t, 'j) target" where
  "createTaskGroup g tg = tg\<lparr>tg_taskGroups := try_emplace g [] (tg_taskGroups tg)\<rparr>"

definition addTaskToGroup :: "string \<Rightarrow> string \<Rightarrow> ('t, 'j) target \<Rightarrow> ('t, 'j) target" where
  "addTaskToGroup g u tg =
     (case map_of (tg_taskGroups tg) g of
        None \<Rightarrow> tg
      | Some us \<Rightarrow>
        if u \<notin> set us then tg\<lparr>tg_taskGroups := AList.update g (us @ [u]) (tg_taskGroups tg)\<rparr> else tg)"

definition removeTaskFromGroup :: "string \<Rightarrow> string \<Rightarrow> ('t, 'j) target \<Rightarrow> ('t, 'j) target" where
  "removeTaskFromGroup g u tg =
     (case map_of (tg_taskGroups tg) g of
        None \<Rightarrow> tg
      | Some us \<Rightarrow> tg\<lparr>tg_taskGroups := AList.update g (removeAll u us) (tg_taskGroups tg)\<rparr>)"

definition getTaskGroup :: "string \<Rightarrow> ('t, 'j) target \<Rightarrow> string list" where
  "getTaskGroup g tg = (case map_of (tg_taskGroups tg) g of None \<Rightarrow> [] | Some us \<Rightarrow> us)"

definition Target_addTaskDependency :: "string \<Rightarrow> string \<Rightarrow> ('t, 'j) target \<Rightarrow> ('t, 'j) target" where
  "Target_addTaskDependency u d tg =
     (let deps = lookup_or [] (tg_taskDependencies tg) u
      in tg\<lparr>tg_taskDependencies :=
              AList.update u (if d \<notin> set deps then deps @ [d] else deps) (tg_taskDependencies tg)\<rparr>)"

definition Target_removeTaskDependency :: "string \<Rightarrow> string \<Rightarrow> ('t, 'j) target \<Rightarrow> ('t, 'j) target" where
  "Target_removeTaskDependency u d tg =
     (case map_of (tg_taskDependencies tg) u of
        None \<Rightarrow> tg
      | Some deps \<Rightarrow> tg\<lparr>tg_taskDependencies := AList.update u (removeAll d deps) (tg_taskDependencies tg)\<rparr>)"

definition checkDependencies :: "('t \<Rightarrow> TaskStatus) \<Rightarrow> ('t \<Rightarrow> string) \<Rightarrow> string \<Rightarrow> ('t, 'j) target \<Rightarrow> bool" where
  "checkDependencies stat ident taskUUID tg =
     (case map_of (tg_taskDependencies tg) taskUUID of
        None \<Rightarrow> True
      | Some deps \<Rightarrow>
        list_all (\<lambda>d. case find (\<lambda>t. ident t = d) (tg_tasks tg) of
                        None \<Rightarrow> False | Some t \<Rightarrow> stat t = Completed) deps)"

section \<open>Execution\<close>

type_synonym ('t, 'j, 'w) runner = "'j \<Rightarrow> 't \<Rightarrow> 'w \<Rightarrow> exn option \<times> 't \<times> 'w"

text \<open>The loop of \<^verbatim>\<open>executeGroup\<close> over the uuids of a group.\<close>

fun executeGroupTasks ::
    "('t, 'j, 'w) runner \<Rightarrow> ('t \<Rightarrow> TaskStatus) \<Rightarrow> ('t \<Rightarrow> string) \<Rightarrow> (target_event \<Rightarrow> 'w \<Rightarrow> 'w)
     \<Rightarrow> string list \<Rightarrow> ('t, 'j) target \<Rightarrow> 'w \<Rightarrow> ('t, 'j) target \<times> 'w" where
  "executeGroupTasks run stat ident notify [] tg w = (tg, w)"
| "executeGroupTasks run stat ident notify (u # us) tg w =
     (if \<not> checkDependencies stat ident u tg then executeGroupTasks run stat ident notify us tg w
      else case List.extract (\<lambda>t. ident t = u) (tg_tasks tg) of
        None \<Rightarrow> executeGroupTasks run stat ident notify us tg w
      | Some (before, t, after) \<Rightarrow>
        (case run (tg_params tg) t w of
           (None, t', w') \<Rightarrow>
             executeGroupTasks run stat ident notify us
               (tg\<lparr>tg_tasks := before @ t' # after, tg_completedTasks := tg_completedTasks tg + 1\<rparr>) w'
         | (Some e, t', w') \<Rightarrow>
             (let tg' = tg\<lparr>tg_tasks := before @ t' # after\<rparr>
              in executeGroupTasks run stat ident notify us tg' (notifyError notify e tg' w'))))"

definition executeGroup ::
    "('t, 'j, 'w) runner \<Rightarrow> ('t \<Rightarrow> TaskStatus) \<Rightarrow> ('t \<Rightarrow> string) \<Rightarrow> (target_event \<Rightarrow> 'w \<Rightarrow> 'w)
     \<Rightarrow> string \<Rightarrow> ('t, 'j) target \<Rightarrow> 'w \<Rightarrow> ('t, 'j) target \<times> 'w" where
  "executeGroup run stat ident notify groupName tg w =
     (case map_of (tg_taskGroups tg) groupName of
        None \<Rightarrow> (tg, w)
      | Some us \<Rightarrow> executeGroupTasks run stat ident notify us tg w)"

definition inGroup :: "string \<Rightarrow> ('t, 'j) target \<Rightarrow> bool" where
  "inGroup taskUUID tg = list_ex (\<lambda>(g, us). taskUUID \<in> set us) (tg_taskGroups tg)"

text \<open>
  The loop of \<^verbatim>\<open>execute\<close> over the tasks that are in no group; \<open>before\<close> holds the tasks already
  passed. The result says whether a failure stopped it.
\<close>

fun executeUngrouped ::
    "('t, 'j, 'w) runner \<Rightarrow> ('t \<Rightarrow> TaskStatus) \<Rightarrow> ('t \<Rightarrow> string) \<Rightarrow> (target_event \<Rightarrow> 'w \<Rightarrow> 'w)
     \<Rightarrow> 't list \<Rightarrow> 't list \<Rightarrow> ('t, 'j) target \<Rightarrow> 'w \<Rightarrow> bool \<times> ('t, 'j) target \<times> 'w" where
  "executeUngrouped run stat ident notify before [] tg w = (False, tg, w)"
| "executeUngrouped run stat ident notify before (t # rest) tg w =
     (if inGroup (ident t) tg then executeUngrouped run stat ident notify (before @ [t]) rest tg w
      else if \<not> checkDependencies stat ident (ident t) tg
      then executeUngrouped run stat ident notify (before @ [t]) rest tg w
      else
        (case run (tg_params tg) t w of
           (None, t', w') \<Rightarrow>
             (let tg' = tg\<lparr>tg_tasks := before @ t' # rest, tg_completedTasks := tg_completedTasks tg + 1\<rparr>
              in if stat t' = Failed then (True, tg', w')
                 else executeUngrouped run stat ident notify (before @ [t']) rest tg' w')
         | (Some e, t', w') \<Rightarrow>
             (let tg' = tg\<lparr>tg_tasks := before @ t' # rest\<rparr>
              in (True, tg', notifyError notify e tg' w'))))"

fun executeGroups ::
    "('t, 'j, 'w) runner \<Rightarrow> ('t \<Rightarrow> TaskStatus) \<Rightarrow> ('t \<Rightarrow> string) \<Rightarrow> (target_event \<Rightarrow> 'w \<Rightarrow> 'w)
     \<Rightarrow> string list \<Rightarrow> ('t, 'j) target \<Rightarrow> 'w \<Rightarrow> ('t, 'j) target \<times> 'w" where
  "executeGroups run stat ident notify [] tg w = (tg, w)"
| "executeGroups run stat ident notify (g # gs) tg w =
     (case executeGroup run stat ident notify g tg w of
        (tg', w') \<Rightarrow> executeGroups run stat ident notify gs tg' w')"

definition Target_execute ::
    "('t, 'j, 'w) runner \<Rightarrow> ('t \<Rightarrow> TaskStatus) \<Rightarrow> ('t \<Rightarrow> string) \<Rightarrow> (target_event \<Rightarrow> 'w \<Rightarrow> 'w)
     \<Rightarrow> ('t, 'j) target \<Rightarrow> 'w \<Rightarrow> ('t, 'j) target \<times> 'w" where
  "Target_execute run stat ident notify tg w =
     (if \<not> tg_enabled tg then
        (let tg = Target_setStatus TSkipped tg in (tg, notifyEnd notify TSkipped tg w))
      else
        (let tg = Target_setStatus TInProgress tg;
             w = notifyStart notify tg w
         in case executeUngrouped run stat ident notify [] (tg_tasks tg) tg w of
              (hasFailure, tg, w) \<Rightarrow>
                (case (if hasFailure then (tg, w)
                       else executeGroups run stat ident notify (map fst (tg_taskGroups tg)) tg w) of
                   (tg, w) \<Rightarrow>
                     (let finalStatus = (if hasFailure then TFailed else TCompleted);
                          tg = Target_setStatus finalStatus tg
                      in (tg, notifyEnd notify finalStatus tg w)))))"

section \<open>Observation data\<close>

definition updatePlans :: "(plans \<Rightarrow> plans) \<Rightarrow> ('t, 'j) target \<Rightarrow> ('t, 'j) target" where
  "updatePlans f tg =
     tg\<lparr>tg_astroConfig := (tg_astroConfig tg)\<lparr>cfg_exposurePlans := f (cfg_exposurePlans (tg_astroConfig tg))\<rparr>\<rparr>"

abbreviation tg_plans :: "('t, 'j) target \<Rightarrow> plans" where
  "tg_plans tg \<equiv> cfg_exposurePlans (tg_astroConfig tg)"

definition setAstroConfig :: "TargetConfig \<Rightarrow> ('t, 'j) target \<Rightarrow> ('t, 'j) target" where
  "setAstroConfig cfg tg = tg\<lparr>tg_astroConfig := cfg\<rparr>"

definition setCoordinates :: "Coordinates \<Rightarrow> ('t, 'j) target \<Rightarrow> ('t, 'j) target" where
  "setCoordinates c tg = tg\<lparr>tg_astroConfig := (tg_astroConfig tg)\<lparr>cfg_coordinates := c\<rparr>\<rparr>"

text \<open>The plan of the same filter is overwritten, the first one if there are several.\<close>

fun putPlan :: "ExposurePlan \<Rightarrow> plans \<Rightarrow> plans" where
  "putPlan plan [] = [plan]"
| "putPlan plan (p # ps) =
     (if ep_filterName p = ep_filterName plan then plan # ps else p # putPlan plan ps)"

definition Target_addExposurePlan :: "ExposurePlan \<Rightarrow> ('t, 'j) target \<Rightarrow> ('t, 'j) target" where
  "Target_addExposurePlan plan tg = updatePlans (putPlan plan) tg"

definition Target_removeExposurePlan :: "string \<Rightarrow> ('t, 'j) target \<Rightarrow> ('t, 'j) target" where
  "Target_removeExposurePlan f tg = updatePlans (filter (\<lambda>p. ep_filterName p \<noteq> f)) tg"

definition getCurrentExposurePlan :: "('t, 'j) target \<Rightarrow> ExposurePlan option" where
  "getCurrentExposurePlan tg =
     (if tg_currentExposurePlanIndex tg \<ge> length (tg_plans tg) then None
      else Some (tg_plans tg ! tg_currentExposurePlanIndex tg))"

definition advanceExposurePlan :: "('t, 'j) target \<Rightarrow> bool \<times> ('t, 'j) target" where
  "advanceExposurePlan tg =
     (if tg_currentExposurePlanIndex tg < length (tg_plans tg)
         \<and> \<not> ep_isComplete (tg_plans tg ! tg_currentExposurePlanIndex tg)
      then (False, tg)
      else
        (let i = tg_currentExposurePlanIndex tg + 1;
             tg = tg\<lparr>tg_currentExposurePlanIndex := i\<rparr>
         in if i \<ge> length (tg_plans tg) then (False, tg) else (True, tg)))"

definition recordCompletedExposure :: "('t, 'j) target \<Rightarrow> ('t, 'j) target" where
  "recordCompletedExposure tg =
     (let i = tg_currentExposurePlanIndex tg
      in if i < length (tg_plans tg)
         then updatePlans (\<lambda>ps. ps[i := (ps ! i)\<lparr>ep_completedCount := ep_completedCount (ps ! i) + 1\<rparr>]) tg
         else tg)"

definition setObservabilityWindow :: "ObservabilityWindow \<Rightarrow> ('t, 'j) target \<Rightarrow> ('t, 'j) target" where
  "setObservabilityWindow win tg = tg\<lparr>tg_observability := win\<rparr>"

definition updateHorizontalCoordinates :: "HorizontalCoordinates \<Rightarrow> ('t, 'j) target \<Rightarrow> ('t, 'j) target" where
  "updateHorizontalCoordinates c tg = tg\<lparr>tg_currentAltAz := c\<rparr>"

definition updateMeridianFlipInfo :: "MeridianFlipInfo \<Rightarrow> ('t, 'j) target \<Rightarrow> ('t, 'j) target" where
  "updateMeridianFlipInfo i tg = tg\<lparr>tg_meridianInfo := i\<rparr>"

definition isObservable :: "int \<Rightarrow> ('t, 'j) target \<Rightarrow> bool" where
  "isObservable now tg =
     (if \<not> ow_isObservableNow now (tg_observability tg) then False
      else if \<not> ac_isValid (cfg_altConstraints (tg_astroConfig tg)) (hc_altitude (tg_currentAltAz tg)) then False
      else if cfg_useTimeConstraints (tg_astroConfig tg)
              \<and> (now < cfg_startTime (tg_astroConfig tg) \<or> now > cfg_endTime (tg_astroConfig tg)) then False
      else True)"

definition needsMeridianFlip :: "('t, 'j) target \<Rightarrow> bool" where
  "needsMeridianFlip tg =
     (if \<not> cfg_autoMeridianFlip (tg_astroConfig tg) then False
      else mf_flipRequired (tg_meridianInfo tg) \<and> \<not> mf_flipCompleted (tg_meridianInfo tg))"

definition markMeridianFlipCompleted :: "('t, 'j) target \<Rightarrow> ('t, 'j) target" where
  "markMeridianFlipCompleted tg = tg\<lparr>tg_meridianInfo := (tg_meridianInfo tg)\<lparr>mf_flipCompleted := True\<rparr>\<rparr>"

definition Target_setPriority :: "int \<Rightarrow> ('t, 'j) target \<Rightarrow> ('t, 'j) target" where
  "Target_setPriority p tg =
     tg\<lparr>tg_astroConfig := (tg_astroConfig tg)\<lparr>cfg_priority := max 1 (min p 10)\<rparr>\<rparr>"

definition getRemainingExposureTime :: "('t, 'j) target \<Rightarrow> real" where
  "getRemainingExposureTime tg = totalRemainingExposureTime (tg_plans tg)"

definition getExposureProgress :: "('t, 'j) target \<Rightarrow> real" where
  "getExposureProgress tg = overallProgress (tg_plans tg)"

definition areExposurePlansComplete :: "('t, 'j) target \<Rightarrow> bool" where
  "areExposurePlansComplete tg = plans_isComplete (tg_plans tg)"

definition Target_pause :: "('t, 'j) target \<Rightarrow> ('t, 'j) target" where
  "Target_pause tg = tg\<lparr>tg_paused := True\<rparr>"

definition Target_resume :: "('t, 'j) target \<Rightarrow> ('t, 'j) target" where
  "Target_resume tg = tg\<lparr>tg_paused := False\<rparr>"

definition Target_abort :: "('t, 'j) target \<Rightarrow> ('t, 'j) target" where
  "Target_abort tg = Target_setStatus TFailed (tg\<lparr>tg_aborted := True\<rparr>)"

section \<open>Execution against the task interface\<close>

text \<open>Everything of a target that running its tasks leaves alone.\<close>

definition tg_frame :: "('t, 'j) target \<Rightarrow> ('t, 'j) target" where
  "tg_frame tg = tg\<lparr>tg_tasks := [], tg_completedTasks := 0\<rparr>"

lemma tg_frameD:
  assumes "tg_frame tg' = tg_frame tg"
  shows "tg_taskGroups tg' = tg_taskGroups tg" "tg_taskDependencies tg' = tg_taskDependencies tg"
    "tg_status tg' = tg_status tg" "tg_enabled tg' = tg_enabled tg" "tg_name tg' = tg_name tg"
    "tg_totalTasks tg' = tg_totalTasks tg" "inGroup u tg' = inGroup u tg"
proof -
  show "tg_taskGroups tg' = tg_taskGroups tg" using arg_cong [OF assms, of tg_taskGroups] by (simp add: tg_frame_def)
  then show "inGroup u tg' = inGroup u tg" by (simp add: inGroup_def)
  show "tg_taskDependencies tg' = tg_taskDependencies tg"
    using arg_cong [OF assms, of tg_taskDependencies] by (simp add: tg_frame_def)
  show "tg_status tg' = tg_status tg" using arg_cong [OF assms, of tg_status] by (simp add: tg_frame_def)
  show "tg_enabled tg' = tg_enabled tg" using arg_cong [OF assms, of tg_enabled] by (simp add: tg_frame_def)
  show "tg_name tg' = tg_name tg" using arg_cong [OF assms, of tg_name] by (simp add: tg_frame_def)
  show "tg_totalTasks tg' = tg_totalTasks tg" using arg_cong [OF assms, of tg_totalTasks] by (simp add: tg_frame_def)
qed

text \<open>A task that is in no group and that no dependency entry can hold back.\<close>

definition independent :: "('t \<Rightarrow> string) \<Rightarrow> ('t, 'j) target \<Rightarrow> 't \<Rightarrow> bool" where
  "independent ident tg t \<longleftrightarrow> \<not> inGroup (ident t) tg \<and> ident t \<notin> keys (tg_taskDependencies tg)"

lemma independent_frame: "tg_frame tg' = tg_frame tg \<Longrightarrow> independent ident tg' t = independent ident tg t"
  using tg_frameD [of tg' tg] by (simp add: independent_def)

lemma independent_checkDependencies: "independent ident tg t \<Longrightarrow> checkDependencies stat ident (ident t) tg"
  by (simp add: independent_def checkDependencies_def map_of_None_keys [symmetric])

context task_runner
begin

lemma executeGroupTasks_frame:
  "executeGroupTasks run stat ident notify us tg w = (tg', w') \<Longrightarrow>
   tg_frame tg' = tg_frame tg \<and> map ident (tg_tasks tg') = map ident (tg_tasks tg)
   \<and> (\<forall>t \<in> set (tg_tasks tg'). ident t \<notin> set us \<longrightarrow> t \<in> set (tg_tasks tg))"
proof (induction us arbitrary: tg w)
  case (Cons u us)
  show ?case
  proof (cases "checkDependencies stat ident u tg \<and> List.extract (\<lambda>t. ident t = u) (tg_tasks tg) \<noteq> None")
    case True
    then obtain before t after where x: "List.extract (\<lambda>t. ident t = u) (tg_tasks tg) = Some (before, t, after)"
      by auto
    then have tasks: "tg_tasks tg = before @ t # after" and u: "ident t = u"
      by (auto simp: List.extract_Some_iff)
    obtain r t1 w1 where r: "run (tg_params tg) t w = (r, t1, w1)" by (rule prod_cases3)
    have i: "ident t1 = u" using run_ident [OF r] u by simp
    obtain tg1 w2 where e: "executeGroupTasks run stat ident notify us tg1 w2 = (tg', w')"
      and f: "tg_frame tg1 = tg_frame tg" and l: "tg_tasks tg1 = before @ t1 # after"
    proof (cases r)
      case None
      then show thesis using Cons.prems True x r
        by (intro that [of "tg\<lparr>tg_tasks := before @ t1 # after, tg_completedTasks := tg_completedTasks tg + 1\<rparr>" w1])
          (auto simp: tg_frame_def)
    next
      case (Some e)
      then show thesis using Cons.prems True x r
        by (intro that [of "tg\<lparr>tg_tasks := before @ t1 # after\<rparr>"
              "notifyError notify e (tg\<lparr>tg_tasks := before @ t1 # after\<rparr>) w1"])
          (auto simp: tg_frame_def Let_def)
    qed
    from Cons.IH [OF e] show ?thesis using tasks u i f l by auto
  next
    case False
    then have "executeGroupTasks run stat ident notify us tg w = (tg', w')"
      using Cons.prems by (cases "List.extract (\<lambda>t. ident t = u) (tg_tasks tg)") (auto split: if_splits)
    from Cons.IH [OF this] show ?thesis by auto
  qed
qed simp

lemma executeGroups_frame:
  "executeGroups run stat ident notify gs tg w = (tg', w') \<Longrightarrow>
   tg_frame tg' = tg_frame tg \<and> map ident (tg_tasks tg') = map ident (tg_tasks tg)
   \<and> (\<forall>t \<in> set (tg_tasks tg'). \<not> inGroup (ident t) tg \<longrightarrow> t \<in> set (tg_tasks tg))"
proof (induction gs arbitrary: tg w)
  case (Cons g gs)
  obtain tg1 w1 where e: "executeGroup run stat ident notify g tg w = (tg1, w1)"
    by (cases "executeGroup run stat ident notify g tg w")
  have f: "tg_frame tg1 = tg_frame tg" "map ident (tg_tasks tg1) = map ident (tg_tasks tg)"
    "\<forall>t \<in> set (tg_tasks tg1). \<not> inGroup (ident t) tg \<longrightarrow> t \<in> set (tg_tasks tg)"
  proof -
    have "tg_frame tg1 = tg_frame tg \<and> map ident (tg_tasks tg1) = map ident (tg_tasks tg)
      \<and> (\<forall>t \<in> set (tg_tasks tg1). \<not> inGroup (ident t) tg \<longrightarrow> t \<in> set (tg_tasks tg))"
    proof (cases "map_of (tg_taskGroups tg) g")
      case None
      then show ?thesis using e by (simp add: executeGroup_def)
    next
      case (Some us)
      then have "executeGroupTasks run stat ident notify us tg w = (tg1, w1)"
        using e by (simp add: executeGroup_def)
      moreover have "u \<in> set us \<Longrightarrow> inGroup u tg" for u
        using map_of_SomeD [OF Some] by (auto simp: inGroup_def list_ex_iff)
      ultimately show ?thesis using executeGroupTasks_frame by blast
    qed
    then show "tg_frame tg1 = tg_frame tg" "map ident (tg_tasks tg1) = map ident (tg_tasks tg)"
      "\<forall>t \<in> set (tg_tasks tg1). \<not> inGroup (ident t) tg \<longrightarrow> t \<in> set (tg_tasks tg)" by blast+
  qed
  have "executeGroups run stat ident notify gs tg1 w1 = (tg', w')" using Cons.prems e by simp
  from Cons.IH [OF this] show ?case using f tg_frameD(7) [OF f(1)] by auto
qed simp

lemma executeUngrouped_outcome:
  assumes "executeUngrouped run stat ident notify before rest tg w = (fail, tg', w')"
    "tg_tasks tg = before @ rest"
  shows "tg_frame tg' = tg_frame tg \<and> map ident (tg_tasks tg') = map ident (tg_tasks tg)
    \<and> \<not> (fail \<and> list_all (\<lambda>t. inGroup (ident t) tg) rest)
    \<and> \<not> (\<not> fail \<and> \<not> (\<exists>rest'. tg_tasks tg' = before @ rest'
                         \<and> (\<forall>t \<in> set rest'. independent ident tg t \<longrightarrow> stat t = Completed)))"
  using assms
proof (induction rest arbitrary: before tg w)
  case (Cons t rest)
  show ?case
  proof (cases "inGroup (ident t) tg \<or> \<not> checkDependencies stat ident (ident t) tg")
    case True
    then have "\<not> independent ident tg t"
      using independent_checkDependencies [of ident tg t stat] by (auto simp: independent_def)
    moreover have "executeUngrouped run stat ident notify (before @ [t]) rest tg w = (fail, tg', w')"
      using Cons.prems(1) True by (auto split: if_splits)
    ultimately show ?thesis using Cons.IH [of "before @ [t]" tg w] Cons.prems(2) by auto
  next
    case False
    obtain r t1 w1 where r: "run (tg_params tg) t w = (r, t1, w1)" by (rule prod_cases3)
    have i: "ident t1 = ident t" using run_ident [OF r] .
    show ?thesis
    proof (cases "r = None \<and> stat t1 \<noteq> Failed")
      case True
      let ?tg1 = "tg\<lparr>tg_tasks := before @ t1 # rest, tg_completedTasks := tg_completedTasks tg + 1\<rparr>"
      have st: "stat t1 = Completed" using run_final [of "tg_params tg" t w t1 w1] r True by auto
      have f: "tg_frame ?tg1 = tg_frame tg" by (simp add: tg_frame_def)
      have "executeUngrouped run stat ident notify (before @ [t1]) rest ?tg1 w1 = (fail, tg', w')"
        using Cons.prems(1) False True r by (simp add: Let_def)
      from Cons.IH [OF this] show ?thesis
        using st i f tg_frameD(7) [OF f] independent_frame [OF f, of ident] Cons.prems(2) False by auto
    next
      case f: False
      then show ?thesis using Cons.prems False r i
        by (cases r) (auto simp: Let_def tg_frame_def split: if_splits)
    qed
  qed
qed auto

lemma Target_execute_outcome:
  assumes "Target_execute run stat ident notify tg w = (tg', w')" "tg_enabled tg"
  shows "(tg_status tg' = TCompleted \<or> tg_status tg' = TFailed)
    \<and> map ident (tg_tasks tg') = map ident (tg_tasks tg)
    \<and> \<not> (tg_status tg' = TFailed \<and> list_all (\<lambda>t. inGroup (ident t) tg) (tg_tasks tg))
    \<and> \<not> (tg_status tg' = TCompleted \<and> \<not> list_all (\<lambda>t. independent ident tg t \<longrightarrow> stat t = Completed) (tg_tasks tg'))"
proof -
  let ?tg = "Target_setStatus TInProgress tg"
  obtain f tg1 w1 where u: "executeUngrouped run stat ident notify [] (tg_tasks ?tg) ?tg (notifyStart notify ?tg w) = (f, tg1, w1)"
    by (rule prod_cases3)
  obtain tg2 w2 where g: "(if f then (tg1, w1) else executeGroups run stat ident notify (map fst (tg_taskGroups tg1)) tg1 w1) = (tg2, w2)"
    by fastforce
  have tg': "tg' = Target_setStatus (if f then TFailed else TCompleted) tg2"
    using assms u g by (auto simp: Target_execute_def Let_def split: prod.splits)
  note o = executeUngrouped_outcome [OF u]
  have same: "inGroup u ?tg = inGroup u tg" "independent ident ?tg t = independent ident tg t" for u t
    by (simp_all add: Target_setStatus_def inGroup_def independent_def)
  have f1: "tg_frame tg1 = tg_frame ?tg" using o by simp
  have g2: "map ident (tg_tasks tg2) = map ident (tg_tasks tg1)"
    "f \<or> (\<forall>t \<in> set (tg_tasks tg2). \<not> inGroup (ident t) tg1 \<longrightarrow> t \<in> set (tg_tasks tg1))"
    using g executeGroups_frame by (auto split: if_splits)
  show ?thesis
    using o same g2 tg_frameD(7) [OF f1] unfolding tg'
    by (auto simp: Target_setStatus_def list_all_iff independent_def)
qed

lemma Target_execute_name: "tg_name (fst (Target_execute run stat ident notify tg w)) = tg_name tg"
proof -
  let ?tg = "Target_setStatus TInProgress tg"
  obtain f tg1 w1 where u: "executeUngrouped run stat ident notify [] (tg_tasks ?tg) ?tg (notifyStart notify ?tg w) = (f, tg1, w1)"
    by (rule prod_cases3)
  obtain tg2 w2 where g: "(if f then (tg1, w1) else executeGroups run stat ident notify (map fst (tg_taskGroups tg1)) tg1 w1) = (tg2, w2)"
    by fastforce
  have "tg_frame tg1 = tg_frame ?tg" using executeUngrouped_outcome [OF u] by simp
  moreover have "tg_frame tg2 = tg_frame tg1" using g executeGroups_frame by (auto split: if_splits)
  ultimately have "tg_name tg2 = tg_name tg"
    using tg_frameD(5) [of tg1 ?tg] tg_frameD(5) [of tg2 tg1] by (simp add: Target_setStatus_def)
  then show ?thesis using u g
    by (auto simp: Target_execute_def Target_setStatus_def Let_def split: prod.splits)
qed

end

section \<open>Lemmas on the observation data\<close>

lemma tg_plans_updatePlans [simp]: "tg_plans (updatePlans f tg) = f (tg_plans tg)"
  by (simp add: updatePlans_def)

lemma putPlan_filters:
  "set (map ep_filterName (putPlan p ps)) = insert (ep_filterName p) (set (map ep_filterName ps))"
  "distinct (map ep_filterName ps) \<Longrightarrow> distinct (map ep_filterName (putPlan p ps))"
proof -
  show s: "set (map ep_filterName (putPlan p ps)) = insert (ep_filterName p) (set (map ep_filterName ps))" for ps
    by (induction ps) auto
  show "distinct (map ep_filterName ps) \<Longrightarrow> distinct (map ep_filterName (putPlan p ps))"
  proof (induction ps)
    case (Cons q ps)
    then show ?case using s [of ps] by auto
  qed simp
qed

lemma find_putPlan: "find (\<lambda>q. ep_filterName q = ep_filterName p) (putPlan p ps) = Some p"
  by (induction ps) auto

section \<open>Properties\<close>

text \<open>A target of two base-class tasks for the witnesses.\<close>

definition demo_target :: "string list umap \<Rightarrow> (string task, string) target" where
  "demo_target gs =
     (case Target_new True [] ''m31'' ''T'' 0 3 of
        Inr tg \<Rightarrow> tg\<lparr>tg_tasks := [Task_new ''slew'' ''good'' 0, Task_new ''expose'' ''bad'' 0],
                     tg_totalTasks := 2, tg_taskGroups := gs\<rparr>)"



text \<open>
  Failures inside groups are not reported. A target whose tasks all belong to groups ends
  completed whatever happens to them.
\<close>

theorem Target_group_failures_ignored:
  assumes "tg_enabled tg" "list_all (\<lambda>t. inGroup (getUUID t) tg) (tg_tasks tg)"
  shows "tg_status (fst (Target_execute (Task_call env api) getStatus getUUID notify tg w)) = TCompleted"
  using task_exec.Target_execute_outcome [of env api notify tg w] assms
  by (metis prod.collapse)

theorem Target_group_failures_ignored_witness:
  "let tg' = fst (Target_execute (Task_call count_env string_api) getStatus getUUID (\<lambda>e w. w)
      (demo_target [(''g'', [''good'', ''bad''])]) 0)
   in tg_status tg' = TCompleted \<and> map getStatus (tg_tasks tg') = [Completed, Failed]"
proof -
  let ?tg = "demo_target [(''g'', [''good'', ''bad''])]"
  have "tg_enabled ?tg" "list_all (\<lambda>t. inGroup (getUUID t) ?tg) (tg_tasks ?tg)" by code_simp+
  from Target_group_failures_ignored [OF this, of count_env string_api "\<lambda>e w. w" 0]
  have "tg_status (fst (Target_execute (Task_call count_env string_api) getStatus getUUID (\<lambda>e w. w) ?tg 0)) = TCompleted" .
  moreover have "map getStatus (tg_tasks (fst (Target_execute (Task_call count_env string_api) getStatus getUUID
      (\<lambda>e w. w) ?tg 0))) = [Completed, Failed]" by code_simp
  ultimately show ?thesis by (simp add: Let_def)
qed

text \<open>
  Adding a plan replaces the plan of its filter and keeps filters unique; recording an
  exposure raises the completed count of the current plan by one and touches no other plan, also
  when that plan is already complete, unlike \<^verbatim>\<open>ExposurePlan::recordExposure\<close>; the plan index only
  advances past a complete plan. Priorities are clamped to 1..10.
\<close>

theorem Target_exposure_plans:
  assumes "distinct (map ep_filterName (tg_plans tg))"
  shows "distinct (map ep_filterName (tg_plans (Target_addExposurePlan p tg)))
    \<and> getPlan (ep_filterName p) (tg_plans (Target_addExposurePlan p tg)) = Some p
    \<and> (tg_currentExposurePlanIndex tg < length (tg_plans tg) \<longrightarrow>
        totalCompletedCount (tg_plans (recordCompletedExposure tg)) = totalCompletedCount (tg_plans tg) + 1
        \<and> (tg_currentExposurePlanIndex (snd (advanceExposurePlan tg)) = tg_currentExposurePlanIndex tg + 1
            \<longleftrightarrow> ep_isComplete (tg_plans tg ! tg_currentExposurePlanIndex tg)))
    \<and> 1 \<le> cfg_priority (tg_astroConfig (Target_setPriority n tg))
    \<and> cfg_priority (tg_astroConfig (Target_setPriority n tg)) \<le> 10"
proof -
  have "sum_list (map ep_completedCount (ps[i := (ps ! i)\<lparr>ep_completedCount := ep_completedCount (ps ! i) + 1\<rparr>]))
      = sum_list (map ep_completedCount ps) + 1" if "i < length ps" for i and ps :: plans
    using that by (simp add: map_update sum_list_upd)
  then show ?thesis
    using assms putPlan_filters(2)
    by (auto simp: Target_addExposurePlan_def getPlan_def find_putPlan recordCompletedExposure_def Let_def
        totalCompletedCount_def foldl_sum advanceExposurePlan_def Target_setPriority_def)
qed

theorem Target_exposure_plans_witness:
  "let tg = Target_addExposurePlan (ExposurePlan_new ''L'' 60 10) (demo_target [])
   in totalCompletedCount (tg_plans (recordCompletedExposure tg)) = 1"
  using Target_exposure_plans [of "Target_addExposurePlan (ExposurePlan_new ''L'' 60 10) (demo_target [])"
      "ExposurePlan_new ''L'' 60 10" 5]
  by (simp add: Let_def Target_addExposurePlan_def demo_target_def Target_new_def default_config_def
      updatePlans_def totalCompletedCount_def ExposurePlan_new_def)

end
