(* ===== verification/Sequencer.thy ===== *)
theory Sequencer
  imports Target Graph_Search "HOL-Library.Multiset"
begin

text \<open>
  The exposure sequencer of \<^verbatim>\<open>src/src/task/core/sequencer.hpp\<close> and \<^verbatim>\<open>sequencer.cpp\<close>: the list of
  targets, the dependencies between targets with cycle detection and ready status, the execution
  loop, error recovery, reordering, and the scheduling queries. \<^verbatim>\<open>Target::execute\<close> is a parameter
  with the interface \<open>target_runner\<close>, interpreted on \<^const>\<open>Target_execute\<close>. A callback is a function of
  the event that acts on the world; one that is not set leaves the world alone. The database, the
  task generator with its macros and the JSON files are not modelled.
\<close>

section \<open>Data\<close>

datatype SequenceState = SIdle | SRunning | SPaused | SStopping | SStopped

datatype SchedulingStrategy = FIFO | ByPriority | ByDependencies

datatype RecoveryStrategy = RStop | RSkip | RRetry | RAlternative

datatype seq_event =
    SequenceStart
  | SequenceEnd
  | TargetStarted string
  | TargetEnded string TargetStatus
  | SequenceError string exn

record ('t, 'j) sequencer =
  sq_targets :: "('t, 'j) target list"
  sq_state :: SequenceState
  sq_completedTargets :: nat
  sq_totalTargets :: nat
  sq_failedTargets :: nat
  sq_failedTargetNames :: "string list"
  sq_schedulingStrategy :: SchedulingStrategy
  sq_recoveryStrategy :: RecoveryStrategy
  sq_maxConcurrentTargets :: nat
  sq_globalTimeout :: int
  sq_alternativeTargets :: "('t, 'j) target umap"
  sq_targetDependencies :: "string list umap"
  sq_targetReadyStatus :: "bool umap"
  sq_totalExecutions :: nat
  sq_successfulExecutions :: nat
  sq_failedExecutions :: nat
  sq_minimumAltitude :: real

section \<open>Targets\<close>

definition addTarget :: "('t, 'j) target option \<Rightarrow> ('t, 'j) sequencer \<Rightarrow> ('t, 'j) sequencer result" where
  "addTarget target s =
     (case target of
        None \<Rightarrow> Inl (InvalidArgument ''Cannot add a null target'')
      | Some t \<Rightarrow>
        if tg_uuid t \<in> tg_uuid ` set (sq_targets s)
        then Inl (RuntimeError (''Target with UUID '' @ tg_uuid t @ '' already exists''))
        else Inr (s\<lparr>sq_targets := sq_targets s @ [t], sq_totalTargets := length (sq_targets s @ [t])\<rparr>))"

definition removeTarget :: "string \<Rightarrow> ('t, 'j) sequencer \<Rightarrow> ('t, 'j) sequencer result" where
  "removeTarget name s =
     (case List.extract (\<lambda>t. tg_name t = name) (sq_targets s) of
        None \<Rightarrow> Inl (RuntimeError (''Target with name '' @ name @ '' not found''))
      | Some (before, t, after) \<Rightarrow>
        Inr (s\<lparr>sq_targets := before @ after, sq_totalTargets := length (before @ after)\<rparr>))"

text \<open>The modifier may throw after it changed the target, so the new state is returned in both cases.\<close>

definition modifyTarget ::
    "string \<Rightarrow> (('t, 'j) target \<Rightarrow> exn option \<times> ('t, 'j) target) \<Rightarrow> ('t, 'j) sequencer
     \<Rightarrow> exn option \<times> ('t, 'j) sequencer" where
  "modifyTarget name modifier s =
     (case List.extract (\<lambda>t. tg_name t = name) (sq_targets s) of
        None \<Rightarrow> (Some (RuntimeError (''Target with name '' @ name @ '' not found'')), s)
      | Some (before, t, after) \<Rightarrow>
        (case modifier t of
           (None, t') \<Rightarrow> (None, s\<lparr>sq_targets := before @ t' # after\<rparr>)
         | (Some e, t') \<Rightarrow>
           (Some (RuntimeError (''Failed to modify target '' @ name @ '': '' @ what e)),
            s\<lparr>sq_targets := before @ t' # after\<rparr>)))"

definition getTargetNames :: "('t, 'j) sequencer \<Rightarrow> string list" where
  "getTargetNames s = map tg_name (sq_targets s)"

definition getTargetStatus :: "string \<Rightarrow> ('t, 'j) sequencer \<Rightarrow> TargetStatus" where
  "getTargetStatus name s =
     (case find (\<lambda>t. tg_name t = name) (sq_targets s) of
        Some t \<Rightarrow> tg_status t
      | None \<Rightarrow> TSkipped)"

definition Sequencer_getProgress :: "('t, 'j) sequencer \<Rightarrow> real" where
  "Sequencer_getProgress s =
     (if sq_totalTargets s = 0 then 100
      else real (sq_completedTargets s) / real (sq_totalTargets s) * 100)"

definition setRecoveryStrategy :: "RecoveryStrategy \<Rightarrow> ('t, 'j) sequencer \<Rightarrow> ('t, 'j) sequencer" where
  "setRecoveryStrategy r s = s\<lparr>sq_recoveryStrategy := r\<rparr>"

definition addAlternativeTarget ::
    "string \<Rightarrow> ('t, 'j) target option \<Rightarrow> ('t, 'j) sequencer \<Rightarrow> ('t, 'j) sequencer result" where
  "addAlternativeTarget name alt s =
     (case alt of
        None \<Rightarrow> Inl (InvalidArgument ''Cannot add null alternative target'')
      | Some t \<Rightarrow> Inr (s\<lparr>sq_alternativeTargets := AList.update name t (sq_alternativeTargets s)\<rparr>))"

definition setMaxConcurrentTargets :: "nat \<Rightarrow> ('t, 'j) sequencer \<Rightarrow> ('t, 'j) sequencer" where
  "setMaxConcurrentTargets n s = s\<lparr>sq_maxConcurrentTargets := n\<rparr>"

definition setTargetTimeout :: "string \<Rightarrow> int \<Rightarrow> ('t, 'j) sequencer \<Rightarrow> ('t, 'j) sequencer result" where
  "setTargetTimeout name timeout s =
     (case find (\<lambda>t. tg_name t = name) (sq_targets s) of
        Some t \<Rightarrow> Inr s
      | None \<Rightarrow> Inl (RuntimeError (''Target not found: '' @ name)))"

definition setGlobalTimeout :: "int \<Rightarrow> ('t, 'j) sequencer \<Rightarrow> ('t, 'j) sequencer" where
  "setGlobalTimeout n s = s\<lparr>sq_globalTimeout := n\<rparr>"

definition setMinimumAltitude :: "real \<Rightarrow> ('t, 'j) sequencer \<Rightarrow> ('t, 'j) sequencer" where
  "setMinimumAltitude a s = s\<lparr>sq_minimumAltitude := max 0 (min a 90)\<rparr>"

text \<open>The loop of \<^verbatim>\<open>retryFailedTargets\<close> and \<^verbatim>\<open>skipFailedTargets\<close>: first target of each name.\<close>

fun setStatusOf :: "TargetStatus \<Rightarrow> string list \<Rightarrow> ('t, 'j) target list \<Rightarrow> ('t, 'j) target list" where
  "setStatusOf st [] ts = ts"
| "setStatusOf st (n # ns) ts =
     (case List.extract (\<lambda>t. tg_name t = n) ts of
        None \<Rightarrow> setStatusOf st ns ts
      | Some (before, t, after) \<Rightarrow> setStatusOf st ns (before @ Target_setStatus st t # after))"

definition retryFailedTargets :: "('t, 'j) sequencer \<Rightarrow> ('t, 'j) sequencer" where
  "retryFailedTargets s =
     s\<lparr>sq_failedTargetNames := [], sq_failedTargets := 0,
       sq_targets := setStatusOf TPending (sq_failedTargetNames s) (sq_targets s)\<rparr>"

definition skipFailedTargets :: "('t, 'j) sequencer \<Rightarrow> ('t, 'j) sequencer" where
  "skipFailedTargets s =
     s\<lparr>sq_failedTargetNames := [], sq_failedTargets := 0,
       sq_targets := setStatusOf TSkipped (sq_failedTargetNames s) (sq_targets s)\<rparr>"

definition setTargetTaskParams ::
    "string \<Rightarrow> string \<Rightarrow> 'j \<Rightarrow> ('t, 'j) sequencer \<Rightarrow> ('t, 'j) sequencer result" where
  "setTargetTaskParams name taskUUID params s =
     (case List.extract (\<lambda>t. tg_name t = name) (sq_targets s) of
        None \<Rightarrow> Inl (RuntimeError (''Target not found: '' @ name))
      | Some (before, t, after) \<Rightarrow>
        Inr (s\<lparr>sq_targets := before @ Target_setTaskParams taskUUID params t # after\<rparr>))"

definition getTargetTaskParams :: "string \<Rightarrow> string \<Rightarrow> ('t, 'j) sequencer \<Rightarrow> 'j option" where
  "getTargetTaskParams name taskUUID s =
     (case find (\<lambda>t. tg_name t = name) (sq_targets s) of
        None \<Rightarrow> None
      | Some t \<Rightarrow> Target_getTaskParams taskUUID t)"

definition setTargetParams :: "string \<Rightarrow> 'j \<Rightarrow> ('t, 'j) sequencer \<Rightarrow> ('t, 'j) sequencer result" where
  "setTargetParams name params s =
     (case List.extract (\<lambda>t. tg_name t = name) (sq_targets s) of
        None \<Rightarrow> Inl (RuntimeError (''Target not found: '' @ name))
      | Some (before, t, after) \<Rightarrow> Inr (s\<lparr>sq_targets := before @ Target_setParams params t # after\<rparr>))"

definition getTargetParams :: "string \<Rightarrow> ('t, 'j) sequencer \<Rightarrow> 'j option" where
  "getTargetParams name s = map_option tg_params (find (\<lambda>t. tg_name t = name) (sq_targets s))"

section \<open>Dependencies between targets\<close>

function (sequential) hasCycleVisit ::
    "string list umap \<Rightarrow> string \<Rightarrow> string list \<Rightarrow> string list \<Rightarrow> bool \<times> string list \<times> string list"
  and hasCycleScan ::
    "string list umap \<Rightarrow> string list \<Rightarrow> string list \<Rightarrow> string list \<Rightarrow> bool \<times> string list \<times> string list"
where
  "hasCycleVisit d targetName visited recursionStack =
     (let visited = List.insert targetName visited;
          recursionStack = List.insert targetName recursionStack
      in case (case map_of d targetName of
                 None \<Rightarrow> (False, visited, recursionStack)
               | Some deps \<Rightarrow> hasCycleScan d deps visited recursionStack) of
           (found, visited', recursionStack') \<Rightarrow>
             if found then (True, visited', recursionStack')
             else (False, visited', removeAll targetName recursionStack'))"
| "hasCycleScan d [] visited recursionStack = (False, visited, recursionStack)"
| "hasCycleScan d (dep # rest) visited recursionStack =
     (if dep \<notin> set visited then
        (case hasCycleVisit d dep visited recursionStack of
           (found, visited', recursionStack') \<Rightarrow>
             if found then (True, visited', recursionStack')
             else hasCycleScan d rest visited' recursionStack')
      else if dep \<in> set recursionStack then (True, visited, recursionStack)
      else hasCycleScan d rest visited recursionStack)"
  by pat_completeness auto

lemma hasCycleVisit_grows:
  "hasCycleVisit_hasCycleScan_dom (Inl (m, x, vis, st)) \<Longrightarrow>
     set vis \<subseteq> set (fst (snd (hasCycleVisit m x vis st)))"
  "hasCycleVisit_hasCycleScan_dom (Inr (m, xs, vis, st)) \<Longrightarrow>
     set vis \<subseteq> set (fst (snd (hasCycleScan m xs vis st)))"
proof (induction rule: hasCycleVisit_hasCycleScan.pinduct)
  case (1 m x vis st)
  then show ?case
    by (subst hasCycleVisit.psimps [OF 1(1)])
      (fastforce simp: Let_def split: option.splits prod.splits)
next
  case (2 m vis st)
  then show ?case by (simp add: hasCycleScan.psimps)
next
  case (3 m y ys vis st)
  obtain b vis' st' where r: "hasCycleVisit m y vis st = (b, vis', st')" by (rule prod_cases3)
  note eq = hasCycleScan.psimps(2) [OF 3(1)]
  show ?case
  proof (cases "y \<in> set vis")
    case True
    then show ?thesis using 3(4) by (auto simp: eq)
  next
    case False
    then have g: "set vis \<subseteq> set vis'" using 3(2) r by simp
    show ?thesis
    proof (cases b)
      case False2: False
      then have "set vis' \<subseteq> set (fst (snd (hasCycleScan m ys vis' st')))"
        using 3(3) [OF False r [symmetric]] by simp
      then show ?thesis using False False2 g by (auto simp: eq r)
    qed (use False g in \<open>auto simp: eq r\<close>)
  qed
qed

termination hasCycleVisit
proof (relation "measures
     [\<lambda>a. case a of Inl (m, x, vis, st) \<Rightarrow> fresh m (x # vis) | Inr (m, xs, vis, st) \<Rightarrow> fresh m vis,
      \<lambda>a. case a of Inl (m, x, vis, st) \<Rightarrow> 2 * length (lookup_or [] m x) + 1
          | Inr (m, xs, vis, st) \<Rightarrow> 2 * length xs]", goal_cases)
  case (4 m y ys vis st b p vis' st')
  then have "set vis \<subseteq> set vis'" using hasCycleVisit_grows(1) [of m y vis st] by (metis fst_conv snd_conv)
  then show ?case using fresh_mono [of vis vis' m] by auto
qed (auto simp: lookup_or_def fresh_def insert_absorb dest: fresh_visit)

declare hasCycleVisit.simps [simp del]

fun findCycleRoots :: "string list umap \<Rightarrow> string list \<Rightarrow> string list \<Rightarrow> string list \<Rightarrow> string option" where
  "findCycleRoots d [] visited recursionStack = None"
| "findCycleRoots d (targetName # rest) visited recursionStack =
     (if targetName \<notin> set visited then
        (case hasCycleVisit d targetName visited recursionStack of
           (found, visited', recursionStack') \<Rightarrow>
             if found then Some targetName else findCycleRoots d rest visited' recursionStack')
      else findCycleRoots d rest visited recursionStack)"

definition findCyclicDependency :: "string list umap \<Rightarrow> string option" where
  "findCyclicDependency d = findCycleRoots d (map fst d) [] []"

subsection \<open>Ready status\<close>

text \<open>\<^verbatim>\<open>operator[]\<close> on the status map inserts \<open>False\<close> for an absent key.\<close>

abbreviation touch :: "string \<Rightarrow> bool umap \<Rightarrow> bool umap" where
  "touch k m \<equiv> try_emplace k False m"

fun checkReady :: "string \<Rightarrow> string list \<Rightarrow> bool umap \<times> bool \<Rightarrow> bool umap \<times> bool" where
  "checkReady targetName [] (m, changed) = (m, changed)"
| "checkReady targetName (dep # rest) (m, changed) =
     (let m = touch dep m
      in if \<not> lookup_or False m dep then
           (let m = touch targetName m
            in if lookup_or False m targetName then (AList.update targetName False m, True)
               else (m, changed))
         else checkReady targetName rest (m, changed))"

definition readyPass :: "string list umap \<Rightarrow> bool umap \<Rightarrow> bool umap \<times> bool" where
  "readyPass d m = foldl (\<lambda>acc (targetName, deps). checkReady targetName deps acc) (m, False) d"

text \<open>The targets a status map calls ready.\<close>

definition ready_set :: "bool umap \<Rightarrow> string set" where
  "ready_set m = {k. lookup_or False m k}"

lemma ready_set_touch [simp]: "ready_set (touch k m) = ready_set m"
  by (simp add: ready_set_def)

lemma ready_set_False [simp]: "ready_set (AList.update k False m) = ready_set m - {k}"
  by (auto simp: ready_set_def)

lemma ready_set_True [simp]: "ready_set (AList.update k True m) = insert k (ready_set m)"
  by (auto simp: ready_set_def)

lemma finite_ready_set [simp]: "finite (ready_set m)"
proof (rule finite_subset)
  show "ready_set m \<subseteq> keys m" using lookup_or_absent [of _ m False] by (auto simp: ready_set_def)
qed simp

lemma lookup_ready: "lookup_or False m k \<longleftrightarrow> k \<in> ready_set m"
  by (simp add: ready_set_def)

lemma checkReady_spec:
  assumes "checkReady n ds (m, ch) = (m', ch')"
  shows "if set ds \<subseteq> ready_set m \<or> n \<notin> ready_set m then ready_set m' = ready_set m \<and> ch' = ch
         else ready_set m' = ready_set m - {n} \<and> ch'"
  using assms
proof (induction ds arbitrary: m)
  case (Cons d ds)
  show ?case
  proof (cases "d \<in> ready_set m")
    case True
    then have "checkReady n ds (touch d m, ch) = (m', ch')" using Cons.prems by (simp add: lookup_ready Let_def)
    from Cons.IH [OF this] True show ?thesis by simp
  next
    case False
    then show ?thesis using Cons.prems by (auto simp: lookup_ready Let_def split: if_splits)
  qed
qed simp

lemma readyFold_spec:
  assumes "foldl (\<lambda>acc (n, ds). checkReady n ds acc) (m, ch) d = (m', ch')"
  shows "ready_set m' \<subseteq> ready_set m \<and> (ch' \<longleftrightarrow> ch \<or> ready_set m' \<noteq> ready_set m)
    \<and> (ready_set m' = ready_set m \<longrightarrow> (\<forall>(n, ds) \<in> set d. n \<in> ready_set m \<longrightarrow> set ds \<subseteq> ready_set m))
    \<and> (\<forall>S \<subseteq> ready_set m. (\<forall>(n, ds) \<in> set d. n \<in> S \<longrightarrow> set ds \<subseteq> S) \<longrightarrow> S \<subseteq> ready_set m')"
  using assms
proof (induction d arbitrary: m ch)
  case (Cons a d)
  obtain n ds where a: "a = (n, ds)" by fastforce
  obtain m1 ch1 where c: "checkReady n ds (m, ch) = (m1, ch1)" by fastforce
  note s = checkReady_spec [OF c]
  have "foldl (\<lambda>acc (n, ds). checkReady n ds acc) (m1, ch1) d = (m', ch')" using Cons.prems a c by simp
  note ih = Cons.IH [OF this]
  show ?case
  proof (cases "set ds \<subseteq> ready_set m \<or> n \<notin> ready_set m")
    case True
    then show ?thesis using s ih a by auto
  next
    case False
    then have m1: "ready_set m1 = ready_set m - {n}" ch1 using s by auto
    then have sub: "ready_set m' \<subseteq> ready_set m - {n}" using ih by simp
    then have ne: "ready_set m' \<noteq> ready_set m" using False by auto
    have "S \<subseteq> ready_set m'" if "S \<subseteq> ready_set m" "\<forall>(n, ds) \<in> set (a # d). n \<in> S \<longrightarrow> set ds \<subseteq> S" for S
    proof -
      have "n \<notin> S" using that False a by auto
      then have "S \<subseteq> ready_set m1" using that(1) m1(1) by auto
      moreover have "\<forall>(n, ds) \<in> set d. n \<in> S \<longrightarrow> set ds \<subseteq> S" using that(2) by simp
      ultimately show ?thesis using ih by blast
    qed
    moreover have ch' using ih m1 by simp
    ultimately show ?thesis using sub ne by blast
  qed
qed simp

text \<open>The \<^verbatim>\<open>do ... while (changed)\<close> loop; a pass that changes something takes a target out of the ready ones.\<close>

function readyLoop :: "string list umap \<Rightarrow> bool umap \<Rightarrow> bool umap" where
  "readyLoop d m = (case readyPass d m of (m', changed) \<Rightarrow> if changed then readyLoop d m' else m')"
  by pat_completeness auto
termination readyLoop
proof (relation "measure (\<lambda>(d, m). card (ready_set m))", goal_cases)
  case (2 d m m' changed)
  then have "foldl (\<lambda>acc (n, ds). checkReady n ds acc) (m, False) d = (m', True)"
    by (simp add: readyPass_def)
  from readyFold_spec [OF this] have "ready_set m' \<subset> ready_set m" by auto
  then show ?case by (simp add: psubset_card_mono)
qed simp

declare readyLoop.simps [simp del]

definition updateTargetReadyStatus :: "('t, 'j) sequencer \<Rightarrow> ('t, 'j) sequencer" where
  "updateTargetReadyStatus s =
     (let m = foldl (\<lambda>m t. AList.update (tg_name t) True m) (sq_targetReadyStatus s) (sq_targets s)
      in s\<lparr>sq_targetReadyStatus := readyLoop (sq_targetDependencies s) m\<rparr>)"

text \<open>A rejected dependency still changes the sequencer: the call returns the state in both cases.\<close>

definition addTargetDependency ::
    "string \<Rightarrow> string \<Rightarrow> ('t, 'j) sequencer \<Rightarrow> exn option \<times> ('t, 'j) sequencer" where
  "addTargetDependency targetName dependsOn s =
     (let dependencies = lookup_or [] (sq_targetDependencies s) targetName;
          dependencies = (if dependsOn \<notin> set dependencies then dependencies @ [dependsOn] else dependencies);
          d = AList.update targetName dependencies (sq_targetDependencies s)
      in case findCyclicDependency d of
           Some cycle \<Rightarrow>
             (Some (RuntimeError (''Cyclic dependency detected in target: '' @ cycle)),
              s\<lparr>sq_targetDependencies := AList.update targetName (butlast dependencies) d\<rparr>)
         | None \<Rightarrow> (None, updateTargetReadyStatus (s\<lparr>sq_targetDependencies := d\<rparr>)))"

definition removeTargetDependency :: "string \<Rightarrow> string \<Rightarrow> ('t, 'j) sequencer \<Rightarrow> ('t, 'j) sequencer" where
  "removeTargetDependency targetName dependsOn s =
     (let deps = lookup_or [] (sq_targetDependencies s) targetName
      in updateTargetReadyStatus
           (s\<lparr>sq_targetDependencies :=
                AList.update targetName (removeAll dependsOn deps) (sq_targetDependencies s)\<rparr>))"

definition isTargetReady :: "string \<Rightarrow> ('t, 'j) sequencer \<Rightarrow> bool" where
  "isTargetReady targetName s = lookup_or False (sq_targetReadyStatus s) targetName"

definition getTargetDependencies :: "string \<Rightarrow> ('t, 'j) sequencer \<Rightarrow> string list" where
  "getTargetDependencies targetName s = lookup_or [] (sq_targetDependencies s) targetName"

section \<open>Order of the targets\<close>

text \<open>
  \<^verbatim>\<open>reorderTargetsByDependencies\<close>. The targets have been moved out of \<open>targets_\<close> before the visits, so
  the lookup of a dependency finds nothing and a visit pushes its own target only. A target whose
  name was visited already stays behind and is destroyed with the local vector.
\<close>

fun visitTargets :: "('t, 'j) target list \<Rightarrow> string list \<Rightarrow> ('t, 'j) target list \<Rightarrow> ('t, 'j) target list" where
  "visitTargets [] visited stack = stack"
| "visitTargets (target # rest) visited stack =
     (if tg_name target \<in> set visited then visitTargets rest visited stack
      else visitTargets rest (tg_name target # visited) (target # stack))"

definition reorderTargetsByDependencies :: "('t, 'j) sequencer \<Rightarrow> ('t, 'j) sequencer" where
  "reorderTargetsByDependencies s = s\<lparr>sq_targets := visitTargets (sq_targets s) [] []\<rparr>"

text \<open>\<^verbatim>\<open>std::sort\<close> gives some sorted permutation; the model takes the stable one.\<close>

definition reorderTargetsByPriority :: "('t, 'j) sequencer \<Rightarrow> ('t, 'j) sequencer" where
  "reorderTargetsByPriority s =
     s\<lparr>sq_targets :=
         sort_key (\<lambda>t. length (lookup_or [] (sq_targetDependencies s) (tg_name t))) (sq_targets s)\<rparr>"

definition setSchedulingStrategy :: "SchedulingStrategy \<Rightarrow> ('t, 'j) sequencer \<Rightarrow> ('t, 'j) sequencer" where
  "setSchedulingStrategy strategy s =
     (let s = s\<lparr>sq_schedulingStrategy := strategy\<rparr>
      in case strategy of
           ByDependencies \<Rightarrow> reorderTargetsByDependencies s
         | ByPriority \<Rightarrow> reorderTargetsByPriority s
         | FIFO \<Rightarrow> s)"

definition observability_key :: "int \<Rightarrow> ('t, 'j) target \<Rightarrow> nat \<times> int \<times> real" where
  "observability_key now t =
     (if isObservable now t then 0 else 1, - cfg_priority (tg_astroConfig t), getRemainingExposureTime t)"

definition sortTargetsByObservability :: "int \<Rightarrow> ('t, 'j) sequencer \<Rightarrow> ('t, 'j) sequencer" where
  "sortTargetsByObservability now s = s\<lparr>sq_targets := sort_key (observability_key now) (sq_targets s)\<rparr>"

definition getNextObservableTarget :: "int \<Rightarrow> ('t, 'j) sequencer \<Rightarrow> ('t, 'j) target option" where
  "getNextObservableTarget now s =
     find (\<lambda>t. tg_status t = TPending \<and> isObservable now t \<and> \<not> areExposurePlansComplete t) (sq_targets s)"

definition checkMeridianFlips :: "('t, 'j) sequencer \<Rightarrow> string" where
  "checkMeridianFlips s =
     (case find (\<lambda>t. tg_status t = TInProgress \<and> needsMeridianFlip t) (sq_targets s) of
        Some t \<Rightarrow> tg_name t
      | None \<Rightarrow> [])"

section \<open>Time estimates\<close>

text \<open>The cast of the estimate to whole seconds truncates; estimates are not negative.\<close>

definition getEstimatedCompletionTime :: "int \<Rightarrow> ('t, 'j) sequencer \<Rightarrow> int" where
  "getEstimatedCompletionTime now s =
     (let total = foldl (\<lambda>a t. if tg_status t \<noteq> TCompleted \<and> tg_status t \<noteq> TSkipped
                               then a + getRemainingExposureTime t else a) 0 (sq_targets s);
          remainingTargets = length (filter (\<lambda>t. tg_status t = TPending) (sq_targets s));
          total = total + real remainingTargets * 300
      in now + 1000000000 * \<lfloor>total\<rfloor>)"

definition canCompleteBeforeDawn :: "int \<Rightarrow> int \<Rightarrow> ('t, 'j) sequencer \<Rightarrow> bool" where
  "canCompleteBeforeDawn now dawnTime s \<longleftrightarrow> getEstimatedCompletionTime now s \<le> dawnTime"

fun completableBeforeDawn :: "int \<Rightarrow> int \<Rightarrow> ('t, 'j) target list \<Rightarrow> real \<Rightarrow> string list" where
  "completableBeforeDawn now dawnTime [] accumulatedTime = []"
| "completableBeforeDawn now dawnTime (t # ts) accumulatedTime =
     (if tg_status t = TCompleted \<or> tg_status t = TSkipped
      then completableBeforeDawn now dawnTime ts accumulatedTime
      else
        let targetTime = getRemainingExposureTime t + 300
        in if isObservable now t then
             (let effectiveEndTime = min (ow_setTime (tg_observability t)) dawnTime;
                  available = to_seconds (effectiveEndTime - now)
              in if accumulatedTime + targetTime \<le> real_of_int available
                 then tg_name t # completableBeforeDawn now dawnTime ts (accumulatedTime + targetTime)
                 else completableBeforeDawn now dawnTime ts accumulatedTime)
           else completableBeforeDawn now dawnTime ts accumulatedTime)"

definition getTargetsCompletableBeforeDawn :: "int \<Rightarrow> int \<Rightarrow> ('t, 'j) sequencer \<Rightarrow> string list" where
  "getTargetsCompletableBeforeDawn now dawnTime s = completableBeforeDawn now dawnTime (sq_targets s) 0"

section \<open>Execution\<close>

type_synonym ('t, 'j, 'w) target_run = "('t, 'j) target \<Rightarrow> 'w \<Rightarrow> exn option \<times> ('t, 'j) target \<times> 'w"

definition executeAll :: "(seq_event \<Rightarrow> 'w \<Rightarrow> 'w) \<Rightarrow> ('t, 'j) sequencer \<Rightarrow> 'w \<Rightarrow> (('t, 'j) sequencer \<times> 'w) result" where
  "executeAll notify s w =
     (if sq_state s \<noteq> SIdle then Inl (RuntimeError ''Sequence is not in Idle state'')
      else Inr (s\<lparr>sq_state := SRunning, sq_completedTargets := 0\<rparr>, notify SequenceStart w))"

definition state_code :: "SequenceState \<Rightarrow> int" where
  "state_code st = (case st of SIdle \<Rightarrow> 0 | SRunning \<Rightarrow> 1 | SPaused \<Rightarrow> 2 | SStopping \<Rightarrow> 3 | SStopped \<Rightarrow> 4)"

definition Sequencer_pause :: "('t, 'j) sequencer \<Rightarrow> ('t, 'j) sequencer result" where
  "Sequencer_pause s =
     (if sq_state s \<noteq> SRunning
      then Inl (RuntimeError (''Cannot pause sequence. Current state: '' @ show_int (state_code (sq_state s))))
      else Inr (s\<lparr>sq_state := SPaused\<rparr>))"

definition Sequencer_resume :: "('t, 'j) sequencer \<Rightarrow> ('t, 'j) sequencer result" where
  "Sequencer_resume s =
     (if sq_state s \<noteq> SPaused
      then Inl (RuntimeError (''Cannot resume sequence. Current state: '' @ show_int (state_code (sq_state s))))
      else Inr (s\<lparr>sq_state := SRunning\<rparr>))"

text \<open>The end of \<^verbatim>\<open>executeSequence\<close>, after its loop.\<close>

definition finishSequence :: "(seq_event \<Rightarrow> 'w \<Rightarrow> 'w) \<Rightarrow> ('t, 'j) sequencer \<Rightarrow> 'w \<Rightarrow> ('t, 'j) sequencer \<times> 'w" where
  "finishSequence notify s w = (s\<lparr>sq_state := SIdle\<rparr>, notify SequenceEnd w)"

text \<open>
  \<^verbatim>\<open>stop\<close> while the sequence thread, if there is one to join, is between two targets: it sees the
  state \<open>Stopping\<close>, leaves its loop and finishes.
\<close>

definition Sequencer_stop ::
    "bool \<Rightarrow> (seq_event \<Rightarrow> 'w \<Rightarrow> 'w) \<Rightarrow> ('t, 'j) sequencer \<Rightarrow> 'w \<Rightarrow> ('t, 'j) sequencer \<times> 'w" where
  "Sequencer_stop joinable notify s w =
     (if sq_state s = SIdle \<or> sq_state s = SStopped then (s, w)
      else
        let s = s\<lparr>sq_state := SStopping\<rparr>;
            (s, w) = (if joinable then finishSequence notify s w else (s, w))
        in (s\<lparr>sq_state := SIdle\<rparr>, notify SequenceEnd w))"

definition getNextExecutableTarget ::
    "('t, 'j) sequencer \<Rightarrow> (('t, 'j) target list \<times> ('t, 'j) target \<times> ('t, 'j) target list) option" where
  "getNextExecutableTarget s =
     (if sq_state s = SStopping then None
      else if sq_maxConcurrentTargets s > 0
              \<and> length (filter (\<lambda>t. tg_status t = TInProgress) (sq_targets s)) \<ge> sq_maxConcurrentTargets s
      then None
      else List.extract (\<lambda>t. tg_status t = TPending \<and> isTargetReady (tg_name t) s) (sq_targets s))"

definition handleTargetError ::
    "('t, 'j, 'w) target_run \<Rightarrow> (seq_event \<Rightarrow> 'w \<Rightarrow> 'w) \<Rightarrow> exn
     \<Rightarrow> ('t, 'j) target list \<Rightarrow> ('t, 'j) target \<Rightarrow> ('t, 'j) target list
     \<Rightarrow> ('t, 'j) sequencer \<Rightarrow> 'w \<Rightarrow> exn option \<times> ('t, 'j) sequencer \<times> 'w" where
  "handleTargetError runT notify e before t after s w =
     (case sq_recoveryStrategy s of
        RStop \<Rightarrow> (None, s\<lparr>sq_state := SStopping\<rparr>, notify (SequenceError (tg_name t) e) w)
      | RSkip \<Rightarrow>
        (None, s\<lparr>sq_targets := before @ Target_setStatus TSkipped t # after\<rparr>,
         notify (SequenceError (tg_name t) e) (notify (TargetEnded (tg_name t) TSkipped) w))
      | RRetry \<Rightarrow> (None, s, notify (SequenceError (tg_name t) e) w)
      | RAlternative \<Rightarrow>
        (case map_of (sq_alternativeTargets s) (tg_name t) of
           None \<Rightarrow> (None, s, notify (SequenceError (tg_name t) e) w)
         | Some alt \<Rightarrow>
           (case runT alt w of
              (r, alt', w') \<Rightarrow>
                let s' = s\<lparr>sq_alternativeTargets := AList.update (tg_name t) alt' (sq_alternativeTargets s)\<rparr>
                in case r of
                     None \<Rightarrow> (None, s', notify (SequenceError (tg_name t) e) w')
                   | Some e' \<Rightarrow> (Some e', s', w'))))"

text \<open>
  One round of the loop for the target that was chosen. An exception that leaves the handler ends
  the program: it is the first component of the result.
\<close>

definition executeTarget ::
    "('t, 'j, 'w) target_run \<Rightarrow> (seq_event \<Rightarrow> 'w \<Rightarrow> 'w)
     \<Rightarrow> ('t, 'j) target list \<Rightarrow> ('t, 'j) target \<Rightarrow> ('t, 'j) target list
     \<Rightarrow> ('t, 'j) sequencer \<Rightarrow> 'w \<Rightarrow> exn option \<times> ('t, 'j) sequencer \<times> 'w" where
  "executeTarget runT notify before t after s w =
     (let s = s\<lparr>sq_totalExecutions := sq_totalExecutions s + 1\<rparr>;
          w = notify (TargetStarted (tg_name t)) w
      in case runT t w of
           (Some e, t', w') \<Rightarrow>
             handleTargetError runT notify e before t' after (s\<lparr>sq_targets := before @ t' # after\<rparr>) w'
         | (None, t', w') \<Rightarrow>
             (let s = s\<lparr>sq_targets := before @ t' # after\<rparr>;
                  s = (if tg_status t' = TCompleted then
                         s\<lparr>sq_successfulExecutions := sq_successfulExecutions s + 1,
                           sq_completedTargets := sq_completedTargets s + 1\<rparr>
                       else if tg_status t' = TFailed then
                         s\<lparr>sq_failedExecutions := sq_failedExecutions s + 1,
                           sq_failedTargets := sq_failedTargets s + 1,
                           sq_failedTargetNames := sq_failedTargetNames s @ [tg_name t']\<rparr>
                       else s)
              in (None, s, notify (TargetEnded (tg_name t') (tg_status t')) w')))"

text \<open>The loop of \<^verbatim>\<open>executeSequence\<close>; a loop that never ends has the value \<open>None\<close>.\<close>

partial_function (option) executeLoop ::
    "('t, 'j, 'w) target_run \<Rightarrow> (seq_event \<Rightarrow> 'w \<Rightarrow> 'w) \<Rightarrow> ('t, 'j) sequencer \<Rightarrow> 'w
     \<Rightarrow> (exn option \<times> ('t, 'j) sequencer \<times> 'w) option" where
  "executeLoop runT notify s w =
     (case getNextExecutableTarget s of
        None \<Rightarrow> Some (None, s, w)
      | Some (before, t, after) \<Rightarrow>
        (case executeTarget runT notify before t after s w of
           (Some e, s', w') \<Rightarrow> Some (Some e, s', w')
         | (None, s', w') \<Rightarrow> executeLoop runT notify s' w'))"

declare executeLoop.simps [code]

definition executeSequence ::
    "('t, 'j, 'w) target_run \<Rightarrow> (seq_event \<Rightarrow> 'w \<Rightarrow> 'w) \<Rightarrow> ('t, 'j) sequencer \<Rightarrow> 'w
     \<Rightarrow> (exn option \<times> ('t, 'j) sequencer \<times> 'w) option" where
  "executeSequence runT notify s w =
     (case executeLoop runT notify s w of
        None \<Rightarrow> None
      | Some (Some e, s', w') \<Rightarrow> Some (Some e, s', w')
      | Some (None, s', w') \<Rightarrow>
        (case finishSequence notify s' w' of (s'', w'') \<Rightarrow> Some (None, s'', w'')))"

section \<open>Cycle detection\<close>

definition dep_nodes :: "string list umap \<Rightarrow> string set" where
  "dep_nodes d = keys d \<union> (\<Union>(k, ds) \<in> set d. set ds)"

abbreviation dep_edges :: "string list umap \<Rightarrow> (string \<times> string) set" where
  "dep_edges d \<equiv> edges (lookup_or [] d)"

lemma lookup_in_nodes: "set (lookup_or [] d x) \<subseteq> dep_nodes d"
proof (cases "map_of d x")
  case (Some ds)
  then show ?thesis using map_of_SomeD [OF Some] by (auto simp: lookup_or_def dep_nodes_def)
qed (simp add: lookup_or_def)

lemma hasCycleVisit_new:
  "x \<notin> set vis \<Longrightarrow> x \<notin> set st \<Longrightarrow>
   hasCycleVisit d x vis st =
     (case hasCycleScan d (lookup_or [] d x) (x # vis) (x # st) of
        (b, vis', st') \<Rightarrow> if b then (True, vis', st') else (False, vis', removeAll x st'))"
  by (simp add: hasCycleVisit.simps lookup_or_def split: option.split)

interpretation seq_cycles: cycle_search "lookup_or [] d" "dep_nodes d" "hasCycleVisit d"
  "\<lambda>x. hasCycleScan d" "\<lambda>xs vis st. findCycleRoots d xs vis st \<noteq> None"
proof
  show "finite (dep_nodes d)" by (auto simp: dep_nodes_def)
  show "x \<in> dep_nodes d \<Longrightarrow> set (lookup_or [] d x) \<subseteq> dep_nodes d" for x by (rule lookup_in_nodes)
qed (auto simp: hasCycleVisit_new split: prod.splits)

lemma findCyclicDependency_None: "findCyclicDependency d = None \<longleftrightarrow> acyclic (dep_edges d)"
proof -
  have "x \<in> set (map fst d)" if "lookup_or [] d x \<noteq> []" for x
    using that lookup_or_absent [of x d "[]"] by (auto simp: keys_def)
  then show ?thesis
    using seq_cycles.search_correct [of "map fst d" d] by (auto simp: findCyclicDependency_def dep_nodes_def keys_def)
qed

lemma update_same_edges:
  "lookup_or [] (AList.update k (lookup_or [] d k) d) = lookup_or [] d"
  by (rule ext) simp

lemma addTargetDependency_cases:
  fixes s :: "('t, 'j) sequencer" and a b :: string
  assumes "acyclic (dep_edges (sq_targetDependencies s))"
  defines "e \<equiv> insert (a, b) (dep_edges (sq_targetDependencies s))"
  shows "if acyclic e
         then \<exists>s'. addTargetDependency a b s = (None, s') \<and> dep_edges (sq_targetDependencies s') = e
         else \<exists>s' err. addTargetDependency a b s = (Some err, s')
                \<and> dep_edges (sq_targetDependencies s') = dep_edges (sq_targetDependencies s)"
proof -
  let ?d = "sq_targetDependencies s"
  let ?old = "lookup_or [] ?d a"
  let ?new = "if b \<notin> set ?old then ?old @ [b] else ?old"
  let ?d1 = "AList.update a ?new ?d"
  have e1: "dep_edges ?d1 = e" unfolding e_def by (auto split: if_splits)
  have e2: "dep_edges (AList.update a (butlast ?new) ?d1) = dep_edges ?d" if "b \<notin> set ?old"
    using that by (auto split: if_splits)
  show ?thesis
  proof (cases "acyclic e")
    case True
    then have "findCyclicDependency ?d1 = None" by (simp only: findCyclicDependency_None e1)
    then show ?thesis using True e1
      by (simp add: addTargetDependency_def Let_def updateTargetReadyStatus_def)
  next
    case False
    then obtain c where "findCyclicDependency ?d1 = Some c"
      using findCyclicDependency_None [of ?d1] e1 by auto
    moreover have "b \<notin> set ?old"
    proof
      assume "b \<in> set ?old"
      then have "e = dep_edges ?d" unfolding e_def by (intro insert_absorb) simp
      then show False using False assms(1) by simp
    qed
    ultimately show ?thesis using False e2 by (simp add: addTargetDependency_def Let_def)
  qed
qed

lemma removeTargetDependency_edges:
  "dep_edges (sq_targetDependencies (removeTargetDependency a b s))
     = dep_edges (sq_targetDependencies s) - {(a, b)}"
  by (auto simp: removeTargetDependency_def updateTargetReadyStatus_def Let_def split: if_splits)

text \<open>Client sessions on the dependency table.\<close>

inductive dep_reachable :: "('t, 'j) sequencer \<Rightarrow> bool" where
  start: "sq_targetDependencies s = [] \<Longrightarrow> dep_reachable s"
| add: "dep_reachable s \<Longrightarrow> dep_reachable (snd (addTargetDependency a b s))"
| remove: "dep_reachable s \<Longrightarrow> dep_reachable (removeTargetDependency a b s)"
| other: "dep_reachable s \<Longrightarrow> sq_targetDependencies s' = sq_targetDependencies s \<Longrightarrow> dep_reachable s'"

lemma dep_reachable_acyclic: "dep_reachable s \<Longrightarrow> acyclic (dep_edges (sq_targetDependencies s))"
proof (induction rule: dep_reachable.induct)
  case (start s)
  then show ?case by (simp add: edges_def acyclic_def)
next
  case (add s a b)
  then show ?case using addTargetDependency_cases [OF add.IH, of a b] by (auto split: if_splits)
next
  case (remove s a b)
  then show ?case by (auto simp: removeTargetDependency_edges intro: acyclic_subset)
qed simp

section \<open>Ready status\<close>

lemma readyLoop_spec:
  "ready_set (readyLoop d m) \<subseteq> ready_set m
   \<and> (\<forall>(n, ds) \<in> set d. n \<in> ready_set (readyLoop d m) \<longrightarrow> set ds \<subseteq> ready_set (readyLoop d m))
   \<and> (\<forall>S \<subseteq> ready_set m. (\<forall>(n, ds) \<in> set d. n \<in> S \<longrightarrow> set ds \<subseteq> S) \<longrightarrow> S \<subseteq> ready_set (readyLoop d m))"
proof (induction d m rule: readyLoop.induct)
  case (1 d m)
  obtain m' ch where p: "readyPass d m = (m', ch)" by fastforce
  note s = readyFold_spec [OF p [unfolded readyPass_def]]
  show ?case
  proof (cases ch)
    case True
    then have r: "readyLoop d m = readyLoop d m'" by (subst readyLoop.simps) (simp add: p)
    show ?thesis using "1.IH" [OF p [symmetric] True] s unfolding r by (meson subset_trans)
  next
    case False
    then have r: "readyLoop d m = m'" by (subst readyLoop.simps) (simp add: p)
    show ?thesis using s False unfolding r by auto
  qed
qed

lemma ready_set_init:
  "ready_set (foldl (\<lambda>m t. AList.update (tg_name t) True m) m ts) = ready_set m \<union> tg_name ` set ts"
  by (induction ts arbitrary: m) auto

lemma updateTargetReadyStatus_iff:
  assumes "distinct (map fst (sq_targetDependencies s))"
  shows "isTargetReady x (updateTargetReadyStatus s) \<longleftrightarrow>
    (\<forall>y. (x, y) \<in> (dep_edges (sq_targetDependencies s))\<^sup>* \<longrightarrow> y \<in> set (getTargetNames s) \<or> isTargetReady y s)"
proof -
  let ?d = "sq_targetDependencies s"
  let ?known = "ready_set (sq_targetReadyStatus s) \<union> tg_name ` set (sq_targets s)"
  let ?R = "ready_set (sq_targetReadyStatus (updateTargetReadyStatus s))"
  let ?S = "{x. \<forall>y. (x, y) \<in> (dep_edges ?d)\<^sup>* \<longrightarrow> y \<in> ?known}"
  have entry: "(n, ds) \<in> set ?d \<Longrightarrow> lookup_or [] ?d n = ds" for n ds
    using assms by (simp add: lookup_or_def)
  have spec: "?R \<subseteq> ?known" "\<forall>(n, ds) \<in> set ?d. n \<in> ?R \<longrightarrow> set ds \<subseteq> ?R"
    "\<And>S. S \<subseteq> ?known \<Longrightarrow> \<forall>(n, ds) \<in> set ?d. n \<in> S \<longrightarrow> set ds \<subseteq> S \<Longrightarrow> S \<subseteq> ?R"
    using readyLoop_spec [of ?d "foldl (\<lambda>m t. AList.update (tg_name t) True m) (sq_targetReadyStatus s) (sq_targets s)"]
    by (simp_all add: updateTargetReadyStatus_def Let_def ready_set_init)
  have "?S \<subseteq> ?R"
  proof (rule spec(3))
    show "\<forall>(n, ds) \<in> set ?d. n \<in> ?S \<longrightarrow> set ds \<subseteq> ?S"
    proof clarify
      fix n ds z y
      assume n: "(n, ds) \<in> set ?d" "\<forall>y. (n, y) \<in> (dep_edges ?d)\<^sup>* \<longrightarrow> y \<in> ?known" "z \<in> set ds"
        "(z, y) \<in> (dep_edges ?d)\<^sup>*" "y \<notin> tg_name ` set (sq_targets s)"
      then have "(n, y) \<in> (dep_edges ?d)\<^sup>*" using entry by (auto intro: converse_rtrancl_into_rtrancl)
      then show "y \<in> ready_set (sq_targetReadyStatus s)" using n(2,5) by auto
    qed
  qed auto
  moreover have "?R \<subseteq> ?S"
  proof clarify
    fix x y
    assume "x \<in> ?R" "(x, y) \<in> (dep_edges ?d)\<^sup>*" "y \<notin> tg_name ` set (sq_targets s)"
    moreover have "b \<in> ?R" if "a \<in> ?R" "(a, b) \<in> dep_edges ?d" for a b
    proof -
      have "a \<in> keys ?d" using that(2) lookup_or_absent [of a ?d "[]"] by fastforce
      then obtain ds where ds: "map_of ?d a = Some ds" by (rule keysE)
      then have "b \<in> set ds" using that(2) by (simp add: lookup_or_def)
      then show ?thesis using spec(2) that(1) map_of_SomeD [OF ds] by fastforce
    qed
    ultimately have "y \<in> ?R" using closed_rtrancl [of ?R "dep_edges ?d" x y] by blast
    then show "y \<in> ready_set (sq_targetReadyStatus s)"
      using spec(1) \<open>y \<notin> tg_name ` set (sq_targets s)\<close> by auto
  qed
  ultimately have "?R = ?S" by blast
  then show ?thesis
    by (auto simp: isTargetReady_def lookup_ready getTargetNames_def set_eq_iff)
qed

section \<open>The execution loop against the target interface\<close>

text \<open>
  What the sequencer relies on when it calls \<^verbatim>\<open>Target::execute\<close>: no exception escapes, the target
  ends in a final status and keeps its name.
\<close>

definition final_status :: "TargetStatus \<Rightarrow> bool" where
  "final_status st \<longleftrightarrow> st = TCompleted \<or> st = TFailed \<or> st = TSkipped"

locale target_runner =
  fixes runT :: "('t, 'j, 'w) target_run"
  assumes runT_quiet: "runT t w = (r, t', w') \<Longrightarrow> r = None"
    and runT_final: "runT t w = (r, t', w') \<Longrightarrow> final_status (tg_status t')"
    and runT_name: "runT t w = (r, t', w') \<Longrightarrow> tg_name t' = tg_name t"

text \<open>The targets the loop will run: pending and marked ready.\<close>

definition runnable :: "bool umap \<Rightarrow> ('t, 'j) target \<Rightarrow> bool" where
  "runnable m t \<longleftrightarrow> tg_status t = TPending \<and> lookup_or False m (tg_name t)"

definition ran :: "bool umap \<Rightarrow> ('t, 'j) target \<Rightarrow> ('t, 'j) target \<Rightarrow> bool" where
  "ran m t t' \<longleftrightarrow> (if runnable m t then final_status (tg_status t') \<and> tg_name t' = tg_name t else t' = t)"

lemma ran_refl: "\<not> runnable m t \<Longrightarrow> ran m t t"
  by (simp add: ran_def)

lemma ran_trans: "ran m a b \<Longrightarrow> ran m b c \<Longrightarrow> ran m a c"
  by (auto simp: ran_def runnable_def final_status_def split: if_splits)

lemma ran_done: "list_all (\<lambda>t. \<not> runnable m t) ts \<Longrightarrow> list_all2 (ran m) ts ts"
  by (induction ts) (auto simp: ran_def)

text \<open>No concurrency limit stands in the way.\<close>

definition has_slot :: "('t, 'j) sequencer \<Rightarrow> bool" where
  "has_slot s \<longleftrightarrow> sq_maxConcurrentTargets s = 0
     \<or> length (filter (\<lambda>t. tg_status t = TInProgress) (sq_targets s)) < sq_maxConcurrentTargets s"

lemma getNext_None:
  "sq_state s \<noteq> SStopping \<Longrightarrow> has_slot s \<Longrightarrow>
   getNextExecutableTarget s = None \<longleftrightarrow> list_all (\<lambda>t. \<not> runnable (sq_targetReadyStatus s) t) (sq_targets s)"
  by (auto simp: getNextExecutableTarget_def has_slot_def isTargetReady_def runnable_def
      extract_None_iff list_all_iff)

lemma getNext_Some:
  assumes "getNextExecutableTarget s = Some (before, t, after)"
  shows "sq_targets s = before @ t # after" "runnable (sq_targetReadyStatus s) t"
    "list_all (\<lambda>t. \<not> runnable (sq_targetReadyStatus s) t) before"
proof -
  have "List.extract (\<lambda>t. tg_status t = TPending \<and> isTargetReady (tg_name t) s) (sq_targets s) = Some (before, t, after)"
    using assms by (auto simp: getNextExecutableTarget_def split: if_splits)
  then show "sq_targets s = before @ t # after" "runnable (sq_targetReadyStatus s) t"
    "list_all (\<lambda>t. \<not> runnable (sq_targetReadyStatus s) t) before"
    by (auto simp: extract_Some_iff isTargetReady_def runnable_def list_all_iff)
qed

context target_runner
begin

lemma executeTarget_step:
  assumes "getNextExecutableTarget s = Some (before, t, after)"
  obtains t' s' w' where "executeTarget runT notify before t after s w = (None, s', w')"
    "sq_targets s' = before @ t' # after" "final_status (tg_status t')" "tg_name t' = tg_name t"
    "sq_state s' = sq_state s" "sq_targetReadyStatus s' = sq_targetReadyStatus s"
    "sq_maxConcurrentTargets s' = sq_maxConcurrentTargets s" "sq_totalExecutions s' = sq_totalExecutions s + 1"
    "sq_targetDependencies s' = sq_targetDependencies s"
    "sq_completedTargets s' + sq_failedTargets s' = sq_completedTargets s + sq_failedTargets s
       + (if tg_status t' = TSkipped then 0 else 1)"
proof -
  obtain r t' w1 where r: "runT t (notify (TargetStarted (tg_name t)) w) = (r, t', w1)" by (rule prod_cases3)
  have q: "r = None" "final_status (tg_status t')" "tg_name t' = tg_name t"
    using runT_quiet [OF r] runT_final [OF r] runT_name [OF r] by auto
  obtain r2 s2 w2 where x: "executeTarget runT notify before t after s w = (r2, s2, w2)" by (rule prod_cases3)
  show thesis
    by (rule that [of s2 w2 t'])
      (use x r q in \<open>auto simp: executeTarget_def Let_def final_status_def split: if_splits\<close>)
qed

lemma executeLoop_returns:
  assumes "sq_state s \<noteq> SStopping" "has_slot s"
  shows "\<exists>s' w'. executeLoop runT notify s w = Some (None, s', w')
    \<and> list_all2 (ran (sq_targetReadyStatus s)) (sq_targets s) (sq_targets s')
    \<and> sq_totalExecutions s' = sq_totalExecutions s + length (filter (runnable (sq_targetReadyStatus s)) (sq_targets s))
    \<and> sq_targetDependencies s' = sq_targetDependencies s \<and> sq_targetReadyStatus s' = sq_targetReadyStatus s"
  using assms
proof (induction "length (filter (runnable (sq_targetReadyStatus s)) (sq_targets s))" arbitrary: s w rule: less_induct)
  case less
  let ?m = "sq_targetReadyStatus s"
  show ?case
  proof (cases "getNextExecutableTarget s")
    case None
    then have "executeLoop runT notify s w = Some (None, s, w)" by (subst executeLoop.simps) simp
    moreover have l: "list_all (\<lambda>t. \<not> runnable ?m t) (sq_targets s)" using None getNext_None [OF less.prems] by simp
    moreover have "filter (runnable ?m) (sq_targets s) = []" using l by (simp add: list_all_iff filter_empty_conv)
    ultimately show ?thesis using ran_done by simp
  next
    case (Some x)
    then obtain before t after where n: "getNextExecutableTarget s = Some (before, t, after)" by (cases x) auto
    note g = getNext_Some [OF n]
    obtain t1 s1 w1 where e: "executeTarget runT notify before t after s w = (None, s1, w1)"
      and s1: "sq_targets s1 = before @ t1 # after" "final_status (tg_status t1)" "tg_name t1 = tg_name t"
        "sq_state s1 = sq_state s" "sq_targetReadyStatus s1 = ?m"
        "sq_maxConcurrentTargets s1 = sq_maxConcurrentTargets s" "sq_totalExecutions s1 = sq_totalExecutions s + 1"
        "sq_targetDependencies s1 = sq_targetDependencies s"
      by (rule executeTarget_step [OF n, of notify w])
    have np: "\<not> runnable ?m t1" "tg_status t1 \<noteq> TInProgress" "tg_status t \<noteq> TInProgress"
      using s1(2) g(2) by (auto simp: runnable_def final_status_def)
    have len: "length (filter (runnable ?m) (sq_targets s)) = Suc (length (filter (runnable ?m) (sq_targets s1)))"
      using g(1,2) s1(1) np(1) by simp
    have slot: "has_slot s1" using less.prems(2) s1(1,6) g(1) np(2,3) by (simp add: has_slot_def)
    obtain s' w' where r: "executeLoop runT notify s1 w1 = Some (None, s', w')"
      "list_all2 (ran ?m) (sq_targets s1) (sq_targets s')"
      "sq_totalExecutions s' = sq_totalExecutions s1 + length (filter (runnable ?m) (sq_targets s1))"
      "sq_targetDependencies s' = sq_targetDependencies s1" "sq_targetReadyStatus s' = sq_targetReadyStatus s1"
      using less.hyps [of s1 w1] len slot less.prems(1) s1(4,5) by auto
    have "executeLoop runT notify s w = Some (None, s', w')"
      using n e r(1) by (subst executeLoop.simps) simp
    moreover have "list_all2 (ran ?m) (sq_targets s) (sq_targets s')"
    proof -
      have "ran ?m t t1" using g(2) s1(2,3) by (simp add: ran_def)
      moreover obtain us z zs where d: "sq_targets s' = us @ z # zs" "list_all2 (ran ?m) before us"
        "ran ?m t1 z" "list_all2 (ran ?m) after zs"
        using r(2) s1(1) by (auto simp: list_all2_append1 list_all2_Cons1)
      ultimately have "ran ?m t z" by (blast intro: ran_trans)
      then show ?thesis using g(1) d by (simp add: list_all2_appendI)
    qed
    ultimately show ?thesis using r(3-5) s1(5,7,8) len by simp
  qed
qed

end

definition Target_call ::
    "('j, 'w) task_env \<Rightarrow> 'j json_api \<Rightarrow> (target_event \<Rightarrow> 'w \<Rightarrow> 'w) \<Rightarrow> ('j task, 'j, 'w) target_run" where
  "Target_call env api notify t w = (None, Target_execute (Task_call env api) getStatus getUUID notify t w)"

interpretation target_exec: target_runner "Target_call env api notify"
proof
  fix t t' :: "('a task, 'a) target" and w w' :: 'b and r
  assume c: "Target_call env api notify t w = (r, t', w')"
  then show "r = None" by (simp add: Target_call_def)
  have e: "Target_execute (Task_call env api) getStatus getUUID notify t w = (t', w')"
    using c by (simp add: Target_call_def)
  show "final_status (tg_status t')"
  proof (cases "tg_enabled t")
    case True
    then show ?thesis using task_exec.Target_execute_outcome [OF e] by (auto simp: final_status_def)
  next
    case False
    then show ?thesis using e by (auto simp: Target_execute_def Target_setStatus_def Let_def final_status_def)
  qed
  show "tg_name t' = tg_name t"
    using task_exec.Target_execute_name [of env api notify t w] e by simp
qed

section \<open>Control: clients and the sequence thread\<close>

text \<open>
  The accesses to the atomic \<open>state_\<close> by one client thread and the sequence thread, interleaved.
  \<^verbatim>\<open>stop\<close> reads the state, stores \<open>Stopping\<close>, joins the thread, stores \<open>Idle\<close>: its position is
  \<open>ct_pc\<close>. \<open>ct_loops\<close> counts the live runs of \<^verbatim>\<open>executeSequence\<close>, \<open>ct_starts\<close> and \<open>ct_ends\<close> the
  start and end notifications.
\<close>

datatype stop_pc = NotStopping | StopRead | StopJoin

record control =
  ct_state :: SequenceState
  ct_pc :: stop_pc
  ct_loops :: nat
  ct_starts :: nat
  ct_ends :: nat

definition ct_init :: control where
  "ct_init = \<lparr>ct_state = SIdle, ct_pc = NotStopping, ct_loops = 0, ct_starts = 0, ct_ends = 0\<rparr>"

inductive ctl_step :: "control \<Rightarrow> control \<Rightarrow> bool" where
  executeAll: "ct_pc c = NotStopping \<Longrightarrow> ct_state c = SIdle \<Longrightarrow>
    ctl_step c (c\<lparr>ct_state := SRunning, ct_loops := ct_loops c + 1, ct_starts := ct_starts c + 1\<rparr>)"
| pause: "ct_pc c = NotStopping \<Longrightarrow> ct_state c = SRunning \<Longrightarrow> ctl_step c (c\<lparr>ct_state := SPaused\<rparr>)"
| resume: "ct_pc c = NotStopping \<Longrightarrow> ct_state c = SPaused \<Longrightarrow> ctl_step c (c\<lparr>ct_state := SRunning\<rparr>)"
| stop_read: "ct_pc c = NotStopping \<Longrightarrow> ct_state c \<noteq> SIdle \<Longrightarrow> ct_state c \<noteq> SStopped \<Longrightarrow>
    ctl_step c (c\<lparr>ct_pc := StopRead\<rparr>)"
| stop_store: "ct_pc c = StopRead \<Longrightarrow> ctl_step c (c\<lparr>ct_pc := StopJoin, ct_state := SStopping\<rparr>)"
| stop_end: "ct_pc c = StopJoin \<Longrightarrow> ct_loops c = 0 \<Longrightarrow>
    ctl_step c (c\<lparr>ct_pc := NotStopping, ct_state := SIdle, ct_ends := ct_ends c + 1\<rparr>)"
| thread_end: "ct_loops c > 0 \<Longrightarrow>
    ctl_step c (c\<lparr>ct_state := SIdle, ct_loops := ct_loops c - 1, ct_ends := ct_ends c + 1\<rparr>)"

inductive_cases ctl_stepE: "ctl_step c c'"

inductive_simps ctl_step_from_idle:
  "ctl_step \<lparr>ct_state = SIdle, ct_pc = NotStopping, ct_loops = 0, ct_starts = n, ct_ends = m\<rparr> c'"

text \<open>A stop in progress or still possible for the current run.\<close>

definition stop_pending :: "control \<Rightarrow> nat" where
  "stop_pending c = (if ct_pc c \<noteq> NotStopping \<or> ct_state c \<noteq> SIdle then 1 else 0)"

definition ctl_inv :: "control \<Rightarrow> bool" where
  "ctl_inv c \<longleftrightarrow> ct_loops c \<le> 1 \<and> ct_state c \<noteq> SStopped
     \<and> (ct_loops c = 1 \<longrightarrow> ct_state c \<noteq> SIdle)
     \<and> (ct_loops c = 0 \<and> ct_pc c = NotStopping \<longrightarrow> ct_state c = SIdle)
     \<and> (ct_loops c = 0 \<and> ct_pc c = StopRead \<longrightarrow> ct_state c = SIdle)
     \<and> ct_starts c \<le> ct_ends c + ct_loops c
     \<and> ct_ends c + ct_loops c + stop_pending c \<le> 2 * ct_starts c"

lemma ctl_inv_init: "ctl_inv ct_init"
  by (simp add: ctl_inv_def ct_init_def stop_pending_def)

lemma ctl_inv_step: "ctl_step c c' \<Longrightarrow> ctl_inv c \<Longrightarrow> ctl_inv c'"
  by (induction rule: ctl_step.induct)
    (auto simp: ctl_inv_def stop_pending_def split: if_splits)

lemma ctl_inv_reachable: "ctl_step\<^sup>*\<^sup>* ct_init c \<Longrightarrow> ctl_inv c"
  by (induction rule: rtranclp_induct) (auto intro: ctl_inv_init ctl_inv_step)

section \<open>Order and time lemmas\<close>

lemma visitTargets_distinct:
  "distinct (map tg_name ts) \<Longrightarrow> set (map tg_name ts) \<inter> set vis = {} \<Longrightarrow> visitTargets ts vis st = rev ts @ st"
  by (induction ts vis st rule: visitTargets.induct) auto

lemma visitTargets_names:
  "distinct (map tg_name st) \<Longrightarrow> set (map tg_name st) \<subseteq> set vis \<Longrightarrow>
   distinct (map tg_name (visitTargets ts vis st))
   \<and> set (map tg_name (visitTargets ts vis st)) = set (map tg_name st) \<union> (set (map tg_name ts) - set vis)"
proof (induction ts vis st rule: visitTargets.induct)
  case (2 target rest visited stack)
  show ?case
  proof (cases "tg_name target \<in> set visited")
    case True
    then show ?thesis using 2(1) 2(3,4) by auto
  next
    case False
    then have "distinct (map tg_name (target # stack))"
      "set (map tg_name (target # stack)) \<subseteq> set (tg_name target # visited)" using 2(3,4) by auto
    from 2(2) [OF False this] False show ?thesis by (simp del: set_map) auto
  qed
qed simp

lemma to_seconds_mono: "a \<le> b \<Longrightarrow> to_seconds a \<le> to_seconds b"
  by (auto simp: to_seconds_def zdiv_mono1) (meson dual_order.trans neg_le_0_iff_le pos_imp_zdiv_nonneg_iff zero_less_numeral linorder_not_le order_less_imp_le)

lemma completable_bound:
  assumes "\<forall>t \<in> set ts. 0 \<le> getRemainingExposureTime t" "completableBeforeDawn now dawn ts acc \<noteq> []"
  shows "acc + 300 * real (length (completableBeforeDawn now dawn ts acc)) \<le> real_of_int (to_seconds (dawn - now))"
  using assms
proof (induction ts arbitrary: acc)
  case (Cons t ts)
  let ?t = "getRemainingExposureTime t + 300"
  let ?avail = "to_seconds (min (ow_setTime (tg_observability t)) dawn - now)"
  have av: "real_of_int ?avail \<le> real_of_int (to_seconds (dawn - now))" by (simp add: to_seconds_mono)
  show ?case
  proof (cases "tg_status t \<noteq> TCompleted \<and> tg_status t \<noteq> TSkipped \<and> isObservable now t \<and> acc + ?t \<le> real_of_int ?avail")
    case True
    then have e: "completableBeforeDawn now dawn (t # ts) acc = tg_name t # completableBeforeDawn now dawn ts (acc + ?t)"
      by (simp add: Let_def)
    show ?thesis
    proof (cases "completableBeforeDawn now dawn ts (acc + ?t) = []")
      case em: True
      then show ?thesis using True e av Cons.prems(1) by simp
    next
      case False
      then have "acc + ?t + 300 * real (length (completableBeforeDawn now dawn ts (acc + ?t))) \<le> real_of_int (to_seconds (dawn - now))"
        using Cons.IH Cons.prems(1) by simp
      then show ?thesis using e Cons.prems(1) by simp
    qed
  next
    case False
    then have "completableBeforeDawn now dawn (t # ts) acc = completableBeforeDawn now dawn ts acc"
      by (auto simp: Let_def)
    then show ?thesis using Cons by simp
  qed
qed simp

lemma completable_not_set:
  assumes "n \<in> set (completableBeforeDawn now dawn ts acc)" "0 \<le> acc" "\<forall>t \<in> set ts. 0 \<le> getRemainingExposureTime t"
  shows "\<exists>t \<in> set ts. tg_name t = n \<and> now < ow_setTime (tg_observability t)"
  using assms
proof (induction ts arbitrary: acc)
  case (Cons t ts)
  let ?t = "getRemainingExposureTime t + 300"
  let ?avail = "to_seconds (min (ow_setTime (tg_observability t)) dawn - now)"
  show ?case
  proof (cases "tg_status t \<noteq> TCompleted \<and> tg_status t \<noteq> TSkipped \<and> isObservable now t \<and> acc + ?t \<le> real_of_int ?avail")
    case True
    then have "0 < ?avail" using Cons.prems(2,3) by auto
    then have "now < ow_setTime (tg_observability t)" by (auto simp: to_seconds_def min_def split: if_splits)
    then show ?thesis using True Cons.IH [of "acc + ?t"] Cons.prems by (auto simp: Let_def)
  next
    case False
    then have "completableBeforeDawn now dawn (t # ts) acc = completableBeforeDawn now dawn ts acc"
      by (auto simp: Let_def)
    then show ?thesis using Cons.IH [of acc] Cons.prems by auto
  qed
qed simp

section \<open>Properties\<close>

text \<open>A sequencer without targets, and one with three named targets without tasks.\<close>

definition Sequencer_new :: "('t, 'j) sequencer" where
  "Sequencer_new =
     \<lparr>sq_targets = [], sq_state = SIdle, sq_completedTargets = 0, sq_totalTargets = 0, sq_failedTargets = 0,
      sq_failedTargetNames = [], sq_schedulingStrategy = FIFO, sq_recoveryStrategy = RStop,
      sq_maxConcurrentTargets = 0, sq_globalTimeout = 0, sq_alternativeTargets = [],
      sq_targetDependencies = [], sq_targetReadyStatus = [], sq_totalExecutions = 0,
      sq_successfulExecutions = 0, sq_failedExecutions = 0, sq_minimumAltitude = 15\<rparr>"

definition three_targets :: "(string task, string) sequencer" where
  "three_targets =
     Sequencer_new\<lparr>sq_targets := map (\<lambda>n. (demo_target [])\<lparr>tg_name := n, tg_uuid := n, tg_tasks := []\<rparr>) [''A'', ''B'', ''C''],
       sq_totalTargets := 3\<rparr>"

text \<open>A sequencer whose only target is up and sets in 15 minutes.\<close>

definition evening :: "(string task, string) sequencer" where
  "evening =
     Sequencer_new\<lparr>sq_targets := [(demo_target [])\<lparr>
         tg_observability := \<lparr>ow_riseTime = 0, ow_transitTime = 0, ow_setTime = 900000000000, ow_maxAltitude = 60,
            ow_transitAzimuth = 180, ow_isCircumpolar = False, ow_neverRises = False\<rparr>,
         tg_currentAltAz := \<lparr>hc_altitude = 45, hc_azimuth = 180\<rparr>\<rparr>]\<rparr>"

text \<open>
  C1: the dependency relation between targets never has a cycle. A dependency is accepted if
  and only if the relation stays acyclic with it; then it is part of the relation, and otherwise the
  call throws and leaves the relation as it was.
\<close>

theorem Sequencer_acyclic:
  assumes "dep_reachable s"
  shows "acyclic (dep_edges (sq_targetDependencies s))
    \<and> (case addTargetDependency a b s of (err, s') \<Rightarrow>
         (err = None \<longleftrightarrow> acyclic (insert (a, b) (dep_edges (sq_targetDependencies s))))
         \<and> dep_edges (sq_targetDependencies s') =
             (if err = None then insert (a, b) (dep_edges (sq_targetDependencies s))
              else dep_edges (sq_targetDependencies s)))"
  using dep_reachable_acyclic [OF assms] addTargetDependency_cases [OF dep_reachable_acyclic [OF assms], of a b]
  by (auto split: if_splits)

theorem Sequencer_acyclic_witness:
  "fst (addTargetDependency ''B'' ''A'' (snd (addTargetDependency ''A'' ''B'' three_targets))) \<noteq> None"
proof -
  let ?s = "snd (addTargetDependency ''A'' ''B'' three_targets)"
  have r: "dep_reachable ?s"
    by (intro dep_reachable.intros) (simp add: three_targets_def Sequencer_new_def)
  have "sq_targetDependencies ?s = [(''A'', [''B''])]" by code_simp
  then have "(''A'', ''B'') \<in> dep_edges (sq_targetDependencies ?s)" by (simp add: lookup_or_def)
  then have "\<not> acyclic (insert (''B'', ''A'') (dep_edges (sq_targetDependencies ?s)))" by auto
  then show ?thesis using Sequencer_acyclic [OF r, of "''B''" "''A''"] by (auto split: prod.splits)
qed

text \<open>
  C8: the ready status is a greatest fixed point. After an update a target is ready if and
  only if everything it depends on, directly or indirectly and itself included, is the name of a
  target or was marked ready before. Whether a dependency has been completed plays no role.
\<close>

theorem Sequencer_ready_status:
  assumes "distinct (map fst (sq_targetDependencies s))"
  shows "isTargetReady x (updateTargetReadyStatus s) \<longleftrightarrow>
    (\<forall>y. (x, y) \<in> (dep_edges (sq_targetDependencies s))\<^sup>* \<longrightarrow> y \<in> set (getTargetNames s) \<or> isTargetReady y s)"
  by (rule updateTargetReadyStatus_iff [OF assms])

theorem Sequencer_ready_status_witness:
  "isTargetReady ''A'' (updateTargetReadyStatus three_targets)"
proof -
  have e: "dep_edges (sq_targetDependencies three_targets) = {}"
    by (simp add: three_targets_def Sequencer_new_def edges_def)
  have "distinct (map fst (sq_targetDependencies three_targets))"
    by (simp add: three_targets_def Sequencer_new_def)
  moreover have "''A'' \<in> set (getTargetNames three_targets)"
    by (simp add: getTargetNames_def three_targets_def Sequencer_new_def)
  ultimately show ?thesis using Sequencer_ready_status [of three_targets "''A''"] by (simp add: e)
qed



text \<open>
  Targets run only after a dependency operation. While the ready status has never been
  computed, as after adding targets alone, a sequence ends at once without executing any target.
\<close>

theorem Sequencer_nothing_ready:
  assumes "sq_targetReadyStatus s = []"
  shows "executeSequence runT notify s w = Some (None, s\<lparr>sq_state := SIdle\<rparr>, notify SequenceEnd w)"
proof -
  have "getNextExecutableTarget s = None"
    using assms by (auto simp: getNextExecutableTarget_def isTargetReady_def extract_None_iff)
  then have "executeLoop runT notify s w = Some (None, s, w)" by (subst executeLoop.simps) simp
  then show ?thesis by (simp add: executeSequence_def finishSequence_def)
qed

theorem Sequencer_nothing_ready_witness:
  "executeSequence (Target_call count_env string_api (\<lambda>e w. w)) (\<lambda>e w. w) three_targets 0
     = Some (None, three_targets\<lparr>sq_state := SIdle\<rparr>, 0)"
  using Sequencer_nothing_ready [of three_targets "Target_call count_env string_api (\<lambda>e w. w)" "\<lambda>e w. w" 0]
  by (simp add: three_targets_def Sequencer_new_def)

text \<open>
  The dependency scheduling strategy does not look at dependencies. It reverses the
  targets when their names differ, and of targets with the same name only one is kept.
\<close>

theorem reorderByDependencies_reverses:
  "(distinct (getTargetNames s) \<longrightarrow> sq_targets (reorderTargetsByDependencies s) = rev (sq_targets s))
   \<and> distinct (getTargetNames (reorderTargetsByDependencies s))
   \<and> set (getTargetNames (reorderTargetsByDependencies s)) = set (getTargetNames s)"
  using visitTargets_distinct [of "sq_targets s" "[]" "[]"] visitTargets_names [of "[]" "[]" "sq_targets s"]
  by (simp add: reorderTargetsByDependencies_def getTargetNames_def)

theorem reorderByDependencies_reverses_witness:
  "getTargetNames (reorderTargetsByDependencies three_targets) = [''C'', ''B'', ''A'']"
  using reorderByDependencies_reverses [of three_targets]
  by (simp add: getTargetNames_def three_targets_def Sequencer_new_def)

text \<open>
  Sorting by observability permutes the targets so that observable ones come first, among
  equally observable ones the higher priority, and then the shorter remaining exposure time.
\<close>

lemma sortByObservability_sorted:
  "sorted (map (observability_key now) (sq_targets (sortTargetsByObservability now s)))
   \<and> mset (sq_targets (sortTargetsByObservability now s)) = mset (sq_targets s)
   \<and> (observability_key now a < observability_key now b \<longleftrightarrow>
        (if isObservable now a \<noteq> isObservable now b then isObservable now a
         else if cfg_priority (tg_astroConfig a) \<noteq> cfg_priority (tg_astroConfig b)
         then cfg_priority (tg_astroConfig a) > cfg_priority (tg_astroConfig b)
         else getRemainingExposureTime a < getRemainingExposureTime b))"
  by (auto simp: sortTargetsByObservability_def observability_key_def less_prod_def')

text \<open>
  The targets reported as completable before dawn fit into the time until dawn with five
  minutes of overhead each, and each of them has a set time in the future. So a circumpolar target,
  whose set time is not set, is never reported.
\<close>

theorem completableBeforeDawn_bounds:
  assumes "\<forall>t \<in> set (sq_targets s). 0 \<le> getRemainingExposureTime t"
    "n \<in> set (getTargetsCompletableBeforeDawn now dawn s)"
  shows "300 * real (length (getTargetsCompletableBeforeDawn now dawn s)) \<le> real_of_int (to_seconds (dawn - now))
    \<and> (\<exists>t \<in> set (sq_targets s). tg_name t = n \<and> now < ow_setTime (tg_observability t))"
proof -
  from assms(2) have n: "n \<in> set (completableBeforeDawn now dawn (sq_targets s) 0)"
    by (simp add: getTargetsCompletableBeforeDawn_def)
  then have "completableBeforeDawn now dawn (sq_targets s) 0 \<noteq> []" by auto
  from completable_bound [OF assms(1) this] completable_not_set [OF n order_refl assms(1)] show ?thesis
    by (simp add: getTargetsCompletableBeforeDawn_def)
qed

theorem completableBeforeDawn_bounds_witness:
  "\<exists>t \<in> set (sq_targets evening). tg_name t = ''m31'' \<and> 0 < ow_setTime (tg_observability t)"
proof -
  have "\<forall>t \<in> set (sq_targets evening). 0 \<le> getRemainingExposureTime t"
    by (simp add: evening_def demo_target_def Target_new_def getRemainingExposureTime_def
        totalRemainingExposureTime_def default_config_def)
  moreover have "''m31'' \<in> set (getTargetsCompletableBeforeDawn 0 2000000000000 evening)"
    by code_simp
  ultimately show ?thesis using completableBeforeDawn_bounds by blast
qed



end
