(* ===== verification/Term_Index.thy ===== *)
theory Term_Index
  imports Lithium_Prelude
begin

text \<open>
  The contract shared by the search indexes of the target catalogue: an index stores a set of
  terms, and adding an entry adds the term it stands for. Loading entries one by one therefore
  stores exactly their terms, whatever the order and however often an entry occurs.
\<close>

locale term_index =
  fixes empty :: 's
    and add :: "'a \<Rightarrow> 's \<Rightarrow> 's"
    and terms :: "'s \<Rightarrow> string set"
    and key :: "'a \<Rightarrow> string"
    and inv :: "'s \<Rightarrow> bool"
  assumes inv_empty: "inv empty"
    and terms_empty: "terms empty = {}"
    and inv_add: "inv s \<Longrightarrow> inv (add a s)"
    and terms_add: "inv s \<Longrightarrow> terms (add a s) = insert (key a) (terms s)"
begin

lemma add_all:
  "inv s \<Longrightarrow> inv (foldl (\<lambda>s a. add a s) s es) \<and> terms (foldl (\<lambda>s a. add a s) s es) = terms s \<union> key ` set es"
  by (induction es arbitrary: s) (auto simp: inv_add terms_add)

lemma load: "inv (foldl (\<lambda>s a. add a s) empty es) \<and> terms (foldl (\<lambda>s a. add a s) empty es) = key ` set es"
  using add_all [OF inv_empty] by (simp add: terms_empty)

end

end
