(* ===== verification/Trie_Index.thy ===== *)
theory Trie_Index
  imports Term_Index "HOL-Library.Sublist"
begin

text \<open>
  The prefix index of the target catalogue, \<^verbatim>\<open>src/src/target/index/trie_index.cpp\<close>: insertion,
  batch insertion, completion with a limit, and the node count. The children of a node are an
  association list in some iteration order of the hash map. The walk along pointers from the root is
  recursion on the word.
\<close>

section \<open>Operations\<close>

datatype TrieNode = TrieNode (trie_children: "(char \<times> TrieNode) list") (isEndOfWord: bool)

definition emptyNode :: TrieNode where
  "emptyNode = TrieNode [] False"

fun trie_insert :: "string \<Rightarrow> TrieNode \<Rightarrow> TrieNode" where
  "trie_insert [] (TrieNode children e) = TrieNode children True"
| "trie_insert (ch # word) (TrieNode children e) =
     TrieNode (AList.update ch (trie_insert word (lookup_or emptyNode children ch)) children) e"

text \<open>The node at the end of a path, if it exists.\<close>

fun navigate :: "string \<Rightarrow> TrieNode \<Rightarrow> TrieNode option" where
  "navigate [] node = Some node"
| "navigate (ch # rest) node =
     (case map_of (trie_children node) ch of None \<Rightarrow> None | Some child \<Rightarrow> navigate rest child)"

text \<open>The loop of the batch insertion also counts the words that were new.\<close>

definition insertBatch :: "string list \<Rightarrow> TrieNode \<Rightarrow> nat \<times> TrieNode" where
  "insertBatch words rt =
     foldl (\<lambda>(inserted, rt) word.
        (if (case navigate word rt of Some node \<Rightarrow> isEndOfWord node | None \<Rightarrow> False)
         then inserted else inserted + 1, trie_insert word rt)) (0, rt) words"

fun trie_dfs :: "TrieNode \<Rightarrow> string \<Rightarrow> string list \<Rightarrow> nat \<Rightarrow> string list"
  and trie_dfs_children :: "(char \<times> TrieNode) list \<Rightarrow> string \<Rightarrow> string list \<Rightarrow> nat \<Rightarrow> string list"
where
  "trie_dfs (TrieNode children e) prfx suggestions limit =
     (if length suggestions \<ge> limit then suggestions
      else trie_dfs_children children prfx (if e then suggestions @ [prfx] else suggestions) limit)"
| "trie_dfs_children [] prfx suggestions limit = suggestions"
| "trie_dfs_children (entry # rest) prfx suggestions limit =
     (if length suggestions \<ge> limit then suggestions
      else case entry of (ch, child) \<Rightarrow>
        trie_dfs_children rest prfx (trie_dfs child (prfx @ [ch]) suggestions limit) limit)"

definition autocomplete :: "string \<Rightarrow> nat \<Rightarrow> TrieNode \<Rightarrow> string list" where
  "autocomplete prfx limit rt =
     (case navigate prfx rt of None \<Rightarrow> [] | Some node \<Rightarrow> trie_dfs node prfx [] limit)"

definition TrieIndex_clear :: "TrieNode \<Rightarrow> TrieNode" where
  "TrieIndex_clear rt = emptyNode"

fun subtreeSize :: "TrieNode \<Rightarrow> nat" where
  "subtreeSize (TrieNode children e) = foldl (+) 1 (map (\<lambda>x. subtreeSize (snd x)) children)"

section \<open>The set of words\<close>

fun trie_words :: "TrieNode \<Rightarrow> string list" where
  "trie_words (TrieNode cs e) =
     (if e then [[]] else []) @ concat (map (\<lambda>x. map ((#) (fst x)) (trie_words (snd x))) cs)"

text \<open>No letter leads to two children, and below every child there is a word.\<close>

fun trie_inv :: "TrieNode \<Rightarrow> bool" where
  "trie_inv (TrieNode cs e) \<longleftrightarrow>
     distinct (map fst cs) \<and> list_all (\<lambda>x. trie_inv (snd x) \<and> trie_words (snd x) \<noteq> []) cs"

lemma trie_words_set:
  "w \<in> set (trie_words (TrieNode cs e)) \<longleftrightarrow>
     (w = [] \<and> e) \<or> (\<exists>x \<in> set cs. \<exists>v \<in> set (trie_words (snd x)). w = fst x # v)"
  by auto

lemma insert_words_inv:
  "trie_inv t \<Longrightarrow> trie_inv (trie_insert w t) \<and> set (trie_words (trie_insert w t)) = insert w (set (trie_words t))"
proof (induction w t rule: trie_insert.induct)
  case (1 cs e)
  then show ?case by auto
next
  case (2 c w cs e)
  let ?t = "lookup_or emptyNode cs c"
  have d: "distinct (map fst cs)" and cs: "\<And>x. x \<in> set cs \<Longrightarrow> trie_inv (snd x) \<and> trie_words (snd x) \<noteq> []"
    using 2(2) by (auto simp: list_all_iff)
  have "trie_inv ?t"
    using cs by (auto simp: lookup_or_def emptyNode_def split: option.split dest: map_of_SomeD)
  then have i: "trie_inv (trie_insert w ?t)" "set (trie_words (trie_insert w ?t)) = insert w (set (trie_words ?t))"
    using 2(1) by auto
  have s: "set (AList.update c (trie_insert w ?t) cs) = insert (c, trie_insert w ?t) {x \<in> set cs. fst x \<noteq> c}"
    by (rule set_update_distinct [OF d])
  have o: "v \<in> set (trie_words ?t) \<longleftrightarrow> (\<exists>x \<in> set cs. fst x = c \<and> v \<in> set (trie_words (snd x)))" for v
    by (subst bex_key [OF d]) (cases "map_of cs c"; simp add: lookup_or_def emptyNode_def)
  have "trie_inv (trie_insert (c # w) (TrieNode cs e))"
    using i cs d by (auto simp: list_all_iff s distinct_update simp flip: set_empty)
  moreover have "v \<in> set (trie_words (trie_insert (c # w) (TrieNode cs e))) \<longleftrightarrow>
      v \<in> insert (c # w) (set (trie_words (TrieNode cs e)))" for v
    unfolding trie_insert.simps insert_iff trie_words_set s using i(2) o
    by (cases v) (auto simp: bex_Un, (metis fst_conv snd_conv)+)
  ultimately show ?case by blast
qed

lemma trie_words_distinct: "trie_inv t \<Longrightarrow> distinct (trie_words t)"
proof (induction t rule: trie_inv.induct)
  case (1 cs e)
  have "distinct (concat (map (\<lambda>x. map ((#) (fst x)) (trie_words (snd x))) cs))"
    by (rule distinct_concat_keyed [where g = hd]) (use 1 in \<open>auto simp: list_all_iff distinct_map\<close>)
  then show ?case by auto
qed

interpretation trie_index: term_index emptyNode trie_insert "\<lambda>t. set (trie_words t)" "\<lambda>w. w" trie_inv
  by unfold_locales (simp_all add: insert_words_inv, simp_all add: emptyNode_def)

section \<open>Completion and size\<close>

lemma navigate_words:
  "trie_inv t \<Longrightarrow>
   {w. p @ w \<in> set (trie_words t)} = (case navigate p t of None \<Rightarrow> {} | Some n \<Rightarrow> set (trie_words n))
   \<and> (case navigate p t of None \<Rightarrow> True | Some n \<Rightarrow> trie_inv n)"
proof (induction p t rule: navigate.induct)
  case (2 c p t)
  obtain cs e where t: "t = TrieNode cs e" by (cases t)
  have d: "distinct (map fst cs)" using 2(2) t by simp
  have e: "c # v \<in> set (trie_words t) \<longleftrightarrow> (\<exists>n. map_of cs c = Some n \<and> v \<in> set (trie_words n))" for v
    using bex_key [OF d, of c "\<lambda>n. v \<in> set (trie_words n)"] unfolding t trie_words_set by auto
  show ?case
  proof (cases "map_of cs c")
    case None
    then show ?thesis using e t by simp
  next
    case (Some n)
    then have "trie_inv n" using 2(2) t by (auto simp: list_all_iff dest: map_of_SomeD)
    then show ?thesis using 2(1) [of n] Some e t by simp
  qed
qed simp

lemma trie_dfs_words:
  "trie_dfs t p s n = s @ take (n - length s) (map ((@) p) (trie_words t))"
  "trie_dfs_children cs p s n =
     s @ take (n - length s) (map ((@) p) (concat (map (\<lambda>x. map ((#) (fst x)) (trie_words (snd x))) cs)))"
proof (induction t p s n and cs p s n rule: trie_dfs_trie_dfs_children.induct)
  case (1 cs e p s n)
  show ?case
  proof (cases "length s < n")
    case True
    then have "n - length s = Suc (n - Suc (length s))" by simp
    then show ?thesis using 1 True by simp
  qed simp
next
  case (3 x rest p s n)
  obtain c t where x: "x = (c, t)" by fastforce
  show ?case
  proof (cases "length s < n")
    case True
    have e: "map ((@) (p @ [c])) ws = map ((@) p) (map ((#) c) ws)" for ws by simp
    have "length (map ((@) p) (map ((#) c) (trie_words t))) = length (trie_words t)" by simp
    then show ?thesis using 3 True x unfolding e
      by (cases "length (trie_words t) \<le> n - length s") (simp_all add: e comp_def)
  qed simp
qed simp

lemma autocomplete_take:
  assumes "trie_inv t"
  shows "\<exists>ws. autocomplete p n t = take n ws \<and> distinct ws \<and> set ws = {w \<in> set (trie_words t). prefix p w}"
proof (cases "navigate p t")
  case None
  then have "{w \<in> set (trie_words t). prefix p w} = {}" using navigate_words [OF assms, of p] by (auto elim: prefixE)
  then show ?thesis using None by (intro exI [of _ "[]"]) (simp add: autocomplete_def)
next
  case (Some node)
  then have n: "trie_inv node" "set (trie_words node) = {w. p @ w \<in> set (trie_words t)}"
    using navigate_words [OF assms, of p] by auto
  have "set (map ((@) p) (trie_words node)) = {w \<in> set (trie_words t). prefix p w}"
    using n(2) by (auto elim: prefixE)
  then show ?thesis using Some trie_words_distinct [OF n(1)]
    by (intro exI [of _ "map ((@) p) (trie_words node)"]) (simp add: autocomplete_def trie_dfs_words distinct_map inj_on_def)
qed

text \<open>One path per node.\<close>

fun trie_paths :: "TrieNode \<Rightarrow> string list" where
  "trie_paths (TrieNode cs e) = [] # concat (map (\<lambda>x. map ((#) (fst x)) (trie_paths (snd x))) cs)"

lemma foldl_plus: "foldl (+) (a :: nat) xs = a + sum_list xs"
  by (induction xs arbitrary: a) auto

lemma subtreeSize_paths: "subtreeSize t = length (trie_paths t)"
proof (induction t rule: subtreeSize.induct)
  case (1 cs e)
  then have "map (\<lambda>x. subtreeSize (snd x)) cs = map (\<lambda>x. length (trie_paths (snd x))) cs" by auto
  from arg_cong [OF this, of sum_list] show ?case by (simp add: foldl_plus length_concat comp_def)
qed

lemma trie_paths_distinct: "trie_inv t \<Longrightarrow> distinct (trie_paths t)"
proof (induction t rule: trie_inv.induct)
  case (1 cs e)
  have "distinct (concat (map (\<lambda>x. map ((#) (fst x)) (trie_paths (snd x))) cs))"
    by (rule distinct_concat_keyed [where g = hd]) (use 1 in \<open>auto simp: list_all_iff distinct_map\<close>)
  then show ?case by auto
qed

lemma trie_paths_prefixes:
  "trie_inv t \<Longrightarrow> set (trie_paths t) = insert [] {p. \<exists>w \<in> set (trie_words t). prefix p w}"
proof (induction t rule: trie_inv.induct)
  case (1 cs e)
  have c: "set (trie_paths (snd x)) = {p. \<exists>w \<in> set (trie_words (snd x)). prefix p w}" if "x \<in> set cs" for x
  proof -
    have "trie_words (snd x) \<noteq> []" "trie_inv (snd x)" using 1(2) that by (auto simp: list_all_iff)
    then show ?thesis using 1(1) [OF that] by (auto simp: neq_Nil_conv)
  qed
  have "p \<in> set (trie_paths (TrieNode cs e)) \<longleftrightarrow> p = [] \<or> (\<exists>w \<in> set (trie_words (TrieNode cs e)). prefix p w)" for p
  proof (cases p)
    case (Cons a q)
    have "p \<in> set (trie_paths (TrieNode cs e)) \<longleftrightarrow> (\<exists>x \<in> set cs. fst x = a \<and> q \<in> set (trie_paths (snd x)))"
      using Cons by auto
    also have "\<dots> \<longleftrightarrow> (\<exists>x \<in> set cs. fst x = a \<and> (\<exists>v \<in> set (trie_words (snd x)). prefix q v))"
      using c by auto
    also have "\<dots> \<longleftrightarrow> (\<exists>w \<in> set (trie_words (TrieNode cs e)). prefix p w)"
      unfolding Bex_def trie_words_set using Cons by (auto simp: prefix_Cons) (metis Cons_prefix_Cons, blast)
    finally show ?thesis using Cons by simp
  qed simp
  then show ?case by blast
qed

lemma card_new:
  assumes "finite A"
  shows "card (insert w A - B) = card (A - insert w B) + (if w \<in> B then 0 else 1)"
proof (cases "w \<in> B")
  case True
  then have "insert w A - B = A - insert w B" by auto
  then show ?thesis using True by (simp only: if_True add_0_right)
next
  case False
  then have "insert w A - B = insert w (A - insert w B)" by auto
  moreover have "card (insert w (A - insert w B)) = Suc (card (A - insert w B))" using assms by simp
  ultimately show ?thesis using False by (simp only: if_False Suc_eq_plus1)
qed

lemma insertBatch_step:
  "trie_inv t \<Longrightarrow> foldl (\<lambda>(n, t) w. (if (case navigate w t of Some m \<Rightarrow> isEndOfWord m | None \<Rightarrow> False)
      then n else n + 1, trie_insert w t)) (k, t) ws =
   (k + card (set ws - set (trie_words t)), foldl (\<lambda>t w. trie_insert w t) t ws)"
proof (induction ws arbitrary: k t)
  case (Cons w ws)
  have m: "(case navigate w t of Some m \<Rightarrow> isEndOfWord m | None \<Rightarrow> False) \<longleftrightarrow> w \<in> set (trie_words t)"
  proof -
    have "[] \<in> set (trie_words n) \<longleftrightarrow> isEndOfWord n" for n by (cases n) auto
    moreover have "w \<in> set (trie_words t) \<longleftrightarrow> [] \<in> {v. w @ v \<in> set (trie_words t)}" by simp
    ultimately show ?thesis using navigate_words [OF Cons.prems, of w]
      by (cases "navigate w t") (simp_all only: option.case, simp_all)
  qed
  have i: "trie_inv (trie_insert w t)" "set (trie_words (trie_insert w t)) = insert w (set (trie_words t))"
    using insert_words_inv [OF Cons.prems] by auto
  have "card (set (w # ws) - set (trie_words t)) =
      card (set ws - insert w (set (trie_words t))) + (if w \<in> set (trie_words t) then 0 else 1)"
    unfolding list.set(2) by (rule card_new) simp
  then show ?case using Cons.IH [OF i(1)] unfolding foldl_Cons prod.case m i(2) by simp
qed simp

lemma batch_completions:
  "\<exists>us. autocomplete p limit (snd (insertBatch ws emptyNode)) = take limit us \<and> distinct us
     \<and> set us = {w \<in> set ws. prefix p w}"
proof -
  have "trie_inv (foldl (\<lambda>t w. trie_insert w t) emptyNode ws)"
    "set (trie_words (foldl (\<lambda>t w. trie_insert w t) emptyNode ws)) = set ws"
    using trie_index.load [of ws] by auto
  moreover have "snd (insertBatch ws emptyNode) = foldl (\<lambda>t w. trie_insert w t) emptyNode ws"
    using insertBatch_step [OF trie_index.inv_empty, of 0 ws] by (simp add: insertBatch_def)
  ultimately show ?thesis using autocomplete_take [of "foldl (\<lambda>t w. trie_insert w t) emptyNode ws" p limit] by auto
qed

section \<open>Properties\<close>

text \<open>
  C15: an index loaded with a batch of words completes a prefix with distinct stored words that
  start with it, as many as there are up to the limit; the batch insertion counts the distinct words
  and the size is the number of prefixes of stored words, the empty one included. So the size of an
  empty index is one.
\<close>

theorem autocomplete_correct:
  "case insertBatch ws emptyNode of (inserted, t) \<Rightarrow>
     inserted = card (set ws)
     \<and> distinct (autocomplete p limit t)
     \<and> set (autocomplete p limit t) \<subseteq> {w \<in> set ws. prefix p w}
     \<and> length (autocomplete p limit t) = min limit (card {w \<in> set ws. prefix p w})
     \<and> subtreeSize t = card (insert [] {q. \<exists>w \<in> set ws. prefix q w})"
proof -
  let ?t = "foldl (\<lambda>t w. trie_insert w t) emptyNode ws"
  have t: "trie_inv ?t" "set (trie_words ?t) = set ws" using trie_index.load [of ws] by auto
  have b: "insertBatch ws emptyNode = (card (set ws), ?t)"
    using insertBatch_step [OF trie_index.inv_empty, of 0 ws] trie_index.terms_empty by (simp add: insertBatch_def)
  from autocomplete_take [OF t(1), of p limit] obtain us where
    u: "autocomplete p limit ?t = take limit us" "distinct us" "set us = {w \<in> set ws. prefix p w}"
    using t(2) by auto
  have "subtreeSize ?t = card (insert [] {q. \<exists>w \<in> set ws. prefix q w})"
    using distinct_card [OF trie_paths_distinct [OF t(1)]] trie_paths_prefixes [OF t(1)] t(2)
    by (simp add: subtreeSize_paths)
  moreover have "length (take limit us) = min limit (card {w \<in> set ws. prefix p w})"
    using distinct_card [OF u(2)] u(3) by simp
  ultimately show ?thesis using b u set_take_subset [of limit us] by (simp only: prod.case) auto
qed

end
