(* ===== verification/Edit_Distance.thy ===== *)
theory Edit_Distance
  imports Lithium_Prelude
begin

text \<open>
  The specification side of the fuzzy matcher: the edit distance of two lists as the least cost of
  an alignment, and its metric laws. \<open>edits xs ys n\<close> says that \<open>n\<close> insertions, deletions and
  substitutions turn \<open>xs\<close> into \<open>ys\<close>; \<open>edit\<close> computes the least such \<open>n\<close>.
\<close>

inductive edits :: "'a list \<Rightarrow> 'a list \<Rightarrow> nat \<Rightarrow> bool" where
  edits_Nil: "edits [] [] 0"
| edits_delete: "edits xs ys n \<Longrightarrow> edits (x # xs) ys (n + 1)"
| edits_insert: "edits xs ys n \<Longrightarrow> edits xs (y # ys) (n + 1)"
| edits_subst: "edits xs ys n \<Longrightarrow> edits (x # xs) (y # ys) (n + (if x = y then 0 else 1))"

inductive_cases edits_ConsE: "edits (x # xs) ys n"

fun edit :: "'a list \<Rightarrow> 'a list \<Rightarrow> nat" where
  "edit [] ys = length ys"
| "edit xs [] = length xs"
| "edit (x # xs) (y # ys) =
     min (min (edit xs (y # ys) + 1) (edit (x # xs) ys + 1)) (edit xs ys + (if x = y then 0 else 1))"

section \<open>Least cost\<close>

lemma edit_Nil2 [simp]: "edit xs [] = length xs"
  by (cases xs) auto

lemma edits_edit: "edits xs ys (edit xs ys)"
proof (induction xs ys rule: edit.induct)
  case (1 ys)
  show ?case by (induction ys) (auto intro: edits_Nil edits_insert [where n = "length _", simplified])
next
  case (2 x xs)
  have "edits zs [] (length zs)" for zs :: "'a list"
    by (induction zs) (auto intro: edits_Nil edits_delete [where n = "length _", simplified])
  from this [of "x # xs"] show ?case by simp
next
  case (3 x xs y ys)
  then show ?case
    using edits_delete [OF 3(1), of x] edits_insert [OF 3(2), of y] edits_subst [OF 3(3), of x y]
    by (auto simp: min_def split: if_splits)
qed

lemma edit_delete: "edit (x # xs) ys \<le> edit xs ys + 1"
  by (cases ys) auto

lemma edit_insert: "edit xs (y # ys) \<le> edit xs ys + 1"
  by (cases xs) auto

lemma edit_least: "edits xs ys n \<Longrightarrow> edit xs ys \<le> n"
proof (induction rule: edits.induct)
  case (edits_delete xs ys n x)
  then show ?case using edit_delete [of x xs ys] by linarith
next
  case (edits_insert xs ys n y)
  then show ?case using edit_insert [of xs y ys] by linarith
next
  case (edits_subst xs ys n x y)
  then show ?case by (auto simp: min_def)
qed simp

lemma edit_eqI: "edits xs ys n \<Longrightarrow> (\<And>m. edits xs ys m \<Longrightarrow> n \<le> m) \<Longrightarrow> edit xs ys = n"
  by (meson edit_least edits_edit le_antisym)

section \<open>Alignments\<close>

lemma edits_append: "edits xs ys n \<Longrightarrow> edits xs' ys' m \<Longrightarrow> edits (xs @ xs') (ys @ ys') (n + m)"
proof (induction rule: edits.induct)
  case (edits_delete xs ys n x)
  then show ?case using edits.edits_delete [of "xs @ xs'" "ys @ ys'" "n + m" x] by simp
next
  case (edits_insert xs ys n y)
  then show ?case using edits.edits_insert [of "xs @ xs'" "ys @ ys'" "n + m" y] by simp
next
  case (edits_subst xs ys n x y)
  then show ?case using edits.edits_subst [of "xs @ xs'" "ys @ ys'" "n + m" x y] by (simp split: if_splits)
qed simp

lemma edits_delete1: "edits [x] [] 1"
  using edits_delete [OF edits_Nil] by simp

lemma edits_insert1: "edits [] [y] 1"
  using edits_insert [OF edits_Nil] by simp

lemma edits_subst1: "edits [x] [y] (if x = y then 0 else 1)"
  using edits_subst [OF edits_Nil, of x y] by simp

lemma edits_rev: "edits xs ys n \<Longrightarrow> edits (rev xs) (rev ys) n"
proof (induction rule: edits.induct)
  case (edits_delete xs ys n x)
  then show ?case using edits_append [OF _ edits_delete1 [of x]] by fastforce
next
  case (edits_insert xs ys n y)
  then show ?case using edits_append [OF _ edits_insert1 [of y]] by fastforce
next
  case (edits_subst xs ys n x y)
  then show ?case using edits_append [OF _ edits_subst1 [of x y]] by fastforce
qed (simp add: edits_Nil)

lemma edits_sym: "edits xs ys n \<Longrightarrow> edits ys xs n"
proof (induction rule: edits.induct)
  case (edits_subst xs ys n x y)
  then show ?case using edits.edits_subst [of ys xs n y x] by (simp add: eq_commute)
qed (auto intro: edits.edits_Nil edits.edits_delete [simplified] edits.edits_insert [simplified])

lemma edits_refl: "edits xs xs 0"
proof (induction xs)
  case (Cons x xs)
  then show ?case using edits_subst [of xs xs 0 x x] by simp
qed (rule edits_Nil)

lemma edits_0: "edits xs ys n \<Longrightarrow> n = 0 \<Longrightarrow> xs = ys"
  by (induction rule: edits.induct) (auto split: if_splits)

text \<open>Two alignments compose, at no more than the sum of their costs.\<close>

lemma edits_trans: "edits xs ys n \<Longrightarrow> edits ys zs m \<Longrightarrow> \<exists>k \<le> n + m. edits xs zs k"
proof (induction arbitrary: zs m rule: edits.induct)
  case edits_Nil
  then show ?case by auto
next
  case (edits_delete xs ys n x)
  then obtain k where "k \<le> n + m" "edits xs zs k" by blast
  then show ?case using edits.edits_delete [of xs zs k x] by (intro exI [of _ "k + 1"]) auto
next
  case (edits_insert xs ys n y)
  show ?case using edits_insert.prems
  proof (induction "y # ys" zs m rule: edits.induct)
    case (edits_delete zs m)
    then obtain k where "k \<le> n + m" "edits xs zs k" using edits_insert.IH by blast
    then show ?case by (intro exI [of _ k]) auto
  next
    case (edits_insert zs m z)
    then obtain k where "k \<le> n + 1 + m" "edits xs zs k" by blast
    then show ?case using edits.edits_insert [of xs zs k z] by (intro exI [of _ "k + 1"]) auto
  next
    case (edits_subst zs m z)
    then obtain k where "k \<le> n + m" "edits xs zs k" using edits_insert.IH by blast
    then show ?case using edits.edits_insert [of xs zs k z] by (intro exI [of _ "k + 1"]) auto
  qed
next
  case (edits_subst xs ys n x y)
  show ?case using edits_subst.prems
  proof (induction "y # ys" zs m rule: edits.induct)
    case (edits_delete zs m)
    then obtain k where "k \<le> n + m" "edits xs zs k" using edits_subst.IH by blast
    then show ?case using edits.edits_delete [of xs zs k x] by (intro exI [of _ "k + 1"]) auto
  next
    case (edits_insert zs m z)
    then obtain k where "k \<le> n + (if x = y then 0 else 1) + m" "edits (x # xs) zs k" by blast
    then show ?case using edits.edits_insert [of "x # xs" zs k z] by (intro exI [of _ "k + 1"]) auto
  next
    case (edits_subst zs m z)
    then obtain k where "k \<le> n + m" "edits xs zs k" using edits_subst.IH by blast
    then show ?case using edits.edits_subst [of xs zs k x z] by (intro exI [of _ "k + (if x = z then 0 else 1)"]) auto
  qed
qed

section \<open>Metric laws\<close>

lemma edit_self [simp]: "edit xs xs = 0"
  using edit_least [OF edits_refl] by simp

lemma edit_eq_0 [simp]: "edit xs ys = 0 \<longleftrightarrow> xs = ys"
  using edits_0 [OF edits_edit] by auto

lemma edit_sym: "edit xs ys = edit ys xs"
  by (meson edit_least edits_edit edits_sym le_antisym)

lemma edit_triangle: "edit xs zs \<le> edit xs ys + edit ys zs"
  using edits_trans [OF edits_edit edits_edit, of xs ys zs] edit_least by fastforce

lemma edit_rev [simp]: "edit (rev xs) (rev ys) = edit xs ys"
  by (metis edit_least edits_edit edits_rev le_antisym rev_rev_ident)

text \<open>Recurrence on the last elements, the form a table over prefixes uses.\<close>

lemma edit_snoc:
  "edit (xs @ [x]) (ys @ [y]) =
     min (min (edit xs (ys @ [y]) + 1) (edit (xs @ [x]) ys + 1)) (edit xs ys + (if x = y then 0 else 1))"
  using edit.simps(3) [of x "rev xs" y "rev ys"]
  by (metis edit_rev rev.simps(2) rev_rev_ident)

text \<open>Equal last elements are aligned with each other at no loss.\<close>

lemma edit_snoc_same: "edit (xs @ [x]) (ys @ [x]) = edit xs ys"
proof -
  have one: "edit (zs @ [x]) zs \<le> 1" for zs
    using edits_append [OF edits_refl edits_delete1, of zs x] by (auto dest: edit_least)
  have "edit xs ys \<le> edit xs (ys @ [x]) + 1" "edit xs ys \<le> edit (xs @ [x]) ys + 1"
    using edit_triangle [of xs ys "ys @ [x]"] edit_triangle [of xs ys "xs @ [x]"] one [of ys] one [of xs]
      edit_sym [of xs "xs @ [x]"] by linarith+
  then show ?thesis by (simp add: edit_snoc)
qed

end
