(* ===== verification/Fuzzy_Matcher.thy ===== *)
theory Fuzzy_Matcher
  imports Edit_Distance Term_Index "HOL-Library.Multiset"
begin

text \<open>
  The fuzzy name matcher of the target catalogue, \<^verbatim>\<open>src/src/target/index/fuzzy_matcher.cpp\<close>: the
  two-row Levenshtein table, the BK-tree of normalised terms, and the range query that prunes the
  tree with the triangle inequality. The children of a node are an association list in some
  iteration order of the hash map. A \<^verbatim>\<open>size_t\<close> is 64 bits wide; \<^verbatim>\<open>int\<close> distances stay far below the
  range of the type, as they are bounded by the lengths of the terms.
\<close>

section \<open>Levenshtein distance\<close>

text \<open>One cell, and one row, of the table; \<open>cur\<close> is a reused buffer that still holds old values.\<close>

definition lev_cell :: "string \<Rightarrow> string \<Rightarrow> nat \<Rightarrow> int list \<Rightarrow> int list \<Rightarrow> nat \<Rightarrow> int list" where
  "lev_cell s1 s2 i prev cur j =
     (let cost = if s1 ! (i - 1) = s2 ! (j - 1) then 0 else 1
      in cur[j := min (min (prev ! j + 1) (cur ! (j - 1) + 1)) (prev ! (j - 1) + cost)])"

definition lev_row :: "string \<Rightarrow> string \<Rightarrow> int list \<times> int list \<Rightarrow> nat \<Rightarrow> int list \<times> int list" where
  "lev_row s1 s2 rows i =
     (case rows of (prev, cur) \<Rightarrow>
        let cur = cur[0 := int i];
            cur = foldl (lev_cell s1 s2 i prev) cur [1..<length s2 + 1]
        in (cur, prev))"

definition levenshteinDistance :: "string \<Rightarrow> string \<Rightarrow> int" where
  "levenshteinDistance s1 s2 =
     (let m = length s1; n = length s2
      in if m = 0 then int n
         else if n = 0 then int m
         else
           (let prev = map int [0..<n + 1];
                cur = replicate (n + 1) 0
            in fst (foldl (lev_row s1 s2) (prev, cur) [1..<m + 1]) ! n))"

definition normalize :: "string \<Rightarrow> string" where
  "normalize s = map to_lower s"

section \<open>The tree\<close>

datatype BKTreeNode =
  BKTreeNode (bk_term: string) (bk_objectId: string) (bk_children: "(int \<times> BKTreeNode) list")

lemma size_child [termination_simp]:
  "size_option size (map_of cs d) < Suc (Suc (size_list (\<lambda>x. Suc (size (snd x))) cs))"
  by (induction cs) (auto split: if_splits)

fun insertNode :: "BKTreeNode option \<Rightarrow> string \<Rightarrow> string \<Rightarrow> BKTreeNode" where
  "insertNode None term objectId = BKTreeNode term objectId []"
| "insertNode (Some (BKTreeNode t ob children)) term objectId =
     (let dist = levenshteinDistance t term
      in if dist = 0 then BKTreeNode t ob children
         else BKTreeNode t ob
                (AList.update dist (insertNode (map_of children dist) term objectId) children))"

definition out_of_range :: exn where
  "out_of_range = OutOfRange ''unordered_map::at''"

text \<open>
  The loop over the children carries the bounds computed at their parent. A search that reads a
  missing term with \<^verbatim>\<open>at\<close> throws.
\<close>

fun searchNode ::
    "string \<Rightarrow> int \<Rightarrow> nat \<Rightarrow> string umap \<Rightarrow> BKTreeNode \<Rightarrow> (string \<times> int) list \<Rightarrow> (string \<times> int) list result"
  and searchChildren ::
    "string \<Rightarrow> int \<Rightarrow> nat \<Rightarrow> string umap \<Rightarrow> int \<Rightarrow> int \<Rightarrow> (int \<times> BKTreeNode) list \<Rightarrow> (string \<times> int) list
     \<Rightarrow> (string \<times> int) list result"
where
  "searchNode query maxDistance limit termMap (BKTreeNode t ob children) results =
     (if length results \<ge> limit then Inr results
      else
        let dist = levenshteinDistance query t
        in if dist \<le> maxDistance then
             (case map_of termMap t of
                None \<Rightarrow> Inl out_of_range
              | Some objectId \<Rightarrow>
                searchChildren query maxDistance limit termMap (dist - maxDistance) (dist + maxDistance)
                  children (results @ [(objectId, dist)]))
           else
             searchChildren query maxDistance limit termMap (dist - maxDistance) (dist + maxDistance)
               children results)"
| "searchChildren query maxDistance limit termMap lo hi [] results = Inr results"
| "searchChildren query maxDistance limit termMap lo hi (entry # rest) results =
     (case entry of (childDist, child) \<Rightarrow>
        if childDist \<ge> lo \<and> childDist \<le> hi then
          (case searchNode query maxDistance limit termMap child results of
             Inl e \<Rightarrow> Inl e
           | Inr results' \<Rightarrow> searchChildren query maxDistance limit termMap lo hi rest results')
        else searchChildren query maxDistance limit termMap lo hi rest results)"

fun countNodes :: "BKTreeNode \<Rightarrow> nat" where
  "countNodes (BKTreeNode t ob children) = foldl (+) 1 (map (\<lambda>x. countNodes (snd x)) children)"

fun getTreeDepth :: "BKTreeNode \<Rightarrow> nat" where
  "getTreeDepth (BKTreeNode t ob children) = foldl max 0 (map (\<lambda>x. getTreeDepth (snd x)) children) + 1"

section \<open>The matcher\<close>

record fuzzy_matcher =
  fm_root :: "BKTreeNode option"
  fm_termMap :: "string umap"

definition FuzzyMatcher_new :: fuzzy_matcher where
  "FuzzyMatcher_new = \<lparr>fm_root = None, fm_termMap = []\<rparr>"

definition addTerm :: "string \<Rightarrow> string \<Rightarrow> fuzzy_matcher \<Rightarrow> fuzzy_matcher" where
  "addTerm term objectId fm =
     (let normalized = normalize term
      in if map_of (fm_termMap fm) normalized \<noteq> None then fm
         else fm\<lparr>fm_termMap := AList.update normalized objectId (fm_termMap fm),
                 fm_root := Some (insertNode (fm_root fm) normalized objectId)\<rparr>)"

definition addTerms :: "(string \<times> string) list \<Rightarrow> fuzzy_matcher \<Rightarrow> fuzzy_matcher" where
  "addTerms terms fm =
     foldl (\<lambda>fm (term, objectId).
        let normalized = normalize term
        in if map_of (fm_termMap fm) normalized = None
           then fm\<lparr>fm_termMap := AList.update normalized objectId (fm_termMap fm),
                   fm_root := Some (insertNode (fm_root fm) normalized objectId)\<rparr>
           else fm) fm terms"

text \<open>\<^verbatim>\<open>std::sort\<close> gives some sorted permutation; the model takes the stable one.\<close>

definition FuzzyMatcher_match :: "string \<Rightarrow> int \<Rightarrow> int \<Rightarrow> fuzzy_matcher \<Rightarrow> (string \<times> int) list result" where
  "FuzzyMatcher_match query maxDistance limit fm =
     (case fm_root fm of
        None \<Rightarrow> Inr []
      | Some node \<Rightarrow>
        (case searchNode (normalize query) maxDistance (size_t limit) (fm_termMap fm) node [] of
           Inl e \<Rightarrow> Inl e
         | Inr results \<Rightarrow> Inr (take (size_t limit) (sort_key snd results))))"

definition FuzzyMatcher_clear :: "fuzzy_matcher \<Rightarrow> fuzzy_matcher" where
  "FuzzyMatcher_clear fm = fm\<lparr>fm_root := None, fm_termMap := []\<rparr>"

definition FuzzyMatcher_size :: "fuzzy_matcher \<Rightarrow> nat" where
  "FuzzyMatcher_size fm = length (fm_termMap fm)"

definition FuzzyMatcher_contains :: "string \<Rightarrow> fuzzy_matcher \<Rightarrow> bool" where
  "FuzzyMatcher_contains term fm \<longleftrightarrow> map_of (fm_termMap fm) (normalize term) \<noteq> None"

definition getObjectId :: "string \<Rightarrow> fuzzy_matcher \<Rightarrow> string" where
  "getObjectId term fm = (case map_of (fm_termMap fm) (normalize term) of Some ob \<Rightarrow> ob | None \<Rightarrow> [])"

definition getStats :: "fuzzy_matcher \<Rightarrow> string" where
  "getStats fm =
     ''FuzzyMatcher Statistics:'' @ [CHR 0x0A]
     @ ''  Terms: '' @ show_nat (length (fm_termMap fm)) @ [CHR 0x0A]
     @ ''  Tree Depth: '' @ show_nat (case fm_root fm of None \<Rightarrow> 0 | Some n \<Rightarrow> getTreeDepth n) @ [CHR 0x0A]
     @ ''  Tree Nodes: '' @ show_nat (case fm_root fm of None \<Rightarrow> 0 | Some n \<Rightarrow> countNodes n) @ [CHR 0x0A]"

section \<open>The table computes the edit distance\<close>

lemma take_snoc: "0 < i \<Longrightarrow> i \<le> length xs \<Longrightarrow> take i xs = take (i - 1) xs @ [xs ! (i - 1)]"
  by (metis Suc_pred' less_eq_Suc_le take_Suc_conv_app_nth)

lemma lev_cell_edit:
  assumes "0 < i" "i \<le> length s1" "0 < j" "j \<le> length s2" "length cur = length s2 + 1"
    and prev: "\<And>k. k \<le> length s2 \<Longrightarrow> prev ! k = int (edit (take (i - 1) s1) (take k s2))"
    and left: "cur ! (j - 1) = int (edit (take i s1) (take (j - 1) s2))"
  shows "lev_cell s1 s2 i prev cur j ! j = int (edit (take i s1) (take j s2))"
proof -
  have a: "take i s1 = take (i - 1) s1 @ [s1 ! (i - 1)]" by (rule take_snoc [OF assms(1,2)])
  have b: "take j s2 = take (j - 1) s2 @ [s2 ! (j - 1)]" by (rule take_snoc [OF assms(3,4)])
  have "lev_cell s1 s2 i prev cur j ! j =
      min (min (prev ! j + 1) (cur ! (j - 1) + 1)) (prev ! (j - 1) + (if s1 ! (i - 1) = s2 ! (j - 1) then 0 else 1))"
    using assms(4,5) by (simp add: lev_cell_def Let_def)
  also have "\<dots> = min (min (int (edit (take (i - 1) s1) (take j s2)) + 1) (int (edit (take i s1) (take (j - 1) s2)) + 1))
      (int (edit (take (i - 1) s1) (take (j - 1) s2)) + (if s1 ! (i - 1) = s2 ! (j - 1) then 0 else 1))"
    using prev [of j] prev [of "j - 1"] left assms(4) by simp
  also have "\<dots> = int (edit (take i s1) (take j s2))"
    unfolding a b edit_snoc by (auto simp: min_def)
  finally show ?thesis .
qed

lemma lev_cells:
  assumes "0 < i" "i \<le> length s1" "length cur = length s2 + 1" "cur ! 0 = int i"
    and prev: "\<And>k. k \<le> length s2 \<Longrightarrow> prev ! k = int (edit (take (i - 1) s1) (take k s2))"
    and "j \<le> length s2"
  shows "length (foldl (lev_cell s1 s2 i prev) cur [1..<j + 1]) = length s2 + 1
    \<and> (\<forall>k \<le> j. foldl (lev_cell s1 s2 i prev) cur [1..<j + 1] ! k = int (edit (take i s1) (take k s2)))"
  using \<open>j \<le> length s2\<close>
proof (induction j)
  case 0
  then show ?case using assms by simp
next
  case (Suc j)
  let ?c = "foldl (lev_cell s1 s2 i prev) cur [1..<j + 1]"
  have c: "foldl (lev_cell s1 s2 i prev) cur [1..<Suc j + 1] = lev_cell s1 s2 i prev ?c (Suc j)" by simp
  have l: "length ?c = length s2 + 1" and v: "\<And>k. k \<le> j \<Longrightarrow> ?c ! k = int (edit (take i s1) (take k s2))"
    using Suc by auto
  have "lev_cell s1 s2 i prev ?c (Suc j) ! Suc j = int (edit (take i s1) (take (Suc j) s2))"
    by (rule lev_cell_edit) (use assms(1,2) prev Suc.prems l v in auto)
  moreover have "lev_cell s1 s2 i prev ?c (Suc j) ! k = ?c ! k" if "k \<le> j" for k
    using that by (simp add: lev_cell_def Let_def)
  moreover have "length (lev_cell s1 s2 i prev ?c (Suc j)) = length s2 + 1"
    using l by (simp add: lev_cell_def Let_def)
  ultimately show ?case unfolding c using v by (auto simp: le_Suc_eq)
qed

lemma lev_rows:
  assumes "i \<le> length s1"
  shows "(case foldl (lev_row s1 s2) (map int [0..<length s2 + 1], replicate (length s2 + 1) 0) [1..<i + 1] of
      (prev, cur) \<Rightarrow> length prev = length s2 + 1 \<and> length cur = length s2 + 1
        \<and> (\<forall>k \<le> length s2. prev ! k = int (edit (take i s1) (take k s2))))"
  using assms
proof (induction i)
  case 0
  then show ?case by (simp del: upt_Suc)
next
  case (Suc i)
  obtain prev cur where r: "foldl (lev_row s1 s2) (map int [0..<length s2 + 1], replicate (length s2 + 1) 0)
      [1..<i + 1] = (prev, cur)" by fastforce
  with Suc have l: "length prev = length s2 + 1" "length cur = length s2 + 1"
    and v: "\<And>k. k \<le> length s2 \<Longrightarrow> prev ! k = int (edit (take i s1) (take k s2))" by auto
  let ?c = "foldl (lev_cell s1 s2 (Suc i) prev) (cur[0 := int (Suc i)]) [1..<length s2 + 1]"
  have e: "foldl (lev_row s1 s2) (map int [0..<length s2 + 1], replicate (length s2 + 1) 0) [1..<Suc i + 1]
      = (?c, prev)"
    using r by (simp add: lev_row_def)
  have "length ?c = length s2 + 1 \<and> (\<forall>k \<le> length s2. ?c ! k = int (edit (take (Suc i) s1) (take k s2)))"
    by (rule lev_cells) (use l v Suc.prems in auto)
  then show ?case unfolding e prod.case using l(1) by blast
qed

lemma levenshtein_edit: "levenshteinDistance s1 s2 = int (edit s1 s2)"
  using lev_rows [of "length s1" s1 s2]
  by (auto simp: levenshteinDistance_def Let_def split: prod.splits simp del: upt_Suc)

section \<open>Tree invariant\<close>

fun bk_terms :: "BKTreeNode \<Rightarrow> string list" where
  "bk_terms (BKTreeNode t ob children) = t # concat (map (\<lambda>x. bk_terms (snd x)) children)"

text \<open>All terms below the child for distance \<open>d\<close> have distance \<open>d\<close> from the term of the node.\<close>

definition at_distance :: "string \<Rightarrow> int \<times> BKTreeNode \<Rightarrow> bool" where
  "at_distance t x \<longleftrightarrow> 0 < fst x \<and> list_all (\<lambda>u. int (edit t u) = fst x) (bk_terms (snd x))"

fun bk_inv :: "BKTreeNode \<Rightarrow> bool" where
  "bk_inv (BKTreeNode t ob children) \<longleftrightarrow>
     distinct (map fst children) \<and> list_all (\<lambda>x. bk_inv (snd x)) children \<and> list_all (at_distance t) children"

definition option_terms :: "BKTreeNode option \<Rightarrow> string set" where
  "option_terms n = (case n of None \<Rightarrow> {} | Some node \<Rightarrow> set (bk_terms node))"

lemma option_terms_iff:
  "distinct (map fst cs) \<Longrightarrow>
   x \<in> option_terms (map_of cs d) \<longleftrightarrow> (\<exists>y \<in> set cs. fst y = d \<and> x \<in> set (bk_terms (snd y)))"
  by (subst bex_key, assumption) (cases "map_of cs d"; simp add: option_terms_def)

lemma insertNode_inv:
  "(\<And>node. n = Some node \<Longrightarrow> bk_inv node) \<Longrightarrow>
   bk_inv (insertNode n u ob) \<and> set (bk_terms (insertNode n u ob)) = insert u (option_terms n)"
proof (induction n u ob rule: insertNode.induct)
  case (1 u ob)
  then show ?case by (simp add: option_terms_def)
next
  case (2 t ob' cs u ob)
  let ?d = "levenshteinDistance t u"
  let ?c = "insertNode (map_of cs ?d) u ob"
  have i: "bk_inv (BKTreeNode t ob' cs)" using 2(2) by simp
  then have d: "distinct (map fst cs)" and cs: "\<And>x. x \<in> set cs \<Longrightarrow> bk_inv (snd x) \<and> at_distance t x"
    by (auto simp: list_all_iff)
  show ?case
  proof (cases "?d = 0")
    case True
    then show ?thesis using i by (auto simp: option_terms_def levenshtein_edit)
  next
    case False
    have c: "bk_inv ?c \<and> set (bk_terms ?c) = insert u (option_terms (map_of cs ?d))"
      using 2(1) [OF refl False] cs by (fastforce dest: map_of_SomeD)
    have s: "set (AList.update ?d ?c cs) = insert (?d, ?c) {x \<in> set cs. fst x \<noteq> ?d}"
      by (rule set_update_distinct [OF d])
    have o: "x \<in> option_terms (map_of cs ?d) \<longleftrightarrow> (\<exists>y \<in> set cs. fst y = ?d \<and> x \<in> set (bk_terms (snd y)))" for x
      by (rule option_terms_iff [OF d])
    have "int (edit t v) = ?d" if "v \<in> set (bk_terms ?c)" for v
      using that c o [of v] cs levenshtein_edit [of t u] unfolding at_distance_def list_all_iff by fastforce
    moreover have "0 < ?d" using False levenshtein_edit [of t u] by linarith
    ultimately have "at_distance t (?d, ?c)" by (simp add: at_distance_def list_all_iff)
    then have "bk_inv (BKTreeNode t ob' (AList.update ?d ?c cs))"
      using c cs d by (auto simp: list_all_iff s distinct_update)
    moreover have "set (bk_terms (BKTreeNode t ob' (AList.update ?d ?c cs))) =
        insert u (set (bk_terms (BKTreeNode t ob' cs)))"
      using c by (auto simp: s o) (metis fst_conv snd_conv)
    ultimately show ?thesis using False by (simp add: option_terms_def Let_def)
  qed
qed

lemma bk_terms_distinct: "bk_inv n \<Longrightarrow> distinct (bk_terms n)"
proof (induction n rule: bk_inv.induct)
  case (1 t ob cs)
  have "distinct (concat (map (\<lambda>x. bk_terms (snd x)) cs))"
    by (rule distinct_concat_keyed [where g = "\<lambda>u. int (edit t u)"]) (use 1 in \<open>auto simp: list_all_iff at_distance_def\<close>)
  moreover have "t \<notin> set (bk_terms (snd x))" if "x \<in> set cs" for x
    using 1(2) that by (fastforce simp: list_all_iff at_distance_def)
  ultimately show ?case by auto
qed

section \<open>Pruned search\<close>

definition hits :: "string \<Rightarrow> int \<Rightarrow> string umap \<Rightarrow> string list \<Rightarrow> (string \<times> int) list" where
  "hits q k m ts = map (\<lambda>t. (lookup_or [] m t, int (edit q t))) (filter (\<lambda>t. int (edit q t) \<le> k) ts)"

lemma hits_simps [simp]:
  "hits q k m [] = []"
  "hits q k m (t # ts) = (if int (edit q t) \<le> k then (lookup_or [] m t, int (edit q t)) # hits q k m ts else hits q k m ts)"
  "hits q k m (ts @ us) = hits q k m ts @ hits q k m us"
  by (auto simp: hits_def)

lemma pruned_no_hits:
  assumes "at_distance t x" "\<not> (int (edit q t) - k \<le> fst x \<and> fst x \<le> int (edit q t) + k)"
  shows "hits q k m (bk_terms (snd x)) = []"
proof -
  have "\<not> int (edit q u) \<le> k" if "u \<in> set (bk_terms (snd x))" for u
    using assms that edit_triangle [of q t u] edit_triangle [of t u q] edit_sym [of t q] edit_sym [of u q] edit_sym [of u t]
      edit_triangle [of q u t]
    by (auto simp: at_distance_def list_all_iff)
  then show ?thesis by (auto simp: hits_def filter_empty_conv)
qed

lemma take_append_limit:
  "(rs @ take (n - length rs) xs) @ take (n - length (rs @ take (n - length rs) xs)) ys
   = rs @ take (n - length rs) (xs @ ys)"
  by (cases "length xs \<le> n - length rs") auto

lemma search_hits:
  "bk_inv n \<Longrightarrow> set (bk_terms n) \<subseteq> keys m \<Longrightarrow>
   searchNode q k mx m n rs = Inr (rs @ take (mx - length rs) (hits q k m (bk_terms n)))"
  "\<exists>t. lo = int (edit q t) - k \<and> hi = int (edit q t) + k \<and> list_all (at_distance t) cs \<Longrightarrow>
   list_all (\<lambda>x. bk_inv (snd x) \<and> set (bk_terms (snd x)) \<subseteq> keys m) cs \<Longrightarrow>
   searchChildren q k mx m lo hi cs rs
     = Inr (rs @ take (mx - length rs) (hits q k m (concat (map (\<lambda>x. bk_terms (snd x)) cs))))"
proof (induction q k mx m n rs and q k mx m lo hi cs rs rule: searchNode_searchChildren.induct)
  case (1 q k mx m t ob cs rs)
  let ?d = "levenshteinDistance q t"
  have p: "\<exists>t. ?d - k = int (edit q t) - k \<and> ?d + k = int (edit q t) + k \<and> list_all (at_distance t) cs"
    using 1(3) by (auto simp: levenshtein_edit)
  have c: "list_all (\<lambda>x. bk_inv (snd x) \<and> set (bk_terms (snd x)) \<subseteq> keys m) cs"
    using 1(3,4) by (auto simp: list_all_iff)
  obtain ob2 where ob2: "map_of m t = Some ob2" using 1(4) by (auto elim: keysE)
  show ?case
  proof (cases "length rs < mx")
    case True
    then have "mx - length rs = Suc (mx - Suc (length rs))" by simp
    then show ?thesis using 1(1) [OF _ refl _ ob2 p c] 1(2) [OF _ refl _ p c] True ob2
      by (auto simp: Let_def levenshtein_edit lookup_or_def)
  qed simp
next
  case (2 q k mx m lo hi rs)
  then show ?case by simp
next
  case (3 q k mx m lo hi x cs rs)
  obtain d c where x: "x = (d, c)" by fastforce
  have rest: "\<exists>t. lo = int (edit q t) - k \<and> hi = int (edit q t) + k \<and> list_all (at_distance t) cs"
    "list_all (\<lambda>x. bk_inv (snd x) \<and> set (bk_terms (snd x)) \<subseteq> keys m) cs"
    and c: "bk_inv c" "set (bk_terms c) \<subseteq> keys m"
    using 3(4,5) x by auto
  show ?case
  proof (cases "lo \<le> d \<and> d \<le> hi")
    case True
    then show ?thesis
      using 3(1) [OF x [symmetric] True c] 3(2) [OF x [symmetric] True _ rest] x take_append_limit [of rs mx "hits q k m (bk_terms c)"]
      by (auto simp: Let_def)
  next
    case False
    then have "hits q k m (bk_terms c) = []" using pruned_no_hits [of _ x q k m] 3(4) x by auto
    then show ?thesis using 3(3) [OF x [symmetric] False rest] False x by auto
  qed
qed

section \<open>Reachable matchers\<close>

definition fm_inv :: "fuzzy_matcher \<Rightarrow> bool" where
  "fm_inv fm \<longleftrightarrow> distinct (map fst (fm_termMap fm)) \<and> option_terms (fm_root fm) = keys (fm_termMap fm)
     \<and> (case fm_root fm of None \<Rightarrow> True | Some node \<Rightarrow> bk_inv node)"

lemma fuzzy_new_inv: "fm_inv FuzzyMatcher_new"
  by (simp add: fm_inv_def FuzzyMatcher_new_def option_terms_def)

lemma fuzzy_clear_inv: "fm_inv (FuzzyMatcher_clear fm)"
  by (simp add: fm_inv_def FuzzyMatcher_clear_def option_terms_def)

lemma addTerm_inv: "fm_inv fm \<Longrightarrow> fm_inv (addTerm term ob fm)"
  using insertNode_inv [of "fm_root fm" "normalize term" ob]
  by (auto simp: addTerm_def Let_def fm_inv_def distinct_update option_terms_def split: option.splits)

lemma addTerm_keys: "keys (fm_termMap (addTerm term ob fm)) = insert (normalize term) (keys (fm_termMap fm))"
  by (auto simp: addTerm_def Let_def dest: map_of_keysD)

lemma addTerms_fold: "addTerms ts fm = foldl (\<lambda>fm e. addTerm (fst e) (snd e) fm) fm ts"
  unfolding addTerms_def
  by (rule arg_cong [where f = "\<lambda>f. foldl f fm ts"]) (auto simp: addTerm_def Let_def fun_eq_iff)

interpretation fuzzy_index: term_index FuzzyMatcher_new "\<lambda>e. addTerm (fst e) (snd e)" "\<lambda>fm. keys (fm_termMap fm)"
    "\<lambda>e. normalize (fst e)" fm_inv
  by unfold_locales (simp_all add: fuzzy_new_inv addTerm_inv addTerm_keys, simp add: FuzzyMatcher_new_def)

inductive fuzzy_reachable :: "fuzzy_matcher \<Rightarrow> bool" where
  "fuzzy_reachable FuzzyMatcher_new"
| "fuzzy_reachable fm \<Longrightarrow> fuzzy_reachable (addTerm term ob fm)"
| "fuzzy_reachable fm \<Longrightarrow> fuzzy_reachable (addTerms ts fm)"
| "fuzzy_reachable fm \<Longrightarrow> fuzzy_reachable (FuzzyMatcher_clear fm)"

lemma fuzzy_reachable_inv: "fuzzy_reachable fm \<Longrightarrow> fm_inv fm"
  by (induction rule: fuzzy_reachable.induct)
    (auto simp: addTerms_fold intro: fuzzy_new_inv addTerm_inv fuzzy_clear_inv fuzzy_index.add_all [THEN conjunct1])

lemma mset_hits:
  "distinct ts \<Longrightarrow> mset (hits q k m ts) =
     image_mset (\<lambda>t. (lookup_or [] m t, int (edit q t))) (mset_set {t \<in> set ts. int (edit q t) \<le> k})"
  using mset_set_set [of "filter (\<lambda>t. int (edit q t) \<le> k) ts"] by (simp add: hits_def)

lemma length_hits: "distinct ts \<Longrightarrow> length (hits q k m ts) = card {t \<in> set ts. int (edit q t) \<le> k}"
  using distinct_card [of "filter (\<lambda>t. int (edit q t) \<le> k) ts"] by (simp add: hits_def)

lemma match_hits:
  assumes "fm_inv fm" "fm_root fm = Some node"
  shows "FuzzyMatcher_match q k limit fm =
    Inr (sort_key snd (take (size_t limit) (hits (normalize q) k (fm_termMap fm) (bk_terms node))))"
  using assms search_hits(1) [of node "fm_termMap fm" "normalize q" k "size_t limit" "[]"]
  by (simp add: FuzzyMatcher_match_def fm_inv_def option_terms_def)

lemma match_spec:
  assumes inv: "fm_inv fm"
  shows "\<exists>rs. FuzzyMatcher_match q k limit fm = Inr rs
    \<and> sorted (map snd rs)
    \<and> mset rs \<subseteq># image_mset (\<lambda>t. (lookup_or [] (fm_termMap fm) t, int (edit (normalize q) t)))
        (mset_set {t \<in> keys (fm_termMap fm). int (edit (normalize q) t) \<le> k})
    \<and> length rs = min (size_t limit) (card {t \<in> keys (fm_termMap fm). int (edit (normalize q) t) \<le> k})"
proof (cases "fm_root fm")
  case None
  then have "keys (fm_termMap fm) = {}"
    using inv by (auto simp: fm_inv_def option_terms_def)
  then show ?thesis using None by (simp add: FuzzyMatcher_match_def)
next
  case (Some node)
  let ?h = "hits (normalize q) k (fm_termMap fm) (bk_terms node)"
  have d: "distinct (bk_terms node)" and t: "set (bk_terms node) = keys (fm_termMap fm)"
    using inv Some bk_terms_distinct by (auto simp: fm_inv_def option_terms_def)
  have "mset (take n ?h) \<subseteq># mset ?h" for n
    by (metis append_take_drop_id mset_append mset_subset_eq_add_left)
  then show ?thesis using match_hits [OF inv Some, of q k limit] mset_hits [OF d] length_hits [OF d]
    by (simp add: t)
qed

section \<open>Properties\<close>

text \<open>
  C13: the two-row table computes the edit distance, the least number of insertions, deletions and
  substitutions that turn one string into the other, and this distance is a metric.
\<close>

theorem levenshtein_exact:
  "levenshteinDistance s1 s2 = int (LEAST n. edits s1 s2 n)
   \<and> (levenshteinDistance s1 s2 = 0 \<longleftrightarrow> s1 = s2)
   \<and> levenshteinDistance s1 s2 = levenshteinDistance s2 s1
   \<and> levenshteinDistance s1 s3 \<le> levenshteinDistance s1 s2 + levenshteinDistance s2 s3"
proof -
  have "(LEAST n. edits s1 s2 n) = edit s1 s2"
    by (rule Least_equality) (auto intro: edits_edit edit_least)
  then show ?thesis using edit_triangle [of s1 s3 s2] by (simp add: levenshtein_edit edit_sym [of s2 s1])
qed



end
