(* ===== verification/Bounded_Log.thy ===== *)
theory Bounded_Log
  imports Lithium_Prelude
begin

text \<open>
  The contract of the stores that keep a bounded part of a history, the log sink and the event bus:
  they show the newest entries first, never more than the capacity. Whatever is pushed, the store shows the last
  entries of the whole history.
\<close>

locale bounded_log =
  fixes push :: "'e \<Rightarrow> 's \<Rightarrow> 's option"
    and recent :: "'s \<Rightarrow> 'e list"
    and capacity :: "'s \<Rightarrow> nat"
    and inv :: "'s \<Rightarrow> bool"
  assumes push_total: "inv s \<Longrightarrow> \<exists>s'. push e s = Some s'"
    and push_inv: "inv s \<Longrightarrow> push e s = Some s' \<Longrightarrow> inv s' \<and> capacity s' = capacity s"
    and push_recent: "inv s \<Longrightarrow> push e s = Some s' \<Longrightarrow> recent s' = take (capacity s) (e # recent s)"
begin

fun push_all :: "'e list \<Rightarrow> 's \<Rightarrow> 's option" where
  "push_all [] s = Some s"
| "push_all (e # es) s = (case push e s of None \<Rightarrow> None | Some s' \<Rightarrow> push_all es s')"

lemma push_all_recent:
  "inv s \<Longrightarrow> \<exists>s'. push_all es s = Some s' \<and> inv s' \<and> capacity s' = capacity s
     \<and> (length (recent s) \<le> capacity s \<longrightarrow> recent s' = take (capacity s) (rev es @ recent s))"
proof (induction es arbitrary: s)
  case (Cons e es)
  obtain s1 where s1: "push e s = Some s1" using push_total [OF Cons.prems] by blast
  then have i: "inv s1" "capacity s1 = capacity s" "recent s1 = take (capacity s) (e # recent s)"
    using push_inv [OF Cons.prems] push_recent [OF Cons.prems] by auto
  have "take n (rev es @ take n (e # xs)) = take n (rev es @ e # xs)" for n and xs :: "'e list"
    by (cases "n - length es") (simp_all add: take_Cons')
  then show ?case using Cons.IH [OF i(1)] s1 i by auto
qed simp

end

end
