(* ===== verification/Ring_Buffer.thy ===== *)
theory Ring_Buffer
  imports Bounded_Log "HOL-Library.Sublist"
begin

text \<open>
  The in-memory log sink, \<^verbatim>\<open>src/src/logging/sinks/ring_buffer_sink.cpp\<close>: a vector used as a ring,
  the queries on it, and the callbacks. Statistics and callbacks act on a world \<open>'w\<close>; a callback
  that throws is ignored by the sink, so \<open>call\<close> gives the world in both cases. The capacity stays
  below half the range of \<^verbatim>\<open>size_t\<close>, so index sums do not wrap. Indexing the vector out of bounds and
  the remainder by zero are undefined, the value \<open>None\<close>.
\<close>

section \<open>State and operations\<close>

record LogEntry =
  le_timestamp :: int
  le_level :: nat
  le_logger_name :: string
  le_message :: string
  le_thread_id :: string
  le_source_file :: string
  le_source_line :: int

record log_msg =
  lm_time :: int
  lm_level :: nat
  lm_logger_name :: string
  lm_payload :: string
  lm_thread_id :: string
  lm_source :: "(string \<times> int) option"

record 'cb ring_buffer =
  rb_max_items :: nat
  rb_buffer :: "LogEntry list"
  rb_head :: nat
  rb_count :: nat
  rb_callbacks :: "'cb umap"

definition LogEntry_default :: LogEntry where
  "LogEntry_default = \<lparr>le_timestamp = 0, le_level = 2, le_logger_name = [], le_message = [],
     le_thread_id = [], le_source_file = [], le_source_line = 0\<rparr>"

definition RingBufferSink_new :: "nat \<Rightarrow> 'cb ring_buffer" where
  "RingBufferSink_new max_items =
     \<lparr>rb_max_items = max_items, rb_buffer = replicate max_items LogEntry_default, rb_head = 0, rb_count = 0,
      rb_callbacks = []\<rparr>"

definition entry_of :: "log_msg \<Rightarrow> LogEntry" where
  "entry_of msg =
     \<lparr>le_timestamp = lm_time msg, le_level = lm_level msg, le_logger_name = lm_logger_name msg,
      le_message = lm_payload msg, le_thread_id = lm_thread_id msg,
      le_source_file = (case lm_source msg of None \<Rightarrow> [] | Some (f, l) \<Rightarrow> f),
      le_source_line = (case lm_source msg of None \<Rightarrow> 0 | Some (f, l) \<Rightarrow> l)\<rparr>"

definition rb_store :: "LogEntry \<Rightarrow> 'cb ring_buffer \<Rightarrow> 'cb ring_buffer option" where
  "rb_store entry rb =
     (if rb_head rb \<ge> length (rb_buffer rb) \<or> rb_max_items rb = 0 then None
      else Some (rb\<lparr>rb_buffer := (rb_buffer rb)[rb_head rb := entry],
                    rb_head := (rb_head rb + 1) mod rb_max_items rb,
                    rb_count := (if rb_count rb < rb_max_items rb then rb_count rb + 1 else rb_count rb)\<rparr>))"

definition sink_it ::
    "(nat \<Rightarrow> string \<Rightarrow> nat \<Rightarrow> 'w \<Rightarrow> 'w) \<Rightarrow> ('cb \<Rightarrow> LogEntry \<Rightarrow> 'w \<Rightarrow> 'w)
     \<Rightarrow> log_msg \<Rightarrow> 'cb ring_buffer \<Rightarrow> 'w \<Rightarrow> ('cb ring_buffer \<times> 'w) option" where
  "sink_it recordMessage call msg rb w =
     (let entry = entry_of msg;
          w = recordMessage (le_level entry) (le_logger_name entry) (length (le_message entry)) w
      in case rb_store entry rb of
           None \<Rightarrow> None
         | Some rb' \<Rightarrow> Some (rb', foldl (\<lambda>w (i, callback). call callback entry w) w (rb_callbacks rb')))"

definition rb_window :: "nat \<Rightarrow> 'cb ring_buffer \<Rightarrow> LogEntry list" where
  "rb_window n rb =
     (let start = (rb_head rb + rb_max_items rb - n) mod rb_max_items rb
      in map (\<lambda>i. rb_buffer rb ! ((start + i) mod rb_max_items rb)) [0..<n])"

definition getEntries :: "nat \<Rightarrow> 'cb ring_buffer \<Rightarrow> LogEntry list" where
  "getEntries n rb =
     (let actual_count = (if n = 0 \<or> n > rb_count rb then rb_count rb else n)
      in if rb_count rb = 0 then [] else rb_window actual_count rb)"

definition getEntriesSince :: "int \<Rightarrow> 'cb ring_buffer \<Rightarrow> LogEntry list" where
  "getEntriesSince since rb =
     (if rb_count rb = 0 then []
      else filter (\<lambda>e. le_timestamp e \<ge> since) (rb_window (rb_count rb) rb))"

definition entry_matches :: "nat option \<Rightarrow> string option \<Rightarrow> LogEntry \<Rightarrow> bool" where
  "entry_matches level_filter logger_filter entry =
     (if (case level_filter of None \<Rightarrow> False | Some l \<Rightarrow> le_level entry < l) then False
      else case logger_filter of None \<Rightarrow> True | Some f \<Rightarrow> sublist f (le_logger_name entry))"

text \<open>The loop stops as soon as the result is full.\<close>

fun filteredLoop :: "(LogEntry \<Rightarrow> bool) \<Rightarrow> nat \<Rightarrow> LogEntry list \<Rightarrow> LogEntry list \<Rightarrow> LogEntry list" where
  "filteredLoop matches max_count [] result = result"
| "filteredLoop matches max_count (entry # rest) result =
     (if length result < max_count
      then filteredLoop matches max_count rest (if matches entry then result @ [entry] else result)
      else result)"

definition getEntriesFiltered ::
    "nat option \<Rightarrow> string option \<Rightarrow> nat \<Rightarrow> 'cb ring_buffer \<Rightarrow> LogEntry list" where
  "getEntriesFiltered level_filter logger_filter max_count rb =
     (if rb_count rb = 0 then []
      else filteredLoop (entry_matches level_filter logger_filter) max_count (rb_window (rb_count rb) rb) [])"

definition RingBuffer_clear :: "'cb ring_buffer \<Rightarrow> 'cb ring_buffer" where
  "RingBuffer_clear rb = rb\<lparr>rb_head := 0, rb_count := 0\<rparr>"

definition addCallback :: "string \<Rightarrow> 'cb \<Rightarrow> 'cb ring_buffer \<Rightarrow> 'cb ring_buffer" where
  "addCallback i callback rb = rb\<lparr>rb_callbacks := AList.update i callback (rb_callbacks rb)\<rparr>"

definition removeCallback :: "string \<Rightarrow> 'cb ring_buffer \<Rightarrow> 'cb ring_buffer" where
  "removeCallback i rb = rb\<lparr>rb_callbacks := AList.delete i (rb_callbacks rb)\<rparr>"

definition hasCallback :: "string \<Rightarrow> 'cb ring_buffer \<Rightarrow> bool" where
  "hasCallback i rb \<longleftrightarrow> map_of (rb_callbacks rb) i \<noteq> None"

section \<open>The ring implements the log\<close>

definition rb_inv :: "'cb ring_buffer \<Rightarrow> bool" where
  "rb_inv rb \<longleftrightarrow> 0 < rb_max_items rb \<and> length (rb_buffer rb) = rb_max_items rb
     \<and> rb_head rb < rb_max_items rb \<and> rb_count rb \<le> rb_max_items rb"

text \<open>The position \<open>j\<close> steps before the head, and the stored entries from the newest on.\<close>

definition rb_slot :: "'cb ring_buffer \<Rightarrow> nat \<Rightarrow> nat" where
  "rb_slot rb j = (rb_head rb + rb_max_items rb - j) mod rb_max_items rb"

definition rb_recent :: "'cb ring_buffer \<Rightarrow> LogEntry list" where
  "rb_recent rb = map (\<lambda>j. rb_buffer rb ! rb_slot rb (Suc j)) [0..<rb_count rb]"

lemma rb_slot_head: "rb_inv rb \<Longrightarrow> rb_slot rb 0 = rb_head rb"
  by (simp add: rb_slot_def rb_inv_def)

lemma rb_slot_neq_head:
  assumes "rb_inv rb" "0 < j" "j < rb_max_items rb"
  shows "rb_slot rb j \<noteq> rb_head rb"
proof (cases "j \<le> rb_head rb")
  case True
  have "rb_slot rb j = (rb_head rb - j) mod rb_max_items rb"
    using True mod_add_self2 [of "rb_head rb - j" "rb_max_items rb"] by (simp add: rb_slot_def)
  also have "\<dots> = rb_head rb - j" using assms(1) by (intro mod_less) (simp add: rb_inv_def less_imp_diff_less)
  finally show ?thesis using True assms(2) by simp
next
  case False
  then show ?thesis using assms by (simp add: rb_slot_def rb_inv_def)
qed

lemma rb_window_recent:
  assumes "rb_inv rb" "n \<le> rb_count rb"
  shows "rb_window n rb = rev (take n (rb_recent rb))"
proof (rule nth_equalityI)
  fix i assume "i < length (rb_window n rb)"
  then have i: "i < n" by (simp add: rb_window_def Let_def)
  have "rb_window n rb ! i = rb_buffer rb ! ((rb_head rb + rb_max_items rb - n + i) mod rb_max_items rb)"
    using i by (simp add: rb_window_def Let_def mod_add_left_eq)
  moreover have "rb_head rb + rb_max_items rb - n + i = rb_head rb + rb_max_items rb - Suc (n - Suc i)"
    using i assms by (simp add: rb_inv_def)
  ultimately show "rb_window n rb ! i = rev (take n (rb_recent rb)) ! i"
    using i assms(2) by (simp add: rev_nth rb_recent_def rb_slot_def)
qed (use assms(2) in \<open>simp add: rb_window_def rb_recent_def Let_def\<close>)

lemma rb_store_Some:
  assumes "rb_inv rb"
  shows "\<exists>rb'. rb_store e rb = Some rb' \<and> rb_inv rb' \<and> rb_max_items rb' = rb_max_items rb
    \<and> rb_count rb' = min (rb_max_items rb) (rb_count rb + 1) \<and> rb_callbacks rb' = rb_callbacks rb
    \<and> rb_buffer rb' = (rb_buffer rb)[rb_head rb := e] \<and> rb_head rb' = (rb_head rb + 1) mod rb_max_items rb"
  using assms by (auto simp: rb_store_def rb_inv_def)

lemma rb_store_slot:
  assumes "rb_inv rb" "rb_head rb' = (rb_head rb + 1) mod rb_max_items rb" "rb_max_items rb' = rb_max_items rb"
    "j < rb_max_items rb"
  shows "rb_slot rb' (Suc j) = rb_slot rb j"
proof -
  let ?m = "rb_max_items rb"
  have "rb_slot rb' (Suc j) = ((rb_head rb + 1) mod ?m + (?m - Suc j)) mod ?m"
    using assms(2-4) by (simp add: rb_slot_def)
  also have "\<dots> = (rb_head rb + 1 + (?m - Suc j)) mod ?m" by (rule mod_add_left_eq)
  also have "rb_head rb + 1 + (?m - Suc j) = rb_head rb + ?m - j" using assms(4) by simp
  finally show ?thesis by (simp add: rb_slot_def)
qed

lemma rb_store_recent:
  assumes "rb_inv rb" "rb_store e rb = Some rb'"
  shows "rb_recent rb' = take (rb_max_items rb) (e # rb_recent rb)"
proof (rule nth_equalityI)
  have r: "rb_inv rb'" "rb_max_items rb' = rb_max_items rb" "rb_count rb' = min (rb_max_items rb) (rb_count rb + 1)"
    "rb_buffer rb' = (rb_buffer rb)[rb_head rb := e]" "rb_head rb' = (rb_head rb + 1) mod rb_max_items rb"
    using rb_store_Some [OF assms(1), of e] assms(2) by auto
  show "length (rb_recent rb') = length (take (rb_max_items rb) (e # rb_recent rb))"
    using r(3) by (simp add: rb_recent_def)
  fix i assume "i < length (rb_recent rb')"
  then have i: "i < rb_max_items rb" "i < rb_count rb'" "i \<le> rb_count rb" using r(3) by (auto simp: rb_recent_def)
  have n: "rb_recent rb' ! i = (rb_buffer rb)[rb_head rb := e] ! rb_slot rb i"
    using i(1,2) rb_store_slot [OF assms(1) r(5,2) i(1)] r(4) by (simp add: rb_recent_def)
  show "rb_recent rb' ! i = take (rb_max_items rb) (e # rb_recent rb) ! i"
  proof (cases i)
    case 0
    then show ?thesis using n i(1) assms(1) rb_slot_head [OF assms(1)] by (simp add: rb_inv_def)
  next
    case (Suc j)
    then show ?thesis using n i rb_slot_neq_head [OF assms(1), of i]
      by (simp add: rb_recent_def)
  qed
qed

interpretation ring: bounded_log rb_store rb_recent rb_max_items rb_inv
proof
  show "\<exists>s'. rb_store e s = Some s'" if "rb_inv s" for s :: "'cb ring_buffer" and e
    using rb_store_Some [OF that] by blast
  show "rb_inv s' \<and> rb_max_items s' = rb_max_items s" if "rb_inv s" "rb_store e s = Some s'"
    for s s' :: "'cb ring_buffer" and e
    using rb_store_Some [OF that(1), of e] that(2) by auto
  show "rb_recent s' = take (rb_max_items s) (e # rb_recent s)" if "rb_inv s" "rb_store e s = Some s'"
    for s s' :: "'cb ring_buffer" and e
    by (rule rb_store_recent [OF that])
qed

lemma filteredLoop_take:
  "length result \<le> n \<Longrightarrow> filteredLoop P n es result = result @ take (n - length result) (filter P es)"
proof (induction es arbitrary: result)
  case (Cons e es)
  then show ?case
    by (cases "n - length result") (auto simp: Cons.IH diff_Suc)
qed simp

lemma getEntries_recent:
  assumes "rb_inv rb"
  shows "getEntries n rb = rev (take (if n = 0 then rb_count rb else n) (rb_recent rb))"
    "getEntriesSince t rb = filter (\<lambda>e. le_timestamp e \<ge> t) (rev (rb_recent rb))"
    "getEntriesFiltered lf gf k rb = take k (filter (entry_matches lf gf) (rev (rb_recent rb)))"
proof -
  have l: "length (rb_recent rb) = rb_count rb" by (simp add: rb_recent_def)
  show "getEntries n rb = rev (take (if n = 0 then rb_count rb else n) (rb_recent rb))"
    using rb_window_recent [OF assms] l by (auto simp: getEntries_def Let_def)
  show "getEntriesSince t rb = filter (\<lambda>e. le_timestamp e \<ge> t) (rev (rb_recent rb))"
    using rb_window_recent [OF assms order_refl] l by (auto simp: getEntriesSince_def)
  show "getEntriesFiltered lf gf k rb = take k (filter (entry_matches lf gf) (rev (rb_recent rb)))"
    using rb_window_recent [OF assms order_refl] l by (auto simp: getEntriesFiltered_def filteredLoop_take)
qed

lemma new_ring: "0 < n \<Longrightarrow> rb_inv (RingBufferSink_new n) \<and> rb_recent (RingBufferSink_new n) = []"
  by (simp add: rb_inv_def RingBufferSink_new_def rb_recent_def)

section \<open>Properties\<close>

text \<open>The sink applied to a sequence of messages.\<close>

fun sink_all ::
    "(nat \<Rightarrow> string \<Rightarrow> nat \<Rightarrow> 'w \<Rightarrow> 'w) \<Rightarrow> ('cb \<Rightarrow> LogEntry \<Rightarrow> 'w \<Rightarrow> 'w)
     \<Rightarrow> log_msg list \<Rightarrow> 'cb ring_buffer \<Rightarrow> 'w \<Rightarrow> ('cb ring_buffer \<times> 'w) option" where
  "sink_all recordMessage call [] rb w = Some (rb, w)"
| "sink_all recordMessage call (msg # msgs) rb w =
     (case sink_it recordMessage call msg rb w of
        None \<Rightarrow> None
      | Some (rb', w') \<Rightarrow> sink_all recordMessage call msgs rb' w')"

lemma sink_all_push:
  "map_option fst (sink_all recordMessage call msgs rb w) = ring.push_all (map entry_of msgs) rb"
  by (induction msgs arbitrary: rb w) (auto simp: sink_it_def Let_def split: option.splits)

text \<open>
  C12: the ring buffer shows the end of the history. After any sequence of messages a query for
  \<open>n\<close> entries returns the last \<open>n\<close> messages, oldest first, as far as the capacity reaches, and all
  that are kept when \<open>n\<close> is zero; the other queries filter the same window in the same order.
\<close>

theorem ring_buffer_shows_history:
  assumes "0 < max_items"
  shows "\<exists>rb w'. sink_all recordMessage call msgs (RingBufferSink_new max_items) w = Some (rb, w')
    \<and> rb_count rb = min max_items (length msgs)
    \<and> getEntries n rb =
        rev (take (if n = 0 then max_items else min n max_items) (rev (map entry_of msgs)))
    \<and> getEntriesSince t rb =
        filter (\<lambda>e. le_timestamp e \<ge> t) (rev (take max_items (rev (map entry_of msgs))))
    \<and> getEntriesFiltered lf gf k rb =
        take k (filter (entry_matches lf gf) (rev (take max_items (rev (map entry_of msgs)))))"
proof -
  let ?es = "map entry_of msgs" and ?rb0 = "RingBufferSink_new max_items :: 'a ring_buffer"
  have cap: "rb_max_items ?rb0 = max_items" by (simp add: RingBufferSink_new_def)
  have i: "rb_inv ?rb0" and n: "rb_recent ?rb0 = []" using new_ring [OF assms] by blast+
  from ring.push_all_recent [OF i, of ?es] obtain rb where
    rb: "ring.push_all ?es ?rb0 = Some rb" "rb_inv rb" "rb_max_items rb = max_items"
      "rb_recent rb = take max_items (rev ?es)"
    unfolding cap n by auto
  then obtain w' where w': "sink_all recordMessage call msgs ?rb0 w = Some (rb, w')"
    using sink_all_push [of recordMessage call msgs ?rb0 w] by (auto simp: map_option_case split: option.splits)
  have c: "rb_count rb = min max_items (length msgs)"
    using arg_cong [OF rb(4), of length] by (simp add: rb_recent_def)
  show ?thesis
    by (intro exI [of _ rb] exI [of _ w'])
      (auto simp: w' c getEntries_recent [OF rb(2)] rb(4) min_def)
qed

theorem ring_buffer_shows_history_witness:
  "\<exists>rb w'. sink_all (\<lambda>l n k w. w + 1) (\<lambda>cb e w. w)
      (map (\<lambda>i. \<lparr>lm_time = i, lm_level = 2, lm_logger_name = ''core'', lm_payload = ''x'', lm_thread_id = ''1'',
         lm_source = None\<rparr>) [1, 2, 3]) (RingBufferSink_new 2 :: unit ring_buffer) (0 :: nat) = Some (rb, w')
    \<and> map le_timestamp (getEntries 0 rb) = [2, 3]"
proof -
  have "0 < (2 :: nat)" by simp
  from ring_buffer_shows_history [OF this, of "\<lambda>l n k w. w + 1" "\<lambda>(cb :: unit) e w. w"
      "map (\<lambda>i. \<lparr>lm_time = i, lm_level = 2, lm_logger_name = ''core'', lm_payload = ''x'', lm_thread_id = ''1'',
         lm_source = None\<rparr>) [1, 2, 3]" "0 :: nat" 0 0 None None 0]
  show ?thesis by (elim exE conjE) (intro exI conjI, assumption, simp add: entry_of_def)
qed

end
