(* ===== verification/Rate_Limiter.thy ===== *)
theory Rate_Limiter
  imports Lithium_Prelude "HOL-Library.Signed_Division"
begin

text \<open>
  The request limiter of the server, \<^verbatim>\<open>src/src/server/rate_limiter.cpp\<close>: a token bucket and sliding
  windows per IP address and per user. Time points are integers in nanoseconds and the reading of the
  steady clock is the argument \<open>now\<close>; each operation runs under its mutex and is one step. Conversions
  to \<^verbatim>\<open>int\<close> wrap at 32 bits. Division by a zero interval and overflow of an \<^verbatim>\<open>int\<close> sum are undefined,
  the value \<open>None\<close>.
\<close>

section \<open>State and operations\<close>

record rate_limiter =
  rl_max_tokens :: int
  rl_tokens :: int
  rl_refill_interval :: int
  rl_last_refill_time :: int
  rl_request_timestamps :: "int list"
  rl_ip_limiters :: "int list umap"
  rl_user_limiters :: "int list umap"

text \<open>\<^verbatim>\<open>duration_cast\<close> to a unit given in nanoseconds, and the quotient of integers both truncate: they are
  the signed division \<open>sdiv\<close> of the library.\<close>

definition RateLimiter_new :: "int \<Rightarrow> int \<Rightarrow> int \<Rightarrow> rate_limiter" where
  "RateLimiter_new max_tokens refill_interval now =
     \<lparr>rl_max_tokens = max_tokens, rl_tokens = max_tokens, rl_refill_interval = refill_interval,
      rl_last_refill_time = now, rl_request_timestamps = [], rl_ip_limiters = [], rl_user_limiters = []\<rparr>"

definition calculate_token_refill :: "int \<Rightarrow> rate_limiter \<Rightarrow> (int \<times> rate_limiter) option" where
  "calculate_token_refill now rl =
     (let elapsed_time = (now - rl_last_refill_time rl) sdiv 1000000
      in if elapsed_time \<ge> rl_refill_interval rl then
           if rl_refill_interval rl = 0 then None
           else
             let tokens_to_add = to_int32 (elapsed_time sdiv (rl_refill_interval rl))
             in if in_int (rl_tokens rl + tokens_to_add)
                then Some (tokens_to_add,
                       rl\<lparr>rl_tokens := min (rl_max_tokens rl) (rl_tokens rl + tokens_to_add),
                          rl_last_refill_time := now\<rparr>)
                else None
         else Some (0, rl))"

definition allow_request :: "int \<Rightarrow> rate_limiter \<Rightarrow> (bool \<times> rate_limiter) option" where
  "allow_request now rl =
     (case calculate_token_refill now rl of
        None \<Rightarrow> None
      | Some (refilled_tokens, rl) \<Rightarrow>
        if rl_tokens rl > 0
        then Some (True, rl\<lparr>rl_tokens := rl_tokens rl - 1,
                            rl_request_timestamps := rl_request_timestamps rl @ [now]\<rparr>)
        else Some (False, rl))"

definition set_refill_rate :: "int \<Rightarrow> rate_limiter \<Rightarrow> rate_limiter" where
  "set_refill_rate new_refill_interval rl = rl\<lparr>rl_refill_interval := new_refill_interval\<rparr>"

definition get_remaining_tokens :: "int \<Rightarrow> rate_limiter \<Rightarrow> (int \<times> rate_limiter) option" where
  "get_remaining_tokens now rl =
     map_option (\<lambda>(refilled, rl). (rl_tokens rl, rl)) (calculate_token_refill now rl)"

definition get_request_count :: "int \<Rightarrow> int \<Rightarrow> rate_limiter \<Rightarrow> int \<times> rate_limiter" where
  "get_request_count window now rl =
     (let ts = filter (\<lambda>t. \<not> (now - t) sdiv 1000000000 \<ge> window) (rl_request_timestamps rl)
      in (int (length ts), rl\<lparr>rl_request_timestamps := ts\<rparr>))"

definition ip_cleanup :: "int \<Rightarrow> int list \<Rightarrow> int list" where
  "ip_cleanup now ts = filter (\<lambda>t. \<not> (now - t) sdiv 1000000000 \<ge> 1) ts"

definition user_cleanup :: "int \<Rightarrow> int list \<Rightarrow> int list" where
  "user_cleanup now ts = filter (\<lambda>t. \<not> (now - t) sdiv 60000000000 \<ge> 1) ts"

definition MAX_REQUESTS_PER_SECOND :: nat where
  "MAX_REQUESTS_PER_SECOND = 5"

definition ip_allow :: "int \<Rightarrow> int list \<Rightarrow> bool \<times> int list" where
  "ip_allow now ts =
     (let ts = ip_cleanup now (ts @ [now])
      in (length ts \<le> MAX_REQUESTS_PER_SECOND, ts))"

definition allow_request_for_ip :: "string \<Rightarrow> int \<Rightarrow> rate_limiter \<Rightarrow> bool \<times> rate_limiter" where
  "allow_request_for_ip ip now rl =
     (case ip_allow now (lookup_or [] (rl_ip_limiters rl) ip) of
        (request_allowed, ts) \<Rightarrow>
          (request_allowed, rl\<lparr>rl_ip_limiters := AList.update ip ts (rl_ip_limiters rl)\<rparr>))"

definition allow_request_with_limit :: "string \<Rightarrow> int \<Rightarrow> int \<Rightarrow> rate_limiter \<Rightarrow> bool \<times> rate_limiter" where
  "allow_request_with_limit user_id max_requests_per_minute now rl =
     (let ts = user_cleanup now (lookup_or [] (rl_user_limiters rl) user_id @ [now])
      in (int (length ts) \<le> max_requests_per_minute,
          rl\<lparr>rl_user_limiters := AList.update user_id ts (rl_user_limiters rl)\<rparr>))"

section \<open>Token bucket\<close>

fun allow_all :: "int list \<Rightarrow> rate_limiter \<Rightarrow> (nat \<times> rate_limiter) option" where
  "allow_all [] rl = Some (0, rl)"
| "allow_all (now # rest) rl =
     (case allow_request now rl of
        None \<Rightarrow> None
      | Some (allowed, rl') \<Rightarrow>
        (case allow_all rest rl' of
           None \<Rightarrow> None
         | Some (n, rl'') \<Rightarrow> Some (if allowed then n + 1 else n, rl'')))"

text \<open>The refill interval in nanoseconds, and what a usable bucket satisfies.\<close>

abbreviation interval_ns :: "rate_limiter \<Rightarrow> int" where
  "interval_ns rl \<equiv> rl_refill_interval rl * 1000000"

definition bucket_ok :: "rate_limiter \<Rightarrow> bool" where
  "bucket_ok rl \<longleftrightarrow> 0 < rl_refill_interval rl \<and> 0 \<le> rl_tokens rl \<and> rl_tokens rl \<le> rl_max_tokens rl
     \<and> rl_max_tokens rl < 2 ^ 31"

text \<open>A clock reading so late that the refill would overflow the counter.\<close>

definition in_horizon :: "rate_limiter \<Rightarrow> int \<Rightarrow> bool" where
  "in_horizon rl now \<longleftrightarrow> rl_last_refill_time rl \<le> now
     \<and> now - rl_last_refill_time rl < (2 ^ 31 - rl_max_tokens rl) * interval_ns rl"

lemma sdiv_nonneg: "0 \<le> a \<Longrightarrow> 0 < b \<Longrightarrow> a sdiv b = a div b" for a b :: int
  by (cases "a = 0") (auto simp: signed_divide_int_def)

lemma refill_step:
  assumes "bucket_ok rl" "in_horizon rl now"
  shows "\<exists>k rl'. calculate_token_refill now rl = Some (k, rl') \<and> bucket_ok rl'
    \<and> rl_refill_interval rl' = rl_refill_interval rl \<and> rl_max_tokens rl' = rl_max_tokens rl
    \<and> rl_last_refill_time rl \<le> rl_last_refill_time rl' \<and> rl_last_refill_time rl' \<le> now
    \<and> rl_tokens rl' * interval_ns rl \<le> rl_tokens rl * interval_ns rl
        + (rl_last_refill_time rl' - rl_last_refill_time rl)"
proof -
  let ?i = "rl_refill_interval rl" and ?I = "interval_ns rl" and ?e = "now - rl_last_refill_time rl"
  have i: "0 < ?i" "0 \<le> ?e" using assms by (auto simp: bucket_ok_def in_horizon_def)
  define q where "q = ?e div ?I"
  have e: "?e sdiv 1000000 = ?e div 1000000" using i by (simp add: sdiv_nonneg)
  have "q = ?e div 1000000 div ?i" using zdiv_zmult2_eq [of ?i ?e 1000000] i by (simp add: q_def mult.commute)
  then have q: "(?e div 1000000) sdiv ?i = q"
    using i by (simp add: sdiv_nonneg pos_imp_zdiv_nonneg_iff)
  have q0: "0 \<le> q" and qI: "q * ?I \<le> ?e"
    using i by (auto simp: q_def pos_imp_zdiv_nonneg_iff minus_mod_eq_div_mult [symmetric])
  have "q * ?I < (2 ^ 31 - rl_max_tokens rl) * ?I" using qI assms(2) unfolding in_horizon_def by linarith
  then have "q < 2 ^ 31 - rl_max_tokens rl" using i(1) by (simp only: mult_less_cancel_right_disj) auto
  then have ok: "in_int (rl_tokens rl + q)" "in_int q"
    using assms(1) q0 by (auto simp: bucket_ok_def in_int_def int_min_def int_max_def)
  show ?thesis
  proof (cases "?e div 1000000 \<ge> ?i")
    case True
    have "min (rl_max_tokens rl) (rl_tokens rl + q) * ?I \<le> (rl_tokens rl + q) * ?I"
      using i by (intro mult_right_mono) auto
    also have "\<dots> \<le> rl_tokens rl * ?I + ?e" using qI by (simp add: distrib_right)
    finally show ?thesis using True assms q0 i ok
      by (auto simp: calculate_token_refill_def Let_def e q to_int32_id bucket_ok_def)
  next
    case False
    then show ?thesis using assms i by (simp add: calculate_token_refill_def Let_def e bucket_ok_def)
  qed
qed

lemma allow_step:
  assumes "bucket_ok rl" "in_horizon rl now"
  shows "\<exists>b rl'. allow_request now rl = Some (b, rl') \<and> bucket_ok rl'
    \<and> rl_refill_interval rl' = rl_refill_interval rl \<and> rl_max_tokens rl' = rl_max_tokens rl
    \<and> rl_last_refill_time rl \<le> rl_last_refill_time rl' \<and> rl_last_refill_time rl' \<le> now
    \<and> (rl_tokens rl' + (if b then 1 else 0)) * interval_ns rl \<le> rl_tokens rl * interval_ns rl
        + (rl_last_refill_time rl' - rl_last_refill_time rl)"
proof -
  obtain k rl1 where r: "calculate_token_refill now rl = Some (k, rl1)" "bucket_ok rl1"
    "rl_refill_interval rl1 = rl_refill_interval rl" "rl_max_tokens rl1 = rl_max_tokens rl"
    "rl_last_refill_time rl \<le> rl_last_refill_time rl1" "rl_last_refill_time rl1 \<le> now"
    "rl_tokens rl1 * interval_ns rl \<le> rl_tokens rl * interval_ns rl
        + (rl_last_refill_time rl1 - rl_last_refill_time rl)"
    using refill_step [OF assms] by blast
  show ?thesis
  proof (cases "rl_tokens rl1 > 0")
    case True
    let ?rl = "rl1\<lparr>rl_tokens := rl_tokens rl1 - 1, rl_request_timestamps := rl_request_timestamps rl1 @ [now]\<rparr>"
    from True show ?thesis using r
      by (intro exI [of _ True] exI [of _ ?rl]) (simp add: allow_request_def bucket_ok_def)
  next
    case False
    then show ?thesis using r by (intro exI [of _ False] exI [of _ rl1]) (simp add: allow_request_def)
  qed
qed

lemma horizon_step:
  assumes "in_horizon rl t" "rl_last_refill_time rl \<le> rl_last_refill_time rl'" "rl_last_refill_time rl' \<le> t"
    "rl_max_tokens rl' = rl_max_tokens rl" "rl_refill_interval rl' = rl_refill_interval rl"
  shows "in_horizon rl' t"
  using assms by (auto simp: in_horizon_def)

lemma allow_all_bound:
  "bucket_ok rl \<Longrightarrow> sorted ts \<Longrightarrow> list_all (in_horizon rl) ts \<Longrightarrow> \<forall>t \<in> set ts. t \<le> u \<Longrightarrow> rl_last_refill_time rl \<le> u \<Longrightarrow>
   \<exists>n rl'. allow_all ts rl = Some (n, rl') \<and> bucket_ok rl' \<and> rl_last_refill_time rl' \<le> u
     \<and> (rl_tokens rl' + int n) * interval_ns rl \<le> rl_tokens rl * interval_ns rl
        + (rl_last_refill_time rl' - rl_last_refill_time rl)"
proof (induction ts arbitrary: rl)
  case (Cons t ts)
  have "in_horizon rl t" using Cons.prems(3) by simp
  from allow_step [OF Cons.prems(1) this] obtain b rl1 where
    r: "allow_request t rl = Some (b, rl1)" "bucket_ok rl1"
      "rl_refill_interval rl1 = rl_refill_interval rl" "rl_max_tokens rl1 = rl_max_tokens rl"
      "rl_last_refill_time rl \<le> rl_last_refill_time rl1" "rl_last_refill_time rl1 \<le> t"
      "(rl_tokens rl1 + (if b then 1 else 0)) * interval_ns rl \<le> rl_tokens rl * interval_ns rl
        + (rl_last_refill_time rl1 - rl_last_refill_time rl)" by blast
  have "in_horizon rl1 x" if "x \<in> set ts" for x
    by (rule horizon_step [of rl]) (use that Cons.prems(2,3) r(3-6) in \<open>auto simp: list_all_iff intro: order_trans\<close>)
  then have h: "list_all (in_horizon rl1) ts" by (simp add: list_all_iff)
  have "rl_last_refill_time rl1 \<le> u" using r(6) Cons.prems(4) by auto
  with Cons.IH [OF r(2) _ h, of] Cons.prems(2,4) obtain n rl2 where
    n: "allow_all ts rl1 = Some (n, rl2)" "bucket_ok rl2" "rl_last_refill_time rl2 \<le> u"
      "(rl_tokens rl2 + int n) * interval_ns rl \<le> rl_tokens rl1 * interval_ns rl
        + (rl_last_refill_time rl2 - rl_last_refill_time rl1)"
    using r(3) by auto
  show ?case using r(1,7) n by (cases b) (auto simp: distrib_right)
qed simp

section \<open>Sliding windows\<close>

text \<open>
  The contract of the two clean-up functions: exactly the entries of the last \<open>width\<close>
  nanoseconds stay. For requests in the order of time the stored entries are then those of the whole
  history within the window, allowed or not.
\<close>

locale sliding_window =
  fixes cleanup :: "int \<Rightarrow> int list \<Rightarrow> int list" and width :: int
  assumes cleanup_window: "\<forall>t \<in> set ts. t \<le> now \<Longrightarrow> cleanup now ts = filter (\<lambda>t. now - t < width) ts"
begin

lemma window_history:
  assumes "sorted (ts @ [now])"
  shows "cleanup now (foldl (\<lambda>w t. cleanup t (w @ [t])) [] ts @ [now]) = filter (\<lambda>t. now - t < width) (ts @ [now])"
  using assms
proof (induction ts arbitrary: now rule: rev_induct)
  case Nil
  then show ?case by (subst cleanup_window) auto
next
  case (snoc t ts)
  let ?w = "foldl (\<lambda>w t. cleanup t (w @ [t])) [] ts"
  have s: "sorted (ts @ [t])" "t \<le> now" "\<forall>u \<in> set ts. u \<le> t" using snoc.prems by (auto simp: sorted_append)
  have w: "cleanup t (?w @ [t]) = filter (\<lambda>u. t - u < width) (ts @ [t])" by (rule snoc.IH [OF s(1)])
  have e: "t - u < width \<and> now - u < width \<longleftrightarrow> now - u < width" for u using s(2) by auto
  let ?x = "filter (\<lambda>u. t - u < width) (ts @ [t])"
  have "cleanup now (?x @ [now]) = filter (\<lambda>u. now - u < width) (?x @ [now])"
    by (rule cleanup_window) (use s in auto)
  also have "\<dots> = filter (\<lambda>u. now - u < width) ((ts @ [t]) @ [now])"
    unfolding filter_append filter_filter e ..
  finally show ?case by (simp only: foldl_append foldl_Cons foldl_Nil w)
qed

end

lemma sdiv_window: "t \<le> now \<Longrightarrow> 0 < w \<Longrightarrow> 1 \<le> (now - t) sdiv w \<longleftrightarrow> w \<le> now - t"
  for t now w :: int
proof -
  assume "t \<le> now" "0 < w"
  then have "(now - t) sdiv w = (now - t) div w" by (simp add: sdiv_nonneg)
  then show ?thesis using pos_imp_zdiv_pos_iff [of w "now - t"] \<open>0 < w\<close> by auto
qed

interpretation ip_window: sliding_window ip_cleanup 1000000000
  by unfold_locales (simp add: ip_cleanup_def sdiv_window not_le cong: filter_cong)

interpretation user_window: sliding_window user_cleanup 60000000000
  by unfold_locales (simp add: user_cleanup_def sdiv_window not_le cong: filter_cong)

text \<open>The requests of many addresses, or users, with their times, interleaved.\<close>

definition ip_requests :: "(string \<times> int) list \<Rightarrow> rate_limiter \<Rightarrow> rate_limiter" where
  "ip_requests es rl = foldl (\<lambda>rl (ip, t). snd (allow_request_for_ip ip t rl)) rl es"

definition user_requests :: "(string \<times> int \<times> int) list \<Rightarrow> rate_limiter \<Rightarrow> rate_limiter" where
  "user_requests es rl = foldl (\<lambda>rl (u, m, t). snd (allow_request_with_limit u m t rl)) rl es"

definition times_of :: "string \<Rightarrow> (string \<times> int) list \<Rightarrow> int list" where
  "times_of k es = map snd (filter (\<lambda>e. fst e = k) es)"

lemma ip_requests_history:
  "rl_ip_limiters rl = [] \<Longrightarrow>
   lookup_or [] (rl_ip_limiters (ip_requests es rl)) k = foldl (\<lambda>w t. ip_cleanup t (w @ [t])) [] (times_of k es)"
  by (induction es rule: rev_induct)
    (auto simp: ip_requests_def times_of_def allow_request_for_ip_def ip_allow_def Let_def)

lemma user_requests_history:
  "rl_user_limiters rl = [] \<Longrightarrow>
   lookup_or [] (rl_user_limiters (user_requests es rl)) k
     = foldl (\<lambda>w t. user_cleanup t (w @ [t])) [] (times_of k (map (\<lambda>(u, m, t). (u, t)) es))"
  by (induction es rule: rev_induct)
    (auto simp: user_requests_def times_of_def allow_request_with_limit_def Let_def)

lemma sorted_times: "sorted (map snd es @ [now]) \<Longrightarrow> sorted (times_of k es @ [now])"
  by (auto simp: sorted_append times_of_def sorted_filter)

section \<open>Properties\<close>

text \<open>
  C14: the token bucket bounds the rate. Within the range of the counter no request is undefined,
  the tokens stay between zero and the maximum, and the requests allowed until a time are at most the
  tokens at the start plus one per refill interval that has passed since.
\<close>

theorem token_bucket_bound:
  assumes "bucket_ok rl" "sorted (ts @ [u])" "list_all (in_horizon rl) ts" "rl_last_refill_time rl \<le> u"
  shows "\<exists>n rl'. allow_all ts rl = Some (n, rl') \<and> 0 \<le> rl_tokens rl' \<and> rl_tokens rl' \<le> rl_max_tokens rl'
    \<and> int n * interval_ns rl \<le> rl_tokens rl * interval_ns rl + (u - rl_last_refill_time rl)"
proof -
  have "sorted ts" "\<forall>t \<in> set ts. t \<le> u" using assms(2) by (auto simp: sorted_append)
  from allow_all_bound [OF assms(1) this(1) assms(3) this(2) assms(4)] obtain n rl' where
    r: "allow_all ts rl = Some (n, rl')" "bucket_ok rl'" "rl_last_refill_time rl' \<le> u"
      "(rl_tokens rl' + int n) * interval_ns rl \<le> rl_tokens rl * interval_ns rl
        + (rl_last_refill_time rl' - rl_last_refill_time rl)" by blast
  have "0 \<le> rl_tokens rl' * interval_ns rl" using r(2) assms(1) by (simp add: bucket_ok_def)
  then have "int n * interval_ns rl \<le> rl_tokens rl * interval_ns rl + (u - rl_last_refill_time rl)"
    using r(3,4) distrib_right [of "rl_tokens rl'" "int n" "interval_ns rl"] by linarith
  then show ?thesis using r(1,2) by (auto simp: bucket_ok_def)
qed

theorem token_bucket_bound_witness:
  "\<exists>n rl'. allow_all [0, 0, 0, 5000000] (RateLimiter_new 2 5 0) = Some (n, rl') \<and> int n \<le> 3"
proof -
  let ?rl = "RateLimiter_new 2 5 0"
  have "bucket_ok ?rl" "sorted ([0, 0, 0, 5000000] @ [5000000 :: int])"
    "list_all (in_horizon ?rl) [0, 0, 0, 5000000]" "rl_last_refill_time ?rl \<le> 5000000"
    by (simp_all add: bucket_ok_def in_horizon_def RateLimiter_new_def)
  from token_bucket_bound [OF this] show ?thesis by (force simp: RateLimiter_new_def)
qed

text \<open>
  The sliding windows are exact. When requests arrive in the order of time, a request of an
  address is allowed if and only if that address has made at most five requests in the last second,
  this one and the denied ones included; for users the window is a minute and the bound the argument.
  Requests of others play no role.
\<close>

theorem sliding_windows_exact:
  assumes "rl_ip_limiters rl = []" "rl_user_limiters rl = []"
    "sorted (map snd es @ [now])" "sorted (map (\<lambda>(u, m, t). t) us @ [now])"
  shows "(fst (allow_request_for_ip k now (ip_requests es rl)) \<longleftrightarrow>
      length (filter (\<lambda>t. now - t < 1000000000) (times_of k es @ [now])) \<le> 5)
    \<and> (fst (allow_request_with_limit k m now (user_requests us rl)) \<longleftrightarrow>
      int (length (filter (\<lambda>t. now - t < 60000000000) (times_of k (map (\<lambda>(u, m, t). (u, t)) us) @ [now]))) \<le> m)"
proof -
  have "map (\<lambda>(u, m, t). t) us = map snd (map (\<lambda>(u, m, t). (u, t)) us)" by auto
  then have u: "sorted (times_of k (map (\<lambda>(u, m, t). (u, t)) us) @ [now])"
    using assms(4) sorted_times by metis
  show ?thesis
    using ip_window.window_history [OF sorted_times [OF assms(3), of k]] user_window.window_history [OF u]
      ip_requests_history [OF assms(1), of es k] user_requests_history [OF assms(2), of us k]
    by (simp add: allow_request_for_ip_def ip_allow_def allow_request_with_limit_def MAX_REQUESTS_PER_SECOND_def Let_def)
qed

theorem sliding_windows_exact_witness:
  "\<not> fst (allow_request_for_ip ''a'' 900000000 (ip_requests (map (\<lambda>i. (''a'', i * 100000000)) [1, 2, 3, 4, 5])
      (RateLimiter_new 1 1 0)))"
proof -
  have "rl_ip_limiters (RateLimiter_new 1 1 0) = []" "rl_user_limiters (RateLimiter_new 1 1 0) = []"
    by (simp_all add: RateLimiter_new_def)
  from sliding_windows_exact [OF this, of "map (\<lambda>i. (''a'', i * 100000000)) [1, 2, 3, 4, 5]" 900000000 "[]" "''a''" 0]
  show ?thesis by (simp add: times_of_def)
qed

end
