(* ===== verification/Api_Rate_Limiter.thy ===== *)
theory Api_Rate_Limiter
  imports Lithium_Prelude "HOL-Library.Signed_Division"
begin

text \<open>
  The limits on requests to online catalogues, \<^verbatim>\<open>src/src/target/online/rate_limiter/api_rate_limiter.cpp\<close>: for each provider a token bucket,
  sliding windows of a minute and an hour, and the pause a server asks for. An operation is one critical section and takes its reading of the
  clock, in nanoseconds, as an argument; the constructor of a bucket reads it once. A \<^verbatim>\<open>double\<close> is a real number; counters do not
  reach the end of \<^verbatim>\<open>size_t\<close>. Logging is left out.
\<close>

section \<open>State\<close>

record RateLimitRule =
  rl_maxRequestsPerSecond :: nat
  rl_maxRequestsPerMinute :: nat
  rl_maxRequestsPerHour :: nat
  rl_burstLimit :: nat
  rl_respectRetryAfter :: bool

definition RateLimitRule_default :: RateLimitRule where
  "RateLimitRule_default = \<lparr>rl_maxRequestsPerSecond = 10, rl_maxRequestsPerMinute = 100, rl_maxRequestsPerHour = 1000,
     rl_burstLimit = 20, rl_respectRetryAfter = True\<rparr>"

record RateLimiterStats =
  rs_totalRequests :: nat
  rs_throttledRequests :: nat
  rs_successfulRequests :: nat
  rs_lastRequest :: int
  rs_lastThrottle :: int

record WindowCounter =
  wc_timestamps :: "int list"
  wc_count :: nat

record TokenBucket =
  tb_rule :: RateLimitRule
  tb_tokensPerSecond :: real
  tb_lastRefillSecond :: int
  tb_minuteWindow :: WindowCounter
  tb_hourWindow :: WindowCounter
  tb_retryAfterTime :: int
  tb_stats :: RateLimiterStats

definition WindowCounter_new :: WindowCounter where
  "WindowCounter_new = \<lparr>wc_timestamps = [], wc_count = 0\<rparr>"

definition TokenBucket_new :: "int \<Rightarrow> RateLimitRule \<Rightarrow> TokenBucket" where
  "TokenBucket_new now r = \<lparr>tb_rule = r, tb_tokensPerSecond = real (rl_burstLimit r), tb_lastRefillSecond = now,
     tb_minuteWindow = WindowCounter_new, tb_hourWindow = WindowCounter_new, tb_retryAfterTime = now,
     tb_stats = \<lparr>rs_totalRequests = 0, rs_throttledRequests = 0, rs_successfulRequests = 0, rs_lastRequest = now, rs_lastThrottle = now\<rparr>\<rparr>"

type_synonym api_limiter = "TokenBucket umap"

definition minute :: int where "minute = 60 * 10 ^ 9"
definition hour :: int where "hour = 3600 * 10 ^ 9"

text \<open>\<^verbatim>\<open>duration_cast\<close> to milliseconds truncates.\<close>

definition to_ms :: "int \<Rightarrow> int" where
  "to_ms d = d sdiv 10 ^ 6"

section \<open>Helpers\<close>

definition refillTokens :: "int \<Rightarrow> TokenBucket \<Rightarrow> TokenBucket" where
  "refillTokens now b =
     (let elapsed = to_ms (now - tb_lastRefillSecond b);
          tokensToAdd = real_of_int elapsed / 1000 * real (rl_maxRequestsPerSecond (tb_rule b));
          b = b\<lparr>tb_tokensPerSecond := min (real (rl_burstLimit (tb_rule b))) (tb_tokensPerSecond b + tokensToAdd)\<rparr>
      in if tokensToAdd > 1 / 10 then b\<lparr>tb_lastRefillSecond := now\<rparr> else b)"

fun cleanupTimestamps :: "int \<Rightarrow> int \<Rightarrow> int list \<Rightarrow> nat \<Rightarrow> int list \<times> nat" where
  "cleanupTimestamps now windowSize [] n = ([], n)"
| "cleanupTimestamps now windowSize (t # ts) n =
     (if now - t > windowSize then cleanupTimestamps now windowSize ts (n - 1) else (t # ts, n))"

definition cleanupWindow :: "int \<Rightarrow> int \<Rightarrow> WindowCounter \<Rightarrow> WindowCounter" where
  "cleanupWindow now windowSize w =
     (case cleanupTimestamps now windowSize (wc_timestamps w) (wc_count w) of (ts, n) \<Rightarrow> \<lparr>wc_timestamps = ts, wc_count = n\<rparr>)"

definition calculateWaitTime :: "TokenBucket \<Rightarrow> int" where
  "calculateWaitTime b =
     (let tokensNeeded = 1 - tb_tokensPerSecond b; rate = real (rl_maxRequestsPerSecond (tb_rule b));
          timeNeeded = (if rate = 0 then 1000 else tokensNeeded / rate * 1000)
      in \<lceil>timeNeeded\<rceil>)"

definition calculateWindowWaitTime :: "WindowCounter \<Rightarrow> int \<Rightarrow> int \<Rightarrow> int" where
  "calculateWindowWaitTime w now windowSize =
     (if wc_timestamps w = [] then 0
      else let resetTime = hd (wc_timestamps w) + windowSize in if now \<ge> resetTime then 0 else to_ms (resetTime - now))"

section \<open>Operations\<close>

definition setProviderLimit :: "int \<Rightarrow> string \<Rightarrow> RateLimitRule \<Rightarrow> api_limiter \<Rightarrow> api_limiter" where
  "setProviderLimit now p rule l =
     (case map_of l p of
        Some b \<Rightarrow> AList.update p (b\<lparr>tb_rule := rule\<rparr>) l
      | None \<Rightarrow> AList.update p (TokenBucket_new now rule) l)"

definition throttled :: "int \<Rightarrow> TokenBucket \<Rightarrow> TokenBucket" where
  "throttled now b = b\<lparr>tb_stats := (tb_stats b)\<lparr>rs_throttledRequests := rs_throttledRequests (tb_stats b) + 1, rs_lastThrottle := now\<rparr>\<rparr>"

definition tryBucket :: "int \<Rightarrow> TokenBucket \<Rightarrow> int option \<times> TokenBucket" where
  "tryBucket now b =
     (if now < tb_retryAfterTime b then (Some (to_ms (tb_retryAfterTime b - now)), b)
      else
        (let b = refillTokens now b
         in if tb_tokensPerSecond b < 1 then (Some (calculateWaitTime b), throttled now b)
            else
              (let b = b\<lparr>tb_minuteWindow := cleanupWindow now minute (tb_minuteWindow b)\<rparr>
               in if wc_count (tb_minuteWindow b) \<ge> rl_maxRequestsPerMinute (tb_rule b)
                  then (Some (calculateWindowWaitTime (tb_minuteWindow b) now minute), throttled now b)
                  else
                    (let b = b\<lparr>tb_hourWindow := cleanupWindow now hour (tb_hourWindow b)\<rparr>
                     in if wc_count (tb_hourWindow b) \<ge> rl_maxRequestsPerHour (tb_rule b)
                        then (Some (calculateWindowWaitTime (tb_hourWindow b) now hour), throttled now b)
                        else (None, b)))))"

definition tryAcquire :: "int \<Rightarrow> string \<Rightarrow> api_limiter \<Rightarrow> int option \<times> api_limiter" where
  "tryAcquire now p l =
     (case map_of l p of
        None \<Rightarrow> (None, l)
      | Some b \<Rightarrow> (case tryBucket now b of (r, b') \<Rightarrow> (r, AList.update p b' l)))"

text \<open>\<^verbatim>\<open>acquire\<close> with the readings of the clock of its attempts; \<open>None\<close> while it has not been let through.\<close>

fun acquire :: "int list \<Rightarrow> string \<Rightarrow> api_limiter \<Rightarrow> api_limiter option" where
  "acquire [] p l = None"
| "acquire (now # later) p l = (case tryAcquire now p l of (None, l') \<Rightarrow> Some l' | (Some w, l') \<Rightarrow> acquire later p l')"

definition recordRateLimitResponse :: "int \<Rightarrow> string \<Rightarrow> int \<Rightarrow> api_limiter \<Rightarrow> api_limiter" where
  "recordRateLimitResponse now p retryAfter l =
     (case map_of l p of
        None \<Rightarrow> l
      | Some b \<Rightarrow> AList.update p (b\<lparr>tb_retryAfterTime := now + retryAfter * 10 ^ 9\<rparr>) l)"

definition push_time :: "int \<Rightarrow> WindowCounter \<Rightarrow> WindowCounter" where
  "push_time now w = \<lparr>wc_timestamps = wc_timestamps w @ [now], wc_count = wc_count w + 1\<rparr>"

definition completeBucket :: "int \<Rightarrow> bool \<Rightarrow> TokenBucket \<Rightarrow> TokenBucket" where
  "completeBucket now success b =
     (let st = tb_stats b; st = st\<lparr>rs_totalRequests := rs_totalRequests st + 1, rs_lastRequest := now\<rparr>
      in b\<lparr>tb_tokensPerSecond := tb_tokensPerSecond b - 1, tb_minuteWindow := push_time now (tb_minuteWindow b),
           tb_hourWindow := push_time now (tb_hourWindow b),
           tb_stats := (if success then st\<lparr>rs_successfulRequests := rs_successfulRequests st + 1\<rparr> else st)\<rparr>)"

definition recordRequestComplete :: "int \<Rightarrow> string \<Rightarrow> bool \<Rightarrow> api_limiter \<Rightarrow> api_limiter" where
  "recordRequestComplete now p success l =
     (case map_of l p of None \<Rightarrow> l | Some b \<Rightarrow> AList.update p (completeBucket now success b) l)"

definition ApiRateLimiter_getStats :: "int \<Rightarrow> string \<Rightarrow> api_limiter \<Rightarrow> RateLimiterStats" where
  "ApiRateLimiter_getStats epoch p l =
     (case map_of l p of
        None \<Rightarrow> \<lparr>rs_totalRequests = 0, rs_throttledRequests = 0, rs_successfulRequests = 0, rs_lastRequest = epoch, rs_lastThrottle = epoch\<rparr>
      | Some b \<Rightarrow> tb_stats b)"

definition resetProvider :: "int \<Rightarrow> string \<Rightarrow> api_limiter \<Rightarrow> api_limiter" where
  "resetProvider now p l =
     (case map_of l p of None \<Rightarrow> l | Some b \<Rightarrow> AList.update p (TokenBucket_new now (tb_rule b)) l)"

definition ApiRateLimiter_resetAll :: "int \<Rightarrow> api_limiter \<Rightarrow> api_limiter" where
  "ApiRateLimiter_resetAll now l = map_vals (\<lambda>b. TokenBucket_new now (tb_rule b)) l"

definition isRateLimited :: "int \<Rightarrow> string \<Rightarrow> api_limiter \<Rightarrow> bool" where
  "isRateLimited now p l =
     (case map_of l p of
        None \<Rightarrow> False
      | Some b \<Rightarrow> if now < tb_retryAfterTime b then True else if tb_tokensPerSecond b < 1 then True else False)"

definition getTimeUntilReset :: "int \<Rightarrow> string \<Rightarrow> api_limiter \<Rightarrow> int" where
  "getTimeUntilReset now p l =
     (case map_of l p of
        None \<Rightarrow> 0
      | Some b \<Rightarrow> if now < tb_retryAfterTime b then to_ms (tb_retryAfterTime b - now) else calculateWaitTime b)"

section \<open>Histories\<close>

datatype api_op =
    SetLimit string RateLimitRule
  | Try string
  | Response string int
  | Complete string bool
  | ResetOne string
  | ResetEach

fun api_step :: "int \<times> api_op \<Rightarrow> api_limiter \<Rightarrow> api_limiter" where
  "api_step (now, SetLimit p r) l = setProviderLimit now p r l"
| "api_step (now, Try p) l = snd (tryAcquire now p l)"
| "api_step (now, Response p d) l = recordRateLimitResponse now p d l"
| "api_step (now, Complete p ok) l = recordRequestComplete now p ok l"
| "api_step (now, ResetOne p) l = resetProvider now p l"
| "api_step (now, ResetEach) l = ApiRateLimiter_resetAll now l"

text \<open>The times of the requests of a provider that count: those since its bucket was made or reset.\<close>

fun counted_step :: "string \<Rightarrow> int \<times> api_op \<Rightarrow> int list option \<Rightarrow> int list option" where
  "counted_step p (now, SetLimit q r) ts = (if q = p \<and> ts = None then Some [] else ts)"
| "counted_step p (now, Try q) ts = ts"
| "counted_step p (now, Response q d) ts = ts"
| "counted_step p (now, Complete q ok) ts = (if q = p then map_option (\<lambda>ts. ts @ [now]) ts else ts)"
| "counted_step p (now, ResetOne q) ts = (if q = p then map_option (\<lambda>ts. []) ts else ts)"
| "counted_step p (now, ResetEach) ts = map_option (\<lambda>ts. []) ts"

definition counted :: "string \<Rightarrow> (int \<times> api_op) list \<Rightarrow> int list option" where
  "counted p ops = fold (counted_step p) ops None"

text \<open>A window holds the recent part of the counted times: what it has dropped is older than its size at \<open>now\<close>.\<close>

definition window_ok :: "int \<Rightarrow> int \<Rightarrow> int list \<Rightarrow> WindowCounter \<Rightarrow> bool" where
  "window_ok now wsz ts w \<longleftrightarrow> wc_count w = length (wc_timestamps w)
     \<and> (\<exists>old. ts = old @ wc_timestamps w \<and> (\<forall>t \<in> set old. now - t > wsz))"

definition bucket_times_ok :: "int \<Rightarrow> int list \<Rightarrow> TokenBucket \<Rightarrow> bool" where
  "bucket_times_ok now ts b \<longleftrightarrow> window_ok now minute ts (tb_minuteWindow b) \<and> window_ok now hour ts (tb_hourWindow b)"

lemma cleanupTimestamps_eq:
  "n = length ts \<Longrightarrow> cleanupTimestamps now wsz ts n
     = (dropWhile (\<lambda>t. now - t > wsz) ts, length (dropWhile (\<lambda>t. now - t > wsz) ts))"
  by (induction now wsz ts n rule: cleanupTimestamps.induct) auto

lemma window_ok_cleanup:
  assumes "window_ok now0 wsz ts w" "now0 \<le> now"
  shows "window_ok now wsz ts (cleanupWindow now wsz w)"
proof -
  obtain old where o: "ts = old @ wc_timestamps w" "\<forall>t \<in> set old. now0 - t > wsz" "wc_count w = length (wc_timestamps w)"
    using assms(1) by (auto simp: window_ok_def)
  let ?P = "\<lambda>t. now - t > wsz"
  have "ts = (old @ takeWhile ?P (wc_timestamps w)) @ dropWhile ?P (wc_timestamps w)" using o(1) by simp
  moreover have "\<forall>t \<in> set (old @ takeWhile ?P (wc_timestamps w)). ?P t"
    using o(2) assms(2) by (auto dest: set_takeWhileD)
  moreover have "cleanupWindow now wsz w = \<lparr>wc_timestamps = dropWhile ?P (wc_timestamps w), wc_count = length (dropWhile ?P (wc_timestamps w))\<rparr>"
    using o(3) by (simp add: cleanupWindow_def cleanupTimestamps_eq)
  ultimately show ?thesis unfolding window_ok_def by (metis WindowCounter.select_convs)
qed

lemma window_count:
  assumes "window_ok now0 wsz ts w" "sorted (ts @ [now])" "now0 \<le> now"
  shows "wc_count (cleanupWindow now wsz w) = length (filter (\<lambda>t. now - t \<le> wsz) ts)"
proof -
  have c: "window_ok now wsz ts (cleanupWindow now wsz w)" using window_ok_cleanup assms by blast
  then obtain old where o: "ts = old @ wc_timestamps (cleanupWindow now wsz w)" "\<forall>t \<in> set old. now - t > wsz"
    "wc_count (cleanupWindow now wsz w) = length (wc_timestamps (cleanupWindow now wsz w))"
    by (auto simp: window_ok_def)
  have d: "wc_timestamps (cleanupWindow now wsz w) = dropWhile (\<lambda>t. now - t > wsz) (wc_timestamps w)"
    using assms(1) by (simp add: window_ok_def cleanupWindow_def cleanupTimestamps_eq)
  have s: "sorted (wc_timestamps (cleanupWindow now wsz w))" using assms(2) o(1) by (metis sorted_append)
  have "\<forall>t \<in> set (wc_timestamps (cleanupWindow now wsz w)). now - t \<le> wsz"
  proof (cases "wc_timestamps (cleanupWindow now wsz w)")
    case (Cons t rest)
    have "\<not> now - t > wsz" using hd_dropWhile [of "\<lambda>t. now - t > wsz" "wc_timestamps w"] unfolding d [symmetric] Cons by simp
    then have "now - t \<le> wsz" by simp
    then show ?thesis using s Cons by fastforce
  qed simp
  then have "filter (\<lambda>t. now - t \<le> wsz) ts = wc_timestamps (cleanupWindow now wsz w)"
    using o(1,2) by (subst o(1)) (auto simp: filter_empty_conv not_le [symmetric] filter_id_conv)
  then show ?thesis using o(3) by simp
qed

section \<open>What a try sees\<close>

lemma window_ok_mono: "window_ok now wsz ts w \<Longrightarrow> now \<le> now' \<Longrightarrow> window_ok now' wsz ts w"
  by (force simp: window_ok_def)

lemma window_ok_push: "window_ok now wsz ts w \<Longrightarrow> window_ok now wsz (ts @ [t]) (push_time t w)"
  by (auto simp: window_ok_def push_time_def)

lemma window_ok_new: "window_ok now wsz [] WindowCounter_new"
  by (simp add: window_ok_def WindowCounter_new_def)

lemma bucket_ok_mono: "bucket_times_ok now ts b \<Longrightarrow> now \<le> now' \<Longrightarrow> bucket_times_ok now' ts b"
  by (auto simp: bucket_times_ok_def intro: window_ok_mono)

lemma bucket_ok_new: "bucket_times_ok now [] (TokenBucket_new now' r)"
  by (simp add: bucket_times_ok_def TokenBucket_new_def window_ok_new)

lemma refill_frame [simp]:
  "tb_minuteWindow (refillTokens now b) = tb_minuteWindow b" "tb_hourWindow (refillTokens now b) = tb_hourWindow b"
  "tb_rule (refillTokens now b) = tb_rule b" "tb_retryAfterTime (refillTokens now b) = tb_retryAfterTime b"
  by (simp_all add: refillTokens_def Let_def)

lemma throttled_frame [simp]:
  "tb_minuteWindow (throttled now b) = tb_minuteWindow b" "tb_hourWindow (throttled now b) = tb_hourWindow b"
  "tb_rule (throttled now b) = tb_rule b" "tb_retryAfterTime (throttled now b) = tb_retryAfterTime b"
  by (simp_all add: throttled_def)

lemma tryBucket_ok:
  assumes "bucket_times_ok now ts b"
  shows "bucket_times_ok now ts (snd (tryBucket now b))" "tb_rule (snd (tryBucket now b)) = tb_rule b"
    "tb_retryAfterTime (snd (tryBucket now b)) = tb_retryAfterTime b"
  using assms window_ok_cleanup [of now _ ts _ now] by (auto simp: tryBucket_def bucket_times_ok_def Let_def)

lemma completeBucket_ok: "bucket_times_ok now ts b \<Longrightarrow> bucket_times_ok now (ts @ [t]) (completeBucket t ok b)"
  by (simp add: bucket_times_ok_def completeBucket_def window_ok_push Let_def)

definition allowed :: "int \<Rightarrow> int list \<Rightarrow> TokenBucket \<Rightarrow> bool" where
  "allowed now ts b \<longleftrightarrow> tb_retryAfterTime b \<le> now \<and> 1 \<le> tb_tokensPerSecond (refillTokens now b)
     \<and> length (filter (\<lambda>t. now - t \<le> minute) ts) < rl_maxRequestsPerMinute (tb_rule b)
     \<and> length (filter (\<lambda>t. now - t \<le> hour) ts) < rl_maxRequestsPerHour (tb_rule b)"

lemma tryBucket_exact:
  assumes "bucket_times_ok now ts b" "sorted (ts @ [now])"
  shows "fst (tryBucket now b) = None \<longleftrightarrow> allowed now ts b"
  using window_count [of now minute ts "tb_minuteWindow b" now] window_count [of now hour ts "tb_hourWindow b" now] assms
  by (auto simp: tryBucket_def allowed_def bucket_times_ok_def Let_def)

text \<open>All buckets agree with the history.\<close>

definition limiter_ok :: "int \<Rightarrow> (string \<Rightarrow> int list option) \<Rightarrow> api_limiter \<Rightarrow> bool" where
  "limiter_ok now cs l \<longleftrightarrow> (\<forall>p. cs p = None \<longleftrightarrow> map_of l p = None)
     \<and> (\<forall>p b ts. map_of l p = Some b \<longrightarrow> cs p = Some ts \<longrightarrow> bucket_times_ok now ts b)"

lemma limiter_ok_lookup:
  assumes "limiter_ok now cs l" "map_of l p = Some b"
  obtains ts where "cs p = Some ts" "bucket_times_ok now ts b"
  using assms that by (metis limiter_ok_def option.exhaust_sel option.distinct(1))

lemma limiter_ok_update:
  assumes "limiter_ok now cs l" "bucket_times_ok now ts b" "cs' = cs(p \<mapsto> ts)"
  shows "limiter_ok now cs' (AList.update p b l)"
  using assms by (auto simp: limiter_ok_def update_conv')

lemma limiter_ok_none: "limiter_ok now cs l \<Longrightarrow> map_of l p = None \<Longrightarrow> cs p = None"
  by (simp add: limiter_ok_def)

lemma limiter_ok_step:
  assumes "limiter_ok now cs l"
  shows "limiter_ok now (\<lambda>p. counted_step p (now, x) (cs p)) (api_step (now, x) l)"
proof (cases x)
  case (SetLimit p r)
  show ?thesis
  proof (cases "map_of l p")
    case None
    then show ?thesis unfolding SetLimit using limiter_ok_none [OF assms None]
      by (auto simp: setProviderLimit_def intro!: limiter_ok_update [OF assms bucket_ok_new])
  next
    case (Some b)
    obtain ts where ts: "cs p = Some ts" "bucket_times_ok now ts b" using limiter_ok_lookup [OF assms Some] .
    then have "bucket_times_ok now ts (b\<lparr>tb_rule := r\<rparr>)" by (simp add: bucket_times_ok_def)
    then show ?thesis unfolding SetLimit using Some ts
      by (auto simp: setProviderLimit_def intro!: limiter_ok_update [OF assms])
  qed
next
  case (Try p)
  show ?thesis
  proof (cases "map_of l p")
    case (Some b)
    obtain ts where ts: "cs p = Some ts" "bucket_times_ok now ts b" using limiter_ok_lookup [OF assms Some] .
    then show ?thesis unfolding Try using Some tryBucket_ok(1) [OF ts(2)]
      by (auto simp: tryAcquire_def split_beta intro!: limiter_ok_update [OF assms])
  qed (use assms Try in \<open>simp add: tryAcquire_def\<close>)
next
  case (Response p d)
  show ?thesis
  proof (cases "map_of l p")
    case (Some b)
    obtain ts where ts: "cs p = Some ts" "bucket_times_ok now ts b" using limiter_ok_lookup [OF assms Some] .
    then have "bucket_times_ok now ts (b\<lparr>tb_retryAfterTime := e\<rparr>)" for e by (simp add: bucket_times_ok_def)
    then show ?thesis unfolding Response using Some ts
      by (auto simp: recordRateLimitResponse_def intro!: limiter_ok_update [OF assms])
  qed (use assms Response in \<open>simp add: recordRateLimitResponse_def\<close>)
next
  case (Complete p ok)
  show ?thesis
  proof (cases "map_of l p")
    case (Some b)
    obtain ts where ts: "cs p = Some ts" "bucket_times_ok now ts b" using limiter_ok_lookup [OF assms Some] .
    then show ?thesis unfolding Complete using Some completeBucket_ok [OF ts(2)]
      by (auto simp: recordRequestComplete_def intro!: limiter_ok_update [OF assms])
  qed (use assms Complete limiter_ok_none in \<open>auto simp: recordRequestComplete_def limiter_ok_def split: option.splits\<close>)
next
  case (ResetOne p)
  show ?thesis
  proof (cases "map_of l p")
    case (Some b)
    obtain ts where ts: "cs p = Some ts" "bucket_times_ok now ts b" using limiter_ok_lookup [OF assms Some] .
    then show ?thesis unfolding ResetOne using Some
      by (auto simp: resetProvider_def intro!: limiter_ok_update [OF assms bucket_ok_new])
  qed (use assms ResetOne limiter_ok_none in \<open>auto simp: resetProvider_def limiter_ok_def split: option.splits\<close>)
next
  case ResetEach
  have "map_of (ApiRateLimiter_resetAll now l) p = map_option (\<lambda>b. TokenBucket_new now (tb_rule b)) (map_of l p)" for p
    by (simp add: ApiRateLimiter_resetAll_def map_vals_def map_of_map)
  then show ?thesis unfolding ResetEach using assms bucket_ok_new
    by (fastforce simp: limiter_ok_def split: option.splits)
qed

lemma limiter_ok_mono: "limiter_ok now cs l \<Longrightarrow> now \<le> now' \<Longrightarrow> limiter_ok now' cs l"
  unfolding limiter_ok_def using bucket_ok_mono by blast

lemma counted_snoc: "counted p (ops @ [x]) = counted_step p x (counted p ops)"
  by (simp add: counted_def)

lemma limiter_history:
  "sorted (map fst ops @ [now]) \<Longrightarrow> limiter_ok now (\<lambda>p. counted p ops) (fold api_step ops [])"
proof (induction ops arbitrary: now rule: rev_induct)
  case Nil
  show ?case by (simp add: limiter_ok_def counted_def)
next
  case (snoc x ops)
  obtain t op where x: "x = (t, op)" by fastforce
  have "sorted (map fst ops @ [t])" "t \<le> now" using snoc.prems by (auto simp: x sorted_append)
  from limiter_ok_mono [OF limiter_ok_step [OF snoc.IH [OF this(1)], of op] this(2)] show ?case
    by (simp add: x counted_snoc)
qed

lemma counted_step_times: "counted_step p (t, op) c = Some ts \<Longrightarrow> (\<exists>ts0. c = Some ts0 \<and> (ts = ts0 \<or> ts = ts0 @ [t])) \<or> ts = []"
  by (cases op) (auto split: if_splits)

lemma counted_sorted: "sorted (map fst ops @ [now]) \<Longrightarrow> counted p ops = Some ts \<Longrightarrow> sorted (ts @ [now])"
proof (induction ops arbitrary: now ts rule: rev_induct)
  case Nil
  then show ?case by (simp add: counted_def)
next
  case (snoc x ops)
  obtain t op where x: "x = (t, op)" by fastforce
  have t: "sorted (map fst ops @ [t])" "t \<le> now" using snoc.prems by (auto simp: x sorted_append)
  from counted_step_times [of p t op "counted p ops" ts] snoc.prems(2) consider
    "ts = []" | ts0 where "counted p ops = Some ts0" "ts = ts0 \<or> ts = ts0 @ [t]"
    by (auto simp: x counted_snoc)
  then show ?case
  proof cases
    case 2
    then show ?thesis using snoc.IH [OF t(1) 2(1)] t(2) by (force simp: sorted_append)
  qed simp
qed

text \<open>
  A request to an online catalogue is let through exactly when it should be. After every history of the limiter with a clock that does not run
  backwards, a try at a provider without limits is allowed; with limits it is allowed if and only if the pause the server asked for is over,
  the refilled bucket has a token, and the requests recorded in the last minute and in the last hour, since the last reset, are
  fewer than the two limits.
\<close>

theorem tryAcquire_exact:
  assumes "sorted (map fst ops @ [now])"
  shows "case map_of (fold api_step ops []) p of
      None \<Rightarrow> fst (tryAcquire now p (fold api_step ops [])) = None
    | Some b \<Rightarrow> \<exists>ts. counted p ops = Some ts
        \<and> (fst (tryAcquire now p (fold api_step ops [])) = None \<longleftrightarrow>
             tb_retryAfterTime b \<le> now \<and> 1 \<le> tb_tokensPerSecond (refillTokens now b)
             \<and> length (filter (\<lambda>t. now - t \<le> minute) ts) < rl_maxRequestsPerMinute (tb_rule b)
             \<and> length (filter (\<lambda>t. now - t \<le> hour) ts) < rl_maxRequestsPerHour (tb_rule b))"
proof (cases "map_of (fold api_step ops []) p")
  case (Some b)
  obtain ts where ts: "counted p ops = Some ts" "bucket_times_ok now ts b"
    using limiter_ok_lookup [OF limiter_history [OF assms] Some] .
  then show ?thesis using Some tryBucket_exact [OF ts(2) counted_sorted [OF assms ts(1)]]
    by (simp add: tryAcquire_def split_beta allowed_def)
qed (simp add: tryAcquire_def)

section \<open>Quotas\<close>

text \<open>Requests are recorded at an instant at which a try is allowed: one client after the other, each recording its request before the next asks.\<close>

fun is_complete :: "string \<Rightarrow> api_op \<Rightarrow> bool" where
  "is_complete p (Complete q ok) = (q = p)"
| "is_complete p _ = False"

fun disciplined :: "string \<Rightarrow> (int \<times> api_op) list \<Rightarrow> api_limiter \<Rightarrow> bool" where
  "disciplined p [] l = True"
| "disciplined p (x # xs) l = ((is_complete p (snd x) \<longrightarrow> fst (tryAcquire (fst x) p l) = None) \<and> disciplined p xs (api_step x l))"

lemma disciplined_append: "disciplined p (xs @ ys) l \<longleftrightarrow> disciplined p xs l \<and> disciplined p ys (fold api_step xs l)"
  by (induction xs arbitrary: l) auto

fun rules_of :: "string \<Rightarrow> (int \<times> api_op) list \<Rightarrow> RateLimitRule list" where
  "rules_of p [] = []"
| "rules_of p ((t, SetLimit q r) # xs) = (if q = p then r # rules_of p xs else rules_of p xs)"
| "rules_of p (x # xs) = rules_of p xs"

lemma rules_of_append: "rules_of p (xs @ ys) = rules_of p xs @ rules_of p ys"
  by (induction p xs rule: rules_of.induct) auto

lemma tryBucket_rule: "tb_rule (snd (tryBucket now b)) = tb_rule b"
  by (simp add: tryBucket_def Let_def)

lemma step_rule:
  assumes "map_of (api_step (t, op) l) p = Some b"
  shows "(\<exists>b0. map_of l p = Some b0 \<and> tb_rule b = tb_rule b0) \<or> tb_rule b \<in> set (rules_of p [(t, op)])"
proof (cases op)
  case (SetLimit q r)
  then show ?thesis using assms
    by (auto simp: setProviderLimit_def update_conv' TokenBucket_new_def split: option.splits if_splits)
next
  case ResetEach
  then show ?thesis using assms by (auto simp: ApiRateLimiter_resetAll_def map_vals_def map_of_map TokenBucket_new_def)
qed (use assms in \<open>auto simp: tryAcquire_def split_beta tryBucket_rule recordRateLimitResponse_def recordRequestComplete_def
    completeBucket_def resetProvider_def update_conv' TokenBucket_new_def Let_def split: option.splits if_splits\<close>)

lemma rule_history: "map_of (fold api_step ops []) p = Some b \<Longrightarrow> tb_rule b \<in> set (rules_of p ops)"
proof (induction ops arbitrary: b rule: rev_induct)
  case (snoc x ops)
  obtain t op where x: "x = (t, op)" by fastforce
  from step_rule [of t op "fold api_step ops []" p b] snoc show ?case
    by (auto simp: x rules_of_append)
qed simp

lemma window_bound:
  fixes ts :: "int list"
  assumes "sorted (ts @ [now])" "length (filter (\<lambda>t. now - t \<le> wsz) ts) < M"
    and "length (filter (\<lambda>t. a \<le> t \<and> t \<le> a + wsz) ts) \<le> M"
  shows "length (filter (\<lambda>t. a \<le> t \<and> t \<le> a + wsz) (ts @ [now])) \<le> M"
proof (cases "a \<le> now \<and> now \<le> a + wsz")
  case True
  have "filter (\<lambda>t. a \<le> t \<and> t \<le> a + wsz) ts = filter (\<lambda>t. a \<le> t \<and> t \<le> a + wsz) (filter (\<lambda>t. now - t \<le> wsz) ts)"
    using True by (auto simp: filter_filter intro!: filter_cong)
  then have "length (filter (\<lambda>t. a \<le> t \<and> t \<le> a + wsz) ts) \<le> length (filter (\<lambda>t. now - t \<le> wsz) ts)"
    by (metis length_filter_le)
  then show ?thesis using assms(2) by simp
next
  case False
  then show ?thesis using assms(3) by auto
qed

lemma counted_complete:
  "counted_step p (t, op) c = Some ts \<Longrightarrow> ts = [] \<or> c = Some ts \<or> is_complete p op \<and> (\<exists>ts0. c = Some ts0 \<and> ts = ts0 @ [t])"
  by (cases op) (auto split: if_splits)

text \<open>
  C35: The quotas hold over every interval. If the requests of a provider are recorded only at instants at which a try is allowed, then among the
  requests since the last reset at most as many fall into any one minute as the largest limit per minute that was set, and at most
  as many into any one hour as the largest limit per hour.
\<close>

theorem api_quota:
  assumes "sorted (map fst ops)" and "disciplined p ops []" and "\<forall>r \<in> set (rules_of p ops). rl_maxRequestsPerMinute r \<le> M \<and> rl_maxRequestsPerHour r \<le> H"
    and "counted p ops = Some ts"
  shows "length (filter (\<lambda>t. a \<le> t \<and> t \<le> a + minute) ts) \<le> M \<and> length (filter (\<lambda>t. a \<le> t \<and> t \<le> a + hour) ts) \<le> H"
  using assms
proof (induction ops arbitrary: ts rule: rev_induct)
  case Nil
  then show ?case by (simp add: counted_def)
next
  case (snoc x ops)
  obtain t op where x: "x = (t, op)" by fastforce
  have s: "sorted (map fst ops)" "sorted (map fst ops @ [t])" using snoc.prems(1) by (auto simp: x sorted_append)
  have d: "disciplined p ops []" "is_complete p op \<Longrightarrow> fst (tryAcquire t p (fold api_step ops [])) = None"
    using snoc.prems(2) by (auto simp: x disciplined_append)
  have r: "\<forall>r \<in> set (rules_of p ops). rl_maxRequestsPerMinute r \<le> M \<and> rl_maxRequestsPerHour r \<le> H"
    using snoc.prems(3) by (auto simp: rules_of_append)
  note IH = snoc.IH [OF s(1) d(1) r]
  from counted_complete [of p t op "counted p ops" ts] snoc.prems(4) consider
    "ts = []" | "counted p ops = Some ts" | ts0 where "is_complete p op" "counted p ops = Some ts0" "ts = ts0 @ [t]"
    by (auto simp: x counted_snoc)
  then show ?case
  proof cases
    case 3
    obtain b where b: "map_of (fold api_step ops []) p = Some b"
      using limiter_history [OF s(2)] 3(2) unfolding limiter_ok_def by (metis not_None_eq)
    obtain ts1 where ts1: "counted p ops = Some ts1" "bucket_times_ok t ts1 b"
      using limiter_ok_lookup [OF limiter_history [OF s(2)] b] .
    then have "allowed t ts0 b" using d(2) [OF 3(1)] b 3(2) tryBucket_exact [OF ts1(2) counted_sorted [OF s(2) ts1(1)]]
      by (simp add: tryAcquire_def split_beta)
    then have "length (filter (\<lambda>u. t - u \<le> minute) ts0) < M" "length (filter (\<lambda>u. t - u \<le> hour) ts0) < H"
      using r rule_history [OF b] by (force simp: allowed_def)+
    then show ?thesis unfolding 3(3) using window_bound counted_sorted [OF s(2) 3(2)] IH [OF 3(2)] by blast
  qed (use IH in auto)
qed

definition one_request :: "(int \<times> api_op) list" where
  "one_request = [(0, SetLimit ''simbad'' RateLimitRule_default), (0, Complete ''simbad'' True)]"

lemma one_request_allowed: "disciplined ''simbad'' one_request []"
  by (simp add: one_request_def setProviderLimit_def tryAcquire_def tryBucket_def TokenBucket_new_def RateLimitRule_default_def refillTokens_def
      to_ms_def signed_divide_int_def cleanupWindow_def WindowCounter_new_def Let_def)

theorem tryAcquire_exact_witness:
  "fst (tryAcquire 1 ''simbad'' (fold api_step one_request [])) = None \<longleftrightarrow>
     1 \<le> tb_tokensPerSecond (refillTokens 1 (the (map_of (fold api_step one_request []) ''simbad'')))"
  using tryAcquire_exact [of one_request 1 "''simbad''"]
  by (simp add: one_request_def setProviderLimit_def recordRequestComplete_def completeBucket_def TokenBucket_new_def RateLimitRule_default_def
      counted_def WindowCounter_new_def push_time_def Let_def)

theorem api_quota_witness:
  "length (filter (\<lambda>t. 0 \<le> t \<and> t \<le> 0 + minute) [0]) \<le> 100"
proof -
  have "sorted (map fst one_request)" "counted ''simbad'' one_request = Some [0]"
    "\<forall>r \<in> set (rules_of ''simbad'' one_request). rl_maxRequestsPerMinute r \<le> 100 \<and> rl_maxRequestsPerHour r \<le> 1000"
    by (simp_all add: one_request_def counted_def RateLimitRule_default_def)
  from api_quota [OF this(1) one_request_allowed this(3,2), of 0] show ?thesis by blast
qed

section \<open>Where the tokens come from\<close>

text \<open>
  A refill of at most a tenth of a token adds to the bucket but does not move the time of the last refill, so refills at the same instant add the
  same tokens again: enough tries fill the bucket whatever the rate is.
\<close>

lemma polling_adds_tokens:
  assumes "add = real_of_int (to_ms (now - tb_lastRefillSecond b)) / 1000 * real (rl_maxRequestsPerSecond (tb_rule b))"
    and "0 \<le> add" "add \<le> 1 / 10" "tb_tokensPerSecond b \<le> real (rl_burstLimit (tb_rule b))"
  shows "tb_tokensPerSecond ((refillTokens now ^^ n) b) = min (real (rl_burstLimit (tb_rule b))) (tb_tokensPerSecond b + real n * add)"
proof -
  have step: "refillTokens now (b\<lparr>tb_tokensPerSecond := x\<rparr>) = b\<lparr>tb_tokensPerSecond := min (real (rl_burstLimit (tb_rule b))) (x + add)\<rparr>" for x
    using assms(3) by (simp add: refillTokens_def Let_def assms(1) mult.commute)
  have "(refillTokens now ^^ n) b = b\<lparr>tb_tokensPerSecond := min (real (rl_burstLimit (tb_rule b))) (tb_tokensPerSecond b + real n * add)\<rparr>"
  proof (induction n)
    case 0
    show ?case using assms(4) by simp
  next
    case (Suc n)
    have "min B (min B x + add) = min B (x + add)" for B x :: real using assms(2) by (simp add: min_def)
    then show ?case using Suc step by (simp add: algebra_simps)
  qed
  then show ?thesis by simp
qed

text \<open>A full bucket waits a negative time.\<close>

lemma negative_wait: "getTimeUntilReset 0 ''simbad'' (setProviderLimit 0 ''simbad'' RateLimitRule_default []) = - 1900"
  by (simp add: getTimeUntilReset_def setProviderLimit_def calculateWaitTime_def TokenBucket_new_def RateLimitRule_default_def Let_def)

end
