(* ===== verification/Ipc_Message.thy ===== *)
theory Ipc_Message
  imports Lithium_Prelude "HOL-Library.Word"
begin

unbundle bit_operations_syntax

text \<open>
  The message codec of the script subprocess protocol, \<^verbatim>\<open>src/src/script/ipc/message.cpp\<close>: the fixed
  header in network byte order and the payload behind it. Bytes and header fields are words of their
  width. The message type is kept as the byte that is stored; the code casts any byte to the
  enumeration. The JSON serializer is a parameter. The conversion of the payload structures to JSON is
  not modelled.
\<close>

section \<open>Header\<close>

datatype IPCError = InvalidMessage | DeserializationFailed

type_synonym byte = "8 word"
type_synonym uint32 = "32 word"

record MessageHeader =
  mh_magic :: uint32
  mh_version :: byte
  mh_type :: byte
  mh_payloadSize :: uint32
  mh_sequenceId :: uint32
  mh_flags :: byte
  mh_reserved :: byte

definition MAGIC :: uint32 where
  "MAGIC = 0x4C495448"

definition VERSION :: byte where
  "VERSION = 1"

definition HEADER_SIZE :: nat where
  "HEADER_SIZE = 16"

text \<open>The four bytes of a word, most significant first, and the word they stand for.\<close>

definition byte_at :: "nat \<Rightarrow> uint32 \<Rightarrow> byte" where
  "byte_at shift w = ucast (drop_bit shift w AND 0xFF)"

definition put32 :: "uint32 \<Rightarrow> byte list" where
  "put32 w = map (\<lambda>shift. byte_at shift w) [24, 16, 8, 0]"

definition join32 :: "byte \<Rightarrow> byte \<Rightarrow> byte \<Rightarrow> byte \<Rightarrow> uint32" where
  "join32 a b c d = push_bit 24 (ucast a) OR (push_bit 16 (ucast b) OR (push_bit 8 (ucast c) OR ucast d))"

definition get32 :: "byte list \<Rightarrow> nat \<Rightarrow> uint32" where
  "get32 data offset = join32 (data ! offset) (data ! (offset + 1)) (data ! (offset + 2)) (data ! (offset + 3))"

definition MessageHeader_serialize :: "MessageHeader \<Rightarrow> byte list" where
  "MessageHeader_serialize h =
     put32 (mh_magic h) @ [mh_version h, mh_type h] @ put32 (mh_payloadSize h) @ put32 (mh_sequenceId h)
     @ [mh_flags h, mh_reserved h]"

definition MessageHeader_deserialize :: "byte list \<Rightarrow> IPCError + MessageHeader" where
  "MessageHeader_deserialize data =
     (if length data < HEADER_SIZE then Inl InvalidMessage
      else if get32 data 0 \<noteq> MAGIC then Inl InvalidMessage
      else Inr \<lparr>mh_magic = get32 data 0, mh_version = data ! 4, mh_type = data ! 5,
                mh_payloadSize = get32 data 6, mh_sequenceId = get32 data 10,
                mh_flags = data ! 14, mh_reserved = data ! 15\<rparr>)"

definition MessageHeader_isValid :: "MessageHeader \<Rightarrow> bool" where
  "MessageHeader_isValid h \<longleftrightarrow> mh_magic h = MAGIC \<and> mh_version h = VERSION"

section \<open>Messages\<close>

record Message =
  ms_header :: MessageHeader
  ms_payload :: "byte list"

definition Message_create :: "byte \<Rightarrow> byte list \<Rightarrow> uint32 \<Rightarrow> Message" where
  "Message_create type payload sequenceId =
     \<lparr>ms_header = \<lparr>mh_magic = MAGIC, mh_version = VERSION, mh_type = type,
        mh_payloadSize = of_nat (length payload), mh_sequenceId = sequenceId, mh_flags = 0, mh_reserved = 0\<rparr>,
      ms_payload = payload\<rparr>"

definition Message_createJson :: "('j \<Rightarrow> byte list) \<Rightarrow> byte \<Rightarrow> 'j \<Rightarrow> uint32 \<Rightarrow> Message" where
  "Message_createJson serializer type payload sequenceId = Message_create type (serializer payload) sequenceId"

definition getPayloadAsJson :: "'j \<Rightarrow> (byte list \<Rightarrow> IPCError + 'j) \<Rightarrow> Message \<Rightarrow> IPCError + 'j" where
  "getPayloadAsJson emptyObject deserializer m =
     (if ms_payload m = [] then Inr emptyObject else deserializer (ms_payload m))"

definition Message_serialize :: "Message \<Rightarrow> byte list" where
  "Message_serialize m = MessageHeader_serialize (ms_header m) @ ms_payload m"

definition Message_deserialize :: "byte list \<Rightarrow> IPCError + Message" where
  "Message_deserialize data =
     (case MessageHeader_deserialize data of
        Inl e \<Rightarrow> Inl e
      | Inr header \<Rightarrow>
        (let expectedSize = HEADER_SIZE + unat (mh_payloadSize header)
         in if length data < expectedSize then Inl InvalidMessage
            else Inr \<lparr>ms_header = header, ms_payload = take (expectedSize - HEADER_SIZE) (drop HEADER_SIZE data)\<rparr>))"

section \<open>Bytes and words\<close>

lemma length_put32 [simp]: "length (put32 w) = 4"
  by (simp add: put32_def)

lemma ucast_and_0xFF: "ucast (w AND 0xFF :: uint32) = (ucast w :: byte)"
proof -
  have "(0xFF :: uint32) = mask 8" by (simp add: mask_eq_exp_minus_1)
  then have "w AND 0xFF = take_bit 8 w" by (simp add: take_bit_eq_mask)
  moreover have "ucast (take_bit 8 w) = (ucast w :: byte)"
    by (rule bit_word_eqI) (simp add: bit_simps)
  ultimately show ?thesis by simp
qed

lemma bit_join32:
  assumes "n < 32"
  shows "bit (join32 a b c d) n \<longleftrightarrow>
    (if n < 8 then bit d n else if n < 16 then bit c (n - 8) else if n < 24 then bit b (n - 16) else bit a (n - 24))"
proof -
  have "\<not> bit x k" if "8 \<le> k" for x :: byte and k using that bit_imp_le_length [of x k] by force
  then show ?thesis using assms by (auto simp: join32_def bit_simps)
qed

lemma join32_split:
  "join32 (ucast (drop_bit 24 w)) (ucast (drop_bit 16 w)) (ucast (drop_bit 8 w)) (ucast w) = w"
  by (rule bit_word_eqI) (auto simp: bit_join32 bit_simps)

lemma split_join32:
  "ucast (drop_bit 24 (join32 a b c d)) = a" "ucast (drop_bit 16 (join32 a b c d)) = b"
  "ucast (drop_bit 8 (join32 a b c d)) = c" "ucast (join32 a b c d) = d"
  by (rule bit_word_eqI; simp add: bit_join32 bit_simps)+

lemma put32_split: "put32 w = [ucast (drop_bit 24 w), ucast (drop_bit 16 w), ucast (drop_bit 8 w), ucast w]"
  by (simp add: put32_def byte_at_def ucast_and_0xFF)

lemma get32_put32: "get32 (xs @ put32 w @ ys) (length xs) = w"
  using join32_split [of w] by (simp add: get32_def put32_split nth_append)

lemma list_4: "length xs = 4 \<Longrightarrow> xs = [xs ! 0, xs ! 1, xs ! 2, xs ! 3]"
  by (auto simp: numeral_eq_Suc length_Suc_conv)

lemma put32_get32:
  assumes "n + 4 \<le> length data"
  shows "put32 (get32 data n) = take 4 (drop n data)"
  using list_4 [of "take 4 (drop n data)"] assms by (simp add: get32_def put32_split split_join32)

section \<open>Codec\<close>

lemma length_header [simp]: "length (MessageHeader_serialize h) = HEADER_SIZE"
  by (simp add: MessageHeader_serialize_def HEADER_SIZE_def)

lemma header_fields:
  "get32 (MessageHeader_serialize h @ rest) 0 = mh_magic h"
  "(MessageHeader_serialize h @ rest) ! 4 = mh_version h"
  "(MessageHeader_serialize h @ rest) ! 5 = mh_type h"
  "get32 (MessageHeader_serialize h @ rest) 6 = mh_payloadSize h"
  "get32 (MessageHeader_serialize h @ rest) 10 = mh_sequenceId h"
  "(MessageHeader_serialize h @ rest) ! 14 = mh_flags h"
  "(MessageHeader_serialize h @ rest) ! 15 = mh_reserved h"
  using get32_put32 [of "[]" "mh_magic h"]
    get32_put32 [of "put32 (mh_magic h) @ [mh_version h, mh_type h]" "mh_payloadSize h"]
    get32_put32 [of "put32 (mh_magic h) @ [mh_version h, mh_type h] @ put32 (mh_payloadSize h)" "mh_sequenceId h"]
  by (simp_all add: MessageHeader_serialize_def nth_append)

lemma header_decode_encode:
  "MessageHeader_deserialize (MessageHeader_serialize h @ rest) =
     (if mh_magic h = MAGIC then Inr h else Inl InvalidMessage)"
  by (simp add: MessageHeader_deserialize_def header_fields)

lemma header_encode_decode:
  assumes "MessageHeader_deserialize data = Inr h"
  shows "MessageHeader_serialize h = take HEADER_SIZE data \<and> mh_magic h = MAGIC"
proof -
  have l: "16 \<le> length data" and m: "get32 data 0 = MAGIC"
    and h: "h = \<lparr>mh_magic = get32 data 0, mh_version = data ! 4, mh_type = data ! 5,
                mh_payloadSize = get32 data 6, mh_sequenceId = get32 data 10,
                mh_flags = data ! 14, mh_reserved = data ! 15\<rparr>"
    using assms by (auto simp: MessageHeader_deserialize_def HEADER_SIZE_def split: if_splits)
  have "MessageHeader_serialize h =
      take 4 (drop 0 data) @ [data ! 4, data ! 5] @ take 4 (drop 6 data) @ take 4 (drop 10 data) @ [data ! 14, data ! 15]"
    using put32_get32 [of 0 data] put32_get32 [of 6 data] put32_get32 [of 10 data] l
    by (simp add: MessageHeader_serialize_def h)
  also have "\<dots> = take 16 data"
    using l by (intro nth_equalityI) (auto simp: nth_append nth_Cons' numeral_eq_Suc less_Suc_eq)
  finally show ?thesis using m h by (simp add: HEADER_SIZE_def)
qed

definition message_ok :: "Message \<Rightarrow> bool" where
  "message_ok m \<longleftrightarrow> mh_magic (ms_header m) = MAGIC \<and> unat (mh_payloadSize (ms_header m)) = length (ms_payload m)"

section \<open>Properties\<close>

text \<open>
  C11: decoding is the exact inverse of encoding on a byte stream. A message is read from the
  front of some bytes if and only if the bytes start with its encoding, its magic number is right and
  its size field is the length of the payload. A message made by \<^verbatim>\<open>Message::create\<close> has these
  properties if and only if its payload is shorter than \<open>2 ^ 32\<close> bytes.
\<close>

theorem message_codec_exact:
  "(Message_deserialize data = Inr m \<longleftrightarrow> message_ok m \<and> (\<exists>rest. data = Message_serialize m @ rest))
   \<and> (message_ok (Message_create t p i) \<longleftrightarrow> length p < 2 ^ 32)"
proof (intro conjI iffI)
  assume "Message_deserialize data = Inr m"
  then obtain h where h: "MessageHeader_deserialize data = Inr h" "HEADER_SIZE + unat (mh_payloadSize h) \<le> length data"
      "m = \<lparr>ms_header = h, ms_payload = take (unat (mh_payloadSize h)) (drop HEADER_SIZE data)\<rparr>"
    by (auto simp: Message_deserialize_def Let_def split: sum.splits if_splits)
  have "Message_serialize m = take (HEADER_SIZE + unat (mh_payloadSize h)) data"
    using header_encode_decode [OF h(1)] h(3) by (simp add: Message_serialize_def take_add)
  then have "data = Message_serialize m @ drop (HEADER_SIZE + unat (mh_payloadSize h)) data" by simp
  then show "message_ok m" "\<exists>rest. data = Message_serialize m @ rest"
    using header_encode_decode [OF h(1)] h(2,3) by (auto simp: message_ok_def)
next
  assume "message_ok m \<and> (\<exists>rest. data = Message_serialize m @ rest)"
  then show "Message_deserialize data = Inr m"
    by (auto simp: Message_deserialize_def Message_serialize_def header_decode_encode message_ok_def Let_def)
next
  show "length p < 2 ^ 32" if "message_ok (Message_create t p i)"
    using that unsigned_less [of "of_nat (length p) :: uint32", where ?'a = nat]
    by (simp add: message_ok_def Message_create_def)
  show "message_ok (Message_create t p i)" if "length p < 2 ^ 32"
    using that by (simp add: message_ok_def Message_create_def unat_of_nat)
qed

end
