(* ===== verification/Expiring_Store.thy ===== *)
theory Expiring_Store
  imports Lithium_Prelude
begin

text \<open>
  The contract shared by the caches of the program: a map from keys to values with a deadline. An
  operation of a cache is one critical section under its mutex, with the clock reading it uses, so a
  list of timed operations is any interleaving of threads. The specification \<open>spec_step\<close> keeps the last
  value put under each key and its deadline. The locale \<open>expiring_store\<close> states what one operation of
  a cache may do to its entries; its lemmas compare a whole history with the specification.
\<close>

datatype 'v cache_op =
    Put string 'v int
  | Read string
  | Expire string
  | Remove string
  | Clear
  | Purge
  | SetTtl int
  | Resize nat

type_synonym 'v deadlines = "string \<Rightarrow> ('v \<times> int) option"

definition visible :: "int \<Rightarrow> ('v \<times> int) option \<Rightarrow> 'v option" where
  "visible now x = (case x of Some (v, e) \<Rightarrow> if now < e then Some v else None | None \<Rightarrow> None)"

fun spec_step :: "(string \<Rightarrow> bool) \<Rightarrow> (int \<Rightarrow> int \<Rightarrow> int \<Rightarrow> int) \<Rightarrow> (int \<Rightarrow> int \<Rightarrow> int) \<Rightarrow> int \<times> 'v cache_op
    \<Rightarrow> 'v deadlines \<times> int \<Rightarrow> 'v deadlines \<times> int" where
  "spec_step accepts deadline new_ttl (now, Put k v ttl) (m, d) =
     (if accepts k then m(k \<mapsto> (v, deadline d ttl now)) else m, d)"
| "spec_step accepts deadline new_ttl (now, Remove k) (m, d) = (m(k := None), d)"
| "spec_step accepts deadline new_ttl (now, Clear) (m, d) = (Map.empty, d)"
| "spec_step accepts deadline new_ttl (now, SetTtl n) (m, d) = (m, new_ttl n d)"
| "spec_step accepts deadline new_ttl (now, Read k) (m, d) = (m, d)"
| "spec_step accepts deadline new_ttl (now, Expire k) (m, d) = (m, d)"
| "spec_step accepts deadline new_ttl (now, Purge) (m, d) = (m, d)"
| "spec_step accepts deadline new_ttl (now, Resize n) (m, d) = (m, d)"

definition spec_run :: "(string \<Rightarrow> bool) \<Rightarrow> (int \<Rightarrow> int \<Rightarrow> int \<Rightarrow> int) \<Rightarrow> (int \<Rightarrow> int \<Rightarrow> int)
    \<Rightarrow> (int \<times> 'v cache_op) list \<Rightarrow> int \<Rightarrow> 'v deadlines \<times> int" where
  "spec_run accepts deadline new_ttl ops d = fold (spec_step accepts deadline new_ttl) ops (Map.empty, d)"

primrec put_keys :: "(int \<times> 'v cache_op) list \<Rightarrow> string set" where
  "put_keys [] = {}"
| "put_keys (x # xs) = (case snd x of Put k v ttl \<Rightarrow> insert k (put_keys xs) | _ \<Rightarrow> put_keys xs)"

lemma put_keys_append: "put_keys (xs @ ys) = put_keys xs \<union> put_keys ys"
  by (induction xs) (auto split: cache_op.splits)

lemma put_keys_snoc_Put: "put_keys (xs @ [(t, Put k v ttl)]) = insert k (put_keys xs)"
  by (simp add: put_keys_append)

lemma finite_put_keys [simp]: "finite (put_keys xs)"
  by (induction xs) (auto split: cache_op.splits)

lemma spec_run_dom: "dom (fst (spec_run accepts deadline new_ttl ops d)) \<subseteq> put_keys ops"
proof (induction ops rule: rev_induct)
  case (snoc x ops)
  obtain t p where x: "x = (t, p)" by (cases x)
  obtain m d' where r: "spec_run accepts deadline new_ttl ops d = (m, d')" by (meson surj_pair)
  have "spec_run accepts deadline new_ttl (ops @ [x]) d = spec_step accepts deadline new_ttl x (m, d')"
    using r by (simp add: spec_run_def)
  then show ?case using snoc unfolding r x by (cases p) (auto simp: put_keys_append split: if_splits)
qed (simp add: spec_run_def)

lemma visible_mono: "x = None \<or> x = y \<Longrightarrow> visible now x = Some v \<Longrightarrow> visible now y = Some v"
  by (auto simp: visible_def)

text \<open>
  One operation may lose entries and never invents one: it keeps every entry that is not concerned
  unless it has to make room, and it drops an entry for its age only when its deadline has come.
\<close>

locale expiring_store =
  fixes step :: "int \<times> 'v cache_op \<Rightarrow> 's \<Rightarrow> 's"
    and entry :: "'s \<Rightarrow> 'v deadlines"
    and ttl_of :: "'s \<Rightarrow> int"
    and inv :: "'s \<Rightarrow> bool"
    and makes_room :: "'v cache_op \<Rightarrow> 's \<Rightarrow> bool"
    and accepts :: "string \<Rightarrow> bool"
    and deadline :: "int \<Rightarrow> int \<Rightarrow> int \<Rightarrow> int"
    and new_ttl :: "int \<Rightarrow> int \<Rightarrow> int"
  assumes inv_step: "inv s \<Longrightarrow> inv (step x s)"
    and ttl_step: "ttl_of (step x s) = snd (spec_step accepts deadline new_ttl x (m, ttl_of s))"
    and entry_step: "inv s \<Longrightarrow> entry (step x s) k
        \<in> {None, fst (spec_step accepts deadline new_ttl x (entry s, ttl_of s)) k}"
    and entry_kept: "inv s \<Longrightarrow> \<not> makes_room (snd x) s
        \<Longrightarrow> fst (spec_step accepts deadline new_ttl x (entry s, ttl_of s)) k = Some (v, e)
        \<Longrightarrow> fst x < e \<Longrightarrow> entry (step x s) k = Some (v, e)"
begin

lemma spec_step_mono:
  assumes "f k = None \<or> f k = m k"
  shows "fst (spec_step accepts deadline new_ttl x (f, d)) k
    \<in> {None, fst (spec_step accepts deadline new_ttl x (m, d)) k}"
proof (cases x)
  case (Pair t p)
  then show ?thesis using assms by (cases p) auto
qed

lemma history:
  "inv s \<Longrightarrow> entry s = Map.empty \<Longrightarrow> inv (fold step ops s)
    \<and> ttl_of (fold step ops s) = snd (spec_run accepts deadline new_ttl ops (ttl_of s))
    \<and> entry (fold step ops s) k \<in> {None, fst (spec_run accepts deadline new_ttl ops (ttl_of s)) k}"
proof (induction ops arbitrary: k rule: rev_induct)
  case (snoc x ops)
  let ?s = "fold step ops s" and ?m = "spec_run accepts deadline new_ttl ops (ttl_of s)"
  have IH: "inv ?s" "ttl_of ?s = snd ?m" "entry ?s k \<in> {None, fst ?m k}" for k using snoc by blast+
  have m: "spec_run accepts deadline new_ttl (ops @ [x]) (ttl_of s)
      = spec_step accepts deadline new_ttl x (fst ?m, ttl_of ?s)"
    using IH(2) by (simp add: spec_run_def)
  have "entry (step x ?s) k \<in> {None, fst (spec_step accepts deadline new_ttl x (fst ?m, ttl_of ?s)) k}"
    using entry_step [OF IH(1), of x k] spec_step_mono [of "entry ?s" k "fst ?m" x "ttl_of ?s"] IH(3) by auto
  then show ?case using inv_step [OF IH(1)] ttl_step [of x ?s "fst ?m"] by (simp add: m)
qed (simp add: spec_run_def)

text \<open>No stale reads: what a store shows is what the specification shows.\<close>

lemma sound:
  assumes "inv s" "entry s = Map.empty" "visible now (entry (fold step ops s) k) = Some v"
  shows "visible now (fst (spec_run accepts deadline new_ttl ops (ttl_of s)) k) = Some v"
  using history [OF assms(1,2), of ops k] assms(3) by (auto intro: visible_mono)

text \<open>As long as no operation has to make room, the store shows everything the specification shows.\<close>

lemma kept:
  assumes "inv s" "entry s = Map.empty"
  shows "(\<And>i. i < length ops \<Longrightarrow> \<not> makes_room (snd (ops ! i)) (fold step (take i ops) s)) \<Longrightarrow>
    (\<And>x. x \<in> set ops \<Longrightarrow> fst x < e) \<Longrightarrow>
    fst (spec_run accepts deadline new_ttl ops (ttl_of s)) k = Some (v, e) \<Longrightarrow>
    entry (fold step ops s) k = Some (v, e)"
proof (induction ops arbitrary: k v rule: rev_induct)
  case Nil
  then show ?case by (simp add: spec_run_def)
next
  case (snoc x ops)
  let ?s = "fold step ops s" and ?m = "spec_run accepts deadline new_ttl ops (ttl_of s)"
  have room: "\<not> makes_room (snd (ops ! i)) (fold step (take i ops) s)" if "i < length ops" for i
    using snoc.prems(1) [of i] that by (simp add: nth_append)
  have IH: "entry ?s k = Some (v, e)" if "fst ?m k = Some (v, e)" for k v
    using snoc.IH room snoc.prems(2) that by force
  have h: "inv ?s" "ttl_of ?s = snd ?m" "entry ?s k \<in> {None, fst ?m k}" for k
    using history [OF assms] by blast+
  have p: "fst (spec_step accepts deadline new_ttl x (fst ?m, ttl_of ?s)) k = Some (v, e)"
    using snoc.prems(3) h(2) by (simp add: spec_run_def)
  obtain t q where x: "x = (t, q)" by (cases x)
  have "fst (spec_step accepts deadline new_ttl x (entry ?s, ttl_of ?s)) k = Some (v, e)"
    using p IH [of k v] unfolding x by (cases q) (auto split: if_splits)
  moreover have "\<not> makes_room (snd x) ?s" using snoc.prems(1) [of "length ops"] by simp
  moreover have "fst x < e" using snoc.prems(2) by simp
  ultimately show ?case using entry_kept [OF h(1)] by simp
qed

lemma complete:
  assumes "inv s" "entry s = Map.empty"
    "\<And>i. i < length ops \<Longrightarrow> \<not> makes_room (snd (ops ! i)) (fold step (take i ops) s)"
    "\<And>x. x \<in> set ops \<Longrightarrow> fst x \<le> now"
  shows "visible now (entry (fold step ops s) k)
    = visible now (fst (spec_run accepts deadline new_ttl ops (ttl_of s)) k)"
proof (cases "visible now (fst (spec_run accepts deadline new_ttl ops (ttl_of s)) k)")
  case None
  then show ?thesis using sound [OF assms(1,2), of now ops k] by (cases "visible now (entry (fold step ops s) k)") auto
next
  case (Some v)
  then obtain e where e: "fst (spec_run accepts deadline new_ttl ops (ttl_of s)) k = Some (v, e)" "now < e"
    by (auto simp: visible_def split: option.splits if_splits)
  have "fst x < e" if "x \<in> set ops" for x using assms(4) [OF that] e(2) by simp
  from kept [OF assms(1,2) assms(3) this e(1)] show ?thesis using e by (simp add: visible_def)
qed

end

end
