(* ===== verification/Cache_Manager.thy ===== *)
theory Cache_Manager
  imports Expiring_Store
begin

text \<open>
  The query cache of the database layer, \<^verbatim>\<open>src/src/database/cache/cache_manager.cpp\<close>: an unordered
  map from keys to a value and the time it expires. Time points are integers in nanoseconds; the
  reading of the steady clock is the argument \<open>now\<close>. Each operation is one critical section under
  \<^verbatim>\<open>cacheMutex\<close>; the purge thread is an operation \<^verbatim>\<open>purgeExpired\<close> at any place of a history.
\<close>

record db_entry =
  ce_value :: string
  ce_expiry :: int

record cache_manager =
  cm_cache :: "db_entry umap"
  cm_defaultTTL :: int

definition CacheManager_new :: cache_manager where
  "CacheManager_new = \<lparr>cm_cache = [], cm_defaultTTL = 300\<rparr>"

definition CacheManager_put :: "int \<Rightarrow> string \<Rightarrow> string \<Rightarrow> int \<Rightarrow> cache_manager \<Rightarrow> cache_manager" where
  "CacheManager_put now key val ttlSeconds c =
     (if key = [] then c
      else let ttl = (if ttlSeconds \<le> 0 then cm_defaultTTL c else ttlSeconds);
               expiry = now + ttl * 1000000000
           in c\<lparr>cm_cache := AList.update key \<lparr>ce_value = val, ce_expiry = expiry\<rparr> (cm_cache c)\<rparr>)"

definition CacheManager_get :: "int \<Rightarrow> string \<Rightarrow> cache_manager \<Rightarrow> string option" where
  "CacheManager_get now key c =
     (if key = [] then None
      else case map_of (cm_cache c) key of
        Some e \<Rightarrow> if now < ce_expiry e then Some (ce_value e) else None
      | None \<Rightarrow> None)"

definition CacheManager_remove :: "string \<Rightarrow> cache_manager \<Rightarrow> bool \<times> cache_manager" where
  "CacheManager_remove key c =
     (map_of (cm_cache c) key \<noteq> None, c\<lparr>cm_cache := AList.delete key (cm_cache c)\<rparr>)"

definition CacheManager_clear :: "cache_manager \<Rightarrow> cache_manager" where
  "CacheManager_clear c = c\<lparr>cm_cache := []\<rparr>"

text \<open>The loop over the map erases an expired entry and counts it.\<close>

fun purgeLoop :: "int \<Rightarrow> db_entry umap \<Rightarrow> nat \<Rightarrow> nat \<times> db_entry umap" where
  "purgeLoop now [] removed = (removed, [])"
| "purgeLoop now ((k, e) # m) removed =
     (if now \<ge> ce_expiry e then purgeLoop now m (removed + 1)
      else map_prod id (\<lambda>m'. (k, e) # m') (purgeLoop now m removed))"

definition purgeExpired :: "int \<Rightarrow> cache_manager \<Rightarrow> nat \<times> cache_manager" where
  "purgeExpired now c =
     (let (removed, m) = purgeLoop now (cm_cache c) 0 in (removed, c\<lparr>cm_cache := m\<rparr>))"

definition setDefaultTTL :: "int \<Rightarrow> cache_manager \<Rightarrow> cache_manager" where
  "setDefaultTTL seconds c = (if seconds > 0 then c\<lparr>cm_defaultTTL := seconds\<rparr> else c)"

definition CacheManager_size :: "cache_manager \<Rightarrow> nat" where
  "CacheManager_size c = length (cm_cache c)"

text \<open>A history of critical sections; operations the class does not have leave the cache alone.\<close>

fun cm_step :: "int \<times> string cache_op \<Rightarrow> cache_manager \<Rightarrow> cache_manager" where
  "cm_step (now, Put k v ttl) c = CacheManager_put now k v ttl c"
| "cm_step (now, Remove k) c = snd (CacheManager_remove k c)"
| "cm_step (now, Clear) c = CacheManager_clear c"
| "cm_step (now, Purge) c = snd (purgeExpired now c)"
| "cm_step (now, SetTtl n) c = setDefaultTTL n c"
| "cm_step (now, Read k) c = c"
| "cm_step (now, Expire k) c = c"
| "cm_step (now, Resize n) c = c"

definition cm_inv :: "cache_manager \<Rightarrow> bool" where
  "cm_inv c \<longleftrightarrow> distinct (map fst (cm_cache c)) \<and> [] \<notin> keys (cm_cache c) \<and> 0 < cm_defaultTTL c"

definition cm_entry :: "cache_manager \<Rightarrow> string deadlines" where
  "cm_entry c k = map_option (\<lambda>e. (ce_value e, ce_expiry e)) (map_of (cm_cache c) k)"

definition cm_deadline :: "int \<Rightarrow> int \<Rightarrow> int \<Rightarrow> int" where
  "cm_deadline d ttl now = now + (if ttl \<le> 0 then d else ttl) * 1000000000"

definition cm_new_ttl :: "int \<Rightarrow> int \<Rightarrow> int" where
  "cm_new_ttl n d = (if n > 0 then n else d)"

lemma purgeLoop_eq:
  "purgeLoop now m n = (n + length (filter (\<lambda>x. ce_expiry (snd x) \<le> now) m), filter (\<lambda>x. now < ce_expiry (snd x)) m)"
  by (induction now m n rule: purgeLoop.induct) auto

lemma cm_inv_step:
  assumes "cm_inv c"
  shows "cm_inv (cm_step x c)"
proof (cases x)
  case (Pair now p)
  show ?thesis using assms unfolding Pair
    by (cases p) (auto simp: cm_inv_def CacheManager_put_def CacheManager_remove_def CacheManager_clear_def
        purgeExpired_def purgeLoop_eq setDefaultTTL_def Let_def distinct_update distinct_delete
        distinct_map_filter dest: keys_filterD)
qed

lemma cm_entry_empty: "cm_inv c \<Longrightarrow> cm_entry c [] = None"
  by (auto simp: cm_inv_def cm_entry_def map_of_None_keys)

lemma CacheManager_get_visible: "cm_inv c \<Longrightarrow> CacheManager_get now k c = visible now (cm_entry c k)"
  using cm_entry_empty [of c]
  by (cases "k = []") (auto simp: CacheManager_get_def visible_def cm_entry_def split: option.split)

interpretation cm: expiring_store cm_step cm_entry cm_defaultTTL cm_inv "\<lambda>p c. False"
  "\<lambda>k. k \<noteq> []" cm_deadline cm_new_ttl
proof
  fix x :: "int \<times> string cache_op" and s m
  show "cm_defaultTTL (cm_step x s)
      = snd (spec_step (\<lambda>k. k \<noteq> []) cm_deadline cm_new_ttl x (m, cm_defaultTTL s))"
    by (cases x; cases "snd x")
      (auto simp: CacheManager_put_def CacheManager_remove_def CacheManager_clear_def purgeExpired_def
        setDefaultTTL_def cm_new_ttl_def Let_def split: prod.split)
next
  fix x :: "int \<times> string cache_op" and s k
  assume s: "cm_inv s"
  obtain now p where x: "x = (now, p)" by (cases x)
  have d: "distinct (map fst (cm_cache s))" using s by (simp add: cm_inv_def)
  note ops = cm_entry_def CacheManager_put_def CacheManager_remove_def CacheManager_clear_def
    purgeExpired_def purgeLoop_eq setDefaultTTL_def cm_deadline_def Let_def
    map_of_filter_vals [OF d, where P = "\<lambda>e. now < ce_expiry e"] update_conv' delete_conv'
  show "cm_entry (cm_step x s) k
      \<in> {None, fst (spec_step (\<lambda>k. k \<noteq> []) cm_deadline cm_new_ttl x (cm_entry s, cm_defaultTTL s)) k}"
    unfolding x by (cases p) (auto simp: ops split: option.splits)
  fix v e
  assume "fst (spec_step (\<lambda>k. k \<noteq> []) cm_deadline cm_new_ttl x (cm_entry s, cm_defaultTTL s)) k = Some (v, e)"
    "fst x < e"
  then show "cm_entry (cm_step x s) k = Some (v, e)"
    unfolding x by (cases p) (auto simp: ops split: if_splits)
qed (rule cm_inv_step)

section \<open>Properties\<close>

text \<open>
  C16: the query cache implements its specification. After any history of operations of any threads,
  a lookup returns exactly the value last put under that key, if it has not been removed or cleared
  since and its deadline (the clock at the put plus its time to live, or plus the default at that time
  when it is not positive) lies ahead; the empty key is never stored. The size is the number of
  entries, expired ones that no purge has met included.
\<close>

theorem CacheManager_refines:
  assumes "\<forall>x \<in> set ops. fst x \<le> now"
  shows "CacheManager_get now k (fold cm_step ops CacheManager_new)
      = visible now (fst (spec_run (\<lambda>k. k \<noteq> []) cm_deadline cm_new_ttl ops 300) k)
    \<and> CacheManager_size (fold cm_step ops CacheManager_new) = card (dom (cm_entry (fold cm_step ops CacheManager_new)))"
proof -
  have i: "cm_inv CacheManager_new" "cm_entry CacheManager_new = Map.empty" "cm_defaultTTL CacheManager_new = 300"
    by (auto simp: cm_inv_def cm_entry_def CacheManager_new_def)
  let ?c = "fold cm_step ops CacheManager_new"
  have inv: "cm_inv ?c" using cm.history [OF i(1,2)] by blast
  have "dom (cm_entry ?c) = set (map fst (cm_cache ?c))"
    by (auto simp: cm_entry_def dom_def map_of_eq_None_iff simp flip: not_None_eq)
  then have "card (dom (cm_entry ?c)) = length (cm_cache ?c)"
    using inv distinct_card [of "map fst (cm_cache ?c)"] by (simp add: cm_inv_def)
  then show ?thesis
    using cm.complete [OF i(1,2), of ops now k] assms CacheManager_get_visible [OF inv] i(3)
    by (simp add: CacheManager_size_def)
qed

theorem CacheManager_refines_witness:
  "CacheManager_get 6 ''q'' (fold cm_step [(0, Put ''q'' ''old'' 1), (5, Put ''q'' ''new'' 0), (5, Purge)] CacheManager_new)
     = Some ''new''"
proof -
  have "\<forall>x \<in> set [(0, Put ''q'' ''old'' 1), (5, Put ''q'' ''new'' 0), (5, Purge)]. fst x \<le> (6 :: int)" by simp
  from CacheManager_refines [OF this, of "''q''"] show ?thesis
    by (simp add: spec_run_def visible_def cm_deadline_def)
qed

end
