(* ===== verification/Config_Cache.thy ===== *)
theory Config_Cache
  imports Expiring_Store
begin

text \<open>
  The configuration cache, \<^verbatim>\<open>src/src/config/components/cache.cpp\<close>: entries with a deadline and the time
  of their last access; a full cache evicts the entry that was used longest ago. Values are JSON
  documents the cache only stores, so their type is a parameter. Time points are integers in
  nanoseconds, \<open>time_max\<close> is \<^verbatim>\<open>time_point::max()\<close>, and clock readings are arguments. A lookup of an
  expired entry gives up its read lock before it takes the write lock: it is two steps, \<open>get_read\<close>
  and \<open>get_erase\<close>, between which other threads may run. Counters are natural numbers.
\<close>

record 'v config_entry =
  en_value :: 'v
  en_lastAccess :: int
  en_expiry :: int
  en_accessCount :: nat

record CacheConfig =
  cfg_maxSize :: nat
  cfg_defaultTtl :: int
  cfg_cleanupInterval :: int
  cfg_enableStats :: bool

record Statistics =
  st_hits :: nat
  st_misses :: nat
  st_evictions :: nat
  st_expirations :: nat
  st_currentSize :: nat

record 'v config_cache =
  cc_config :: CacheConfig
  cc_cache :: "'v config_entry umap"
  cc_stats :: Statistics

definition time_max :: int where
  "time_max = 2 ^ 63 - 1"

definition CacheConfig_default :: CacheConfig where
  "CacheConfig_default = \<lparr>cfg_maxSize = 1000, cfg_defaultTtl = 30000, cfg_cleanupInterval = 60000, cfg_enableStats = True\<rparr>"

definition CacheEntry_new :: "int \<Rightarrow> 'v \<Rightarrow> int \<Rightarrow> 'v config_entry" where
  "CacheEntry_new now val ttl =
     \<lparr>en_value = val, en_lastAccess = now,
      en_expiry = (if ttl > 0 then now + ttl * 1000000 else time_max), en_accessCount = 0\<rparr>"

definition ConfigCache_new :: "CacheConfig \<Rightarrow> 'v config_cache" where
  "ConfigCache_new config =
     \<lparr>cc_config = config, cc_cache = [],
      cc_stats = \<lparr>st_hits = 0, st_misses = 0, st_evictions = 0, st_expirations = 0, st_currentSize = 0\<rparr>\<rparr>"

definition getHitRatio :: "Statistics \<Rightarrow> real" where
  "getHitRatio st =
     (let totalAccess = st_hits st + st_misses st
      in if totalAccess > 0 then real (st_hits st) / real totalAccess * 100 else 0)"

definition entry_expired :: "int \<Rightarrow> 'v config_entry \<Rightarrow> bool" where
  "entry_expired now e \<longleftrightarrow> en_expiry e \<le> now"

definition set_currentSize :: "'v config_cache \<Rightarrow> 'v config_cache" where
  "set_currentSize c = c\<lparr>cc_stats := (cc_stats c)\<lparr>st_currentSize := length (cc_cache c)\<rparr>\<rparr>"

text \<open>The loop of \<^verbatim>\<open>performCleanup\<close> with the number of erased entries.\<close>

fun cleanupLoop :: "int \<Rightarrow> 'v config_entry umap \<Rightarrow> nat \<Rightarrow> nat \<times> 'v config_entry umap" where
  "cleanupLoop now [] cleaned = (cleaned, [])"
| "cleanupLoop now ((k, e) # m) cleaned =
     (if en_expiry e \<le> now then cleanupLoop now m (cleaned + 1)
      else let (n, m') = cleanupLoop now m cleaned in (n, (k, e) # m'))"

definition performCleanup :: "int \<Rightarrow> 'v config_cache \<Rightarrow> nat \<times> 'v config_cache" where
  "performCleanup now c =
     (let (cleaned, m) = cleanupLoop now (cc_cache c) 0
      in (cleaned, set_currentSize (c\<lparr>cc_cache := m,
            cc_stats := (cc_stats c)\<lparr>st_expirations := st_expirations (cc_stats c) + cleaned\<rparr>\<rparr>)))"

text \<open>\<^verbatim>\<open>std::min_element\<close>: the first entry that no other entry is smaller than.\<close>

primrec min_access :: "string \<times> 'v config_entry \<Rightarrow> 'v config_entry umap \<Rightarrow> string \<times> 'v config_entry" where
  "min_access b [] = b"
| "min_access b (x # xs) =
     min_access (if en_lastAccess (snd x) < en_lastAccess (snd b) then x else b) xs"

definition evictLru :: "'v config_cache \<Rightarrow> 'v config_cache" where
  "evictLru c =
     (case cc_cache c of
        [] \<Rightarrow> c
      | x # xs \<Rightarrow> c\<lparr>cc_cache := AList.delete (fst (min_access x xs)) (cc_cache c),
                     cc_stats := (cc_stats c)\<lparr>st_evictions := st_evictions (cc_stats c) + 1\<rparr>\<rparr>)"

definition count_hit :: "'v config_cache \<Rightarrow> 'v config_cache" where
  "count_hit c = c\<lparr>cc_stats := (cc_stats c)\<lparr>st_hits := st_hits (cc_stats c) + 1\<rparr>\<rparr>"

definition count_miss :: "'v config_cache \<Rightarrow> 'v config_cache" where
  "count_miss c = c\<lparr>cc_stats := (cc_stats c)\<lparr>st_misses := st_misses (cc_stats c) + 1\<rparr>\<rparr>"

text \<open>
  The section of \<^verbatim>\<open>get\<close> under the read lock, with the clock readings of \<^verbatim>\<open>isExpired\<close> and of the access:
  \<open>Inr r\<close> is a lookup that is done, \<open>Inl ()\<close> one that goes on to erase an expired entry.
\<close>

definition get_read :: "int \<Rightarrow> int \<Rightarrow> string \<Rightarrow> 'v config_cache \<Rightarrow> (unit + 'v option) \<times> 'v config_cache" where
  "get_read t1 t2 key c =
     (case map_of (cc_cache c) key of
        None \<Rightarrow> (Inr None, count_miss c)
      | Some e \<Rightarrow>
          if entry_expired t1 e then (Inl (), c)
          else (Inr (Some (en_value e)),
                count_hit (c\<lparr>cc_cache := AList.update key
                  (e\<lparr>en_lastAccess := t2, en_accessCount := en_accessCount e + 1\<rparr>) (cc_cache c)\<rparr>)))"

definition get_erase :: "int \<Rightarrow> string \<Rightarrow> 'v config_cache \<Rightarrow> 'v config_cache" where
  "get_erase now key c =
     (case map_of (cc_cache c) key of
        None \<Rightarrow> c
      | Some e \<Rightarrow>
          if entry_expired now e
          then set_currentSize (count_miss (c\<lparr>cc_cache := AList.delete key (cc_cache c),
                 cc_stats := (cc_stats c)\<lparr>st_expirations := st_expirations (cc_stats c) + 1\<rparr>\<rparr>))
          else c)"

definition ConfigCache_get :: "int \<Rightarrow> int \<Rightarrow> string \<Rightarrow> 'v config_cache \<Rightarrow> 'v option \<times> 'v config_cache" where
  "ConfigCache_get t1 t2 key c =
     (case get_read t1 t2 key c of
        (Inr r, c') \<Rightarrow> (r, c')
      | (Inl _, c') \<Rightarrow> (None, get_erase t2 key c'))"

definition ConfigCache_put :: "int \<Rightarrow> string \<Rightarrow> 'v \<Rightarrow> int \<Rightarrow> 'v config_cache \<Rightarrow> 'v config_cache" where
  "ConfigCache_put now key val ttl c =
     (let effectiveTtl = (if ttl > 0 then ttl else cfg_defaultTtl (cc_config c));
          entry = CacheEntry_new now val effectiveTtl;
          c1 = (if length (cc_cache c) \<ge> cfg_maxSize (cc_config c) \<and> map_of (cc_cache c) key = None
                then evictLru c else c)
      in set_currentSize (c1\<lparr>cc_cache := AList.update key entry (cc_cache c1)\<rparr>))"

definition ConfigCache_remove :: "string \<Rightarrow> 'v config_cache \<Rightarrow> bool \<times> 'v config_cache" where
  "ConfigCache_remove key c =
     (if map_of (cc_cache c) key \<noteq> None
      then (True, set_currentSize (c\<lparr>cc_cache := AList.delete key (cc_cache c)\<rparr>))
      else (False, c))"

definition ConfigCache_contains :: "int \<Rightarrow> string \<Rightarrow> 'v config_cache \<Rightarrow> bool" where
  "ConfigCache_contains now key c =
     (case map_of (cc_cache c) key of None \<Rightarrow> False | Some e \<Rightarrow> \<not> entry_expired now e)"

definition ConfigCache_clear :: "'v config_cache \<Rightarrow> 'v config_cache" where
  "ConfigCache_clear c =
     c\<lparr>cc_cache := [], cc_stats := (cc_stats c)\<lparr>st_currentSize := 0\<rparr>\<rparr>"

definition getStatistics :: "'v config_cache \<Rightarrow> Statistics \<times> 'v config_cache" where
  "getStatistics c = (cc_stats (set_currentSize c), set_currentSize c)"

definition ConfigCache_cleanup :: "int \<Rightarrow> 'v config_cache \<Rightarrow> nat \<times> 'v config_cache" where
  "ConfigCache_cleanup now c = performCleanup now c"

definition ConfigCache_size :: "'v config_cache \<Rightarrow> nat" where
  "ConfigCache_size c = length (cc_cache c)"

definition ConfigCache_empty :: "'v config_cache \<Rightarrow> bool" where
  "ConfigCache_empty c \<longleftrightarrow> cc_cache c = []"

text \<open>The loop of \<^verbatim>\<open>setMaxSize\<close>; every round evicts one entry.\<close>

lemma min_access_mem: "min_access b xs \<in> insert b (set xs)"
  by (induction xs arbitrary: b) auto

lemma length_evictLru:
  assumes "cc_cache c \<noteq> []"
  shows "length (cc_cache (evictLru c)) < length (cc_cache c)"
proof -
  obtain x xs where c: "cc_cache c = x # xs" using assms by (cases "cc_cache c") auto
  have "min_access x xs \<in> set (cc_cache c)" using min_access_mem [of x xs] by (simp add: c)
  then have "length (AList.delete (fst (min_access x xs)) (cc_cache c)) < length (cc_cache c)"
    unfolding AList.delete_eq by (intro length_filter_less) auto
  then show ?thesis by (simp add: evictLru_def c)
qed

function shrinkTo :: "nat \<Rightarrow> 'v config_cache \<Rightarrow> 'v config_cache" where
  "shrinkTo n c = (if length (cc_cache c) > n then shrinkTo n (evictLru c) else c)"
  by pat_completeness auto
termination shrinkTo
  by (relation "measure (\<lambda>(n, c). length (cc_cache c))") (auto intro: length_evictLru)

declare shrinkTo.simps [simp del]

definition setMaxSize :: "nat \<Rightarrow> 'v config_cache \<Rightarrow> 'v config_cache" where
  "setMaxSize n c = shrinkTo n (c\<lparr>cc_config := (cc_config c)\<lparr>cfg_maxSize := n\<rparr>\<rparr>)"

definition setDefaultTtl :: "int \<Rightarrow> 'v config_cache \<Rightarrow> 'v config_cache" where
  "setDefaultTtl ttl c = c\<lparr>cc_config := (cc_config c)\<lparr>cfg_defaultTtl := ttl\<rparr>\<rparr>"

text \<open>Critical sections of any threads, in the order in which they hold the mutex.\<close>

fun cc_step :: "int \<times> 'v cache_op \<Rightarrow> 'v config_cache \<Rightarrow> 'v config_cache" where
  "cc_step (now, Put k v ttl) c = ConfigCache_put now k v ttl c"
| "cc_step (now, Read k) c = snd (get_read now now k c)"
| "cc_step (now, Expire k) c = get_erase now k c"
| "cc_step (now, Remove k) c = snd (ConfigCache_remove k c)"
| "cc_step (now, Clear) c = ConfigCache_clear c"
| "cc_step (now, Purge) c = snd (ConfigCache_cleanup now c)"
| "cc_step (now, SetTtl n) c = setDefaultTtl n c"
| "cc_step (now, Resize n) c = setMaxSize n c"

section \<open>Entries, room and the invariant\<close>

definition cc_entry :: "'v config_cache \<Rightarrow> 'v deadlines" where
  "cc_entry c k = map_option (\<lambda>e. (en_value e, en_expiry e)) (map_of (cc_cache c) k)"

definition cc_deadline :: "int \<Rightarrow> int \<Rightarrow> int \<Rightarrow> int" where
  "cc_deadline d ttl now =
     (let t = (if ttl > 0 then ttl else d) in if t > 0 then now + t * 1000000 else time_max)"

definition cc_room :: "'v cache_op \<Rightarrow> 'v config_cache \<Rightarrow> bool" where
  "cc_room p c = (case p of
      Put k v ttl \<Rightarrow> length (cc_cache c) \<ge> cfg_maxSize (cc_config c) \<and> k \<notin> keys (cc_cache c)
    | Resize n \<Rightarrow> length (cc_cache c) > n
    | _ \<Rightarrow> False)"

definition cc_inv :: "'v config_cache \<Rightarrow> bool" where
  "cc_inv c \<longleftrightarrow> distinct (map fst (cc_cache c)) \<and> length (cc_cache c) \<le> max 1 (cfg_maxSize (cc_config c))"

lemma set_currentSize_simps [simp]:
  "cc_cache (set_currentSize c) = cc_cache c" "cc_config (set_currentSize c) = cc_config c"
  "cc_cache (count_hit c) = cc_cache c" "cc_config (count_hit c) = cc_config c"
  "cc_cache (count_miss c) = cc_cache c" "cc_config (count_miss c) = cc_config c"
  by (simp_all add: set_currentSize_def count_hit_def count_miss_def)

lemma evictLru_config [simp]: "cc_config (evictLru c) = cc_config c"
  by (simp add: evictLru_def split: list.split)

lemma min_access_least: "x \<in> insert b (set xs) \<Longrightarrow> en_lastAccess (snd (min_access b xs)) \<le> en_lastAccess (snd x)"
proof (induction xs arbitrary: b x)
  case (Cons y ys)
  let ?b = "if en_lastAccess (snd y) < en_lastAccess (snd b) then y else b"
  show ?case
  proof (cases "x \<in> set ys")
    case True
    then show ?thesis using Cons.IH [of x ?b] by simp
  next
    case False
    then show ?thesis using Cons.prems Cons.IH [of ?b ?b] by (auto split: if_splits)
  qed
qed simp

text \<open>Eviction drops the entry of one key, whose last access is not later than that of any other.\<close>

lemma evictLru_drops:
  assumes "cc_cache c \<noteq> []" "distinct (map fst (cc_cache c))"
  obtains k e where "map_of (cc_cache c) k = Some e" "\<forall>x \<in> set (cc_cache c). en_lastAccess e \<le> en_lastAccess (snd x)"
    "cc_cache (evictLru c) = AList.delete k (cc_cache c)"
proof -
  obtain x xs where c: "cc_cache c = x # xs" using assms(1) by (cases "cc_cache c") auto
  show thesis
  proof (rule that [of "fst (min_access x xs)" "snd (min_access x xs)"])
    have "min_access x xs \<in> set (cc_cache c)" using min_access_mem [of x xs] by (simp add: c)
    then show "map_of (cc_cache c) (fst (min_access x xs)) = Some (snd (min_access x xs))"
      using assms(2) by (intro map_of_is_SomeI) auto
    show "\<forall>y \<in> set (cc_cache c). en_lastAccess (snd (min_access x xs)) \<le> en_lastAccess (snd y)"
      using min_access_least [of _ x xs] by (simp add: c)
    show "cc_cache (evictLru c) = AList.delete (fst (min_access x xs)) (cc_cache c)"
      by (simp add: evictLru_def c)
  qed
qed

lemma shrinkTo_spec:
  "distinct (map fst (cc_cache c)) \<Longrightarrow> distinct (map fst (cc_cache (shrinkTo n c)))
    \<and> length (cc_cache (shrinkTo n c)) \<le> n \<and> cc_config (shrinkTo n c) = cc_config c
    \<and> (map_of (cc_cache (shrinkTo n c)) k = None \<or> map_of (cc_cache (shrinkTo n c)) k = map_of (cc_cache c) k)
    \<and> (length (cc_cache c) \<le> n \<longrightarrow> shrinkTo n c = c)"
proof (induction n c rule: shrinkTo.induct)
  case (1 n c)
  show ?case
  proof (cases "length (cc_cache c) > n")
    case True
    then have "cc_cache c \<noteq> []" by auto
    then obtain j where j: "cc_cache (evictLru c) = AList.delete j (cc_cache c)"
      using evictLru_drops "1.prems" by metis
    have "distinct (map fst (cc_cache (evictLru c)))" using "1.prems" by (simp add: j distinct_delete)
    then show ?thesis using "1.IH" [OF True] True
      by (subst (1 2 3 4 5 6) shrinkTo.simps) (auto simp: j delete_conv' split: if_splits)
  next
    case False
    then show ?thesis using "1.prems" by (simp add: shrinkTo.simps)
  qed
qed

lemma cleanupLoop_eq:
  "cleanupLoop now m n = (n + length (filter (\<lambda>x. en_expiry (snd x) \<le> now) m), filter (\<lambda>x. now < en_expiry (snd x)) m)"
  by (induction now m n rule: cleanupLoop.induct) (auto simp: Let_def)

lemmas cc_op_defs = ConfigCache_remove_def ConfigCache_clear_def ConfigCache_cleanup_def performCleanup_def
  cleanupLoop_eq get_read_def get_erase_def setDefaultTtl_def Let_def

text \<open>The map after a put: the new entry, and the other entries but the one that made room.\<close>

lemma put_cache:
  assumes "distinct (map fst (cc_cache c))"
  obtains (kept) "\<not> cc_room (Put k v ttl) c"
      "cc_cache (ConfigCache_put now k v ttl c) = AList.update k
        (CacheEntry_new now v (if ttl > 0 then ttl else cfg_defaultTtl (cc_config c))) (cc_cache c)"
  | (room) "cc_room (Put k v ttl) c"
      "cc_cache (ConfigCache_put now k v ttl c) = AList.update k
        (CacheEntry_new now v (if ttl > 0 then ttl else cfg_defaultTtl (cc_config c))) (cc_cache (evictLru c))"
  by (cases "cc_room (Put k v ttl) c")
    (auto simp: cc_room_def ConfigCache_put_def Let_def map_of_None_keys)

lemma put_config [simp]: "cc_config (ConfigCache_put now k v ttl c) = cc_config c"
  by (simp add: ConfigCache_put_def Let_def)

lemma length_update: "length (AList.update k v m) = (if k \<in> keys m then length m else length m + 1)"
  by (induction m) auto

lemma cc_inv_put:
  assumes "cc_inv c"
  shows "cc_inv (ConfigCache_put now k v ttl c)"
proof -
  have d: "distinct (map fst (cc_cache c))" using assms by (simp add: cc_inv_def)
  from d show ?thesis
  proof (cases rule: put_cache [of c k v ttl now])
    case kept
    then show ?thesis using assms by (auto simp: cc_inv_def cc_room_def distinct_update length_update)
  next
    case room
    show ?thesis
    proof (cases "cc_cache c = []")
      case True
      then have "cc_cache (evictLru c) = []" by (simp add: evictLru_def)
      then show ?thesis using room by (simp add: cc_inv_def)
    next
      case False
      then obtain j where j: "cc_cache (evictLru c) = AList.delete j (cc_cache c)"
        using evictLru_drops d by metis
      have "length (cc_cache (evictLru c)) < length (cc_cache c)" by (rule length_evictLru [OF False])
      then show ?thesis using assms room by (auto simp: cc_inv_def j distinct_update distinct_delete length_update)
    qed
  qed
qed

lemma length_delete_alist: "length (AList.delete k m) \<le> length m"
  by (simp add: AList.delete_eq)

lemma cc_inv_step:
  assumes "cc_inv c"
  shows "cc_inv (cc_step x c)"
proof (cases x)
  case (Pair now p)
  have d: "distinct (map fst (cc_cache c))" using assms by (simp add: cc_inv_def)
  have len: "length (AList.delete k (cc_cache c)) \<le> max 1 (cfg_maxSize (cc_config c))" for k
    using assms length_delete_alist [of k "cc_cache c"] by (auto simp: cc_inv_def)
  have flt: "length (filter P (cc_cache c)) \<le> max 1 (cfg_maxSize (cc_config c))" for P
    using assms length_filter_le [of P "cc_cache c"] by (auto simp: cc_inv_def simp del: length_filter_le)
  show ?thesis
  proof (cases p)
    case (Put k v ttl)
    then show ?thesis using cc_inv_put [OF assms] by (simp add: Pair)
  next
    case (Resize n)
    have "length (cc_cache (setMaxSize n c)) \<le> n" "distinct (map fst (cc_cache (setMaxSize n c)))"
      "cfg_maxSize (cc_config (setMaxSize n c)) = n"
      using shrinkTo_spec [of "c\<lparr>cc_config := (cc_config c)\<lparr>cfg_maxSize := n\<rparr>\<rparr>" n] d by (simp_all add: setMaxSize_def)
    then show ?thesis using Resize by (simp add: Pair cc_inv_def)
  next
    case (Read k)
    then show ?thesis using assms
      by (auto simp: Pair cc_op_defs cc_inv_def distinct_update length_update map_of_keysD split: option.split)
  next
    case (Purge)
    then show ?thesis using d flt by (simp add: Pair cc_op_defs cc_inv_def distinct_map_filter)
  qed (use assms len in \<open>auto simp: Pair cc_op_defs cc_inv_def distinct_delete split: option.split\<close>)
qed

lemma entry_put:
  assumes "cc_inv c"
  shows "cc_entry (ConfigCache_put now k v ttl c) j
      \<in> {None, ((cc_entry c)(k \<mapsto> (v, cc_deadline (cfg_defaultTtl (cc_config c)) ttl now))) j}"
    and "\<not> cc_room (Put k v ttl) c \<Longrightarrow> cc_entry (ConfigCache_put now k v ttl c)
      = (cc_entry c)(k \<mapsto> (v, cc_deadline (cfg_defaultTtl (cc_config c)) ttl now))"
proof -
  have d: "distinct (map fst (cc_cache c))" using assms by (simp add: cc_inv_def)
  have e: "(en_value e, en_expiry e) = (v, cc_deadline (cfg_defaultTtl (cc_config c)) ttl now)"
    if "e = CacheEntry_new now v (if ttl > 0 then ttl else cfg_defaultTtl (cc_config c))" for e
    using that by (simp add: CacheEntry_new_def cc_deadline_def Let_def)
  have ev: "map_of (cc_cache (evictLru c)) j \<in> {None, map_of (cc_cache c) j}" for j
  proof (cases "cc_cache c = []")
    case False
    then obtain i where "cc_cache (evictLru c) = AList.delete i (cc_cache c)" using evictLru_drops d by metis
    then show ?thesis by (simp add: delete_conv')
  qed (simp add: evictLru_def)
  show "cc_entry (ConfigCache_put now k v ttl c) j
      \<in> {None, ((cc_entry c)(k \<mapsto> (v, cc_deadline (cfg_defaultTtl (cc_config c)) ttl now))) j}"
    using d ev [of j] by (cases rule: put_cache [of c k v ttl now]) (auto simp: cc_entry_def update_conv' e)
  show "cc_entry (ConfigCache_put now k v ttl c)
      = (cc_entry c)(k \<mapsto> (v, cc_deadline (cfg_defaultTtl (cc_config c)) ttl now))"
    if "\<not> cc_room (Put k v ttl) c"
    using d that by (cases rule: put_cache [of c k v ttl now]) (auto simp: cc_entry_def update_conv' e fun_eq_iff)
qed

lemma entry_resize:
  assumes "cc_inv c"
  shows "cc_entry (setMaxSize n c) j \<in> {None, cc_entry c j}"
    and "length (cc_cache c) \<le> n \<Longrightarrow> cc_entry (setMaxSize n c) = cc_entry c"
    and "cc_config (setMaxSize n c) = (cc_config c)\<lparr>cfg_maxSize := n\<rparr>"
  using assms shrinkTo_spec [of "c\<lparr>cc_config := (cc_config c)\<lparr>cfg_maxSize := n\<rparr>\<rparr>" n j]
  by (auto simp: cc_inv_def setMaxSize_def cc_entry_def fun_eq_iff)

lemma shrinkTo_config: "cc_config (shrinkTo n c) = cc_config c"
proof (induction n c rule: shrinkTo.induct)
  case (1 n c)
  then show ?case by (cases "n < length (cc_cache c)") (simp_all add: shrinkTo.simps [of n c])
qed

interpretation cc: expiring_store cc_step cc_entry "\<lambda>c. cfg_defaultTtl (cc_config c)" cc_inv cc_room
  "\<lambda>k. True" cc_deadline "\<lambda>n d. n"
proof
  fix x :: "int \<times> 'v cache_op" and s :: "'v config_cache" and m
  show "cfg_defaultTtl (cc_config (cc_step x s))
      = snd (spec_step (\<lambda>k. True) cc_deadline (\<lambda>n d. n) x (m, cfg_defaultTtl (cc_config s)))"
    by (cases x; cases "snd x")
      (auto simp: cc_op_defs setMaxSize_def shrinkTo_config split: option.split)
next
  fix x :: "int \<times> 'v cache_op" and s :: "'v config_cache" and k
  assume s: "cc_inv s"
  obtain now p where x: "x = (now, p)" by (cases x)
  have d: "distinct (map fst (cc_cache s))" using s by (simp add: cc_inv_def)
  note ops = cc_op_defs cc_entry_def map_of_filter_vals [OF d, where P = "\<lambda>e. now < en_expiry e"]
    update_conv' delete_conv' entry_expired_def
  show "cc_entry (cc_step x s) k
      \<in> {None, fst (spec_step (\<lambda>k. True) cc_deadline (\<lambda>n d. n) x (cc_entry s, cfg_defaultTtl (cc_config s))) k}"
    using entry_put(1) [OF s] entry_resize(1) [OF s]
    unfolding x by (cases p) (auto simp: ops split: option.splits)
  fix v e
  assume "\<not> cc_room (snd x) s" "fst x < e"
    "fst (spec_step (\<lambda>k. True) cc_deadline (\<lambda>n d. n) x (cc_entry s, cfg_defaultTtl (cc_config s))) k = Some (v, e)"
  then show "cc_entry (cc_step x s) k = Some (v, e)"
    using entry_put(2) [OF s] entry_resize(2) [OF s]
    unfolding x by (cases p) (auto simp: cc_room_def [of "Resize _"] ops split: option.splits if_splits)
qed (rule cc_inv_step)

text \<open>A history that puts no more keys than the cache holds never makes room.\<close>

lemma maxSize_run:
  "\<forall>x \<in> set ops. \<forall>n. snd x \<noteq> Resize n \<Longrightarrow>
   cfg_maxSize (cc_config (fold cc_step ops c)) = cfg_maxSize (cc_config c)"
proof (induction ops arbitrary: c)
  case (Cons x ops)
  have "cfg_maxSize (cc_config (cc_step x c)) = cfg_maxSize (cc_config c)"
    using Cons.prems by (cases x; cases "snd x") (auto simp: cc_op_defs split: option.split)
  then show ?case using Cons by simp
qed simp

lemma ConfigCache_new_facts [simp]:
  "cc_inv (ConfigCache_new cfg)" "cc_entry (ConfigCache_new cfg) = Map.empty" "cc_config (ConfigCache_new cfg) = cfg"
  by (auto simp: cc_inv_def cc_entry_def ConfigCache_new_def)

lemmas cc_history = cc.history [OF ConfigCache_new_facts(1,2)]

lemma keys_run: "keys (cc_cache (fold cc_step ops (ConfigCache_new cfg))) \<subseteq> put_keys ops"
proof
  fix k
  let ?c = "fold cc_step ops (ConfigCache_new cfg)"
  assume "k \<in> keys (cc_cache ?c)"
  then have "cc_entry ?c k \<noteq> None" by (auto simp: cc_entry_def map_of_None_keys)
  then have "k \<in> dom (fst (spec_run (\<lambda>k. True) cc_deadline (\<lambda>n d. n) ops (cfg_defaultTtl cfg)))"
    using cc_history [of ops cfg k] by auto
  then show "k \<in> put_keys ops" using spec_run_dom by blast
qed

lemma no_room:
  assumes "\<forall>x \<in> set ops. \<forall>n. snd x \<noteq> Resize n" "card (put_keys ops) \<le> cfg_maxSize cfg" "i < length ops"
  shows "\<not> cc_room (snd (ops ! i)) (fold cc_step (take i ops) (ConfigCache_new cfg))"
proof
  let ?c = "fold cc_step (take i ops) (ConfigCache_new cfg)"
  assume r: "cc_room (snd (ops ! i)) ?c"
  have nr: "\<forall>n. snd (ops ! i) \<noteq> Resize n" using assms(1,3) by simp
  then obtain k v ttl where o: "snd (ops ! i) = Put k v ttl" using r by (auto simp: cc_room_def split: cache_op.splits)
  have split: "ops = take i ops @ (fst (ops ! i), Put k v ttl) # drop (Suc i) ops"
    using id_take_nth_drop [OF assms(3)] o by (metis prod.collapse)
  have "put_keys ops = put_keys (take i ops) \<union> insert k (put_keys (drop (Suc i) ops))"
    by (subst split) (simp add: put_keys_append)
  then have "insert k (keys (cc_cache ?c)) \<subseteq> put_keys ops" using keys_run [of "take i ops" cfg] by auto
  then have "card (insert k (keys (cc_cache ?c))) \<le> cfg_maxSize cfg"
    using assms(2) card_mono [OF finite_put_keys] by (meson le_trans)
  moreover have "cc_inv ?c" using cc_history by blast
  then have "card (keys (cc_cache ?c)) = length (cc_cache ?c)"
    using distinct_card [of "map fst (cc_cache ?c)"] by (simp add: cc_inv_def keys_def)
  moreover have "cfg_maxSize (cc_config ?c) = cfg_maxSize cfg"
    using maxSize_run [of "take i ops" "ConfigCache_new cfg"] assms(1) by (auto dest: in_set_takeD)
  ultimately show False using r by (simp add: o cc_room_def)
qed

lemma get_visible:
  "t1 \<le> t2 \<Longrightarrow> fst (ConfigCache_get t1 t2 k c) = visible t1 (cc_entry c k)
    \<and> st_hits (cc_stats (snd (ConfigCache_get t1 t2 k c))) + st_misses (cc_stats (snd (ConfigCache_get t1 t2 k c)))
      = st_hits (cc_stats c) + st_misses (cc_stats c) + 1"
  by (auto simp: ConfigCache_get_def cc_op_defs visible_def cc_entry_def entry_expired_def set_currentSize_def
      count_hit_def count_miss_def split: option.split)

section \<open>Properties\<close>



text \<open>
  eviction is least recently used. Putting a new key into a full cache drops exactly one entry,
  and no other entry was accessed earlier; a put into a cache with room, or of a known key, drops none.
\<close>

theorem ConfigCache_lru:
  assumes "distinct (map fst (cc_cache c))" "cc_cache c \<noteq> []"
    and e_def: "e = CacheEntry_new now v (if ttl > 0 then ttl else cfg_defaultTtl (cc_config c))"
  shows "(length (cc_cache c) \<ge> cfg_maxSize (cc_config c) \<and> k \<notin> keys (cc_cache c) \<longrightarrow>
      (\<exists>j y. map_of (cc_cache c) j = Some y \<and> (\<forall>x \<in> set (cc_cache c). en_lastAccess y \<le> en_lastAccess (snd x))
        \<and> map_of (cc_cache (ConfigCache_put now k v ttl c)) = (map_of (cc_cache c))(j := None, k \<mapsto> e)))
    \<and> (length (cc_cache c) < cfg_maxSize (cc_config c) \<or> k \<in> keys (cc_cache c) \<longrightarrow>
      map_of (cc_cache (ConfigCache_put now k v ttl c)) = (map_of (cc_cache c))(k \<mapsto> e))"
  using assms(1)
proof (cases rule: put_cache [of c k v ttl now])
  case kept
  then show ?thesis by (auto simp: e_def update_conv cc_room_def)
next
  case room
  obtain j y where j: "map_of (cc_cache c) j = Some y"
    "\<forall>x \<in> set (cc_cache c). en_lastAccess y \<le> en_lastAccess (snd x)"
    "cc_cache (evictLru c) = AList.delete j (cc_cache c)"
    using evictLru_drops [OF assms(2,1)] by metis
  have "map_of (cc_cache (ConfigCache_put now k v ttl c)) = (map_of (cc_cache c))(j := None, k \<mapsto> e)"
    unfolding room j e_def update_conv delete_conv ..
  then show ?thesis using j(1,2) room(1) by (auto simp: cc_room_def)
qed

definition two_entries :: "nat config_cache" where
  "two_entries = (ConfigCache_new (CacheConfig_default\<lparr>cfg_maxSize := 2\<rparr>))\<lparr>cc_cache :=
     [(''a'', \<lparr>en_value = 1, en_lastAccess = 2, en_expiry = 9, en_accessCount = 1\<rparr>),
      (''b'', \<lparr>en_value = 2, en_lastAccess = 1, en_expiry = 9, en_accessCount = 0\<rparr>)]\<rparr>"

theorem ConfigCache_lru_witness:
  "map_of (cc_cache (ConfigCache_put 3 ''c'' 3 1 two_entries)) ''b'' = None"
proof -
  have "distinct (map fst (cc_cache two_entries))" "cc_cache two_entries \<noteq> []" by (simp_all add: two_entries_def)
  from ConfigCache_lru [OF this refl, of "''c''" 3 3 1] show ?thesis
    by (auto simp: two_entries_def split: if_splits)
qed

end
