(* ===== verification/Script_Versioning.thy ===== *)
theory Script_Versioning
  imports Lithium_Prelude
begin

text \<open>
  The version store of the shell script runner, \<^verbatim>\<open>src/src/script/shell/versioning.cpp\<close>: per script the
  list of its saved versions, oldest first, cut to a maximal length from the front. The reading of the
  system clock is the argument \<open>now\<close>; every operation runs under the mutex and is one step.
\<close>

record ScriptVersion =
  sv_versionNumber :: nat
  sv_content :: string
  sv_timestamp :: int
  sv_author :: string
  sv_changeDescription :: string

record version_manager =
  vm_versionStorage :: "ScriptVersion list umap"
  vm_maxVersions :: nat

definition VersionManager_new :: "nat \<Rightarrow> version_manager" where
  "VersionManager_new maxVersions = \<lparr>vm_versionStorage = [], vm_maxVersions = maxVersions\<rparr>"

text \<open>\<^verbatim>\<open>versions.erase(begin, begin + toRemove)\<close> when there are more than the maximum.\<close>

definition prune :: "nat \<Rightarrow> 'a list \<Rightarrow> 'a list" where
  "prune n versions = (if length versions > n then drop (length versions - n) versions else versions)"

definition pruneOldVersions :: "string \<Rightarrow> version_manager \<Rightarrow> version_manager" where
  "pruneOldVersions name vm =
     (case map_of (vm_versionStorage vm) name of
        None \<Rightarrow> vm
      | Some versions \<Rightarrow>
          vm\<lparr>vm_versionStorage := AList.update name (prune (vm_maxVersions vm) versions) (vm_versionStorage vm)\<rparr>)"

definition getNextVersionNumber :: "string \<Rightarrow> version_manager \<Rightarrow> nat" where
  "getNextVersionNumber name vm =
     (case map_of (vm_versionStorage vm) name of
        None \<Rightarrow> 1
      | Some versions \<Rightarrow> if versions = [] then 1 else sv_versionNumber (last versions) + 1)"

definition saveVersion :: "int \<Rightarrow> string \<Rightarrow> string \<Rightarrow> string \<Rightarrow> string \<Rightarrow> version_manager \<Rightarrow> nat \<times> version_manager" where
  "saveVersion now name content author descr vm =
     (let versionNumber = getNextVersionNumber name vm;
          version = \<lparr>sv_versionNumber = versionNumber, sv_content = content, sv_timestamp = now,
                     sv_author = author, sv_changeDescription = descr\<rparr>;
          vm1 = vm\<lparr>vm_versionStorage := AList.update name
                  (lookup_or [] (vm_versionStorage vm) name @ [version]) (vm_versionStorage vm)\<rparr>
      in (versionNumber, pruneOldVersions name vm1))"

definition getVersion :: "string \<Rightarrow> nat \<Rightarrow> version_manager \<Rightarrow> ScriptVersion option" where
  "getVersion name n vm =
     (case map_of (vm_versionStorage vm) name of
        None \<Rightarrow> None
      | Some versions \<Rightarrow> find (\<lambda>v. sv_versionNumber v = n) versions)"

definition getLatestVersion :: "string \<Rightarrow> version_manager \<Rightarrow> ScriptVersion option" where
  "getLatestVersion name vm =
     (case map_of (vm_versionStorage vm) name of
        None \<Rightarrow> None
      | Some versions \<Rightarrow> if versions = [] then None else Some (last versions))"

definition rollback :: "string \<Rightarrow> nat \<Rightarrow> version_manager \<Rightarrow> string option" where
  "rollback name n vm =
     (case map_of (vm_versionStorage vm) name of
        None \<Rightarrow> None
      | Some versions \<Rightarrow> map_option sv_content (find (\<lambda>v. sv_versionNumber v = n) versions))"

definition getVersionHistory :: "string \<Rightarrow> version_manager \<Rightarrow> ScriptVersion list" where
  "getVersionHistory name vm =
     (case map_of (vm_versionStorage vm) name of None \<Rightarrow> [] | Some versions \<Rightarrow> versions)"

definition getVersionCount :: "string \<Rightarrow> version_manager \<Rightarrow> nat" where
  "getVersionCount name vm =
     (case map_of (vm_versionStorage vm) name of None \<Rightarrow> 0 | Some versions \<Rightarrow> length versions)"

definition setMaxVersions :: "nat \<Rightarrow> version_manager \<Rightarrow> version_manager" where
  "setMaxVersions n vm =
     vm\<lparr>vm_maxVersions := n, vm_versionStorage := map_vals (prune n) (vm_versionStorage vm)\<rparr>"

definition clearVersionHistory :: "string \<Rightarrow> version_manager \<Rightarrow> version_manager" where
  "clearVersionHistory name vm =
     (if map_of (vm_versionStorage vm) name \<noteq> None
      then vm\<lparr>vm_versionStorage := AList.delete name (vm_versionStorage vm)\<rparr> else vm)"

definition clearAllVersionHistory :: "version_manager \<Rightarrow> version_manager" where
  "clearAllVersionHistory vm = vm\<lparr>vm_versionStorage := []\<rparr>"

definition hasVersions :: "string \<Rightarrow> version_manager \<Rightarrow> bool" where
  "hasVersions name vm =
     (case map_of (vm_versionStorage vm) name of None \<Rightarrow> False | Some versions \<Rightarrow> versions \<noteq> [])"

definition getAllVersionedScripts :: "version_manager \<Rightarrow> string list" where
  "getAllVersionedScripts vm = map fst (vm_versionStorage vm)"

section \<open>Histories\<close>

text \<open>The specification of a script: every version saved since its history was last cleared.\<close>

datatype vm_op =
    Save int string string string string
  | SetMax nat
  | ClearScript string
  | ClearAll

fun vm_step :: "vm_op \<Rightarrow> version_manager \<Rightarrow> version_manager" where
  "vm_step (Save now name content author descr) vm = snd (saveVersion now name content author descr vm)"
| "vm_step (SetMax n) vm = setMaxVersions n vm"
| "vm_step (ClearScript name) vm = clearVersionHistory name vm"
| "vm_step ClearAll vm = clearAllVersionHistory vm"

fun log_step :: "string \<Rightarrow> vm_op \<Rightarrow> ScriptVersion list \<Rightarrow> ScriptVersion list" where
  "log_step s (Save now name content author descr) lg =
     (if name = s then lg @ [\<lparr>sv_versionNumber = length lg + 1, sv_content = content, sv_timestamp = now,
        sv_author = author, sv_changeDescription = descr\<rparr>] else lg)"
| "log_step s (SetMax n) lg = lg"
| "log_step s (ClearScript name) lg = (if name = s then [] else lg)"
| "log_step s ClearAll lg = []"

definition version_log :: "string \<Rightarrow> vm_op list \<Rightarrow> ScriptVersion list" where
  "version_log s ops = fold (log_step s) ops []"

definition keeps_some :: "vm_op \<Rightarrow> bool" where
  "keeps_some p = (case p of SetMax n \<Rightarrow> n > 0 | _ \<Rightarrow> True)"

lemma prune_drop: "prune n xs = drop (length xs - n) xs"
  by (simp add: prune_def)

lemma prune_length: "length (prune n xs) \<le> n"
  by (simp add: prune_drop)

lemma version_log_snoc: "version_log s (ops @ [p]) = log_step s p (version_log s ops)"
  by (simp add: version_log_def)

lemma version_log_numbers: "i < length (version_log s ops) \<Longrightarrow> sv_versionNumber (version_log s ops ! i) = i + 1"
proof (induction ops arbitrary: i rule: rev_induct)
  case (snoc p ops)
  then show ?case unfolding version_log_snoc
    by (cases p) (auto simp: nth_append less_Suc_eq split: if_splits)
qed (simp add: version_log_def)

lemma history_lookup: "getVersionHistory s vm = lookup_or [] (vm_versionStorage vm) s"
  by (simp add: getVersionHistory_def lookup_or_def)

lemma history_save:
  "getVersionHistory s (snd (saveVersion now name content author descr vm)) =
     (if s = name then prune (vm_maxVersions vm) (getVersionHistory name vm @
        [\<lparr>sv_versionNumber = getNextVersionNumber name vm, sv_content = content, sv_timestamp = now,
          sv_author = author, sv_changeDescription = descr\<rparr>])
      else getVersionHistory s vm)"
  by (simp add: saveVersion_def pruneOldVersions_def history_lookup update_conv' Let_def)

lemma next_number: "getNextVersionNumber s vm =
    (if getVersionHistory s vm = [] then 1 else sv_versionNumber (last (getVersionHistory s vm)) + 1)"
  by (simp add: getNextVersionNumber_def getVersionHistory_def split: option.split)

lemma save_max [simp]: "vm_maxVersions (snd (saveVersion now name content author descr vm)) = vm_maxVersions vm"
  by (simp add: saveVersion_def pruneOldVersions_def Let_def split: option.split)

lemma other_max [simp]:
  "vm_maxVersions (setMaxVersions n vm) = n" "vm_maxVersions (clearVersionHistory name vm) = vm_maxVersions vm"
  "vm_maxVersions (clearAllVersionHistory vm) = vm_maxVersions vm"
  by (simp_all add: setMaxVersions_def clearVersionHistory_def clearAllVersionHistory_def)

lemma prune_Nil [simp]: "prune n [] = []"
  by (simp add: prune_drop)

lemma history_other:
  "getVersionHistory s (setMaxVersions n vm) = prune n (getVersionHistory s vm)"
  "getVersionHistory s (clearVersionHistory name vm) = (if name = s then [] else getVersionHistory s vm)"
  "getVersionHistory s (clearAllVersionHistory vm) = []"
  by (auto simp: history_lookup setMaxVersions_def clearVersionHistory_def clearAllVersionHistory_def
      lookup_or_map_vals lookup_or_absent simp flip: map_of_None_keys)

text \<open>The stored list is the log without some of its oldest entries, and never without its newest.\<close>

definition suffix_of :: "nat \<Rightarrow> 'a list \<Rightarrow> nat \<Rightarrow> 'a list \<Rightarrow> bool" where
  "suffix_of p lg n h \<longleftrightarrow> h = drop p lg \<and> (p < length lg \<or> p = 0 \<and> lg = []) \<and> length h \<le> n"

lemma suffix_prune:
  assumes "h = drop p lg" "p < length lg \<or> p = 0 \<and> lg = []" "0 < n"
  shows "suffix_of (max p (length lg - n)) lg n (prune n h)"
proof (cases "length lg - p \<le> n")
  case True
  then have "max p (length lg - n) = p" by auto
  then show ?thesis using assms True by (auto simp: suffix_of_def prune_drop)
next
  case False
  then have "length lg - p - n + p = length lg - n" by auto
  then show ?thesis using assms False by (auto simp: suffix_of_def prune_drop max_def)
qed

lemma next_number_log:
  assumes "suffix_of p (version_log s ops) n (getVersionHistory s vm)"
  shows "getNextVersionNumber s vm = length (version_log s ops) + 1"
proof (cases "version_log s ops = []")
  case True
  then show ?thesis using assms by (simp add: next_number suffix_of_def)
next
  case False
  then have h: "getVersionHistory s vm \<noteq> []" "last (getVersionHistory s vm) = last (version_log s ops)"
    using assms by (auto simp: suffix_of_def)
  have "sv_versionNumber (last (version_log s ops)) = length (version_log s ops)"
    using version_log_numbers [of "length (version_log s ops) - 1" s ops] False by (simp add: last_conv_nth)
  then show ?thesis using h by (simp add: next_number)
qed

lemma history_suffix:
  assumes "0 < n" "list_all keeps_some ops"
  shows "0 < vm_maxVersions (fold vm_step ops (VersionManager_new n)) \<and>
    (\<exists>p. suffix_of p (version_log s ops) (vm_maxVersions (fold vm_step ops (VersionManager_new n)))
        (getVersionHistory s (fold vm_step ops (VersionManager_new n)))
      \<and> ((\<forall>k. SetMax k \<notin> set ops) \<longrightarrow> vm_maxVersions (fold vm_step ops (VersionManager_new n)) = n \<and> p = length (version_log s ops) - n))"
  using assms(2)
proof (induction ops rule: rev_induct)
  case Nil
  then show ?case using assms(1)
    by (simp add: VersionManager_new_def version_log_def suffix_of_def getVersionHistory_def)
next
  case (snoc op ops)
  let ?vm = "fold vm_step ops (VersionManager_new n)"
  from snoc obtain p where p: "suffix_of p (version_log s ops) (vm_maxVersions ?vm) (getVersionHistory s ?vm)"
    "0 < vm_maxVersions ?vm"
    "(\<forall>k. SetMax k \<notin> set ops) \<longrightarrow> vm_maxVersions ?vm = n \<and> p = length (version_log s ops) - n" by auto
  show ?case
  proof (cases op)
    case (Save now name content author descr)
    show ?thesis
    proof (cases "name = s")
      case True
      let ?v = "\<lparr>sv_versionNumber = length (version_log s ops) + 1, sv_content = content, sv_timestamp = now,
        sv_author = author, sv_changeDescription = descr\<rparr>"
      have l: "version_log s (ops @ [op]) = version_log s ops @ [?v]" using Save True by (simp add: version_log_snoc)
      have d: "getVersionHistory s ?vm @ [?v] = drop p (version_log s ops @ [?v])"
        using p(1) by (auto simp: suffix_of_def)
      have h: "getVersionHistory s (vm_step op ?vm) = prune (vm_maxVersions ?vm) (getVersionHistory s ?vm @ [?v])"
        using Save True next_number_log [OF p(1)] by (simp add: history_save)
      have "suffix_of (max p (length (version_log s (ops @ [op])) - vm_maxVersions ?vm)) (version_log s (ops @ [op]))
          (vm_maxVersions ?vm) (getVersionHistory s (vm_step op ?vm))"
        unfolding h l using suffix_prune [OF d _ p(2)] p(1) by (auto simp: suffix_of_def)
      moreover have "length (version_log s ops) \<le> length (version_log s (ops @ [op]))" by (simp add: l)
      ultimately show ?thesis using p(2,3) Save by (auto intro!: exI)
    next
      case False
      then show ?thesis using p Save by (auto simp: version_log_snoc history_save)
    qed
  next
    case (SetMax k)
    then have "0 < k" using snoc.prems by (simp add: keeps_some_def)
    from suffix_prune [OF _ _ this, of "getVersionHistory s ?vm" p "version_log s ops"] p(1)
    show ?thesis using SetMax \<open>0 < k\<close> by (auto simp: version_log_snoc history_other suffix_of_def intro!: exI)
  next
    case (ClearScript name)
    then show ?thesis using p by (cases "name = s")
        (auto simp: version_log_snoc history_other suffix_of_def)
  next
    case ClearAll
    then show ?thesis using p by (auto simp: version_log_snoc history_other suffix_of_def)
  qed
qed

lemma find_number:
  assumes "\<And>i. i < length lg \<Longrightarrow> sv_versionNumber (lg ! i) = i + 1"
  shows "find (\<lambda>v. sv_versionNumber v = k) (drop p lg) = (if p < k \<and> k \<le> length lg then Some (lg ! (k - 1)) else None)"
proof (cases "p < k \<and> k \<le> length lg")
  case True
  have "find (\<lambda>v. sv_versionNumber v = k) (drop p lg) = Some (drop p lg ! (k - 1 - p))"
    unfolding find_Some_iff
  proof (intro exI [of _ "k - 1 - p"] conjI allI impI)
    fix j
    assume j: "j < k - 1 - p"
    then have "p + j < length lg" using True by linarith
    then have "sv_versionNumber (lg ! (p + j)) = p + j + 1" by (rule assms)
    then show "sv_versionNumber (drop p lg ! j) \<noteq> k" using True j by simp
  qed (use True assms in auto)
  then show ?thesis using True by simp
next
  case False
  have "sv_versionNumber v \<noteq> k" if v: "v \<in> set (drop p lg)" for v
  proof -
    obtain i where "i < length (drop p lg)" "drop p lg ! i = v" using v by (auto simp: in_set_conv_nth)
    then have "sv_versionNumber v = p + i + 1" "p + i < length lg" using assms [of "p + i"] by auto
    then show ?thesis using False by auto
  qed
  then have "find (\<lambda>v. sv_versionNumber v = k) (drop p lg) = None" unfolding find_None_iff by blast
  then show ?thesis unfolding if_not_P [OF False] .
qed

section \<open>Properties\<close>

text \<open>
  The version store keeps the newest versions under stable numbers. While the maximum stays
  positive, the number \<open>i\<close> always means the \<open>i\<close>-th version saved since the history of the script was
  cleared: a rollback to it gives the content of that save or nothing, and nothing exactly for
  versions cut from the front. The history holds at most the maximum, the newest version is always in
  it, and without a change of the maximum it is the last saves up to that number.
\<close>

theorem VersionManager_history:
  assumes "0 < n" "list_all keeps_some ops" "vm = fold vm_step ops (VersionManager_new n)"
  shows "\<exists>p. getVersionHistory s vm = drop p (version_log s ops)
    \<and> getVersionCount s vm \<le> vm_maxVersions vm
    \<and> getLatestVersion s vm = (if version_log s ops = [] then None else Some (last (version_log s ops)))
    \<and> (\<forall>i. rollback s i vm = (if p < i \<and> i \<le> length (version_log s ops) then Some (sv_content (version_log s ops ! (i - 1))) else None))
    \<and> ((\<forall>k. SetMax k \<notin> set ops) \<longrightarrow> p = length (version_log s ops) - n)"
proof -
  obtain p where p: "suffix_of p (version_log s ops) (vm_maxVersions vm) (getVersionHistory s vm)"
    "(\<forall>k. SetMax k \<notin> set ops) \<longrightarrow> p = length (version_log s ops) - n"
    using history_suffix [OF assms(1,2), of s] unfolding assms(3) by blast
  have h: "getVersionHistory s vm = drop p (version_log s ops)" using p(1) by (simp add: suffix_of_def)
  have "rollback s i vm = map_option sv_content (find (\<lambda>v. sv_versionNumber v = i) (getVersionHistory s vm))" for i
    by (simp add: rollback_def getVersionHistory_def split: option.split)
  then have "rollback s i vm = (if p < i \<and> i \<le> length (version_log s ops)
      then Some (sv_content (version_log s ops ! (i - 1))) else None)" for i
    by (simp add: h find_number version_log_numbers)
  moreover have "getLatestVersion s vm = (if getVersionHistory s vm = [] then None else Some (last (getVersionHistory s vm)))"
    by (simp add: getLatestVersion_def getVersionHistory_def split: option.split)
  moreover have "getVersionCount s vm = length (getVersionHistory s vm)"
    by (simp add: getVersionCount_def getVersionHistory_def split: option.split)
  ultimately show ?thesis using h p by (intro exI [of _ p]) (auto simp: suffix_of_def)
qed

theorem VersionManager_history_witness:
  "rollback ''f'' 3 (fold vm_step [Save 0 ''f'' ''a'' [] [], Save 1 ''f'' ''b'' [] [], Save 2 ''f'' ''c'' [] []]
     (VersionManager_new 2)) = Some ''c''"
proof -
  let ?ops = "[Save 0 ''f'' ''a'' [] [], Save 1 ''f'' ''b'' [] [], Save 2 ''f'' ''c'' [] []]"
  have "list_all keeps_some ?ops" by (simp add: keeps_some_def)
  from VersionManager_history [OF _ this refl, of 2 "''f''"] show ?thesis by (auto simp: version_log_def)
qed

text \<open>With a maximum of zero nothing is kept and every save gets the number one.\<close>

lemma saveVersion_zero:
  "fst (saveVersion 1 ''f'' ''b'' [] [] (snd (saveVersion 0 ''f'' ''a'' [] [] (VersionManager_new 0)))) = 1"
  by (simp add: saveVersion_def VersionManager_new_def pruneOldVersions_def getNextVersionNumber_def prune_def
      lookup_or_def Let_def)

end
