(* ===== verification/Script_Retry.thy ===== *)
theory Script_Retry
  imports Lithium_Prelude
begin

text \<open>
  The retry loop of the shell script runner, \<^verbatim>\<open>src/src/script/shell/retry.cpp\<close>. The operation and the
  callback that decides on another attempt are parameters that act on a world \<open>'w\<close>, and so is sleeping.
  \<^verbatim>\<open>float\<close> values are real numbers. A conversion to \<^verbatim>\<open>long long\<close> out of its range, and a product of
  milliseconds out of range, are undefined: the delay is \<open>None\<close>. Logging is left out.
\<close>

datatype RetryStrategy = NoRetry | Linear | Exponential | Custom

datatype ScriptLanguage = Shell | PowerShell | Python | Auto

record ScriptExecutionResult =
  er_success :: bool
  er_exitCode :: int
  er_output :: string
  er_errorOutput :: string
  er_executionTime :: int
  er_exception :: "string option"
  er_detectedLanguage :: ScriptLanguage

record 'w RetryConfig =
  rc_strategy :: RetryStrategy
  rc_maxRetries :: int
  rc_initialDelay :: int
  rc_maxDelay :: int
  rc_multiplier :: real
  rc_shouldRetry :: "(int \<Rightarrow> ScriptExecutionResult \<Rightarrow> 'w \<Rightarrow> bool \<times> 'w) option"

record RetryAttemptInfo =
  ai_attemptNumber :: int
  ai_totalAttempts :: int
  ai_delayMs :: int
  ai_lastResult :: ScriptExecutionResult

record 'w retry_executor =
  re_config :: "'w RetryConfig"
  re_lastRetryInfo :: "RetryAttemptInfo option"

definition RetryConfig_default :: "'w RetryConfig" where
  "RetryConfig_default = \<lparr>rc_strategy = NoRetry, rc_maxRetries = 0, rc_initialDelay = 100, rc_maxDelay = 30000,
     rc_multiplier = 2, rc_shouldRetry = None\<rparr>"

definition RetryExecutor_new :: "'w RetryConfig \<Rightarrow> 'w retry_executor" where
  "RetryExecutor_new config = \<lparr>re_config = config, re_lastRetryInfo = None\<rparr>"

definition setRetryConfig :: "'w RetryConfig \<Rightarrow> 'w retry_executor \<Rightarrow> 'w retry_executor" where
  "setRetryConfig config re = re\<lparr>re_config := config, re_lastRetryInfo := None\<rparr>"

definition RetryExecutor_reset :: "'w retry_executor \<Rightarrow> 'w retry_executor" where
  "RetryExecutor_reset re = re\<lparr>re_lastRetryInfo := None\<rparr>"

definition in_int64 :: "int \<Rightarrow> bool" where
  "in_int64 i \<longleftrightarrow> - (2 ^ 63) \<le> i \<and> i < 2 ^ 63"

definition to_long_long :: "real \<Rightarrow> int option" where
  "to_long_long x = (let i = (if x < 0 then \<lceil>x\<rceil> else \<lfloor>x\<rfloor>) in if in_int64 i then Some i else None)"

definition base_delay :: "'w RetryConfig \<Rightarrow> int \<Rightarrow> int option" where
  "base_delay config attempt =
     (case rc_strategy config of
        Linear \<Rightarrow>
          if in_int (attempt + 1) \<and> in_int64 (rc_initialDelay config * (attempt + 1))
          then Some (rc_initialDelay config * (attempt + 1)) else None
      | Exponential \<Rightarrow> to_long_long (real_of_int (rc_initialDelay config) * rc_multiplier config ^ nat attempt)
      | _ \<Rightarrow> Some (rc_initialDelay config))"

definition calculateDelay :: "'w RetryConfig \<Rightarrow> int \<Rightarrow> int option" where
  "calculateDelay config attempt =
     (if attempt < 0 then Some 0
      else case base_delay config attempt of
        None \<Rightarrow> None
      | Some delay \<Rightarrow> Some (if delay > rc_maxDelay config then rc_maxDelay config else delay))"

definition shouldRetryOperation ::
  "'w RetryConfig \<Rightarrow> int \<Rightarrow> ScriptExecutionResult \<Rightarrow> 'w \<Rightarrow> bool \<times> 'w" where
  "shouldRetryOperation config attempt result w =
     (if er_success result then (False, w)
      else if attempt \<ge> rc_maxRetries config then (False, w)
      else case rc_shouldRetry config of
        Some f \<Rightarrow> f attempt result w
      | None \<Rightarrow> (True, w))"

definition retry_sleep :: "(int \<Rightarrow> 'w \<Rightarrow> 'w) \<Rightarrow> int \<Rightarrow> 'w \<Rightarrow> 'w" where
  "retry_sleep sleep_for ms w = (if ms \<le> 0 then w else sleep_for ms w)"

text \<open>The retry loop with the executor, the current result and the world; \<open>None\<close> is an undefined delay.\<close>

function retryLoop :: "(int \<Rightarrow> 'w \<Rightarrow> 'w) \<Rightarrow> ('w \<Rightarrow> ScriptExecutionResult \<times> 'w) \<Rightarrow> int \<Rightarrow> ScriptExecutionResult
    \<Rightarrow> 'w retry_executor \<Rightarrow> 'w \<Rightarrow> (ScriptExecutionResult \<times> 'w retry_executor \<times> 'w) option" where
  "retryLoop sleep_for run attempt result re w =
     (if attempt < rc_maxRetries (re_config re)
      then case shouldRetryOperation (re_config re) attempt result w of
          (False, w1) \<Rightarrow> Some (result, re, w1)
        | (True, w1) \<Rightarrow>
            (case calculateDelay (re_config re) (attempt + 1) of
               None \<Rightarrow> None
             | Some delay \<Rightarrow>
                 let re' = re\<lparr>re_lastRetryInfo := Some \<lparr>ai_attemptNumber = attempt + 1,
                       ai_totalAttempts = rc_maxRetries (re_config re), ai_delayMs = delay, ai_lastResult = result\<rparr>\<rparr>;
                     (result', w2) = run (retry_sleep sleep_for delay w1)
                 in retryLoop sleep_for run (attempt + 1) result' re' w2)
      else Some (result, re, w))"
  by pat_completeness auto
termination retryLoop
  by (relation "measure (\<lambda>(sleep_for, run, attempt, result, re, w). nat (rc_maxRetries (re_config re) - attempt))") auto

declare retryLoop.simps [simp del]

definition null_operation :: ScriptExecutionResult where
  "null_operation = \<lparr>er_success = False, er_exitCode = -1, er_output = [], er_errorOutput = ''Operation is null'',
     er_executionTime = 0, er_exception = None, er_detectedLanguage = Auto\<rparr>"

definition executeWithRetry :: "(int \<Rightarrow> 'w \<Rightarrow> 'w) \<Rightarrow> ('w \<Rightarrow> ScriptExecutionResult \<times> 'w) option
    \<Rightarrow> 'w retry_executor \<Rightarrow> 'w \<Rightarrow> (ScriptExecutionResult \<times> 'w retry_executor \<times> 'w) option" where
  "executeWithRetry sleep_for operation re w =
     (case operation of
        None \<Rightarrow> Some (null_operation, re, w)
      | Some run \<Rightarrow>
          if rc_strategy (re_config re) = NoRetry \<or> rc_maxRetries (re_config re) \<le> 0
          then let (result, w') = run w in Some (result, re, w')
          else let (result, w') = run w in retryLoop sleep_for run 0 result re w')"

section \<open>Attempts\<close>

text \<open>The world before the attempt \<open>n\<close> when every earlier attempt is followed by its delay.\<close>

primrec before_attempt :: "(int \<Rightarrow> 'w \<Rightarrow> 'w) \<Rightarrow> ('w \<Rightarrow> ScriptExecutionResult \<times> 'w) \<Rightarrow> 'w RetryConfig \<Rightarrow> 'w \<Rightarrow> nat \<Rightarrow> 'w" where
  "before_attempt sleep_for run config w 0 = w"
| "before_attempt sleep_for run config w (Suc n) =
     retry_sleep sleep_for (the (calculateDelay config (int n + 1))) (snd (run (before_attempt sleep_for run config w n)))"

lemma calculateDelay_bounds: "calculateDelay config a = Some d \<Longrightarrow> 0 \<le> rc_maxDelay config \<Longrightarrow> d \<le> rc_maxDelay config"
  by (auto simp: calculateDelay_def split: if_splits option.splits)

lemma retryLoop_runs:
  assumes bef_def: "bef = before_attempt sleep_for run config w"
    and config: "rc_shouldRetry config = None" "rc_maxRetries config = int N"
    and delays: "\<And>a. 0 < a \<Longrightarrow> a \<le> int N \<Longrightarrow> calculateDelay config a \<noteq> None"
  shows "i \<le> N \<Longrightarrow> re_config re = config \<Longrightarrow> \<exists>n re'. i \<le> n \<and> n \<le> N
    \<and> retryLoop sleep_for run (int i) (fst (run (bef i))) re (snd (run (bef i))) = Some (fst (run (bef n)), re', snd (run (bef n)))
    \<and> (\<forall>j. i \<le> j \<and> j < n \<longrightarrow> \<not> er_success (fst (run (bef j)))) \<and> (er_success (fst (run (bef n))) \<or> n = N)"
proof (induction "N - i" arbitrary: i re)
  case 0
  then show ?case by (auto simp: retryLoop.simps config intro!: exI [of _ N])
next
  case (Suc m)
  show ?case
  proof (cases "er_success (fst (run (bef i)))")
    case True
    then show ?thesis using Suc.prems Suc.hyps(2)
      by (auto simp: retryLoop.simps shouldRetryOperation_def config intro!: exI [of _ i])
  next
    case False
    have "0 < int i + 1" "int i + 1 \<le> int N" using Suc.hyps(2) by linarith+
    then obtain d where d: "calculateDelay config (int i + 1) = Some d" using delays by blast
    define re' where "re' = re\<lparr>re_lastRetryInfo := Some \<lparr>ai_attemptNumber = int i + 1, ai_totalAttempts = int N,
      ai_delayMs = d, ai_lastResult = fst (run (bef i))\<rparr>\<rparr>"
    have nx: "bef (Suc i) = retry_sleep sleep_for d (snd (run (bef i)))" by (simp add: bef_def d)
    have step: "retryLoop sleep_for run (int i) (fst (run (bef i))) re (snd (run (bef i)))
        = retryLoop sleep_for run (int i + 1) (fst (run (bef (Suc i)))) re' (snd (run (bef (Suc i))))"
      using False \<open>int i + 1 \<le> int N\<close> Suc.prems(2)
      by (subst retryLoop.simps) (simp add: shouldRetryOperation_def config d nx re'_def split_beta Let_def)
    have e: "int (Suc i) = int i + 1" by simp
    have "m = N - Suc i" "Suc i \<le> N" "re_config re' = config" using Suc.hyps(2) Suc.prems by (auto simp: re'_def)
    from Suc.hyps(1) [OF this] obtain n re'' where n: "Suc i \<le> n" "n \<le> N"
      "retryLoop sleep_for run (int i + 1) (fst (run (bef (Suc i)))) re' (snd (run (bef (Suc i))))
        = Some (fst (run (bef n)), re'', snd (run (bef n)))"
      "\<forall>j. Suc i \<le> j \<and> j < n \<longrightarrow> \<not> er_success (fst (run (bef j)))" "er_success (fst (run (bef n))) \<or> n = N" unfolding e by blast
    have "\<not> er_success (fst (run (bef j)))" if "i \<le> j" "j < n" for j
      using n(4) False that by (cases "j = i") auto
    then show ?thesis using n step by (intro exI [of _ n] exI [of _ re'']) auto
  qed
qed

section \<open>Properties\<close>

text \<open>
  Retrying stops at the first success and never runs an operation more often than allowed. With
  no callback, a strategy and a positive maximum \<open>N\<close>, and delays that are defined, the loop returns;
  its result is that of some attempt \<open>n \<le> N\<close>, all earlier attempts failed, and it is a success unless
  \<open>n\<close> is the last attempt. The attempts follow each other with the delays of the strategy, none of
  which exceeds the maximum.
\<close>

theorem executeWithRetry_correct:
  assumes "re_config re = config" "rc_strategy config \<noteq> NoRetry" "rc_shouldRetry config = None"
    "rc_maxRetries config = int N" "0 < N" "0 \<le> rc_maxDelay config"
    "\<forall>a. 0 < a \<and> a \<le> int N \<longrightarrow> calculateDelay config a \<noteq> None"
  shows "\<exists>n \<le> N. \<exists>re'. executeWithRetry sleep_for (Some run) re w
      = Some (fst (run (before_attempt sleep_for run config w n)), re', snd (run (before_attempt sleep_for run config w n)))
    \<and> (\<forall>j < n. \<not> er_success (fst (run (before_attempt sleep_for run config w j))))
    \<and> (er_success (fst (run (before_attempt sleep_for run config w n))) \<or> n = N)
    \<and> (\<forall>a. 0 < a \<and> a \<le> int N \<longrightarrow> (\<exists>d. calculateDelay config a = Some d \<and> d \<le> rc_maxDelay config))"
proof -
  have delays: "calculateDelay config a \<noteq> None" if "0 < a" "a \<le> int N" for a using assms(7) that by blast
  from retryLoop_runs [OF refl assms(3,4) delays _ assms(1), of 0 sleep_for run w] obtain n re' where
    n: "n \<le> N" "retryLoop sleep_for run 0 (fst (run w)) re (snd (run w)) = Some (fst (run (before_attempt sleep_for run config w n)),
        re', snd (run (before_attempt sleep_for run config w n)))"
      "\<forall>j < n. \<not> er_success (fst (run (before_attempt sleep_for run config w j)))"
      "er_success (fst (run (before_attempt sleep_for run config w n))) \<or> n = N" by auto
  have "executeWithRetry sleep_for (Some run) re w = retryLoop sleep_for run 0 (fst (run w)) re (snd (run w))"
    using assms by (simp add: executeWithRetry_def split_beta)
  moreover have "\<exists>d. calculateDelay config a = Some d \<and> d \<le> rc_maxDelay config" if "0 < a" "a \<le> int N" for a
    using delays [OF that] calculateDelay_bounds [OF _ assms(6)] by auto
  ultimately show ?thesis using n by (intro exI [of _ n]) auto
qed

text \<open>An operation that fails until the world, a counter, has reached two.\<close>

definition third_time :: "nat \<Rightarrow> ScriptExecutionResult \<times> nat" where
  "third_time w = (null_operation\<lparr>er_success := w \<ge> 2\<rparr>, w + 1)"

theorem executeWithRetry_correct_witness:
  "\<exists>re'. executeWithRetry (\<lambda>ms w. w) (Some third_time) (RetryExecutor_new (RetryConfig_default\<lparr>rc_strategy := Custom,
      rc_maxRetries := 3\<rparr>)) 0 = Some (null_operation\<lparr>er_success := True\<rparr>, re', 3)"
proof -
  let ?config = "RetryConfig_default\<lparr>rc_strategy := Custom, rc_maxRetries := 3\<rparr> :: nat RetryConfig"
  let ?bef = "before_attempt (\<lambda>ms w. w) third_time ?config 0"
  have bef: "?bef n = n" for n by (induction n) (simp_all add: retry_sleep_def third_time_def)
  have "re_config (RetryExecutor_new ?config) = ?config" "rc_strategy ?config \<noteq> NoRetry" "rc_shouldRetry ?config = None"
    "rc_maxRetries ?config = int 3" "0 < (3 :: nat)" "0 \<le> rc_maxDelay ?config"
    "\<forall>a. 0 < a \<and> a \<le> int 3 \<longrightarrow> calculateDelay ?config a \<noteq> None"
    by (simp_all add: RetryExecutor_new_def RetryConfig_default_def calculateDelay_def base_delay_def)
  from executeWithRetry_correct [OF this, of "\<lambda>ms w. w" third_time 0] obtain n re' where
    n: "executeWithRetry (\<lambda>ms w. w) (Some third_time) (RetryExecutor_new ?config) 0 = Some (fst (third_time n), re', snd (third_time n))"
    "\<forall>j < n. \<not> er_success (fst (third_time j))" "er_success (fst (third_time n)) \<or> n = 3" unfolding bef by auto
  have "\<not> 2 < n" using n(2) [rule_format, of 2] by (auto simp: third_time_def null_operation_def)
  with n(3) have "n = 2" by (auto simp: third_time_def null_operation_def)
  then show ?thesis using n(1) by (simp add: third_time_def null_operation_def)
qed

text \<open>
  The delay is capped after its conversion to an integer: with the default settings the exponential
  delay of the attempt 57 is already out of range.
\<close>

lemma exponential_delay_undefined:
  "calculateDelay (RetryConfig_default\<lparr>rc_strategy := Exponential, rc_maxRetries := 60\<rparr>) 57 = None"
  by (simp add: calculateDelay_def base_delay_def RetryConfig_default_def to_long_long_def in_int64_def Let_def)

end
