(* ===== verification/Script_Hooks.thy ===== *)
theory Script_Hooks
  imports Bounded_Log
begin

text \<open>
  The hooks around the execution of a script, \<^verbatim>\<open>src/src/script/shell/hooks.cpp\<close>. Calling a hook is a parameter: it acts on a world \<open>'w\<close> and
  returns or throws. The clock readings of a call are an argument, by hook: start, time stamp and end, in nanoseconds. Operations are
  modelled one at a time; logging is left out.
\<close>

section \<open>State\<close>

record HookResult =
  hr_success :: bool
  hr_hookId :: string
  hr_scriptId :: string
  hr_hookType :: string
  hr_errorMessage :: string
  hr_executionTime :: int
  hr_timestamp :: int

record ('pre, 'post) hook_manager =
  hm_preHooks :: "'pre umap"
  hm_postHooks :: "'post umap"
  hm_executionHistory :: "HookResult list"
  hm_enabled :: bool

definition HookManager_new :: "('pre, 'post) hook_manager" where
  "HookManager_new = \<lparr>hm_preHooks = [], hm_postHooks = [], hm_executionHistory = [], hm_enabled = True\<rparr>"

definition MAX_HISTORY_SIZE :: nat where
  "MAX_HISTORY_SIZE = 10000"

datatype hook_outcome = Returns | Throws string | Throws_unknown

section \<open>Operations\<close>

definition addPreHook :: "string \<Rightarrow> 'pre \<Rightarrow> ('pre, 'post) hook_manager \<Rightarrow> (bool \<times> ('pre, 'post) hook_manager) result" where
  "addPreHook hookId hook m =
     (if hookId = [] then Inl (InvalidArgument ''Hook ID cannot be empty'')
      else if map_of (hm_preHooks m) hookId \<noteq> None then Inr (False, m)
      else Inr (True, m\<lparr>hm_preHooks := AList.update hookId hook (hm_preHooks m)\<rparr>))"

definition addPostHook :: "string \<Rightarrow> 'post \<Rightarrow> ('pre, 'post) hook_manager \<Rightarrow> (bool \<times> ('pre, 'post) hook_manager) result" where
  "addPostHook hookId hook m =
     (if hookId = [] then Inl (InvalidArgument ''Hook ID cannot be empty'')
      else if map_of (hm_postHooks m) hookId \<noteq> None then Inr (False, m)
      else Inr (True, m\<lparr>hm_postHooks := AList.update hookId hook (hm_postHooks m)\<rparr>))"

definition removePreHook :: "string \<Rightarrow> ('pre, 'post) hook_manager \<Rightarrow> bool \<times> ('pre, 'post) hook_manager" where
  "removePreHook hookId m =
     (if map_of (hm_preHooks m) hookId \<noteq> None then (True, m\<lparr>hm_preHooks := AList.delete hookId (hm_preHooks m)\<rparr>) else (False, m))"

definition removePostHook :: "string \<Rightarrow> ('pre, 'post) hook_manager \<Rightarrow> bool \<times> ('pre, 'post) hook_manager" where
  "removePostHook hookId m =
     (if map_of (hm_postHooks m) hookId \<noteq> None then (True, m\<lparr>hm_postHooks := AList.delete hookId (hm_postHooks m)\<rparr>) else (False, m))"

definition removeHook :: "string \<Rightarrow> ('pre, 'post) hook_manager \<Rightarrow> bool \<times> ('pre, 'post) hook_manager" where
  "removeHook hookId m = (let (found, m') = removePreHook hookId m in if found then (True, m') else removePostHook hookId m')"

definition recordHookExecution :: "HookResult \<Rightarrow> ('pre, 'post) hook_manager \<Rightarrow> ('pre, 'post) hook_manager" where
  "recordHookExecution r m =
     (let h = hm_executionHistory m @ [r]
      in m\<lparr>hm_executionHistory := (if length h > MAX_HISTORY_SIZE then drop (length h - MAX_HISTORY_SIZE) h else h)\<rparr>)"

definition hook_result :: "string \<Rightarrow> string \<Rightarrow> string \<Rightarrow> int \<times> int \<times> int \<Rightarrow> hook_outcome \<Rightarrow> HookResult" where
  "hook_result ty hookId scriptId clock out =
     (case clock of (t0, stamp, t1) \<Rightarrow>
        \<lparr>hr_success = (out = Returns), hr_hookId = hookId, hr_scriptId = scriptId, hr_hookType = ty,
          hr_errorMessage = (case out of Returns \<Rightarrow> [] | Throws e \<Rightarrow> e | Throws_unknown \<Rightarrow> ''Unknown error''),
          hr_executionTime = (t1 - t0) div 10 ^ 6, hr_timestamp = stamp\<rparr>)"

text \<open>The loop over a map of hooks; \<open>call\<close> calls one.\<close>

fun runHooks :: "string \<Rightarrow> ('h \<Rightarrow> 'w \<Rightarrow> hook_outcome \<times> 'w) \<Rightarrow> (string \<Rightarrow> int \<times> int \<times> int) \<Rightarrow> string \<Rightarrow> 'h umap
    \<Rightarrow> HookResult list \<Rightarrow> 'w \<Rightarrow> ('pre, 'post) hook_manager \<Rightarrow> HookResult list \<times> 'w \<times> ('pre, 'post) hook_manager" where
  "runHooks ty call clock scriptId [] results w m = (results, w, m)"
| "runHooks ty call clock scriptId ((hookId, hook) # rest) results w m =
     (let (out, w') = call hook w; r = hook_result ty hookId scriptId (clock hookId) out
      in runHooks ty call clock scriptId rest (results @ [r]) w' (recordHookExecution r m))"

definition executePreHooks :: "(string \<Rightarrow> 'pre \<Rightarrow> 'w \<Rightarrow> hook_outcome \<times> 'w) \<Rightarrow> (string \<Rightarrow> int \<times> int \<times> int) \<Rightarrow> string
    \<Rightarrow> 'w \<Rightarrow> ('pre, 'post) hook_manager \<Rightarrow> HookResult list \<times> 'w \<times> ('pre, 'post) hook_manager" where
  "executePreHooks call clock scriptId w m =
     (if \<not> hm_enabled m then ([], w, m) else runHooks ''pre'' (call scriptId) clock scriptId (hm_preHooks m) [] w m)"

definition executePostHooks :: "(string \<Rightarrow> int \<Rightarrow> 'post \<Rightarrow> 'w \<Rightarrow> hook_outcome \<times> 'w) \<Rightarrow> (string \<Rightarrow> int \<times> int \<times> int) \<Rightarrow> string \<Rightarrow> int
    \<Rightarrow> 'w \<Rightarrow> ('pre, 'post) hook_manager \<Rightarrow> HookResult list \<times> 'w \<times> ('pre, 'post) hook_manager" where
  "executePostHooks call clock scriptId exitCode w m =
     (if \<not> hm_enabled m then ([], w, m) else runHooks ''post'' (call scriptId exitCode) clock scriptId (hm_postHooks m) [] w m)"

definition getPreHookCount :: "('pre, 'post) hook_manager \<Rightarrow> nat" where
  "getPreHookCount m = length (hm_preHooks m)"

definition getPostHookCount :: "('pre, 'post) hook_manager \<Rightarrow> nat" where
  "getPostHookCount m = length (hm_postHooks m)"

definition hasHook :: "string \<Rightarrow> ('pre, 'post) hook_manager \<Rightarrow> bool" where
  "hasHook hookId m \<longleftrightarrow> map_of (hm_preHooks m) hookId \<noteq> None \<or> map_of (hm_postHooks m) hookId \<noteq> None"

definition clearPreHooks :: "('pre, 'post) hook_manager \<Rightarrow> ('pre, 'post) hook_manager" where
  "clearPreHooks m = m\<lparr>hm_preHooks := []\<rparr>"

definition clearPostHooks :: "('pre, 'post) hook_manager \<Rightarrow> ('pre, 'post) hook_manager" where
  "clearPostHooks m = m\<lparr>hm_postHooks := []\<rparr>"

definition clearAllHooks :: "('pre, 'post) hook_manager \<Rightarrow> ('pre, 'post) hook_manager" where
  "clearAllHooks m = m\<lparr>hm_preHooks := [], hm_postHooks := []\<rparr>"

definition getExecutionHistory :: "nat \<Rightarrow> ('pre, 'post) hook_manager \<Rightarrow> HookResult list" where
  "getExecutionHistory maxEntries m =
     (let h = hm_executionHistory m;
          startIdx = (if maxEntries = 0 then 0 else if length h > maxEntries then length h - maxEntries else 0)
      in rev (drop startIdx h))"

fun scriptHistoryLoop :: "string \<Rightarrow> nat \<Rightarrow> HookResult list \<Rightarrow> nat \<Rightarrow> HookResult list \<Rightarrow> HookResult list" where
  "scriptHistoryLoop scriptId maxEntries [] n result = result"
| "scriptHistoryLoop scriptId maxEntries (r # rs) n result =
     (if hr_scriptId r = scriptId
      then let result = result @ [r]; n = n + 1
           in if maxEntries > 0 \<and> n \<ge> maxEntries then result else scriptHistoryLoop scriptId maxEntries rs n result
      else scriptHistoryLoop scriptId maxEntries rs n result)"

definition getScriptHistory :: "string \<Rightarrow> nat \<Rightarrow> ('pre, 'post) hook_manager \<Rightarrow> HookResult list" where
  "getScriptHistory scriptId maxEntries m = scriptHistoryLoop scriptId maxEntries (rev (hm_executionHistory m)) 0 []"

definition HookManager_clearHistory :: "('pre, 'post) hook_manager \<Rightarrow> ('pre, 'post) hook_manager" where
  "HookManager_clearHistory m = m\<lparr>hm_executionHistory := []\<rparr>"

definition getHistorySize :: "('pre, 'post) hook_manager \<Rightarrow> nat" where
  "getHistorySize m = length (hm_executionHistory m)"

definition setHooksEnabled :: "bool \<Rightarrow> ('pre, 'post) hook_manager \<Rightarrow> ('pre, 'post) hook_manager" where
  "setHooksEnabled e m = m\<lparr>hm_enabled := e\<rparr>"

section \<open>The history\<close>

lemma record_frame [simp]:
  "hm_preHooks (recordHookExecution r m) = hm_preHooks m" "hm_postHooks (recordHookExecution r m) = hm_postHooks m"
  "hm_enabled (recordHookExecution r m) = hm_enabled m"
  by (simp_all add: recordHookExecution_def Let_def)

lemma record_recent:
  assumes "length (hm_executionHistory m) \<le> MAX_HISTORY_SIZE"
  shows "rev (hm_executionHistory (recordHookExecution r m)) = take MAX_HISTORY_SIZE (r # rev (hm_executionHistory m))"
    "length (hm_executionHistory (recordHookExecution r m)) \<le> MAX_HISTORY_SIZE"
proof -
  have "rev (if length h > n then drop (length h - n) h else h) = take n (rev h)" for n and h :: "HookResult list"
    by (simp add: rev_drop)
  from this [of MAX_HISTORY_SIZE "hm_executionHistory m @ [r]"]
  show "rev (hm_executionHistory (recordHookExecution r m)) = take MAX_HISTORY_SIZE (r # rev (hm_executionHistory m))"
    unfolding recordHookExecution_def Let_def by (simp del: rev_append) simp
  show "length (hm_executionHistory (recordHookExecution r m)) \<le> MAX_HISTORY_SIZE"
    by (auto simp: recordHookExecution_def Let_def)
qed

interpretation hook_log: bounded_log "\<lambda>r m. Some (recordHookExecution r m)" "\<lambda>m. rev (hm_executionHistory m)" "\<lambda>_. MAX_HISTORY_SIZE"
  "\<lambda>m. length (hm_executionHistory m) \<le> MAX_HISTORY_SIZE"
  by unfold_locales (auto simp: record_recent)

lemma foldl_record:
  assumes "length (hm_executionHistory m) \<le> MAX_HISTORY_SIZE"
  shows "rev (hm_executionHistory (foldl (\<lambda>m r. recordHookExecution r m) m rs)) = take MAX_HISTORY_SIZE (rev rs @ rev (hm_executionHistory m))"
proof -
  have "hook_log.push_all rs m = Some (foldl (\<lambda>m r. recordHookExecution r m) m rs)" for m :: "('a, 'b) hook_manager"
    by (induction rs arbitrary: m) auto
  then show ?thesis using hook_log.push_all_recent [OF assms, of rs] assms by simp
qed

lemma foldl_record_frame [simp]:
  "hm_preHooks (foldl (\<lambda>m r. recordHookExecution r m) m rs) = hm_preHooks m"
  "hm_postHooks (foldl (\<lambda>m r. recordHookExecution r m) m rs) = hm_postHooks m"
  "hm_enabled (foldl (\<lambda>m r. recordHookExecution r m) m rs) = hm_enabled m"
  by (induction rs arbitrary: m) simp_all

section \<open>Execution\<close>

text \<open>The outcomes of calling hooks one after the other, each in the world the previous one left.\<close>

fun outcomes :: "('h \<Rightarrow> 'w \<Rightarrow> hook_outcome \<times> 'w) \<Rightarrow> 'h list \<Rightarrow> 'w \<Rightarrow> hook_outcome list \<times> 'w" where
  "outcomes call [] w = ([], w)"
| "outcomes call (h # hs) w = (let (out, w') = call h w; (outs, w'') = outcomes call hs w' in (out # outs, w''))"

lemma outcomes_length: "length (fst (outcomes call hs w)) = length hs"
  by (induction hs arbitrary: w) (auto simp: split_beta Let_def)

definition hook_results :: "string \<Rightarrow> (string \<Rightarrow> int \<times> int \<times> int) \<Rightarrow> string \<Rightarrow> string list \<Rightarrow> hook_outcome list \<Rightarrow> HookResult list" where
  "hook_results ty clock scriptId ids outs = map (\<lambda>(i, out). hook_result ty i scriptId (clock i) out) (zip ids outs)"

lemma runHooks_eq:
  "runHooks ty call clock scriptId hs results w m =
     (let (outs, w') = outcomes call (map snd hs) w; rs = hook_results ty clock scriptId (map fst hs) outs
      in (results @ rs, w', foldl (\<lambda>m r. recordHookExecution r m) m rs))"
  by (induction ty call clock scriptId hs results w m rule: runHooks.induct)
    (auto simp: hook_results_def split_beta Let_def)

lemma scriptHistoryLoop_eq:
  "maxEntries = 0 \<or> n < maxEntries \<Longrightarrow> scriptHistoryLoop sid maxEntries rs n acc
     = acc @ (let hits = filter (\<lambda>r. hr_scriptId r = sid) rs in if maxEntries = 0 then hits else take (maxEntries - n) hits)"
proof (induction rs arbitrary: n acc)
  case (Cons r rs)
  then show ?case by (cases "maxEntries - n") (auto simp: Let_def diff_Suc split: nat.splits)
qed simp

lemma getScriptHistory_eq:
  "getScriptHistory sid k m = (let hits = filter (\<lambda>r. hr_scriptId r = sid) (rev (hm_executionHistory m)) in if k = 0 then hits else take k hits)"
  using scriptHistoryLoop_eq [of k 0] by (cases k) (simp_all add: getScriptHistory_def Let_def)

lemma getExecutionHistory_eq:
  "getExecutionHistory k m = (if k = 0 then rev (hm_executionHistory m) else take k (rev (hm_executionHistory m)))"
  by (auto simp: getExecutionHistory_def Let_def rev_drop)

text \<open>
  Every enabled hook runs, whatever the others do. Executing the pre-hooks of a script calls each registered pre-hook once, in the order of the
  table, also after one has thrown; the results report for each whether it returned and the message it threw; and the history then shows these results
  before the older ones, newest first, cut to its capacity. The post-hooks, the registered hooks and the switch are unchanged. With hooks disabled nothing is called.
\<close>

theorem pre_hooks_all_run:
  assumes "length (hm_executionHistory m) \<le> MAX_HISTORY_SIZE" and "executePreHooks call clock sid w m = (results, w', m')"
  shows "if hm_enabled m
    then \<exists>outs. outcomes (call sid) (map snd (hm_preHooks m)) w = (outs, w') \<and> length outs = length (hm_preHooks m)
        \<and> results = hook_results ''pre'' clock sid (map fst (hm_preHooks m)) outs
        \<and> getExecutionHistory 0 m' = take MAX_HISTORY_SIZE (rev results @ getExecutionHistory 0 m)
        \<and> hm_preHooks m' = hm_preHooks m \<and> hm_postHooks m' = hm_postHooks m \<and> hm_enabled m'
    else results = [] \<and> w' = w \<and> m' = m"
proof (cases "hm_enabled m")
  case True
  obtain outs w1 where o: "outcomes (call sid) (map snd (hm_preHooks m)) w = (outs, w1)" by fastforce
  let ?rs = "hook_results ''pre'' clock sid (map fst (hm_preHooks m)) outs"
  have r: "results = ?rs" "w' = w1" "m' = foldl (\<lambda>m r. recordHookExecution r m) m ?rs"
    using assms(2) True o by (auto simp: executePreHooks_def runHooks_eq Let_def)
  have "length outs = length (hm_preHooks m)" using outcomes_length [of "call sid" "map snd (hm_preHooks m)" w] o by simp
  then show ?thesis using True o r foldl_record [OF assms(1), of ?rs] by (simp add: getExecutionHistory_eq)
qed (use assms(2) in \<open>simp add: executePreHooks_def\<close>)

definition two_hooks :: "(bool, unit) hook_manager" where
  "two_hooks = HookManager_new\<lparr>hm_preHooks := [(''a'', False), (''b'', True)]\<rparr>"

definition hook_call :: "string \<Rightarrow> bool \<Rightarrow> nat \<Rightarrow> hook_outcome \<times> nat" where
  "hook_call sid ok w = (if ok then Returns else Throws ''bad'', w + 1)"

theorem pre_hooks_all_run_witness:
  "map hr_success (fst (executePreHooks hook_call (\<lambda>_. (0, 0, 0)) ''s'' 0 two_hooks)) = [False, True]
   \<and> fst (snd (executePreHooks hook_call (\<lambda>_. (0, 0, 0)) ''s'' 0 two_hooks)) = 2"
proof -
  have l: "length (hm_executionHistory two_hooks) \<le> MAX_HISTORY_SIZE" by (simp add: two_hooks_def HookManager_new_def)
  obtain rs w m where e: "executePreHooks hook_call (\<lambda>_. (0, 0, 0)) ''s'' 0 two_hooks = (rs, w, m)" by (metis prod_cases3)
  show ?thesis unfolding e using pre_hooks_all_run [OF l e]
    by (auto simp: two_hooks_def HookManager_new_def hook_call_def hook_results_def hook_result_def Let_def)
qed

text \<open>A hook that is registered before and after scripts is removed only before them.\<close>

lemma removeHook_keeps_post:
  "map_of (hm_preHooks m) i \<noteq> None \<Longrightarrow> map_of (hm_postHooks m) i \<noteq> None \<Longrightarrow> fst (removeHook i m) \<and> hasHook i (snd (removeHook i m))"
  by (auto simp: removeHook_def removePreHook_def hasHook_def)

end
