(* ===== verification/Celestial_Model.thy ===== *)
theory Celestial_Model
  imports Lithium_Prelude
begin

text \<open>
  The records of the target catalogue that its repository and its filters share:
  \<^verbatim>\<open>src/src/target/model/celestial_model.hpp\<close> and the search filter of
  \<^verbatim>\<open>src/src/target/repository/celestial_repository.hpp\<close>. A \<^verbatim>\<open>double\<close> is a real number, so no field is
  an infinity or not a number.
\<close>

record CelestialObjectModel =
  co_id :: int
  co_identifier :: string
  co_mIdentifier :: string
  co_extensionName :: string
  co_component :: string
  co_className :: string
  co_amateurRank :: int
  co_chineseName :: string
  co_type :: string
  co_duplicateType :: string
  co_morphology :: string
  co_constellationZh :: string
  co_constellationEn :: string
  co_raJ2000 :: string
  co_radJ2000 :: real
  co_decJ2000 :: string
  co_decDJ2000 :: real
  co_visualMagnitudeV :: real
  co_photographicMagnitudeB :: real
  co_bMinusV :: real
  co_surfaceBrightness :: real
  co_majorAxis :: real
  co_minorAxis :: real
  co_positionAngle :: real
  co_detailedDescription :: string
  co_briefDescription :: string
  co_aliases :: string
  co_clickCount :: int

definition CelestialObjectModel_new :: CelestialObjectModel where
  "CelestialObjectModel_new =
     \<lparr>co_id = 0, co_identifier = [], co_mIdentifier = [], co_extensionName = [], co_component = [],
      co_className = [], co_amateurRank = 0, co_chineseName = [], co_type = [], co_duplicateType = [],
      co_morphology = [], co_constellationZh = [], co_constellationEn = [], co_raJ2000 = [], co_radJ2000 = 0,
      co_decJ2000 = [], co_decDJ2000 = 0, co_visualMagnitudeV = 0, co_photographicMagnitudeB = 0,
      co_bMinusV = 0, co_surfaceBrightness = 0, co_majorAxis = 0, co_minorAxis = 0, co_positionAngle = 0,
      co_detailedDescription = [], co_briefDescription = [], co_aliases = [], co_clickCount = 0\<rparr>"

record CelestialSearchFilter =
  sf_namePattern :: string
  sf_type :: string
  sf_morphology :: string
  sf_constellation :: string
  sf_minMagnitude :: real
  sf_maxMagnitude :: real
  sf_minRA :: real
  sf_maxRA :: real
  sf_minDec :: real
  sf_maxDec :: real
  sf_limit :: int
  sf_offset :: int
  sf_orderBy :: string
  sf_ascending :: bool

definition CelestialSearchFilter_new :: CelestialSearchFilter where
  "CelestialSearchFilter_new =
     \<lparr>sf_namePattern = [], sf_type = [], sf_morphology = [], sf_constellation = [], sf_minMagnitude = -30,
      sf_maxMagnitude = 30, sf_minRA = 0, sf_maxRA = 360, sf_minDec = -90, sf_maxDec = 90, sf_limit = 100,
      sf_offset = 0, sf_orderBy = ''identifier'', sf_ascending = True\<rparr>"

end
