(* ===== verification/Sphere.thy ===== *)
theory Sphere
  imports Lithium_Prelude
begin

text \<open>
  The haversine of two directions, shared by the distances of the catalogue and of the spatial index: it stays
  in the domain of the functions taken of it, it is the spherical law of cosines, and the angle it gives is at
  least the difference of the declinations. Declinations and differences of right ascension are in radians.
\<close>

definition hav :: "real \<Rightarrow> real \<Rightarrow> real \<Rightarrow> real" where
  "hav d1 d2 r = sin ((d2 - d1) / 2) * sin ((d2 - d1) / 2) + cos d1 * cos d2 * sin (r / 2) * sin (r / 2)"

lemma sin_half_sq: "2 * (sin (x / 2) * sin (x / 2)) = 1 - cos x" for x :: real
  using cos_double_sin [of "x / 2"] by (simp add: power2_eq_square)

lemma hav_cos: "1 - 2 * hav d1 d2 r = sin d1 * sin d2 + cos d1 * cos d2 * cos r"
proof -
  have "2 * hav d1 d2 r = (1 - cos (d2 - d1)) + cos d1 * cos d2 * (1 - cos r)"
    unfolding hav_def sin_half_sq [symmetric] by (simp add: algebra_simps)
  then show ?thesis by (simp add: cos_diff algebra_simps)
qed

lemma hav_range:
  assumes "0 \<le> cos d1" "0 \<le> cos d2"
  shows "0 \<le> hav d1 d2 r" "hav d1 d2 r \<le> 1"
proof -
  have "0 \<le> cos d1 * cos d2 * (sin (r / 2) * sin (r / 2))" using assms
    by (intro mult_nonneg_nonneg [of "cos d1 * cos d2"] mult_nonneg_nonneg [of "cos d1"] zero_le_square)
  then show "0 \<le> hav d1 d2 r" unfolding hav_def by (simp add: mult.assoc)
  have "cos d1 * cos d2 * (- 1) \<le> cos d1 * cos d2 * cos r" using assms by (intro mult_left_mono) auto
  then have "- cos (d1 + d2) \<le> 1 - 2 * hav d1 d2 r" unfolding hav_cos by (simp add: cos_add)
  moreover have "cos (d1 + d2) \<le> 1" by simp
  ultimately show "hav d1 d2 r \<le> 1" by linarith
qed

lemma cos_declination: "-90 \<le> d \<Longrightarrow> d \<le> 90 \<Longrightarrow> 0 \<le> cos (d * (pi / 180))"
proof (rule cos_ge_zero)
  assume d: "-90 \<le> d" "d \<le> 90"
  have "-90 * (pi / 180) \<le> d * (pi / 180)" "d * (pi / 180) \<le> 90 * (pi / 180)" using d by (intro mult_right_mono; simp)+
  then show "- (pi / 2) \<le> d * (pi / 180)" "d * (pi / 180) \<le> pi / 2" by simp_all
qed

lemma cos_twice_arcsin_sqrt: "0 \<le> a \<Longrightarrow> a \<le> 1 \<Longrightarrow> cos (2 * arcsin (sqrt a)) = 1 - 2 * a"
proof -
  assume a: "0 \<le> a" "a \<le> 1"
  then have "sin (arcsin (sqrt a)) = sqrt a" by (intro sin_arcsin) (auto intro: order_trans [of _ 0])
  then show ?thesis using a(1) by (simp add: cos_double_sin)
qed

lemma half_angle_range:
  assumes "0 \<le> a" "a \<le> 1"
  shows "0 \<le> arcsin (sqrt a)" "arcsin (sqrt a) \<le> pi / 2"
proof -
  have s: "0 \<le> sqrt a" "sqrt a \<le> 1" using assms by simp_all
  then have "-1 \<le> sqrt a" by linarith
  then show "0 \<le> arcsin (sqrt a)" "arcsin (sqrt a) \<le> pi / 2"
    using arcsin_le_arcsin [of 0 "sqrt a"] arcsin_bounded [of "sqrt a"] s by (simp_all only: arcsin_0)
qed

lemma declination_le_angle:
  assumes "0 \<le> cos d1" "0 \<le> cos d2" "\<bar>d2 - d1\<bar> \<le> pi"
  shows "\<bar>d2 - d1\<bar> \<le> 2 * arcsin (sqrt (hav d1 d2 r))"
proof -
  let ?x = "\<bar>d2 - d1\<bar> / 2"
  have "0 \<le> cos d1 * cos d2 * (sin (r / 2) * sin (r / 2))" using assms(1,2)
    by (intro mult_nonneg_nonneg [of "cos d1 * cos d2"] mult_nonneg_nonneg [of "cos d1"] zero_le_square)
  moreover have "(sin \<bar>y\<bar>)\<^sup>2 = sin y * sin y" for y :: real
    by (cases "0 \<le> y") (simp_all add: power2_eq_square)
  then have "(sin ?x)\<^sup>2 = sin ((d2 - d1) / 2) * sin ((d2 - d1) / 2)" by (metis abs_divide abs_numeral)
  ultimately have "(sin ?x)\<^sup>2 \<le> hav d1 d2 r" by (simp add: hav_def mult.assoc)
  moreover have "0 \<le> sin ?x" using assms(3) by (intro sin_ge_zero) auto
  ultimately have "sin ?x \<le> sqrt (hav d1 d2 r)" using real_le_rsqrt by blast
  moreover have "sqrt (hav d1 d2 r) \<le> 1" using hav_range(2) [OF assms(1,2)] by simp
  ultimately have "arcsin (sin ?x) \<le> arcsin (sqrt (hav d1 d2 r))" by (intro arcsin_le_arcsin) auto
  moreover have "arcsin (sin ?x) = ?x" using assms(3) by (intro arcsin_sin) auto
  ultimately show ?thesis by simp
qed

end
