(* ===== verification/Wildcard.thy ===== *)
theory Wildcard
  imports Lithium_Prelude
begin

text \<open>
  What a pattern with wildcards means, and the contract of the matchers of the target catalogue. In
  \<open>glob many one p s\<close> the character \<open>many\<close> stands for any sequence of characters and \<open>one\<close>, if there is
  such a wildcard, for any single one. The matchers scan without backtracking: they are sound, and
  exact on patterns that use \<open>many\<close> at their end only.
\<close>

fun glob :: "char \<Rightarrow> char option \<Rightarrow> string \<Rightarrow> string \<Rightarrow> bool" where
  "glob many one [] s \<longleftrightarrow> s = []"
| "glob many one (p # ps) s \<longleftrightarrow>
     (if p = many then (\<exists>k \<in> set [0..<length s + 1]. glob many one ps (drop k s))
      else s \<noteq> [] \<and> (one = Some p \<or> p = hd s) \<and> glob many one ps (tl s))"

lemma glob_many: "glob many one (many # ps) s \<longleftrightarrow> (\<exists>k \<le> length s. glob many one ps (drop k s))"
proof -
  have "set [0..<length s + 1] = {k. k \<le> length s}" by auto
  then show ?thesis by simp
qed

lemma glob_manyI: "glob many one ps t \<Longrightarrow> glob many one (many # ps) (u @ t)"
  unfolding glob_many by (rule exI [of _ "length u"]) simp

lemma glob_many_Cons: "glob many one (many # ps) s \<Longrightarrow> glob many one (many # ps) (c # s)"
  unfolding glob_many by (metis Suc_le_mono drop_Suc_Cons length_Cons)

lemma glob_many_last [simp]: "glob many one [many] s"
  unfolding glob_many by (auto intro: exI [of _ "length s"])

lemma glob_all_many: "glob many one (replicate n many) []"
  by (induction n) auto

text \<open>A literal or single wildcard at the head consumes one character.\<close>

lemma glob_ConsI: "one = Some p \<or> p = c \<Longrightarrow> glob many one ps s \<Longrightarrow> glob many one (p # ps) (c # s)"
  using glob_manyI [of many one ps s "[c]"] by (cases "p = many") auto

lemma glob_Cons_iff: "p \<noteq> many \<Longrightarrow> glob many one (p # ps) s \<longleftrightarrow> (\<exists>c s'. s = c # s' \<and> (one = Some p \<or> p = c) \<and> glob many one ps s')"
  by (cases s) auto

locale wildcard_matcher =
  fixes matcher :: "string \<Rightarrow> string \<Rightarrow> bool" and many :: char and one :: "char option"
  assumes sound: "p \<noteq> [] \<Longrightarrow> matcher s p \<Longrightarrow> glob many one p s"
    and exact_last: "p \<noteq> [] \<Longrightarrow> many \<notin> set (butlast p) \<Longrightarrow> glob many one p s \<Longrightarrow> matcher s p"
begin

lemma exact: "p \<noteq> [] \<Longrightarrow> many \<notin> set (butlast p) \<Longrightarrow> matcher s p \<longleftrightarrow> glob many one p s"
  using sound exact_last by blast

lemma glob_literal: "many \<notin> set p \<Longrightarrow> (\<forall>c. one = Some c \<longrightarrow> c \<notin> set p) \<Longrightarrow> glob many one p s \<longleftrightarrow> s = p"
proof (induction p arbitrary: s)
  case (Cons x p)
  then show ?case by (cases s) auto
qed simp

lemma glob_prefix:
  "many \<notin> set p \<Longrightarrow> (\<forall>c. one = Some c \<longrightarrow> c \<notin> set p) \<Longrightarrow> glob many one (p @ [many]) s \<longleftrightarrow> take (length p) s = p"
proof (induction p arbitrary: s)
  case Nil
  then show ?case by (simp del: glob.simps)
next
  case (Cons x p)
  then show ?case by (cases s) auto
qed

text \<open>Patterns without wildcards are names, and a trailing wildcard makes a prefix search.\<close>

lemma literal: "p \<noteq> [] \<Longrightarrow> many \<notin> set p \<Longrightarrow> (\<forall>c. one = Some c \<longrightarrow> c \<notin> set p) \<Longrightarrow> matcher s p \<longleftrightarrow> s = p"
  by (subst exact) (auto simp: glob_literal dest: in_set_butlastD)

lemma prefix: "many \<notin> set p \<Longrightarrow> (\<forall>c. one = Some c \<longrightarrow> c \<notin> set p) \<Longrightarrow> matcher s (p @ [many]) \<longleftrightarrow> take (length p) s = p"
  by (subst exact) (auto simp: glob_prefix)

end

end
