(* ===== verification/Memory_Repository.thy ===== *)
theory Memory_Repository
  imports Celestial_Model Sphere Wildcard Edit_Distance
begin

text \<open>
  The in-memory repository of the target catalogue, \<^verbatim>\<open>src/src/target/repository/memory_repository.cpp\<close>:
  the objects under their number and a second time under their identifier. Every operation runs
  under the mutex and is one step. The handlers for exceptions of the standard library (no memory) are
  left out, as is logging. Numbers do not reach the end of \<^verbatim>\<open>int64_t\<close>, and result lists stay shorter
  than \<open>2 ^ 31\<close>. An iterator moved out of its vector is undefined, the value \<open>None\<close>.
\<close>

section \<open>Helpers\<close>

record memory_repository =
  mr_byId :: "(int \<times> CelestialObjectModel) list"
  mr_byIdentifier :: "CelestialObjectModel umap"
  mr_nextId :: int

definition MemoryRepository_new :: memory_repository where
  "MemoryRepository_new = \<lparr>mr_byId = [], mr_byIdentifier = [], mr_nextId = 1\<rparr>"

definition generateId :: "memory_repository \<Rightarrow> int \<times> memory_repository" where
  "generateId r = (mr_nextId r, r\<lparr>mr_nextId := mr_nextId r + 1\<rparr>)"

definition toLower :: "string \<Rightarrow> string" where
  "toLower s = map to_lower s"

text \<open>The loop of \<^verbatim>\<open>matchesPattern\<close> on what is left of the string and of the pattern.\<close>

function matchLoop :: "string \<Rightarrow> string \<Rightarrow> bool" where
  "matchLoop (c # s) (q # p) =
     (if q = CHR ''*''
      then if p = [] then True
           else (case dropWhile (\<lambda>x. x \<noteq> hd p) (c # s) of
                   [] \<Rightarrow> False
                 | _ # s' \<Rightarrow> matchLoop s' (tl p))
      else if q = c then matchLoop s p
      else False)"
| "matchLoop [] p \<longleftrightarrow> dropWhile (\<lambda>q. q = CHR ''*'') p = []"
| "matchLoop (c # s) [] \<longleftrightarrow> False"
  by pat_completeness auto
termination matchLoop
  by (relation "measure (\<lambda>(s, p). length p)") auto

definition matchesPattern :: "string \<Rightarrow> string \<Rightarrow> bool" where
  "matchesPattern s pattern = (if pattern = ''*'' then True else matchLoop s pattern)"

text \<open>The full Levenshtein table, filled by rows.\<close>

definition dp_set :: "nat \<Rightarrow> nat \<Rightarrow> int \<Rightarrow> int list list \<Rightarrow> int list list" where
  "dp_set i j v dp = dp[i := (dp ! i)[j := v]]"

definition dp_cell :: "string \<Rightarrow> string \<Rightarrow> nat \<Rightarrow> int list list \<Rightarrow> nat \<Rightarrow> int list list" where
  "dp_cell s1 s2 i dp j =
     dp_set i j
       (if toLower [s1 ! (i - 1)] = toLower [s2 ! (j - 1)] then dp ! (i - 1) ! (j - 1)
        else 1 + min (min (dp ! (i - 1) ! j) (dp ! i ! (j - 1))) (dp ! (i - 1) ! (j - 1))) dp"

definition mr_levenshteinDistance :: "string \<Rightarrow> string \<Rightarrow> int" where
  "mr_levenshteinDistance s1 s2 =
     (let m = length s1; n = length s2
      in if m = 0 then int n
         else if n = 0 then int m
         else
           (let dp = replicate (m + 1) (replicate (n + 1) 0);
                dp = foldl (\<lambda>dp i. dp_set i 0 (int i) dp) dp [0..<m + 1];
                dp = foldl (\<lambda>dp j. dp_set 0 j (int j) dp) dp [0..<n + 1];
                dp = foldl (\<lambda>dp i. foldl (dp_cell s1 s2 i) dp [1..<n + 1]) dp [1..<m + 1]
            in dp ! m ! n))"

definition haversineDistance :: "real \<Rightarrow> real \<Rightarrow> real \<Rightarrow> real \<Rightarrow> real" where
  "haversineDistance ra1 dec1 ra2 dec2 =
     (let k = pi / 180;
          dRa = (ra2 - ra1) * k;
          dDec = (dec2 - dec1) * k;
          a = sin (dDec / 2) * sin (dDec / 2) + cos (dec1 * k) * cos (dec2 * k) * sin (dRa / 2) * sin (dRa / 2);
          c = 2 * arcsin (sqrt a)
      in c / k)"

section \<open>Objects\<close>

definition mr_store :: "CelestialObjectModel \<Rightarrow> memory_repository \<Rightarrow> int \<times> memory_repository" where
  "mr_store obj r =
     (let (i, r) = generateId r;
          newObj = obj\<lparr>co_id := i\<rparr>
      in (i, r\<lparr>mr_byId := AList.update i newObj (mr_byId r),
               mr_byIdentifier := AList.update (co_identifier obj) newObj (mr_byIdentifier r)\<rparr>))"

definition mr_replace :: "CelestialObjectModel \<Rightarrow> CelestialObjectModel \<Rightarrow> memory_repository \<Rightarrow> memory_repository" where
  "mr_replace old obj r =
     r\<lparr>mr_byId := AList.update (co_id obj) obj (mr_byId r),
       mr_byIdentifier :=
         AList.update (co_identifier obj) obj
           (if co_identifier old \<noteq> co_identifier obj
            then AList.delete (co_identifier old) (mr_byIdentifier r) else mr_byIdentifier r)\<rparr>"

definition MemoryRepository_insert :: "CelestialObjectModel \<Rightarrow> memory_repository \<Rightarrow> (string + int) \<times> memory_repository" where
  "MemoryRepository_insert obj r =
     (if map_of (mr_byIdentifier r) (co_identifier obj) \<noteq> None
      then (Inl (''Duplicate identifier: '' @ co_identifier obj), r)
      else let (i, r') = mr_store obj r in (Inr i, r'))"

definition MemoryRepository_update :: "CelestialObjectModel \<Rightarrow> memory_repository \<Rightarrow> (string + unit) \<times> memory_repository" where
  "MemoryRepository_update obj r =
     (case map_of (mr_byId r) (co_id obj) of
        None \<Rightarrow> (Inl (''Object not found: id='' @ show_int (co_id obj)), r)
      | Some old \<Rightarrow> (Inr (), mr_replace old obj r))"

definition MemoryRepository_remove :: "int \<Rightarrow> memory_repository \<Rightarrow> bool \<times> memory_repository" where
  "MemoryRepository_remove i r =
     (case map_of (mr_byId r) i of
        None \<Rightarrow> (False, r)
      | Some old \<Rightarrow> (True, r\<lparr>mr_byId := AList.delete i (mr_byId r),
                              mr_byIdentifier := AList.delete (co_identifier old) (mr_byIdentifier r)\<rparr>))"

definition findById :: "int \<Rightarrow> memory_repository \<Rightarrow> CelestialObjectModel option" where
  "findById i r = map_of (mr_byId r) i"

definition findByIdentifier :: "string \<Rightarrow> memory_repository \<Rightarrow> CelestialObjectModel option" where
  "findByIdentifier n r = map_of (mr_byIdentifier r) n"

definition batchInsert :: "CelestialObjectModel list \<Rightarrow> memory_repository \<Rightarrow> nat \<times> memory_repository" where
  "batchInsert objs r =
     foldl (\<lambda>(k, r) obj.
        if map_of (mr_byIdentifier r) (co_identifier obj) \<noteq> None then (k, r)
        else (k + 1, snd (mr_store obj r))) (0, r) objs"

definition batchUpdate :: "CelestialObjectModel list \<Rightarrow> memory_repository \<Rightarrow> nat \<times> memory_repository" where
  "batchUpdate objs r =
     foldl (\<lambda>(k, r) obj.
        case map_of (mr_byId r) (co_id obj) of
          None \<Rightarrow> (k, r)
        | Some old \<Rightarrow> (k + 1, mr_replace old obj r)) (0, r) objs"

definition upsert :: "CelestialObjectModel list \<Rightarrow> memory_repository \<Rightarrow> nat \<times> memory_repository" where
  "upsert objs r =
     foldl (\<lambda>(k, r) obj.
        case (if co_id obj \<noteq> 0 then map_of (mr_byId r) (co_id obj) else None) of
          Some old \<Rightarrow> (k + 1, mr_replace old obj r)
        | None \<Rightarrow> (k + 1, snd (mr_store obj r))) (0, r) objs"

definition MemoryRepository_clear :: "memory_repository \<Rightarrow> memory_repository" where
  "MemoryRepository_clear r = r\<lparr>mr_byId := [], mr_byIdentifier := [], mr_nextId := 1\<rparr>"

definition MemoryRepository_count :: "memory_repository \<Rightarrow> nat" where
  "MemoryRepository_count r = length (mr_byId r)"

definition MemoryRepository_size :: "memory_repository \<Rightarrow> nat" where
  "MemoryRepository_size r = length (mr_byId r)"

section \<open>Queries\<close>

definition objects :: "memory_repository \<Rightarrow> CelestialObjectModel list" where
  "objects r = map snd (mr_byId r)"

text \<open>A loop that collects hits and leaves when there are as many as the limit, tested after a hit.\<close>

fun collectUpTo :: "('a \<Rightarrow> bool) \<Rightarrow> nat \<Rightarrow> 'a list \<Rightarrow> 'a list \<Rightarrow> 'a list" where
  "collectUpTo P limit [] results = results"
| "collectUpTo P limit (x # xs) results =
     (if P x
      then let results = results @ [x] in if length results \<ge> limit then results else collectUpTo P limit xs results
      else collectUpTo P limit xs results)"

definition searchByName :: "string \<Rightarrow> int \<Rightarrow> memory_repository \<Rightarrow> CelestialObjectModel list" where
  "searchByName pattern limit r =
     (let patternLower = toLower pattern
      in collectUpTo (\<lambda>obj. matchesPattern (toLower (co_identifier obj)) patternLower
            \<or> matchesPattern (toLower (co_chineseName obj)) patternLower) (size_t limit) (objects r) [])"

definition fuzzySearch :: "string \<Rightarrow> int \<Rightarrow> int \<Rightarrow> memory_repository \<Rightarrow> (CelestialObjectModel \<times> int) list" where
  "fuzzySearch name tolerance limit r =
     (let candidates = filter (\<lambda>x. snd x \<le> tolerance)
            (map (\<lambda>obj. (obj, mr_levenshteinDistance (toLower (co_identifier obj)) (toLower name))) (objects r));
          candidates = sort_key snd candidates
      in if length candidates > size_t limit then take (size_t limit) candidates else candidates)"

definition search_hit :: "CelestialSearchFilter \<Rightarrow> CelestialObjectModel \<Rightarrow> bool" where
  "search_hit f obj =
     (if sf_namePattern f \<noteq> [] \<and> \<not> matchesPattern (toLower (co_identifier obj)) (toLower (sf_namePattern f))
           \<and> \<not> matchesPattern (toLower (co_chineseName obj)) (toLower (sf_namePattern f)) then False
      else if sf_type f \<noteq> [] \<and> co_type obj \<noteq> sf_type f then False
      else if co_visualMagnitudeV obj < sf_minMagnitude f \<or> co_visualMagnitudeV obj > sf_maxMagnitude f then False
      else if co_radJ2000 obj < sf_minRA f \<or> co_radJ2000 obj > sf_maxRA f then False
      else if co_decDJ2000 obj < sf_minDec f \<or> co_decDJ2000 obj > sf_maxDec f then False
      else True)"

definition MemoryRepository_search :: "CelestialSearchFilter \<Rightarrow> memory_repository \<Rightarrow> CelestialObjectModel list option" where
  "MemoryRepository_search f r =
     (let results = filter (search_hit f) (objects r)
      in if sf_offset f \<ge> int (length results) then Some []
         else if sf_offset f < 0 \<or> sf_limit f < 0 then None
         else Some (take (nat (min (sf_limit f) (int (length results) - sf_offset f))) (drop (nat (sf_offset f)) results)))"

definition MemoryRepository_autocomplete :: "string \<Rightarrow> int \<Rightarrow> memory_repository \<Rightarrow> string list" where
  "MemoryRepository_autocomplete pre limit r =
     (let prefixLower = toLower pre
      in collectUpTo (\<lambda>n. take (length pre) (toLower n) = prefixLower) (size_t limit)
           (map co_identifier (objects r)) [])"

definition searchByCoordinates :: "real \<Rightarrow> real \<Rightarrow> real \<Rightarrow> int \<Rightarrow> memory_repository \<Rightarrow> CelestialObjectModel list" where
  "searchByCoordinates ra dec radius limit r =
     (let candidates = filter (\<lambda>x. snd x \<le> radius)
            (map (\<lambda>obj. (obj, haversineDistance (co_radJ2000 obj) (co_decDJ2000 obj) ra dec)) (objects r));
          candidates = sort_key snd candidates
      in collectUpTo (\<lambda>_. True) (size_t limit) (map fst candidates) [])"

definition getByType :: "string \<Rightarrow> int \<Rightarrow> memory_repository \<Rightarrow> CelestialObjectModel list" where
  "getByType ty limit r = collectUpTo (\<lambda>obj. co_type obj = ty) (size_t limit) (objects r) []"

definition getByMagnitudeRange :: "real \<Rightarrow> real \<Rightarrow> int \<Rightarrow> memory_repository \<Rightarrow> CelestialObjectModel list" where
  "getByMagnitudeRange minMag maxMag limit r =
     collectUpTo (\<lambda>obj. co_visualMagnitudeV obj \<ge> minMag \<and> co_visualMagnitudeV obj \<le> maxMag) (size_t limit) (objects r) []"

definition countByType :: "memory_repository \<Rightarrow> nat umap" where
  "countByType r =
     foldl (\<lambda>counts obj. AList.update (co_type obj) (lookup_or 0 counts (co_type obj) + 1) counts) [] (objects r)"

section \<open>Patterns\<close>

lemma dropWhile_split: "dropWhile (\<lambda>x. x \<noteq> c) s = d # s' \<Longrightarrow> d = c \<and> (\<exists>u. s = u @ c # s')"
  using takeWhile_dropWhile_id [of "\<lambda>x. x \<noteq> c" s] by (auto simp: dropWhile_eq_Cons_conv)

lemma all_many: "dropWhile (\<lambda>q. q = c) p = [] \<Longrightarrow> p = replicate (length p) c"
  by (induction p) (auto split: if_splits)

lemma matchLoop_sound: "matchLoop s p \<Longrightarrow> glob CHR ''*'' None p s"
proof (induction s p rule: matchLoop.induct)
  case (1 c s q p)
  show ?case
  proof (cases "q = CHR ''*''")
    case True
    show ?thesis
    proof (cases p)
      case Nil
      then show ?thesis using True by (simp del: glob.simps)
    next
      case (Cons x ps)
      obtain d s' where d: "dropWhile (\<lambda>y. y \<noteq> x) (c # s) = d # s'" "matchLoop s' ps"
        using "1.prems" True Cons by (simp split: list.splits if_splits)
      then have "glob CHR ''*'' None ps s'" using "1.IH"(1) [OF True, of d s'] Cons by simp
      then have g: "glob CHR ''*'' None (x # ps) (x # s')" by (rule glob_ConsI [OF disjI2 [OF refl]])
      obtain u where u: "c # s = u @ x # s'" using dropWhile_split [OF d(1)] by blast
      show ?thesis unfolding True Cons u by (rule glob_manyI [OF g])
    qed
  next
    case False
    then show ?thesis using 1 by (auto split: if_splits)
  qed
next
  case (2 p)
  then show ?case using glob_all_many all_many by (metis matchLoop.simps(2))
qed simp

lemma matchLoop_exact: "CHR ''*'' \<notin> set (butlast p) \<Longrightarrow> glob CHR ''*'' None p s \<Longrightarrow> matchLoop s p"
proof (induction p arbitrary: s)
  case Nil
  then show ?case by simp
next
  case (Cons q p)
  show ?case
  proof (cases "q = CHR ''*''")
    case True
    then have "p = []" using Cons.prems(1) by (auto split: if_splits)
    then show ?thesis using True by (cases s) auto
  next
    case False
    then obtain s' where "s = q # s'" "glob CHR ''*'' None p s'" using Cons.prems(2) by (cases s) auto
    then show ?thesis using False Cons by (auto split: if_splits)
  qed
qed

interpretation star: wildcard_matcher matchesPattern "CHR ''*''" None
proof
  fix p s :: string
  show "matchesPattern s p \<Longrightarrow> glob CHR ''*'' None p s"
    by (auto simp: matchesPattern_def matchLoop_sound simp del: glob.simps split: if_splits)
  show "CHR ''*'' \<notin> set (butlast p) \<Longrightarrow> glob CHR ''*'' None p s \<Longrightarrow> matchesPattern s p"
    by (simp add: matchesPattern_def matchLoop_exact del: glob.simps)
qed

lemma collectUpTo_eq:
  "length acc < limit \<or> acc = [] \<Longrightarrow> collectUpTo P limit xs acc = acc @ take (max 1 limit - length acc) (filter P xs)"
proof (induction P limit xs acc rule: collectUpTo.induct)
  case (2 P limit x xs acc)
  then show ?case by (auto simp: Let_def take_Cons' max_def split: if_splits)
qed simp

lemma collectUpTo_take: "collectUpTo P limit xs [] = take (max 1 limit) (filter P xs)"
  by (simp add: collectUpTo_eq)

section \<open>The distance table\<close>

definition prefix_edit :: "string \<Rightarrow> string \<Rightarrow> nat \<Rightarrow> nat \<Rightarrow> int" where
  "prefix_edit s1 s2 i j = int (edit (map to_lower (take i s1)) (map to_lower (take j s2)))"

text \<open>A table of the right shape whose cells in \<open>D\<close> hold the distance of the prefixes.\<close>

definition dp_ok :: "string \<Rightarrow> string \<Rightarrow> (nat \<times> nat) set \<Rightarrow> int list list \<Rightarrow> bool" where
  "dp_ok s1 s2 D dp \<longleftrightarrow> length dp = length s1 + 1 \<and> (\<forall>i \<le> length s1. length (dp ! i) = length s2 + 1)
     \<and> (\<forall>(i, j) \<in> D. i \<le> length s1 \<longrightarrow> j \<le> length s2 \<longrightarrow> dp ! i ! j = prefix_edit s1 s2 i j)"

lemma dp_set_ok:
  assumes "dp_ok s1 s2 D dp" "i \<le> length s1" "j \<le> length s2" "v = prefix_edit s1 s2 i j"
  shows "dp_ok s1 s2 (insert (i, j) D) (dp_set i j v dp)"
proof -
  have d: "length dp = length s1 + 1" "\<forall>i \<le> length s1. length (dp ! i) = length s2 + 1"
    "\<And>a b. (a, b) \<in> D \<Longrightarrow> a \<le> length s1 \<Longrightarrow> b \<le> length s2 \<Longrightarrow> dp ! a ! b = prefix_edit s1 s2 a b"
    using assms(1) by (auto simp: dp_ok_def)
  have "dp_set i j v dp ! a ! b = (if a = i \<and> b = j then v else dp ! a ! b)" if "a \<le> length s1" "b \<le> length s2" for a b
    using that d(1,2) assms(2,3) by (auto simp: dp_set_def nth_list_update)
  then show ?thesis using d assms by (auto simp: dp_ok_def dp_set_def nth_list_update)
qed

lemma prefix_edit_step:
  assumes "0 < i" "i \<le> length s1" "0 < j" "j \<le> length s2"
  shows "prefix_edit s1 s2 i j =
    (if to_lower (s1 ! (i - 1)) = to_lower (s2 ! (j - 1)) then prefix_edit s1 s2 (i - 1) (j - 1)
     else 1 + min (min (prefix_edit s1 s2 (i - 1) j) (prefix_edit s1 s2 i (j - 1))) (prefix_edit s1 s2 (i - 1) (j - 1)))"
proof -
  have t: "take i s1 = take (i - 1) s1 @ [s1 ! (i - 1)]" "take j s2 = take (j - 1) s2 @ [s2 ! (j - 1)]"
    using assms take_Suc_conv_app_nth [of "i - 1" s1] take_Suc_conv_app_nth [of "j - 1" s2] by simp_all
  let ?x = "to_lower (s1 ! (i - 1))" and ?y = "to_lower (s2 ! (j - 1))"
    and ?xs = "map to_lower (take (i - 1) s1)" and ?ys = "map to_lower (take (j - 1) s2)"
  have m: "map to_lower (take i s1) = ?xs @ [?x]" "map to_lower (take j s2) = ?ys @ [?y]" unfolding t by simp_all
  show ?thesis
  proof (cases "?x = ?y")
    case True
    then show ?thesis unfolding prefix_edit_def m by (simp add: edit_snoc_same)
  next
    case False
    then have "edit (?xs @ [?x]) (?ys @ [?y]) = 1 + min (min (edit ?xs (?ys @ [?y])) (edit (?xs @ [?x]) ?ys)) (edit ?xs ?ys)"
      by (subst edit_snoc) simp
    then show ?thesis using False unfolding prefix_edit_def m by (simp only: if_False of_nat_add of_nat_min of_nat_1)
  qed
qed

lemma dp_cell_ok:
  assumes "dp_ok s1 s2 D dp" "0 < i" "i \<le> length s1" "0 < j" "j \<le> length s2"
    "{(i - 1, j - 1), (i - 1, j), (i, j - 1)} \<subseteq> D"
  shows "dp_ok s1 s2 (insert (i, j) D) (dp_cell s1 s2 i dp j)"
proof -
  have c: "dp ! a ! b = prefix_edit s1 s2 a b" if "(a, b) \<in> D" "a \<le> length s1" "b \<le> length s2" for a b
    using assms(1) that by (auto simp: dp_ok_def)
  have "i - 1 \<le> length s1" "j - 1 \<le> length s2" using assms(3,5) by linarith+
  then have "(if toLower [s1 ! (i - 1)] = toLower [s2 ! (j - 1)] then dp ! (i - 1) ! (j - 1)
      else 1 + min (min (dp ! (i - 1) ! j) (dp ! i ! (j - 1))) (dp ! (i - 1) ! (j - 1))) = prefix_edit s1 s2 i j"
    using assms(3,5,6) prefix_edit_step [OF assms(2-5)] c [of "i - 1" "j - 1"] c [of "i - 1" j] c [of i "j - 1"]
    by (simp only: toLower_def list.map list.inject simp_thms insert_subset)
  then show ?thesis unfolding dp_cell_def by (intro dp_set_ok assms) simp
qed

lemma dp_row_ok:
  assumes "dp_ok s1 s2 D dp" "0 < i" "i \<le> length s1" "(i, 0) \<in> D" "{i - 1} \<times> {..length s2} \<subseteq> D"
  shows "k \<le> length s2 \<Longrightarrow> dp_ok s1 s2 (D \<union> {i} \<times> {..k}) (foldl (dp_cell s1 s2 i) dp [1..<k + 1])"
proof (induction k)
  case 0
  have "D \<union> {i} \<times> {..0} = D" using assms(4) by auto
  then show ?case using assms(1) by simp
next
  case (Suc k)
  have e: "[1..<Suc k + 1] = [1..<k + 1] @ [Suc k]" "insert (i, Suc k) (D \<union> {i} \<times> {..k}) = D \<union> {i} \<times> {..Suc k}"
    by (auto simp: le_Suc_eq)
  have "dp_ok s1 s2 (insert (i, Suc k) (D \<union> {i} \<times> {..k})) (dp_cell s1 s2 i (foldl (dp_cell s1 s2 i) dp [1..<k + 1]) (Suc k))"
    using Suc assms by (intro dp_cell_ok) auto
  then show ?case unfolding e by simp
qed

lemma dp_rows_ok:
  assumes "dp_ok s1 s2 ({..length s1} \<times> {0} \<union> {0} \<times> {..length s2}) dp"
  shows "k \<le> length s1 \<Longrightarrow> dp_ok s1 s2 ({..length s1} \<times> {0} \<union> {..k} \<times> {..length s2})
    (foldl (\<lambda>dp i. foldl (dp_cell s1 s2 i) dp [1..<length s2 + 1]) dp [1..<k + 1])"
proof (induction k)
  case 0
  then show ?case using assms by (simp add: atMost_0)
next
  case (Suc k)
  let ?D = "{..length s1} \<times> {0} \<union> {..k} \<times> {..length s2}"
  let ?dp = "foldl (\<lambda>dp i. foldl (dp_cell s1 s2 i) dp [1..<length s2 + 1]) dp [1..<k + 1]"
  have e: "[1..<Suc k + 1] = [1..<k + 1] @ [Suc k]"
    "?D \<union> {Suc k} \<times> {..length s2} = {..length s1} \<times> {0} \<union> {..Suc k} \<times> {..length s2}" by (auto simp: le_Suc_eq)
  have "dp_ok s1 s2 ?D ?dp" using Suc by simp
  then have "dp_ok s1 s2 (?D \<union> {Suc k} \<times> {..length s2}) (foldl (dp_cell s1 s2 (Suc k)) ?dp [1..<length s2 + 1])"
    using Suc.prems by (intro dp_row_ok) auto
  then show ?case unfolding e by simp
qed

lemma dp_borders:
  assumes "dp_ok s1 s2 {} dp"
  shows "dp_ok s1 s2 ({..length s1} \<times> {0} \<union> {0} \<times> {..length s2})
    (foldl (\<lambda>dp j. dp_set 0 j (int j) dp) (foldl (\<lambda>dp i. dp_set i 0 (int i) dp) dp [0..<length s1 + 1]) [0..<length s2 + 1])"
proof -
  have "dp_ok s1 s2 ({..<k} \<times> {0}) (foldl (\<lambda>dp i. dp_set i 0 (int i) dp) dp [0..<k])" if "k \<le> length s1 + 1" for k
    using that
  proof (induction k)
    case (Suc k)
    have e: "insert (k, 0) ({..<k} \<times> {0}) = {..<Suc k} \<times> {0 :: nat}" by auto
    have "dp_ok s1 s2 (insert (k, 0) ({..<k} \<times> {0})) (dp_set k 0 (int k) (foldl (\<lambda>dp i. dp_set i 0 (int i) dp) dp [0..<k]))"
      using Suc by (intro dp_set_ok) (auto simp: prefix_edit_def)
    then show ?case unfolding e by simp
  qed (use assms in simp)
  from this [of "length s1 + 1"] have c: "dp_ok s1 s2 ({..length s1} \<times> {0}) (foldl (\<lambda>dp i. dp_set i 0 (int i) dp) dp [0..<length s1 + 1])"
    by (simp add: lessThan_Suc_atMost)
  let ?dp = "foldl (\<lambda>dp i. dp_set i 0 (int i) dp) dp [0..<length s1 + 1]"
  have "dp_ok s1 s2 ({..length s1} \<times> {0} \<union> {0} \<times> {..<k}) (foldl (\<lambda>dp j. dp_set 0 j (int j) dp) ?dp [0..<k])"
    if "k \<le> length s2 + 1" for k
    using that
  proof (induction k)
    case (Suc k)
    have e: "insert (0, k) ({..length s1} \<times> {0} \<union> {0} \<times> {..<k}) = {..length s1} \<times> {0} \<union> {0} \<times> {..<Suc k}" by auto
    have "dp_ok s1 s2 (insert (0, k) ({..length s1} \<times> {0} \<union> {0} \<times> {..<k}))
        (dp_set 0 k (int k) (foldl (\<lambda>dp j. dp_set 0 j (int j) dp) ?dp [0..<k]))"
      using Suc by (intro dp_set_ok) (auto simp: prefix_edit_def)
    then show ?case unfolding e by simp
  qed (use c in simp)
  from this [of "length s2 + 1"] show ?thesis by (simp add: lessThan_Suc_atMost)
qed

lemma mr_levenshtein_edit: "mr_levenshteinDistance s1 s2 = int (edit (toLower s1) (toLower s2))"
proof (cases "s1 = [] \<or> s2 = []")
  case True
  then show ?thesis by (auto simp: mr_levenshteinDistance_def toLower_def Let_def)
next
  case False
  let ?dp = "replicate (length s1 + 1) (replicate (length s2 + 1) (0 :: int))"
  have "dp_ok s1 s2 {} ?dp" by (simp add: dp_ok_def less_Suc_eq_le del: replicate_Suc)
  from dp_rows_ok [OF dp_borders [OF this] order.refl] have "\<forall>(i, j) \<in> {..length s1} \<times> {..length s2}.
      foldl (\<lambda>dp i. foldl (dp_cell s1 s2 i) dp [1..<length s2 + 1])
        (foldl (\<lambda>dp j. dp_set 0 j (int j) dp) (foldl (\<lambda>dp i. dp_set i 0 (int i) dp) ?dp [0..<length s1 + 1]) [0..<length s2 + 1])
        [1..<length s1 + 1] ! i ! j = prefix_edit s1 s2 i j"
    unfolding dp_ok_def by blast
  then show ?thesis using False by (simp add: mr_levenshteinDistance_def Let_def prefix_edit_def toLower_def)
qed

lemma toLower_idem [simp]: "toLower (toLower s) = toLower s"
  by (simp add: toLower_def)

lemma fuzzySearch_eq:
  "fuzzySearch q tol limit r = take (size_t limit) (sort_key snd (filter (\<lambda>x. snd x \<le> tol)
     (map (\<lambda>obj. (obj, int (edit (toLower (co_identifier obj)) (toLower q)))) (objects r))))"
  by (simp add: fuzzySearch_def mr_levenshtein_edit Let_def)

section \<open>The distance on the sphere\<close>

lemma haversine_hav:
  "haversineDistance ra1 dec1 ra2 dec2 * (pi / 180)
     = 2 * arcsin (sqrt (hav (dec1 * (pi / 180)) (dec2 * (pi / 180)) ((ra2 - ra1) * (pi / 180))))"
proof -
  have "(dec2 - dec1) * (pi / 180) = dec2 * (pi / 180) - dec1 * (pi / 180)" by (rule left_diff_distrib)
  then show ?thesis unfolding haversineDistance_def Let_def hav_def by (simp only: nonzero_eq_divide_eq pi_neq_zero) simp
qed

section \<open>Consistency of the two indexes\<close>

text \<open>Two maps that hold the same objects, one by their number and one by their name.\<close>

definition agree :: "('a \<Rightarrow> 'i) \<Rightarrow> ('a \<Rightarrow> 'n) \<Rightarrow> ('i \<Rightarrow> 'a option) \<Rightarrow> ('n \<Rightarrow> 'a option) \<Rightarrow> bool" where
  "agree num nm f g \<longleftrightarrow> (\<forall>i x. f i = Some x \<longrightarrow> num x = i \<and> g (nm x) = Some x)
     \<and> (\<forall>n x. g n = Some x \<longrightarrow> nm x = n \<and> f (num x) = Some x)"

lemma agreeD:
  assumes "agree num nm f g"
  shows "f i = Some x \<Longrightarrow> num x = i" "f i = Some x \<Longrightarrow> g (nm x) = Some x"
    "g n = Some x \<Longrightarrow> nm x = n" "g n = Some x \<Longrightarrow> f (num x) = Some x"
  using assms by (auto simp: agree_def)

lemma agreeI:
  assumes "\<And>i x. f i = Some x \<Longrightarrow> num x = i \<and> g (nm x) = Some x"
    and "\<And>n x. g n = Some x \<Longrightarrow> nm x = n \<and> f (num x) = Some x"
  shows "agree num nm f g"
  using assms by (simp add: agree_def)

lemma agree_insert:
  assumes "agree num nm f g" "f (num x) = None" "g (nm x) = None"
  shows "agree num nm (f(num x \<mapsto> x)) (g(nm x \<mapsto> x))"
proof (rule agreeI)
  note D = agreeD [OF assms(1)]
  fix i y
  assume *: "(f(num x \<mapsto> x)) i = Some y"
  show "num y = i \<and> (g(nm x \<mapsto> x)) (nm y) = Some y"
  proof (cases "i = num x")
    case False
    then have "f i = Some y" using * by simp
    from D(1,2) [OF this] assms(3) show ?thesis by (cases "nm y = nm x") auto
  qed (use * in auto)
next
  note D = agreeD [OF assms(1)]
  fix n y
  assume *: "(g(nm x \<mapsto> x)) n = Some y"
  show "nm y = n \<and> (f(num x \<mapsto> x)) (num y) = Some y"
  proof (cases "n = nm x")
    case False
    then have "g n = Some y" using * by simp
    from D(3,4) [OF this] assms(2) show ?thesis by (cases "num y = num x") auto
  qed (use * in auto)
qed

lemma agree_remove:
  assumes "agree num nm f g" "f i = Some x"
  shows "agree num nm (f(i := None)) (g(nm x := None))"
proof (rule agreeI)
  note D = agreeD [OF assms(1)]
  fix j y
  assume "(f(i := None)) j = Some y"
  then have y: "f j = Some y" "j \<noteq> i" by (auto split: if_splits)
  have "nm y \<noteq> nm x"
  proof
    assume "nm y = nm x"
    then have "Some y = Some x" using D(2) [OF y(1)] D(2) [OF assms(2)] by argo
    then have "y = x" by simp
    then show False using D(1) [OF y(1)] D(1) [OF assms(2)] y(2) by simp
  qed
  then show "num y = j \<and> (g(nm x := None)) (nm y) = Some y" using D(1,2) [OF y(1)] by simp
next
  note D = agreeD [OF assms(1)]
  fix n y
  assume "(g(nm x := None)) n = Some y"
  then have y: "g n = Some y" "n \<noteq> nm x" by (auto split: if_splits)
  have "num y \<noteq> i"
  proof
    assume "num y = i"
    then have "Some y = Some x" using D(4) [OF y(1)] assms(2) by argo
    then have "y = x" by simp
    then show False using D(3) [OF y(1)] y(2) by simp
  qed
  then show "nm y = n \<and> (f(i := None)) (num y) = Some y" using D(3,4) [OF y(1)] by simp
qed

lemma agree_replace:
  assumes "agree num nm f g" "f (num y) = Some x" "\<And>z. g (nm y) = Some z \<Longrightarrow> num z = num y"
  shows "agree num nm (f(num y \<mapsto> y)) (g(nm x := None, nm y \<mapsto> y))"
proof -
  have n: "(g(nm x := None)) (nm y) = None"
  proof (cases "g (nm y)")
    case (Some z)
    then have "x = z" using agreeD(4) [OF assms(1) Some] assms(2,3) by simp
    then show ?thesis using agreeD(3) [OF assms(1) Some] by simp
  qed simp
  have "agree num nm (f(num y := None, num y \<mapsto> y)) (g(nm x := None, nm y \<mapsto> y))"
    by (rule agree_insert [OF agree_remove [OF assms(1,2)] _ n]) simp
  then show ?thesis unfolding fun_upd_upd .
qed

definition mr_inv :: "memory_repository \<Rightarrow> bool" where
  "mr_inv r \<longleftrightarrow> agree co_id co_identifier (map_of (mr_byId r)) (map_of (mr_byIdentifier r))
     \<and> distinct (map fst (mr_byId r)) \<and> (\<forall>i \<in> keys (mr_byId r). 0 < i \<and> i < mr_nextId r) \<and> 0 < mr_nextId r"

text \<open>The identifier of an object is not that of another stored object.\<close>

definition identifier_free :: "CelestialObjectModel \<Rightarrow> memory_repository \<Rightarrow> bool" where
  "identifier_free obj r =
     (case map_of (mr_byIdentifier r) (co_identifier obj) of None \<Rightarrow> True | Some x \<Rightarrow> co_id x = co_id obj)"

lemma mr_inv_new: "mr_inv MemoryRepository_new"
  by (simp add: mr_inv_def agree_def MemoryRepository_new_def)

lemma mr_store_maps:
  "fst (mr_store obj r) = mr_nextId r" "mr_nextId (snd (mr_store obj r)) = mr_nextId r + 1"
  "mr_byId (snd (mr_store obj r)) = AList.update (mr_nextId r) (obj\<lparr>co_id := mr_nextId r\<rparr>) (mr_byId r)"
  "mr_byIdentifier (snd (mr_store obj r)) = AList.update (co_identifier obj) (obj\<lparr>co_id := mr_nextId r\<rparr>) (mr_byIdentifier r)"
  by (simp_all add: mr_store_def generateId_def Let_def)

lemma mr_inv_store:
  assumes "mr_inv r" "map_of (mr_byIdentifier r) (co_identifier obj) = None"
  shows "mr_inv (snd (mr_store obj r))"
proof -
  let ?x = "obj\<lparr>co_id := mr_nextId r\<rparr>"
  have "mr_nextId r \<notin> keys (mr_byId r)" using assms(1) by (auto simp: mr_inv_def)
  then have "map_of (mr_byId r) (co_id ?x) = None" by (simp add: map_of_None_keys)
  moreover have "map_of (mr_byIdentifier r) (co_identifier ?x) = None" using assms(2) by simp
  moreover have "agree co_id co_identifier (map_of (mr_byId r)) (map_of (mr_byIdentifier r))"
    using assms(1) by (simp add: mr_inv_def)
  ultimately have "agree co_id co_identifier ((map_of (mr_byId r))(co_id ?x \<mapsto> ?x))
      ((map_of (mr_byIdentifier r))(co_identifier ?x \<mapsto> ?x))" by (intro agree_insert)
  then show ?thesis using assms(1) unfolding mr_inv_def mr_store_maps update_conv'
    by (auto simp: distinct_update)
qed

lemma mr_replace_maps:
  "mr_byId (mr_replace old obj r) = AList.update (co_id obj) obj (mr_byId r)"
  "mr_nextId (mr_replace old obj r) = mr_nextId r"
  "map_of (mr_byIdentifier (mr_replace old obj r))
     = (map_of (mr_byIdentifier r))(co_identifier old := None, co_identifier obj \<mapsto> obj)"
  by (simp_all add: mr_replace_def update_conv' delete_conv')

lemma mr_inv_replace:
  assumes "mr_inv r" "map_of (mr_byId r) (co_id obj) = Some old" "identifier_free obj r"
  shows "mr_inv (mr_replace old obj r)"
proof -
  have a: "agree co_id co_identifier (map_of (mr_byId r)) (map_of (mr_byIdentifier r))"
    using assms(1) by (simp add: mr_inv_def)
  have z: "co_id z = co_id obj" if "map_of (mr_byIdentifier r) (co_identifier obj) = Some z" for z
    using assms(3) that by (simp add: identifier_free_def)
  have "agree co_id co_identifier ((map_of (mr_byId r))(co_id obj \<mapsto> obj))
      ((map_of (mr_byIdentifier r))(co_identifier old := None, co_identifier obj \<mapsto> obj))"
    by (rule agree_replace [OF a assms(2) z])
  moreover have "0 < co_id obj \<and> co_id obj < mr_nextId r" using assms(1) map_of_keysD [OF assms(2)] by (simp add: mr_inv_def)
  ultimately show ?thesis using assms(1) unfolding mr_inv_def mr_replace_maps update_conv'
    by (auto simp: distinct_update)
qed

lemma mr_inv_remove:
  assumes "mr_inv r"
  shows "mr_inv (snd (MemoryRepository_remove i r))"
proof (cases "map_of (mr_byId r) i")
  case None
  then show ?thesis using assms by (simp add: MemoryRepository_remove_def)
next
  case (Some old)
  have "agree co_id co_identifier ((map_of (mr_byId r))(i := None)) ((map_of (mr_byIdentifier r))(co_identifier old := None))"
    using assms Some by (intro agree_remove) (simp_all add: mr_inv_def)
  then show ?thesis using assms unfolding mr_inv_def MemoryRepository_remove_def Some option.case snd_conv
      memory_repository.simps memory_repository.select_convs delete_conv' keys_delete
    by (auto simp: distinct_delete delete_conv')
qed

text \<open>The batch operations run the single ones in turn.\<close>

lemma snd_foldl: "(\<And>k r x. snd (F (k, r) x) = G r x) \<Longrightarrow> snd (foldl F (k, r) xs) = foldl G r xs"
proof (induction xs arbitrary: k r)
  case (Cons x xs)
  obtain k' r' where "F (k, r) x = (k', r')" by fastforce
  moreover from this have "r' = G r x" using Cons.prems [of k r x] by simp
  ultimately show ?case using Cons by simp
qed simp

lemma batch_eqs:
  "snd (batchInsert objs r) = foldl (\<lambda>r obj. snd (MemoryRepository_insert obj r)) r objs"
  "snd (batchUpdate objs r) = foldl (\<lambda>r obj. snd (MemoryRepository_update obj r)) r objs"
  unfolding batchInsert_def batchUpdate_def
  by (rule snd_foldl; simp add: MemoryRepository_insert_def MemoryRepository_update_def split_beta split: option.split)+

definition upsert_one :: "CelestialObjectModel \<Rightarrow> memory_repository \<Rightarrow> memory_repository" where
  "upsert_one obj r = snd (upsert [obj] r)"

lemma upsert_eq: "snd (upsert objs r) = foldl (\<lambda>r obj. upsert_one obj r) r objs"
  unfolding upsert_def by (rule snd_foldl) (simp add: upsert_one_def upsert_def split: option.split)

primrec all_free :: "(CelestialObjectModel \<Rightarrow> memory_repository \<Rightarrow> memory_repository) \<Rightarrow> CelestialObjectModel list
    \<Rightarrow> memory_repository \<Rightarrow> bool" where
  "all_free G [] r \<longleftrightarrow> True"
| "all_free G (x # xs) r \<longleftrightarrow> identifier_free x r \<and> all_free G xs (G x r)"

inductive mr_reachable :: "memory_repository \<Rightarrow> bool" where
  mr_new: "mr_reachable MemoryRepository_new"
| mr_insert: "mr_reachable r \<Longrightarrow> mr_reachable (snd (MemoryRepository_insert obj r))"
| mr_batchInsert: "mr_reachable r \<Longrightarrow> mr_reachable (snd (batchInsert objs r))"
| mr_update: "mr_reachable r \<Longrightarrow> identifier_free obj r \<Longrightarrow> mr_reachable (snd (MemoryRepository_update obj r))"
| mr_batchUpdate: "mr_reachable r \<Longrightarrow> all_free (\<lambda>x r. snd (MemoryRepository_update x r)) objs r
    \<Longrightarrow> mr_reachable (snd (batchUpdate objs r))"
| mr_upsert: "mr_reachable r \<Longrightarrow> all_free upsert_one objs r \<Longrightarrow> mr_reachable (snd (upsert objs r))"
| mr_remove: "mr_reachable r \<Longrightarrow> mr_reachable (snd (MemoryRepository_remove i r))"
| mr_clear: "mr_reachable r \<Longrightarrow> mr_reachable (MemoryRepository_clear r)"

lemma mr_inv_insert: "mr_inv r \<Longrightarrow> mr_inv (snd (MemoryRepository_insert obj r))"
  using mr_inv_store [of r obj] by (simp add: MemoryRepository_insert_def split_beta)

lemma mr_inv_update: "mr_inv r \<Longrightarrow> identifier_free obj r \<Longrightarrow> mr_inv (snd (MemoryRepository_update obj r))"
  using mr_inv_replace [of r obj] by (simp add: MemoryRepository_update_def split: option.split)

lemma mr_inv_upsert:
  assumes "mr_inv r" "identifier_free obj r"
  shows "mr_inv (upsert_one obj r)"
proof (cases "if co_id obj \<noteq> 0 then map_of (mr_byId r) (co_id obj) else None")
  case None
  have n: "map_of (mr_byId r) (co_id obj) = None"
    using None assms(1) by (auto simp: mr_inv_def map_of_None_keys split: if_splits)
  have "map_of (mr_byIdentifier r) (co_identifier obj) = None"
  proof (cases "map_of (mr_byIdentifier r) (co_identifier obj)")
    case (Some x)
    have a: "agree co_id co_identifier (map_of (mr_byId r)) (map_of (mr_byIdentifier r))"
      using assms(1) by (simp add: mr_inv_def)
    have "co_id x = co_id obj" using assms(2) Some by (simp add: identifier_free_def)
    then show ?thesis using agreeD(4) [OF a Some] n by simp
  qed
  then show ?thesis using mr_inv_store [OF assms(1)] None by (simp add: upsert_one_def upsert_def)
next
  case (Some old)
  then have "map_of (mr_byId r) (co_id obj) = Some old" by (simp split: if_splits)
  then show ?thesis using mr_inv_replace [OF assms(1) _ assms(2)] Some by (simp add: upsert_one_def upsert_def)
qed

lemma foldl_inv: "(\<And>r x. mr_inv r \<Longrightarrow> identifier_free x r \<Longrightarrow> mr_inv (G x r)) \<Longrightarrow> mr_inv r \<Longrightarrow> all_free G xs r
    \<Longrightarrow> mr_inv (foldl (\<lambda>r x. G x r) r xs)"
  by (induction xs arbitrary: r) auto

lemma mr_reachable_inv: "mr_reachable r \<Longrightarrow> mr_inv r"
proof (induction rule: mr_reachable.induct)
  case (mr_batchInsert r objs)
  have "mr_inv (foldl (\<lambda>r obj. snd (MemoryRepository_insert obj r)) r objs)" using mr_batchInsert.IH
    by (induction objs arbitrary: r) (auto intro: mr_inv_insert)
  then show ?case by (simp add: batch_eqs)
next
  case (mr_batchUpdate r objs)
  then show ?case unfolding batch_eqs by (intro foldl_inv mr_inv_update)
next
  case (mr_upsert r objs)
  then show ?case unfolding upsert_eq by (intro foldl_inv mr_inv_upsert)
next
  case (mr_clear r)
  then show ?case by (simp add: MemoryRepository_clear_def mr_inv_def agree_def)
qed (auto intro: mr_inv_new mr_inv_insert mr_inv_update mr_inv_remove)

section \<open>Properties\<close>



text \<open>An update to the identifier of another object makes that object unreachable by its identifier.\<close>

lemma update_steals:
  assumes "mr_inv r" "map_of (mr_byId r) (co_id obj) = Some old" "map_of (mr_byId r) i = Some other"
    "i \<noteq> co_id obj" "co_identifier other = co_identifier obj"
  shows "findById i (snd (MemoryRepository_update obj r)) = Some other
    \<and> findByIdentifier (co_identifier other) (snd (MemoryRepository_update obj r)) = Some obj"
  using assms(2-5) by (simp add: MemoryRepository_update_def findById_def findByIdentifier_def mr_replace_maps update_conv')

text \<open>
  The search by name is sound, and complete for prefixes. Every object a search returns is stored
  and its identifier or its Chinese name, in lower case, matches the pattern, in which a star stands
  for any sequence. When the star is used at the end only, the results are all matching objects in the
  order of the map, cut to the limit, or to one when the limit is zero.
\<close>

theorem searchByName_correct:
  assumes "p = toLower pattern" "p \<noteq> []"
  shows "(\<forall>x \<in> set (searchByName pattern limit r). x \<in> set (objects r)
        \<and> (glob CHR ''*'' None p (toLower (co_identifier x)) \<or> glob CHR ''*'' None p (toLower (co_chineseName x))))
    \<and> (CHR ''*'' \<notin> set (butlast p) \<longrightarrow> searchByName pattern limit r = take (max 1 (size_t limit))
        (filter (\<lambda>x. glob CHR ''*'' None p (toLower (co_identifier x)) \<or> glob CHR ''*'' None p (toLower (co_chineseName x))) (objects r)))"
proof -
  have e: "searchByName pattern limit r = take (max 1 (size_t limit)) (filter (\<lambda>x. matchesPattern (toLower (co_identifier x)) p
      \<or> matchesPattern (toLower (co_chineseName x)) p) (objects r))"
    by (simp add: searchByName_def collectUpTo_take assms(1) Let_def)
  have "x \<in> set (objects r) \<and> (glob CHR ''*'' None p (toLower (co_identifier x)) \<or> glob CHR ''*'' None p (toLower (co_chineseName x)))"
    if "x \<in> set (searchByName pattern limit r)" for x
  proof -
    have "x \<in> set (filter (\<lambda>x. matchesPattern (toLower (co_identifier x)) p \<or> matchesPattern (toLower (co_chineseName x)) p) (objects r))"
      using that unfolding e by (rule in_set_takeD)
    then show ?thesis using star.sound [OF assms(2)] by auto
  qed
  moreover have "searchByName pattern limit r = take (max 1 (size_t limit))
        (filter (\<lambda>x. glob CHR ''*'' None p (toLower (co_identifier x)) \<or> glob CHR ''*'' None p (toLower (co_chineseName x))) (objects r))"
    if "CHR ''*'' \<notin> set (butlast p)"
    unfolding e star.exact [OF assms(2) that] ..
  ultimately show ?thesis by blast
qed

theorem searchByName_correct_witness:
  "searchByName ''m3*'' 5 \<lparr>mr_byId = [(1, CelestialObjectModel_new\<lparr>co_identifier := ''M31''\<rparr>)], mr_byIdentifier = [], mr_nextId = 2\<rparr>
     = [CelestialObjectModel_new\<lparr>co_identifier := ''M31''\<rparr>]"
proof -
  let ?r = "\<lparr>mr_byId = [(1, CelestialObjectModel_new\<lparr>co_identifier := ''M31''\<rparr>)], mr_byIdentifier = [], mr_nextId = 2\<rparr>"
  have l: "''m3*'' = toLower ''m3*''" by code_simp
  have m: "toLower ''M31'' = ''m31''" by code_simp
  have n: "size_t 5 = 5" by code_simp
  have p: "''m3*'' \<noteq> []" "CHR ''*'' \<notin> set (butlast ''m3*'')" by simp_all
  note e = mp [OF conjunct2 [OF searchByName_correct [OF l p(1), of 5 ?r]] p(2)]
  have "glob CHR ''*'' None ''m3*'' ''m31''" by code_simp
  then show ?thesis unfolding e n by (simp add: objects_def m del: glob.simps)
qed

text \<open>
  The distance of two positions is their angle on the sphere. For declinations between the
  poles the result lies between 0 and 180 degrees and its cosine is that of the spherical law of
  cosines; the square root and the arc sine are never taken outside their domain.
\<close>

theorem haversine_great_circle:
  assumes "-90 \<le> dec1" "dec1 \<le> 90" "-90 \<le> dec2" "dec2 \<le> 90"
  shows "0 \<le> haversineDistance ra1 dec1 ra2 dec2 \<and> haversineDistance ra1 dec1 ra2 dec2 \<le> 180
    \<and> cos (haversineDistance ra1 dec1 ra2 dec2 * (pi / 180))
        = sin (dec1 * (pi / 180)) * sin (dec2 * (pi / 180))
          + cos (dec1 * (pi / 180)) * cos (dec2 * (pi / 180)) * cos ((ra2 - ra1) * (pi / 180))"
proof -
  let ?a = "hav (dec1 * (pi / 180)) (dec2 * (pi / 180)) ((ra2 - ra1) * (pi / 180))"
  have r: "0 \<le> ?a" "?a \<le> 1"
    using hav_range [OF cos_declination [OF assms(1,2)] cos_declination [OF assms(3,4)]] by blast+
  have "0 \<le> arcsin (sqrt ?a)" "arcsin (sqrt ?a) \<le> pi / 2" using half_angle_range [OF r] by blast+
  then have "0 * (pi / 180) \<le> haversineDistance ra1 dec1 ra2 dec2 * (pi / 180)"
    "haversineDistance ra1 dec1 ra2 dec2 * (pi / 180) \<le> 180 * (pi / 180)"
    unfolding haversine_hav by simp_all
  then have "0 \<le> haversineDistance ra1 dec1 ra2 dec2 \<and> haversineDistance ra1 dec1 ra2 dec2 \<le> 180"
    by (simp only: mult_le_cancel_right_pos [of "pi / 180"] pi_gt_zero divide_pos_pos zero_less_numeral)
  then show ?thesis unfolding haversine_hav cos_twice_arcsin_sqrt [OF r] hav_cos by blast
qed

theorem haversine_great_circle_witness: "haversineDistance 0 0 90 0 = 90"
proof -
  let ?d = "haversineDistance 0 0 90 0"
  have "0 \<le> ?d \<and> ?d \<le> 180 \<and> cos (?d * (pi / 180)) = cos (pi / 2)"
    using haversine_great_circle [of 0 0 0 90] by simp
  moreover from this have "0 \<le> ?d * (pi / 180)" "?d * (pi / 180) \<le> 180 * (pi / 180)" by (auto intro!: mult_right_mono)
  ultimately have "?d * (pi / 180) = pi / 2" using cos_inj_pi [of "?d * (pi / 180)" "pi / 2"] by simp
  then show ?thesis by simp
qed

end
