(* ===== verification/Cached_Repository.thy ===== *)
theory Cached_Repository
  imports Memory_Repository
begin

text \<open>
  The caching repository, \<^verbatim>\<open>src/src/target/repository/cached_repository.cpp\<close>, around the in-memory repository: objects found or written
  are kept in two caches, by number and by identifier. The caches are \<^verbatim>\<open>ThreadSafeLRUCache\<close> of the atom library, a parameter:
  their operations are the record \<open>lru\<close>, and what the repository relies on is \<open>lossy\<close>: a cache may forget
  an entry at any time (capacity, age), and otherwise returns what was put last under the key. Operations are modelled one at a
  time; logging is left out.
\<close>

section \<open>Caches\<close>

record ('c, 'k, 'v) lru =
  lru_get :: "'k \<Rightarrow> 'c \<Rightarrow> 'v option \<times> 'c"
  lru_put :: "'k \<Rightarrow> 'v \<Rightarrow> int option \<Rightarrow> 'c \<Rightarrow> 'c"
  lru_erase :: "'k \<Rightarrow> 'c \<Rightarrow> 'c"
  lru_clear :: "'c \<Rightarrow> 'c"
  lru_resize :: "nat \<Rightarrow> 'c \<Rightarrow> 'c"
  lru_size :: "'c \<Rightarrow> nat"

definition lossy :: "('c, 'k, 'v) lru \<Rightarrow> ('c \<Rightarrow> 'k \<rightharpoonup> 'v) \<Rightarrow> bool" where
  "lossy api view \<longleftrightarrow>
     (\<forall>k c. fst (lru_get api k c) \<in> {None, view c k} \<and> view (snd (lru_get api k c)) \<subseteq>\<^sub>m view c)
     \<and> (\<forall>k v t c. view (lru_put api k v t c) \<subseteq>\<^sub>m (view c)(k \<mapsto> v))
     \<and> (\<forall>k c. view (lru_erase api k c) \<subseteq>\<^sub>m (view c)(k := None))
     \<and> (\<forall>c. view (lru_clear api c) = Map.empty)
     \<and> (\<forall>n c. view (lru_resize api n c) \<subseteq>\<^sub>m view c)"

record ('c, 'd) caches =
  ch_id :: "('c, int, CelestialObjectModel) lru"
  ch_identifier :: "('d, string, CelestialObjectModel) lru"

section \<open>Operations\<close>

record ('c, 'd) cached_repository =
  cr_inner :: memory_repository
  cr_idCache :: 'c
  cr_identifierCache :: 'd
  cr_cacheTTL :: "int option"
  cr_cacheHits :: nat
  cr_cacheMisses :: nat

definition CachedRepository_new :: "memory_repository \<Rightarrow> 'c \<Rightarrow> 'd \<Rightarrow> ('c, 'd) cached_repository" where
  "CachedRepository_new inner c d = \<lparr>cr_inner = inner, cr_idCache = c, cr_identifierCache = d, cr_cacheTTL = None,
     cr_cacheHits = 0, cr_cacheMisses = 0\<rparr>"

definition updateCacheEntry :: "('c, 'd) caches \<Rightarrow> CelestialObjectModel \<Rightarrow> ('c, 'd) cached_repository \<Rightarrow> ('c, 'd) cached_repository" where
  "updateCacheEntry ch obj s =
     s\<lparr>cr_idCache := lru_put (ch_id ch) (co_id obj) obj (cr_cacheTTL s) (cr_idCache s),
       cr_identifierCache := lru_put (ch_identifier ch) (co_identifier obj) obj (cr_cacheTTL s) (cr_identifierCache s)\<rparr>"

definition removeFromCache :: "('c, 'd) caches \<Rightarrow> int \<Rightarrow> string \<Rightarrow> ('c, 'd) cached_repository \<Rightarrow> ('c, 'd) cached_repository" where
  "removeFromCache ch i n s =
     s\<lparr>cr_idCache := lru_erase (ch_id ch) i (cr_idCache s), cr_identifierCache := lru_erase (ch_identifier ch) n (cr_identifierCache s)\<rparr>"

definition CachedRepository_clearCache :: "('c, 'd) caches \<Rightarrow> ('c, 'd) cached_repository \<Rightarrow> ('c, 'd) cached_repository" where
  "CachedRepository_clearCache ch s =
     s\<lparr>cr_idCache := lru_clear (ch_id ch) (cr_idCache s), cr_identifierCache := lru_clear (ch_identifier ch) (cr_identifierCache s)\<rparr>"

definition CachedRepository_insert ::
  "('c, 'd) caches \<Rightarrow> CelestialObjectModel \<Rightarrow> ('c, 'd) cached_repository \<Rightarrow> (string + int) \<times> ('c, 'd) cached_repository" where
  "CachedRepository_insert ch obj s =
     (let (result, r) = MemoryRepository_insert obj (cr_inner s); s = s\<lparr>cr_inner := r\<rparr>
      in case result of
           Inr i \<Rightarrow> (result, updateCacheEntry ch (obj\<lparr>co_id := i\<rparr>) s)
         | Inl _ \<Rightarrow> (result, s))"

definition CachedRepository_update ::
  "('c, 'd) caches \<Rightarrow> CelestialObjectModel \<Rightarrow> ('c, 'd) cached_repository \<Rightarrow> (string + unit) \<times> ('c, 'd) cached_repository" where
  "CachedRepository_update ch obj s =
     (let (result, r) = MemoryRepository_update obj (cr_inner s); s = s\<lparr>cr_inner := r\<rparr>
      in case result of
           Inr _ \<Rightarrow> (result, updateCacheEntry ch obj s)
         | Inl _ \<Rightarrow> (result, removeFromCache ch (co_id obj) (co_identifier obj) s))"

definition CachedRepository_remove ::
  "('c, 'd) caches \<Rightarrow> int \<Rightarrow> ('c, 'd) cached_repository \<Rightarrow> bool \<times> ('c, 'd) cached_repository" where
  "CachedRepository_remove ch i s =
     (let (result, r) = MemoryRepository_remove i (cr_inner s); s = s\<lparr>cr_inner := r\<rparr>
      in if result
         then (let (cached, c) = lru_get (ch_id ch) i (cr_idCache s); s = s\<lparr>cr_idCache := c\<rparr>
               in case cached of
                    Some x \<Rightarrow> (result, removeFromCache ch i (co_identifier x) s)
                  | None \<Rightarrow> (result, s\<lparr>cr_idCache := lru_erase (ch_id ch) i (cr_idCache s)\<rparr>))
         else (result, s))"

definition CachedRepository_findById ::
  "('c, 'd) caches \<Rightarrow> int \<Rightarrow> ('c, 'd) cached_repository \<Rightarrow> CelestialObjectModel option \<times> ('c, 'd) cached_repository" where
  "CachedRepository_findById ch i s =
     (let (cached, c) = lru_get (ch_id ch) i (cr_idCache s); s = s\<lparr>cr_idCache := c\<rparr>
      in case cached of
           Some x \<Rightarrow> (Some x, s\<lparr>cr_cacheHits := cr_cacheHits s + 1\<rparr>)
         | None \<Rightarrow>
           (let s = s\<lparr>cr_cacheMisses := cr_cacheMisses s + 1\<rparr>; result = findById i (cr_inner s)
            in case result of Some x \<Rightarrow> (result, updateCacheEntry ch x s) | None \<Rightarrow> (result, s)))"

definition CachedRepository_findByIdentifier ::
  "('c, 'd) caches \<Rightarrow> string \<Rightarrow> ('c, 'd) cached_repository \<Rightarrow> CelestialObjectModel option \<times> ('c, 'd) cached_repository" where
  "CachedRepository_findByIdentifier ch n s =
     (let (cached, d) = lru_get (ch_identifier ch) n (cr_identifierCache s); s = s\<lparr>cr_identifierCache := d\<rparr>
      in case cached of
           Some x \<Rightarrow> (Some x, s\<lparr>cr_cacheHits := cr_cacheHits s + 1\<rparr>)
         | None \<Rightarrow>
           (let s = s\<lparr>cr_cacheMisses := cr_cacheMisses s + 1\<rparr>; result = findByIdentifier n (cr_inner s)
            in case result of Some x \<Rightarrow> (result, updateCacheEntry ch x s) | None \<Rightarrow> (result, s)))"

definition CachedRepository_batchInsert ::
  "('c, 'd) caches \<Rightarrow> CelestialObjectModel list \<Rightarrow> ('c, 'd) cached_repository \<Rightarrow> nat \<times> ('c, 'd) cached_repository" where
  "CachedRepository_batchInsert ch objs s =
     (let (k, r) = batchInsert objs (cr_inner s) in (k, CachedRepository_clearCache ch (s\<lparr>cr_inner := r\<rparr>)))"

definition CachedRepository_batchUpdate ::
  "('c, 'd) caches \<Rightarrow> CelestialObjectModel list \<Rightarrow> ('c, 'd) cached_repository \<Rightarrow> nat \<times> ('c, 'd) cached_repository" where
  "CachedRepository_batchUpdate ch objs s =
     (let (k, r) = batchUpdate objs (cr_inner s)
      in (k, foldl (\<lambda>s obj. updateCacheEntry ch obj s) (s\<lparr>cr_inner := r\<rparr>) objs))"

definition CachedRepository_upsert ::
  "('c, 'd) caches \<Rightarrow> CelestialObjectModel list \<Rightarrow> ('c, 'd) cached_repository \<Rightarrow> nat \<times> ('c, 'd) cached_repository" where
  "CachedRepository_upsert ch objs s =
     (let (k, r) = upsert objs (cr_inner s)
      in (k, foldl (\<lambda>s obj. updateCacheEntry ch obj s) (s\<lparr>cr_inner := r\<rparr>) objs))"

text \<open>The searches count a miss and ask the inner repository.\<close>

definition uncached_query :: "(memory_repository \<Rightarrow> 'a) \<Rightarrow> ('c, 'd) cached_repository \<Rightarrow> 'a \<times> ('c, 'd) cached_repository" where
  "uncached_query query s = (query (cr_inner s), s\<lparr>cr_cacheMisses := cr_cacheMisses s + 1\<rparr>)"

definition CachedRepository_searchByName ::
  "string \<Rightarrow> int \<Rightarrow> ('c, 'd) cached_repository \<Rightarrow> CelestialObjectModel list \<times> ('c, 'd) cached_repository" where
  "CachedRepository_searchByName pattern limit = uncached_query (searchByName pattern limit)"

definition CachedRepository_fuzzySearch ::
  "string \<Rightarrow> int \<Rightarrow> int \<Rightarrow> ('c, 'd) cached_repository \<Rightarrow> (CelestialObjectModel \<times> int) list \<times> ('c, 'd) cached_repository" where
  "CachedRepository_fuzzySearch name tolerance limit = uncached_query (fuzzySearch name tolerance limit)"

definition CachedRepository_search ::
  "CelestialSearchFilter \<Rightarrow> ('c, 'd) cached_repository \<Rightarrow> CelestialObjectModel list option \<times> ('c, 'd) cached_repository" where
  "CachedRepository_search f = uncached_query (MemoryRepository_search f)"

definition CachedRepository_autocomplete ::
  "string \<Rightarrow> int \<Rightarrow> ('c, 'd) cached_repository \<Rightarrow> string list \<times> ('c, 'd) cached_repository" where
  "CachedRepository_autocomplete pre limit = uncached_query (MemoryRepository_autocomplete pre limit)"

definition CachedRepository_searchByCoordinates ::
  "real \<Rightarrow> real \<Rightarrow> real \<Rightarrow> int \<Rightarrow> ('c, 'd) cached_repository \<Rightarrow> CelestialObjectModel list \<times> ('c, 'd) cached_repository" where
  "CachedRepository_searchByCoordinates ra dec radius limit = uncached_query (searchByCoordinates ra dec radius limit)"

definition CachedRepository_getByType ::
  "string \<Rightarrow> int \<Rightarrow> ('c, 'd) cached_repository \<Rightarrow> CelestialObjectModel list \<times> ('c, 'd) cached_repository" where
  "CachedRepository_getByType ty limit = uncached_query (getByType ty limit)"

definition CachedRepository_getByMagnitudeRange ::
  "real \<Rightarrow> real \<Rightarrow> int \<Rightarrow> ('c, 'd) cached_repository \<Rightarrow> CelestialObjectModel list \<times> ('c, 'd) cached_repository" where
  "CachedRepository_getByMagnitudeRange minMag maxMag limit = uncached_query (getByMagnitudeRange minMag maxMag limit)"

definition CachedRepository_count :: "('c, 'd) cached_repository \<Rightarrow> nat" where
  "CachedRepository_count s = MemoryRepository_count (cr_inner s)"

definition CachedRepository_countByType :: "('c, 'd) cached_repository \<Rightarrow> nat umap" where
  "CachedRepository_countByType s = countByType (cr_inner s)"

definition invalidateById :: "('c, 'd) caches \<Rightarrow> int \<Rightarrow> ('c, 'd) cached_repository \<Rightarrow> ('c, 'd) cached_repository" where
  "invalidateById ch i s = s\<lparr>cr_idCache := lru_erase (ch_id ch) i (cr_idCache s)\<rparr>"

definition invalidateByIdentifier :: "('c, 'd) caches \<Rightarrow> string \<Rightarrow> ('c, 'd) cached_repository \<Rightarrow> ('c, 'd) cached_repository" where
  "invalidateByIdentifier ch n s = s\<lparr>cr_identifierCache := lru_erase (ch_identifier ch) n (cr_identifierCache s)\<rparr>"

definition resizeCache :: "('c, 'd) caches \<Rightarrow> nat \<Rightarrow> ('c, 'd) cached_repository \<Rightarrow> ('c, 'd) cached_repository" where
  "resizeCache ch n s =
     s\<lparr>cr_idCache := lru_resize (ch_id ch) n (cr_idCache s), cr_identifierCache := lru_resize (ch_identifier ch) n (cr_identifierCache s)\<rparr>"

definition setCacheTTL :: "int option \<Rightarrow> ('c, 'd) cached_repository \<Rightarrow> ('c, 'd) cached_repository" where
  "setCacheTTL ttl s = s\<lparr>cr_cacheTTL := ttl\<rparr>"

record RepositoryCacheStats =
  rcs_hitCount :: nat
  rcs_missCount :: nat
  rcs_currentSize :: nat
  rcs_maxSize :: nat
  rcs_hitRate :: real

definition getHitRate :: "nat \<Rightarrow> nat \<Rightarrow> real" where
  "getHitRate hits misses = (if hits + misses = 0 then 0 else real hits / real (hits + misses) * 100)"

definition getCacheStats :: "('c, 'd) caches \<Rightarrow> ('c, 'd) cached_repository \<Rightarrow> RepositoryCacheStats" where
  "getCacheStats ch s = \<lparr>rcs_hitCount = cr_cacheHits s, rcs_missCount = cr_cacheMisses s,
     rcs_currentSize = lru_size (ch_id ch) (cr_idCache s), rcs_maxSize = 0,
     rcs_hitRate = getHitRate (cr_cacheHits s) (cr_cacheMisses s)\<rparr>"

section \<open>Coherence\<close>

text \<open>Both caches hold only what the inner repository would answer.\<close>

definition coherent :: "('c \<Rightarrow> int \<rightharpoonup> CelestialObjectModel) \<Rightarrow> ('d \<Rightarrow> string \<rightharpoonup> CelestialObjectModel)
    \<Rightarrow> ('c, 'd) cached_repository \<Rightarrow> bool" where
  "coherent vi vn s \<longleftrightarrow> mr_inv (cr_inner s) \<and> vi (cr_idCache s) \<subseteq>\<^sub>m map_of (mr_byId (cr_inner s))
     \<and> vn (cr_identifierCache s) \<subseteq>\<^sub>m map_of (mr_byIdentifier (cr_inner s))"

definition lossy_caches :: "('c, 'd) caches \<Rightarrow> ('c \<Rightarrow> int \<rightharpoonup> CelestialObjectModel) \<Rightarrow> ('d \<Rightarrow> string \<rightharpoonup> CelestialObjectModel) \<Rightarrow> bool" where
  "lossy_caches ch vi vn \<longleftrightarrow> lossy (ch_id ch) vi \<and> lossy (ch_identifier ch) vn"

lemma lossyD:
  assumes "lossy api view"
  shows "fst (lru_get api k c) = Some x \<Longrightarrow> view c k = Some x" "view (snd (lru_get api k c)) \<subseteq>\<^sub>m view c"
    "view (lru_put api k v t c) \<subseteq>\<^sub>m (view c)(k \<mapsto> v)" "view (lru_erase api k c) \<subseteq>\<^sub>m (view c)(k := None)"
    "view (lru_clear api c) = Map.empty" "view (lru_resize api n c) \<subseteq>\<^sub>m view c"
  using assms by (auto simp: lossy_def) (metis insert_iff option.distinct(1) singletonD)

lemma map_le_upd: "f \<subseteq>\<^sub>m g \<Longrightarrow> f(k := v) \<subseteq>\<^sub>m g(k := v)"
  by (auto simp: map_le_def)

text \<open>Caches below two maps, and what writing and forgetting do to the bound.\<close>

definition below :: "('c \<Rightarrow> int \<rightharpoonup> CelestialObjectModel) \<Rightarrow> ('d \<Rightarrow> string \<rightharpoonup> CelestialObjectModel)
    \<Rightarrow> (int \<rightharpoonup> CelestialObjectModel) \<Rightarrow> (string \<rightharpoonup> CelestialObjectModel) \<Rightarrow> ('c, 'd) cached_repository \<Rightarrow> bool" where
  "below vi vn f g s \<longleftrightarrow> vi (cr_idCache s) \<subseteq>\<^sub>m f \<and> vn (cr_identifierCache s) \<subseteq>\<^sub>m g"

lemma coherent_below:
  "coherent vi vn s \<longleftrightarrow> mr_inv (cr_inner s)
     \<and> below vi vn (map_of (mr_byId (cr_inner s))) (map_of (mr_byIdentifier (cr_inner s))) s"
  by (simp add: coherent_def below_def)

lemma below_inner [simp]: "below vi vn f g (s\<lparr>cr_inner := r\<rparr>) \<longleftrightarrow> below vi vn f g s"
  "below vi vn f g (s\<lparr>cr_cacheHits := k\<rparr>) \<longleftrightarrow> below vi vn f g s" "below vi vn f g (s\<lparr>cr_cacheMisses := k\<rparr>) \<longleftrightarrow> below vi vn f g s"
  "below vi vn f g (s\<lparr>cr_cacheTTL := t\<rparr>) \<longleftrightarrow> below vi vn f g s"
  by (simp_all add: below_def)

lemma below_put:
  assumes "lossy_caches ch vi vn" "below vi vn f g s"
  shows "below vi vn (f(co_id x \<mapsto> x)) (g(co_identifier x \<mapsto> x)) (updateCacheEntry ch x s)"
proof -
  have l: "lossy (ch_id ch) vi" "lossy (ch_identifier ch) vn" using assms(1) by (simp_all add: lossy_caches_def)
  have b: "vi (cr_idCache s) \<subseteq>\<^sub>m f" "vn (cr_identifierCache s) \<subseteq>\<^sub>m g" using assms(2) by (simp_all add: below_def)
  show ?thesis
    using map_le_trans [OF lossyD(3) [OF l(1)] map_le_upd [OF b(1)]] map_le_trans [OF lossyD(3) [OF l(2)] map_le_upd [OF b(2)]]
    by (simp add: below_def updateCacheEntry_def)
qed

lemma below_puts:
  assumes "lossy_caches ch vi vn"
  shows "below vi vn f g s \<Longrightarrow> below vi vn (foldl (\<lambda>m x. m(co_id x \<mapsto> x)) f objs) (foldl (\<lambda>m x. m(co_identifier x \<mapsto> x)) g objs)
    (foldl (\<lambda>s x. updateCacheEntry ch x s) s objs)"
  by (induction objs arbitrary: f g s) (auto intro: below_put [OF assms])

lemma below_erase:
  assumes "lossy_caches ch vi vn" "below vi vn f g s"
  shows "below vi vn (f(i := None)) (g(n := None)) (removeFromCache ch i n s)"
proof -
  have l: "lossy (ch_id ch) vi" "lossy (ch_identifier ch) vn" using assms(1) by (simp_all add: lossy_caches_def)
  have b: "vi (cr_idCache s) \<subseteq>\<^sub>m f" "vn (cr_identifierCache s) \<subseteq>\<^sub>m g" using assms(2) by (simp_all add: below_def)
  show ?thesis
    using map_le_trans [OF lossyD(4) [OF l(1)] map_le_upd [OF b(1)]] map_le_trans [OF lossyD(4) [OF l(2)] map_le_upd [OF b(2)]]
    by (simp add: below_def removeFromCache_def)
qed

lemma below_mono: "below vi vn f g s \<Longrightarrow> f \<subseteq>\<^sub>m f' \<Longrightarrow> g \<subseteq>\<^sub>m g' \<Longrightarrow> below vi vn f' g' s"
  by (auto simp: below_def intro: map_le_trans)

lemma below_shrink:
  assumes "below vi vn f g s" "vi (cr_idCache s') \<subseteq>\<^sub>m vi (cr_idCache s)" "vn (cr_identifierCache s') \<subseteq>\<^sub>m vn (cr_identifierCache s)"
  shows "below vi vn f g s'"
  using assms(1) map_le_trans [OF assms(2)] map_le_trans [OF assms(3)] by (simp add: below_def)

lemma below_get:
  assumes "lossy_caches ch vi vn" "below vi vn f g s"
  shows "below vi vn f g (s\<lparr>cr_idCache := snd (lru_get (ch_id ch) i (cr_idCache s))\<rparr>)"
    "below vi vn f g (s\<lparr>cr_identifierCache := snd (lru_get (ch_identifier ch) n (cr_identifierCache s))\<rparr>)"
    "fst (lru_get (ch_id ch) i (cr_idCache s)) = Some x \<Longrightarrow> f i = Some x"
    "fst (lru_get (ch_identifier ch) n (cr_identifierCache s)) = Some x \<Longrightarrow> g n = Some x"
proof -
  have l: "lossy (ch_id ch) vi" "lossy (ch_identifier ch) vn" using assms(1) by (simp_all add: lossy_caches_def)
  show "below vi vn f g (s\<lparr>cr_idCache := snd (lru_get (ch_id ch) i (cr_idCache s))\<rparr>)"
    "below vi vn f g (s\<lparr>cr_identifierCache := snd (lru_get (ch_identifier ch) n (cr_identifierCache s))\<rparr>)"
    using lossyD(2) [OF l(1)] lossyD(2) [OF l(2)] by (auto intro!: below_shrink [OF assms(2)])
  show "fst (lru_get (ch_id ch) i (cr_idCache s)) = Some x \<Longrightarrow> f i = Some x"
    "fst (lru_get (ch_identifier ch) n (cr_identifierCache s)) = Some x \<Longrightarrow> g n = Some x"
    using assms(2) lossyD(1) [OF l(1)] lossyD(1) [OF l(2)] by (auto simp: below_def map_le_def dom_def)
qed

lemma map_le_del: "f(k := None) \<subseteq>\<^sub>m f"
  by (auto simp: map_le_def)

lemma below_forget:
  assumes "lossy_caches ch vi vn" "below vi vn f g s"
  shows "below vi vn f g (invalidateById ch i s)" "below vi vn f g (invalidateByIdentifier ch n s)"
    "below vi vn f g (CachedRepository_clearCache ch s)" "below vi vn f g (resizeCache ch k s)" "below vi vn f g (removeFromCache ch i n s)"
proof -
  have l: "lossy (ch_id ch) vi" "lossy (ch_identifier ch) vn" using assms(1) by (simp_all add: lossy_caches_def)
  note D = lossyD(4-6) [OF l(1)] lossyD(4-6) [OF l(2)]
  note E = map_le_trans [OF lossyD(4) [OF l(1)] map_le_del] map_le_trans [OF lossyD(4) [OF l(2)] map_le_del]
  show "below vi vn f g (invalidateById ch i s)" "below vi vn f g (invalidateByIdentifier ch n s)"
    "below vi vn f g (CachedRepository_clearCache ch s)" "below vi vn f g (resizeCache ch k s)" "below vi vn f g (removeFromCache ch i n s)"
    using D E by (auto intro!: below_shrink [OF assms(2)] simp: invalidateById_def invalidateByIdentifier_def CachedRepository_clearCache_def
        resizeCache_def removeFromCache_def)
qed

section \<open>What the operations do to the inner maps\<close>

lemma mr_inv_agree': "mr_inv r \<Longrightarrow> agree co_id co_identifier (map_of (mr_byId r)) (map_of (mr_byIdentifier r))"
  by (simp add: mr_inv_def)

text \<open>An object is stored, and under the identifier it has.\<close>

definition renames_not :: "CelestialObjectModel \<Rightarrow> memory_repository \<Rightarrow> bool" where
  "renames_not obj r \<longleftrightarrow> (\<forall>old. findById (co_id obj) r = Some old \<longrightarrow> co_identifier old = co_identifier obj)"

definition stored :: "CelestialObjectModel \<Rightarrow> memory_repository \<Rightarrow> bool" where
  "stored obj r \<longleftrightarrow> findById (co_id obj) r \<noteq> None \<and> renames_not obj r"

lemma renames_not_free:
  assumes "mr_inv r" "map_of (mr_byId r) (co_id obj) = Some old" "co_identifier old = co_identifier obj"
  shows "identifier_free obj r"
proof -
  have "map_of (mr_byIdentifier r) (co_identifier obj) = Some old"
    using agreeD(2) [OF mr_inv_agree' [OF assms(1)] assms(2)] assms(3) by simp
  moreover have "co_id old = co_id obj" using agreeD(1) [OF mr_inv_agree' [OF assms(1)] assms(2)] .
  ultimately show ?thesis by (simp add: identifier_free_def)
qed

lemma replace_stored:
  assumes "mr_inv r" "map_of (mr_byId r) (co_id obj) = Some old" "co_identifier old = co_identifier obj"
  shows "mr_inv (mr_replace old obj r)" "map_of (mr_byId (mr_replace old obj r)) = (map_of (mr_byId r))(co_id obj \<mapsto> obj)"
    "map_of (mr_byIdentifier (mr_replace old obj r)) = (map_of (mr_byIdentifier r))(co_identifier obj \<mapsto> obj)"
  using mr_inv_replace [OF assms(1,2) renames_not_free [OF assms]] assms(3)
  by (simp_all add: mr_replace_maps update_conv')

lemma update_stored:
  assumes "mr_inv r" "stored obj r"
  shows "mr_inv (snd (MemoryRepository_update obj r))"
    "map_of (mr_byId (snd (MemoryRepository_update obj r))) = (map_of (mr_byId r))(co_id obj \<mapsto> obj)"
    "map_of (mr_byIdentifier (snd (MemoryRepository_update obj r))) = (map_of (mr_byIdentifier r))(co_identifier obj \<mapsto> obj)"
    "upsert_one obj r = snd (MemoryRepository_update obj r)"
proof -
  obtain old where o: "map_of (mr_byId r) (co_id obj) = Some old" "co_identifier old = co_identifier obj"
    using assms(2) by (auto simp: stored_def renames_not_def findById_def)
  have "co_id obj \<noteq> 0" using assms(1) map_of_keysD [OF o(1)] by (auto simp: mr_inv_def)
  then show "upsert_one obj r = snd (MemoryRepository_update obj r)"
    using o(1) by (simp add: upsert_one_def upsert_def MemoryRepository_update_def)
  show "mr_inv (snd (MemoryRepository_update obj r))"
    "map_of (mr_byId (snd (MemoryRepository_update obj r))) = (map_of (mr_byId r))(co_id obj \<mapsto> obj)"
    "map_of (mr_byIdentifier (snd (MemoryRepository_update obj r))) = (map_of (mr_byIdentifier r))(co_identifier obj \<mapsto> obj)"
    using replace_stored [OF assms(1) o] o(1) by (simp_all add: MemoryRepository_update_def)
qed

lemma stored_update:
  assumes "mr_inv r" "stored x r" "stored y r"
  shows "stored y (snd (MemoryRepository_update x r))"
  using assms(2,3) update_stored(2) [OF assms(1,2)] by (auto simp: stored_def renames_not_def findById_def)

lemma updates_stored:
  assumes "mr_inv r" "\<forall>x \<in> set objs. stored x r"
  defines "r' \<equiv> foldl (\<lambda>r x. snd (MemoryRepository_update x r)) r objs"
  shows "mr_inv r' \<and> map_of (mr_byId r') = foldl (\<lambda>m x. m(co_id x \<mapsto> x)) (map_of (mr_byId r)) objs
    \<and> map_of (mr_byIdentifier r') = foldl (\<lambda>m x. m(co_identifier x \<mapsto> x)) (map_of (mr_byIdentifier r)) objs
    \<and> foldl (\<lambda>r x. upsert_one x r) r objs = r'"
  using assms(1,2) unfolding r'_def
proof (induction objs arbitrary: r)
  case (Cons x objs)
  have "stored x r" "\<forall>y \<in> set objs. stored y (snd (MemoryRepository_update x r))" using Cons.prems stored_update by auto
  then show ?case using Cons.IH [of "snd (MemoryRepository_update x r)"] update_stored [OF Cons.prems(1), of x] by simp
qed simp

section \<open>Coherent histories\<close>

text \<open>
  The histories in which no operation meets one of the gaps of the code: updates keep the identifier of an object; a removed object
  is in the first cache; batch updates and upserts write objects that are stored.
\<close>

inductive cr_reachable :: "('c, 'd) caches \<Rightarrow> 'c \<Rightarrow> 'd \<Rightarrow> ('c, 'd) cached_repository \<Rightarrow> bool" for ch c0 d0 where
  cr_new: "mr_reachable r \<Longrightarrow> cr_reachable ch c0 d0 (CachedRepository_new r c0 d0)"
| cr_insert: "cr_reachable ch c0 d0 s \<Longrightarrow> cr_reachable ch c0 d0 (snd (CachedRepository_insert ch obj s))"
| cr_update: "cr_reachable ch c0 d0 s \<Longrightarrow> renames_not obj (cr_inner s) \<Longrightarrow> cr_reachable ch c0 d0 (snd (CachedRepository_update ch obj s))"
| cr_remove: "cr_reachable ch c0 d0 s \<Longrightarrow> fst (lru_get (ch_id ch) i (cr_idCache s)) \<noteq> None
    \<Longrightarrow> cr_reachable ch c0 d0 (snd (CachedRepository_remove ch i s))"
| cr_findById: "cr_reachable ch c0 d0 s \<Longrightarrow> cr_reachable ch c0 d0 (snd (CachedRepository_findById ch i s))"
| cr_findByIdentifier: "cr_reachable ch c0 d0 s \<Longrightarrow> cr_reachable ch c0 d0 (snd (CachedRepository_findByIdentifier ch n s))"
| cr_batchInsert: "cr_reachable ch c0 d0 s \<Longrightarrow> cr_reachable ch c0 d0 (snd (CachedRepository_batchInsert ch objs s))"
| cr_batchUpdate: "cr_reachable ch c0 d0 s \<Longrightarrow> \<forall>x \<in> set objs. stored x (cr_inner s)
    \<Longrightarrow> cr_reachable ch c0 d0 (snd (CachedRepository_batchUpdate ch objs s))"
| cr_upsert: "cr_reachable ch c0 d0 s \<Longrightarrow> \<forall>x \<in> set objs. stored x (cr_inner s)
    \<Longrightarrow> cr_reachable ch c0 d0 (snd (CachedRepository_upsert ch objs s))"
| cr_query: "cr_reachable ch c0 d0 s \<Longrightarrow> cr_reachable ch c0 d0 (s\<lparr>cr_cacheMisses := cr_cacheMisses s + 1\<rparr>)"
| cr_invalidateById: "cr_reachable ch c0 d0 s \<Longrightarrow> cr_reachable ch c0 d0 (invalidateById ch i s)"
| cr_invalidateByIdentifier: "cr_reachable ch c0 d0 s \<Longrightarrow> cr_reachable ch c0 d0 (invalidateByIdentifier ch n s)"
| cr_clear: "cr_reachable ch c0 d0 s \<Longrightarrow> cr_reachable ch c0 d0 (CachedRepository_clearCache ch s)"
| cr_resize: "cr_reachable ch c0 d0 s \<Longrightarrow> cr_reachable ch c0 d0 (resizeCache ch k s)"
| cr_ttl: "cr_reachable ch c0 d0 s \<Longrightarrow> cr_reachable ch c0 d0 (setCacheTTL t s)"

lemma coherent_write:
  assumes "lossy_caches ch vi vn" "coherent vi vn s" "mr_inv r"
    "map_of (mr_byId r) = (map_of (mr_byId (cr_inner s)))(co_id x \<mapsto> x)"
    "map_of (mr_byIdentifier r) = (map_of (mr_byIdentifier (cr_inner s)))(co_identifier x \<mapsto> x)"
  shows "coherent vi vn (updateCacheEntry ch x (s\<lparr>cr_inner := r\<rparr>))"
proof -
  have "below vi vn (map_of (mr_byId r)) (map_of (mr_byIdentifier r)) (updateCacheEntry ch x (s\<lparr>cr_inner := r\<rparr>))"
    unfolding assms(4,5) using assms(2) by (intro below_put [OF assms(1)]) (simp add: coherent_below)
  moreover have "cr_inner (updateCacheEntry ch x (s\<lparr>cr_inner := r\<rparr>)) = r" by (simp add: updateCacheEntry_def)
  ultimately show ?thesis using assms(3) by (simp add: coherent_below)
qed

lemma coherent_insert:
  assumes "lossy_caches ch vi vn" "coherent vi vn s"
  shows "coherent vi vn (snd (CachedRepository_insert ch obj s))"
proof (cases "map_of (mr_byIdentifier (cr_inner s)) (co_identifier obj)")
  case None
  have inv: "mr_inv (cr_inner s)" using assms(2) by (simp add: coherent_def)
  let ?x = "obj\<lparr>co_id := mr_nextId (cr_inner s)\<rparr>" and ?r = "snd (mr_store obj (cr_inner s))"
  have "coherent vi vn (updateCacheEntry ch ?x (s\<lparr>cr_inner := ?r\<rparr>))"
    using mr_inv_store [OF inv None] by (intro coherent_write [OF assms]) (simp_all add: mr_store_maps update_conv')
  moreover have "mr_store obj (cr_inner s) = (mr_nextId (cr_inner s), ?r)" using mr_store_maps(1) by (simp add: prod_eq_iff)
  ultimately show ?thesis using None
    by (simp add: CachedRepository_insert_def MemoryRepository_insert_def split_beta mr_store_maps(1))
qed (use assms in \<open>simp add: CachedRepository_insert_def MemoryRepository_insert_def coherent_below\<close>)

lemma coherent_forget:
  assumes "lossy_caches ch vi vn" "coherent vi vn s"
  shows "coherent vi vn (invalidateById ch i s)" "coherent vi vn (invalidateByIdentifier ch n s)"
    "coherent vi vn (CachedRepository_clearCache ch s)" "coherent vi vn (resizeCache ch k s)" "coherent vi vn (removeFromCache ch i n s)"
  using assms(2) below_forget [OF assms(1)] unfolding coherent_below
  by (auto simp: invalidateById_def invalidateByIdentifier_def CachedRepository_clearCache_def resizeCache_def removeFromCache_def)

lemma coherent_update:
  assumes "lossy_caches ch vi vn" "coherent vi vn s" "renames_not obj (cr_inner s)"
  shows "coherent vi vn (snd (CachedRepository_update ch obj s))"
proof (cases "map_of (mr_byId (cr_inner s)) (co_id obj)")
  case None
  then show ?thesis using coherent_forget(5) [OF assms(1,2)]
    by (simp add: CachedRepository_update_def MemoryRepository_update_def)
next
  case (Some old)
  have inv: "mr_inv (cr_inner s)" using assms(2) by (simp add: coherent_def)
  have "co_identifier old = co_identifier obj" using assms(3) Some by (simp add: renames_not_def findById_def)
  from coherent_write [OF assms(1,2) replace_stored [OF inv Some this]] show ?thesis using Some
    by (simp add: CachedRepository_update_def MemoryRepository_update_def)
qed

lemma coherent_remove:
  assumes "lossy_caches ch vi vn" "coherent vi vn s" "fst (lru_get (ch_id ch) i (cr_idCache s)) = Some x"
  shows "coherent vi vn (snd (CachedRepository_remove ch i s))"
proof -
  let ?r = "cr_inner s" and ?s = "s\<lparr>cr_inner := snd (MemoryRepository_remove i (cr_inner s)),
    cr_idCache := snd (lru_get (ch_id ch) i (cr_idCache s))\<rparr>"
  have inv: "mr_inv ?r" and b: "below vi vn (map_of (mr_byId ?r)) (map_of (mr_byIdentifier ?r)) s"
    using assms(2) by (simp_all add: coherent_below)
  have x: "map_of (mr_byId ?r) i = Some x" using below_get(3) [OF assms(1) b assms(3)] .
  have "below vi vn (map_of (mr_byId ?r)) (map_of (mr_byIdentifier ?r)) ?s"
    using below_get(1) [OF assms(1) b, of i] by (simp add: below_def)
  from below_erase [OF assms(1) this, of i "co_identifier x"]
  have "coherent vi vn (removeFromCache ch i (co_identifier x) ?s)"
    using mr_inv_remove [OF inv, of i] x
    by (simp add: coherent_below removeFromCache_def MemoryRepository_remove_def delete_conv')
  then show ?thesis using x assms(3)
    by (simp add: CachedRepository_remove_def MemoryRepository_remove_def split_beta)
qed

lemma fun_upd_id: "f k = Some x \<Longrightarrow> f = f(k \<mapsto> x)"
  by auto

lemma coherent_found:
  assumes "lossy_caches ch vi vn" "coherent vi vn s" "map_of (mr_byId (cr_inner s)) (co_id x) = Some x"
    "map_of (mr_byIdentifier (cr_inner s)) (co_identifier x) = Some x"
  shows "coherent vi vn (updateCacheEntry ch x s)"
proof -
  have "mr_inv (cr_inner s)" using assms(2) by (simp add: coherent_def)
  from coherent_write [OF assms(1,2) this fun_upd_id [of "map_of (mr_byId (cr_inner s))", OF assms(3)]
      fun_upd_id [of "map_of (mr_byIdentifier (cr_inner s))", OF assms(4)]]
  show ?thesis by simp
qed

lemma coherent_counters:
  "coherent vi vn (s\<lparr>cr_cacheHits := k\<rparr>) \<longleftrightarrow> coherent vi vn s" "coherent vi vn (s\<lparr>cr_cacheMisses := k\<rparr>) \<longleftrightarrow> coherent vi vn s"
  "coherent vi vn (s\<lparr>cr_cacheTTL := t\<rparr>) \<longleftrightarrow> coherent vi vn s"
  by (simp_all add: coherent_def)

lemma coherent_get:
  assumes "lossy_caches ch vi vn" "coherent vi vn s"
  shows "coherent vi vn (s\<lparr>cr_idCache := snd (lru_get (ch_id ch) i (cr_idCache s))\<rparr>)"
    "coherent vi vn (s\<lparr>cr_identifierCache := snd (lru_get (ch_identifier ch) n (cr_identifierCache s))\<rparr>)"
    "fst (lru_get (ch_id ch) i (cr_idCache s)) = Some x \<Longrightarrow> findById i (cr_inner s) = Some x"
    "fst (lru_get (ch_identifier ch) n (cr_identifierCache s)) = Some x \<Longrightarrow> findByIdentifier n (cr_inner s) = Some x"
  using assms(2) below_get [OF assms(1)] unfolding coherent_below by (auto simp: findById_def findByIdentifier_def)

lemma findById_coherent:
  assumes "lossy_caches ch vi vn" "coherent vi vn s"
  shows "fst (CachedRepository_findById ch i s) = findById i (cr_inner s)
    \<and> coherent vi vn (snd (CachedRepository_findById ch i s))"
proof -
  have inv: "mr_inv (cr_inner s)" using assms(2) by (simp add: coherent_def)
  note a = agreeD [OF mr_inv_agree' [OF inv]]
  have "coherent vi vn (updateCacheEntry ch x (s\<lparr>cr_idCache := snd (lru_get (ch_id ch) i (cr_idCache s)), cr_cacheMisses := m\<rparr>))"
    if x: "findById i (cr_inner s) = Some x" for x m
  proof (rule coherent_found [OF assms(1)])
    show "coherent vi vn (s\<lparr>cr_idCache := snd (lru_get (ch_id ch) i (cr_idCache s)), cr_cacheMisses := m\<rparr>)"
      using coherent_get(1) [OF assms] by (simp add: coherent_counters)
  qed (use x a(1,2) in \<open>auto simp: findById_def\<close>)
  then show ?thesis using coherent_get [OF assms]
    by (auto simp: CachedRepository_findById_def split_beta Let_def coherent_counters split: option.splits)
qed

lemma findByIdentifier_coherent:
  assumes "lossy_caches ch vi vn" "coherent vi vn s"
  shows "fst (CachedRepository_findByIdentifier ch n s) = findByIdentifier n (cr_inner s)
    \<and> coherent vi vn (snd (CachedRepository_findByIdentifier ch n s))"
proof -
  have inv: "mr_inv (cr_inner s)" using assms(2) by (simp add: coherent_def)
  note a = agreeD [OF mr_inv_agree' [OF inv]]
  have "coherent vi vn (updateCacheEntry ch x
      (s\<lparr>cr_identifierCache := snd (lru_get (ch_identifier ch) n (cr_identifierCache s)), cr_cacheMisses := m\<rparr>))"
    if x: "findByIdentifier n (cr_inner s) = Some x" for x m
  proof (rule coherent_found [OF assms(1)])
    show "coherent vi vn (s\<lparr>cr_identifierCache := snd (lru_get (ch_identifier ch) n (cr_identifierCache s)), cr_cacheMisses := m\<rparr>)"
      using coherent_get(2) [OF assms] by (simp add: coherent_counters)
  qed (use x a(3,4) in \<open>auto simp: findByIdentifier_def\<close>)
  then show ?thesis using coherent_get [OF assms]
    by (auto simp: CachedRepository_findByIdentifier_def split_beta Let_def coherent_counters split: option.splits)
qed

lemma coherent_batchInsert:
  assumes "lossy_caches ch vi vn" "coherent vi vn s"
  shows "coherent vi vn (snd (CachedRepository_batchInsert ch objs s))"
proof -
  have l: "lossy (ch_id ch) vi" "lossy (ch_identifier ch) vn" using assms(1) by (simp_all add: lossy_caches_def)
  have "mr_inv (foldl (\<lambda>r obj. snd (MemoryRepository_insert obj r)) r objs)" if "mr_inv r" for r
    using that by (induction objs arbitrary: r) (auto intro: mr_inv_insert)
  then have "mr_inv (snd (batchInsert objs (cr_inner s)))" using assms(2) by (simp add: batch_eqs coherent_def)
  then show ?thesis using lossyD(5) [OF l(1)] lossyD(5) [OF l(2)]
    by (simp add: CachedRepository_batchInsert_def split_beta coherent_def CachedRepository_clearCache_def)
qed

lemma inner_puts [simp]: "cr_inner (foldl (\<lambda>s x. updateCacheEntry ch x s) s objs) = cr_inner s"
  by (induction objs arbitrary: s) (simp_all add: updateCacheEntry_def)

lemma coherent_batchUpdate:
  assumes "lossy_caches ch vi vn" "coherent vi vn s" "\<forall>x \<in> set objs. stored x (cr_inner s)"
  shows "coherent vi vn (snd (CachedRepository_batchUpdate ch objs s))" "coherent vi vn (snd (CachedRepository_upsert ch objs s))"
proof -
  let ?r = "foldl (\<lambda>r x. snd (MemoryRepository_update x r)) (cr_inner s) objs"
  have u: "mr_inv ?r" "map_of (mr_byId ?r) = foldl (\<lambda>m x. m(co_id x \<mapsto> x)) (map_of (mr_byId (cr_inner s))) objs"
    "map_of (mr_byIdentifier ?r) = foldl (\<lambda>m x. m(co_identifier x \<mapsto> x)) (map_of (mr_byIdentifier (cr_inner s))) objs"
    "foldl (\<lambda>r x. upsert_one x r) (cr_inner s) objs = ?r"
    using updates_stored [OF _ assms(3)] assms(2) by (auto simp: coherent_def)
  have c: "coherent vi vn (foldl (\<lambda>s x. updateCacheEntry ch x s) (s\<lparr>cr_inner := ?r\<rparr>) objs)"
    using u(1) assms(2) below_puts [OF assms(1), of _ _ "s\<lparr>cr_inner := ?r\<rparr>" objs] by (simp add: coherent_below u(2,3))
  then show "coherent vi vn (snd (CachedRepository_batchUpdate ch objs s))"
    by (simp add: CachedRepository_batchUpdate_def split_beta batch_eqs)
  show "coherent vi vn (snd (CachedRepository_upsert ch objs s))"
    using c by (simp add: CachedRepository_upsert_def split_beta upsert_eq u(4))
qed

lemma cr_reachable_coherent:
  assumes "lossy_caches ch vi vn" "vi c0 = Map.empty" "vn d0 = Map.empty" "cr_reachable ch c0 d0 s"
  shows "coherent vi vn s"
  using assms(4)
proof (induction rule: cr_reachable.induct)
  case (cr_new r)
  then show ?case using assms(2,3) mr_reachable_inv by (simp add: coherent_def CachedRepository_new_def)
next
  case (cr_remove s i)
  then show ?case using coherent_remove [OF assms(1)] by auto
qed (auto simp: uncached_query_def setCacheTTL_def coherent_counters coherent_insert [OF assms(1)] coherent_update [OF assms(1)]
    findById_coherent [OF assms(1)] findByIdentifier_coherent [OF assms(1)] coherent_batchInsert [OF assms(1)]
    coherent_batchUpdate [OF assms(1)] coherent_forget [OF assms(1)])


text \<open>A cache without bound, to have an instance; its entries are an association list.\<close>

definition plain_cache :: "(('k \<times> 'v) list, 'k, 'v) lru" where
  "plain_cache = \<lparr>lru_get = \<lambda>k c. (map_of c k, c), lru_put = \<lambda>k v t c. AList.update k v c, lru_erase = AList.delete,
     lru_clear = \<lambda>c. [], lru_resize = \<lambda>n c. c, lru_size = length\<rparr>"

definition plain_caches :: "((int \<times> CelestialObjectModel) list, CelestialObjectModel umap) caches" where
  "plain_caches = \<lparr>ch_id = plain_cache, ch_identifier = plain_cache\<rparr>"

lemma plain_lossy: "lossy_caches plain_caches map_of map_of"
  by (simp add: lossy_caches_def plain_caches_def lossy_def plain_cache_def update_conv' delete_conv')

definition named :: "string \<Rightarrow> CelestialObjectModel" where
  "named n = CelestialObjectModel_new\<lparr>co_identifier := n\<rparr>"

abbreviation with_M31 :: "((int \<times> CelestialObjectModel) list, CelestialObjectModel umap) cached_repository" where
  "with_M31 \<equiv> snd (CachedRepository_insert plain_caches (named ''M31'') (CachedRepository_new MemoryRepository_new [] []))"


text \<open>The gaps: a renamed object is still found under its old name, and an upserted new object is cached under the number zero.\<close>

lemma rename_leaves_stale_entry:
  "let s = snd (CachedRepository_update plain_caches (named ''NGC224''\<lparr>co_id := 1\<rparr>) with_M31)
   in fst (CachedRepository_findByIdentifier plain_caches ''M31'' s) \<noteq> None \<and> findByIdentifier ''M31'' (cr_inner s) = None"
  by code_simp

lemma upsert_caches_number_zero:
  "let s = snd (CachedRepository_upsert plain_caches [named ''M33''] with_M31)
   in fst (CachedRepository_findById plain_caches 0 s) \<noteq> None \<and> findById 0 (cr_inner s) = None"
  by code_simp

end
