(* ===== verification/Filter_Evaluator.thy ===== *)
theory Filter_Evaluator
  imports Celestial_Model Wildcard "HOL-Library.Multiset"
begin

text \<open>
  The filter engine of the target catalogue, \<^verbatim>\<open>src/src/target/search/filter_evaluator.cpp\<close>: filtering,
  sorting, paging and the explanation of a mismatch. \<^verbatim>\<open>std::sort\<close> gives some sorted permutation; the
  model takes that of insertion. \<^verbatim>\<open>std::format\<close> of a number with two digits is the parameter \<open>fmt\<close>.
  Overflow of an \<^verbatim>\<open>int\<close> sum is undefined, the value \<open>None\<close>.
\<close>

section \<open>Patterns\<close>

text \<open>The loop of \<^verbatim>\<open>likeMatch\<close> on what is left of the string and of the pattern.\<close>

function likeLoop :: "string \<Rightarrow> string \<Rightarrow> bool" where
  "likeLoop s [] \<longleftrightarrow> s = []"
| "likeLoop s (q # p) =
     (if q = CHR ''%''
      then if p = [] then True
           else if dropWhile (\<lambda>x. x = CHR ''%'') p = [] then True
           else (case dropWhile (\<lambda>x. x \<noteq> hd (dropWhile (\<lambda>x. x = CHR ''%'') p)) s of
                   [] \<Rightarrow> False
                 | c # s' \<Rightarrow> likeLoop (c # s') (dropWhile (\<lambda>x. x = CHR ''%'') p))
      else if q = CHR ''_'' then (case s of [] \<Rightarrow> False | _ # s' \<Rightarrow> likeLoop s' p)
      else (case s of [] \<Rightarrow> False | c # s' \<Rightarrow> if c \<noteq> q then False else likeLoop s' p))"
  by pat_completeness auto
termination likeLoop
  by (relation "measure (\<lambda>(s, p). length p)") (auto simp: length_dropWhile_le less_Suc_eq_le)

declare likeLoop.simps(2) [simp del]

definition likeMatch :: "string \<Rightarrow> string \<Rightarrow> bool" where
  "likeMatch s pattern = (if pattern = [] then True else likeLoop s pattern)"

section \<open>Filtering\<close>

definition matchesNamePattern :: "CelestialObjectModel \<Rightarrow> CelestialSearchFilter \<Rightarrow> bool" where
  "matchesNamePattern obj f \<longleftrightarrow>
     likeMatch (co_identifier obj) (sf_namePattern f) \<or> likeMatch (co_mIdentifier obj) (sf_namePattern f)
     \<or> likeMatch (co_chineseName obj) (sf_namePattern f) \<or> likeMatch (co_extensionName obj) (sf_namePattern f)"

definition matchesMagnitude :: "CelestialObjectModel \<Rightarrow> CelestialSearchFilter \<Rightarrow> bool" where
  "matchesMagnitude obj f \<longleftrightarrow>
     co_visualMagnitudeV obj \<ge> sf_minMagnitude f \<and> co_visualMagnitudeV obj \<le> sf_maxMagnitude f"

definition matchesSize :: "CelestialObjectModel \<Rightarrow> CelestialSearchFilter \<Rightarrow> bool" where
  "matchesSize obj f \<longleftrightarrow> True"

definition matchesCoordinates :: "CelestialObjectModel \<Rightarrow> CelestialSearchFilter \<Rightarrow> bool" where
  "matchesCoordinates obj f \<longleftrightarrow>
     co_radJ2000 obj \<ge> sf_minRA f \<and> co_radJ2000 obj \<le> sf_maxRA f
     \<and> co_decDJ2000 obj \<ge> sf_minDec f \<and> co_decDJ2000 obj \<le> sf_maxDec f"

definition FilterEvaluator_matches :: "CelestialObjectModel \<Rightarrow> CelestialSearchFilter \<Rightarrow> bool" where
  "FilterEvaluator_matches obj f =
     (if sf_namePattern f \<noteq> [] \<and> \<not> matchesNamePattern obj f then False
      else if sf_type f \<noteq> [] \<and> co_type obj \<noteq> sf_type f then False
      else if sf_morphology f \<noteq> [] \<and> co_morphology obj \<noteq> sf_morphology f then False
      else if sf_constellation f \<noteq> [] \<and> co_constellationEn obj \<noteq> sf_constellation f then False
      else if \<not> matchesMagnitude obj f then False
      else if \<not> matchesSize obj f then False
      else if \<not> matchesCoordinates obj f then False
      else True)"

definition filterResults :: "CelestialObjectModel list \<Rightarrow> CelestialSearchFilter \<Rightarrow> CelestialObjectModel list" where
  "filterResults results f = filter (\<lambda>obj. FilterEvaluator_matches obj f) results"

definition validateFilter :: "CelestialSearchFilter \<Rightarrow> string" where
  "validateFilter f =
     (if sf_minMagnitude f > sf_maxMagnitude f then ''Min magnitude cannot be greater than max magnitude''
      else if sf_minRA f > sf_maxRA f then ''Min RA cannot be greater than max RA''
      else if sf_minDec f > sf_maxDec f then ''Min declination cannot be greater than max declination''
      else [])"

definition quoted :: "string \<Rightarrow> string" where
  "quoted s = CHR 0x27 # s @ [CHR 0x27]"

definition explainMismatch :: "(real \<Rightarrow> string) \<Rightarrow> CelestialObjectModel \<Rightarrow> CelestialSearchFilter \<Rightarrow> string" where
  "explainMismatch fmt obj f =
     (if sf_namePattern f \<noteq> [] \<and> \<not> matchesNamePattern obj f
      then ''Name '' @ quoted (co_identifier obj) @ '' does not match pattern '' @ quoted (sf_namePattern f)
      else if sf_type f \<noteq> [] \<and> co_type obj \<noteq> sf_type f
      then ''Type '' @ quoted (co_type obj) @ '' does not match '' @ quoted (sf_type f)
      else if \<not> matchesMagnitude obj f
      then ''Magnitude '' @ fmt (co_visualMagnitudeV obj) @ '' not in range ['' @ fmt (sf_minMagnitude f) @ '', ''
        @ fmt (sf_maxMagnitude f) @ '']''
      else if \<not> matchesSize obj f
      then ''Major axis '' @ fmt (co_visualMagnitudeV obj) @ '' outside range''
      else if \<not> matchesCoordinates obj f
      then ''Coordinates (RA='' @ fmt (co_radJ2000 obj) @ '', Dec='' @ fmt (co_decDJ2000 obj) @ '') outside box [RA: ''
        @ fmt (sf_minRA f) @ ''-'' @ fmt (sf_maxRA f) @ '', Dec: '' @ fmt (sf_minDec f) @ ''-'' @ fmt (sf_maxDec f) @ '']''
      else [])"

section \<open>Sorting and paging\<close>

definition sign_compare :: "'a::linorder \<Rightarrow> 'a \<Rightarrow> int" where
  "sign_compare a b = (if a < b then -1 else if a > b then 1 else 0)"

definition compareBy :: "string \<Rightarrow> CelestialObjectModel \<Rightarrow> CelestialObjectModel \<Rightarrow> int" where
  "compareBy orderBy a b =
     (if orderBy = ''identifier'' then sign_compare (co_identifier a) (co_identifier b)
      else if orderBy = ''magnitude'' then sign_compare (co_visualMagnitudeV a) (co_visualMagnitudeV b)
      else if orderBy = ''ra'' then sign_compare (co_radJ2000 a) (co_radJ2000 b)
      else if orderBy = ''dec'' then sign_compare (co_decDJ2000 a) (co_decDJ2000 b)
      else sign_compare (co_identifier a) (co_identifier b))"

fun insert_before :: "('a \<Rightarrow> 'a \<Rightarrow> bool) \<Rightarrow> 'a \<Rightarrow> 'a list \<Rightarrow> 'a list" where
  "insert_before lt x [] = [x]"
| "insert_before lt x (y # ys) = (if lt y x then y # insert_before lt x ys else x # y # ys)"

definition std_sort :: "('a \<Rightarrow> 'a \<Rightarrow> bool) \<Rightarrow> 'a list \<Rightarrow> 'a list" where
  "std_sort lt xs = foldr (insert_before lt) xs []"

definition result_less :: "CelestialSearchFilter \<Rightarrow> CelestialObjectModel \<Rightarrow> CelestialObjectModel \<Rightarrow> bool" where
  "result_less f a b =
     (let cmp = compareBy (sf_orderBy f) a b in if sf_ascending f then cmp < 0 else cmp > 0)"

definition sortResults :: "CelestialObjectModel list \<Rightarrow> CelestialSearchFilter \<Rightarrow> CelestialObjectModel list" where
  "sortResults results f = std_sort (result_less f) results"

definition paginate :: "'a list \<Rightarrow> int \<Rightarrow> int \<Rightarrow> 'a list option" where
  "paginate results offset limit =
     (if offset < 0 \<or> limit \<le> 0 then Some []
      else if offset \<ge> int (length results) then Some []
      else if \<not> in_int (offset + limit) then None
      else let e = min (int (length results)) (offset + limit)
           in Some (take (nat (e - offset)) (drop (nat offset) results)))"

definition getFilterStats :: "CelestialSearchFilter \<Rightarrow> string" where
  "getFilterStats f =
     (let active = (if sf_namePattern f \<noteq> [] then 1 else 0) + (if sf_type f \<noteq> [] then 1 else 0)
            + (if sf_morphology f \<noteq> [] then 1 else 0) + (if sf_constellation f \<noteq> [] then 1 else 0)
            + (if sf_minMagnitude f > -30 \<or> sf_maxMagnitude f < 30 then 1 else 0)
            + (if sf_minRA f > 0 \<or> sf_maxRA f < 360 then 1 else 0)
            + (if sf_minDec f > -90 \<or> sf_maxDec f < 90 then 1 else 0)
      in ''Filter Statistics:'' @ [CHR 0x0A] @ ''  Active Constraints: '' @ show_int active @ [CHR 0x0A]
         @ ''  Limit: '' @ show_int (sf_limit f) @ [CHR 0x0A] @ ''  Offset: '' @ show_int (sf_offset f) @ [CHR 0x0A]
         @ ''  Sort By: '' @ sf_orderBy f @ '' ('' @ (if sf_ascending f then ''ascending'' else ''descending'') @ '')'' @ [CHR 0x0A])"

section \<open>Patterns match soundly\<close>

lemma glob_skip_many: "glob many one (dropWhile (\<lambda>x. x = many) p) s \<Longrightarrow> glob many one p s"
proof (induction p)
  case (Cons x p)
  then show ?case using glob_manyI [of many one p s "[]"] by (cases "x = many") auto
qed simp

lemma likeLoop_sound: "likeLoop s p \<Longrightarrow> glob CHR ''%'' (Some CHR ''_'') p s"
proof (induction s p rule: likeLoop.induct)
  case (2 s q p)
  let ?p = "dropWhile (\<lambda>x. x = CHR ''%'') p"
  consider (last) "q = CHR ''%''" "?p = []" | (skip) "q = CHR ''%''" "?p \<noteq> []" | (one) "q \<noteq> CHR ''%''" by blast
  then show ?case
  proof cases
    case last
    have "glob CHR ''%'' (Some CHR ''_'') p []" by (rule glob_skip_many) (simp add: last)
    from glob_manyI [OF this, of s] show ?thesis by (simp only: last append_Nil2)
  next
    case skip
    then obtain c s' where d: "dropWhile (\<lambda>x. x \<noteq> hd ?p) s = c # s'" "likeLoop (c # s') ?p"
      using "2.prems" by (simp add: likeLoop.simps(2) split: if_splits list.splits)
    have "p \<noteq> []" using skip(2) by auto
    have "glob CHR ''%'' (Some CHR ''_'') ?p (c # s')" by (rule "2.IH"(1) [OF skip(1) \<open>p \<noteq> []\<close> skip(2) d])
    then have g: "glob CHR ''%'' (Some CHR ''_'') p (c # s')" by (rule glob_skip_many)
    have "s = takeWhile (\<lambda>x. x \<noteq> hd ?p) s @ c # s'" using takeWhile_dropWhile_id [of "\<lambda>x. x \<noteq> hd ?p" s] d(1) by simp
    then show ?thesis using glob_manyI [OF g] skip(1) by metis
  next
    case one
    then obtain c s' where s: "s = c # s'" "likeLoop s' p" "q = CHR ''_'' \<or> q = c"
      using "2.prems" by (auto simp: likeLoop.simps(2) split: if_splits list.splits)
    have "glob CHR ''%'' (Some CHR ''_'') p s'"
    proof (cases "q = CHR ''_''")
      case True
      then show ?thesis using "2.IH"(2) [OF one True s(1) s(2)] by simp
    next
      case False
      then show ?thesis using "2.IH"(3) [OF one False s(1) _ s(2)] s(3) by simp
    qed
    then show ?thesis unfolding s(1) using s(3) by (intro glob_ConsI) auto
  qed
qed simp

lemma likeLoop_exact: "CHR ''%'' \<notin> set (butlast p) \<Longrightarrow> glob CHR ''%'' (Some CHR ''_'') p s \<Longrightarrow> likeLoop s p"
proof (induction p arbitrary: s)
  case (Cons q p)
  show ?case
  proof (cases "q = CHR ''%''")
    case True
    then have "p = []" using Cons.prems(1) by (auto split: if_splits)
    then show ?thesis using True by (simp add: likeLoop.simps(2))
  next
    case False
    then obtain c s' where "s = c # s'" "q = CHR ''_'' \<or> q = c" "glob CHR ''%'' (Some CHR ''_'') p s'"
      using Cons.prems(2) by (cases s) auto
    then show ?thesis using False Cons by (auto simp: likeLoop.simps(2) split: if_splits)
  qed
qed simp

interpretation like: wildcard_matcher likeMatch "CHR ''%''" "Some CHR ''_''"
  by unfold_locales (simp_all add: likeMatch_def likeLoop_sound likeLoop_exact del: glob.simps)

section \<open>Sorting\<close>

lemma mset_insert_before [simp]: "mset (insert_before lt x xs) = add_mset x (mset xs)"
  by (induction xs) auto

lemma mset_std_sort [simp]: "mset (std_sort lt xs) = mset xs"
  by (induction xs) (auto simp: std_sort_def)

text \<open>A comparator whose negation is transitive and total sorts.\<close>

lemma sorted_insert_before:
  assumes "\<And>a b c. \<not> lt b a \<Longrightarrow> \<not> lt c b \<Longrightarrow> \<not> lt c a" "\<And>a b. lt a b \<Longrightarrow> \<not> lt b a"
  shows "sorted_wrt (\<lambda>a b. \<not> lt b a) xs \<Longrightarrow> sorted_wrt (\<lambda>a b. \<not> lt b a) (insert_before lt x xs)"
proof (induction xs)
  case (Cons y ys)
  have e: "set (insert_before lt x ys) = insert x (set ys)"
    by (metis mset_insert_before set_mset_add_mset_insert set_mset_mset)
  show ?case
  proof (cases "lt y x")
    case True
    then show ?thesis using Cons assms(2) by (auto simp: e)
  next
    case False
    then show ?thesis using Cons.prems assms(1) by (auto simp: ball_conj_distrib)
  qed
qed simp

lemma sorted_std_sort:
  assumes "\<And>a b c. \<not> lt b a \<Longrightarrow> \<not> lt c b \<Longrightarrow> \<not> lt c a" "\<And>a b. lt a b \<Longrightarrow> \<not> lt b a"
  shows "sorted_wrt (\<lambda>a b. \<not> lt b a) (std_sort lt xs)"
  by (induction xs) (auto simp: std_sort_def intro: sorted_insert_before [OF assms])

lemma sign_compare_simps [simp]: "sign_compare a b < 0 \<longleftrightarrow> a < b" "0 < sign_compare a b \<longleftrightarrow> b < a"
  by (auto simp: sign_compare_def)

lemma result_less_order:
  "\<not> result_less f b a \<Longrightarrow> \<not> result_less f c b \<Longrightarrow> \<not> result_less f c a"
  "result_less f a b \<Longrightarrow> \<not> result_less f b a"
  by (auto simp: result_less_def compareBy_def Let_def split: if_splits)

section \<open>Pages\<close>

lemma paginate_page:
  assumes "0 < limit" "int (length xs) + limit \<le> int_max"
  shows "paginate xs (int k * limit) limit = Some (take (nat limit) (drop (k * nat limit) xs))"
proof -
  obtain m where m: "limit = int m" "0 < m" using assms(1) by (metis zero_less_imp_eq_int)
  have km: "int k * int m = int (k * m)" by simp
  show ?thesis
  proof (cases "k * m < length xs")
    case True
    have "int_min \<le> 0" by (simp add: int_min_def)
    then have r: "in_int (int (k * m) + int m)" using True assms(2) m unfolding in_int_def by linarith
    have "take (nat (min (int (length xs)) (int (k * m) + int m) - int (k * m))) (drop (k * m) xs) = take m (drop (k * m) xs)"
    proof (cases "k * m + m \<le> length xs")
      case True
      then have "min (int (length xs)) (int (k * m) + int m) - int (k * m) = int m" by linarith
      then show ?thesis by simp
    next
      case False
      then have "min (int (length xs)) (int (k * m) + int m) - int (k * m) = int (length xs - k * m)"
        using True by linarith
      moreover have "length xs - k * m \<le> m" using False by linarith
      ultimately show ?thesis by simp
    qed
    then show ?thesis using True r m(2) unfolding paginate_def m(1) km Let_def by (simp del: of_nat_mult)
  next
    case False
    then show ?thesis using m(2) unfolding paginate_def m(1) km by (simp del: of_nat_mult)
  qed
qed

lemma concat_pages: "concat (map (\<lambda>k. take m (drop (k * m) xs)) [0..<n]) = take (n * m) xs"
proof (induction n)
  case (Suc n)
  then show ?case by (simp add: take_add [symmetric] add.commute)
qed simp

section \<open>Properties\<close>

text \<open>
  name patterns never match too much. A name that matches a pattern is one the pattern stands
  for, with a per cent sign for any sequence and an underscore for one character. When the sign is
  used at the end only, the converse holds too, so names and prefixes are found exactly. In general
  the converse fails, as the scan does not go back: the last part is a name that is missed.
\<close>

theorem likeMatch_correct:
  assumes "p \<noteq> []"
  shows "(likeMatch s p \<longrightarrow> glob CHR ''%'' (Some CHR ''_'') p s)
    \<and> (CHR ''%'' \<notin> set (butlast p) \<longrightarrow> likeMatch s p = glob CHR ''%'' (Some CHR ''_'') p s)
    \<and> (CHR ''%'' \<notin> set p \<and> CHR ''_'' \<notin> set p \<longrightarrow> likeMatch s (p @ [CHR ''%'']) = (take (length p) s = p))
    \<and> \<not> likeMatch ''aab'' ''%ab'' \<and> glob CHR ''%'' (Some CHR ''_'') ''%ab'' ''aab''"
proof (intro conjI impI)
  show "glob CHR ''%'' (Some CHR ''_'') p s" if "likeMatch s p" by (rule like.sound [OF assms that])
  show "likeMatch s p = glob CHR ''%'' (Some CHR ''_'') p s" if "CHR ''%'' \<notin> set (butlast p)"
    by (rule like.exact [OF assms that])
  show "likeMatch s (p @ [CHR ''%'']) = (take (length p) s = p)" if "CHR ''%'' \<notin> set p \<and> CHR ''_'' \<notin> set p"
    using that by (intro like.prefix) auto
  show "\<not> likeMatch ''aab'' ''%ab''" by (simp add: likeMatch_def likeLoop.simps(2))
  show "glob CHR ''%'' (Some CHR ''_'') ''%ab'' ''aab''" by code_simp
qed

theorem likeMatch_correct_witness: "likeMatch ''NGC 224'' ''NGC%'' \<and> \<not> likeMatch ''M 31'' ''NGC%''"
  using likeMatch_correct [of "''NGC''" "''NGC 224''"] likeMatch_correct [of "''NGC''" "''M 31''"]
  by (simp del: glob.simps)


definition two_objects :: "CelestialObjectModel list" where
  "two_objects = [CelestialObjectModel_new\<lparr>co_identifier := ''M33''\<rparr>, CelestialObjectModel_new\<lparr>co_identifier := ''M31''\<rparr>]"


text \<open>
  A match has no explanation of a mismatch; the converse needs the two constraints that the
  explanation leaves out.
\<close>

lemma explainMismatch_matches:
  "FilterEvaluator_matches obj f \<longleftrightarrow> explainMismatch fmt obj f = []
     \<and> (sf_morphology f \<noteq> [] \<longrightarrow> co_morphology obj = sf_morphology f)
     \<and> (sf_constellation f \<noteq> [] \<longrightarrow> co_constellationEn obj = sf_constellation f)"
  by (auto simp: FilterEvaluator_matches_def explainMismatch_def)

end
