(* ===== verification/Event_Bus.thy ===== *)
theory Event_Bus
  imports Bounded_Log "HOL-Library.Multiset"
begin

text \<open>
  The event bus of the devices, \<^verbatim>\<open>src/src/device/events/device_event_bus.cpp\<close>. The additional data of
  an event is a JSON document the bus only passes on, so its type is a parameter; the conversions of
  events to JSON are not modelled. Callbacks and the external message bus are parameters that act on
  a world; an exception of a callback is swallowed and is the effect it had before. The counters stay
  below the end of \<^verbatim>\<open>uint64_t\<close>. The last part models publishers that run at the same time.
\<close>

section \<open>Events\<close>

datatype DeviceEventCategory = DeviceCategory | PluginCategory | BackendCategory | ComponentCategory | SystemCategory

datatype DeviceEventType =
    DeviceAdded
  | DeviceRemoved
  | DeviceConnected
  | DeviceDisconnected
  | DeviceStateChanged
  | DevicePropertyChanged
  | DeviceError
  | PluginLoaded
  | PluginUnloaded
  | PluginReloading
  | PluginReloaded
  | PluginError
  | BackendConnected
  | BackendDisconnected
  | BackendDiscovery
  | BackendError
  | ComponentRegistered
  | ComponentUnregistered
  | ComponentStateSync
  | SystemStartup
  | SystemShutdown
  | ConfigurationChanged

primrec eventCategoryToString :: "DeviceEventCategory \<Rightarrow> string" where
  "eventCategoryToString DeviceCategory = ''Device''"
| "eventCategoryToString PluginCategory = ''Plugin''"
| "eventCategoryToString BackendCategory = ''Backend''"
| "eventCategoryToString ComponentCategory = ''Component''"
| "eventCategoryToString SystemCategory = ''System''"

primrec eventTypeToString :: "DeviceEventType \<Rightarrow> string" where
  "eventTypeToString DeviceAdded = ''DeviceAdded''"
| "eventTypeToString DeviceRemoved = ''DeviceRemoved''"
| "eventTypeToString DeviceConnected = ''DeviceConnected''"
| "eventTypeToString DeviceDisconnected = ''DeviceDisconnected''"
| "eventTypeToString DeviceStateChanged = ''DeviceStateChanged''"
| "eventTypeToString DevicePropertyChanged = ''DevicePropertyChanged''"
| "eventTypeToString DeviceError = ''DeviceError''"
| "eventTypeToString PluginLoaded = ''PluginLoaded''"
| "eventTypeToString PluginUnloaded = ''PluginUnloaded''"
| "eventTypeToString PluginReloading = ''PluginReloading''"
| "eventTypeToString PluginReloaded = ''PluginReloaded''"
| "eventTypeToString PluginError = ''PluginError''"
| "eventTypeToString BackendConnected = ''BackendConnected''"
| "eventTypeToString BackendDisconnected = ''BackendDisconnected''"
| "eventTypeToString BackendDiscovery = ''BackendDiscovery''"
| "eventTypeToString BackendError = ''BackendError''"
| "eventTypeToString ComponentRegistered = ''ComponentRegistered''"
| "eventTypeToString ComponentUnregistered = ''ComponentUnregistered''"
| "eventTypeToString ComponentStateSync = ''ComponentStateSync''"
| "eventTypeToString SystemStartup = ''SystemStartup''"
| "eventTypeToString SystemShutdown = ''SystemShutdown''"
| "eventTypeToString ConfigurationChanged = ''ConfigurationChanged''"

primrec getEventCategory :: "DeviceEventType \<Rightarrow> DeviceEventCategory" where
  "getEventCategory DeviceAdded = DeviceCategory"
| "getEventCategory DeviceRemoved = DeviceCategory"
| "getEventCategory DeviceConnected = DeviceCategory"
| "getEventCategory DeviceDisconnected = DeviceCategory"
| "getEventCategory DeviceStateChanged = DeviceCategory"
| "getEventCategory DevicePropertyChanged = DeviceCategory"
| "getEventCategory DeviceError = DeviceCategory"
| "getEventCategory PluginLoaded = PluginCategory"
| "getEventCategory PluginUnloaded = PluginCategory"
| "getEventCategory PluginReloading = PluginCategory"
| "getEventCategory PluginReloaded = PluginCategory"
| "getEventCategory PluginError = PluginCategory"
| "getEventCategory BackendConnected = BackendCategory"
| "getEventCategory BackendDisconnected = BackendCategory"
| "getEventCategory BackendDiscovery = BackendCategory"
| "getEventCategory BackendError = BackendCategory"
| "getEventCategory ComponentRegistered = ComponentCategory"
| "getEventCategory ComponentUnregistered = ComponentCategory"
| "getEventCategory ComponentStateSync = ComponentCategory"
| "getEventCategory SystemStartup = SystemCategory"
| "getEventCategory SystemShutdown = SystemCategory"
| "getEventCategory ConfigurationChanged = SystemCategory"

record 'j DeviceEvent =
  ev_type :: DeviceEventType
  ev_category :: DeviceEventCategory
  ev_source :: string
  ev_target :: string
  ev_message :: string
  ev_data :: 'j
  ev_timestamp :: int
  ev_sequenceNumber :: nat

definition getTopic :: "'j DeviceEvent \<Rightarrow> string" where
  "getTopic e = (case ev_type e of
        DeviceAdded \<Rightarrow> ''device.added''
      | DeviceRemoved \<Rightarrow> ''device.removed''
      | DeviceConnected \<Rightarrow> ''device.connected''
      | DeviceDisconnected \<Rightarrow> ''device.disconnected''
      | DeviceStateChanged \<Rightarrow> ''device.state''
      | DevicePropertyChanged \<Rightarrow> ''device.property''
      | DeviceError \<Rightarrow> ''device.error''
      | PluginLoaded \<Rightarrow> ''device.plugin.loaded''
      | PluginUnloaded \<Rightarrow> ''device.plugin.unloaded''
      | PluginReloading \<Rightarrow> ''device.plugin.reloading''
      | PluginReloaded \<Rightarrow> ''device.plugin.reloaded''
      | _ \<Rightarrow> ''device'')"

text \<open>The typed events extend the base event; the fields of a fresh base event are arguments.\<close>

record 'j DeviceStateChangeEvent = "'j DeviceEvent" +
  sc_deviceId :: string
  sc_deviceName :: string
  sc_deviceType :: string
  sc_oldState :: string
  sc_newState :: string

record 'j DeviceErrorEvent = "'j DeviceEvent" +
  ee_deviceId :: string
  ee_errorCode :: string
  ee_errorMessage :: string
  ee_recoverable :: bool

record 'j PluginEvent = "'j DeviceEvent" +
  pe_pluginName :: string
  pe_pluginVersion :: string

definition createStateChangeEvent ::
  "'j DeviceEvent \<Rightarrow> string \<Rightarrow> string \<Rightarrow> string \<Rightarrow> string \<Rightarrow> string \<Rightarrow> 'j DeviceStateChangeEvent" where
  "createStateChangeEvent e deviceId deviceName deviceType oldState newState =
     DeviceEvent.extend
       (e\<lparr>ev_type := DeviceStateChanged, ev_category := DeviceCategory, ev_source := deviceId,
          ev_message := ''Device state changed from '' @ oldState @ '' to '' @ newState\<rparr>)
       \<lparr>sc_deviceId = deviceId, sc_deviceName = deviceName, sc_deviceType = deviceType,
        sc_oldState = oldState, sc_newState = newState\<rparr>"

definition createErrorEvent :: "'j DeviceEvent \<Rightarrow> string \<Rightarrow> string \<Rightarrow> string \<Rightarrow> bool \<Rightarrow> 'j DeviceErrorEvent" where
  "createErrorEvent e deviceId errorCode errorMessage recoverable =
     DeviceEvent.extend
       (e\<lparr>ev_type := DeviceError, ev_category := DeviceCategory, ev_source := deviceId, ev_message := errorMessage\<rparr>)
       \<lparr>ee_deviceId = deviceId, ee_errorCode = errorCode, ee_errorMessage = errorMessage, ee_recoverable = recoverable\<rparr>"

definition createPluginEvent :: "'j DeviceEvent \<Rightarrow> DeviceEventType \<Rightarrow> string \<Rightarrow> string \<Rightarrow> string \<Rightarrow> 'j PluginEvent" where
  "createPluginEvent e ty pluginName version message =
     DeviceEvent.extend
       (e\<lparr>ev_type := ty, ev_category := PluginCategory, ev_source := pluginName,
          ev_message := if message = [] then eventTypeToString ty @ '': '' @ pluginName else message\<rparr>)
       \<lparr>pe_pluginName = pluginName, pe_pluginVersion = version\<rparr>"

section \<open>The bus\<close>

record 'cb Subscription =
  sub_id :: nat
  sub_callback :: 'cb
  sub_type :: "DeviceEventType option"
  sub_category :: "DeviceEventCategory option"
  sub_source :: "string option"

record ('j, 'cb) event_bus =
  eb_hasMessageBus :: bool
  eb_initialized :: bool
  eb_subscriptions :: "'cb Subscription list"
  eb_nextSubscriptionId :: nat
  eb_eventHistory :: "'j DeviceEvent list"
  eb_maxHistorySize :: nat
  eb_sequenceCounter :: nat
  eb_publishedCount :: nat
  eb_eventCounts :: "(DeviceEventType \<times> nat) list"
  eb_asyncEnabled :: bool
  eb_historyEnabled :: bool

definition DeviceEventBus_new :: "('j, 'cb) event_bus" where
  "DeviceEventBus_new =
     \<lparr>eb_hasMessageBus = False, eb_initialized = False, eb_subscriptions = [], eb_nextSubscriptionId = 1,
      eb_eventHistory = [], eb_maxHistorySize = 1000, eb_sequenceCounter = 0, eb_publishedCount = 0,
      eb_eventCounts = [], eb_asyncEnabled = True, eb_historyEnabled = True\<rparr>"

text \<open>The settings of the configuration document that are present.\<close>

definition DeviceEventBus_initialize :: "nat option \<Rightarrow> bool option \<Rightarrow> bool option \<Rightarrow> ('j, 'cb) event_bus \<Rightarrow> ('j, 'cb) event_bus" where
  "DeviceEventBus_initialize maxHistorySize asyncEnabled historyEnabled b =
     (if eb_initialized b then b
      else b\<lparr>eb_maxHistorySize := case_option (eb_maxHistorySize b) id maxHistorySize,
             eb_asyncEnabled := case_option (eb_asyncEnabled b) id asyncEnabled,
             eb_historyEnabled := case_option (eb_historyEnabled b) id historyEnabled,
             eb_initialized := True\<rparr>)"

definition DeviceEventBus_shutdown :: "('j, 'cb) event_bus \<Rightarrow> ('j, 'cb) event_bus" where
  "DeviceEventBus_shutdown b =
     (if \<not> eb_initialized b then b
      else b\<lparr>eb_subscriptions := [], eb_eventHistory := [], eb_hasMessageBus := False, eb_initialized := False\<rparr>)"

definition setMessageBus :: "bool \<Rightarrow> ('j, 'cb) event_bus \<Rightarrow> ('j, 'cb) event_bus" where
  "setMessageBus m b = b\<lparr>eb_hasMessageBus := m\<rparr>"

definition add_subscription :: "'cb \<Rightarrow> DeviceEventType option \<Rightarrow> DeviceEventCategory option \<Rightarrow> string option
    \<Rightarrow> ('j, 'cb) event_bus \<Rightarrow> nat \<times> ('j, 'cb) event_bus" where
  "add_subscription cb ty category source b =
     (eb_nextSubscriptionId b,
      b\<lparr>eb_nextSubscriptionId := eb_nextSubscriptionId b + 1,
        eb_subscriptions := eb_subscriptions b @
          [\<lparr>sub_id = eb_nextSubscriptionId b, sub_callback = cb, sub_type = ty, sub_category = category, sub_source = source\<rparr>]\<rparr>)"

definition subscribeAll :: "'cb \<Rightarrow> ('j, 'cb) event_bus \<Rightarrow> nat \<times> ('j, 'cb) event_bus" where
  "subscribeAll cb b = add_subscription cb None None None b"

definition subscribe :: "DeviceEventType \<Rightarrow> 'cb \<Rightarrow> ('j, 'cb) event_bus \<Rightarrow> nat \<times> ('j, 'cb) event_bus" where
  "subscribe ty cb b = add_subscription cb (Some ty) None None b"

definition subscribeCategory :: "DeviceEventCategory \<Rightarrow> 'cb \<Rightarrow> ('j, 'cb) event_bus \<Rightarrow> nat \<times> ('j, 'cb) event_bus" where
  "subscribeCategory category cb b = add_subscription cb None (Some category) None b"

definition subscribeSource :: "string \<Rightarrow> 'cb \<Rightarrow> ('j, 'cb) event_bus \<Rightarrow> nat \<times> ('j, 'cb) event_bus" where
  "subscribeSource source cb b = add_subscription cb None None (Some source) b"

definition unsubscribe :: "nat \<Rightarrow> ('j, 'cb) event_bus \<Rightarrow> ('j, 'cb) event_bus" where
  "unsubscribe i b = b\<lparr>eb_subscriptions := filter (\<lambda>s. \<not> sub_id s = i) (eb_subscriptions b)\<rparr>"

definition unsubscribeAll :: "DeviceEventType \<Rightarrow> ('j, 'cb) event_bus \<Rightarrow> ('j, 'cb) event_bus" where
  "unsubscribeAll ty b = b\<lparr>eb_subscriptions := filter (\<lambda>s. \<not> sub_type s = Some ty) (eb_subscriptions b)\<rparr>"

definition clearSubscriptions :: "('j, 'cb) event_bus \<Rightarrow> ('j, 'cb) event_bus" where
  "clearSubscriptions b = b\<lparr>eb_subscriptions := []\<rparr>"

definition getRecentEvents :: "nat \<Rightarrow> ('j, 'cb) event_bus \<Rightarrow> 'j DeviceEvent list" where
  "getRecentEvents cnt b =
     (let h = eb_eventHistory b
      in if h = [] then [] else drop (if length h > cnt then length h - cnt else 0) h)"

fun byTypeLoop :: "DeviceEventType \<Rightarrow> nat \<Rightarrow> 'j DeviceEvent list \<Rightarrow> 'j DeviceEvent list \<Rightarrow> 'j DeviceEvent list" where
  "byTypeLoop ty cnt [] result = result"
| "byTypeLoop ty cnt (e # es) result =
     (if length result < cnt
      then byTypeLoop ty cnt es (if ev_type e = ty then result @ [e] else result)
      else result)"

definition getEventsByType :: "DeviceEventType \<Rightarrow> nat \<Rightarrow> ('j, 'cb) event_bus \<Rightarrow> 'j DeviceEvent list" where
  "getEventsByType ty cnt b = rev (byTypeLoop ty cnt (rev (eb_eventHistory b)) [])"

definition clearHistory :: "('j, 'cb) event_bus \<Rightarrow> ('j, 'cb) event_bus" where
  "clearHistory b = b\<lparr>eb_eventHistory := []\<rparr>"

definition getSubscriptionCount :: "('j, 'cb) event_bus \<Rightarrow> nat" where
  "getSubscriptionCount b = length (eb_subscriptions b)"

section \<open>Publishing\<close>

definition nextSequenceNumber :: "('j, 'cb) event_bus \<Rightarrow> nat \<times> ('j, 'cb) event_bus" where
  "nextSequenceNumber b = (eb_sequenceCounter b, b\<lparr>eb_sequenceCounter := eb_sequenceCounter b + 1\<rparr>)"

definition numbered :: "'j DeviceEvent \<Rightarrow> ('j, 'cb) event_bus \<Rightarrow> 'j DeviceEvent \<times> ('j, 'cb) event_bus" where
  "numbered e b =
     (let (n, b') = nextSequenceNumber b
      in (e\<lparr>ev_sequenceNumber := n, ev_category := getEventCategory (ev_type e)\<rparr>, b'))"

definition count_published :: "('j, 'cb) event_bus \<Rightarrow> ('j, 'cb) event_bus" where
  "count_published b = b\<lparr>eb_publishedCount := eb_publishedCount b + 1\<rparr>"

definition count_type :: "DeviceEventType \<Rightarrow> ('j, 'cb) event_bus \<Rightarrow> ('j, 'cb) event_bus" where
  "count_type ty b = b\<lparr>eb_eventCounts := AList.update ty (lookup_or 0 (eb_eventCounts b) ty + 1) (eb_eventCounts b)\<rparr>"

definition recordEvent :: "'j DeviceEvent \<Rightarrow> ('j, 'cb) event_bus \<Rightarrow> ('j, 'cb) event_bus" where
  "recordEvent e b =
     (let h = eb_eventHistory b @ [e]
      in b\<lparr>eb_eventHistory := (if length h > eb_maxHistorySize b then drop (length h - eb_maxHistorySize b) h else h)\<rparr>)"

definition sub_matches :: "'j DeviceEvent \<Rightarrow> 'cb Subscription \<Rightarrow> bool" where
  "sub_matches e s =
     (let m = True;
          m = (if sub_type s \<noteq> None \<and> sub_type s \<noteq> Some (ev_type e) then False else m);
          m = (if sub_category s \<noteq> None \<and> sub_category s \<noteq> Some (ev_category e) then False else m)
      in if sub_source s \<noteq> None \<and> sub_source s \<noteq> Some (ev_source e) then False else m)"

primrec dispatchLoop :: "('cb \<Rightarrow> 'j DeviceEvent \<Rightarrow> 'w \<Rightarrow> 'w) \<Rightarrow> 'j DeviceEvent \<Rightarrow> 'cb Subscription list \<Rightarrow> 'w \<Rightarrow> 'w" where
  "dispatchLoop run e [] w = w"
| "dispatchLoop run e (s # ss) w = dispatchLoop run e ss (if sub_matches e s then run (sub_callback s) e w else w)"

definition dispatchEvent :: "('cb \<Rightarrow> 'j DeviceEvent \<Rightarrow> 'w \<Rightarrow> 'w) \<Rightarrow> 'j DeviceEvent \<Rightarrow> ('j, 'cb) event_bus \<Rightarrow> 'w \<Rightarrow> 'w" where
  "dispatchEvent run e b w = dispatchLoop run e (eb_subscriptions b) w"

definition DeviceEventBus_publish :: "('cb \<Rightarrow> 'j DeviceEvent \<Rightarrow> 'w \<Rightarrow> 'w) \<Rightarrow> (string \<Rightarrow> 'j DeviceEvent \<Rightarrow> 'w \<Rightarrow> 'w)
    \<Rightarrow> 'j DeviceEvent \<Rightarrow> ('j, 'cb) event_bus \<Rightarrow> 'w \<Rightarrow> ('j, 'cb) event_bus \<times> 'w" where
  "DeviceEventBus_publish run forward e b w =
     (let (eventCopy, b) = numbered e b;
          b = count_published b;
          b = count_type (ev_type e) b;
          b = (if eb_historyEnabled b then recordEvent eventCopy b else b);
          w = dispatchEvent run eventCopy b w;
          w = (if eb_asyncEnabled b \<and> eb_hasMessageBus b then forward (getTopic eventCopy) eventCopy w else w)
      in (b, w))"

definition publishAsync :: "('cb \<Rightarrow> 'j DeviceEvent \<Rightarrow> 'w \<Rightarrow> 'w) \<Rightarrow> (string \<Rightarrow> 'j DeviceEvent \<Rightarrow> 'w \<Rightarrow> 'w)
    \<Rightarrow> 'j DeviceEvent \<Rightarrow> ('j, 'cb) event_bus \<Rightarrow> 'w \<Rightarrow> ('j, 'cb) event_bus \<times> 'w" where
  "publishAsync run forward e b w =
     (if \<not> eb_hasMessageBus b then DeviceEventBus_publish run forward e b w
      else let (eventCopy, b) = numbered e b in (b, forward (getTopic eventCopy) eventCopy w))"

definition publishDelayed :: "('cb \<Rightarrow> 'j DeviceEvent \<Rightarrow> 'w \<Rightarrow> 'w) \<Rightarrow> (string \<Rightarrow> 'j DeviceEvent \<Rightarrow> 'w \<Rightarrow> 'w)
    \<Rightarrow> (string \<Rightarrow> 'j DeviceEvent \<Rightarrow> int \<Rightarrow> 'w \<Rightarrow> 'w)
    \<Rightarrow> 'j DeviceEvent \<Rightarrow> int \<Rightarrow> ('j, 'cb) event_bus \<Rightarrow> 'w \<Rightarrow> ('j, 'cb) event_bus \<times> 'w" where
  "publishDelayed run forward forwardLater e delayMs b w =
     (if \<not> eb_hasMessageBus b then DeviceEventBus_publish run forward e b w
      else let (eventCopy, b) = numbered e b in (b, forwardLater (getTopic eventCopy) eventCopy delayMs w))"

text \<open>The history is a bounded log, so it always shows the newest of the recorded events.\<close>

lemma recordEvent_recent: "rev (eb_eventHistory (recordEvent e b)) = take (eb_maxHistorySize b) (e # rev (eb_eventHistory b))"
proof -
  have "rev (drop (length h - n) h) = take n (rev h)" for n and h :: "'a DeviceEvent list"
    using rev_drop [of "length h - n" h] by (cases "n \<le> length h") auto
  from this [of "eb_eventHistory b @ [e]" "eb_maxHistorySize b"] show ?thesis
    by (auto simp: recordEvent_def Let_def not_less simp del: drop_append)
qed

interpretation event_log: bounded_log "\<lambda>e b. Some (recordEvent e b)" "\<lambda>b. rev (eb_eventHistory b)" eb_maxHistorySize
  "\<lambda>b. length (eb_eventHistory b) \<le> eb_maxHistorySize b"
  by unfold_locales (auto simp: recordEvent_recent, auto simp: recordEvent_def Let_def)

lemma foldl_recordEvent:
  assumes "length (eb_eventHistory b) \<le> eb_maxHistorySize b"
  shows "rev (eb_eventHistory (foldl (\<lambda>b e. recordEvent e b) b es)) = take (eb_maxHistorySize b) (rev es @ rev (eb_eventHistory b))"
proof -
  have "event_log.push_all es b = Some (foldl (\<lambda>b e. recordEvent e b) b es)" for b :: "('a, 'b) event_bus"
    by (induction es arbitrary: b) auto
  then show ?thesis using event_log.push_all_recent [OF assms, of es] assms by simp
qed

section \<open>Publishers that run at the same time\<close>

text \<open>
  The calls of \<^verbatim>\<open>publish\<close> that run on any threads, each with the place it has reached and its event.
  The counters are atomic, the counts per type and the history are changed under the lock, and the
  subscribers are called one by one under a shared lock, so calls of different publishers mix. The
  list of subscribers does not change meanwhile. What callbacks and message bus receive is recorded.
\<close>

datatype 'cb place = Start | Numbered | Counted | Tallied | Noted | Dispatching "'cb Subscription list" | Finished

record ('j, 'cb) pub_state =
  ps_bus :: "('j, 'cb) event_bus"
  ps_calls :: "('cb place \<times> 'j DeviceEvent) multiset"
  ps_delivered :: "('cb Subscription \<times> 'j DeviceEvent) list"
  ps_forwarded :: "(string \<times> 'j DeviceEvent) list"

inductive pub_step :: "('j, 'cb) pub_state \<Rightarrow> ('j, 'cb) pub_state \<Rightarrow> bool" where
  pub_number: "ps_calls s = add_mset (Start, e) m \<Longrightarrow> numbered e (ps_bus s) = (e', b) \<Longrightarrow>
    pub_step s (s\<lparr>ps_bus := b, ps_calls := add_mset (Numbered, e') m\<rparr>)"
| pub_count: "ps_calls s = add_mset (Numbered, e) m \<Longrightarrow>
    pub_step s (s\<lparr>ps_bus := count_published (ps_bus s), ps_calls := add_mset (Counted, e) m\<rparr>)"
| pub_tally: "ps_calls s = add_mset (Counted, e) m \<Longrightarrow>
    pub_step s (s\<lparr>ps_bus := count_type (ev_type e) (ps_bus s), ps_calls := add_mset (Tallied, e) m\<rparr>)"
| pub_record: "ps_calls s = add_mset (Tallied, e) m \<Longrightarrow>
    pub_step s (s\<lparr>ps_bus := if eb_historyEnabled (ps_bus s) then recordEvent e (ps_bus s) else ps_bus s,
                 ps_calls := add_mset (Noted, e) m\<rparr>)"
| pub_lock: "ps_calls s = add_mset (Noted, e) m \<Longrightarrow>
    pub_step s (s\<lparr>ps_calls := add_mset (Dispatching (eb_subscriptions (ps_bus s)), e) m\<rparr>)"
| pub_deliver: "ps_calls s = add_mset (Dispatching (x # xs), e) m \<Longrightarrow>
    pub_step s (s\<lparr>ps_calls := add_mset (Dispatching xs, e) m,
                 ps_delivered := ps_delivered s @ (if sub_matches e x then [(x, e)] else [])\<rparr>)"
| pub_forward: "ps_calls s = add_mset (Dispatching [], e) m \<Longrightarrow>
    pub_step s (s\<lparr>ps_calls := add_mset (Finished, e) m,
                 ps_forwarded := ps_forwarded s @
                   (if eb_asyncEnabled (ps_bus s) \<and> eb_hasMessageBus (ps_bus s) then [(getTopic e, e)] else [])\<rparr>)"

inductive_cases pub_stepE: "pub_step s s'"

definition pub_start :: "('j, 'cb) event_bus \<Rightarrow> 'j DeviceEvent list \<Rightarrow> ('j, 'cb) pub_state" where
  "pub_start b es = \<lparr>ps_bus = b, ps_calls = mset (map (Pair Start) es), ps_delivered = [], ps_forwarded = []\<rparr>"

primrec rank :: "'cb place \<Rightarrow> nat" where
  "rank Start = 0"
| "rank Numbered = 1"
| "rank Counted = 2"
| "rank Tallied = 3"
| "rank Noted = 4"
| "rank (Dispatching xs) = 5"
| "rank Finished = 6"

text \<open>The events of the calls that have reached a place, and what a call still has to deliver.\<close>

definition reached :: "nat \<Rightarrow> ('cb place \<times> 'j DeviceEvent) multiset \<Rightarrow> 'j DeviceEvent multiset" where
  "reached n m = image_mset snd (filter_mset (\<lambda>x. n \<le> rank (fst x)) m)"

definition due :: "'cb Subscription list \<Rightarrow> 'j DeviceEvent \<Rightarrow> ('cb Subscription \<times> 'j DeviceEvent) multiset" where
  "due xs e = mset (map (\<lambda>x. (x, e)) (filter (sub_matches e) xs))"

definition pending :: "'cb place \<times> 'j DeviceEvent \<Rightarrow> ('cb Subscription \<times> 'j DeviceEvent) multiset" where
  "pending x = (case fst x of Dispatching xs \<Rightarrow> due xs (snd x) | _ \<Rightarrow> {#})"

definition unnumbered :: "'j DeviceEvent \<Rightarrow> 'j DeviceEvent" where
  "unnumbered e = e\<lparr>ev_sequenceNumber := 0, ev_category := getEventCategory (ev_type e)\<rparr>"

lemma reached_add [simp]: "reached n (add_mset x m) = (if n \<le> rank (fst x) then add_mset (snd x) (reached n m) else reached n m)"
  by (simp add: reached_def)

text \<open>The configuration of the bus, which publishing leaves alone.\<close>

definition same_setup :: "('j, 'cb) event_bus \<Rightarrow> ('j, 'cb) event_bus \<Rightarrow> bool" where
  "same_setup b b' \<longleftrightarrow> eb_hasMessageBus b' = eb_hasMessageBus b \<and> eb_subscriptions b' = eb_subscriptions b
     \<and> eb_maxHistorySize b' = eb_maxHistorySize b \<and> eb_asyncEnabled b' = eb_asyncEnabled b
     \<and> eb_historyEnabled b' = eb_historyEnabled b"

text \<open>
  The history holds the newest of the old entries and the events \<open>R\<close>, in some order of the latter; the
  message bus has received the events \<open>R\<close>.
\<close>

definition history_ok :: "('j, 'cb) event_bus \<Rightarrow> 'j DeviceEvent list \<Rightarrow> 'j DeviceEvent multiset \<Rightarrow> bool" where
  "history_ok b h R \<longleftrightarrow> (\<exists>noted. mset noted = (if eb_historyEnabled b then R else {#})
     \<and> (length (eb_eventHistory b) \<le> eb_maxHistorySize b \<longrightarrow>
         h = drop (length (eb_eventHistory b @ noted) - eb_maxHistorySize b) (eb_eventHistory b @ noted)))"

definition forwards :: "('j, 'cb) event_bus \<Rightarrow> 'j DeviceEvent multiset \<Rightarrow> (string \<times> 'j DeviceEvent) multiset" where
  "forwards b R = (if eb_asyncEnabled b \<and> eb_hasMessageBus b then image_mset (\<lambda>e. (getTopic e, e)) R else {#})"

definition pub_inv :: "('j, 'cb) event_bus \<Rightarrow> 'j DeviceEvent list \<Rightarrow> ('j, 'cb) pub_state \<Rightarrow> bool" where
  "pub_inv b es s \<longleftrightarrow> same_setup b (ps_bus s)
     \<and> image_mset (\<lambda>x. unnumbered (snd x)) (ps_calls s) = image_mset unnumbered (mset es)
     \<and> (\<forall>e \<in># reached 1 (ps_calls s). ev_category e = getEventCategory (ev_type e))
     \<and> image_mset ev_sequenceNumber (reached 1 (ps_calls s)) = mset_set {eb_sequenceCounter b..<eb_sequenceCounter (ps_bus s)}
     \<and> eb_sequenceCounter b \<le> eb_sequenceCounter (ps_bus s)
     \<and> eb_publishedCount (ps_bus s) = eb_publishedCount b + size (reached 2 (ps_calls s))
     \<and> (\<forall>t. lookup_or 0 (eb_eventCounts (ps_bus s)) t
          = lookup_or 0 (eb_eventCounts b) t + size (filter_mset (\<lambda>e. ev_type e = t) (reached 3 (ps_calls s))))
     \<and> history_ok b (eb_eventHistory (ps_bus s)) (reached 4 (ps_calls s))
     \<and> mset (ps_delivered s) + \<Sum>\<^sub># (image_mset pending (ps_calls s))
          = \<Sum>\<^sub># (image_mset (due (eb_subscriptions b)) (reached 5 (ps_calls s)))
     \<and> mset (ps_forwarded s) = forwards b (reached 6 (ps_calls s))"

lemma history_ok_empty: "history_ok b (eb_eventHistory b) {#}"
  by (simp add: history_ok_def)

lemma forwards_simps [simp]:
  "forwards b {#} = {#}"
  "forwards b (add_mset e R) = (if eb_asyncEnabled b \<and> eb_hasMessageBus b then add_mset (getTopic e, e) (forwards b R) else forwards b R)"
  by (simp_all add: forwards_def)

lemma mset_set_upto: "a \<le> c \<Longrightarrow> mset_set {a..<Suc c} = add_mset c (mset_set {a..<c})"
  by (simp add: atLeastLessThanSuc)

lemma numbered_eq:
  "numbered e b = (e\<lparr>ev_sequenceNumber := eb_sequenceCounter b, ev_category := getEventCategory (ev_type e)\<rparr>,
     b\<lparr>eb_sequenceCounter := eb_sequenceCounter b + 1\<rparr>)"
  by (simp add: numbered_def nextSequenceNumber_def)

lemma pub_inv_start: "pub_inv b es (pub_start b es)"
proof -
  have r: "reached n (image_mset (Pair Start) (mset es)) = {#}" if "0 < n" for n
    using that by (induction es) (auto simp: reached_def)
  have p: "(\<Sum>x\<in>#mset es. pending (Start, x)) = {#}" by (induction es) (auto simp: pending_def)
  show ?thesis
    by (simp add: pub_inv_def pub_start_def same_setup_def r p multiset.map_comp comp_def history_ok_empty)
qed

lemma due_Nil [simp]: "due [] e = {#}"
  by (simp add: due_def)

lemma drop_history:
  "(let h = drop (length y - n) y @ [e] in if length h > n then drop (length h - n) h else h)
    = drop (length (y @ [e]) - n) (y @ [e])"
proof (cases "length y \<le> n")
  case True
  then show ?thesis by (auto simp: Let_def)
next
  case False
  then have l: "length (drop (length y - n) y) = n" by simp
  have "Suc (length y) - n = Suc (length y - n)" using False by simp
  moreover have "drop (length y - n) y @ [e] = drop (length y - n) (y @ [e])" by simp
  then have "drop (Suc 0) (drop (length y - n) y @ [e]) = drop (Suc (length y - n)) (y @ [e])" by (simp only: drop_drop) simp
  ultimately show ?thesis using l by (simp add: Let_def)
qed

lemma history_ok_record:
  assumes "history_ok b (eb_eventHistory b') R" "same_setup b b'"
  shows "history_ok b (eb_eventHistory (if eb_historyEnabled b' then recordEvent e b' else b')) (add_mset e R)"
proof -
  obtain noted where n: "mset noted = (if eb_historyEnabled b then R else {#})"
    "length (eb_eventHistory b) \<le> eb_maxHistorySize b \<longrightarrow> eb_eventHistory b' =
      drop (length (eb_eventHistory b @ noted) - eb_maxHistorySize b) (eb_eventHistory b @ noted)"
    using assms(1) by (auto simp: history_ok_def)
  show ?thesis
  proof (cases "eb_historyEnabled b")
    case True
    have "eb_eventHistory (recordEvent e b') =
        drop (length (eb_eventHistory b @ (noted @ [e])) - eb_maxHistorySize b) (eb_eventHistory b @ (noted @ [e]))"
      if "length (eb_eventHistory b) \<le> eb_maxHistorySize b"
    proof -
      have "eb_eventHistory (recordEvent e b') = (let h = eb_eventHistory b' @ [e] in
          if length h > eb_maxHistorySize b then drop (length h - eb_maxHistorySize b) h else h)"
        using assms(2) by (simp add: recordEvent_def same_setup_def Let_def)
      also have "\<dots> = drop (length ((eb_eventHistory b @ noted) @ [e]) - eb_maxHistorySize b) ((eb_eventHistory b @ noted) @ [e])"
        unfolding mp [OF n(2) that] by (rule drop_history)
      finally show ?thesis unfolding append_assoc .
    qed
    then show ?thesis using n(1) True assms(2) unfolding history_ok_def
      by (intro exI [of _ "noted @ [e]"]) (simp add: same_setup_def)
  next
    case False
    then show ?thesis using n assms(2) unfolding history_ok_def
      by (intro exI [of _ noted]) (simp add: same_setup_def)
  qed
qed

lemma pub_inv_step:
  assumes "pub_inv b es s" "pub_step s s'"
  shows "pub_inv b es s'"
  using assms(2)
proof cases
  case 1: (pub_number e m e' b')
  have e: "e' = e\<lparr>ev_sequenceNumber := eb_sequenceCounter (ps_bus s), ev_category := getEventCategory (ev_type e)\<rparr>"
    "b' = (ps_bus s)\<lparr>eb_sequenceCounter := eb_sequenceCounter (ps_bus s) + 1\<rparr>" using 1(3) by (simp_all add: numbered_eq)
  have u: "unnumbered e' = unnumbered e" by (simp add: e(1) unnumbered_def)
  show ?thesis using assms(1) mset_set_upto unfolding pub_inv_def 1(1) 1(2)
    by (simp add: same_setup_def u pending_def) (simp add: e)
next
  case 2: (pub_count e m)
  then show ?thesis using assms(1) by (simp add: pub_inv_def same_setup_def count_published_def pending_def)
next
  case 3: (pub_tally e m)
  then show ?thesis using assms(1) by (simp add: pub_inv_def same_setup_def count_type_def pending_def)
next
  case 4: (pub_record e m)
  have h: "history_ok b (eb_eventHistory (if eb_historyEnabled (ps_bus s) then recordEvent e (ps_bus s) else ps_bus s))
      (add_mset e (reached 4 m))"
    using assms(1) 4(2) by (intro history_ok_record) (simp_all add: pub_inv_def)
  have o: "same_setup b (if eb_historyEnabled (ps_bus s) then recordEvent e (ps_bus s) else ps_bus s)"
    "eb_sequenceCounter (if eb_historyEnabled (ps_bus s) then recordEvent e (ps_bus s) else ps_bus s) = eb_sequenceCounter (ps_bus s)"
    "eb_publishedCount (if eb_historyEnabled (ps_bus s) then recordEvent e (ps_bus s) else ps_bus s) = eb_publishedCount (ps_bus s)"
    "eb_eventCounts (if eb_historyEnabled (ps_bus s) then recordEvent e (ps_bus s) else ps_bus s) = eb_eventCounts (ps_bus s)"
    using assms(1) by (simp_all add: pub_inv_def same_setup_def recordEvent_def Let_def)
  show ?thesis using assms(1) h unfolding pub_inv_def 4(1) 4(2)
    by (simp add: o pending_def)
next
  case 5: (pub_lock e m)
  have "eb_subscriptions (ps_bus s) = eb_subscriptions b" using assms(1) by (simp add: pub_inv_def same_setup_def)
  then show ?thesis using assms(1) 5 by (simp add: pub_inv_def pending_def)
next
  case 6: (pub_deliver x xs e m)
  have "due (x # xs) e = (if sub_matches e x then {#(x, e)#} else {#}) + due xs e" by (simp add: due_def)
  then show ?thesis using assms(1) 6 by (cases "sub_matches e x") (simp_all add: pub_inv_def pending_def)
next
  case 7: (pub_forward e m)
  then show ?thesis using assms(1) by (simp add: pub_inv_def pending_def same_setup_def)
qed

lemma pub_run_inv: "pub_step\<^sup>*\<^sup>* (pub_start b es) s \<Longrightarrow> pub_inv b es s"
  by (induction rule: rtranclp_induct) (auto intro: pub_inv_start pub_inv_step)

text \<open>Every call can run to its end.\<close>

lemma run_dispatch:
  "ps_calls s = add_mset (Dispatching xs, e) m \<Longrightarrow> \<exists>s'. pub_step\<^sup>*\<^sup>* s s' \<and> ps_calls s' = add_mset (Finished, e) m"
proof (induction xs arbitrary: s)
  case Nil
  obtain s1 where "pub_step s s1" "ps_calls s1 = add_mset (Finished, e) m" using pub_forward [OF Nil] by fastforce
  then show ?case by blast
next
  case (Cons x xs)
  obtain s1 where s1: "pub_step s s1" "ps_calls s1 = add_mset (Dispatching xs, e) m"
    using pub_deliver [OF Cons.prems] by fastforce
  from Cons.IH [OF s1(2)] s1(1) show ?case by (meson converse_rtranclp_into_rtranclp)
qed

lemma run_call:
  assumes "ps_calls s = add_mset (Start, e) m"
  shows "\<exists>s' e'. pub_step\<^sup>*\<^sup>* s s' \<and> ps_calls s' = add_mset (Finished, e') m"
proof -
  obtain e' b where n: "numbered e (ps_bus s) = (e', b)" by fastforce
  obtain s1 where s1: "pub_step s s1" "ps_calls s1 = add_mset (Numbered, e') m" using pub_number [OF assms n] by fastforce
  obtain s2 where s2: "pub_step s1 s2" "ps_calls s2 = add_mset (Counted, e') m" using pub_count [OF s1(2)] by fastforce
  obtain s3 where s3: "pub_step s2 s3" "ps_calls s3 = add_mset (Tallied, e') m" using pub_tally [OF s2(2)] by fastforce
  obtain s4 where s4: "pub_step s3 s4" "ps_calls s4 = add_mset (Noted, e') m" using pub_record [OF s3(2)] by fastforce
  obtain s5 xs where s5: "pub_step s4 s5" "ps_calls s5 = add_mset (Dispatching xs, e') m" using pub_lock [OF s4(2)] by fastforce
  from run_dispatch [OF s5(2)] obtain s6 where "pub_step\<^sup>*\<^sup>* s5 s6" "ps_calls s6 = add_mset (Finished, e') m" by blast
  with s1(1) s2(1) s3(1) s4(1) s5(1) show ?thesis by (meson converse_rtranclp_into_rtranclp)
qed

lemma run_all:
  "ps_calls s = mset (map (Pair Start) es) + m \<Longrightarrow> \<forall>x \<in># m. fst x = Finished \<Longrightarrow>
   \<exists>s'. pub_step\<^sup>*\<^sup>* s s' \<and> (\<forall>x \<in># ps_calls s'. fst x = Finished)"
proof (induction es arbitrary: s m)
  case (Cons e es)
  then have "ps_calls s = add_mset (Start, e) (mset (map (Pair Start) es) + m)" by simp
  from run_call [OF this] obtain s1 e' where
    s1: "pub_step\<^sup>*\<^sup>* s s1" "ps_calls s1 = mset (map (Pair Start) es) + add_mset (Finished, e') m" by auto
  from Cons.IH [OF s1(2)] Cons.prems(2) obtain s' where
    "pub_step\<^sup>*\<^sup>* s1 s'" "\<forall>x \<in># ps_calls s'. fst x = Finished" by auto
  then show ?case using s1(1) by (meson rtranclp_trans)
qed auto

section \<open>Properties\<close>

lemma reached_finished: "\<forall>x \<in># m. fst x = Finished \<Longrightarrow> n \<le> 6 \<Longrightarrow> reached n m = image_mset snd m"
  by (induction m) (auto simp: reached_def)

lemma pending_finished: "\<forall>x \<in># m. fst x = Finished \<Longrightarrow> \<Sum>\<^sub># (image_mset pending m) = {#}"
  by (induction m) (auto simp: pending_def)

text \<open>
  C25: publishers do not disturb each other. Whatever way any number of concurrent calls of publish
  interleave, when all have finished the published events are the given ones, each with its category
  and with a number of its own, and the numbers are consecutive; the counters have grown by exactly the
  number of calls, in total and per type; every subscriber whose filters match has received every
  event exactly once and no other subscriber any; the message bus, if there is one, has received each
  event once; and the history is the newest part of the old history and the events, in some order.
\<close>

theorem publish_concurrent:
  assumes "pub_step\<^sup>*\<^sup>* (pub_start b es) s" "\<forall>x \<in># ps_calls s. fst x = Finished"
    "events = image_mset snd (ps_calls s)" "length (eb_eventHistory b) \<le> eb_maxHistorySize b" "eb_historyEnabled b"
  shows "image_mset unnumbered events = image_mset unnumbered (mset es)
    \<and> (\<forall>e \<in># events. ev_category e = getEventCategory (ev_type e))
    \<and> image_mset ev_sequenceNumber events = mset_set {eb_sequenceCounter b..<eb_sequenceCounter b + length es}
    \<and> eb_publishedCount (ps_bus s) = eb_publishedCount b + length es
    \<and> lookup_or 0 (eb_eventCounts (ps_bus s)) t = lookup_or 0 (eb_eventCounts b) t + size (filter_mset (\<lambda>e. ev_type e = t) events)
    \<and> mset (ps_delivered s) = \<Sum>\<^sub># (image_mset (due (eb_subscriptions b)) events)
    \<and> mset (ps_forwarded s) = (if eb_asyncEnabled b \<and> eb_hasMessageBus b then image_mset (\<lambda>e. (getTopic e, e)) events else {#})
    \<and> (\<exists>noted. mset noted = events
        \<and> eb_eventHistory (ps_bus s) = drop (length (eb_eventHistory b @ noted) - eb_maxHistorySize b) (eb_eventHistory b @ noted))"
proof -
  have inv: "pub_inv b es s" by (rule pub_run_inv [OF assms(1)])
  have r: "reached n (ps_calls s) = events" if "n \<le> 6" for n using reached_finished [OF assms(2) that] assms(3) by simp
  have u: "image_mset unnumbered events = image_mset unnumbered (mset es)"
    using inv by (simp add: pub_inv_def assms(3) multiset.map_comp comp_def)
  then have size: "size events = length es" by (metis size_image_mset size_mset)
  have n: "image_mset ev_sequenceNumber events = mset_set {eb_sequenceCounter b..<eb_sequenceCounter (ps_bus s)}"
    "eb_sequenceCounter b \<le> eb_sequenceCounter (ps_bus s)" using inv r [of 1] by (simp_all add: pub_inv_def)
  have "size (image_mset ev_sequenceNumber events) = eb_sequenceCounter (ps_bus s) - eb_sequenceCounter b"
    unfolding n(1) by simp
  then have "eb_sequenceCounter (ps_bus s) = eb_sequenceCounter b + length es" using n(2) size by simp
  moreover have "\<exists>noted. mset noted = events
      \<and> eb_eventHistory (ps_bus s) = drop (length (eb_eventHistory b @ noted) - eb_maxHistorySize b) (eb_eventHistory b @ noted)"
    using inv r [of 4] assms(4,5) unfolding pub_inv_def history_ok_def by simp
  ultimately show ?thesis using inv u n size pending_finished [OF assms(2)] r
    unfolding pub_inv_def forwards_def by simp
qed

definition some_event :: "unit DeviceEvent" where
  "some_event = \<lparr>ev_type = DeviceAdded, ev_category = SystemCategory, ev_source = ''cam'', ev_target = [],
     ev_message = [], ev_data = (), ev_timestamp = 0, ev_sequenceNumber = 0\<rparr>"

theorem publish_concurrent_witness:
  "\<exists>s. pub_step\<^sup>*\<^sup>* (pub_start (snd (subscribe DeviceAdded (7 :: nat) DeviceEventBus_new)) [some_event, some_event]) s
     \<and> eb_publishedCount (ps_bus s) = 2"
proof -
  let ?b = "snd (subscribe DeviceAdded (7 :: nat) DeviceEventBus_new)" and ?es = "[some_event, some_event]"
  have "ps_calls (pub_start ?b ?es) = mset (map (Pair Start) ?es) + {#}" by (simp add: pub_start_def)
  from run_all [OF this] obtain s where
    s: "pub_step\<^sup>*\<^sup>* (pub_start ?b ?es) s" "\<forall>x \<in># ps_calls s. fst x = Finished" by auto
  have b: "length (eb_eventHistory ?b) \<le> eb_maxHistorySize ?b" "eb_historyEnabled ?b" "eb_publishedCount ?b = 0"
    by (simp_all add: subscribe_def add_subscription_def DeviceEventBus_new_def)
  from publish_concurrent [OF s refl b(1,2)] s(1) show ?thesis by (auto simp: b(3))
qed

text \<open>With a message bus an asynchronous event is numbered, but neither counted, recorded nor dispatched.\<close>

lemma publishAsync_bypasses:
  "eb_hasMessageBus b \<Longrightarrow> publishAsync run forward e b w
     = (b\<lparr>eb_sequenceCounter := eb_sequenceCounter b + 1\<rparr>,
        forward (getTopic e) (e\<lparr>ev_sequenceNumber := eb_sequenceCounter b, ev_category := getEventCategory (ev_type e)\<rparr>) w)"
  by (simp add: publishAsync_def numbered_eq getTopic_def)

text \<open>The query by type returns the newest events of the type, oldest first.\<close>

lemma byTypeLoop_eq:
  "length result \<le> n \<Longrightarrow> byTypeLoop ty n es result = result @ take (n - length result) (filter (\<lambda>e. ev_type e = ty) es)"
proof (induction ty n es result rule: byTypeLoop.induct)
  case (2 ty n e es result)
  have "n - length result = Suc (n - Suc (length result))" if "length result < n" using that by simp
  then show ?case using 2 by auto
qed simp

lemma getEventsByType_eq:
  "getEventsByType ty n b = (let h = filter (\<lambda>e. ev_type e = ty) (eb_eventHistory b) in drop (length h - n) h)"
  by (simp add: getEventsByType_def byTypeLoop_eq Let_def rev_filter [symmetric] rev_take)

end
