(* ===== verification/Component_Manager.thy ===== *)
theory Component_Manager
  imports Dependency_Graph
begin

text \<open>
  The component manager, \<^verbatim>\<open>src/src/components/manager/manager_impl.cpp\<close>, on top of the dependency graph.
  The mutex of the manager is a \<^verbatim>\<open>std::mutex\<close>, so a thread that locks it while it holds it never gets
  on: the operations are explicit about the lock and give \<open>None\<close> when they do not return. What is
  outside, the object pool, the module loader, the file system, the JSON library and the listeners, is the
  environment \<open>manager_env\<close>, which acts on a world; a listener that throws is the effect it had before.
  The parameters of a request are what the accesses to its JSON document give.
\<close>

section \<open>States and events\<close>

datatype ComponentEvent =
    PreLoad | PostLoad | PreUnload | PostUnload | ConfigChanged | StateChanged | ErrorOccurred
  | DependencyResolved | HealthCheck

datatype ComponentState = Created | Initialized | Running | Paused | Stopped | Faulty | Unloading | Disabled

fun isValidStateTransition :: "ComponentState \<Rightarrow> ComponentState \<Rightarrow> bool" where
  "isValidStateTransition frm to =
     (if to = Faulty \<or> to = Disabled then True
      else case frm of
          Created \<Rightarrow> to = Initialized \<or> to = Stopped
        | Initialized \<Rightarrow> to = Running \<or> to = Stopped
        | Running \<Rightarrow> to = Paused \<or> to = Stopped \<or> to = Unloading
        | Paused \<Rightarrow> to = Running \<or> to = Stopped
        | Stopped \<Rightarrow> to = Initialized \<or> to = Unloading
        | Faulty \<Rightarrow> to = Stopped \<or> to = Initialized
        | Unloading \<Rightarrow> False
        | Disabled \<Rightarrow> to = Created)"

definition isActiveState :: "ComponentState \<Rightarrow> bool" where
  "isActiveState s \<longleftrightarrow> s = Running \<or> s = Paused"

definition isTerminalState :: "ComponentState \<Rightarrow> bool" where
  "isTerminalState s \<longleftrightarrow> s = Unloading"

record 'j ComponentOptions =
  op_autoStart :: bool
  op_lazy :: bool
  op_priority :: int
  op_group :: string
  op_config :: 'j
  op_timeout :: int
  op_restartOnError :: bool
  op_maxRetries :: int

text \<open>A component is a shared pointer, which may be null. \<open>mg_locked\<close> is the mutex, held by the caller.\<close>

record ('c, 'j, 'cb) manager =
  mg_graph :: graph
  mg_components :: "'c option umap"
  mg_options :: "'j ComponentOptions umap"
  mg_states :: "ComponentState umap"
  mg_locked :: bool
  mg_lastError :: string
  mg_listeners :: "(ComponentEvent \<times> 'cb list) list"
  mg_directory :: string
  mg_groups :: "string list umap"

record ('c, 'j, 'cb, 'w) manager_env =
  en_acquire :: "'w \<Rightarrow> 'c option option \<times> 'w"
  en_loadModule :: "string \<Rightarrow> string \<Rightarrow> 'w \<Rightarrow> bool \<times> 'w"
  en_unloadModule :: "string \<Rightarrow> 'w \<Rightarrow> bool \<times> 'w"
  en_unloadAll :: "'w \<Rightarrow> bool \<times> 'w"
  en_call :: "'cb \<Rightarrow> string \<Rightarrow> ComponentEvent \<Rightarrow> 'j \<Rightarrow> 'w \<Rightarrow> 'w"
  en_exists :: "string \<Rightarrow> 'w \<Rightarrow> bool"
  en_null :: 'j

record load_params =
  lp_name :: "string result"
  lp_path :: "string result"
  lp_version :: "string result"
  lp_dependencies :: "string list result option"

section \<open>The mutex\<close>

definition lock_mutex :: "('c, 'j, 'cb) manager \<Rightarrow> ('c, 'j, 'cb) manager option" where
  "lock_mutex mg = (if mg_locked mg then None else Some (mg\<lparr>mg_locked := True\<rparr>))"

definition unlock_mutex :: "('c, 'j, 'cb) manager \<Rightarrow> ('c, 'j, 'cb) manager" where
  "unlock_mutex mg = mg\<lparr>mg_locked := False\<rparr>"

definition hasComponent :: "string \<Rightarrow> ('c, 'j, 'cb) manager \<Rightarrow> (bool \<times> ('c, 'j, 'cb) manager) option" where
  "hasComponent name mg =
     (case lock_mutex mg of
        None \<Rightarrow> None
      | Some mg \<Rightarrow> Some (map_of (mg_components mg) name \<noteq> None, unlock_mutex mg))"

definition getComponent :: "string \<Rightarrow> ('c, 'j, 'cb) manager \<Rightarrow> ('c option option \<times> ('c, 'j, 'cb) manager) option" where
  "getComponent name mg =
     (case lock_mutex mg of
        None \<Rightarrow> None
      | Some mg \<Rightarrow> Some (map_of (mg_components mg) name, unlock_mutex mg))"

definition getComponentList :: "('c, 'j, 'cb) manager \<Rightarrow> (string list \<times> ('c, 'j, 'cb) manager) option" where
  "getComponentList mg =
     (case lock_mutex mg of
        None \<Rightarrow> None
      | Some mg \<Rightarrow> Some (map fst (mg_components mg), unlock_mutex mg))"

definition getComponentDoc :: "string \<Rightarrow> ('c, 'j, 'cb) manager \<Rightarrow> (string \<times> ('c, 'j, 'cb) manager) option" where
  "getComponentDoc name mg =
     (case lock_mutex mg of
        None \<Rightarrow> None
      | Some mg \<Rightarrow> Some (if map_of (mg_components mg) name \<noteq> None
          then ''Component documentation for '' @ name else [], unlock_mutex mg))"

definition validateComponentOperation :: "string \<Rightarrow> ('c, 'j, 'cb) manager \<Rightarrow> (bool \<times> ('c, 'j, 'cb) manager) option" where
  "validateComponentOperation name mg =
     (case lock_mutex mg of
        None \<Rightarrow> None
      | Some mg \<Rightarrow> Some (map_of (mg_components mg) name \<noteq> None, unlock_mutex mg))"

text \<open>An invalid transition is logged and made all the same.\<close>

definition updateComponentState ::
  "string \<Rightarrow> ComponentState \<Rightarrow> ('c, 'j, 'cb) manager \<Rightarrow> ('c, 'j, 'cb) manager option" where
  "updateComponentState name newState mg =
     (case lock_mutex mg of
        None \<Rightarrow> None
      | Some mg \<Rightarrow> Some (unlock_mutex (mg\<lparr>mg_states := AList.update name newState (mg_states mg)\<rparr>)))"

definition notifyListeners :: "('c, 'j, 'cb, 'w) manager_env \<Rightarrow> string \<Rightarrow> ComponentEvent \<Rightarrow> 'j \<Rightarrow> ('c, 'j, 'cb) manager \<Rightarrow> 'w \<Rightarrow> 'w" where
  "notifyListeners env component event data mg w =
     (case map_of (mg_listeners mg) event of
        None \<Rightarrow> w
      | Some callbacks \<Rightarrow> foldl (\<lambda>w cb. en_call env cb component event data w) w callbacks)"

section \<open>Loading and unloading\<close>

definition ComponentOptions_new :: "'j \<Rightarrow> 'j ComponentOptions" where
  "ComponentOptions_new null = \<lparr>op_autoStart = True, op_lazy = False, op_priority = 0, op_group = [], op_config = null,
     op_timeout = 30000, op_restartOnError = False, op_maxRetries = 3\<rparr>"

fun addDependencies :: "string \<Rightarrow> string list \<Rightarrow> version \<Rightarrow> graph \<Rightarrow> bool \<times> graph" where
  "addDependencies name [] ver g = (True, g)"
| "addDependencies name (dep # deps) ver g =
     (case addDependency name dep ver g of
        Inl e \<Rightarrow> (False, g)
      | Inr g' \<Rightarrow> addDependencies name deps ver g')"

text \<open>
  The part of \<^verbatim>\<open>loadComponent\<close> up to the module loader. An exception ends it and keeps what the graph
  has got; the result is the name, the instance and whether the module was loaded.
\<close>

definition prepare_load :: "('c, 'j, 'cb, 'w) manager_env \<Rightarrow> load_params \<Rightarrow> ('c, 'j, 'cb) manager \<Rightarrow> 'w
    \<Rightarrow> (string \<times> 'c option) option \<times> ('c, 'j, 'cb) manager \<times> 'w" where
  "prepare_load env p mg w =
     (case lp_name p of
        Inl _ \<Rightarrow> (None, mg, w)
      | Inr name \<Rightarrow>
        (case en_acquire env w of
           (None, w) \<Rightarrow> (None, mg, w)
         | (Some instance, w) \<Rightarrow>
           (case lp_path p of
              Inl _ \<Rightarrow> (None, mg, w)
            | Inr path \<Rightarrow>
              (case lp_version p of
                 Inl _ \<Rightarrow> (None, mg, w)
               | Inr version \<Rightarrow>
                 (case Version_parse version of
                    Inl _ \<Rightarrow> (None, mg, w)
                  | Inr ver \<Rightarrow>
                    if map_of (mg_components mg) name \<noteq> None then (None, mg, w)
                    else (case addNode name ver (mg_graph mg) of
                        Inl _ \<Rightarrow> (None, mg, w)
                      | Inr g \<Rightarrow>
                        (case lp_dependencies p of
                           Some (Inl _) \<Rightarrow> (None, mg\<lparr>mg_graph := g\<rparr>, w)
                         | d \<Rightarrow>
                           (let deps = (case d of Some (Inr ds) \<Rightarrow> ds | _ \<Rightarrow> []);
                                (ok, g') = addDependencies name deps ver g;
                                mg' = mg\<lparr>mg_graph := g'\<rparr>
                            in if \<not> ok then (None, mg', w)
                               else case en_loadModule env path name w of
                                   (False, w) \<Rightarrow> (None, mg', w)
                                 | (True, w) \<Rightarrow> (Some (name, instance), mg', w)))))))))"

definition loadComponent :: "('c, 'j, 'cb, 'w) manager_env \<Rightarrow> load_params \<Rightarrow> ('c, 'j, 'cb) manager \<Rightarrow> 'w
    \<Rightarrow> (bool \<times> ('c, 'j, 'cb) manager \<times> 'w) option" where
  "loadComponent env p mg w =
     (case prepare_load env p mg w of
        (None, mg, w) \<Rightarrow> Some (False, mg, w)
      | (Some (name, instance), mg, w) \<Rightarrow>
        (case lock_mutex mg of
           None \<Rightarrow> None
         | Some mg \<Rightarrow>
           (case updateComponentState name Created
                (mg\<lparr>mg_components := AList.update name instance (mg_components mg),
                    mg_options := AList.update name (ComponentOptions_new (en_null env)) (mg_options mg)\<rparr>) of
              None \<Rightarrow> None
            | Some mg \<Rightarrow> Some (True, unlock_mutex mg, notifyListeners env name PostLoad (en_null env) mg w))))"

definition unloadComponent :: "('c, 'j, 'cb, 'w) manager_env \<Rightarrow> string result \<Rightarrow> ('c, 'j, 'cb) manager \<Rightarrow> 'w
    \<Rightarrow> (bool \<times> ('c, 'j, 'cb) manager \<times> 'w) option" where
  "unloadComponent env nm mg w =
     (case nm of
        Inl _ \<Rightarrow> Some (False, mg, w)
      | Inr name \<Rightarrow>
        (case lock_mutex mg of
           None \<Rightarrow> None
         | Some mg \<Rightarrow>
           if map_of (mg_components mg) name = None then Some (False, unlock_mutex mg, w)
           else
             (let w = notifyListeners env name PreUnload (en_null env) mg w;
                  w = snd (en_unloadModule env name w);
                  mg = mg\<lparr>mg_components := AList.delete name (mg_components mg),
                          mg_options := AList.delete name (mg_options mg),
                          mg_states := AList.delete name (mg_states mg),
                          mg_graph := removeNode name (mg_graph mg)\<rparr>;
                  w = notifyListeners env name PostUnload (en_null env) mg w
              in Some (True, unlock_mutex mg, w))))"

definition initializeComponent :: "string \<Rightarrow> ('c, 'j, 'cb) manager \<Rightarrow> (bool \<times> ('c, 'j, 'cb) manager) option" where
  "initializeComponent name mg =
     (case validateComponentOperation name mg of
        None \<Rightarrow> None
      | Some (False, mg) \<Rightarrow> Some (False, mg)
      | Some (True, mg) \<Rightarrow>
        (case getComponent name mg of
           None \<Rightarrow> None
         | Some (Some (Some c), mg) \<Rightarrow> map_option (Pair True) (updateComponentState name Initialized mg)
         | Some (_, mg) \<Rightarrow> Some (False, mg)))"

definition startComponent :: "('c, 'j, 'cb, 'w) manager_env \<Rightarrow> string \<Rightarrow> ('c, 'j, 'cb) manager \<Rightarrow> 'w
    \<Rightarrow> (bool \<times> ('c, 'j, 'cb) manager \<times> 'w) option" where
  "startComponent env name mg w =
     (case validateComponentOperation name mg of
        None \<Rightarrow> None
      | Some (False, mg) \<Rightarrow> Some (False, mg, w)
      | Some (True, mg) \<Rightarrow>
        (case getComponent name mg of
           None \<Rightarrow> None
         | Some (Some (Some c), mg) \<Rightarrow>
             (case updateComponentState name Running mg of
                None \<Rightarrow> None
              | Some mg \<Rightarrow> Some (True, mg, notifyListeners env name StateChanged (en_null env) mg w))
         | Some (_, mg) \<Rightarrow> Some (False, mg, w)))"

definition updateConfig :: "('c, 'j, 'cb, 'w) manager_env \<Rightarrow> string \<Rightarrow> 'j \<Rightarrow> ('c, 'j, 'cb) manager \<Rightarrow> 'w
    \<Rightarrow> (('c, 'j, 'cb) manager \<times> 'w) option" where
  "updateConfig env name config mg w =
     (case validateComponentOperation name mg of
        None \<Rightarrow> None
      | Some (False, mg) \<Rightarrow> Some (mg, w)
      | Some (True, mg) \<Rightarrow>
        (case lock_mutex mg of
           None \<Rightarrow> None
         | Some mg \<Rightarrow>
           (case map_of (mg_options mg) name of
              None \<Rightarrow> Some (unlock_mutex mg, w)
            | Some opts \<Rightarrow>
                (let mg = mg\<lparr>mg_options := AList.update name (opts\<lparr>op_config := config\<rparr>) (mg_options mg)\<rparr>
                 in Some (unlock_mutex mg, notifyListeners env name ConfigChanged config mg w)))))"

definition handleError :: "('c, 'j, 'cb, 'w) manager_env \<Rightarrow> string \<Rightarrow> string \<Rightarrow> exn \<Rightarrow> 'j \<Rightarrow> ('c, 'j, 'cb) manager \<Rightarrow> 'w
    \<Rightarrow> (('c, 'j, 'cb) manager \<times> 'w) option" where
  "handleError env name operation e data mg w =
     (case updateComponentState name Faulty (mg\<lparr>mg_lastError := operation @ '': '' @ what e\<rparr>) of
        None \<Rightarrow> None
      | Some mg \<Rightarrow> Some (mg, notifyListeners env name ErrorOccurred data mg w))"

fun addVersioned :: "string \<Rightarrow> string list \<Rightarrow> string list \<Rightarrow> graph \<Rightarrow> graph" where
  "addVersioned name [] vs g = g"
| "addVersioned name (dep # deps) vs g =
     (case (case vs of [] \<Rightarrow> Inr \<lparr>major = 1, minor = 0, patch = 0, prerelease = [], build = []\<rparr> | v # _ \<Rightarrow> Version_parse v) of
        Inl _ \<Rightarrow> g
      | Inr ver \<Rightarrow>
        (case addDependency name dep ver g of
           Inl _ \<Rightarrow> g
         | Inr g' \<Rightarrow> addVersioned name deps (tl vs) g'))"

definition updateDependencyGraph :: "string \<Rightarrow> string \<Rightarrow> string list \<Rightarrow> string list \<Rightarrow> ('c, 'j, 'cb) manager \<Rightarrow> ('c, 'j, 'cb) manager" where
  "updateDependencyGraph name version deps vs mg =
     (case Version_parse version of
        Inl _ \<Rightarrow> mg
      | Inr ver \<Rightarrow>
        (case addNode name ver (mg_graph mg) of
           Inl _ \<Rightarrow> mg
         | Inr g \<Rightarrow> mg\<lparr>mg_graph := addVersioned name deps vs g\<rparr>))"

definition ComponentManager_destroy :: "('c, 'j, 'cb, 'w) manager_env \<Rightarrow> ('c, 'j, 'cb) manager \<Rightarrow> 'w
    \<Rightarrow> bool \<times> ('c, 'j, 'cb) manager \<times> 'w" where
  "ComponentManager_destroy env mg w =
     (case en_unloadAll env w of
        (False, w) \<Rightarrow> (False, mg, w)
      | (True, w) \<Rightarrow> (True, mg\<lparr>mg_components := [], mg_options := [], mg_states := []\<rparr>, w))"

text \<open>\<^verbatim>\<open>fs::path::operator/\<close> on a platform with slashes.\<close>

definition path_append :: "string \<Rightarrow> string \<Rightarrow> string" where
  "path_append base p =
     (if p \<noteq> [] \<and> hd p = CHR ''/'' then p
      else if base = [] \<or> last base = CHR ''/'' then base @ p
      else base @ ''/'' @ p)"

definition loadComponentByName :: "('c, 'j, 'cb, 'w) manager_env \<Rightarrow> string \<Rightarrow> ('c, 'j, 'cb) manager \<Rightarrow> 'w
    \<Rightarrow> (bool \<times> ('c, 'j, 'cb) manager \<times> 'w) option" where
  "loadComponentByName env name mg w =
     (if mg_directory mg = [] then Some (False, mg, w)
      else
        (let path = path_append (mg_directory mg) (name @ ''.so'');
             path = (if \<not> en_exists env path w then path_append (mg_directory mg) (''lib'' @ name @ ''.so'') else path)
         in if \<not> en_exists env path w then Some (False, mg, w)
            else loadComponent env \<lparr>lp_name = Inr name, lp_path = Inr path, lp_version = Inr ''1.0.0'', lp_dependencies = None\<rparr> mg w))"

definition handleFileChange :: "('c, 'j, 'cb, 'w) manager_env \<Rightarrow> string \<Rightarrow> string \<Rightarrow> ('c, 'j, 'cb) manager \<Rightarrow> 'w
    \<Rightarrow> (('c, 'j, 'cb) manager \<times> 'w) option" where
  "handleFileChange env name change mg w =
     (if change = ''modified'' then
        (case hasComponent name mg of
           None \<Rightarrow> None
         | Some (False, mg) \<Rightarrow> Some (mg, w)
         | Some (True, mg) \<Rightarrow>
           (case unloadComponent env (Inr name) mg w of
              None \<Rightarrow> None
            | Some (_, mg, w) \<Rightarrow> map_option snd (loadComponentByName env name mg w)))
      else if change = ''added'' then map_option snd (loadComponentByName env name mg w)
      else if change = ''removed'' \<or> change = ''deleted'' then
        (case hasComponent name mg of
           None \<Rightarrow> None
         | Some (False, mg) \<Rightarrow> Some (mg, w)
         | Some (True, mg) \<Rightarrow> map_option snd (unloadComponent env (Inr name) mg w))
      else Some (mg, w))"

definition manager_new :: "string \<Rightarrow> (ComponentEvent \<times> 'cb list) list \<Rightarrow> ('c, 'j, 'cb) manager" where
  "manager_new dir listeners =
     \<lparr>mg_graph = DependencyGraph_new, mg_components = [], mg_options = [], mg_states = [], mg_locked = False,
      mg_lastError = [], mg_listeners = listeners, mg_directory = dir, mg_groups = []\<rparr>"

section \<open>The facade\<close>

text \<open>
  The class \<^verbatim>\<open>ComponentManager\<close> of \<^verbatim>\<open>manager.cpp\<close> forwards most calls; these are the operations it has of its own.
  \<open>change_state\<close> is the body that stopping, pausing and resuming share.
\<close>

definition change_state :: "('c, 'j, 'cb, 'w) manager_env \<Rightarrow> ComponentState \<Rightarrow> string \<Rightarrow> ('c, 'j, 'cb) manager \<Rightarrow> 'w
    \<Rightarrow> (bool \<times> ('c, 'j, 'cb) manager \<times> 'w) option" where
  "change_state env st name mg w =
     (case getComponent name mg of
        None \<Rightarrow> None
      | Some (Some (Some c), mg) \<Rightarrow>
          (case updateComponentState name st mg of
             None \<Rightarrow> None
           | Some mg \<Rightarrow> Some (True, mg, notifyListeners env name StateChanged (en_null env) mg w))
      | Some (_, mg) \<Rightarrow> Some (False, mg, w))"

definition stopComponent :: "('c, 'j, 'cb, 'w) manager_env \<Rightarrow> string \<Rightarrow> ('c, 'j, 'cb) manager \<Rightarrow> 'w
    \<Rightarrow> (bool \<times> ('c, 'j, 'cb) manager \<times> 'w) option" where
  "stopComponent env = change_state env Stopped"

definition pauseComponent :: "('c, 'j, 'cb, 'w) manager_env \<Rightarrow> string \<Rightarrow> ('c, 'j, 'cb) manager \<Rightarrow> 'w
    \<Rightarrow> (bool \<times> ('c, 'j, 'cb) manager \<times> 'w) option" where
  "pauseComponent env = change_state env Paused"

definition resumeComponent :: "('c, 'j, 'cb, 'w) manager_env \<Rightarrow> string \<Rightarrow> ('c, 'j, 'cb) manager \<Rightarrow> 'w
    \<Rightarrow> (bool \<times> ('c, 'j, 'cb) manager \<times> 'w) option" where
  "resumeComponent env = change_state env Running"

definition restartComponent :: "('c, 'j, 'cb, 'w) manager_env \<Rightarrow> string \<Rightarrow> ('c, 'j, 'cb) manager \<Rightarrow> 'w
    \<Rightarrow> (bool \<times> ('c, 'j, 'cb) manager \<times> 'w) option" where
  "restartComponent env name mg w =
     (case stopComponent env name mg w of
        None \<Rightarrow> None
      | Some (False, mg, w) \<Rightarrow> Some (False, mg, w)
      | Some (True, mg, w) \<Rightarrow> startComponent env name mg w)"

definition getComponentState :: "string \<Rightarrow> ('c, 'j, 'cb) manager \<Rightarrow> ComponentState" where
  "getComponentState name mg = (case map_of (mg_states mg) name of None \<Rightarrow> Faulty | Some st \<Rightarrow> st)"

definition getComponentsByState :: "ComponentState \<Rightarrow> ('c, 'j, 'cb) manager \<Rightarrow> string list" where
  "getComponentsByState st mg = map fst (filter (\<lambda>(n, st'). st' = st) (mg_states mg))"

definition isComponentEnabled :: "string \<Rightarrow> ('c, 'j, 'cb) manager \<Rightarrow> bool" where
  "isComponentEnabled name mg = (case map_of (mg_states mg) name of None \<Rightarrow> False | Some st \<Rightarrow> st \<noteq> Disabled)"

definition getConfig :: "('c, 'j, 'cb, 'w) manager_env \<Rightarrow> string \<Rightarrow> ('c, 'j, 'cb) manager \<Rightarrow> 'j" where
  "getConfig env name mg = (case map_of (mg_options mg) name of None \<Rightarrow> en_null env | Some opts \<Rightarrow> op_config opts)"

definition enableComponent :: "('c, 'j, 'cb, 'w) manager_env \<Rightarrow> string \<Rightarrow> ('c, 'j, 'cb) manager \<Rightarrow> 'w
    \<Rightarrow> (bool \<times> ('c, 'j, 'cb) manager \<times> 'w) option" where
  "enableComponent env name mg w =
     (if getComponentState name mg = Disabled then
        (case updateComponentState name Created mg of
           None \<Rightarrow> None
         | Some mg \<Rightarrow> Some (True, mg, notifyListeners env name StateChanged (en_null env) mg w))
      else Some (False, mg, w))"

definition disableComponent :: "('c, 'j, 'cb, 'w) manager_env \<Rightarrow> string \<Rightarrow> ('c, 'j, 'cb) manager \<Rightarrow> 'w
    \<Rightarrow> (bool \<times> ('c, 'j, 'cb) manager \<times> 'w) option" where
  "disableComponent env name mg w =
     (case getComponent name mg of
        None \<Rightarrow> None
      | Some (None, mg) \<Rightarrow> Some (False, mg, w)
      | Some (Some _, mg) \<Rightarrow>
        (case stopComponent env name mg w of
           None \<Rightarrow> None
         | Some (_, mg, w) \<Rightarrow>
           (case updateComponentState name Disabled mg of
              None \<Rightarrow> None
            | Some mg \<Rightarrow> Some (True, mg, notifyListeners env name StateChanged (en_null env) mg w))))"

text \<open>The loops over names that accumulate \<^verbatim>\<open>success &= ...\<close>.\<close>

fun each_name :: "(string \<Rightarrow> ('c, 'j, 'cb) manager \<Rightarrow> 'w \<Rightarrow> (bool \<times> ('c, 'j, 'cb) manager \<times> 'w) option)
    \<Rightarrow> string list \<Rightarrow> bool \<Rightarrow> ('c, 'j, 'cb) manager \<Rightarrow> 'w \<Rightarrow> (bool \<times> ('c, 'j, 'cb) manager \<times> 'w) option" where
  "each_name f [] success mg w = Some (success, mg, w)"
| "each_name f (name # names) success mg w =
     (case f name mg w of
        None \<Rightarrow> None
      | Some (b, mg, w) \<Rightarrow> each_name f names (success \<and> b) mg w)"

definition batchUnload :: "('c, 'j, 'cb, 'w) manager_env \<Rightarrow> string list \<Rightarrow> ('c, 'j, 'cb) manager \<Rightarrow> 'w
    \<Rightarrow> (bool \<times> ('c, 'j, 'cb) manager \<times> 'w) option" where
  "batchUnload env names mg w = each_name (\<lambda>n. unloadComponent env (Inr n)) names True mg w"

definition addToGroup :: "string \<Rightarrow> string \<Rightarrow> ('c, 'j, 'cb) manager \<Rightarrow> ('c, 'j, 'cb) manager" where
  "addToGroup name gr mg = mg\<lparr>mg_groups := AList.update gr (lookup_or [] (mg_groups mg) gr @ [name]) (mg_groups mg)\<rparr>"

definition getGroupComponents :: "string \<Rightarrow> ('c, 'j, 'cb) manager \<Rightarrow> string list" where
  "getGroupComponents gr mg = (case map_of (mg_groups mg) gr of None \<Rightarrow> [] | Some names \<Rightarrow> names)"

definition getGroups :: "('c, 'j, 'cb) manager \<Rightarrow> string list" where
  "getGroups mg = map fst (mg_groups mg)"

definition startGroup :: "('c, 'j, 'cb, 'w) manager_env \<Rightarrow> string \<Rightarrow> ('c, 'j, 'cb) manager \<Rightarrow> 'w
    \<Rightarrow> (bool \<times> ('c, 'j, 'cb) manager \<times> 'w) option" where
  "startGroup env gr mg w =
     (let names = getGroupComponents gr mg
      in if names = [] then Some (False, mg, w) else each_name (startComponent env) names True mg w)"

definition stopGroup :: "('c, 'j, 'cb, 'w) manager_env \<Rightarrow> string \<Rightarrow> ('c, 'j, 'cb) manager \<Rightarrow> 'w
    \<Rightarrow> (bool \<times> ('c, 'j, 'cb) manager \<times> 'w) option" where
  "stopGroup env gr mg w =
     (let names = getGroupComponents gr mg
      in if names = [] then Some (False, mg, w) else each_name (stopComponent env) names True mg w)"

definition addEventListener :: "ComponentEvent \<Rightarrow> 'cb \<Rightarrow> ('c, 'j, 'cb) manager \<Rightarrow> ('c, 'j, 'cb) manager" where
  "addEventListener event callback mg =
     mg\<lparr>mg_listeners := AList.update event (lookup_or [] (mg_listeners mg) event @ [callback]) (mg_listeners mg)\<rparr>"

definition removeEventListener :: "ComponentEvent \<Rightarrow> ('c, 'j, 'cb) manager \<Rightarrow> ('c, 'j, 'cb) manager" where
  "removeEventListener event mg = mg\<lparr>mg_listeners := AList.delete event (mg_listeners mg)\<rparr>"

definition clearErrors :: "('c, 'j, 'cb) manager \<Rightarrow> ('c, 'j, 'cb) manager" where
  "clearErrors mg = mg\<lparr>mg_lastError := []\<rparr>"

definition createComponent :: "('c, 'j, 'cb, 'w) manager_env \<Rightarrow> string \<Rightarrow> ('c, 'j, 'cb) manager \<Rightarrow> 'w
    \<Rightarrow> ('c option \<times> ('c, 'j, 'cb) manager \<times> 'w) option" where
  "createComponent env name mg w =
     (case loadComponent env \<lparr>lp_name = Inr name, lp_path = Inl (OtherException ''key 'path' not found''),
          lp_version = Inr ''1.0.0'', lp_dependencies = None\<rparr> mg w of
        None \<Rightarrow> None
      | Some (False, mg, w) \<Rightarrow> Some (None, mg, w)
      | Some (True, mg, w) \<Rightarrow>
        (case getComponent name mg of
           None \<Rightarrow> None
         | Some (Some c, mg) \<Rightarrow> Some (c, mg, w)
         | Some (None, mg) \<Rightarrow> Some (None, mg, w)))"

section \<open>The life of a manager\<close>

text \<open>
  What a manager and its world can become by operations that return. Between two operations the world may
  change in any way.
\<close>

inductive manager_run :: "('c, 'j, 'cb, 'w) manager_env \<Rightarrow> ('c, 'j, 'cb) manager \<Rightarrow> 'w \<Rightarrow> bool" for env where
  new: "manager_run env (manager_new dir listeners) w"
| outside: "manager_run env mg w \<Longrightarrow> manager_run env mg w'"
| load: "manager_run env mg w \<Longrightarrow> loadComponent env p mg w = Some (b, mg', w') \<Longrightarrow> manager_run env mg' w'"
| unload: "manager_run env mg w \<Longrightarrow> unloadComponent env nm mg w = Some (b, mg', w') \<Longrightarrow> manager_run env mg' w'"
| init: "manager_run env mg w \<Longrightarrow> initializeComponent n mg = Some (b, mg') \<Longrightarrow> manager_run env mg' w"
| start: "manager_run env mg w \<Longrightarrow> startComponent env n mg w = Some (b, mg', w') \<Longrightarrow> manager_run env mg' w'"
| config: "manager_run env mg w \<Longrightarrow> updateConfig env n j mg w = Some (mg', w') \<Longrightarrow> manager_run env mg' w'"
| error: "manager_run env mg w \<Longrightarrow> handleError env n opn e j mg w = Some (mg', w') \<Longrightarrow> manager_run env mg' w'"
| change: "manager_run env mg w \<Longrightarrow> handleFileChange env n chg mg w = Some (mg', w') \<Longrightarrow> manager_run env mg' w'"
| graph: "manager_run env mg w \<Longrightarrow> manager_run env (updateDependencyGraph n ver ds vs mg) w"
| state: "manager_run env mg w \<Longrightarrow> change_state env st n mg w = Some (b, mg', w') \<Longrightarrow> manager_run env mg' w'"
| restart: "manager_run env mg w \<Longrightarrow> restartComponent env n mg w = Some (b, mg', w') \<Longrightarrow> manager_run env mg' w'"
| enable: "manager_run env mg w \<Longrightarrow> enableComponent env n mg w = Some (b, mg', w') \<Longrightarrow> manager_run env mg' w'"
| disable: "manager_run env mg w \<Longrightarrow> disableComponent env n mg w = Some (b, mg', w') \<Longrightarrow> manager_run env mg' w'"
| batch: "manager_run env mg w \<Longrightarrow> batchUnload env ns mg w = Some (b, mg', w') \<Longrightarrow> manager_run env mg' w'"
| create: "manager_run env mg w \<Longrightarrow> createComponent env n mg w = Some (c, mg', w') \<Longrightarrow> manager_run env mg' w'"
| startGroup: "manager_run env mg w \<Longrightarrow> startGroup env n mg w = Some (b, mg', w') \<Longrightarrow> manager_run env mg' w'"
| stopGroup: "manager_run env mg w \<Longrightarrow> stopGroup env n mg w = Some (b, mg', w') \<Longrightarrow> manager_run env mg' w'"
| toGroup: "manager_run env mg w \<Longrightarrow> manager_run env (addToGroup n gr mg) w"
| listen: "manager_run env mg w \<Longrightarrow> manager_run env (addEventListener ev cb mg) w"
| deaf: "manager_run env mg w \<Longrightarrow> manager_run env (removeEventListener ev mg) w"
| clear: "manager_run env mg w \<Longrightarrow> manager_run env (clearErrors mg) w"
| destroy: "manager_run env mg w \<Longrightarrow> ComponentManager_destroy env mg w = (b, mg', w') \<Longrightarrow> manager_run env mg' w'"

text \<open>A manager that holds no component, with a free mutex, on a graph its operations built.\<close>

definition idle_manager :: "('c, 'j, 'cb) manager \<Rightarrow> bool" where
  "idle_manager mg \<longleftrightarrow> mg_components mg = [] \<and> \<not> mg_locked mg \<and> graph_reachable (mg_graph mg)"

lemmas manager_locks = lock_mutex_def unlock_mutex_def validateComponentOperation_def hasComponent_def
  getComponent_def updateComponentState_def

lemma addDependencies_reachable:
  "graph_reachable g \<Longrightarrow> graph_reachable (snd (addDependencies n ds v g))"
  by (induction ds arbitrary: g) (auto split: sum.split dest: graph_reachable.addDependency)

lemma addVersioned_reachable: "graph_reachable g \<Longrightarrow> graph_reachable (addVersioned n ds vs g)"
  by (induction ds arbitrary: g vs) (auto split: sum.split list.split dest: graph_reachable.addDependency)

lemma prepare_load_idle:
  assumes "idle_manager mg" "prepare_load env p mg w = (r, mg', w')"
  shows "idle_manager mg'"
proof -
  have "graph_reachable (mg_graph mg')" if "graph_reachable (mg_graph mg)"
    using assms(2) that
    by (auto simp: prepare_load_def Let_def split: sum.splits prod.splits option.splits if_splits bool.splits
        dest: graph_reachable.addNode)
      (metis addDependencies_reachable graph_reachable.addNode snd_conv)+
  moreover have "mg_components mg' = mg_components mg \<and> mg_locked mg' = mg_locked mg"
    using assms(2)
    by (auto simp: prepare_load_def Let_def split: sum.splits prod.splits option.splits if_splits bool.splits)
  ultimately show ?thesis using assms(1) by (simp add: idle_manager_def)
qed

lemma loadComponent_idle:
  assumes "idle_manager mg"
  shows "loadComponent env p mg w =
    (case prepare_load env p mg w of (None, mg', w') \<Rightarrow> Some (False, mg', w') | (Some _, _, _) \<Rightarrow> None)"
proof -
  obtain r mg' w' where r: "prepare_load env p mg w = (r, mg', w')" by (rule prod_cases3)
  then have "\<not> mg_locked mg'" using prepare_load_idle [OF assms r] by (simp add: idle_manager_def)
  then show ?thesis by (auto simp: loadComponent_def r manager_locks split: option.split)
qed

lemma loadComponent_keeps_idle:
  "idle_manager mg \<Longrightarrow> loadComponent env p mg w = Some (b, mg', w') \<Longrightarrow> idle_manager mg'"
  using prepare_load_idle [of mg env p w] by (auto simp: loadComponent_idle split: prod.splits option.splits)

lemma idle_operations:
  assumes "idle_manager mg"
  shows "hasComponent n mg = Some (False, mg)"
    and "getComponent n mg = Some (None, mg)"
    and "validateComponentOperation n mg = Some (False, mg)"
    and "initializeComponent n mg = Some (False, mg)"
    and "startComponent env n mg w = Some (False, mg, w)"
    and "updateConfig env n j mg w = Some (mg, w)"
    and "unloadComponent env nm mg w = Some (False, mg, w)"
    and "change_state env st n mg w = Some (False, mg, w)"
    and "disableComponent env n mg w = Some (False, mg, w)"
  using assms
  by (auto simp: idle_manager_def manager_locks initializeComponent_def startComponent_def updateConfig_def
      unloadComponent_def change_state_def disableComponent_def split: sum.split)

lemma each_name_idle:
  "(\<And>n w. f n mg w = Some (False, mg, w)) \<Longrightarrow> each_name f ns b mg w = Some (b \<and> ns = [], mg, w)"
  by (induction ns arbitrary: b) auto

lemma idle_bulk:
  assumes "idle_manager mg"
  shows "restartComponent env n mg w = Some (False, mg, w)"
    and "batchUnload env ns mg w = Some (ns = [], mg, w)"
    and "startGroup env gr mg w = Some (False, mg, w)"
    and "stopGroup env gr mg w = Some (False, mg, w)"
  by (simp_all add: restartComponent_def stopComponent_def idle_operations [OF assms] batchUnload_def startGroup_def
      stopGroup_def each_name_idle Let_def)

text \<open>Creating a component passes no path, so the load fails before it can block.\<close>

lemma createComponent_idle:
  assumes "idle_manager mg" shows "\<exists>w'. createComponent env n mg w = Some (None, mg, w')"
  by (simp add: createComponent_def loadComponent_idle [OF assms] prepare_load_def split: prod.split option.split)

lemma loadComponentByName_idle:
  "idle_manager mg \<Longrightarrow> loadComponentByName env n mg w = Some (b, mg', w') \<Longrightarrow> idle_manager mg'"
  by (auto simp: loadComponentByName_def Let_def split: if_splits dest: loadComponent_keeps_idle)

lemma handleFileChange_idle:
  "idle_manager mg \<Longrightarrow> handleFileChange env n chg mg w = Some (mg', w') \<Longrightarrow> idle_manager mg'"
  by (auto simp: handleFileChange_def idle_operations split: if_splits dest: loadComponentByName_idle)

lemma handleError_idle:
  "idle_manager mg \<Longrightarrow> handleError env n opn e j mg w = Some (mg', w') \<Longrightarrow> idle_manager mg'"
  by (auto simp: handleError_def idle_manager_def manager_locks)

lemma updateDependencyGraph_idle: "idle_manager mg \<Longrightarrow> idle_manager (updateDependencyGraph n ver ds vs mg)"
  by (auto simp: updateDependencyGraph_def idle_manager_def split: sum.split
      intro: addVersioned_reachable dest: graph_reachable.addNode)

lemma ComponentManager_destroy_idle:
  "idle_manager mg \<Longrightarrow> ComponentManager_destroy env mg w = (b, mg', w') \<Longrightarrow> idle_manager mg'"
  by (auto simp: ComponentManager_destroy_def idle_manager_def split: prod.splits bool.splits)

lemma enableComponent_idle:
  "idle_manager mg \<Longrightarrow> enableComponent env n mg w = Some (b, mg', w') \<Longrightarrow> idle_manager mg'"
  by (auto simp: enableComponent_def idle_manager_def manager_locks split: if_splits)

lemma idle_setters:
  assumes "idle_manager mg"
  shows "idle_manager (addToGroup n gr mg)" "idle_manager (addEventListener ev cb mg)"
    "idle_manager (removeEventListener ev mg)" "idle_manager (clearErrors mg)"
  using assms
  by (simp_all add: idle_manager_def addToGroup_def addEventListener_def removeEventListener_def clearErrors_def)

lemma manager_run_idle: "manager_run env mg w \<Longrightarrow> idle_manager mg"
proof (induction rule: manager_run.induct)
  case (new dir listeners w)
  show ?case by (simp add: manager_new_def idle_manager_def graph_reachable.new)
next
  case (create mg w n c mg' w')
  then show ?case using createComponent_idle [of mg env n w] by auto
qed (auto simp: idle_operations idle_bulk intro: enableComponent_idle loadComponent_keeps_idle handleError_idle handleFileChange_idle
    updateDependencyGraph_idle ComponentManager_destroy_idle idle_setters)

text \<open>When all that is outside agrees and the component is new, the graph takes it and the module loads.\<close>

lemma prepare_load_succeeds:
  assumes "lp_name p = Inr n" "n \<noteq> []" "lp_path p = Inr path" "lp_version p = Inr s" "Version_parse s = Inr ver"
    "lp_dependencies p = None" "en_acquire env w = (Some c, w1)" "en_loadModule env path n w1 = (True, w2)"
    "map_of (mg_components mg) n = None"
  shows "fst (prepare_load env p mg w) = Some (n, c)"
  using assms by (simp add: prepare_load_def addNode_def)

text \<open>
  C31: a manager never holds a component. In every state it reaches by operations that return, from its construction
  and with any module loader, file system and listeners, its component table is empty, its mutex is free and its
  graph is one the graph operations build, whatever failed on the way. A request to load a component returns exactly
  when the steps before the module loader has succeeded fail, and then returns false; a request for which they
  succeed, such as one for a well-formed new component without dependencies whose module loads, never returns,
  since the mutex is locked again by the state update. Starting a component, initialising, stopping, pausing, resuming,
  restarting, disabling and unloading it always return false, and creating one gives null.
\<close>

theorem manager_never_loads:
  assumes "manager_run env mg w"
  shows "mg_components mg = [] \<and> \<not> mg_locked mg \<and> graph_inv (mg_graph mg)
    \<and> (loadComponent env p mg w = None \<longleftrightarrow> fst (prepare_load env p mg w) \<noteq> None)
    \<and> (\<forall>b mg' w'. loadComponent env p mg w = Some (b, mg', w') \<longrightarrow> \<not> b \<and> mg_components mg' = [])
    \<and> (\<forall>n path s ver c w1 w2. lp_name p = Inr n \<and> n \<noteq> [] \<and> lp_path p = Inr path \<and> lp_version p = Inr s
        \<and> Version_parse s = Inr ver \<and> lp_dependencies p = None \<and> en_acquire env w = (Some c, w1)
        \<and> en_loadModule env path n w1 = (True, w2) \<longrightarrow> loadComponent env p mg w = None)
    \<and> startComponent env n mg w = Some (False, mg, w) \<and> initializeComponent n mg = Some (False, mg)
    \<and> unloadComponent env nm mg w = Some (False, mg, w) \<and> restartComponent env n mg w = Some (False, mg, w)
    \<and> stopComponent env n mg w = Some (False, mg, w) \<and> pauseComponent env n mg w = Some (False, mg, w)
    \<and> resumeComponent env n mg w = Some (False, mg, w) \<and> disableComponent env n mg w = Some (False, mg, w)
    \<and> map_option fst (createComponent env n mg w) = Some None"
proof -
  have idle: "idle_manager mg" using assms by (rule manager_run_idle)
  have iff: "loadComponent env p mg w = None \<longleftrightarrow> fst (prepare_load env p mg w) \<noteq> None"
    by (auto simp: loadComponent_idle [OF idle] split: prod.split option.split)
  have ret: "\<not> b" "mg_components mg' = []" if l: "loadComponent env p mg w = Some (b, mg', w')" for b mg' w'
  proof -
    show "\<not> b" using l by (auto simp: loadComponent_idle [OF idle] split: prod.splits option.splits)
    show "mg_components mg' = []" using loadComponent_keeps_idle [OF idle l] by (simp add: idle_manager_def)
  qed
  have blocks: "loadComponent env p mg w = None"
    if "lp_name p = Inr n \<and> n \<noteq> [] \<and> lp_path p = Inr path \<and> lp_version p = Inr s
        \<and> Version_parse s = Inr ver \<and> lp_dependencies p = None \<and> en_acquire env w = (Some c, w1)
        \<and> en_loadModule env path n w1 = (True, w2)" for n path s ver c w1 w2
    using that idle by (simp add: iff prepare_load_succeeds idle_manager_def)
  have state: "mg_components mg = []" "\<not> mg_locked mg" "graph_inv (mg_graph mg)"
    using idle by (simp_all add: idle_manager_def reachable_inv)
  have create: "map_option fst (createComponent env n mg w) = Some None"
    using createComponent_idle [OF idle, of env n w] by auto
  show ?thesis
    unfolding stopComponent_def pauseComponent_def resumeComponent_def
    by (intro conjI allI impI;
        (rule iff | erule ret | erule blocks | rule state create idle_operations [OF idle] idle_bulk [OF idle]))
qed

text \<open>A world that counts the calls, whose loader refuses one module and finds every other.\<close>

definition ok_env :: "(nat, unit, unit, nat) manager_env" where
  "ok_env = \<lparr>en_acquire = (\<lambda>w. (Some (Some w), w + 1)),
     en_loadModule = (\<lambda>path n w. (path \<noteq> ''/lib/broken.so'', w + 1)), en_unloadModule = (\<lambda>n w. (True, w)),
     en_unloadAll = (\<lambda>w. (True, w)), en_call = (\<lambda>cb n ev j w. w), en_exists = (\<lambda>path w. True), en_null = ()\<rparr>"

definition load_request :: "string \<Rightarrow> string \<Rightarrow> load_params" where
  "load_request n path = \<lparr>lp_name = Inr n, lp_path = Inr path, lp_version = Inr ''1.0.0'', lp_dependencies = None\<rparr>"

theorem manager_never_loads_witness:
  "\<exists>mg. loadComponent ok_env (load_request ''broken'' ''/lib/broken.so'') (manager_new ''/lib'' []) 0 = Some (False, mg, 2)
     \<and> keys (adjList (mg_graph mg)) = {''broken''} \<and> mg_components mg = []
     \<and> loadComponent ok_env (load_request ''camera'' ''/lib/camera.so'') mg 2 = None"
proof -
  let ?p = "load_request ''broken'' ''/lib/broken.so''" and ?q = "load_request ''camera'' ''/lib/camera.so''"
  have v: "Version_parse ''1.0.0'' = Inr (mk_version 1 0 0)" by code_simp
  obtain mg where l: "loadComponent ok_env ?p (manager_new ''/lib'' []) 0 = Some (False, mg, 2)"
      and k: "map fst (adjList (mg_graph mg)) = [''broken'']" "mg_components mg = []"
    by (simp add: loadComponent_def prepare_load_def load_request_def ok_env_def manager_new_def addNode_def
        DependencyGraph_new_def v try_emplace_def)
  have run: "manager_run ok_env mg 2" by (rule manager_run.load [OF manager_run.new l])
  have "fst (prepare_load ok_env ?q mg 2) \<noteq> None"
    by (subst prepare_load_succeeds [where n = "''camera''" and ver = "mk_version 1 0 0" and s = "''1.0.0''" and path = "''/lib/camera.so''"
          and c = "Some 2" and ?w1.0 = 3 and ?w2.0 = 4])
      (simp_all add: load_request_def ok_env_def v k)
  then show ?thesis using manager_never_loads [OF run, of ?q] l k
    by (auto simp: keys_def simp flip: set_map)
qed

end
