(* ===== verification/Spatial_Index.thy ===== *)
theory Spatial_Index
  imports Sphere
begin

text \<open>
  The spatial index of the target catalogue, \<^verbatim>\<open>src/src/target/index/spatial_index.cpp\<close>: a tree of nodes with
  bounding boxes and a map from identifiers to coordinates. A \<^verbatim>\<open>double\<close> is a real number and the decimal
  constant of the conversions is \<open>pi\<close>. The mutex is a \<^verbatim>\<open>std::shared_mutex\<close>, which the same thread cannot lock
  twice: an operation that does so does not return and is \<open>None\<close>. \<^verbatim>\<open>std::sort\<close> gives some sorted permutation; the
  model takes the stable one.
\<close>

section \<open>Nodes\<close>

record BoundingBox =
  minRa :: real
  maxRa :: real
  minDec :: real
  maxDec :: real

definition box_area :: "BoundingBox \<Rightarrow> real" where
  "box_area b = (maxRa b - minRa b) * (maxDec b - minDec b)"

definition box_contains :: "BoundingBox \<Rightarrow> real \<Rightarrow> real \<Rightarrow> bool" where
  "box_contains b ra dec \<longleftrightarrow> ra \<ge> minRa b \<and> ra \<le> maxRa b \<and> dec \<ge> minDec b \<and> dec \<le> maxDec b"

type_synonym point = "real \<times> real"

datatype RTreeNode =
  RTreeNode (rn_isLeaf: bool) (rn_bbox: BoundingBox) (rn_ids: "string list") (rn_points: "point list") (rn_children: "RTreeNode list")

record spatial_index =
  si_maxEntries :: nat
  si_minEntries :: nat
  si_root :: RTreeNode
  si_objectMap :: "point umap"

definition empty_root :: RTreeNode where
  "empty_root = RTreeNode True \<lparr>minRa = 0, maxRa = 360, minDec = -90, maxDec = 90\<rparr> [] [] []"

definition SpatialIndex_create :: "nat \<Rightarrow> nat \<Rightarrow> spatial_index result" where
  "SpatialIndex_create maxEntries minEntries =
     (if minEntries \<ge> maxEntries then Inl (InvalidArgument ''minEntries must be less than maxEntries'')
      else Inr \<lparr>si_maxEntries = maxEntries, si_minEntries = minEntries, si_root = empty_root, si_objectMap = []\<rparr>)"

text \<open>The constructor without arguments, whose limits are in order.\<close>

definition SpatialIndex_new :: spatial_index where
  "SpatialIndex_new = \<lparr>si_maxEntries = 50, si_minEntries = 20, si_root = empty_root, si_objectMap = []\<rparr>"

definition degreesToRadians :: "real \<Rightarrow> real" where
  "degreesToRadians degrees = degrees * pi / 180"

definition sphericalDistance :: "real \<Rightarrow> real \<Rightarrow> real \<Rightarrow> real \<Rightarrow> real" where
  "sphericalDistance ra1 dec1 ra2 dec2 =
     (let lat1 = degreesToRadians dec1;
          lat2 = degreesToRadians dec2;
          deltaLng = degreesToRadians (ra2 - ra1);
          a = sin ((lat2 - lat1) / 2);
          a = a * a;
          b = cos lat1 * cos lat2;
          c = sin (deltaLng / 2);
          c = c * c;
          angle = 2 * arcsin (sqrt (a + b * c))
      in angle * 180 / pi)"

definition expand_box :: "point \<Rightarrow> BoundingBox \<Rightarrow> BoundingBox" where
  "expand_box p b = \<lparr>minRa = min (minRa b) (fst p), maxRa = max (maxRa b) (fst p),
     minDec = min (minDec b) (snd p), maxDec = max (maxDec b) (snd p)\<rparr>"

definition join_box :: "BoundingBox \<Rightarrow> BoundingBox \<Rightarrow> BoundingBox" where
  "join_box b c = \<lparr>minRa = min (minRa b) (minRa c), maxRa = max (maxRa b) (maxRa c),
     minDec = min (minDec b) (minDec c), maxDec = max (maxDec b) (maxDec c)\<rparr>"

definition corner :: "real \<Rightarrow> real \<Rightarrow> BoundingBox" where
  "corner ra dec = \<lparr>minRa = ra, maxRa = ra, minDec = dec, maxDec = dec\<rparr>"

fun updateBoundingBox :: "RTreeNode \<Rightarrow> RTreeNode" where
  "updateBoundingBox (RTreeNode leaf b oids ps cs) =
     (if leaf \<and> ps \<noteq> [] then
        RTreeNode leaf (foldl (\<lambda>b p. expand_box p b) (corner (fst (hd ps)) (snd (hd ps))) ps) oids ps cs
      else if \<not> leaf \<and> cs \<noteq> [] then
        RTreeNode leaf (foldl join_box (corner (minRa (rn_bbox (hd cs))) (minDec (rn_bbox (hd cs)))) (map rn_bbox cs)) oids ps cs
      else RTreeNode leaf b oids ps cs)"

section \<open>Insertion\<close>

text \<open>A split of a leaf moves the second half of its entries to a sibling, which no node refers to.\<close>

fun splitNode :: "RTreeNode \<Rightarrow> RTreeNode" where
  "splitNode (RTreeNode leaf b oids ps cs) =
     (if leaf then
        (let splitPoint = length oids div 2
         in updateBoundingBox (RTreeNode leaf b (take splitPoint oids) (take splitPoint ps) cs))
      else RTreeNode leaf b oids ps cs)"

text \<open>The greatest finite value of a \<^verbatim>\<open>double\<close>, from which the search for the least increase starts.\<close>

definition dbl_max :: real where
  "dbl_max = (2 - 1 / 2 ^ 52) * 2 ^ 1023"

fun bestChildLoop :: "real \<Rightarrow> real \<Rightarrow> RTreeNode list \<Rightarrow> nat \<Rightarrow> nat \<Rightarrow> real \<Rightarrow> nat" where
  "bestChildLoop ra dec [] i bestChild minIncrease = bestChild"
| "bestChildLoop ra dec (c # cs) i bestChild minIncrease =
     (let oldArea = box_area (rn_bbox c);
          newArea = box_area (expand_box (ra, dec) (rn_bbox c));
          increase = newArea - oldArea
      in if increase < minIncrease then bestChildLoop ra dec cs (i + 1) i increase
         else bestChildLoop ra dec cs (i + 1) bestChild minIncrease)"

lemma bestChildLoop_range:
  "bestChildLoop ra dec cs i b m = b \<or> (i \<le> bestChildLoop ra dec cs i b m \<and> bestChildLoop ra dec cs i b m < i + length cs)"
proof (induction cs arbitrary: i b m)
  case (Cons c cs)
  let ?inc = "box_area (expand_box (ra, dec) (rn_bbox c)) - box_area (rn_bbox c)"
  show ?case using Cons.IH [of "Suc i" i ?inc] Cons.IH [of "Suc i" b m] by (auto simp: Let_def)
qed simp

function rtree_insertNode :: "nat \<Rightarrow> string \<Rightarrow> real \<Rightarrow> real \<Rightarrow> RTreeNode \<Rightarrow> RTreeNode" where
  "rtree_insertNode maxEntries oid ra dec (RTreeNode leaf b oids ps cs) =
     (if leaf then
        (let node = updateBoundingBox (RTreeNode leaf b (oids @ [oid]) (ps @ [(ra, dec)]) cs)
         in if length (rn_ids node) > maxEntries then splitNode node else node)
      else if cs = [] then RTreeNode leaf b oids ps cs
      else
        (let bestChild = bestChildLoop ra dec cs 0 0 dbl_max;
             node = updateBoundingBox (RTreeNode leaf b oids ps
                      (cs[bestChild := rtree_insertNode maxEntries oid ra dec (cs ! bestChild)]))
         in if length (rn_children node) > maxEntries then splitNode node else node))"
  by pat_completeness auto

termination rtree_insertNode
proof (relation "measure (\<lambda>(m, i, r, d, t). size t)", goal_cases)
  case (2 maxEntries oid ra dec leaf b oids ps cs bestChild)
  then have "bestChild < length cs" using bestChildLoop_range [of ra dec cs 0 0 dbl_max] by auto
  then have "size (cs ! bestChild) < Suc (size_list size cs)"
    by (metis less_Suc_eq_le nth_mem size_list_estimation' order_refl)
  then show ?case using 2 by simp
qed simp

text \<open>\<^verbatim>\<open>insert\<close> of a known identifier calls \<^verbatim>\<open>remove\<close>, which locks the mutex a second time.\<close>

definition SpatialIndex_insert :: "string \<Rightarrow> real \<Rightarrow> real \<Rightarrow> spatial_index \<Rightarrow> spatial_index option" where
  "SpatialIndex_insert oid ra dec si =
     (if map_of (si_objectMap si) oid \<noteq> None then None
      else Some (si\<lparr>si_root := rtree_insertNode (si_maxEntries si) oid ra dec (si_root si),
                    si_objectMap := AList.update oid (ra, dec) (si_objectMap si)\<rparr>))"

fun SpatialIndex_insertBatch :: "(string \<times> real \<times> real) list \<Rightarrow> spatial_index \<Rightarrow> spatial_index" where
  "SpatialIndex_insertBatch [] si = si"
| "SpatialIndex_insertBatch ((oid, ra, dec) # objs) si =
     (let m = AList.delete oid (si_objectMap si)
      in SpatialIndex_insertBatch objs
           (si\<lparr>si_root := rtree_insertNode (si_maxEntries si) oid ra dec (si_root si),
               si_objectMap := AList.update oid (ra, dec) m\<rparr>))"

section \<open>Searches\<close>

fun radiusLeaf :: "real \<Rightarrow> real \<Rightarrow> real \<Rightarrow> nat \<Rightarrow> (string \<times> point) list \<Rightarrow> (string \<times> real) list \<Rightarrow> (string \<times> real) list" where
  "radiusLeaf ra dec radius limit [] results = results"
| "radiusLeaf ra dec radius limit ((oid, p) # rest) results =
     (if length results \<ge> limit then results
      else
        (let dist = sphericalDistance ra dec (fst p) (snd p)
         in radiusLeaf ra dec radius limit rest (if dist \<le> radius then results @ [(oid, dist)] else results)))"

definition distToBox :: "real \<Rightarrow> real \<Rightarrow> BoundingBox \<Rightarrow> real" where
  "distToBox ra dec b =
     (if ra < minRa b then (minRa b - ra) * (minRa b - ra)
      else if ra > maxRa b then (ra - maxRa b) * (ra - maxRa b) else 0)
     + (if dec < minDec b then (minDec b - dec) * (minDec b - dec)
        else if dec > maxDec b then (dec - maxDec b) * (dec - maxDec b) else 0)"

fun searchRadiusNode :: "real \<Rightarrow> real \<Rightarrow> real \<Rightarrow> nat \<Rightarrow> RTreeNode \<Rightarrow> (string \<times> real) list \<Rightarrow> (string \<times> real) list"
  and searchRadiusChildren :: "real \<Rightarrow> real \<Rightarrow> real \<Rightarrow> nat \<Rightarrow> RTreeNode list \<Rightarrow> (string \<times> real) list \<Rightarrow> (string \<times> real) list"
where
  "searchRadiusNode ra dec radius limit (RTreeNode leaf b oids ps cs) results =
     (if length results \<ge> limit then results
      else if sqrt (distToBox ra dec b) > radius then results
      else if leaf then radiusLeaf ra dec radius limit (zip oids ps) results
      else searchRadiusChildren ra dec radius limit cs results)"
| "searchRadiusChildren ra dec radius limit [] results = results"
| "searchRadiusChildren ra dec radius limit (c # cs) results =
     (if length results \<ge> limit then results
      else searchRadiusChildren ra dec radius limit cs (searchRadiusNode ra dec radius limit c results))"

definition searchRadius :: "real \<Rightarrow> real \<Rightarrow> real \<Rightarrow> nat \<Rightarrow> spatial_index \<Rightarrow> (string \<times> real) list" where
  "searchRadius ra dec radius limit si = sort_key snd (searchRadiusNode ra dec radius limit (si_root si) [])"

fun boxLeaf :: "BoundingBox \<Rightarrow> nat \<Rightarrow> (string \<times> point) list \<Rightarrow> string list \<Rightarrow> string list" where
  "boxLeaf box limit [] results = results"
| "boxLeaf box limit ((oid, p) # rest) results =
     (if length results \<ge> limit then results
      else boxLeaf box limit rest (if box_contains box (fst p) (snd p) then results @ [oid] else results))"

fun searchBoxNode :: "BoundingBox \<Rightarrow> nat \<Rightarrow> RTreeNode \<Rightarrow> string list \<Rightarrow> string list"
  and searchBoxChildren :: "BoundingBox \<Rightarrow> nat \<Rightarrow> RTreeNode list \<Rightarrow> string list \<Rightarrow> string list"
where
  "searchBoxNode box limit (RTreeNode leaf b oids ps cs) results =
     (if length results \<ge> limit then results
      else if maxRa b < minRa box \<or> minRa b > maxRa box \<or> maxDec b < minDec box \<or> minDec b > maxDec box then results
      else if leaf then boxLeaf box limit (zip oids ps) results
      else searchBoxChildren box limit cs results)"
| "searchBoxChildren box limit [] results = results"
| "searchBoxChildren box limit (c # cs) results =
     (if length results \<ge> limit then results
      else searchBoxChildren box limit cs (searchBoxNode box limit c results))"

definition searchBox :: "real \<Rightarrow> real \<Rightarrow> real \<Rightarrow> real \<Rightarrow> nat \<Rightarrow> spatial_index \<Rightarrow> string list" where
  "searchBox ra1 ra2 dec1 dec2 limit si =
     searchBoxNode \<lparr>minRa = ra1, maxRa = ra2, minDec = dec1, maxDec = dec2\<rparr> limit (si_root si) []"

section \<open>Removal\<close>

definition erase_nth :: "nat \<Rightarrow> 'a list \<Rightarrow> 'a list" where
  "erase_nth i xs = take i xs @ drop (i + 1) xs"

text \<open>The node that \<^verbatim>\<open>findNodeContaining\<close> finds, with the entry erased in place; \<open>None\<close> when no leaf has it.\<close>

fun eraseInNode :: "string \<Rightarrow> RTreeNode \<Rightarrow> RTreeNode option"
  and eraseInChildren :: "string \<Rightarrow> RTreeNode list \<Rightarrow> RTreeNode list option"
where
  "eraseInNode oid (RTreeNode leaf b oids ps cs) =
     (if leaf then
        (if oid \<in> set oids then
           (let idx = length (takeWhile (\<lambda>x. x \<noteq> oid) oids)
            in Some (updateBoundingBox (RTreeNode leaf b (erase_nth idx oids) (erase_nth idx ps) cs)))
         else None)
      else map_option (\<lambda>cs'. RTreeNode leaf b oids ps cs') (eraseInChildren oid cs))"
| "eraseInChildren oid [] = None"
| "eraseInChildren oid (c # cs) =
     (case eraseInNode oid c of
        Some c' \<Rightarrow> Some (c' # cs)
      | None \<Rightarrow> map_option (\<lambda>cs'. c # cs') (eraseInChildren oid cs))"

definition SpatialIndex_remove :: "string \<Rightarrow> spatial_index \<Rightarrow> spatial_index" where
  "SpatialIndex_remove oid si =
     (if map_of (si_objectMap si) oid = None then si
      else si\<lparr>si_objectMap := AList.delete oid (si_objectMap si),
              si_root := (case eraseInNode oid (si_root si) of None \<Rightarrow> si_root si | Some node \<Rightarrow> node)\<rparr>)"

definition SpatialIndex_clear :: "spatial_index \<Rightarrow> spatial_index" where
  "SpatialIndex_clear si = si\<lparr>si_root := empty_root, si_objectMap := []\<rparr>"

definition SpatialIndex_size :: "spatial_index \<Rightarrow> nat" where
  "SpatialIndex_size si = length (si_objectMap si)"

definition SpatialIndex_contains :: "string \<Rightarrow> spatial_index \<Rightarrow> bool" where
  "SpatialIndex_contains oid si \<longleftrightarrow> map_of (si_objectMap si) oid \<noteq> None"

definition getCoordinates :: "string \<Rightarrow> spatial_index \<Rightarrow> point" where
  "getCoordinates oid si = (case map_of (si_objectMap si) oid of None \<Rightarrow> (0, 0) | Some p \<Rightarrow> p)"

section \<open>What the index stores\<close>

definition entries :: "spatial_index \<Rightarrow> (string \<times> point) list" where
  "entries si = zip (rn_ids (si_root si)) (rn_points (si_root si))"

definition in_box :: "BoundingBox \<Rightarrow> point \<Rightarrow> bool" where
  "in_box b p = box_contains b (fst p) (snd p)"

text \<open>The tree never grows beyond its root, which is a leaf within its limit whose box encloses its points.\<close>

definition rtree_ok :: "nat \<Rightarrow> RTreeNode \<Rightarrow> bool" where
  "rtree_ok mx t \<longleftrightarrow> rn_isLeaf t \<and> rn_children t = [] \<and> length (rn_ids t) = length (rn_points t)
     \<and> length (rn_ids t) \<le> mx \<and> (\<forall>p \<in> set (rn_points t). in_box (rn_bbox t) p)"

definition spatial_ok :: "spatial_index \<Rightarrow> bool" where
  "spatial_ok si \<longleftrightarrow> 0 < si_maxEntries si \<and> rtree_ok (si_maxEntries si) (si_root si)"

text \<open>What is left of the entries of a leaf when it is filled above its limit.\<close>

definition kept :: "nat \<Rightarrow> 'a list \<Rightarrow> 'a list" where
  "kept mx es = (if length es > mx then take (length es div 2) es else es)"

lemma kept_length: "0 < mx \<Longrightarrow> length es \<le> mx + 1 \<Longrightarrow> length (kept mx es) \<le> mx"
  by (simp add: kept_def) linarith

lemma kept_map: "kept mx (map f es) = map f (kept mx es)"
  by (simp add: kept_def take_map)

lemma kept_subset: "set (kept mx es) \<subseteq> set es"
  by (auto simp: kept_def dest: in_set_takeD)

lemma expand_box_in: "in_box b q \<or> q = p \<Longrightarrow> in_box (expand_box p b) q"
  by (auto simp: in_box_def box_contains_def expand_box_def)

lemma fold_expand_in:
  "in_box b q \<or> q \<in> set ps \<Longrightarrow> in_box (foldl (\<lambda>b p. expand_box p b) b ps) q"
proof (induction ps arbitrary: b)
  case (Cons p ps)
  then have "in_box (expand_box p b) q \<or> q \<in> set ps" by (auto intro: expand_box_in)
  then show ?case using Cons.IH by simp
qed simp

lemma leaf_box: "ps \<noteq> [] \<Longrightarrow> p \<in> set ps \<Longrightarrow>
    in_box (rn_bbox (updateBoundingBox (RTreeNode True b oids ps cs))) p"
  using fold_expand_in [of _ p ps] by simp

lemma updateBoundingBox_fields [simp]:
  "rn_isLeaf (updateBoundingBox t) = rn_isLeaf t" "rn_ids (updateBoundingBox t) = rn_ids t"
  "rn_points (updateBoundingBox t) = rn_points t" "rn_children (updateBoundingBox t) = rn_children t"
  by (cases t; simp)+

lemma rtree_ok_leaf:
  "length oids = length ps \<Longrightarrow> length ps \<le> mx \<Longrightarrow> \<forall>p \<in> set ps. ps \<noteq> [] \<or> in_box b p \<Longrightarrow>
     rtree_ok mx (updateBoundingBox (RTreeNode True b oids ps []))"
  using leaf_box [of ps _ b oids "[]"] by (auto simp: rtree_ok_def)

lemma leaf_insert:
  assumes ok: "rtree_ok mx t" and mx: "0 < mx"
  shows "rtree_ok mx (rtree_insertNode mx oid ra dec t)"
    and "rn_ids (rtree_insertNode mx oid ra dec t) = kept mx (rn_ids t @ [oid])"
    and "rn_points (rtree_insertNode mx oid ra dec t) = kept mx (rn_points t @ [(ra, dec)])"
proof -
  obtain b oids ps where t: "t = RTreeNode True b oids ps []" and l: "length oids = length ps" "length ps \<le> mx"
    using ok by (cases t) (auto simp: rtree_ok_def)
  have split: "splitNode (updateBoundingBox (RTreeNode True b (oids @ [oid]) (ps @ [(ra, dec)]) [])) =
      updateBoundingBox (RTreeNode True
        (rn_bbox (updateBoundingBox (RTreeNode True b (oids @ [oid]) (ps @ [(ra, dec)]) [])))
        (take (Suc (length oids) div 2) (oids @ [oid])) (take (Suc (length oids) div 2) (ps @ [(ra, dec)])) [])"
    by (simp add: Let_def)
  show "rn_ids (rtree_insertNode mx oid ra dec t) = kept mx (rn_ids t @ [oid])"
    by (simp add: t Let_def split kept_def del: splitNode.simps updateBoundingBox.simps)
  show "rn_points (rtree_insertNode mx oid ra dec t) = kept mx (rn_points t @ [(ra, dec)])"
    using l by (simp add: t Let_def split kept_def del: splitNode.simps updateBoundingBox.simps)
  show "rtree_ok mx (rtree_insertNode mx oid ra dec t)"
    using l mx by (auto simp: t Let_def split simp del: splitNode.simps updateBoundingBox.simps intro!: rtree_ok_leaf)
qed

lemma in_set_erase: "x \<in> set (erase_nth i xs) \<Longrightarrow> x \<in> set xs"
  by (auto simp: erase_nth_def dest: in_set_takeD in_set_dropD)

lemma leaf_erase:
  assumes ok: "rtree_ok mx t" and e: "eraseInNode oid t = Some t'"
  shows "rtree_ok mx t'"
    and "zip (rn_ids t') (rn_points t')
      = erase_nth (length (takeWhile (\<lambda>x. x \<noteq> oid) (rn_ids t))) (zip (rn_ids t) (rn_points t))"
proof -
  obtain b oids ps where t: "t = RTreeNode True b oids ps []" and l: "length oids = length ps" "length ps \<le> mx"
      and b: "\<forall>p \<in> set ps. in_box b p"
    using ok by (cases t) (auto simp: rtree_ok_def)
  let ?i = "length (takeWhile (\<lambda>x. x \<noteq> oid) oids)"
  have t': "t' = updateBoundingBox (RTreeNode True b (erase_nth ?i oids) (erase_nth ?i ps) [])"
    using e by (simp add: t Let_def split: if_splits)
  have "length (erase_nth ?i oids) = length (erase_nth ?i ps)" "length (erase_nth ?i ps) \<le> mx"
    using l by (auto simp: erase_nth_def)
  then show "rtree_ok mx t'" unfolding t' using b by (intro rtree_ok_leaf) (auto dest: in_set_erase)
  show "zip (rn_ids t') (rn_points t')
      = erase_nth (length (takeWhile (\<lambda>x. x \<noteq> oid) (rn_ids t))) (zip (rn_ids t) (rn_points t))"
    using l by (simp add: t t' erase_nth_def zip_append take_zip drop_zip del: updateBoundingBox.simps)
qed

inductive spatial_reachable :: "spatial_index \<Rightarrow> bool" where
  create: "SpatialIndex_create mx mn = Inr si \<Longrightarrow> spatial_reachable si"
| insert: "spatial_reachable si \<Longrightarrow> SpatialIndex_insert oid ra dec si = Some si' \<Longrightarrow> spatial_reachable si'"
| batch: "spatial_reachable si \<Longrightarrow> spatial_reachable (SpatialIndex_insertBatch objs si)"
| remove: "spatial_reachable si \<Longrightarrow> spatial_reachable (SpatialIndex_remove oid si)"
| clear: "spatial_reachable si \<Longrightarrow> spatial_reachable (SpatialIndex_clear si)"

lemma empty_root_ok: "rtree_ok mx empty_root"
  by (simp add: rtree_ok_def empty_root_def)

lemma insert_ok: "spatial_ok si \<Longrightarrow> SpatialIndex_insert oid ra dec si = Some si' \<Longrightarrow> spatial_ok si'"
  by (auto simp: spatial_ok_def SpatialIndex_insert_def leaf_insert(1) split: if_splits)

lemma insertBatch_ok: "spatial_ok si \<Longrightarrow> spatial_ok (SpatialIndex_insertBatch objs si)"
  by (induction objs si rule: SpatialIndex_insertBatch.induct) (auto simp: spatial_ok_def leaf_insert(1) Let_def)

lemma remove_ok: "spatial_ok si \<Longrightarrow> spatial_ok (SpatialIndex_remove oid si)"
  by (auto simp: spatial_ok_def SpatialIndex_remove_def split: option.split dest: leaf_erase(1))

lemma reachable_spatial_ok: "spatial_reachable si \<Longrightarrow> spatial_ok si"
proof (induction rule: spatial_reachable.induct)
  case (create mx mn si)
  then show ?case by (auto simp: SpatialIndex_create_def spatial_ok_def empty_root_ok split: if_splits)
next
  case (clear si)
  then show ?case by (simp add: SpatialIndex_clear_def spatial_ok_def empty_root_ok)
qed (auto intro: insert_ok insertBatch_ok remove_ok)

section \<open>Searches on a leaf\<close>

lemma boxLeaf_take:
  "length res \<le> limit \<Longrightarrow>
     boxLeaf box limit es res = take limit (res @ map fst (filter (\<lambda>e. in_box box (snd e)) es))"
  by (induction box limit es res rule: boxLeaf.induct) (auto simp: in_box_def take_Cons')

definition in_reach :: "real \<Rightarrow> real \<Rightarrow> real \<Rightarrow> (string \<times> point) list \<Rightarrow> (string \<times> real) list" where
  "in_reach ra dec radius es = filter (\<lambda>x. snd x \<le> radius)
     (map (\<lambda>e. (fst e, sphericalDistance ra dec (fst (snd e)) (snd (snd e)))) es)"

lemma radiusLeaf_take:
  "length res \<le> limit \<Longrightarrow> radiusLeaf ra dec radius limit es res = take limit (res @ in_reach ra dec radius es)"
  by (induction ra dec radius limit es res rule: radiusLeaf.induct) (auto simp: in_reach_def Let_def take_Cons')

lemma searchBox_eq:
  assumes "spatial_ok si"
  shows "searchBox ra1 ra2 dec1 dec2 limit si = take limit (map fst (filter
    (\<lambda>e. in_box \<lparr>minRa = ra1, maxRa = ra2, minDec = dec1, maxDec = dec2\<rparr> (snd e)) (entries si)))"
proof -
  let ?box = "\<lparr>minRa = ra1, maxRa = ra2, minDec = dec1, maxDec = dec2\<rparr>"
  obtain b oids ps where t: "si_root si = RTreeNode True b oids ps []" and b: "\<forall>p \<in> set ps. in_box b p"
    using assms by (cases "si_root si") (auto simp: spatial_ok_def rtree_ok_def)
  have "filter (\<lambda>e. in_box ?box (snd e)) (zip oids ps) = []"
    if "maxRa b < ra1 \<or> minRa b > ra2 \<or> maxDec b < dec1 \<or> minDec b > dec2"
    using that b by (auto simp: filter_empty_conv in_box_def box_contains_def dest!: set_zip_rightD)
  then show ?thesis by (auto simp: searchBox_def entries_def t boxLeaf_take)
qed

lemma searchRadius_eq:
  assumes "spatial_ok si"
  shows "searchRadius ra dec radius limit si = (if sqrt (distToBox ra dec (rn_bbox (si_root si))) > radius then []
    else sort_key snd (take limit (in_reach ra dec radius (entries si))))"
proof -
  obtain b oids ps where t: "si_root si = RTreeNode True b oids ps []"
    using assms by (cases "si_root si") (auto simp: spatial_ok_def rtree_ok_def)
  show ?thesis by (auto simp: searchRadius_def entries_def t radiusLeaf_take)
qed

section \<open>Completeness of the search by radius\<close>

lemma sphericalDistance_hav:
  "sphericalDistance ra1 dec1 ra2 dec2 = 2 * arcsin (sqrt (hav (dec1 * (pi / 180)) (dec2 * (pi / 180))
     ((ra2 - ra1) * (pi / 180)))) / (pi / 180)"
  by (simp add: sphericalDistance_def degreesToRadians_def hav_def Let_def mult.assoc)

lemma declination_le_distance:
  assumes "-90 \<le> dec1" "dec1 \<le> 90" "-90 \<le> dec2" "dec2 \<le> 90"
  shows "\<bar>dec2 - dec1\<bar> \<le> sphericalDistance ra1 dec1 ra2 dec2"
proof -
  let ?k = "pi / 180 :: real"
  have k: "0 < ?k" by simp
  have d: "\<bar>dec2 * ?k - dec1 * ?k\<bar> = \<bar>dec2 - dec1\<bar> * ?k"
    by (simp only: left_diff_distrib [symmetric] abs_mult abs_of_pos [OF k])
  have "\<bar>dec2 - dec1\<bar> * ?k \<le> 180 * ?k" using assms by (intro mult_right_mono) auto
  then have "\<bar>dec2 * ?k - dec1 * ?k\<bar> \<le> pi" unfolding d by simp
  from declination_le_angle [OF cos_declination [OF assms(1,2)] cos_declination [OF assms(3,4)] this]
  have "\<bar>dec2 - dec1\<bar> * ?k \<le> 2 * arcsin (sqrt (hav (dec1 * ?k) (dec2 * ?k) ((ra2 - ra1) * ?k)))"
    unfolding d .
  then show ?thesis unfolding sphericalDistance_hav by (simp only: pos_le_divide_eq [OF k])
qed

lemma box_of_points:
  "spatial_ok si \<Longrightarrow> e \<in> set (entries si) \<Longrightarrow> in_box (rn_bbox (si_root si)) (snd e)"
  by (cases e) (auto simp: spatial_ok_def rtree_ok_def entries_def dest!: set_zip_rightD)

text \<open>Between the right ascensions of two stored points the distance to the box is a difference of declinations.\<close>

lemma reach_in_box:
  assumes ok: "spatial_ok si" and e: "e \<in> set (entries si)" "e' \<in> set (entries si)" "x \<in> set (entries si)"
    and ra: "fst (snd e) \<le> ra" "ra \<le> fst (snd e')" and dec: "-90 \<le> dec" "dec \<le> 90"
    and x: "-90 \<le> snd (snd x)" "snd (snd x) \<le> 90" "sphericalDistance ra dec (fst (snd x)) (snd (snd x)) \<le> radius"
  shows "sqrt (distToBox ra dec (rn_bbox (si_root si))) \<le> radius"
proof -
  let ?b = "rn_bbox (si_root si)"
  note b = box_of_points [OF ok e(1)] box_of_points [OF ok e(2)] box_of_points [OF ok e(3)]
  have "\<bar>snd (snd x) - dec\<bar> \<le> radius" using declination_le_distance [OF dec x(1,2)] x(3) by (rule order_trans)
  then have r: "dec < minDec ?b \<longrightarrow> minDec ?b - dec \<le> radius" "dec > maxDec ?b \<longrightarrow> dec - maxDec ?b \<le> radius" "0 \<le> radius"
    using b(3) by (auto simp: in_box_def box_contains_def)
  have "\<not> ra < minRa ?b" "\<not> ra > maxRa ?b" using b(1,2) ra by (auto simp: in_box_def box_contains_def)
  then have "sqrt (distToBox ra dec ?b)
      = (if dec < minDec ?b then minDec ?b - dec else if dec > maxDec ?b then dec - maxDec ?b else 0)"
    by (simp add: distToBox_def)
  then show ?thesis using r by auto
qed

section \<open>Properties\<close>

text \<open>Insertions one after the other.\<close>

fun insert_all :: "(string \<times> point) list \<Rightarrow> spatial_index \<Rightarrow> spatial_index option" where
  "insert_all [] si = Some si"
| "insert_all ((oid, p) # es) si =
     (case SpatialIndex_insert oid (fst p) (snd p) si of None \<Rightarrow> None | Some si' \<Rightarrow> insert_all es si')"

lemma zip_kept: "length xs = length ys \<Longrightarrow> zip (kept mx xs) (kept mx ys) = kept mx (zip xs ys)"
  by (simp add: kept_def take_zip)

lemma insert_entries:
  assumes "spatial_ok si" "SpatialIndex_insert oid ra dec si = Some si'"
  shows "entries si' = kept (si_maxEntries si) (entries si @ [(oid, ra, dec)])"
proof -
  have "rtree_ok (si_maxEntries si) (si_root si)" "0 < si_maxEntries si" using assms(1) by (simp_all add: spatial_ok_def)
  note l = leaf_insert [OF this]
  moreover have "length (rn_ids (si_root si)) = length (rn_points (si_root si))"
    using assms(1) by (simp add: spatial_ok_def rtree_ok_def)
  ultimately show ?thesis using assms(2)
    by (auto simp: SpatialIndex_insert_def entries_def zip_kept split: if_splits)
qed

lemma insert_all_new:
  assumes "spatial_reachable si" "distinct (map fst es)" "fst ` set es \<inter> keys (si_objectMap si) = {}"
  shows "\<exists>si'. insert_all es si = Some si' \<and> spatial_reachable si' \<and> si_maxEntries si' = si_maxEntries si
    \<and> length (si_objectMap si') = length (si_objectMap si) + length es
    \<and> map_of (si_objectMap si') = map_of (si_objectMap si) ++ map_of es
    \<and> entries si' = foldl (\<lambda>acc e. kept (si_maxEntries si) (acc @ [e])) (entries si) es"
  using assms
proof (induction es arbitrary: si)
  case (Cons e es)
  obtain oid p where e: "e = (oid, p)" by (rule prod.exhaust)
  have new: "oid \<notin> keys (si_objectMap si)" using Cons.prems(3) by (auto simp: e)
  then obtain si1 where i: "SpatialIndex_insert oid (fst p) (snd p) si = Some si1"
      and m: "si_maxEntries si1 = si_maxEntries si" "si_objectMap si1 = AList.update oid p (si_objectMap si)"
    by (simp add: SpatialIndex_insert_def map_of_None_keys [THEN iffD2])
  have "length (AList.update oid p (si_objectMap si)) = Suc (length (si_objectMap si))"
    using new by (simp add: update_fresh)
  moreover have "fst ` set es \<inter> keys (si_objectMap si1) = {}" using Cons.prems(2,3) by (auto simp: m e)
  moreover have "map_of es oid = None" using Cons.prems(2) by (simp add: e map_of_eq_None_iff)
  ultimately show ?case
    using Cons.IH [OF spatial_reachable.insert [OF Cons.prems(1) i]] Cons.prems(2)
      insert_entries [OF reachable_spatial_ok [OF Cons.prems(1)] i]
    by (auto simp: e i m update_conv' map_add_def fun_eq_iff split: option.split)
qed (simp add: keys_def)

text \<open>
  Searches report what the tree stores. On every index built through its operations a search by box returns the
  stored objects in the box, in order and up to the limit. A search by radius returns only stored objects within the
  radius, with their distances, nearest first; it returns as many as there are up to the limit if its centre lies
  between the right ascensions of two stored objects, with all declinations between the poles.
\<close>

theorem spatial_searches:
  assumes "spatial_reachable si"
  shows "searchBox ra1 ra2 dec1 dec2 limit si = take limit (map fst (filter
      (\<lambda>e. ra1 \<le> fst (snd e) \<and> fst (snd e) \<le> ra2 \<and> dec1 \<le> snd (snd e) \<and> snd (snd e) \<le> dec2) (entries si)))
    \<and> sorted (map snd (searchRadius ra dec radius limit si))
    \<and> (\<forall>(oid, d) \<in> set (searchRadius ra dec radius limit si). d \<le> radius
        \<and> (\<exists>p. (oid, p) \<in> set (entries si) \<and> d = sphericalDistance ra dec (fst p) (snd p)))
    \<and> ((\<exists>e \<in> set (entries si). fst (snd e) \<le> ra) \<and> (\<exists>e \<in> set (entries si). ra \<le> fst (snd e))
        \<and> -90 \<le> dec \<and> dec \<le> 90 \<and> (\<forall>e \<in> set (entries si). -90 \<le> snd (snd e) \<and> snd (snd e) \<le> 90)
      \<longrightarrow> length (searchRadius ra dec radius limit si) = min limit (length
            (filter (\<lambda>e. sphericalDistance ra dec (fst (snd e)) (snd (snd e)) \<le> radius) (entries si))))"
proof -
  note ok = reachable_spatial_ok [OF assms]
  have box: "searchBox ra1 ra2 dec1 dec2 limit si = take limit (map fst (filter
      (\<lambda>e. ra1 \<le> fst (snd e) \<and> fst (snd e) \<le> ra2 \<and> dec1 \<le> snd (snd e) \<and> snd (snd e) \<le> dec2) (entries si)))"
    by (simp add: searchBox_eq [OF ok] in_box_def box_contains_def)
  have sound: "d \<le> radius \<and> (\<exists>p. (oid, p) \<in> set (entries si) \<and> d = sphericalDistance ra dec (fst p) (snd p))"
    if "(oid, d) \<in> set (searchRadius ra dec radius limit si)" for oid d
    using that by (auto simp: searchRadius_eq [OF ok] in_reach_def split: if_splits dest!: in_set_takeD) blast
  have complete: "length (searchRadius ra dec radius limit si) = min limit (length
        (filter (\<lambda>e. sphericalDistance ra dec (fst (snd e)) (snd (snd e)) \<le> radius) (entries si)))"
    if h: "e \<in> set (entries si)" "fst (snd e) \<le> ra" "e' \<in> set (entries si)" "ra \<le> fst (snd e')" "-90 \<le> dec" "dec \<le> 90"
      "\<forall>e \<in> set (entries si). -90 \<le> snd (snd e) \<and> snd (snd e) \<le> 90" for e e'
  proof -
    have "filter (\<lambda>e. sphericalDistance ra dec (fst (snd e)) (snd (snd e)) \<le> radius) (entries si) = []"
      if "sqrt (distToBox ra dec (rn_bbox (si_root si))) > radius"
      using that h reach_in_box [OF ok h(1,3) _ h(2,4,5,6)] by (fastforce simp: filter_empty_conv)
    then show ?thesis by (simp add: searchRadius_eq [OF ok] in_reach_def filter_map comp_def min.commute)
  qed
  show ?thesis using box sound complete by (auto simp: searchRadius_eq [OF ok])
qed

definition three_stars :: spatial_index where
  "three_stars = the (insert_all [(''a'', 0, -5), (''b'', 10, 0), (''c'', 20, 5)] SpatialIndex_new)"

lemma new_reachable: "spatial_reachable SpatialIndex_new"
  by (rule spatial_reachable.create [of 50 20]) (simp add: SpatialIndex_create_def SpatialIndex_new_def)

lemma three_stars_ok: "spatial_reachable three_stars" "entries three_stars = [(''a'', 0, -5), (''b'', 10, 0), (''c'', 20, 5)]"
  using insert_all_new [OF new_reachable, of "[(''a'', 0, -5), (''b'', 10, 0), (''c'', 20, 5)]"]
  by (auto simp: three_stars_def SpatialIndex_new_def empty_root_def entries_def kept_def)

theorem spatial_searches_witness:
  "searchBox 5 25 0 10 7 three_stars = [''b'', ''c''] \<and> length (searchRadius 10 0 1 7 three_stars) = 1"
proof -
  have d: "sphericalDistance 10 0 0 (-5) \<ge> 5" "sphericalDistance 10 0 10 0 = 0" "sphericalDistance 10 0 20 5 \<ge> 5"
    using declination_le_distance [of 0 "-5" 10 0] declination_le_distance [of 0 5 10 20]
    by (simp_all add: sphericalDistance_def degreesToRadians_def)
  have "searchBox 5 25 0 10 7 three_stars = [''b'', ''c'']"
    using spatial_searches [OF three_stars_ok(1), of 5 25 0 10 7] by (simp add: three_stars_ok(2))
  moreover have "length (searchRadius 10 0 1 7 three_stars) = 1"
    using spatial_searches [OF three_stars_ok(1), of _ _ _ _ 7 10 0 1] d by (simp add: three_stars_ok(2))
  ultimately show ?thesis by blast
qed

text \<open>
  The index holds one leaf. Objects with new identifiers go into a new index one by one without blocking, and
  it then knows each of them and counts them all; but the tree keeps at most fifty of them, all of them exactly
  when there are at most fifty, since a split drops the second half of the leaf. Inserting a known
  identifier never returns.
\<close>

theorem spatial_capacity:
  assumes "distinct (map fst es)"
  shows "\<exists>si. insert_all es SpatialIndex_new = Some si \<and> SpatialIndex_size si = length es
    \<and> (\<forall>e \<in> set es. SpatialIndex_contains (fst e) si \<and> getCoordinates (fst e) si = snd e
        \<and> SpatialIndex_insert (fst e) ra dec si = None)
    \<and> set (entries si) \<subseteq> set es \<and> length (entries si) \<le> 50
    \<and> (entries si = es \<longleftrightarrow> length es \<le> 50)"
proof -
  let ?k = "\<lambda>acc e. kept 50 (acc @ [e])"
  obtain si where i: "insert_all es SpatialIndex_new = Some si" and r: "spatial_reachable si"
      and s: "length (si_objectMap si) = length es" "map_of (si_objectMap si) = map_of es" "si_maxEntries si = 50"
      and f: "entries si = foldl ?k [] es"
    using insert_all_new [OF new_reachable assms] by (auto simp: SpatialIndex_new_def empty_root_def entries_def)
  have m: "map_of es (fst e) = Some (snd e)" if "e \<in> set es" for e using that assms by simp
  have sub: "set (foldl ?k acc es) \<subseteq> set acc \<union> set es" for acc
    by (induction es arbitrary: acc) (use kept_subset in fastforce)+
  have few: "foldl ?k acc es = acc @ es" if "length acc + length es \<le> 50" for acc
    using that by (induction es arbitrary: acc) (auto simp: kept_def)
  have len: "length (entries si) \<le> 50"
    using reachable_spatial_ok [OF r] s(3) by (auto simp: spatial_ok_def rtree_ok_def entries_def)
  have "SpatialIndex_size si = length es" by (simp add: SpatialIndex_size_def s)
  moreover have "SpatialIndex_contains (fst e) si \<and> getCoordinates (fst e) si = snd e
        \<and> SpatialIndex_insert (fst e) ra dec si = None" if "e \<in> set es" for e
    using m [OF that] by (simp add: SpatialIndex_contains_def getCoordinates_def SpatialIndex_insert_def s)
  moreover have "entries si = es \<longleftrightarrow> length es \<le> 50" using few [of "[]"] len f by auto
  ultimately show ?thesis using i len sub [of "[]"] f by auto
qed

theorem spatial_capacity_witness:
  "\<exists>si. insert_all (map (\<lambda>i. (replicate i CHR ''x'', (0, 0))) [0..<51]) SpatialIndex_new = Some si
     \<and> SpatialIndex_size si = 51 \<and> length (entries si) \<le> 50"
proof -
  have "inj_on (\<lambda>i. replicate i CHR ''x'') {0..<51}" by (rule inj_onI) (metis length_replicate)
  then have "distinct (map fst (map (\<lambda>i. (replicate i CHR ''x'', (0 :: real, 0 :: real))) [0..<51]))"
    by (simp add: comp_def distinct_map)
  from spatial_capacity [OF this, of 0 0] show ?thesis by auto
qed

text \<open>
  The distance to the box does not know that right ascension wraps around: an object at 0 degrees is not found from
  360 degrees, which is the same direction.
\<close>

lemma radius_search_no_wrap:
  "radius < 360 \<Longrightarrow> \<exists>si. SpatialIndex_insert oid 0 0 SpatialIndex_new = Some si
     \<and> entries si = [(oid, 0, 0)] \<and> sphericalDistance 360 0 0 0 = 0 \<and> searchRadius 360 0 radius limit si = []"
  by (simp add: SpatialIndex_insert_def SpatialIndex_new_def empty_root_def entries_def searchRadius_def distToBox_def
      corner_def expand_box_def sphericalDistance_def degreesToRadians_def Let_def)

end
