(* ===== verification/Search_Engine.thy ===== *)
theory Search_Engine
  imports Trie_Index Fuzzy_Matcher Spatial_Index Memory_Repository
begin

text \<open>
  The search engine of the target catalogue, \<^verbatim>\<open>src/src/target/search/search_engine.cpp\<close>: it loads the objects of
  a repository into the prefix index, the spatial index and the fuzzy matcher, and answers queries by looking the
  identifiers it finds up in the repository. The repository rests on a database; its two operations are the record
  \<open>repo_api\<close>, what the engine relies on is the locale \<open>catalogue\<close>, and the in-memory repository provides it. The
  indexes are owned by the engine. The mutex is a \<^verbatim>\<open>std::shared_mutex\<close>: an operation that locks it while its
  thread holds it does not return and is \<open>None\<close>.
\<close>

section \<open>State\<close>

record 'r repo_api =
  rp_search :: "CelestialSearchFilter \<Rightarrow> 'r \<Rightarrow> CelestialObjectModel list"
  rp_findByIdentifier :: "string \<Rightarrow> 'r \<Rightarrow> CelestialObjectModel option"

record SearchOptions =
  so_useFuzzy :: bool
  so_fuzzyTolerance :: int
  so_searchAliases :: bool
  so_maxResults :: int
  so_filter :: "CelestialSearchFilter option"

definition SearchOptions_default :: SearchOptions where
  "SearchOptions_default = \<lparr>so_useFuzzy = True, so_fuzzyTolerance = 2, so_searchAliases = True,
     so_maxResults = 100, so_filter = None\<rparr>"

record 'r search_engine =
  se_repository :: "'r option"
  se_trie :: "TrieNode option"
  se_spatial :: "spatial_index option"
  se_fuzzy :: "fuzzy_matcher option"
  se_isInitialized :: bool
  se_objectCount :: nat
  se_locked :: bool

definition SearchEngine_new ::
  "'r option \<Rightarrow> TrieNode option \<Rightarrow> spatial_index option \<Rightarrow> fuzzy_matcher option \<Rightarrow> 'r search_engine" where
  "SearchEngine_new repository trieIndex spatialIndex fuzzyMatcher =
     \<lparr>se_repository = repository, se_trie = trieIndex, se_spatial = spatialIndex, se_fuzzy = fuzzyMatcher,
      se_isInitialized = False, se_objectCount = 0, se_locked = False\<rparr>"

section \<open>Building the indexes\<close>

text \<open>The loop over the objects: the names for the prefix index so far, the spatial index and the matcher.\<close>

fun indexObjects :: "CelestialObjectModel list \<Rightarrow> string list \<Rightarrow> spatial_index \<Rightarrow> fuzzy_matcher
    \<Rightarrow> (string list \<times> spatial_index \<times> fuzzy_matcher) option" where
  "indexObjects [] names sp fm = Some (names, sp, fm)"
| "indexObjects (obj # objs) names sp fm =
     (let names = (if co_identifier obj \<noteq> [] then names @ [co_identifier obj] else names);
          names = (if co_mIdentifier obj \<noteq> [] then names @ [co_mIdentifier obj] else names);
          names = (if co_chineseName obj \<noteq> [] then names @ [co_chineseName obj] else names)
      in case SpatialIndex_insert (co_identifier obj) (co_radJ2000 obj) (co_decDJ2000 obj) sp of
           None \<Rightarrow> None
         | Some sp \<Rightarrow>
           (let fm = addTerm (co_identifier obj) (co_identifier obj) fm;
                fm = (if co_mIdentifier obj \<noteq> [] then addTerm (co_mIdentifier obj) (co_identifier obj) fm else fm)
            in indexObjects objs names sp fm))"

definition SearchEngine_initialize :: "'r repo_api \<Rightarrow> 'r search_engine \<Rightarrow> ((string + unit) \<times> 'r search_engine) option" where
  "SearchEngine_initialize api se =
     (if se_locked se then None
      else if se_isInitialized se then Some (Inr (), se)
      else case se_repository se of
        None \<Rightarrow> Some (Inl ''Repository not available'', se)
      | Some r \<Rightarrow>
        (let trie = (case se_trie se of None \<Rightarrow> emptyNode | Some t \<Rightarrow> t);
             spatial = (case se_spatial se of None \<Rightarrow> SpatialIndex_new | Some s \<Rightarrow> s);
             fuzzy = (case se_fuzzy se of None \<Rightarrow> FuzzyMatcher_new | Some f \<Rightarrow> f);
             objs = rp_search api CelestialSearchFilter_new r
         in case indexObjects objs [] spatial fuzzy of
              None \<Rightarrow> None
            | Some (names, spatial, fuzzy) \<Rightarrow>
              Some (Inr (), se\<lparr>se_trie := Some (if names \<noteq> [] then snd (insertBatch names trie) else trie),
                               se_spatial := Some spatial, se_fuzzy := Some fuzzy,
                               se_isInitialized := True, se_objectCount := length objs\<rparr>)))"

definition clearIndexesImpl :: "'r search_engine \<Rightarrow> 'r search_engine" where
  "clearIndexesImpl se =
     se\<lparr>se_trie := map_option TrieIndex_clear (se_trie se), se_spatial := map_option SpatialIndex_clear (se_spatial se),
        se_fuzzy := map_option FuzzyMatcher_clear (se_fuzzy se), se_isInitialized := False, se_objectCount := 0\<rparr>"

definition clearIndexes :: "'r search_engine \<Rightarrow> 'r search_engine option" where
  "clearIndexes se = (if se_locked se then None else Some (clearIndexesImpl se))"

definition rebuildIndexes :: "'r repo_api \<Rightarrow> 'r search_engine \<Rightarrow> ((string + unit) \<times> 'r search_engine) option" where
  "rebuildIndexes api se =
     (if se_locked se then None
      else
        (let se = clearIndexesImpl (se\<lparr>se_locked := True\<rparr>);
             se = se\<lparr>se_isInitialized := False\<rparr>
         in case SearchEngine_initialize api se of
              None \<Rightarrow> None
            | Some (res, se) \<Rightarrow> Some (res, se\<lparr>se_locked := False\<rparr>)))"

section \<open>Queries\<close>

text \<open>\<^verbatim>\<open>resize\<close> of a vector that is longer than the limit; a negative limit is a huge size, which throws.\<close>

definition resize_to :: "int \<Rightarrow> 'a list \<Rightarrow> 'a list result" where
  "resize_to limit results =
     (if int (length results) > limit
      then (if limit < 0 then Inl (OtherException ''vector::_M_default_append'') else Inr (take (nat limit) results))
      else Inr results)"

definition exactSearchImpl :: "'r repo_api \<Rightarrow> string \<Rightarrow> 'r search_engine \<Rightarrow> CelestialObjectModel list" where
  "exactSearchImpl api query se =
     (case se_repository se of
        None \<Rightarrow> []
      | Some r \<Rightarrow> (case rp_findByIdentifier api query r of None \<Rightarrow> [] | Some obj \<Rightarrow> [obj]))"

definition look_up :: "'r repo_api \<Rightarrow> 'r \<Rightarrow> (string \<times> 'd) list \<Rightarrow> CelestialObjectModel list" where
  "look_up api r found = List.map_filter (\<lambda>(objectId, distance). rp_findByIdentifier api objectId r) found"

definition fuzzySearchImpl :: "'r repo_api \<Rightarrow> string \<Rightarrow> int \<Rightarrow> 'r search_engine \<Rightarrow> CelestialObjectModel list result" where
  "fuzzySearchImpl api query tolerance se =
     (case (se_fuzzy se, se_repository se) of
        (Some fm, Some r) \<Rightarrow>
          (case FuzzyMatcher_match query tolerance 50 fm of
             Inl e \<Rightarrow> Inl e
           | Inr matches \<Rightarrow> Inr (look_up api r matches))
      | _ \<Rightarrow> Inr [])"

definition searchByCoordinatesImpl :: "'r repo_api \<Rightarrow> real \<Rightarrow> real \<Rightarrow> real \<Rightarrow> int \<Rightarrow> 'r search_engine \<Rightarrow> CelestialObjectModel list" where
  "searchByCoordinatesImpl api ra dec radius limit se =
     (case (se_spatial se, se_repository se) of
        (Some sp, Some r) \<Rightarrow> look_up api r (searchRadius ra dec radius (size_t limit) sp)
      | _ \<Rightarrow> [])"

definition autocompleteImpl :: "string \<Rightarrow> int \<Rightarrow> 'r search_engine \<Rightarrow> string list" where
  "autocompleteImpl pre limit se = (case se_trie se of None \<Rightarrow> [] | Some t \<Rightarrow> autocomplete pre (size_t limit) t)"

definition advancedSearchImpl :: "'r repo_api \<Rightarrow> CelestialSearchFilter \<Rightarrow> 'r search_engine \<Rightarrow> CelestialObjectModel list" where
  "advancedSearchImpl api filt se = (case se_repository se of None \<Rightarrow> [] | Some r \<Rightarrow> rp_search api filt r)"

definition SearchEngine_search :: "'r repo_api \<Rightarrow> string \<Rightarrow> SearchOptions \<Rightarrow> 'r search_engine \<Rightarrow> CelestialObjectModel list result" where
  "SearchEngine_search api query options se =
     (if \<not> se_isInitialized se then Inr []
      else
        (let results = exactSearchImpl api query se
         in case (if results = [] \<and> so_useFuzzy options \<and> so_fuzzyTolerance options > 0
                  then fuzzySearchImpl api query (so_fuzzyTolerance options) se else Inr results) of
              Inl e \<Rightarrow> Inl e
            | Inr results \<Rightarrow> resize_to (so_maxResults options) results))"

definition SearchEngine_exactSearch :: "'r repo_api \<Rightarrow> string \<Rightarrow> int \<Rightarrow> 'r search_engine \<Rightarrow> CelestialObjectModel list result" where
  "SearchEngine_exactSearch api query limit se = resize_to limit (exactSearchImpl api query se)"

definition SearchEngine_fuzzySearch :: "'r repo_api \<Rightarrow> string \<Rightarrow> int \<Rightarrow> int \<Rightarrow> 'r search_engine \<Rightarrow> CelestialObjectModel list result" where
  "SearchEngine_fuzzySearch api query tolerance limit se =
     (case fuzzySearchImpl api query tolerance se of Inl e \<Rightarrow> Inl e | Inr results \<Rightarrow> resize_to limit results)"

definition SearchEngine_getStats :: "'r search_engine \<Rightarrow> string" where
  "SearchEngine_getStats se =
     ''SearchEngine Statistics:'' @ [CHR 0x0A]
     @ ''  Initialized: '' @ (if se_isInitialized se then ''Yes'' else ''No'') @ [CHR 0x0A]
     @ ''  Object Count: '' @ show_nat (se_objectCount se) @ [CHR 0x0A]
     @ (case se_trie se of None \<Rightarrow> [] | Some t \<Rightarrow> ''  Trie Index Size: '' @ show_nat (subtreeSize t) @ [CHR 0x0A])
     @ (case se_spatial se of None \<Rightarrow> [] | Some s \<Rightarrow> ''  Spatial Index Objects: '' @ show_nat (SpatialIndex_size s) @ [CHR 0x0A])
     @ (case se_fuzzy se of None \<Rightarrow> [] | Some f \<Rightarrow> ''  Fuzzy Matcher Stats:'' @ [CHR 0x0A] @ getStats f)"

section \<open>What the indexes hold\<close>

definition obj_names :: "CelestialObjectModel \<Rightarrow> string list" where
  "obj_names x = filter (\<lambda>n. n \<noteq> []) [co_identifier x, co_mIdentifier x, co_chineseName x]"

definition obj_terms :: "CelestialObjectModel \<Rightarrow> string list" where
  "obj_terms x = co_identifier x # (if co_mIdentifier x \<noteq> [] then [co_mIdentifier x] else [])"

definition obj_place :: "CelestialObjectModel \<Rightarrow> string \<times> point" where
  "obj_place x = (co_identifier x, co_radJ2000 x, co_decDJ2000 x)"

definition term_entries :: "CelestialObjectModel list \<Rightarrow> (string \<times> string) list" where
  "term_entries objs = concat (map (\<lambda>x. map (\<lambda>t. (t, co_identifier x)) (obj_terms x)) objs)"

abbreviation load_terms :: "(string \<times> string) list \<Rightarrow> fuzzy_matcher \<Rightarrow> fuzzy_matcher" where
  "load_terms es fm \<equiv> foldl (\<lambda>fm e. addTerm (fst e) (snd e) fm) fm es"

lemma indexObjects_eq:
  "indexObjects objs names sp fm = map_option
     (\<lambda>sp'. (names @ concat (map obj_names objs), sp', load_terms (term_entries objs) fm))
     (insert_all (map obj_place objs) sp)"
proof (induction objs arbitrary: names sp fm)
  case (Cons x objs)
  then show ?case
    by (auto simp: Let_def obj_names_def obj_terms_def obj_place_def term_entries_def split: option.split)
qed (simp add: term_entries_def)

lemma addTerm_from:
  "map_of (fm_termMap (addTerm n i fm)) t = Some j \<Longrightarrow> map_of (fm_termMap fm) t = Some j \<or> (t = normalize n \<and> j = i)"
  by (auto simp: addTerm_def Let_def update_conv' split: if_splits)

lemma load_terms_from:
  "map_of (fm_termMap (load_terms es fm)) t = Some i \<Longrightarrow>
     map_of (fm_termMap fm) t = Some i \<or> (\<exists>n. (n, i) \<in> set es \<and> t = normalize n)"
proof (induction es arbitrary: fm)
  case (Cons e es)
  then have "map_of (fm_termMap (addTerm (fst e) (snd e) fm)) t = Some i \<or> (\<exists>n. (n, i) \<in> set es \<and> t = normalize n)"
    by simp
  then show ?case by (cases e) (auto dest: addTerm_from)
qed simp

lemma term_entries_keys:
  "(\<lambda>e. normalize (fst e)) ` set (term_entries objs) = (\<Union>x \<in> set objs. normalize ` set (obj_terms x))"
  by (simp add: term_entries_def image_UN image_image)

text \<open>A loaded matcher answers with the identifier of an object that has a name at that distance.\<close>

definition close_to :: "string \<Rightarrow> int \<Rightarrow> CelestialObjectModel \<Rightarrow> bool" where
  "close_to q k x \<longleftrightarrow> (\<exists>t \<in> set (obj_terms x). int (edit (normalize q) (normalize t)) \<le> k)"

lemma in_term_entries: "(n, i) \<in> set (term_entries objs) \<longleftrightarrow> (\<exists>x \<in> set objs. n \<in> set (obj_terms x) \<and> i = co_identifier x)"
  by (auto simp: term_entries_def)

lemma loaded_matches:
  "\<exists>rs. FuzzyMatcher_match q k 50 (load_terms (term_entries objs) FuzzyMatcher_new) = Inr rs
     \<and> (\<forall>m \<in> set rs. \<exists>x \<in> set objs. fst m = co_identifier x \<and> close_to q k x)
     \<and> (rs = [] \<longleftrightarrow> \<not> (\<exists>x \<in> set objs. close_to q k x))"
proof -
  let ?fm = "load_terms (term_entries objs) FuzzyMatcher_new"
  let ?T = "{t \<in> keys (fm_termMap ?fm). int (edit (normalize q) t) \<le> k}"
  have ld: "fm_inv ?fm" "keys (fm_termMap ?fm) = (\<lambda>e. normalize (fst e)) ` set (term_entries objs)"
    using fuzzy_index.load [of "term_entries objs"] by auto
  obtain rs where rs: "FuzzyMatcher_match q k 50 ?fm = Inr rs"
    "mset rs \<subseteq># image_mset (\<lambda>t. (lookup_or [] (fm_termMap ?fm) t, int (edit (normalize q) t))) (mset_set ?T)"
    "length rs = min (size_t 50) (card ?T)"
    using match_spec [OF ld(1), of q k 50] by blast
  have fin: "finite ?T" by (rule finite_subset [of _ "keys (fm_termMap ?fm)"]) (auto simp: keys_def)
  have "\<exists>x \<in> set objs. fst m = co_identifier x \<and> close_to q k x" if "m \<in> set rs" for m
  proof -
    have "m \<in># image_mset (\<lambda>t. (lookup_or [] (fm_termMap ?fm) t, int (edit (normalize q) t))) (mset_set ?T)"
      using mset_subset_eqD [OF rs(2)] that by simp
    then obtain t where t: "t \<in> ?T" "fst m = lookup_or [] (fm_termMap ?fm) t" using fin by auto
    then obtain i where i: "map_of (fm_termMap ?fm) t = Some i" by (auto elim: keysE)
    from load_terms_from [OF this] obtain n where "(n, i) \<in> set (term_entries objs)" "t = normalize n"
      by (auto simp: FuzzyMatcher_new_def)
    then show ?thesis using t i by (auto simp: in_term_entries close_to_def lookup_or_def)
  qed
  moreover have "rs = [] \<longleftrightarrow> ?T = {}"
  proof -
    have "size_t 50 = 50" by code_simp
    then have "length rs = 0 \<longleftrightarrow> card ?T = 0" unfolding rs(3) by (simp only: min_def) arith
    then show ?thesis using fin by simp
  qed
  moreover have "?T = {} \<longleftrightarrow> \<not> (\<exists>x \<in> set objs. close_to q k x)"
    unfolding ld(2) term_entries_keys close_to_def by blast
  ultimately show ?thesis using rs(1) by blast
qed

section \<open>What the engine needs of a repository\<close>

abbreviation loaded :: "'r repo_api \<Rightarrow> 'r \<Rightarrow> CelestialObjectModel list" where
  "loaded api r \<equiv> rp_search api CelestialSearchFilter_new r"

locale catalogue =
  fixes inv :: "'r \<Rightarrow> bool"
    and api :: "'r repo_api"
  assumes loaded_found: "inv r \<Longrightarrow> x \<in> set (loaded api r) \<Longrightarrow> rp_findByIdentifier api (co_identifier x) r = Some x"
    and loaded_distinct: "inv r \<Longrightarrow> distinct (loaded api r)"
begin

lemma identifiers_distinct: "inv r \<Longrightarrow> distinct (map co_identifier (loaded api r))"
proof -
  assume r: "inv r"
  have "inj_on co_identifier (set (loaded api r))"
    by (rule inj_onI) (metis loaded_found [OF r] option.inject)
  then show ?thesis using loaded_distinct [OF r] by (simp add: distinct_map)
qed

lemma places_distinct: "inv r \<Longrightarrow> distinct (map fst (map obj_place (loaded api r)))"
  using identifiers_distinct [of r] by (simp add: obj_place_def comp_def)

text \<open>Initialising an engine without indexes of its own loads every object and does not block.\<close>

lemma engine_ready:
  assumes "inv r"
  obtains se sp where "SearchEngine_initialize api (SearchEngine_new (Some r) None None None) = Some (Inr (), se)"
    and "se_repository se = Some r" "se_isInitialized se" "\<not> se_locked se" "se_objectCount se = length (loaded api r)"
    and "se_trie se = Some (snd (insertBatch (concat (map obj_names (loaded api r))) emptyNode))"
    and "se_fuzzy se = Some (load_terms (term_entries (loaded api r)) FuzzyMatcher_new)"
    and "se_spatial se = Some sp" "spatial_reachable sp" "set (entries sp) \<subseteq> obj_place ` set (loaded api r)"
proof -
  let ?objs = "loaded api r"
  obtain sp where sp: "insert_all (map obj_place ?objs) SpatialIndex_new = Some sp" "spatial_reachable sp"
      "entries sp = foldl (\<lambda>acc e. kept 50 (acc @ [e])) [] (map obj_place ?objs)"
    using insert_all_new [OF new_reachable places_distinct [OF assms]]
    by (auto simp: SpatialIndex_new_def empty_root_def entries_def)
  have sub: "set (foldl (\<lambda>acc e. kept 50 (acc @ [e])) acc es) \<subseteq> set acc \<union> set es" for acc and es :: "(string \<times> point) list"
    by (induction es arbitrary: acc) (use kept_subset in fastforce)+
  let ?names = "concat (map obj_names ?objs)"
  let ?trie = "if ?names \<noteq> [] then snd (insertBatch ?names emptyNode) else emptyNode"
  have "(if ns \<noteq> [] then snd (insertBatch ns emptyNode) else emptyNode) = snd (insertBatch ns emptyNode)" for ns
    by (cases ns) (simp_all add: insertBatch_def)
  then have t: "?trie = snd (insertBatch ?names emptyNode)" .
  show thesis
    by (rule that [of "SearchEngine_new (Some r) None None None
        \<lparr>se_trie := Some ?trie, se_spatial := Some sp, se_fuzzy := Some (load_terms (term_entries ?objs) FuzzyMatcher_new),
         se_isInitialized := True, se_objectCount := length ?objs\<rparr>" sp])
      (use sp(2,3) sub [of "[]" "map obj_place ?objs"] t in
        \<open>simp_all add: SearchEngine_initialize_def SearchEngine_new_def indexObjects_eq sp(1) Let_def\<close>)
qed

lemma look_up_loaded:
  assumes "inv r" "\<forall>m \<in> set ms. \<exists>x \<in> set (loaded api r). fst m = co_identifier x \<and> P m x"
  shows "length (look_up api r ms) = length ms"
    and "\<forall>x \<in> set (look_up api r ms). x \<in> set (loaded api r) \<and> (\<exists>m \<in> set ms. fst m = co_identifier x \<and> P m x)"
proof -
  have f: "\<exists>x \<in> set (loaded api r). rp_findByIdentifier api (fst m) r = Some x \<and> fst m = co_identifier x \<and> P m x"
    if "m \<in> set ms" for m
    using assms(2) that loaded_found [OF assms(1)] by fastforce
  have "filter (\<lambda>m. rp_findByIdentifier api (fst m) r \<noteq> None) ms = ms"
    by (rule filter_True) (use f in fastforce)
  then show "length (look_up api r ms) = length ms"
    by (simp add: look_up_def List.map_filter_def case_prod_unfold comp_def)
  show "\<forall>x \<in> set (look_up api r ms). x \<in> set (loaded api r) \<and> (\<exists>m \<in> set ms. fst m = co_identifier x \<and> P m x)"
  proof
    fix x
    assume "x \<in> set (look_up api r ms)"
    then obtain m where "m \<in> set ms" "rp_findByIdentifier api (fst m) r = Some x"
      by (auto simp: look_up_def List.map_filter_def case_prod_unfold)
    with f [of m] show "x \<in> set (loaded api r) \<and> (\<exists>m \<in> set ms. fst m = co_identifier x \<and> P m x)" by auto
  qed
qed

lemma fuzzySearch_loaded:
  assumes "inv r" "se_repository se = Some r"
    and "se_fuzzy se = Some (load_terms (term_entries (loaded api r)) FuzzyMatcher_new)"
  shows "\<exists>res. fuzzySearchImpl api q k se = Inr res \<and> (\<forall>x \<in> set res. x \<in> set (loaded api r) \<and> close_to q k x)
    \<and> (res = [] \<longleftrightarrow> \<not> (\<exists>x \<in> set (loaded api r). close_to q k x))"
proof -
  obtain rs where rs: "FuzzyMatcher_match q k 50 (load_terms (term_entries (loaded api r)) FuzzyMatcher_new) = Inr rs"
    "\<forall>m \<in> set rs. \<exists>x \<in> set (loaded api r). fst m = co_identifier x \<and> close_to q k x"
    "rs = [] \<longleftrightarrow> \<not> (\<exists>x \<in> set (loaded api r). close_to q k x)"
    using loaded_matches [of q k "loaded api r"] by blast
  have "look_up api r rs = [] \<longleftrightarrow> rs = []"
    using look_up_loaded(1) [OF assms(1) rs(2)] by (metis length_0_conv)
  then show ?thesis using look_up_loaded(2) [OF assms(1) rs(2)] rs by (auto simp: fuzzySearchImpl_def assms(2,3))
qed

lemma searchByCoordinates_loaded:
  assumes "inv r" "se_repository se = Some r" "se_spatial se = Some sp" "spatial_reachable sp"
    and "set (entries sp) \<subseteq> obj_place ` set (loaded api r)"
    and "x \<in> set (searchByCoordinatesImpl api ra dec radius limit se)"
  shows "x \<in> set (loaded api r) \<and> sphericalDistance ra dec (co_radJ2000 x) (co_decDJ2000 x) \<le> radius"
proof -
  let ?P = "\<lambda>(m :: string \<times> real) y. sphericalDistance ra dec (co_radJ2000 y) (co_decDJ2000 y) \<le> radius"
  have "\<exists>y \<in> set (loaded api r). fst m = co_identifier y \<and> ?P m y"
    if "m \<in> set (searchRadius ra dec radius (size_t limit) sp)" for m
    using that assms(5)
    by (fastforce simp: searchRadius_eq [OF reachable_spatial_ok [OF assms(4)]] in_reach_def obj_place_def
        split: if_splits dest!: in_set_takeD)
  then show ?thesis
    using look_up_loaded(2) [OF assms(1), of "searchRadius ra dec radius (size_t limit) sp" ?P] assms(6)
    by (auto simp: searchByCoordinatesImpl_def assms(2,3))
qed

lemma search_exact:
  assumes "se_repository se = Some r" "se_isInitialized se" "rp_findByIdentifier api q r = Some x" "1 \<le> so_maxResults opts"
  shows "SearchEngine_search api q opts se = Inr [x]"
  using assms by (simp add: SearchEngine_search_def exactSearchImpl_def resize_to_def)

lemma search_fuzzy:
  assumes "inv r" "se_repository se = Some r" "se_isInitialized se"
    and "se_fuzzy se = Some (load_terms (term_entries (loaded api r)) FuzzyMatcher_new)"
    and "rp_findByIdentifier api q r = None" "so_useFuzzy opts" "0 < so_fuzzyTolerance opts" "0 \<le> so_maxResults opts"
  shows "\<exists>res. SearchEngine_search api q opts se = Inr res \<and> int (length res) \<le> so_maxResults opts
    \<and> (\<forall>x \<in> set res. x \<in> set (loaded api r) \<and> close_to q (so_fuzzyTolerance opts) x)
    \<and> (res = [] \<longleftrightarrow> so_maxResults opts = 0 \<or> \<not> (\<exists>x \<in> set (loaded api r). close_to q (so_fuzzyTolerance opts) x))"
proof -
  obtain res where res: "fuzzySearchImpl api q (so_fuzzyTolerance opts) se = Inr res"
    "\<forall>x \<in> set res. x \<in> set (loaded api r) \<and> close_to q (so_fuzzyTolerance opts) x"
    "res = [] \<longleftrightarrow> \<not> (\<exists>x \<in> set (loaded api r). close_to q (so_fuzzyTolerance opts) x)"
    using fuzzySearch_loaded [OF assms(1,2,4)] by blast
  have "SearchEngine_search api q opts se = Inr (take (nat (so_maxResults opts)) res)"
    using assms(2,3,5-8) res(1) by (auto simp: SearchEngine_search_def exactSearchImpl_def resize_to_def)
  moreover have "int (length (take (nat (so_maxResults opts)) res)) \<le> so_maxResults opts" using assms(8) by auto
  moreover have "take (nat (so_maxResults opts)) res = [] \<longleftrightarrow> so_maxResults opts = 0 \<or> res = []" using assms(8) by auto
  ultimately show ?thesis using res(2,3) by (blast dest: in_set_takeD)
qed

lemma autocomplete_loaded:
  assumes "se_trie se = Some (snd (insertBatch (concat (map obj_names (loaded api r))) emptyNode))"
  shows "distinct (autocompleteImpl p limit se)
    \<and> set (autocompleteImpl p limit se) \<subseteq> {n. prefix p n \<and> (\<exists>x \<in> set (loaded api r). n \<in> set (obj_names x))}
    \<and> length (autocompleteImpl p limit se)
        = min (size_t limit) (card {n. prefix p n \<and> (\<exists>x \<in> set (loaded api r). n \<in> set (obj_names x))})"
proof -
  let ?N = "{n. prefix p n \<and> (\<exists>x \<in> set (loaded api r). n \<in> set (obj_names x))}"
  obtain us where us: "autocompleteImpl p limit se = take (size_t limit) us" "distinct us" "set us = ?N"
    using batch_completions [of p "size_t limit" "concat (map obj_names (loaded api r))"]
    by (auto simp: autocompleteImpl_def assms conj_commute)
  then have "card ?N = length us" using distinct_card by metis
  then show ?thesis using us set_take_subset [of "size_t limit" us] by auto
qed

end

text \<open>The in-memory repository provides what the engine needs. The default filter asks for a hundred objects.\<close>

definition memory_api :: "memory_repository repo_api" where
  "memory_api = \<lparr>rp_search = (\<lambda>f r. case MemoryRepository_search f r of None \<Rightarrow> [] | Some xs \<Rightarrow> xs),
     rp_findByIdentifier = findByIdentifier\<rparr>"

lemma memory_loaded: "loaded memory_api r = take 100 (filter (search_hit CelestialSearchFilter_new) (objects r))"
proof -
  let ?xs = "filter (search_hit CelestialSearchFilter_new) (objects r)"
  have "sf_offset CelestialSearchFilter_new = 0" "sf_limit CelestialSearchFilter_new = 100"
    by (simp_all add: CelestialSearchFilter_new_def)
  then show ?thesis by (auto simp: memory_api_def MemoryRepository_search_def Let_def min_def)
qed

lemma mr_inv_agree: "mr_inv r \<Longrightarrow> agree co_id co_identifier (map_of (mr_byId r)) (map_of (mr_byIdentifier r))"
  by (simp add: mr_inv_def)

lemma objects_found: "mr_inv r \<Longrightarrow> x \<in> set (objects r) \<Longrightarrow> map_of (mr_byId r) (co_id x) = Some x"
proof -
  assume r: "mr_inv r" "x \<in> set (objects r)"
  then obtain i where "(i, x) \<in> set (mr_byId r)" by (auto simp: objects_def)
  then have "map_of (mr_byId r) i = Some x" using r(1) by (simp add: mr_inv_def)
  moreover from this have "co_id x = i" by (rule agreeD(1) [OF mr_inv_agree [OF r(1)]])
  ultimately show ?thesis by simp
qed

lemma objects_distinct: "mr_inv r \<Longrightarrow> distinct (objects r)"
proof -
  assume r: "mr_inv r"
  have "co_id (snd e) = fst e" if "e \<in> set (mr_byId r)" for e
    using that r agreeD(1) [of co_id co_identifier "map_of (mr_byId r)" _ "fst e" "snd e"] by (auto simp: mr_inv_def)
  then have "map co_id (objects r) = map fst (mr_byId r)" by (simp add: objects_def)
  then show ?thesis using r by (metis distinct_map mr_inv_def)
qed

interpretation mem: catalogue mr_inv memory_api
proof unfold_locales
  fix r x
  assume r: "mr_inv r" and "x \<in> set (loaded memory_api r)"
  then have "map_of (mr_byId r) (co_id x) = Some x" by (auto simp: memory_loaded objects_found dest!: in_set_takeD)
  from agreeD(2) [OF mr_inv_agree [OF r] this]
  show "rp_findByIdentifier memory_api (co_identifier x) r = Some x"
    by (simp add: memory_api_def findByIdentifier_def)
next
  fix r
  assume "mr_inv r"
  then show "distinct (loaded memory_api r)" by (simp add: memory_loaded objects_distinct)
qed


definition andromeda :: CelestialObjectModel where
  "andromeda = CelestialObjectModel_new\<lparr>co_identifier := ''NGC224'', co_mIdentifier := ''M31'', co_radJ2000 := 10\<rparr>"


end
