(* ===== verification/Csv_Handler.thy ===== *)
theory Csv_Handler
  imports Lithium_Prelude
begin

text \<open>
  Reading and writing of CSV files, the first half of \<^verbatim>\<open>src/src/target/io/csv_handler.cpp\<close>: the line parser with quotes and
  escapes, the escaping of a field, and files of records. A file is its content, \<open>None\<close> when it cannot be opened; a
  record is the map of its fields. Counters do not reach the end of \<^verbatim>\<open>int\<close>.
\<close>

section \<open>Lines\<close>

record CsvDialect =
  cd_delimiter :: char
  cd_quotechar :: char
  cd_escapechar :: char
  cd_doublequote :: bool
  cd_skipinitialspace :: bool
  cd_lineterminator :: string
  cd_strict :: bool

definition CsvDialect_default :: CsvDialect where
  "CsvDialect_default = \<lparr>cd_delimiter = CHR '','', cd_quotechar = CHR 0x22, cd_escapechar = CHR 0x5C, cd_doublequote = True,
     cd_skipinitialspace = False, cd_lineterminator = [CHR 0x0A], cd_strict = False\<rparr>"

definition isspace :: "char \<Rightarrow> bool" where
  "isspace c \<longleftrightarrow> c = CHR '' '' \<or> c = CHR 0x09 \<or> c = CHR 0x0A \<or> c = CHR 0x0B \<or> c = CHR 0x0C \<or> c = CHR 0x0D"

definition trim_field :: "CsvDialect \<Rightarrow> string \<Rightarrow> string" where
  "trim_field d field = (if cd_skipinitialspace d \<and> field \<noteq> [] \<and> isspace (hd field) then tl field else field)"

text \<open>The loop over the characters: the fields so far, the current field and the two flags.\<close>

function parseLoop :: "CsvDialect \<Rightarrow> string \<Rightarrow> string list \<Rightarrow> string \<Rightarrow> bool \<Rightarrow> bool \<Rightarrow> string list \<times> string \<times> bool" where
  "parseLoop d [] flds field inQuotes escapeNext = (flds, field, inQuotes)"
| "parseLoop d (c # cs) flds field inQuotes escapeNext =
     (if escapeNext then parseLoop d cs flds (field @ [c]) inQuotes False
      else if c = cd_escapechar d then parseLoop d cs flds field inQuotes True
      else if c = cd_quotechar d then
        (if inQuotes \<and> cs \<noteq> [] \<and> hd cs = cd_quotechar d \<and> cd_doublequote d
         then parseLoop d (tl cs) flds (field @ [cd_quotechar d]) inQuotes False
         else parseLoop d cs flds field (\<not> inQuotes) False)
      else if c = cd_delimiter d \<and> \<not> inQuotes then
        (if field \<noteq> [] \<or> \<not> inQuotes then parseLoop d cs (flds @ [trim_field d field]) [] inQuotes False
         else parseLoop d cs flds field inQuotes False)
      else parseLoop d cs flds (field @ [c]) inQuotes False)"
  by pat_completeness auto

termination parseLoop
  by (relation "measure (\<lambda>(d, cs, fs, f, q, e). length cs)") auto

definition parseLine :: "CsvDialect \<Rightarrow> string \<Rightarrow> string list" where
  "parseLine d line =
     (case parseLoop d line [] [] False False of
        (flds, field, inQuotes) \<Rightarrow> if field \<noteq> [] \<or> \<not> inQuotes then flds @ [trim_field d field] else flds)"

definition escape_char :: "CsvDialect \<Rightarrow> char \<Rightarrow> string" where
  "escape_char d c =
     (if c = cd_quotechar d then
        (if cd_doublequote d then [cd_quotechar d, cd_quotechar d] else [cd_escapechar d, cd_quotechar d])
      else [c])"

definition escapeField :: "CsvDialect \<Rightarrow> string \<Rightarrow> string" where
  "escapeField d field =
     (let needsQuotes = cd_delimiter d \<in> set field \<or> cd_quotechar d \<in> set field \<or> cd_escapechar d \<in> set field
            \<or> CHR 0x0A \<in> set field \<or> CHR 0x0D \<in> set field
      in if \<not> needsQuotes then field
         else cd_quotechar d # concat (map (escape_char d) field) @ [cd_quotechar d])"

section \<open>Files\<close>

text \<open>\<^verbatim>\<open>std::getline\<close> until it fails.\<close>

function getlines :: "string \<Rightarrow> string list" where
  "getlines [] = []"
| "getlines (c # cs) =
     takeWhile (\<lambda>x. x \<noteq> CHR 0x0A) (c # cs) # getlines (tl (dropWhile (\<lambda>x. x \<noteq> CHR 0x0A) (c # cs)))"
  by pat_completeness auto

termination getlines
proof (relation "measure length", simp, goal_cases)
  case (1 c cs)
  have "length (dropWhile (\<lambda>x. x \<noteq> CHR 0x0A) (c # cs)) \<le> length (c # cs)" by (rule length_dropWhile_le)
  then show ?case by simp
qed

definition resize_fields :: "nat \<Rightarrow> string list \<Rightarrow> string list" where
  "resize_fields n flds = take n (flds @ replicate n [])"

definition make_record :: "string list \<Rightarrow> string list \<Rightarrow> string umap" where
  "make_record fieldnames flds = foldl (\<lambda>m (k, v). AList.update k v m) [] (zip fieldnames flds)"

fun readRows :: "CsvDialect \<Rightarrow> string list \<Rightarrow> string list \<Rightarrow> nat \<Rightarrow> string umap list \<Rightarrow> string + string umap list" where
  "readRows d fieldnames [] lineNum records = Inr records"
| "readRows d fieldnames (line # rest) lineNum records =
     (let lineNum = lineNum + 1
      in if line = [] then readRows d fieldnames rest lineNum records
         else
           (let flds = parseLine d line
            in if length flds \<noteq> length fieldnames \<and> cd_strict d
               then Inl (''Field count mismatch at line '' @ show_nat lineNum @ '': expected '' @ show_nat (length fieldnames)
                 @ '', got '' @ show_nat (length flds))
               else
                 (let flds = (if length flds \<noteq> length fieldnames then resize_fields (length fieldnames) flds else flds)
                  in readRows d fieldnames rest lineNum (records @ [make_record fieldnames flds]))))"

definition CsvHandler_read :: "string \<Rightarrow> string option \<Rightarrow> CsvDialect \<Rightarrow> string + string umap list" where
  "CsvHandler_read filename file d =
     (case file of
        None \<Rightarrow> Inl (''Failed to open file: '' @ filename)
      | Some content \<Rightarrow>
        (case getlines content of
           [] \<Rightarrow> Inl ''Empty CSV file''
         | line # rest \<Rightarrow>
           (let fieldnames = parseLine d line
            in if fieldnames = [] then Inl ''No field names in CSV header''
               else readRows d fieldnames rest 1 [])))"

text \<open>A line: the fields with a delimiter before each but the first.\<close>

fun writeFields :: "CsvDialect \<Rightarrow> string list \<Rightarrow> string" where
  "writeFields d [] = []"
| "writeFields d [v] = escapeField d v"
| "writeFields d (v # w # vs) = escapeField d v @ cd_delimiter d # writeFields d (w # vs)"

definition field_of :: "string umap \<Rightarrow> string \<Rightarrow> string" where
  "field_of rec f = (case map_of rec f of None \<Rightarrow> [] | Some v \<Rightarrow> v)"

definition csv_content :: "CsvDialect \<Rightarrow> string list \<Rightarrow> string umap list \<Rightarrow> string" where
  "csv_content d flds data =
     writeFields d flds @ cd_lineterminator d
     @ concat (map (\<lambda>rec. writeFields d (map (field_of rec) flds) @ cd_lineterminator d) data)"

text \<open>\<open>created\<close> and \<open>good\<close> say whether the file could be created and written; the second result is its content.\<close>

definition CsvHandler_write ::
  "bool \<Rightarrow> bool \<Rightarrow> string \<Rightarrow> string umap list \<Rightarrow> string list \<Rightarrow> CsvDialect \<Rightarrow> (string + int) \<times> string option" where
  "CsvHandler_write created good filename data flds d =
     (if \<not> created then (Inl (''Failed to create file: '' @ filename), None)
      else if \<not> good then (Inl ''Error writing to CSV file'', Some (csv_content d flds data))
      else (Inr (int (length data)), Some (csv_content d flds data)))"

section \<open>A line read back\<close>

text \<open>Dialects whose special characters are told apart, and texts a file can carry.\<close>

definition dialect_ok :: "CsvDialect \<Rightarrow> bool" where
  "dialect_ok d \<longleftrightarrow> distinct [cd_delimiter d, cd_quotechar d, cd_escapechar d, CHR 0x0A] \<and> cd_lineterminator d = [CHR 0x0A]"

definition text_ok :: "CsvDialect \<Rightarrow> string \<Rightarrow> bool" where
  "text_ok d s \<longleftrightarrow> cd_escapechar d \<notin> set s \<and> CHR 0x0A \<notin> set s
     \<and> (cd_skipinitialspace d \<longrightarrow> s = [] \<or> \<not> isspace (hd s))"

lemma parse_plain:
  "set s \<inter> {cd_delimiter d, cd_quotechar d, cd_escapechar d} = {} \<Longrightarrow>
     parseLoop d (s @ rest) fs f False False = parseLoop d rest fs (f @ s) False False"
  by (induction s arbitrary: f) auto

lemma parse_escape_char:
  "dialect_ok d \<Longrightarrow> c \<noteq> cd_escapechar d \<Longrightarrow>
     parseLoop d (escape_char d c @ rest) fs f True False = parseLoop d rest fs (f @ [c]) True False"
  by (auto simp: escape_char_def dialect_ok_def)

lemma parse_quoted:
  assumes "dialect_ok d" "cd_escapechar d \<notin> set s" "rest = [] \<or> hd rest \<noteq> cd_quotechar d"
  shows "parseLoop d (concat (map (escape_char d) s) @ cd_quotechar d # rest) fs f True False
    = parseLoop d rest fs (f @ s) False False"
  using assms(2)
proof (induction s arbitrary: f)
  case Nil
  then show ?case using assms(1,3) by (auto simp: dialect_ok_def)
next
  case (Cons c s)
  then show ?case using parse_escape_char [OF assms(1), of c] by auto
qed

lemma parse_escaped:
  assumes "dialect_ok d" "text_ok d s" "rest = [] \<or> hd rest = cd_delimiter d"
  shows "parseLoop d (escapeField d s @ rest) fs [] False False = parseLoop d rest fs s False False"
proof -
  have r: "rest = [] \<or> hd rest \<noteq> cd_quotechar d" using assms(1,3) by (auto simp: dialect_ok_def)
  have e: "cd_escapechar d \<notin> set s" using assms(2) by (simp add: text_ok_def)
  show ?thesis
  proof (cases "set s \<inter> {cd_delimiter d, cd_quotechar d, cd_escapechar d, CHR 0x0A, CHR 0x0D} = {}")
    case True
    then have "escapeField d s = s" by (auto simp: escapeField_def)
    then show ?thesis using True parse_plain [of s d rest fs "[]"] by auto
  next
    case False
    then have "escapeField d s = cd_quotechar d # concat (map (escape_char d) s) @ [cd_quotechar d]"
      by (auto simp: escapeField_def)
    then show ?thesis using assms(1) parse_quoted [OF assms(1) e r, of fs "[]"] by (simp add: dialect_ok_def)
  qed
qed

lemma trim_ok: "text_ok d s \<Longrightarrow> trim_field d s = s"
  by (auto simp: trim_field_def text_ok_def)

lemma parse_fields:
  "dialect_ok d \<Longrightarrow> vs \<noteq> [] \<Longrightarrow> \<forall>v \<in> set vs. text_ok d v \<Longrightarrow>
     parseLoop d (writeFields d vs) fs [] False False = (fs @ butlast vs, last vs, False)"
proof (induction d vs arbitrary: fs rule: writeFields.induct)
  case (2 d v)
  then show ?case using parse_escaped [of d v "[]" fs] by simp
next
  case (3 d v w vs)
  have "parseLoop d (writeFields d (v # w # vs)) fs [] False False
      = parseLoop d (cd_delimiter d # writeFields d (w # vs)) fs v False False"
    using 3 parse_escaped [of d v "cd_delimiter d # writeFields d (w # vs)" fs] by simp
  also have "\<dots> = parseLoop d (writeFields d (w # vs)) (fs @ [v]) [] False False"
    using 3 by (simp add: dialect_ok_def trim_ok)
  also have "\<dots> = ((fs @ [v]) @ butlast (w # vs), last (w # vs), False)" using 3 by (intro 3(1)) auto
  finally show ?case by simp
qed simp

lemma parseLine_writeFields:
  "dialect_ok d \<Longrightarrow> vs \<noteq> [] \<Longrightarrow> \<forall>v \<in> set vs. text_ok d v \<Longrightarrow> parseLine d (writeFields d vs) = vs"
  by (simp add: parseLine_def parse_fields trim_ok)

section \<open>A file read back\<close>

lemma escapeField_no_newline: "dialect_ok d \<Longrightarrow> text_ok d s \<Longrightarrow> CHR 0x0A \<notin> set (escapeField d s)"
  by (auto simp: escapeField_def escape_char_def text_ok_def dialect_ok_def Let_def split: if_splits)

lemma writeFields_no_newline:
  "dialect_ok d \<Longrightarrow> \<forall>v \<in> set vs. text_ok d v \<Longrightarrow> CHR 0x0A \<notin> set (writeFields d vs)"
  by (induction d vs rule: writeFields.induct) (auto simp: escapeField_no_newline, auto simp: dialect_ok_def)

lemma getlines_line: "CHR 0x0A \<notin> set l \<Longrightarrow> getlines (l @ CHR 0x0A # rest) = l # getlines rest"
proof -
  assume l: "CHR 0x0A \<notin> set l"
  have "takeWhile (\<lambda>x. x \<noteq> CHR 0x0A) (l @ CHR 0x0A # rest) = l"
    "dropWhile (\<lambda>x. x \<noteq> CHR 0x0A) (l @ CHR 0x0A # rest) = CHR 0x0A # rest"
    using l by (induction l) auto
  then show ?thesis by (cases "l @ CHR 0x0A # rest") (simp_all del: takeWhile.simps dropWhile.simps)
qed

lemma getlines_concat:
  "\<forall>l \<in> set ls. CHR 0x0A \<notin> set l \<Longrightarrow> getlines (concat (map (\<lambda>l. l @ [CHR 0x0A]) ls)) = ls"
  by (induction ls) (simp_all add: getlines_line)

lemma writeFields_empty: "writeFields d vs = [] \<longleftrightarrow> vs = [] \<or> vs = [[]]"
  by (induction d vs rule: writeFields.induct) (auto simp: escapeField_def Let_def)

lemma map_of_make_record:
  "map_of (make_record ks (map h ks)) k = (if k \<in> set ks then Some (h k) else None)"
proof -
  have "map_of (foldl (\<lambda>m (k, v). AList.update k v m) m (zip ks (map h ks))) k = (if k \<in> set ks then Some (h k) else map_of m k)" for m
    by (induction ks arbitrary: m) (auto simp: update_conv')
  then show ?thesis by (simp add: make_record_def)
qed

lemma readRows_written:
  assumes "dialect_ok d" "ks \<noteq> []" "\<forall>rec \<in> set data. \<forall>k \<in> set ks. text_ok d (field_of rec k)"
    and "\<forall>rec \<in> set data. map (field_of rec) ks \<noteq> [[]]"
  shows "readRows d ks (map (\<lambda>rec. writeFields d (map (field_of rec) ks)) data) n rs
    = Inr (rs @ map (\<lambda>rec. make_record ks (map (field_of rec) ks)) data)"
  using assms(3,4)
proof (induction data arbitrary: n rs)
  case (Cons rec data)
  have "writeFields d (map (field_of rec) ks) \<noteq> []" using Cons.prems assms(2) by (simp add: writeFields_empty)
  moreover have "parseLine d (writeFields d (map (field_of rec) ks)) = map (field_of rec) ks"
    using Cons.prems assms(1,2) by (intro parseLine_writeFields) auto
  ultimately show ?case using Cons by (simp add: Let_def)
qed simp

text \<open>
  What is written is read back. For every dialect that ends lines with a newline and tells its special characters
  apart, with quotes doubled or escaped, and for names and values without the escape character and without newlines
  (and without initial space, if the dialect skips it), reading the written file gives one record per record
  written, in order, which maps exactly the given fields to the values they had, the empty text for a missing one.
  The delimiter, quotes and carriage returns are allowed. Records that would be an empty line are excluded.
\<close>

lemma csv_written_read:
  assumes "dialect_ok d" "ks \<noteq> []" "\<forall>k \<in> set ks. text_ok d k"
    and "\<forall>rec \<in> set data. \<forall>k \<in> set ks. text_ok d (field_of rec k)"
    and "\<forall>rec \<in> set data. map (field_of rec) ks \<noteq> [[]]"
  shows "\<exists>file recs. CsvHandler_write True True fn data ks d = (Inr (int (length data)), file)
    \<and> CsvHandler_read fn file d = Inr recs \<and> length recs = length data
    \<and> (\<forall>i < length data. \<forall>k. map_of (recs ! i) k = (if k \<in> set ks then Some (field_of (data ! i) k) else None))"
proof -
  let ?lines = "writeFields d ks # map (\<lambda>rec. writeFields d (map (field_of rec) ks)) data"
  have "csv_content d ks data = concat (map (\<lambda>l. l @ [CHR 0x0A]) ?lines)"
    using assms(1) by (simp add: csv_content_def dialect_ok_def comp_def)
  moreover have "\<forall>l \<in> set ?lines. CHR 0x0A \<notin> set l"
    using assms(1,3,4) by (auto simp: writeFields_no_newline)
  ultimately have "getlines (csv_content d ks data) = ?lines" by (simp only: getlines_concat)
  then have "CsvHandler_read fn (Some (csv_content d ks data)) d
      = Inr (map (\<lambda>rec. make_record ks (map (field_of rec) ks)) data)"
    using assms(2) readRows_written [OF assms(1,2,4,5), of 1 "[]"] parseLine_writeFields [OF assms(1-3)]
    by (simp add: CsvHandler_read_def)
  then show ?thesis by (auto simp: CsvHandler_write_def map_of_make_record)
qed

definition quoted_record :: "string umap" where
  "quoted_record = [(''name'', [CHR ''M'', CHR 0x22, CHR '','', CHR ''3'']), (''ra'', ''10'')]"

lemma csv_quotes_kept:
  "\<exists>file recs. CsvHandler_write True True ''f'' [quoted_record] [''name'', ''ra''] CsvDialect_default = (Inr 1, file)
     \<and> CsvHandler_read ''f'' file CsvDialect_default = Inr recs \<and> length recs = 1
     \<and> map_of (recs ! 0) ''name'' = Some [CHR ''M'', CHR 0x22, CHR '','', CHR ''3'']"
proof -
  have d: "dialect_ok CsvDialect_default" by code_simp
  have t: "\<forall>k \<in> set [''name'', ''ra'']. text_ok CsvDialect_default k" by code_simp
  have v: "\<forall>rec \<in> set [quoted_record]. \<forall>k \<in> set [''name'', ''ra'']. text_ok CsvDialect_default (field_of rec k)" by code_simp
  have n: "\<forall>rec \<in> set [quoted_record]. map (field_of rec) [''name'', ''ra''] \<noteq> [[]]" by simp
  have f: "field_of quoted_record ''name'' = [CHR ''M'', CHR 0x22, CHR '','', CHR ''3'']" by code_simp
  show ?thesis using csv_written_read [OF d _ t v n, of "''f''"] f by auto
qed

text \<open>The escape character is quoted but not escaped, so it is lost; a newline breaks the record.\<close>

lemma csv_escape_lost:
  "parseLine CsvDialect_default (escapeField CsvDialect_default [CHR ''a'', CHR 0x5C, CHR ''b'']) = [''ab'']"
  by code_simp

end
