(* ===== verification/Csv_Catalogue.thy ===== *)
theory Csv_Catalogue
  imports Csv_Handler Celestial_Model
begin

text \<open>
  Catalogue objects as CSV records, the second half of \<^verbatim>\<open>src/src/target/io/csv_handler.cpp\<close>: the conversions of numbers, of an
  object to a row and back, and the import and export of a file. A \<^verbatim>\<open>double\<close> is a real number. \<^verbatim>\<open>std::stod\<close> is a
  parameter, the value read and the number of characters used or \<open>None\<close> when it throws: what the export relies on is stated as
  \<open>reads_decimals\<close>.
\<close>

section \<open>Numbers\<close>

type_synonym stod = "string \<Rightarrow> (real \<times> nat) option"

text \<open>\<^verbatim>\<open>std::stoi\<close> in base ten: white space, a sign, digits; \<open>None\<close> when it throws.\<close>

definition stoi :: "string \<Rightarrow> (int \<times> nat) option" where
  "stoi s =
     (let t = dropWhile isspace s; sgn = t \<noteq> [] \<and> (hd t = CHR ''-'' \<or> hd t = CHR ''+'');
          u = (if sgn then tl t else t); ds = takeWhile is_digit u;
          v = (if sgn \<and> hd t = CHR ''-'' then - int (nat_of_digits ds) else int (nat_of_digits ds))
      in if ds = [] \<or> \<not> in_int v then None
         else Some (v, length s - length t + of_bool sgn + length ds))"

definition stringToDouble :: "stod \<Rightarrow> string \<Rightarrow> real" where
  "stringToDouble stod str =
     (if str = [] then 0
      else case stod str of None \<Rightarrow> 0 | Some (val, idx) \<Rightarrow> if idx = length str then val else 0)"

definition stringToInt :: "string \<Rightarrow> int" where
  "stringToInt str =
     (if str = [] then 0
      else case stoi str of None \<Rightarrow> 0 | Some (val, idx) \<Rightarrow> if idx = length str then val else 0)"

text \<open>The last \<open>k\<close> decimal digits, and a number in fixed notation with six places, ties to even.\<close>

fun pad_digits :: "nat \<Rightarrow> nat \<Rightarrow> string" where
  "pad_digits 0 n = []"
| "pad_digits (Suc k) n = pad_digits k (n div 10) @ [digit_char (n mod 10)]"

definition round_even :: "real \<Rightarrow> int" where
  "round_even x =
     (let f = \<lfloor>x\<rfloor>; d = x - of_int f
      in if d < 1 / 2 then f else if d > 1 / 2 then f + 1 else if even f then f else f + 1)"

definition fixed6 :: "real \<Rightarrow> string" where
  "fixed6 val =
     (let n = nat (round_even (\<bar>val\<bar> * 10 ^ 6))
      in (if val < 0 then ''-'' else []) @ show_nat (n div 10 ^ 6) @ CHR ''.'' # pad_digits 6 (n mod 10 ^ 6))"

definition strip_zeros :: "string \<Rightarrow> string" where
  "strip_zeros s = rev (dropWhile (\<lambda>c. c = CHR ''0'') (rev s))"

definition doubleToString :: "real \<Rightarrow> string" where
  "doubleToString val =
     (if val = 0 then []
      else (let result = strip_zeros (fixed6 val)
            in if last result = CHR ''.'' then butlast result else result))"

definition intToString :: "int \<Rightarrow> string" where
  "intToString val = (if val = 0 then [] else show_int val)"

section \<open>Objects\<close>

record ImportResult =
  ir_totalRecords :: int
  ir_successCount :: int
  ir_errorCount :: int
  ir_duplicateCount :: int
  ir_errors :: "string list"

definition ImportResult_new :: ImportResult where
  "ImportResult_new = \<lparr>ir_totalRecords = 0, ir_successCount = 0, ir_errorCount = 0, ir_duplicateCount = 0, ir_errors = []\<rparr>"

definition rowToCelestialObject :: "stod \<Rightarrow> string umap \<Rightarrow> string + CelestialObjectModel" where
  "rowToCelestialObject stod row =
     (let getField = field_of row; num = (\<lambda>k. stringToDouble stod (getField k))
      in if getField ''identifier'' = [] then Inl ''Missing required field: identifier''
         else Inr (CelestialObjectModel_new \<lparr>
           co_identifier := getField ''identifier'', co_mIdentifier := getField ''mIdentifier'',
           co_extensionName := getField ''extensionName'', co_component := getField ''component'',
           co_className := getField ''className'', co_chineseName := getField ''chineseName'',
           co_type := getField ''type'', co_duplicateType := getField ''duplicateType'',
           co_morphology := getField ''morphology'', co_constellationZh := getField ''constellationZh'',
           co_constellationEn := getField ''constellationEn'',
           co_raJ2000 := getField ''raJ2000'', co_radJ2000 := num ''radJ2000'',
           co_decJ2000 := getField ''decJ2000'', co_decDJ2000 := num ''decDJ2000'',
           co_visualMagnitudeV := num ''visualMagnitudeV'', co_photographicMagnitudeB := num ''photographicMagnitudeB'',
           co_bMinusV := num ''bMinusV'', co_surfaceBrightness := num ''surfaceBrightness'',
           co_majorAxis := num ''majorAxis'', co_minorAxis := num ''minorAxis'', co_positionAngle := num ''positionAngle'',
           co_detailedDescription := getField ''detailedDescription'', co_briefDescription := getField ''briefDescription'',
           co_aliases := getField ''aliases'',
           co_amateurRank := stringToInt (getField ''amateurRank''), co_clickCount := stringToInt (getField ''clickCount'') \<rparr>))"

definition celestialObjectToRow :: "CelestialObjectModel \<Rightarrow> string umap" where
  "celestialObjectToRow ob =
     [(''identifier'', co_identifier ob), (''mIdentifier'', co_mIdentifier ob), (''extensionName'', co_extensionName ob),
      (''component'', co_component ob), (''className'', co_className ob), (''chineseName'', co_chineseName ob),
      (''type'', co_type ob), (''duplicateType'', co_duplicateType ob), (''morphology'', co_morphology ob),
      (''constellationZh'', co_constellationZh ob), (''constellationEn'', co_constellationEn ob),
      (''raJ2000'', co_raJ2000 ob), (''radJ2000'', doubleToString (co_radJ2000 ob)),
      (''decJ2000'', co_decJ2000 ob), (''decDJ2000'', doubleToString (co_decDJ2000 ob)),
      (''visualMagnitudeV'', doubleToString (co_visualMagnitudeV ob)),
      (''photographicMagnitudeB'', doubleToString (co_photographicMagnitudeB ob)),
      (''bMinusV'', doubleToString (co_bMinusV ob)), (''surfaceBrightness'', doubleToString (co_surfaceBrightness ob)),
      (''majorAxis'', doubleToString (co_majorAxis ob)), (''minorAxis'', doubleToString (co_minorAxis ob)),
      (''positionAngle'', doubleToString (co_positionAngle ob)),
      (''detailedDescription'', co_detailedDescription ob), (''briefDescription'', co_briefDescription ob),
      (''aliases'', co_aliases ob),
      (''amateurRank'', intToString (co_amateurRank ob)), (''clickCount'', intToString (co_clickCount ob))]"

fun importRows :: "stod \<Rightarrow> string umap list \<Rightarrow> CelestialObjectModel list \<Rightarrow> ImportResult
    \<Rightarrow> CelestialObjectModel list \<times> ImportResult" where
  "importRows stod [] objects stats = (objects, stats)"
| "importRows stod (row # rest) objects stats =
     (case rowToCelestialObject stod row of
        Inr ob \<Rightarrow> importRows stod rest (objects @ [ob]) (stats\<lparr>ir_successCount := ir_successCount stats + 1\<rparr>)
      | Inl e \<Rightarrow> importRows stod rest objects
          (stats\<lparr>ir_errorCount := ir_errorCount stats + 1, ir_errors := ir_errors stats @ [e]\<rparr>))"

definition importCelestialObjects ::
  "stod \<Rightarrow> string \<Rightarrow> string option \<Rightarrow> CsvDialect \<Rightarrow> string + CelestialObjectModel list \<times> ImportResult" where
  "importCelestialObjects stod filename file d =
     (case CsvHandler_read filename file d of
        Inl e \<Rightarrow> Inl e
      | Inr rawData \<Rightarrow> Inr (importRows stod rawData [] (ImportResult_new\<lparr>ir_totalRecords := int (length rawData)\<rparr>)))"

definition fieldOrder :: "string list" where
  "fieldOrder = [''identifier'', ''mIdentifier'', ''extensionName'', ''component'', ''className'', ''chineseName'', ''type'',
     ''duplicateType'', ''morphology'', ''constellationZh'', ''constellationEn'', ''raJ2000'', ''radJ2000'', ''decJ2000'',
     ''decDJ2000'', ''visualMagnitudeV'', ''photographicMagnitudeB'', ''bMinusV'', ''surfaceBrightness'', ''majorAxis'',
     ''minorAxis'', ''positionAngle'', ''detailedDescription'', ''briefDescription'', ''aliases'', ''amateurRank'', ''clickCount'']"

definition exportCelestialObjects ::
  "bool \<Rightarrow> bool \<Rightarrow> string \<Rightarrow> CelestialObjectModel list \<Rightarrow> CsvDialect \<Rightarrow> (string + int) \<times> string option" where
  "exportCelestialObjects created good filename objects d =
     (case objects of
        [] \<Rightarrow> (Inl ''No objects to export'', None)
      | ob # _ \<Rightarrow>
        (let firstRow = celestialObjectToRow ob;
             fieldnames = filter (\<lambda>f. map_of firstRow f \<noteq> None) fieldOrder
         in CsvHandler_write created good filename (map celestialObjectToRow objects) fieldnames d))"

section \<open>Numbers read back\<close>

text \<open>What is relied on of \<^verbatim>\<open>std::stod\<close>: it reads a decimal numeral to its end and gives its value, here for up to fifteen digits.\<close>

definition numeral_text :: "bool \<Rightarrow> nat \<Rightarrow> string \<Rightarrow> string" where
  "numeral_text neg n ds = (if neg then ''-'' else []) @ show_nat n @ (if ds = [] then [] else CHR ''.'' # ds)"

definition numeral_value :: "bool \<Rightarrow> nat \<Rightarrow> string \<Rightarrow> real" where
  "numeral_value neg n ds = (if neg then - 1 else 1) * (real n + real (nat_of_digits ds) / 10 ^ length ds)"

definition reads_decimals :: "stod \<Rightarrow> bool" where
  "reads_decimals stod \<longleftrightarrow> (\<forall>neg n ds. n < 10 ^ 9 \<longrightarrow> length ds \<le> 6 \<longrightarrow> (\<forall>c \<in> set ds. is_digit c)
     \<longrightarrow> stod (numeral_text neg n ds) = Some (numeral_value neg n ds, length (numeral_text neg n ds)))"

text \<open>Values of at most nine digits before and six after the point, which a \<^verbatim>\<open>double\<close> tells apart.\<close>

definition six_places :: "real \<Rightarrow> bool" where
  "six_places x \<longleftrightarrow> (\<exists>z::int. \<bar>z\<bar> < 10 ^ 15 \<and> x = of_int z / 10 ^ 6)"

lemma pad_digits_length [simp]: "length (pad_digits k n) = k"
  by (induction k arbitrary: n) auto

lemma pad_digits_digits: "c \<in> set (pad_digits k n) \<Longrightarrow> is_digit c"
  by (induction k arbitrary: n) auto

lemma nat_of_digits_pad: "nat_of_digits (pad_digits k n) = n mod 10 ^ k"
  by (induction k arbitrary: n) (auto simp: nat_of_digits_snoc nat_of_digits_def mod_mult2_eq)

lemma round_even_int [simp]: "round_even (of_int z) = z"
  by (simp add: round_even_def)

lemma strip_zeros_split: "\<exists>k. s = strip_zeros s @ replicate k (CHR ''0'')"
proof -
  have "rev s = takeWhile (\<lambda>c. c = CHR ''0'') (rev s) @ dropWhile (\<lambda>c. c = CHR ''0'') (rev s)" by simp
  then have "s = strip_zeros s @ rev (takeWhile (\<lambda>c. c = CHR ''0'') (rev s))"
    unfolding strip_zeros_def by (metis rev_append rev_rev_ident)
  moreover have "rev (takeWhile (\<lambda>c. c = CHR ''0'') (rev s))
      = replicate (length (takeWhile (\<lambda>c. c = CHR ''0'') (rev s))) (CHR ''0'')"
    by (intro replicate_eqI) (auto dest: set_takeWhileD)
  ultimately show ?thesis by metis
qed

lemma strip_zeros_append: "strip_zeros (a @ CHR ''.'' # b) = a @ CHR ''.'' # strip_zeros b"
  by (cases "\<forall>c \<in> set b. c = CHR ''0''") (auto simp: strip_zeros_def dropWhile_append dropWhile_eq_Nil_conv)

lemma nat_of_digits_zeros: "nat_of_digits (s @ replicate k (CHR ''0'')) = nat_of_digits s * 10 ^ k"
proof (induction k)
  case (Suc k)
  have "nat_of_digits (s @ replicate (Suc k) (CHR ''0'')) = nat_of_digits ((s @ replicate k (CHR ''0'')) @ [CHR ''0''])"
    by (simp add: replicate_append_same)
  then show ?case by (simp only: nat_of_digits_snoc Suc) (simp add: digit_val_def)
qed simp

lemma strip_zeros_value: "real (nat_of_digits (strip_zeros s)) / 10 ^ length (strip_zeros s) = real (nat_of_digits s) / 10 ^ length s"
proof -
  obtain k where k: "s = strip_zeros s @ replicate k (CHR ''0'')" using strip_zeros_split by blast
  have "real (nat_of_digits s) = real (nat_of_digits (strip_zeros s)) * 10 ^ k"
    by (subst k) (simp add: nat_of_digits_zeros)
  moreover have "length s = length (strip_zeros s) + k" by (subst k) simp
  ultimately show ?thesis by (simp add: power_add)
qed

lemma strip_zeros_subset: "set (strip_zeros s) \<subseteq> set s" "length (strip_zeros s) \<le> length s"
  by (auto simp: strip_zeros_def dest: set_dropWhileD) (metis length_dropWhile_le length_rev)

text \<open>A value of six places is printed as the numeral of its value.\<close>

lemma doubleToString_numeral:
  assumes "six_places x" "x \<noteq> 0"
  shows "\<exists>n ds. doubleToString x = numeral_text (x < 0) n ds \<and> numeral_value (x < 0) n ds = x
    \<and> n < 10 ^ 9 \<and> length ds \<le> 6 \<and> (\<forall>c \<in> set ds. is_digit c)"
proof -
  obtain z :: int where z: "\<bar>z\<bar> < 10 ^ 15" "x = of_int z / 10 ^ 6" using assms(1) by (auto simp: six_places_def)
  define m where "m = nat \<bar>z\<bar>"
  have x: "\<bar>x\<bar> * 10 ^ 6 = of_int \<bar>z\<bar>" using z(2) by simp
  have "round_even (\<bar>x\<bar> * 10 ^ 6) = \<bar>z\<bar>" unfolding x by (rule round_even_int)
  then have fx: "fixed6 x = (if x < 0 then ''-'' else []) @ show_nat (m div 10 ^ 6) @ CHR ''.'' # pad_digits 6 (m mod 10 ^ 6)"
    by (simp add: fixed6_def m_def Let_def)
  let ?ds = "strip_zeros (pad_digits 6 (m mod 10 ^ 6))"
  have s: "strip_zeros (fixed6 x) = ((if x < 0 then ''-'' else []) @ show_nat (m div 10 ^ 6)) @ CHR ''.'' # ?ds"
    unfolding fx using strip_zeros_append [of "(if x < 0 then ''-'' else []) @ show_nat (m div 10 ^ 6)"] by simp
  have dig: "\<forall>c \<in> set ?ds. is_digit c" using strip_zeros_subset(1) pad_digits_digits by blast
  have t: "doubleToString x = numeral_text (x < 0) (m div 10 ^ 6) ?ds"
  proof (cases "?ds = []")
    case True
    then show ?thesis using assms(2) s by (simp add: doubleToString_def numeral_text_def butlast_append)
  next
    case False
    then have "last ?ds \<noteq> CHR ''.''" using dig last_in_set by fastforce
    then show ?thesis using assms(2) s False by (simp add: doubleToString_def numeral_text_def)
  qed
  have "real (nat_of_digits ?ds) / 10 ^ length ?ds = real (m mod 10 ^ 6) / 10 ^ 6"
    unfolding strip_zeros_value by (simp add: nat_of_digits_pad)
  then have "real (m div 10 ^ 6) + real (nat_of_digits ?ds) / 10 ^ length ?ds = real m / 10 ^ 6"
  proof -
    assume "real (nat_of_digits ?ds) / 10 ^ length ?ds = real (m mod 10 ^ 6) / 10 ^ 6"
    moreover have "real m = real (m div 10 ^ 6) * 10 ^ 6 + real (m mod 10 ^ 6)"
      using arg_cong [OF div_mult_mod_eq [of m "10 ^ 6"], of real]
      by (simp only: of_nat_add of_nat_mult of_nat_power of_nat_numeral)
    ultimately show ?thesis by (simp add: add_divide_distrib)
  qed
  moreover have "real m / 10 ^ 6 = \<bar>x\<bar>" using z(2) by (simp add: m_def)
  ultimately have "real (m div 10 ^ 6) + real (nat_of_digits ?ds) / 10 ^ length ?ds = \<bar>x\<bar>" by (rule trans)
  then have v: "numeral_value (x < 0) (m div 10 ^ 6) ?ds = x" unfolding numeral_value_def by simp
  have "m < 10 ^ 15" using z(1) by (simp add: m_def)
  then have "m div 10 ^ 6 < 10 ^ 9" by (simp add: div_less_iff_less_mult)
  then show ?thesis using t v dig strip_zeros_subset(2) [of "pad_digits 6 (m mod 10 ^ 6)"] by auto
qed

lemma double_roundtrip:
  assumes "reads_decimals stod" "six_places x"
  shows "stringToDouble stod (doubleToString x) = x"
proof (cases "x = 0")
  case True
  then show ?thesis by (simp add: doubleToString_def stringToDouble_def)
next
  case False
  from doubleToString_numeral [OF assms(2) this] obtain n ds where
    d: "doubleToString x = numeral_text (x < 0) n ds" "numeral_value (x < 0) n ds = x" "n < 10 ^ 9" "length ds \<le> 6"
      "\<forall>c \<in> set ds. is_digit c" by blast
  then show ?thesis using assms(1) by (auto simp: stringToDouble_def reads_decimals_def numeral_text_def)
qed

lemma digit_not_space: "is_digit c \<Longrightarrow> \<not> isspace c \<and> c \<noteq> CHR ''-'' \<and> c \<noteq> CHR ''+'' \<and> c \<noteq> CHR ''.'' \<and> c \<noteq> CHR 0x0A"
  by (auto simp: is_digit_def isspace_def)

lemma takeWhile_show_nat [simp]: "takeWhile is_digit (show_nat n) = show_nat n"
  using show_nat_digits by (simp add: takeWhile_eq_all_conv)

lemma hd_show_nat_digit [simp]: "is_digit (hd (show_nat n))"
  using show_nat_digits hd_in_set show_nat_nonempty by blast

lemma stoi_show_int:
  assumes "in_int i"
  shows "stoi (show_int i) = Some (i, length (show_int i))"
proof (cases "i < 0")
  case True
  then show ?thesis using assms by (simp add: stoi_def show_int_def isspace_def)
next
  case False
  have h: "\<not> isspace (hd (show_nat (nat i)))" "hd (show_nat (nat i)) \<noteq> CHR ''-''" "hd (show_nat (nat i)) \<noteq> CHR ''+''"
    using digit_not_space [OF hd_show_nat_digit] by blast+
  have "dropWhile isspace (show_nat (nat i)) = show_nat (nat i)"
    using h(1) by (cases "show_nat (nat i)") simp_all
  then show ?thesis using assms False h(2,3) by (simp add: stoi_def show_int_def)
qed

lemma int_roundtrip:
  assumes "in_int i"
  shows "stringToInt (intToString i) = i"
proof (cases "i = 0")
  case False
  moreover have "show_int i \<noteq> []" by (simp add: show_int_def)
  ultimately show ?thesis using stoi_show_int [OF assms] by (simp add: intToString_def stringToInt_def)
qed (simp add: intToString_def stringToInt_def)

section \<open>Objects read back\<close>

definition object_texts :: "CelestialObjectModel \<Rightarrow> string list" where
  "object_texts ob = [co_identifier ob, co_mIdentifier ob, co_extensionName ob, co_component ob, co_className ob, co_chineseName ob,
     co_type ob, co_duplicateType ob, co_morphology ob, co_constellationZh ob, co_constellationEn ob, co_raJ2000 ob, co_decJ2000 ob,
     co_detailedDescription ob, co_briefDescription ob, co_aliases ob]"

definition object_numbers :: "CelestialObjectModel \<Rightarrow> real list" where
  "object_numbers ob = [co_radJ2000 ob, co_decDJ2000 ob, co_visualMagnitudeV ob, co_photographicMagnitudeB ob, co_bMinusV ob,
     co_surfaceBrightness ob, co_majorAxis ob, co_minorAxis ob, co_positionAngle ob]"

definition object_ok :: "CsvDialect \<Rightarrow> CelestialObjectModel \<Rightarrow> bool" where
  "object_ok d ob \<longleftrightarrow> co_identifier ob \<noteq> [] \<and> (\<forall>t \<in> set (object_texts ob). text_ok d t)
     \<and> (\<forall>x \<in> set (object_numbers ob). six_places x) \<and> in_int (co_amateurRank ob) \<and> in_int (co_clickCount ob)"

text \<open>The escape character occurs in no field name and no number.\<close>

definition symbol_escape :: "CsvDialect \<Rightarrow> bool" where
  "symbol_escape d \<longleftrightarrow> (\<forall>k \<in> set fieldOrder. cd_escapechar d \<notin> set k) \<and> \<not> is_digit (cd_escapechar d)
     \<and> cd_escapechar d \<noteq> CHR ''-'' \<and> cd_escapechar d \<noteq> CHR ''.''"

lemma number_chars_ok:
  assumes "symbol_escape d" "\<forall>c \<in> set s. is_digit c \<or> c = CHR ''-'' \<or> c = CHR ''.''"
  shows "text_ok d s"
proof -
  have n: "c \<noteq> cd_escapechar d \<and> c \<noteq> CHR 0x0A \<and> \<not> isspace c" if "c \<in> set s" for c
    using assms that digit_not_space [of c] by (auto simp: symbol_escape_def isspace_def)
  then show ?thesis by (cases s) (auto simp: text_ok_def)
qed

lemma doubleToString_ok:
  assumes "symbol_escape d" "six_places x"
  shows "text_ok d (doubleToString x)"
proof (cases "x = 0")
  case True
  then show ?thesis by (simp add: doubleToString_def text_ok_def)
next
  case False
  show ?thesis using doubleToString_numeral [OF assms(2) False] show_nat_digits
    by (intro number_chars_ok [OF assms(1)]) (fastforce simp: numeral_text_def split: if_splits)
qed

lemma intToString_ok: "symbol_escape d \<Longrightarrow> text_ok d (intToString i)"
  using show_nat_digits by (intro number_chars_ok) (auto simp: intToString_def show_int_def)

lemma row_ok:
  assumes "symbol_escape d" "object_ok d ob"
  shows "\<forall>k \<in> set fieldOrder. text_ok d (field_of (celestialObjectToRow ob) k)"
proof -
  have "\<forall>v \<in> snd ` set (celestialObjectToRow ob). text_ok d v"
    using assms(2) doubleToString_ok [OF assms(1)] intToString_ok [OF assms(1)]
    by (simp add: celestialObjectToRow_def object_ok_def object_texts_def object_numbers_def)
  moreover have "text_ok d []" by (simp add: text_ok_def)
  moreover have "v \<in> snd ` set m" if "map_of m k = Some v" for m :: "string umap" and k v
    using map_of_SomeD [OF that] by force
  ultimately show ?thesis unfolding field_of_def by (metis option.case_eq_if option.collapse)
qed

lemma row_roundtrip:
  assumes "reads_decimals stod" "object_ok d ob" "\<forall>k \<in> set fieldOrder. field_of row k = field_of (celestialObjectToRow ob) k"
  shows "rowToCelestialObject stod row = Inr (ob\<lparr>co_id := 0\<rparr>)"
proof -
  have n: "\<forall>x \<in> set (object_numbers ob). stringToDouble stod (doubleToString x) = x"
    using assms(1,2) double_roundtrip by (simp add: object_ok_def)
  have i: "stringToInt (intToString (co_amateurRank ob)) = co_amateurRank ob"
    "stringToInt (intToString (co_clickCount ob)) = co_clickCount ob"
    using assms(2) int_roundtrip by (auto simp: object_ok_def)
  have f: "field_of row k = field_of (celestialObjectToRow ob) k" if "k \<in> set fieldOrder" for k
    using assms(3) that by blast
  have "rowToCelestialObject stod row = rowToCelestialObject stod (celestialObjectToRow ob)"
    by (simp add: rowToCelestialObject_def f fieldOrder_def Let_def)
  moreover have "co_identifier ob \<noteq> []" using assms(2) by (simp add: object_ok_def)
  ultimately show ?thesis using n i
    by (simp add: rowToCelestialObject_def celestialObjectToRow_def field_of_def object_numbers_def
        CelestialObjectModel_new_def Let_def)
qed

lemma importRows_eq:
  assumes "list_all2 (\<lambda>row ob. rowToCelestialObject stod row = Inr ob) rows obs"
  shows "importRows stod rows acc st = (acc @ obs, st\<lparr>ir_successCount := ir_successCount st + int (length rows)\<rparr>)"
  using assms by (induction rows obs arbitrary: acc st rule: list_all2_induct) simp_all


text \<open>A reader of plain decimal numerals has the property asked of \<^verbatim>\<open>std::stod\<close>.\<close>

definition decimal_stod :: stod where
  "decimal_stod s =
     (let neg = s \<noteq> [] \<and> hd s = CHR ''-''; t = (if neg then tl s else s); ds = takeWhile is_digit t; r = dropWhile is_digit t;
          fs = (if r \<noteq> [] \<and> hd r = CHR ''.'' then takeWhile is_digit (tl r) else [])
      in if ds = [] then None
         else Some (numeral_value neg (nat_of_digits ds) fs,
           of_bool neg + length ds + (if r \<noteq> [] \<and> hd r = CHR ''.'' then 1 else 0) + length fs))"

lemma decimal_stod_reads: "reads_decimals decimal_stod"
  unfolding reads_decimals_def
proof (intro allI impI)
  fix neg n ds
  assume ds: "\<forall>c \<in> set ds. is_digit c"
  let ?r = "if ds = [] then [] else CHR ''.'' # ds"
  have "takeWhile is_digit (show_nat n @ ?r) = show_nat n" "dropWhile is_digit (show_nat n @ ?r) = ?r"
    using show_nat_digits [of n] by (auto simp: takeWhile_append dropWhile_append)
  moreover have "hd (show_nat n @ ?r) \<noteq> CHR ''-''" by (rule hd_show_nat)
  moreover have "takeWhile is_digit ds = ds" using ds by (simp add: takeWhile_eq_all_conv)
  ultimately show "decimal_stod (numeral_text neg n ds) = Some (numeral_value neg n ds, length (numeral_text neg n ds))"
    by (cases neg) (auto simp: decimal_stod_def numeral_text_def Let_def takeWhile_eq_all_conv [THEN iffD2])
qed

definition andromeda_galaxy :: CelestialObjectModel where
  "andromeda_galaxy = CelestialObjectModel_new\<lparr>co_identifier := ''M31'', co_aliases := ''NGC 224, UGC 454'', co_radJ2000 := 10.684708,
     co_decDJ2000 := 41.26875, co_amateurRank := 1\<rparr>"


end
