(* ===== verification/Result_Merger.thy ===== *)
theory Result_Merger
  imports Csv_Catalogue Sphere
begin

text \<open>
  The merging of local and online results, \<^verbatim>\<open>src/src/target/online/merger/result_merger.cpp\<close>: when two objects are the same,
  how two are made one, and the merging of whole result lists, plain and scored. A \<^verbatim>\<open>double\<close> is a real number, except that the
  distance of two directions is \<open>None\<close> where the code takes the root of a negative number: a comparison with what it gets then
  is false. \<^verbatim>\<open>resize\<close> to a negative count throws. \<^verbatim>\<open>std::sort\<close> gives some sorted permutation; the model takes the stable
  one.
\<close>

section \<open>Configuration and statistics\<close>

datatype MergeStrategy = PreferLocal | PreferOnline | MostRecent | MostComplete | UnionAll

record MergeConfig =
  mc_strategy :: MergeStrategy
  mc_removeDuplicates :: bool
  mc_coordinateMatchRadius :: real
  mc_matchByName :: bool
  mc_matchByCoordinates :: bool
  mc_localScoreBonus :: real
  mc_onlineScoreBonus :: real
  mc_maxResults :: int
  mc_minScore :: real

definition MergeConfig_new :: MergeConfig where
  "MergeConfig_new =
     \<lparr>mc_strategy = PreferLocal, mc_removeDuplicates = True, mc_coordinateMatchRadius = 1 / 1000, mc_matchByName = True,
      mc_matchByCoordinates = True, mc_localScoreBonus = 1 / 10, mc_onlineScoreBonus = 5 / 100, mc_maxResults = 100,
      mc_minScore = 0\<rparr>"

record MergeStats =
  ms_localCount :: nat
  ms_onlineCount :: nat
  ms_mergedCount :: nat
  ms_duplicatesRemoved :: nat
  ms_conflictsResolved :: nat

record result_merger =
  rm_config :: MergeConfig
  rm_stats :: MergeStats

definition ResultMerger_new :: "MergeConfig \<Rightarrow> result_merger" where
  "ResultMerger_new config =
     \<lparr>rm_config = config,
      rm_stats = \<lparr>ms_localCount = 0, ms_onlineCount = 0, ms_mergedCount = 0, ms_duplicatesRemoved = 0,
        ms_conflictsResolved = 0\<rparr>\<rparr>"

definition ResultMerger_setConfig :: "MergeConfig \<Rightarrow> result_merger \<Rightarrow> result_merger" where
  "ResultMerger_setConfig config rm = rm\<lparr>rm_config := config\<rparr>"

section \<open>When two objects are the same\<close>

definition normalizeString :: "string \<Rightarrow> string" where
  "normalizeString str =
     (if str = [] then []
      else (let result = map to_lower str;
                rest = dropWhile isspace result
            in if rest = [] then [] else rev (dropWhile isspace (rev rest))))"

definition atan2 :: "real \<Rightarrow> real \<Rightarrow> real" where
  "atan2 y x =
     (if x > 0 then arctan (y / x)
      else if x < 0 then (if y \<ge> 0 then arctan (y / x) + pi else arctan (y / x) - pi)
      else if y > 0 then pi / 2 else if y < 0 then - (pi / 2) else 0)"

definition calculateAngularDistance :: "real \<Rightarrow> real \<Rightarrow> real \<Rightarrow> real \<Rightarrow> real option" where
  "calculateAngularDistance ra1 dec1 ra2 dec2 =
     (let ra1_rad = ra1 * pi / 180;
          dec1_rad = dec1 * pi / 180;
          ra2_rad = ra2 * pi / 180;
          dec2_rad = dec2 * pi / 180;
          dRa = ra2_rad - ra1_rad;
          dDec = dec2_rad - dec1_rad;
          a = sin (dDec / 2) * sin (dDec / 2) + cos dec1_rad * cos dec2_rad * sin (dRa / 2) * sin (dRa / 2)
      in if a < 0 \<or> 1 - a < 0 then None
         else (let c = 2 * atan2 (sqrt a) (sqrt (1 - a))
               in Some (180 / pi * c)))"

definition doesNameMatch :: "MergeConfig \<Rightarrow> string \<Rightarrow> string \<Rightarrow> bool" where
  "doesNameMatch config a b =
     (if \<not> mc_matchByName config then False
      else if a = [] \<or> b = [] then False
      else normalizeString a = normalizeString b)"

definition doesCoordinateMatch :: "MergeConfig \<Rightarrow> CelestialObjectModel \<Rightarrow> CelestialObjectModel \<Rightarrow> bool" where
  "doesCoordinateMatch config a b =
     (if \<not> mc_matchByCoordinates config then False
      else if co_radJ2000 a = 0 \<and> co_raJ2000 a = [] then False
      else if co_radJ2000 b = 0 \<and> co_raJ2000 b = [] then False
      else case calculateAngularDistance (co_radJ2000 a) (co_decDJ2000 a) (co_radJ2000 b) (co_decDJ2000 b) of
          None \<Rightarrow> False
        | Some distance \<Rightarrow> distance \<le> mc_coordinateMatchRadius config)"

definition isIdentifierDuplicate :: "MergeConfig \<Rightarrow> CelestialObjectModel \<Rightarrow> CelestialObjectModel \<Rightarrow> bool" where
  "isIdentifierDuplicate config a b =
     (if co_identifier a \<noteq> [] \<and> co_identifier b \<noteq> [] \<and> doesNameMatch config (co_identifier a) (co_identifier b) then True
      else if co_mIdentifier a \<noteq> [] \<and> co_mIdentifier b \<noteq> [] \<and> doesNameMatch config (co_mIdentifier a) (co_mIdentifier b)
        then True
      else if co_aliases a \<noteq> [] \<and> co_aliases b \<noteq> [] \<and> normalizeString (co_aliases a) = normalizeString (co_aliases b)
        then True
      else False)"

definition isDuplicate :: "MergeConfig \<Rightarrow> CelestialObjectModel \<Rightarrow> CelestialObjectModel \<Rightarrow> bool" where
  "isDuplicate config a b =
     (if isIdentifierDuplicate config a b then True
      else if doesCoordinateMatch config a b then True
      else if mc_matchByName config \<and> co_identifier a \<noteq> [] \<and> co_mIdentifier b \<noteq> []
          \<and> doesNameMatch config (co_identifier a) (co_mIdentifier b) then True
      else if mc_matchByName config \<and> co_mIdentifier a \<noteq> [] \<and> co_identifier b \<noteq> []
          \<and> doesNameMatch config (co_mIdentifier a) (co_identifier b) then True
      else False)"

section \<open>Two objects made one\<close>

definition countNonEmptyFields :: "CelestialObjectModel \<Rightarrow> nat" where
  "countNonEmptyFields obj =
      of_bool (co_identifier obj \<noteq> []) +
      of_bool (co_mIdentifier obj \<noteq> []) +
      of_bool (co_extensionName obj \<noteq> []) +
      of_bool (co_component obj \<noteq> []) +
      of_bool (co_className obj \<noteq> []) +
      of_bool (co_amateurRank obj \<noteq> 0) +
      of_bool (co_chineseName obj \<noteq> []) +
      of_bool (co_type obj \<noteq> []) +
      of_bool (co_duplicateType obj \<noteq> []) +
      of_bool (co_morphology obj \<noteq> []) +
      of_bool (co_constellationZh obj \<noteq> []) +
      of_bool (co_constellationEn obj \<noteq> []) +
      of_bool (co_raJ2000 obj \<noteq> []) +
      of_bool (co_radJ2000 obj \<noteq> 0) +
      of_bool (co_decJ2000 obj \<noteq> []) +
      of_bool (co_decDJ2000 obj \<noteq> 0) +
      of_bool (co_visualMagnitudeV obj \<noteq> 0) +
      of_bool (co_photographicMagnitudeB obj \<noteq> 0) +
      of_bool (co_bMinusV obj \<noteq> 0) +
      of_bool (co_surfaceBrightness obj \<noteq> 0) +
      of_bool (co_majorAxis obj \<noteq> 0) +
      of_bool (co_minorAxis obj \<noteq> 0) +
      of_bool (co_positionAngle obj \<noteq> 0) +
      of_bool (co_detailedDescription obj \<noteq> []) +
      of_bool (co_briefDescription obj \<noteq> []) +
      of_bool (co_aliases obj \<noteq> [])"

definition fill_text :: "string \<Rightarrow> string \<Rightarrow> string" where
  "fill_text r s = (if r = [] \<and> s \<noteq> [] then s else r)"

definition fill_number :: "'a::zero \<Rightarrow> 'a \<Rightarrow> 'a" where
  "fill_number r s = (if r = 0 \<and> s \<noteq> 0 then s else r)"

definition mergeObjects :: "MergeConfig \<Rightarrow> CelestialObjectModel \<Rightarrow> CelestialObjectModel \<Rightarrow> CelestialObjectModel" where
  "mergeObjects config primary secondary =
     (let (base, source) =
        (case mc_strategy config of
           PreferLocal \<Rightarrow> (primary, secondary)
         | PreferOnline \<Rightarrow> (secondary, primary)
         | MostComplete \<Rightarrow>
             (let primaryFields = countNonEmptyFields primary;
                  secondaryFields = countNonEmptyFields secondary
              in if secondaryFields > primaryFields then (secondary, primary) else (primary, secondary))
         | _ \<Rightarrow> (primary, secondary))
      in base\<lparr>
        co_identifier := fill_text (co_identifier base) (co_identifier source),
        co_mIdentifier := fill_text (co_mIdentifier base) (co_mIdentifier source),
        co_extensionName := fill_text (co_extensionName base) (co_extensionName source),
        co_component := fill_text (co_component base) (co_component source),
        co_className := fill_text (co_className base) (co_className source),
        co_amateurRank := fill_number (co_amateurRank base) (co_amateurRank source),
        co_chineseName := fill_text (co_chineseName base) (co_chineseName source),
        co_type := fill_text (co_type base) (co_type source),
        co_duplicateType := fill_text (co_duplicateType base) (co_duplicateType source),
        co_morphology := fill_text (co_morphology base) (co_morphology source),
        co_constellationZh := fill_text (co_constellationZh base) (co_constellationZh source),
        co_constellationEn := fill_text (co_constellationEn base) (co_constellationEn source),
        co_raJ2000 := fill_text (co_raJ2000 base) (co_raJ2000 source),
        co_radJ2000 := fill_number (co_radJ2000 base) (co_radJ2000 source),
        co_decJ2000 := fill_text (co_decJ2000 base) (co_decJ2000 source),
        co_decDJ2000 := fill_number (co_decDJ2000 base) (co_decDJ2000 source),
        co_visualMagnitudeV := fill_number (co_visualMagnitudeV base) (co_visualMagnitudeV source),
        co_photographicMagnitudeB := fill_number (co_photographicMagnitudeB base) (co_photographicMagnitudeB source),
        co_bMinusV := fill_number (co_bMinusV base) (co_bMinusV source),
        co_surfaceBrightness := fill_number (co_surfaceBrightness base) (co_surfaceBrightness source),
        co_majorAxis := fill_number (co_majorAxis base) (co_majorAxis source),
        co_minorAxis := fill_number (co_minorAxis base) (co_minorAxis source),
        co_positionAngle := fill_number (co_positionAngle base) (co_positionAngle source),
        co_detailedDescription := fill_text (co_detailedDescription base) (co_detailedDescription source),
        co_briefDescription := fill_text (co_briefDescription base) (co_briefDescription source),
        co_aliases := fill_text (co_aliases base) (co_aliases source)\<rparr>)"

section \<open>Merging lists\<close>

definition start_stats :: "'a list \<Rightarrow> 'b list \<Rightarrow> MergeStats" where
  "start_stats localResults onlineResults =
     \<lparr>ms_localCount = length localResults, ms_onlineCount = length onlineResults, ms_mergedCount = 0,
      ms_duplicatesRemoved = 0, ms_conflictsResolved = 0\<rparr>"

definition object_key :: "CelestialObjectModel \<Rightarrow> string" where
  "object_key obj = (if co_identifier obj = [] then co_mIdentifier obj else co_identifier obj)"

definition union_key :: "CelestialObjectModel \<Rightarrow> string" where
  "union_key obj =
     (let key = object_key obj
      in if key = [] then fixed6 (co_radJ2000 obj) @ ''_'' @ fixed6 (co_decDJ2000 obj) else key)"

text \<open>The loop of the union: the keys seen, the objects kept and the number of objects dropped.\<close>

fun unionLoop :: "CelestialObjectModel list \<Rightarrow> string list \<Rightarrow> CelestialObjectModel list \<Rightarrow> nat
    \<Rightarrow> CelestialObjectModel list \<times> nat" where
  "unionLoop [] seen deduplicated removed = (deduplicated, removed)"
| "unionLoop (obj # objs) seen deduplicated removed =
     (let key = union_key obj
      in if key \<notin> set seen then unionLoop objs (List.insert key seen) (deduplicated @ [obj]) removed
         else unionLoop objs seen deduplicated (removed + 1))"

text \<open>The inner loop of the first pass over the online objects from index \<open>i\<close>.\<close>

fun matchOnline :: "MergeConfig \<Rightarrow> CelestialObjectModel \<Rightarrow> nat list \<Rightarrow> nat \<Rightarrow> CelestialObjectModel list
    \<Rightarrow> (nat \<times> CelestialObjectModel) option" where
  "matchOnline config obj used i [] = None"
| "matchOnline config obj used i (online # onlines) =
     (if i \<in> set used then matchOnline config obj used (i + 1) onlines
      else if isDuplicate config obj online then Some (i, mergeObjects config obj online)
      else matchOnline config obj used (i + 1) onlines)"

text \<open>One turn of the outer loop: the indices used, the objects merged and the number of conflicts resolved.\<close>

definition mergeLocal :: "MergeConfig \<Rightarrow> CelestialObjectModel list \<Rightarrow> CelestialObjectModel
    \<Rightarrow> nat list \<times> CelestialObjectModel list \<times> nat \<Rightarrow> nat list \<times> CelestialObjectModel list \<times> nat" where
  "mergeLocal config onlineResults obj st =
     (case st of (used, merged, conflicts) \<Rightarrow>
        (case matchOnline config obj used 0 onlineResults of
           None \<Rightarrow> (used, merged @ [obj], conflicts)
         | Some (i, current) \<Rightarrow> (List.insert i used, merged @ [current], conflicts + 1)))"

definition remainingOnline :: "nat list \<Rightarrow> CelestialObjectModel list \<Rightarrow> CelestialObjectModel list" where
  "remainingOnline used onlineResults = map ((!) onlineResults) (filter (\<lambda>i. i \<notin> set used) [0..<length onlineResults])"

text \<open>The limit on the results: \<^verbatim>\<open>resize\<close> with a negative number asks for more than a vector can hold.\<close>

definition limitResults :: "int \<Rightarrow> 'a list \<Rightarrow> 'a list result" where
  "limitResults maxResults xs =
     (if to_int32 (int (length xs)) > maxResults
      then (if maxResults < 0 then Inl (OtherException ''length_error'') else Inr (take (nat maxResults) xs))
      else Inr xs)"

definition ResultMerger_merge :: "CelestialObjectModel list \<Rightarrow> CelestialObjectModel list \<Rightarrow> result_merger
    \<Rightarrow> result_merger \<times> CelestialObjectModel list result" where
  "ResultMerger_merge localResults onlineResults rm =
     (let config = rm_config rm; stats = start_stats localResults onlineResults
      in if mc_strategy config = UnionAll then
           (let combined = localResults @ onlineResults
            in if mc_removeDuplicates config then
                 (case unionLoop combined [] [] 0 of (deduplicated, removed) \<Rightarrow>
                   (rm\<lparr>rm_stats := stats\<lparr>ms_duplicatesRemoved := removed, ms_mergedCount := length deduplicated\<rparr>\<rparr>,
                    Inr deduplicated))
               else (rm\<lparr>rm_stats := stats\<lparr>ms_mergedCount := length combined\<rparr>\<rparr>, Inr combined))
         else
           (case fold (mergeLocal config onlineResults) localResults ([], [], 0) of (used, merged, conflicts) \<Rightarrow>
              (let merged = merged @ remainingOnline used onlineResults
               in (rm\<lparr>rm_stats := stats\<lparr>ms_conflictsResolved := conflicts, ms_mergedCount := length merged\<rparr>\<rparr>,
                   limitResults (mc_maxResults config) merged))))"

text \<open>The number of online objects that \<open>mergeMultiple\<close> counts is replaced by \<open>merge\<close>.\<close>

definition ResultMerger_mergeMultiple :: "CelestialObjectModel list list \<Rightarrow> result_merger
    \<Rightarrow> result_merger \<times> CelestialObjectModel list result" where
  "ResultMerger_mergeMultiple results rm =
     (let allObjects = concat results;
          rm = rm\<lparr>rm_stats := (rm_stats rm)\<lparr>ms_onlineCount := length allObjects\<rparr>\<rparr>
      in ResultMerger_merge [] allObjects rm)"

section \<open>Scored results\<close>

record CelestialObject =
  ob_ID :: string
  ob_Identifier :: string
  ob_MIdentifier :: string
  ob_ExtensionName :: string
  ob_Component :: string
  ob_ClassName :: string
  ob_AmateurRank :: string
  ob_ChineseName :: string
  ob_Type :: string
  ob_DuplicateType :: string
  ob_Morphology :: string
  ob_ConstellationCn :: string
  ob_ConstellationEn :: string
  ob_RAJ2000 :: string
  ob_RADJ2000 :: real
  ob_DecJ2000 :: string
  ob_DecDJ2000 :: real
  ob_VisualMagnitudeV :: real
  ob_PhotographicMagnitudeB :: real
  ob_BMinusV :: real
  ob_SurfaceBrightness :: real
  ob_MajorAxis :: real
  ob_MinorAxis :: real
  ob_PositionAngle :: int
  ob_DetailedDescription :: string
  ob_BriefDescription :: string

datatype MatchType = ExactMatch | FuzzyMatch | AliasMatch | CoordinateMatch | FilterMatch

record ScoredSearchResult =
  sr_object :: "CelestialObject option"
  sr_matchType :: MatchType
  sr_relevanceScore :: real
  sr_editDistance :: int
  sr_coordinateDistance :: real
  sr_isComplete :: bool
  sr_metadata :: string

definition ScoredSearchResult_new :: ScoredSearchResult where
  "ScoredSearchResult_new =
     \<lparr>sr_object = None, sr_matchType = FilterMatch, sr_relevanceScore = 0, sr_editDistance = 0, sr_coordinateDistance = 0,
      sr_isComplete = True, sr_metadata = []\<rparr>"

definition ScoredSearchResult_isValid :: "ScoredSearchResult \<Rightarrow> bool" where
  "ScoredSearchResult_isValid r \<longleftrightarrow>
     sr_object r \<noteq> None \<and> sr_relevanceScore r \<ge> 0 \<and> sr_relevanceScore r \<le> 1 \<and> sr_editDistance r \<ge> 0
     \<and> sr_coordinateDistance r \<ge> 0"

text \<open>The local results with their bonus that reach the least score.\<close>

definition adjustLocal :: "MergeConfig \<Rightarrow> ScoredSearchResult list \<Rightarrow> ScoredSearchResult list" where
  "adjustLocal config localResults =
     filter (\<lambda>adjusted. sr_relevanceScore adjusted \<ge> mc_minScore config)
       (map (\<lambda>scored. scored\<lparr>sr_relevanceScore := min 1 (sr_relevanceScore scored + mc_localScoreBonus config)\<rparr>) localResults)"

text \<open>What the comparison sees of an object.\<close>

definition scoreObj :: "CelestialObject \<Rightarrow> CelestialObjectModel" where
  "scoreObj obj = CelestialObjectModel_new\<lparr>co_identifier := ob_Identifier obj, co_radJ2000 := ob_RADJ2000 obj,
     co_decDJ2000 := ob_DecDJ2000 obj\<rparr>"

text \<open>One turn of the second loop: the first online duplicate raises the score; its key is remembered.\<close>

definition boostScored :: "MergeConfig \<Rightarrow> CelestialObjectModel list \<Rightarrow> ScoredSearchResult \<Rightarrow> ScoredSearchResult \<times> string option" where
  "boostScored config onlineResults scored =
     (case sr_object scored of
        None \<Rightarrow> (scored, None)
      | Some obj \<Rightarrow>
          (case find (isDuplicate config (scoreObj obj)) onlineResults of
             None \<Rightarrow> (scored, None)
           | Some online \<Rightarrow>
               (scored\<lparr>sr_relevanceScore := min 1 (sr_relevanceScore scored + mc_onlineScoreBonus config)\<rparr>,
                Some (object_key online))))"

text \<open>The result added for an online object that matched none.\<close>

definition onlineScored :: "MergeConfig \<Rightarrow> real \<Rightarrow> ScoredSearchResult" where
  "onlineScored config baseOnlineScore =
     ScoredSearchResult_new\<lparr>sr_relevanceScore := min 1 (baseOnlineScore + mc_onlineScoreBonus config)\<rparr>"

definition addOnline :: "MergeConfig \<Rightarrow> real \<Rightarrow> string option list \<Rightarrow> CelestialObjectModel list \<Rightarrow> ScoredSearchResult list" where
  "addOnline config baseOnlineScore mergedOnlineKeys onlineResults =
     filter (\<lambda>r. sr_relevanceScore r \<ge> mc_minScore config)
       (map (\<lambda>online. onlineScored config baseOnlineScore)
         (filter (\<lambda>online. Some (object_key online) \<notin> set mergedOnlineKeys) onlineResults))"

definition ResultMerger_mergeScored :: "ScoredSearchResult list \<Rightarrow> CelestialObjectModel list \<Rightarrow> real \<Rightarrow> result_merger
    \<Rightarrow> result_merger \<times> ScoredSearchResult list result" where
  "ResultMerger_mergeScored localResults onlineResults baseOnlineScore rm =
     (let config = rm_config rm;
          boosted = map (boostScored config onlineResults) (adjustLocal config localResults);
          keys = map snd boosted;
          found = map fst boosted @ addOnline config baseOnlineScore keys onlineResults;
          ranked = sort_key (\<lambda>r. - sr_relevanceScore r) found;
          stats = (start_stats localResults onlineResults)\<lparr>ms_conflictsResolved := length (filter (\<lambda>k. k \<noteq> None) keys)\<rparr>
      in case limitResults (mc_maxResults config) ranked of
           Inl e \<Rightarrow> (rm\<lparr>rm_stats := stats\<rparr>, Inl e)
         | Inr result \<Rightarrow> (rm\<lparr>rm_stats := stats\<lparr>ms_mergedCount := length result\<rparr>\<rparr>, Inr result))"

section \<open>Duplicates\<close>

lemma atan2_sqrt: "0 \<le> a \<Longrightarrow> a \<le> 1 \<Longrightarrow> atan2 (sqrt a) (sqrt (1 - a)) = arcsin (sqrt a)"
proof (cases "a = 1")
  case False
  assume a: "0 \<le> a" "a \<le> 1"
  let ?t = "arcsin (sqrt a)"
  have s: "- 1 \<le> sqrt a" "sqrt a \<le> 1" using a by (auto intro: order_trans [of _ 0])
  have t: "sin ?t = sqrt a" "cos ?t = sqrt (1 - a)" using s a(1) by (simp_all add: cos_arcsin)
  have pos: "0 < sqrt (1 - a)" using a False by simp
  have "?t \<noteq> pi / 2" using t(2) pos by (metis cos_pi_half less_irrefl)
  then have "- (pi / 2) < ?t" "?t < pi / 2" using half_angle_range [OF a] pi_gt_zero by linarith+
  then have "arctan (tan ?t) = ?t" by (rule arctan_tan)
  moreover have "tan ?t = sqrt a / sqrt (1 - a)" by (simp only: tan_def t)
  ultimately show ?thesis using pos by (simp add: atan2_def)
qed (simp add: atan2_def)

lemma calculateAngularDistance_eq:
  "calculateAngularDistance ra1 dec1 ra2 dec2 =
     (let a = hav (dec1 * pi / 180) (dec2 * pi / 180) (ra2 * pi / 180 - ra1 * pi / 180)
      in if a < 0 \<or> 1 < a then None else Some (180 / pi * (2 * arcsin (sqrt a))))"
  by (auto simp: calculateAngularDistance_def hav_def [symmetric] Let_def atan2_sqrt)

text \<open>
  On valid declinations the distance is defined, between 0 and 180 degrees, and is the one of the spherical law of cosines.
\<close>

theorem calculateAngularDistance_correct:
  assumes "-90 \<le> dec1" "dec1 \<le> 90" "-90 \<le> dec2" "dec2 \<le> 90"
  shows "\<exists>d. calculateAngularDistance ra1 dec1 ra2 dec2 = Some d \<and> 0 \<le> d \<and> d \<le> 180
     \<and> cos (d * pi / 180) = sin (dec1 * pi / 180) * sin (dec2 * pi / 180)
         + cos (dec1 * pi / 180) * cos (dec2 * pi / 180) * cos (ra2 * pi / 180 - ra1 * pi / 180)"
proof -
  let ?a = "hav (dec1 * pi / 180) (dec2 * pi / 180) (ra2 * pi / 180 - ra1 * pi / 180)"
  have c: "0 \<le> cos (dec1 * pi / 180)" "0 \<le> cos (dec2 * pi / 180)"
    using cos_declination [of dec1] cos_declination [of dec2] assms by (simp_all add: times_divide_eq_right)
  note a = hav_range [OF c, of "ra2 * pi / 180 - ra1 * pi / 180"]
  let ?d = "180 / pi * (2 * arcsin (sqrt ?a))"
  have "calculateAngularDistance ra1 dec1 ra2 dec2 = Some ?d"
    using a by (simp add: calculateAngularDistance_eq Let_def)
  moreover have "0 \<le> ?d" "?d \<le> 180" using half_angle_range [OF a] by (auto simp: field_simps)
  moreover have "?d * pi / 180 = 2 * arcsin (sqrt ?a)" by simp
  then have "cos (?d * pi / 180) = 1 - 2 * ?a" by (simp only: cos_twice_arcsin_sqrt [OF a])
  ultimately show ?thesis unfolding hav_cos by blast
qed

lemma hav_commute: "hav d1 d2 (r2 - r1) = hav d2 d1 (r1 - r2)"
proof -
  have s: "sin ((x - y) / 2) * sin ((x - y) / 2) = sin ((y - x) / 2) * sin ((y - x) / 2)" for x y :: real
    using sin_minus [of "(y - x) / 2"] by (simp only: minus_divide_left minus_diff_eq minus_mult_minus)
  have "hav d1 d2 (r2 - r1) = sin ((d2 - d1) / 2) * sin ((d2 - d1) / 2) + cos d1 * cos d2 * (sin ((r2 - r1) / 2) * sin ((r2 - r1) / 2))"
    by (simp add: hav_def mult.assoc)
  also have "\<dots> = sin ((d1 - d2) / 2) * sin ((d1 - d2) / 2) + cos d2 * cos d1 * (sin ((r1 - r2) / 2) * sin ((r1 - r2) / 2))"
    by (simp only: s [of d2] s [of r2] mult.commute [of "cos d1"])
  finally show ?thesis by (simp add: hav_def mult.assoc)
qed

text \<open>The test for duplicates does not depend on the order of the two objects.\<close>

theorem isDuplicate_commute: "isDuplicate config a b = isDuplicate config b a"
proof -
  have "calculateAngularDistance r1 d1 r2 d2 = calculateAngularDistance r2 d2 r1 d1" for r1 d1 r2 d2
    by (simp only: calculateAngularDistance_eq hav_commute [of "d1 * pi / 180"])
  then have "doesCoordinateMatch config a b = doesCoordinateMatch config b a"
    by (auto simp: doesCoordinateMatch_def)
  moreover have n: "doesNameMatch config x y = doesNameMatch config y x" for x y by (auto simp: doesNameMatch_def)
  have "isIdentifierDuplicate config a b = isIdentifierDuplicate config b a"
    by (simp add: isIdentifierDuplicate_def n [of "co_identifier b"] n [of "co_mIdentifier b"] eq_commute conj_commute)
  ultimately show ?thesis using n [of "co_identifier a" "co_mIdentifier b"] n [of "co_mIdentifier a" "co_identifier b"]
    by (auto simp: isDuplicate_def)
qed

section \<open>The merged object\<close>

text \<open>The fields that are counted and filled, in the order of the code.\<close>

datatype field = Text string | Number real

definition object_fields :: "CelestialObjectModel \<Rightarrow> field list" where
  "object_fields obj =
     [Text (co_identifier obj),
      Text (co_mIdentifier obj),
      Text (co_extensionName obj),
      Text (co_component obj),
      Text (co_className obj),
      Number (of_int (co_amateurRank obj)),
      Text (co_chineseName obj),
      Text (co_type obj),
      Text (co_duplicateType obj),
      Text (co_morphology obj),
      Text (co_constellationZh obj),
      Text (co_constellationEn obj),
      Text (co_raJ2000 obj),
      Number (co_radJ2000 obj),
      Text (co_decJ2000 obj),
      Number (co_decDJ2000 obj),
      Number (co_visualMagnitudeV obj),
      Number (co_photographicMagnitudeB obj),
      Number (co_bMinusV obj),
      Number (co_surfaceBrightness obj),
      Number (co_majorAxis obj),
      Number (co_minorAxis obj),
      Number (co_positionAngle obj),
      Text (co_detailedDescription obj),
      Text (co_briefDescription obj),
      Text (co_aliases obj)]"

fun blank :: "field \<Rightarrow> bool" where
  "blank (Text s) = (s = [])"
| "blank (Number x) = (x = 0)"

definition second_is_base :: "MergeConfig \<Rightarrow> CelestialObjectModel \<Rightarrow> CelestialObjectModel \<Rightarrow> bool" where
  "second_is_base config p s \<longleftrightarrow> mc_strategy config = PreferOnline
     \<or> mc_strategy config = MostComplete \<and> countNonEmptyFields p < countNonEmptyFields s"

lemma length_filter_Cons: "length (filter P (x # xs)) = of_bool (P x) + length (filter P xs)"
  by simp

lemma fill_fields:
  "Text (fill_text r s) = (if r = [] then Text s else Text r)"
  "Number (fill_number x y) = (if x = 0 then Number y else Number x)"
  "Number (of_int (fill_number i j)) = (if i = 0 then Number (of_int j) else Number (of_int i))"
  by (simp_all add: fill_text_def fill_number_def)

lemma countNonEmptyFields_eq: "countNonEmptyFields obj = length (filter (\<lambda>f. \<not> blank f) (object_fields obj))"
  by (simp only: countNonEmptyFields_def object_fields_def length_filter_Cons blank.simps filter.simps(1) list.size(3) add_0_right
      add.assoc of_int_eq_0_iff)

lemma mergeObjects_eq:
  "mergeObjects config p s =
     (if second_is_base config p s then mergeObjects (config\<lparr>mc_strategy := PreferLocal\<rparr>) s p
      else mergeObjects (config\<lparr>mc_strategy := PreferLocal\<rparr>) p s)"
  by (cases "mc_strategy config") (simp_all add: mergeObjects_def second_is_base_def Let_def)

lemma mergeObjects_local_fields:
  "object_fields (mergeObjects (config\<lparr>mc_strategy := PreferLocal\<rparr>) p s) =
     map2 (\<lambda>b f. if blank b then f else b) (object_fields p) (object_fields s)"
  by (simp add: mergeObjects_def object_fields_def fill_fields split del: if_split)

lemma mergeObjects_local_rest:
  "co_id (mergeObjects (config\<lparr>mc_strategy := PreferLocal\<rparr>) p s) = co_id p"
  "co_clickCount (mergeObjects (config\<lparr>mc_strategy := PreferLocal\<rparr>) p s) = co_clickCount p"
  by (simp_all add: mergeObjects_def)

lemma count_filled:
  "length xs = length ys \<Longrightarrow> length (filter (\<lambda>f. \<not> blank f) (map2 (\<lambda>b f. if blank b then f else b) xs ys)) =
     length (filter (\<lambda>(x, y). \<not> blank x \<or> \<not> blank y) (zip xs ys))"
  by (induction xs ys rule: list_induct2) auto

lemma count_swap:
  "length xs = length ys \<Longrightarrow> length (filter (\<lambda>(x, y). \<not> blank x \<or> \<not> blank y) (zip ys xs)) =
     length (filter (\<lambda>(x, y). \<not> blank x \<or> \<not> blank y) (zip xs ys))"
  by (induction xs ys rule: list_induct2) auto

lemma length_object_fields [simp]: "length (object_fields obj) = 26"
  by (simp add: object_fields_def)

text \<open>
  Merging two objects loses nothing. One of the two is the base, the online one when online objects are preferred or when the
  most complete is asked for and it has more fields; each field of the result is the one of the base, or that of the other
  object where the base has none, the number in the database and the clicks are those of the base, and the result has a field
  wherever one of the two has it.
\<close>

theorem mergeObjects_complete:
  "mergeObjects config p s = m \<Longrightarrow> (base, source) = (if second_is_base config p s then (s, p) else (p, s)) \<Longrightarrow>
     object_fields m = map2 (\<lambda>b f. if blank b then f else b) (object_fields base) (object_fields source)
     \<and> co_id m = co_id base \<and> co_clickCount m = co_clickCount base
     \<and> countNonEmptyFields m = length (filter (\<lambda>(x, y). \<not> blank x \<or> \<not> blank y) (zip (object_fields p) (object_fields s)))"
proof -
  assume m: "mergeObjects config p s = m" and b: "(base, source) = (if second_is_base config p s then (s, p) else (p, s))"
  then have m': "m = mergeObjects (config\<lparr>mc_strategy := PreferLocal\<rparr>) base source"
    by (auto simp: mergeObjects_eq [of config] split: if_splits)
  have "countNonEmptyFields m =
      length (filter (\<lambda>(x, y). \<not> blank x \<or> \<not> blank y) (zip (object_fields base) (object_fields source)))"
    unfolding countNonEmptyFields_eq m' mergeObjects_local_fields by (rule count_filled) simp
  moreover have "length (filter (\<lambda>(x, y). \<not> blank x \<or> \<not> blank y) (zip (object_fields base) (object_fields source))) =
      length (filter (\<lambda>(x, y). \<not> blank x \<or> \<not> blank y) (zip (object_fields p) (object_fields s)))"
    using b count_swap [of "object_fields p" "object_fields s"] by (simp split: if_splits)
  ultimately show ?thesis by (simp only: m' mergeObjects_local_fields mergeObjects_local_rest simp_thms)
qed

text \<open>The strategy \<open>MostRecent\<close> is not implemented: it is \<open>PreferLocal\<close>.\<close>

lemma most_recent_prefers_local:
  "mc_strategy config = MostRecent \<Longrightarrow> mergeObjects config p s = mergeObjects (config\<lparr>mc_strategy := PreferLocal\<rparr>) p s"
  by (simp add: mergeObjects_eq [of config] second_is_base_def)

section \<open>The merged list\<close>

text \<open>Each local object takes the first online duplicate that no earlier one took.\<close>

definition first_free :: "MergeConfig \<Rightarrow> CelestialObjectModel \<Rightarrow> CelestialObjectModel list \<Rightarrow> nat option list \<Rightarrow> nat option" where
  "first_free config obj os earlier = find (\<lambda>j. Some j \<notin> set earlier \<and> isDuplicate config obj (os ! j)) [0..<length os]"

definition assigned :: "MergeConfig \<Rightarrow> CelestialObjectModel list \<Rightarrow> CelestialObjectModel list \<Rightarrow> nat option list \<Rightarrow> bool" where
  "assigned config ls os fs \<longleftrightarrow> length fs = length ls \<and> (\<forall>i < length ls. fs ! i = first_free config (ls ! i) os (take i fs))"

definition with_duplicate :: "MergeConfig \<Rightarrow> CelestialObjectModel list \<Rightarrow> CelestialObjectModel \<Rightarrow> nat option \<Rightarrow> CelestialObjectModel" where
  "with_duplicate config os obj f = (case f of None \<Rightarrow> obj | Some j \<Rightarrow> mergeObjects config obj (os ! j))"

lemma matchOnline_eq:
  "i \<le> length os \<Longrightarrow> matchOnline config obj used i (drop i os) =
     map_option (\<lambda>j. (j, mergeObjects config obj (os ! j)))
       (find (\<lambda>j. j \<notin> set used \<and> isDuplicate config obj (os ! j)) [i..<length os])"
proof (induction i rule: inc_induct)
  case (step i)
  then have "drop i os = os ! i # drop (Suc i) os" by (simp add: Cons_nth_drop_Suc)
  then show ?case using step by (simp add: upt_conv_Cons)
qed simp

lemma matchOnline_first_free:
  "set used = {j. Some j \<in> set fs} \<Longrightarrow> matchOnline config obj used 0 os =
     map_option (\<lambda>j. (j, mergeObjects config obj (os ! j))) (first_free config obj os fs)"
  using matchOnline_eq [of 0 os config obj used] by (simp add: first_free_def)

lemma first_free_new: "first_free config obj os fs = Some j \<Longrightarrow> Some j \<notin> set fs"
  by (auto simp: first_free_def find_Some_iff)

lemma first_free_bound: "first_free config obj os fs = Some j \<Longrightarrow> j < length os \<and> isDuplicate config obj (os ! j)"
  by (auto simp: first_free_def find_Some_iff)

lemma assigned_snoc:
  "assigned config ls os fs \<Longrightarrow> assigned config (ls @ [obj]) os (fs @ [first_free config obj os fs])"
  by (auto simp: assigned_def nth_append less_Suc_eq)

abbreviation taken :: "nat option list \<Rightarrow> nat option list" where
  "taken fs \<equiv> filter (\<lambda>f. f \<noteq> None) fs"

lemma mergeLocal_fold:
  "\<exists>fs used. assigned config ls os fs \<and> distinct (taken fs) \<and> set used = {j. Some j \<in> set fs}
     \<and> fold (mergeLocal config os) ls ([], [], 0) = (used, map2 (with_duplicate config os) ls fs, length (taken fs))"
proof (induction ls rule: rev_induct)
  case Nil
  have "assigned config [] os []" by (simp add: assigned_def)
  then show ?case by (intro exI [of _ "[]"]) simp
next
  case (snoc obj ls)
  then obtain fs used where IH: "assigned config ls os fs" "distinct (taken fs)" "set used = {j. Some j \<in> set fs}"
    "fold (mergeLocal config os) ls ([], [], 0) = (used, map2 (with_duplicate config os) ls fs, length (taken fs))" by blast
  let ?f = "first_free config obj os fs"
  let ?fs = "fs @ [?f]"
  let ?used = "case ?f of None \<Rightarrow> used | Some j \<Rightarrow> List.insert j used"
  have len: "length fs = length ls" using IH(1) by (simp add: assigned_def)
  have "distinct (taken ?fs)" using IH(2) first_free_new [of config obj os fs] by (cases ?f) auto
  moreover have "set ?used = {j. Some j \<in> set ?fs}" using IH(3) by (cases ?f) auto
  moreover have "fold (mergeLocal config os) (ls @ [obj]) ([], [], 0) =
      (?used, map2 (with_duplicate config os) (ls @ [obj]) ?fs, length (taken ?fs))"
    using len by (cases ?f) (simp_all add: IH(4) mergeLocal_def matchOnline_first_free [OF IH(3)] with_duplicate_def)
  ultimately show ?case using assigned_snoc [OF IH(1)] by blast
qed

lemma limitResults_ok:
  "length xs \<le> nat int_max \<Longrightarrow> 0 \<le> n \<Longrightarrow> limitResults n xs = Inr (take (nat n) xs)"
  by (auto simp: limitResults_def to_int32_id in_int_def int_min_def int_max_def)

lemma limitResults_negative:
  "length xs \<le> nat int_max \<Longrightarrow> n < 0 \<Longrightarrow> limitResults n xs = Inl (OtherException ''length_error'')"
  by (auto simp: limitResults_def to_int32_id in_int_def int_min_def int_max_def)

lemma card_taken: "distinct (taken fs) \<Longrightarrow> card {j. Some j \<in> set fs} = length (taken fs)"
proof -
  assume "distinct (taken fs)"
  then have "length (taken fs) = card (set (taken fs))" by (rule distinct_card [symmetric])
  also have "set (taken fs) = Some ` {j. Some j \<in> set fs}" by auto
  finally show ?thesis by (simp add: card_image)
qed

lemma assigned_taken: "assigned config ls os fs \<Longrightarrow> Some j \<in> set fs \<Longrightarrow> j < length os"
  using first_free_bound by (fastforce simp: assigned_def in_set_conv_nth)

lemma length_remaining:
  assumes "assigned config ls os fs" "distinct (taken fs)" "set used = {j. Some j \<in> set fs}"
  shows "length (remainingOnline used os) + length (taken fs) = length os"
proof -
  have sub: "set used \<subseteq> {0..<length os}" using assigned_taken [OF assms(1)] assms(3) by auto
  have "length (remainingOnline used os) = card ({0..<length os} - set used)"
    by (simp add: remainingOnline_def distinct_card [symmetric] set_diff_eq)
  also have "\<dots> = length os - card (set used)" using sub by (simp add: card_Diff_subset)
  finally show ?thesis using card_taken [OF assms(2)] assms(3) card_mono [OF _ sub] by simp
qed

text \<open>Objects known only by their name, for concrete lists.\<close>

abbreviation named :: "string \<Rightarrow> CelestialObjectModel" where
  "named s \<equiv> CelestialObjectModel_new\<lparr>co_identifier := s\<rparr>"

lemma named_duplicate: "s \<noteq> [] \<Longrightarrow> t \<noteq> [] \<Longrightarrow>
    isDuplicate config (named s) (named t) \<longleftrightarrow> mc_matchByName config \<and> normalizeString s = normalizeString t"
  by (auto simp: isDuplicate_def isIdentifierDuplicate_def doesNameMatch_def doesCoordinateMatch_def CelestialObjectModel_new_def)

text \<open>
  C38: Merging a local and an online list loses no object and duplicates none. With every strategy but the union, each local
  object takes the first online duplicate that no earlier one took and is merged with it; the result is the local objects in
  order, then the online objects that nobody took, in order, cut to the greatest number of results. The statistics count the
  duplicates merged and the objects before the cut, which together are all objects. A negative limit makes the call throw,
  with the statistics already written.
\<close>

theorem merge_correct:
  assumes "mc_strategy (rm_config rm) \<noteq> UnionAll" "length ls + length os \<le> nat int_max"
  shows "\<exists>fs stats. assigned (rm_config rm) ls os fs \<and> distinct (taken fs)
     \<and> ResultMerger_merge ls os rm =
         (rm\<lparr>rm_stats := stats\<rparr>,
          if mc_maxResults (rm_config rm) < 0 then Inl (OtherException ''length_error'')
          else Inr (take (nat (mc_maxResults (rm_config rm)))
            (map2 (with_duplicate (rm_config rm) os) ls fs
              @ map ((!) os) (filter (\<lambda>j. Some j \<notin> set fs) [0..<length os]))))
     \<and> ms_localCount stats = length ls \<and> ms_onlineCount stats = length os \<and> ms_duplicatesRemoved stats = 0
     \<and> ms_conflictsResolved stats = length (taken fs)
     \<and> ms_mergedCount stats + ms_conflictsResolved stats = length ls + length os"
proof -
  let ?c = "rm_config rm"
  obtain fs used where fs: "assigned ?c ls os fs" "distinct (taken fs)" "set used = {j. Some j \<in> set fs}"
    "fold (mergeLocal ?c os) ls ([], [], 0) = (used, map2 (with_duplicate ?c os) ls fs, length (taken fs))"
    using mergeLocal_fold [of ?c ls os] by blast
  let ?all = "map2 (with_duplicate ?c os) ls fs @ remainingOnline used os"
  let ?st = "(start_stats ls os)\<lparr>ms_conflictsResolved := length (taken fs), ms_mergedCount := length ?all\<rparr>"
  have len: "length fs = length ls" using fs(1) by (simp add: assigned_def)
  note rest = length_remaining [OF fs(1-3)]
  have m: "ResultMerger_merge ls os rm = (rm\<lparr>rm_stats := ?st\<rparr>, limitResults (mc_maxResults ?c) ?all)"
    using assms(1) by (simp add: ResultMerger_merge_def fs(4) Let_def)
  have all: "length ?all \<le> nat int_max" using assms(2) rest len by simp
  have r: "remainingOnline used os = map ((!) os) (filter (\<lambda>j. Some j \<notin> set fs) [0..<length os])"
    by (simp add: remainingOnline_def fs(3))
  have "limitResults (mc_maxResults ?c) ?all =
      (if mc_maxResults ?c < 0 then Inl (OtherException ''length_error'') else Inr (take (nat (mc_maxResults ?c)) ?all))"
    using limitResults_ok [OF all] limitResults_negative [OF all] by simp
  moreover have "length ?all + length (taken fs) = length ls + length os" using rest len by simp
  ultimately show ?thesis using fs(1,2)
    by (intro exI [of _ fs] exI [of _ ?st]) (simp add: m r start_stats_def)
qed

text \<open>Merging M31 with M51 and a second entry of M31.\<close>

theorem merge_correct_witness:
  "snd (ResultMerger_merge [named ''M31''] [named ''M51'', named ''m31 ''] (ResultMerger_new MergeConfig_new)) =
     Inr [mergeObjects MergeConfig_new (named ''M31'') (named ''m31 ''), named ''M51'']"
proof -
  let ?rm = "ResultMerger_new MergeConfig_new"
  have c: "rm_config ?rm = MergeConfig_new" by (simp add: ResultMerger_new_def)
  have h: "mc_strategy (rm_config ?rm) \<noteq> UnionAll" "length [named ''M31''] + length [named ''M51'', named ''m31 ''] \<le> nat int_max"
    unfolding c by (simp_all add: MergeConfig_new_def int_max_def)
  from merge_correct [OF h] obtain fs stats where
    a: "assigned MergeConfig_new [named ''M31''] [named ''M51'', named ''m31 ''] fs" and
    m: "snd (ResultMerger_merge [named ''M31''] [named ''M51'', named ''m31 ''] ?rm) =
      Inr (take 100 (map2 (with_duplicate MergeConfig_new [named ''M51'', named ''m31 '']) [named ''M31''] fs
        @ map ((!) [named ''M51'', named ''m31 '']) (filter (\<lambda>j. Some j \<notin> set fs) [0..<2])))"
    unfolding c by (auto simp: MergeConfig_new_def numeral_2_eq_2)
  have n: "normalizeString ''M31'' = ''m31''" "normalizeString ''M51'' = ''m51''" "normalizeString ''m31 '' = ''m31''"
    by code_simp+
  obtain f where f: "fs = [f]" using a by (cases fs) (auto simp: assigned_def)
  have "f = Some 1"
    using a by (simp add: f assigned_def first_free_def named_duplicate n upt_rec MergeConfig_new_def)
  then show ?thesis unfolding m f by (simp add: with_duplicate_def upt_rec)
qed

section \<open>Union and several providers\<close>

lemma unionLoop_eq:
  "set seen = union_key ` set done \<Longrightarrow>
   unionLoop objs seen dedup removed =
     (dedup @ map ((!) objs) (filter (\<lambda>i. union_key (objs ! i) \<notin> union_key ` (set done \<union> set (take i objs))) [0..<length objs]),
      removed + length (filter (\<lambda>i. union_key (objs ! i) \<in> union_key ` (set done \<union> set (take i objs))) [0..<length objs]))"
proof (induction objs arbitrary: seen "done" dedup removed)
  case (Cons obj objs)
  have u: "[0..<Suc (length objs)] = 0 # map Suc [0..<length objs]"
    by (simp add: map_Suc_upt upt_conv_Cons del: upt_Suc)
  show ?case
  proof (cases "union_key obj \<in> set seen")
    case True
    then have "union_key ` insert obj (set done) = union_key ` set done" using Cons.prems by auto
    then show ?thesis using True Cons.IH [of seen "obj # done" dedup "removed + 1"] Cons.prems
      by (simp add: u filter_map comp_def Let_def insert_absorb del: upt_Suc)
  next
    case False
    then show ?thesis using Cons.IH [of "List.insert (union_key obj) seen" "obj # done" "dedup @ [obj]" removed] Cons.prems
      by (simp add: u filter_map comp_def Let_def del: upt_Suc)
  qed
qed simp

text \<open>
  The union keeps the first object of every key, in order, whatever the limit on the results.
\<close>

theorem merge_union:
  assumes "mc_strategy (rm_config rm) = UnionAll" "mc_removeDuplicates (rm_config rm)"
  shows "snd (ResultMerger_merge ls os rm) =
     Inr (map ((!) (ls @ os))
       (filter (\<lambda>i. union_key ((ls @ os) ! i) \<notin> union_key ` set (take i (ls @ os))) [0..<length (ls @ os)]))"
  using assms unionLoop_eq [of "[]" "[]" "ls @ os" "[]" 0] by (simp add: ResultMerger_merge_def Let_def)

text \<open>
  Results of several providers are put together without a search for duplicates, unless the strategy is the union.
\<close>

theorem mergeMultiple_keeps_duplicates:
  assumes "mc_strategy (rm_config rm) \<noteq> UnionAll" "0 \<le> mc_maxResults (rm_config rm)" "length (concat results) \<le> nat int_max"
  shows "snd (ResultMerger_mergeMultiple results rm) = Inr (take (nat (mc_maxResults (rm_config rm))) (concat results))"
  using assms
  by (simp add: ResultMerger_mergeMultiple_def ResultMerger_merge_def Let_def remainingOnline_def limitResults_ok map_nth
      del: take_all_iff)

lemma mergeMultiple_known_test:
  "snd (ResultMerger_mergeMultiple [[named ''M31'', named ''M33''], [named ''M31'', named ''M51'']] (ResultMerger_new MergeConfig_new))
     = Inr [named ''M31'', named ''M33'', named ''M31'', named ''M51'']"
  by (subst mergeMultiple_keeps_duplicates) (simp_all add: ResultMerger_new_def MergeConfig_new_def int_max_def)

section \<open>Ranking\<close>

lemma boostScored_score:
  assumes "0 \<le> mc_onlineScoreBonus config" "sr_relevanceScore r \<le> 1"
  shows "sr_relevanceScore r \<le> sr_relevanceScore (fst (boostScored config os r))"
    "sr_relevanceScore (fst (boostScored config os r)) \<le> 1" "sr_object (fst (boostScored config os r)) = sr_object r"
  using assms by (auto simp: boostScored_def split: option.split)

lemma adjustLocal_score:
  "r \<in> set (adjustLocal config ls) \<Longrightarrow> mc_minScore config \<le> sr_relevanceScore r \<and> sr_relevanceScore r \<le> 1"
  by (auto simp: adjustLocal_def)

lemma addOnline_score:
  "r \<in> set (addOnline config b ks os) \<Longrightarrow>
     mc_minScore config \<le> sr_relevanceScore r \<and> sr_relevanceScore r \<le> 1 \<and> r = onlineScored config b"
  by (auto simp: addOnline_def onlineScored_def)

lemma length_found:
  "length (adjustLocal config ls) + length (addOnline config b ks os) \<le> length ls + length os"
  by (auto simp: adjustLocal_def addOnline_def intro!: add_mono order_trans [OF length_filter_le])

text \<open>
  Scored results come in the order of their scores, at most as many as allowed, with scores between the least one and 1; what
  the limit cuts off scores no better than what is kept. An object of a local result that is kept carries on; a result made
  for an online object has no object, so that it is not valid.
\<close>

theorem mergeScored_ranked:
  assumes "0 \<le> mc_onlineScoreBonus (rm_config rm)" "0 \<le> mc_maxResults (rm_config rm)" "length ls + length os \<le> nat int_max"
  shows "\<exists>rs cut stats. ResultMerger_mergeScored ls os b rm = (rm\<lparr>rm_stats := stats\<rparr>, Inr rs)
     \<and> sorted (map (\<lambda>r. - sr_relevanceScore r) (rs @ cut))
     \<and> length rs = min (nat (mc_maxResults (rm_config rm))) (length (rs @ cut)) \<and> ms_mergedCount stats = length rs
     \<and> (\<forall>r \<in> set (rs @ cut). mc_minScore (rm_config rm) \<le> sr_relevanceScore r \<and> sr_relevanceScore r \<le> 1
          \<and> ((\<exists>l \<in> set ls. sr_object r = sr_object l) \<or> r = onlineScored (rm_config rm) b \<and> \<not> ScoredSearchResult_isValid r))"
proof -
  let ?c = "rm_config rm"
  let ?boosted = "map (boostScored ?c os) (adjustLocal ?c ls)"
  let ?found = "map fst ?boosted @ addOnline ?c b (map snd ?boosted) os"
  let ?ranked = "sort_key (\<lambda>r. - sr_relevanceScore r) ?found"
  let ?n = "nat (mc_maxResults ?c)"
  let ?st = "(start_stats ls os)\<lparr>ms_conflictsResolved := length (filter (\<lambda>k. k \<noteq> None) (map snd ?boosted)),
    ms_mergedCount := length (take ?n ?ranked)\<rparr>"
  have "length ?ranked \<le> length ls + length os" using length_found [of ?c ls b "map snd ?boosted" os] by simp
  then have "limitResults (mc_maxResults ?c) ?ranked = Inr (take ?n ?ranked)"
    using assms(2,3) by (intro limitResults_ok) linarith
  then have m: "ResultMerger_mergeScored ls os b rm = (rm\<lparr>rm_stats := ?st\<rparr>, Inr (take ?n ?ranked))"
    by (simp only: ResultMerger_mergeScored_def Let_def sum.case)
  have local: "\<exists>l \<in> set ls. sr_object r = sr_object l" if "r \<in> set (adjustLocal ?c ls)" for r
    using that by (auto simp: adjustLocal_def)
  have all: "mc_minScore ?c \<le> sr_relevanceScore r \<and> sr_relevanceScore r \<le> 1
      \<and> ((\<exists>l \<in> set ls. sr_object r = sr_object l) \<or> r = onlineScored ?c b \<and> \<not> ScoredSearchResult_isValid r)"
    if "r \<in> set ?found" for r
  proof (cases "r \<in> set (map fst ?boosted)")
    case True
    then obtain x where x: "x \<in> set (adjustLocal ?c ls)" "r = fst (boostScored ?c os x)" by auto
    then show ?thesis using adjustLocal_score [OF x(1)] boostScored_score [OF assms(1), of x os] local [OF x(1)] by auto
  next
    case False
    then have "r \<in> set (addOnline ?c b (map snd ?boosted) os)" using that by auto
    from addOnline_score [OF this] show ?thesis
      by (auto simp: ScoredSearchResult_isValid_def onlineScored_def ScoredSearchResult_new_def)
  qed
  have s: "take ?n ?ranked @ drop ?n ?ranked = ?ranked" by (rule append_take_drop_id)
  show ?thesis
  proof (intro exI [of _ "take ?n ?ranked"] exI [of _ "drop ?n ?ranked"] exI [of _ ?st] conjI m, unfold s)
    show "sorted (map (\<lambda>r. - sr_relevanceScore r) ?ranked)" by simp
    show "length (take ?n ?ranked) = min ?n (length ?ranked)" by simp
    show "\<forall>r \<in> set ?ranked. mc_minScore ?c \<le> sr_relevanceScore r \<and> sr_relevanceScore r \<le> 1
        \<and> ((\<exists>l \<in> set ls. sr_object r = sr_object l) \<or> r = onlineScored ?c b \<and> \<not> ScoredSearchResult_isValid r)"
      using all by (simp only: set_sort ball_simps) blast
  qed simp
qed

end
