(* ===== verification/Device_Manager.thy ===== *)
theory Device_Manager
  imports Bounded_Log Script_Retry
begin

text \<open>
  The device manager, \<^verbatim>\<open>src/src/device/manager\<close>: the registered devices by type, the primary device of each type, the state,
  metadata and retry configuration of a device by its name, the events and the statistics. A device is its address. The drivers
  behind the virtual functions, the clock, sleeping and the callbacks are the parameter \<open>E\<close>, which acts on the world
  \<open>'w\<close>; the manager calls no driver function that changes a name. A driver function may throw. Operations are atomic here;
  \<^verbatim>\<open>float\<close> is a real number and \<open>'j\<close> the type of JSON values. Counters of the state are taken below their range.
\<close>

section \<open>Types\<close>

record 'j DeviceMetadata =
  md_deviceId :: string
  md_displayName :: string
  md_driverName :: string
  md_driverVersion :: string
  md_connectionString :: string
  md_priority :: int
  md_autoConnect :: bool
  md_customProperties :: 'j

record DeviceState =
  ds_isConnected :: bool
  ds_isInitialized :: bool
  ds_isBusy :: bool
  ds_lastError :: string
  ds_healthScore :: real
  ds_lastActivity :: int
  ds_consecutiveErrors :: int
  ds_totalOperations :: int
  ds_failedOperations :: int

definition DeviceState_new :: DeviceState where
  "DeviceState_new = \<lparr>ds_isConnected = False, ds_isInitialized = False, ds_isBusy = False, ds_lastError = [], ds_healthScore = 1,
     ds_lastActivity = 0, ds_consecutiveErrors = 0, ds_totalOperations = 0, ds_failedOperations = 0\<rparr>"

datatype DeviceRetryStrategy = NoneStrategy | LinearStrategy | ExponentialStrategy

record DeviceRetryConfig =
  drc_strategy :: DeviceRetryStrategy
  drc_maxRetries :: int
  drc_initialDelay :: int
  drc_maxDelay :: int
  drc_multiplier :: real

definition DeviceRetryConfig_new :: DeviceRetryConfig where
  "DeviceRetryConfig_new = \<lparr>drc_strategy = ExponentialStrategy, drc_maxRetries = 3, drc_initialDelay = 100, drc_maxDelay = 5000,
     drc_multiplier = 2\<rparr>"

datatype ManagerEventType = EvConnected | EvDisconnected | EvStateChanged | EvPropertyChanged | EvError | EvHealthChanged
  | EvOperationStarted | EvOperationCompleted | EvOperationFailed

text \<open>The JSON data of an event is never set by the manager.\<close>

record ManagerEvent =
  ev_type :: ManagerEventType
  ev_deviceName :: string
  ev_deviceType :: string
  ev_message :: string
  ev_timestamp :: int

record EventSubscription =
  es_id :: nat
  es_callback :: nat
  es_eventTypes :: "ManagerEventType list"

record ManagerStatistics =
  mt_totalConnections :: nat
  mt_successfulConnections :: nat
  mt_failedConnections :: nat
  mt_totalOperations :: nat
  mt_successfulOperations :: nat
  mt_failedOperations :: nat
  mt_totalRetries :: nat

record DeviceOperationResult =
  or_success :: bool
  or_errorMessage :: string
  or_retryCount :: int

record ('w, 'j) device_manager =
  dm_devices :: "nat list umap"
  dm_primaryDevices :: "nat option umap"
  dm_metadata :: "'j DeviceMetadata umap"
  dm_states :: "DeviceState umap"
  dm_retryConfigs :: "DeviceRetryConfig umap"
  dm_legacyCallback :: "nat option"
  dm_subscriptions :: "EventSubscription list"
  dm_pending :: "ManagerEvent list"
  dm_nextCallbackId :: nat
  dm_statistics :: ManagerStatistics
  dm_world :: 'w

record 'w environment =
  e_getName :: "nat \<Rightarrow> string"
  e_initialize :: "nat \<Rightarrow> 'w \<Rightarrow> bool result \<times> 'w"
  e_destroy :: "nat \<Rightarrow> 'w \<Rightarrow> bool result \<times> 'w"
  e_connect :: "nat \<Rightarrow> string \<Rightarrow> int \<Rightarrow> int \<Rightarrow> 'w \<Rightarrow> bool result \<times> 'w"
  e_disconnect :: "nat \<Rightarrow> 'w \<Rightarrow> bool result \<times> 'w"
  e_isConnected :: "nat \<Rightarrow> 'w \<Rightarrow> bool result"
  e_callback :: "nat \<Rightarrow> ManagerEvent \<Rightarrow> 'w \<Rightarrow> 'w"
  e_now :: "'w \<Rightarrow> int \<times> 'w"
  e_sleep :: "int \<Rightarrow> 'w \<Rightarrow> 'w"

definition ManagerStatistics_new :: ManagerStatistics where
  "ManagerStatistics_new = \<lparr>mt_totalConnections = 0, mt_successfulConnections = 0, mt_failedConnections = 0,
     mt_totalOperations = 0, mt_successfulOperations = 0, mt_failedOperations = 0, mt_totalRetries = 0\<rparr>"

definition DeviceManager_new :: "'w \<Rightarrow> ('w, 'j) device_manager" where
  "DeviceManager_new w = \<lparr>dm_devices = [], dm_primaryDevices = [], dm_metadata = [], dm_states = [], dm_retryConfigs = [],
     dm_legacyCallback = None, dm_subscriptions = [], dm_pending = [], dm_nextCallbackId = 1,
     dm_statistics = ManagerStatistics_new, dm_world = w\<rparr>"

section \<open>Helpers\<close>

definition MAX_PENDING_EVENTS :: nat where
  "MAX_PENDING_EVENTS = 1000"

definition Impl_findDeviceByName :: "'w environment \<Rightarrow> string \<Rightarrow> ('w, 'j) device_manager \<Rightarrow> nat option" where
  "Impl_findDeviceByName E name m = find (\<lambda>d. e_getName E d = name) (concat (map snd (dm_devices m)))"

definition Impl_findDeviceType :: "'w environment \<Rightarrow> string \<Rightarrow> ('w, 'j) device_manager \<Rightarrow> string" where
  "Impl_findDeviceType E name m =
     (case find (\<lambda>(type, ds). \<exists>d \<in> set ds. e_getName E d = name) (dm_devices m) of None \<Rightarrow> [] | Some (type, ds) \<Rightarrow> type)"

definition storePending :: "ManagerEvent \<Rightarrow> ManagerEvent list \<Rightarrow> ManagerEvent list" where
  "storePending event pend = (let p = pend @ [event] in drop (length p - MAX_PENDING_EVENTS) p)"

definition wants_event :: "ManagerEvent \<Rightarrow> EventSubscription \<Rightarrow> bool" where
  "wants_event event sub \<longleftrightarrow> \<not> (es_eventTypes sub \<noteq> [] \<and> ev_type event \<notin> set (es_eventTypes sub))"

definition DeviceManager_emitEvent :: "'w environment \<Rightarrow> ManagerEvent \<Rightarrow> ('w, 'j) device_manager \<Rightarrow> ('w, 'j) device_manager" where
  "DeviceManager_emitEvent E event m =
     (let w = (case dm_legacyCallback m of None \<Rightarrow> dm_world m | Some cb \<Rightarrow> e_callback E cb event (dm_world m))
      in m\<lparr>dm_pending := storePending event (dm_pending m),
           dm_world := fold (\<lambda>sub w. if wants_event event sub then e_callback E (es_callback sub) event w else w)
             (dm_subscriptions m) w\<rparr>)"

text \<open>An event with the time at which it is made.\<close>

definition emitNow :: "'w environment \<Rightarrow> ManagerEventType \<Rightarrow> string \<Rightarrow> string \<Rightarrow> string \<Rightarrow> ('w, 'j) device_manager
    \<Rightarrow> ('w, 'j) device_manager" where
  "emitNow E t name type message m =
     (let (now, w) = e_now E (dm_world m)
      in DeviceManager_emitEvent E \<lparr>ev_type = t, ev_deviceName = name, ev_deviceType = type, ev_message = message, ev_timestamp = now\<rparr>
           (m\<lparr>dm_world := w\<rparr>))"

definition updateDeviceState :: "'w environment \<Rightarrow> string \<Rightarrow> bool \<Rightarrow> ('w, 'j) device_manager \<Rightarrow> ('w, 'j) device_manager" where
  "updateDeviceState E name conn m =
     (let (now, w) = e_now E (dm_world m);
          state = lookup_or DeviceState_new (dm_states m) name
      in m\<lparr>dm_states := AList.update name (state\<lparr>ds_isConnected := conn, ds_lastActivity := now\<rparr>) (dm_states m),
           dm_world := w\<rparr>)"

definition getDeviceRetryConfig :: "string \<Rightarrow> ('w, 'j) device_manager \<Rightarrow> DeviceRetryConfig" where
  "getDeviceRetryConfig name m = lookup_or DeviceRetryConfig_new (dm_retryConfigs m) name"

text \<open>The delay of a retry; \<open>None\<close> when the conversion to an integer is undefined.\<close>

definition calculateRetryDelay :: "DeviceRetryConfig \<Rightarrow> int \<Rightarrow> int option" where
  "calculateRetryDelay config attempt =
     (case drc_strategy config of
        NoneStrategy \<Rightarrow> Some 0
      | LinearStrategy \<Rightarrow> Some (drc_initialDelay config)
      | ExponentialStrategy \<Rightarrow>
          (case to_long_long (real_of_int (drc_initialDelay config) * drc_multiplier config ^ nat attempt) of
             None \<Rightarrow> None | Some delay \<Rightarrow> Some (min delay (drc_maxDelay config))))"

section \<open>Registration\<close>

definition addDevice :: "'w environment \<Rightarrow> string \<Rightarrow> nat \<Rightarrow> ('w, 'j) device_manager \<Rightarrow> ('w, 'j) device_manager \<times> unit result" where
  "addDevice E type device m =
     (let name = e_getName E device;
          m1 = m\<lparr>dm_devices := AList.update type (lookup_or [] (dm_devices m) type @ [device]) (dm_devices m),
                 dm_primaryDevices := try_emplace type (Some device) (dm_primaryDevices m),
                 dm_states := AList.update name DeviceState_new (dm_states m)\<rparr>
      in case e_isConnected E device (dm_world m1) of
           Inl e \<Rightarrow> (m1, Inl e)
         | Inr conn \<Rightarrow>
             (emitNow E EvStateChanged name type ''Device added'' (updateDeviceState E name conn m1), Inr ()))"

definition addDeviceWithMetadata :: "'w environment \<Rightarrow> string \<Rightarrow> nat \<Rightarrow> 'j DeviceMetadata \<Rightarrow> ('w, 'j) device_manager
    \<Rightarrow> ('w, 'j) device_manager \<times> unit result" where
  "addDeviceWithMetadata E type device metadata m =
     (case addDevice E type device m of
        (m1, Inl e) \<Rightarrow> (m1, Inl e)
      | (m1, Inr u) \<Rightarrow> (m1\<lparr>dm_metadata := AList.update (e_getName E device) metadata (dm_metadata m1)\<rparr>, Inr ()))"

definition front_of :: "nat list \<Rightarrow> nat option" where
  "front_of ds = (case ds of [] \<Rightarrow> None | d # _ \<Rightarrow> Some d)"

text \<open>The state and the metadata of a name are dropped.\<close>

definition forgetName :: "string \<Rightarrow> ('w, 'j) device_manager \<Rightarrow> ('w, 'j) device_manager" where
  "forgetName name m = m\<lparr>dm_states := AList.delete name (dm_states m), dm_metadata := AList.delete name (dm_metadata m)\<rparr>"

definition removeDevice :: "'w environment \<Rightarrow> string \<Rightarrow> nat \<Rightarrow> ('w, 'j) device_manager \<Rightarrow> ('w, 'j) device_manager \<times> unit result" where
  "removeDevice E type device m =
     (let m = m\<lparr>dm_devices := try_emplace type [] (dm_devices m)\<rparr>;
          deviceList = lookup_or [] (dm_devices m) type
      in if device \<in> set deviceList then
           (case e_destroy E device (dm_world m) of
              (Inl e, w) \<Rightarrow> (m\<lparr>dm_world := w\<rparr>, Inl e)
            | (Inr ok, w) \<Rightarrow>
                (let rest = remove1 device deviceList;
                     prim = try_emplace type None (dm_primaryDevices m);
                     prim = (if lookup_or None prim type = Some device then AList.update type (front_of rest) prim else prim)
                 in (forgetName (e_getName E device)
                      (m\<lparr>dm_world := w, dm_devices := AList.update type rest (dm_devices m), dm_primaryDevices := prim\<rparr>), Inr ())))
         else (m, Inr ()))"

definition removeDeviceByName :: "'w environment \<Rightarrow> string \<Rightarrow> ('w, 'j) device_manager \<Rightarrow> ('w, 'j) device_manager \<times> unit result" where
  "removeDeviceByName E name m =
     (case find (\<lambda>(type, ds). \<exists>d \<in> set ds. e_getName E d = name) (dm_devices m) of
        None \<Rightarrow> (m, Inr ())
      | Some (type, deviceList) \<Rightarrow>
          (let device = the (find (\<lambda>d. e_getName E d = name) deviceList)
           in case e_destroy E device (dm_world m) of
                (Inl e, w) \<Rightarrow> (m\<lparr>dm_world := w\<rparr>, Inl e)
              | (Inr ok, w) \<Rightarrow>
                  (let rest = remove1 device deviceList;
                       prim = try_emplace type None (dm_primaryDevices m);
                       prim = (case lookup_or None prim type of
                           Some p \<Rightarrow> if e_getName E p = name then AList.update type (front_of rest) prim else prim
                         | None \<Rightarrow> prim)
                   in (forgetName name
                        (m\<lparr>dm_world := w, dm_devices := AList.update type rest (dm_devices m), dm_primaryDevices := prim\<rparr>), Inr ()))))"

fun destroyLoop :: "'w environment \<Rightarrow> nat list \<Rightarrow> ('w, 'j) device_manager \<Rightarrow> ('w, 'j) device_manager \<times> unit result" where
  "destroyLoop E [] m = (m, Inr ())"
| "destroyLoop E (d # ds) m =
     (case e_destroy E d (dm_world m) of
        (Inl e, w) \<Rightarrow> (m\<lparr>dm_world := w\<rparr>, Inl e)
      | (Inr ok, w) \<Rightarrow> destroyLoop E ds (forgetName (e_getName E d) (m\<lparr>dm_world := w\<rparr>)))"

definition removeAllDevicesOfType :: "'w environment \<Rightarrow> string \<Rightarrow> ('w, 'j) device_manager \<Rightarrow> ('w, 'j) device_manager \<times> unit result" where
  "removeAllDevicesOfType E type m =
     (let m = m\<lparr>dm_devices := try_emplace type [] (dm_devices m)\<rparr>
      in case destroyLoop E (lookup_or [] (dm_devices m) type) m of
           (m1, Inl e) \<Rightarrow> (m1, Inl e)
         | (m1, Inr u) \<Rightarrow>
             (m1\<lparr>dm_devices := AList.update type [] (dm_devices m1),
                 dm_primaryDevices := AList.delete type (dm_primaryDevices m1)\<rparr>, Inr ()))"

section \<open>Access\<close>

definition getDevicesByType :: "string \<Rightarrow> ('w, 'j) device_manager \<Rightarrow> nat list" where
  "getDevicesByType type m = lookup_or [] (dm_devices m) type"

definition getPrimaryDevice :: "string \<Rightarrow> ('w, 'j) device_manager \<Rightarrow> nat option" where
  "getPrimaryDevice type m = lookup_or None (dm_primaryDevices m) type"

definition setPrimaryDevice :: "string \<Rightarrow> nat option \<Rightarrow> ('w, 'j) device_manager \<Rightarrow> ('w, 'j) device_manager" where
  "setPrimaryDevice type device m = m\<lparr>dm_primaryDevices := AList.update type device (dm_primaryDevices m)\<rparr>"

definition getDeviceMetadata :: "string \<Rightarrow> ('w, 'j) device_manager \<Rightarrow> 'j DeviceMetadata option" where
  "getDeviceMetadata name m = map_of (dm_metadata m) name"

definition updateDeviceMetadata :: "string \<Rightarrow> 'j DeviceMetadata \<Rightarrow> ('w, 'j) device_manager \<Rightarrow> ('w, 'j) device_manager" where
  "updateDeviceMetadata name metadata m = m\<lparr>dm_metadata := AList.update name metadata (dm_metadata m)\<rparr>"

definition getDeviceState :: "string \<Rightarrow> ('w, 'j) device_manager \<Rightarrow> DeviceState" where
  "getDeviceState name m = lookup_or DeviceState_new (dm_states m) name"

definition getDeviceHealth :: "string \<Rightarrow> ('w, 'j) device_manager \<Rightarrow> real" where
  "getDeviceHealth name m = (case map_of (dm_states m) name of Some st \<Rightarrow> ds_healthScore st | None \<Rightarrow> 1)"

definition getUnhealthyDevices :: "real \<Rightarrow> ('w, 'j) device_manager \<Rightarrow> string list" where
  "getUnhealthyDevices threshold m = map fst (filter (\<lambda>(name, st). ds_healthScore st < threshold) (dm_states m))"

definition isDeviceValid :: "'w environment \<Rightarrow> string \<Rightarrow> ('w, 'j) device_manager \<Rightarrow> bool" where
  "isDeviceValid E name m \<longleftrightarrow> Impl_findDeviceByName E name m \<noteq> None"

definition getDevicesWithState :: "'w environment \<Rightarrow> string \<Rightarrow> ('w, 'j) device_manager \<Rightarrow> (nat \<times> DeviceState) list" where
  "getDevicesWithState E type m =
     map (\<lambda>d. (d, lookup_or DeviceState_new (dm_states m) (e_getName E d))) (lookup_or [] (dm_devices m) type)"

definition findDevicesByDriver :: "'w environment \<Rightarrow> string \<Rightarrow> ('w, 'j) device_manager \<Rightarrow> nat list" where
  "findDevicesByDriver E driverName m =
     filter (\<lambda>d. case map_of (dm_metadata m) (e_getName E d) of None \<Rightarrow> False | Some meta \<Rightarrow> md_driverName meta = driverName)
       (concat (map snd (dm_devices m)))"

definition getDeviceById :: "'w environment \<Rightarrow> string \<Rightarrow> ('w, 'j) device_manager \<Rightarrow> nat option" where
  "getDeviceById E deviceId m =
     (case find (\<lambda>(name, meta). md_deviceId meta = deviceId) (dm_metadata m) of
        None \<Rightarrow> None | Some (name, meta) \<Rightarrow> Impl_findDeviceByName E name m)"

definition setDeviceRetryConfig :: "string \<Rightarrow> DeviceRetryConfig \<Rightarrow> ('w, 'j) device_manager \<Rightarrow> ('w, 'j) device_manager" where
  "setDeviceRetryConfig name config m = m\<lparr>dm_retryConfigs := AList.update name config (dm_retryConfigs m)\<rparr>"

definition abortDeviceOperation :: "string \<Rightarrow> ('w, 'j) device_manager \<Rightarrow> ('w, 'j) device_manager" where
  "abortDeviceOperation name m =
     (case map_of (dm_states m) name of
        None \<Rightarrow> m | Some st \<Rightarrow> m\<lparr>dm_states := AList.update name (st\<lparr>ds_isBusy := False\<rparr>) (dm_states m)\<rparr>)"


section \<open>Connections\<close>

text \<open>
  The loop of the attempts. An attempt that succeeds ends it; one that fails or throws is followed by a delay while retries are
  left. The result is \<open>None\<close> when a delay is undefined.
\<close>

function connectLoop :: "'w environment \<Rightarrow> nat \<Rightarrow> string \<Rightarrow> int \<Rightarrow> DeviceRetryConfig \<Rightarrow> int \<Rightarrow> ('w, 'j) device_manager
    \<Rightarrow> (('w, 'j) device_manager \<times> bool) option" where
  "connectLoop E device name timeout config attempts m =
     (if attempts \<le> drc_maxRetries config then
        (case e_connect E device [] timeout 1 (dm_world m) of
           (Inr True, w) \<Rightarrow>
             (let stats = dm_statistics m;
                  m1 = updateDeviceState E name True (m\<lparr>dm_world := w,
                    dm_statistics := stats\<lparr>mt_successfulConnections := mt_successfulConnections stats + 1\<rparr>\<rparr>)
              in Some (emitNow E EvConnected name (Impl_findDeviceType E name m1) [] m1, True))
         | (_, w) \<Rightarrow>
             (let attempts' = attempts + 1; m1 = m\<lparr>dm_world := w\<rparr>
              in if attempts' \<le> drc_maxRetries config then
                   (case calculateRetryDelay config attempts' of
                      None \<Rightarrow> None
                    | Some delay \<Rightarrow>
                        (let stats = dm_statistics m1
                         in connectLoop E device name timeout config attempts'
                              (m1\<lparr>dm_world := e_sleep E delay w,
                                  dm_statistics := stats\<lparr>mt_totalRetries := mt_totalRetries stats + 1\<rparr>\<rparr>)))
                 else connectLoop E device name timeout config attempts' m1))
      else (let stats = dm_statistics m
            in Some (m\<lparr>dm_statistics := stats\<lparr>mt_failedConnections := mt_failedConnections stats + 1\<rparr>\<rparr>, False)))"
  by pat_completeness auto
termination connectLoop
  by (relation "measure (\<lambda>(E, device, name, timeout, config, attempts, m). nat (drc_maxRetries config + 1 - attempts))") auto

declare connectLoop.simps [simp del]

definition connectDeviceByName :: "'w environment \<Rightarrow> string \<Rightarrow> int \<Rightarrow> ('w, 'j) device_manager
    \<Rightarrow> (('w, 'j) device_manager \<times> bool result) option" where
  "connectDeviceByName E name timeout m =
     (case Impl_findDeviceByName E name m of
        None \<Rightarrow> Some (m, Inl (OtherException (''Device not found: '' @ name)))
      | Some device \<Rightarrow>
          (let stats = dm_statistics m;
               m1 = m\<lparr>dm_statistics := stats\<lparr>mt_totalConnections := mt_totalConnections stats + 1\<rparr>\<rparr>
           in map_option (\<lambda>(m2, b). (m2, Inr b)) (connectLoop E device name timeout (getDeviceRetryConfig name m1) 0 m1)))"

definition disconnectDeviceByName :: "'w environment \<Rightarrow> string \<Rightarrow> ('w, 'j) device_manager \<Rightarrow> ('w, 'j) device_manager \<times> bool result" where
  "disconnectDeviceByName E name m =
     (case Impl_findDeviceByName E name m of
        None \<Rightarrow> (m, Inr True)
      | Some device \<Rightarrow>
          (case e_disconnect E device (dm_world m) of
             (Inl e, w) \<Rightarrow> (m\<lparr>dm_world := w\<rparr>, Inl e)
           | (Inr True, w) \<Rightarrow>
               (let m1 = updateDeviceState E name False (m\<lparr>dm_world := w\<rparr>)
                in (emitNow E EvDisconnected name (Impl_findDeviceType E name m1) [] m1, Inr True))
           | (Inr False, w) \<Rightarrow> (m\<lparr>dm_world := w\<rparr>, Inr False)))"

text \<open>One device of the operations on all devices: the result of the driver is not looked at.\<close>

definition connectOne :: "'w environment \<Rightarrow> nat \<Rightarrow> ('w, 'j) device_manager \<Rightarrow> ('w, 'j) device_manager" where
  "connectOne E device m =
     (case e_connect E device ''7624'' 5000 3 (dm_world m) of
        (Inl e, w) \<Rightarrow> m\<lparr>dm_world := w\<rparr>
      | (Inr b, w) \<Rightarrow> updateDeviceState E (e_getName E device) True (m\<lparr>dm_world := w\<rparr>))"

definition disconnectOne :: "'w environment \<Rightarrow> nat \<Rightarrow> ('w, 'j) device_manager \<Rightarrow> ('w, 'j) device_manager" where
  "disconnectOne E device m =
     (case e_disconnect E device (dm_world m) of
        (Inl e, w) \<Rightarrow> m\<lparr>dm_world := w\<rparr>
      | (Inr b, w) \<Rightarrow> updateDeviceState E (e_getName E device) False (m\<lparr>dm_world := w\<rparr>))"

definition connectAllDevices :: "'w environment \<Rightarrow> ('w, 'j) device_manager \<Rightarrow> ('w, 'j) device_manager" where
  "connectAllDevices E m = fold (connectOne E) (concat (map snd (dm_devices m))) m"

definition disconnectAllDevices :: "'w environment \<Rightarrow> ('w, 'j) device_manager \<Rightarrow> ('w, 'j) device_manager" where
  "disconnectAllDevices E m = fold (disconnectOne E) (concat (map snd (dm_devices m))) m"

definition connectDevicesByType :: "'w environment \<Rightarrow> string \<Rightarrow> ('w, 'j) device_manager \<Rightarrow> ('w, 'j) device_manager \<times> unit result" where
  "connectDevicesByType E type m =
     (case map_of (dm_devices m) type of
        Some ds \<Rightarrow> (fold (connectOne E) ds m, Inr ())
      | None \<Rightarrow> (m, Inl (OtherException (''Device type not found: '' @ type))))"

definition disconnectDevicesByType :: "'w environment \<Rightarrow> string \<Rightarrow> ('w, 'j) device_manager \<Rightarrow> ('w, 'j) device_manager \<times> unit result" where
  "disconnectDevicesByType E type m =
     (case map_of (dm_devices m) type of
        Some ds \<Rightarrow> (fold (disconnectOne E) ds m, Inr ())
      | None \<Rightarrow> (m, Inl (OtherException (''Device type not found: '' @ type))))"

definition isDeviceConnected :: "'w environment \<Rightarrow> string \<Rightarrow> ('w, 'j) device_manager \<Rightarrow> bool result" where
  "isDeviceConnected E name m =
     (case Impl_findDeviceByName E name m of
        None \<Rightarrow> Inl (OtherException (''Device not found: '' @ name))
      | Some device \<Rightarrow> e_isConnected E device (dm_world m))"

definition initializeDevice :: "'w environment \<Rightarrow> string \<Rightarrow> ('w, 'j) device_manager \<Rightarrow> ('w, 'j) device_manager \<times> bool result" where
  "initializeDevice E name m =
     (case Impl_findDeviceByName E name m of
        None \<Rightarrow> (m, Inl (OtherException (''Device not found: '' @ name)))
      | Some device \<Rightarrow> (case e_initialize E device (dm_world m) of (r, w) \<Rightarrow> (m\<lparr>dm_world := w\<rparr>, r)))"

definition destroyDevice :: "'w environment \<Rightarrow> string \<Rightarrow> ('w, 'j) device_manager \<Rightarrow> ('w, 'j) device_manager \<times> bool result" where
  "destroyDevice E name m =
     (case Impl_findDeviceByName E name m of
        None \<Rightarrow> (m, Inl (OtherException (''Device not found: '' @ name)))
      | Some device \<Rightarrow> (case e_destroy E device (dm_world m) of (r, w) \<Rightarrow> (m\<lparr>dm_world := w\<rparr>, r)))"

section \<open>Health\<close>

definition resetDevice :: "'w environment \<Rightarrow> string \<Rightarrow> ('w, 'j) device_manager \<Rightarrow> ('w, 'j) device_manager \<times> unit result" where
  "resetDevice E name m =
     (case Impl_findDeviceByName E name m of
        None \<Rightarrow> (m, Inl (OtherException (''Device not found: '' @ name)))
      | Some device \<Rightarrow>
          (let (now, w) = e_now E (dm_world m);
               state = lookup_or DeviceState_new (dm_states m) name;
               m1 = m\<lparr>dm_states := AList.update name (state\<lparr>ds_consecutiveErrors := 0, ds_healthScore := 1, ds_isBusy := False,
                        ds_lastError := [], ds_lastActivity := now\<rparr>) (dm_states m), dm_world := w\<rparr>
           in (emitNow E EvStateChanged name (Impl_findDeviceType E name m1) ''Device reset'' m1, Inr ())))"

definition healthStep :: "bool \<Rightarrow> DeviceState \<Rightarrow> DeviceState" where
  "healthStep operationSuccess state =
     (let state = state\<lparr>ds_totalOperations := ds_totalOperations state + 1\<rparr>
      in if operationSuccess
         then state\<lparr>ds_consecutiveErrors := 0, ds_healthScore := min 1 (ds_healthScore state + 1 / 10)\<rparr>
         else (let errors = ds_consecutiveErrors state + 1; penalty = 1 / 10 * real_of_int errors
               in state\<lparr>ds_failedOperations := ds_failedOperations state + 1, ds_consecutiveErrors := errors,
                        ds_healthScore := max 0 (ds_healthScore state - penalty)\<rparr>))"

definition updateDeviceHealth :: "'w environment \<Rightarrow> string \<Rightarrow> bool \<Rightarrow> ('w, 'j) device_manager \<Rightarrow> ('w, 'j) device_manager" where
  "updateDeviceHealth E name operationSuccess m =
     (let (now, w) = e_now E (dm_world m);
          state = (lookup_or DeviceState_new (dm_states m) name)\<lparr>ds_lastActivity := now\<rparr>;
          stats = dm_statistics m;
          stats = stats\<lparr>mt_totalOperations := mt_totalOperations stats + 1\<rparr>
      in m\<lparr>dm_world := w, dm_states := AList.update name (healthStep operationSuccess state) (dm_states m),
           dm_statistics := (if operationSuccess then stats\<lparr>mt_successfulOperations := mt_successfulOperations stats + 1\<rparr>
             else stats\<lparr>mt_failedOperations := mt_failedOperations stats + 1\<rparr>)\<rparr>)"

text \<open>The update of all states from the drivers; the backends are asked first, which acts on the world only.\<close>

fun refreshLoop :: "'w environment \<Rightarrow> nat list \<Rightarrow> ('w, 'j) device_manager \<Rightarrow> ('w, 'j) device_manager \<times> unit result" where
  "refreshLoop E [] m = (m, Inr ())"
| "refreshLoop E (d # ds) m =
     (case e_isConnected E d (dm_world m) of
        Inl e \<Rightarrow> (m, Inl e)
      | Inr conn \<Rightarrow> refreshLoop E ds (updateDeviceState E (e_getName E d) conn m))"

definition refreshDevices :: "'w environment \<Rightarrow> ('w \<Rightarrow> 'w) \<Rightarrow> ('w, 'j) device_manager \<Rightarrow> ('w, 'j) device_manager \<times> unit result" where
  "refreshDevices E refreshAll m =
     (let m = m\<lparr>dm_world := refreshAll (dm_world m)\<rparr> in refreshLoop E (concat (map snd (dm_devices m))) m)"

text \<open>One round of the health monitor over the devices with their types.\<close>

definition healthCheckOne :: "'w environment \<Rightarrow> string \<times> nat \<Rightarrow> ('w, 'j) device_manager \<Rightarrow> ('w, 'j) device_manager" where
  "healthCheckOne E td m =
     (case td of (type, device) \<Rightarrow>
        (case e_isConnected E device (dm_world m) of
           Inl e \<Rightarrow> m
         | Inr conn \<Rightarrow>
             (let name = e_getName E device;
                  m1 = m\<lparr>dm_states := try_emplace name DeviceState_new (dm_states m)\<rparr>;
                  state = lookup_or DeviceState_new (dm_states m1) name
              in if ds_isConnected state \<noteq> conn
                 then emitNow E (if conn then EvConnected else EvDisconnected) name type [] (updateDeviceState E name conn m1)
                 else m1)))"

definition typed_devices :: "nat list umap \<Rightarrow> (string \<times> nat) list" where
  "typed_devices ds = concat (map (\<lambda>(type, l). map (Pair type) l) ds)"

definition healthCheckRound :: "'w environment \<Rightarrow> ('w, 'j) device_manager \<Rightarrow> ('w, 'j) device_manager" where
  "healthCheckRound E m = fold (healthCheckOne E) (typed_devices (dm_devices m)) m"

section \<open>Events and statistics\<close>

definition subscribeToEvents :: "nat \<Rightarrow> ManagerEventType list \<Rightarrow> ('w, 'j) device_manager \<Rightarrow> ('w, 'j) device_manager \<times> nat" where
  "subscribeToEvents callback eventTypes m =
     (let id = dm_nextCallbackId m
      in (m\<lparr>dm_nextCallbackId := id + 1,
            dm_subscriptions := dm_subscriptions m @ [\<lparr>es_id = id, es_callback = callback, es_eventTypes = remdups eventTypes\<rparr>]\<rparr>, id))"

definition unsubscribeFromEvents :: "nat \<Rightarrow> ('w, 'j) device_manager \<Rightarrow> ('w, 'j) device_manager" where
  "unsubscribeFromEvents callbackId m = m\<lparr>dm_subscriptions := filter (\<lambda>sub. es_id sub \<noteq> callbackId) (dm_subscriptions m)\<rparr>"

definition setEventCallback :: "nat option \<Rightarrow> ('w, 'j) device_manager \<Rightarrow> ('w, 'j) device_manager" where
  "setEventCallback callback m = m\<lparr>dm_legacyCallback := callback\<rparr>"

definition getPendingEvents :: "nat \<Rightarrow> ('w, 'j) device_manager \<Rightarrow> ('w, 'j) device_manager \<times> ManagerEvent list" where
  "getPendingEvents maxEvents m =
     (let count = min maxEvents (length (dm_pending m))
      in (m\<lparr>dm_pending := drop count (dm_pending m)\<rparr>, take count (dm_pending m)))"

definition clearPendingEvents :: "('w, 'j) device_manager \<Rightarrow> ('w, 'j) device_manager" where
  "clearPendingEvents m = m\<lparr>dm_pending := []\<rparr>"

definition resetStatistics :: "('w, 'j) device_manager \<Rightarrow> ('w, 'j) device_manager" where
  "resetStatistics m = m\<lparr>dm_statistics := ManagerStatistics_new\<rparr>"

text \<open>The work of the future that \<open>executeWithRetry\<close> returns: the loop with the result so far.\<close>

function operationLoop :: "'w environment \<Rightarrow> (nat \<Rightarrow> 'w \<Rightarrow> bool result \<times> 'w) \<Rightarrow> nat \<Rightarrow> DeviceRetryConfig \<Rightarrow> int
    \<Rightarrow> DeviceOperationResult \<Rightarrow> ('w, 'j) device_manager \<Rightarrow> (('w, 'j) device_manager \<times> DeviceOperationResult) option" where
  "operationLoop E operation device config attempt result m =
     (if attempt \<le> drc_maxRetries config then
        (case operation device (dm_world m) of
           (Inr True, w) \<Rightarrow> Some (m\<lparr>dm_world := w\<rparr>, result\<lparr>or_success := True, or_retryCount := attempt\<rparr>)
         | (r, w) \<Rightarrow>
             (let result' = (case r of Inl e \<Rightarrow> result\<lparr>or_errorMessage := what e\<rparr> | Inr b \<Rightarrow> result);
                  attempt' = attempt + 1; m1 = m\<lparr>dm_world := w\<rparr>
              in if attempt' \<le> drc_maxRetries config then
                   (case calculateRetryDelay config attempt' of
                      None \<Rightarrow> None
                    | Some delay \<Rightarrow>
                        (let stats = dm_statistics m1
                         in operationLoop E operation device config attempt' result'
                              (m1\<lparr>dm_world := e_sleep E delay w,
                                  dm_statistics := stats\<lparr>mt_totalRetries := mt_totalRetries stats + 1\<rparr>\<rparr>)))
                 else operationLoop E operation device config attempt' result' m1))
      else Some (m, result))"
  by pat_completeness auto
termination operationLoop
  by (relation "measure (\<lambda>(E, operation, device, config, attempt, result, m). nat (drc_maxRetries config + 1 - attempt))") auto

declare operationLoop.simps [simp del]

definition DeviceManager_executeWithRetry :: "'w environment \<Rightarrow> (nat \<Rightarrow> 'w \<Rightarrow> bool result \<times> 'w) \<Rightarrow> string
    \<Rightarrow> ('w, 'j) device_manager \<Rightarrow> (('w, 'j) device_manager \<times> DeviceOperationResult) option" where
  "DeviceManager_executeWithRetry E operation name m =
     (let result = \<lparr>or_success = False, or_errorMessage = [], or_retryCount = 0\<rparr>
      in case Impl_findDeviceByName E name m of
           None \<Rightarrow> Some (m, result\<lparr>or_errorMessage := ''Device not found''\<rparr>)
         | Some device \<Rightarrow> operationLoop E operation device (getDeviceRetryConfig name m) 0 result m)"

section \<open>What the helpers leave alone\<close>

lemma emitNow_frame [simp]:
  "dm_devices (emitNow E t n ty msg m) = dm_devices m" "dm_primaryDevices (emitNow E t n ty msg m) = dm_primaryDevices m"
  "dm_metadata (emitNow E t n ty msg m) = dm_metadata m" "dm_states (emitNow E t n ty msg m) = dm_states m"
  "dm_retryConfigs (emitNow E t n ty msg m) = dm_retryConfigs m" "dm_subscriptions (emitNow E t n ty msg m) = dm_subscriptions m"
  "dm_nextCallbackId (emitNow E t n ty msg m) = dm_nextCallbackId m" "dm_statistics (emitNow E t n ty msg m) = dm_statistics m"
  by (simp_all add: emitNow_def DeviceManager_emitEvent_def case_prod_beta Let_def)

lemma emitNow_pending [simp]:
  "dm_pending (emitNow E t n ty msg m) = storePending \<lparr>ev_type = t, ev_deviceName = n, ev_deviceType = ty, ev_message = msg,
     ev_timestamp = fst (e_now E (dm_world m))\<rparr> (dm_pending m)"
  by (simp add: emitNow_def DeviceManager_emitEvent_def case_prod_beta Let_def)

lemma updateDeviceState_frame [simp]:
  "dm_devices (updateDeviceState E n c m) = dm_devices m" "dm_primaryDevices (updateDeviceState E n c m) = dm_primaryDevices m"
  "dm_metadata (updateDeviceState E n c m) = dm_metadata m" "dm_pending (updateDeviceState E n c m) = dm_pending m"
  "dm_retryConfigs (updateDeviceState E n c m) = dm_retryConfigs m" "dm_subscriptions (updateDeviceState E n c m) = dm_subscriptions m"
  "dm_nextCallbackId (updateDeviceState E n c m) = dm_nextCallbackId m" "dm_statistics (updateDeviceState E n c m) = dm_statistics m"
  by (simp_all add: updateDeviceState_def case_prod_beta Let_def)

lemma updateDeviceState_states:
  "lookup_or DeviceState_new (dm_states (updateDeviceState E n c m)) k =
     (if k = n then (lookup_or DeviceState_new (dm_states m) n)\<lparr>ds_isConnected := c, ds_lastActivity := fst (e_now E (dm_world m))\<rparr>
      else lookup_or DeviceState_new (dm_states m) k)"
  by (simp add: updateDeviceState_def case_prod_beta Let_def)

lemma forgetName_frame [simp]:
  "dm_devices (forgetName n m) = dm_devices m" "dm_primaryDevices (forgetName n m) = dm_primaryDevices m"
  "dm_pending (forgetName n m) = dm_pending m" "dm_retryConfigs (forgetName n m) = dm_retryConfigs m"
  "dm_subscriptions (forgetName n m) = dm_subscriptions m" "dm_nextCallbackId (forgetName n m) = dm_nextCallbackId m"
  "dm_statistics (forgetName n m) = dm_statistics m" "dm_world (forgetName n m) = dm_world m"
  "lookup_or DeviceState_new (dm_states (forgetName n m)) k = (if k = n then DeviceState_new else lookup_or DeviceState_new (dm_states m) k)"
  by (simp_all add: forgetName_def)

lemma storePending_bound: "length (storePending e p) \<le> MAX_PENDING_EVENTS"
  by (simp add: storePending_def Let_def)

section \<open>The invariant\<close>

definition state_ok :: "DeviceState \<Rightarrow> bool" where
  "state_ok st \<longleftrightarrow> 0 \<le> ds_healthScore st \<and> ds_healthScore st \<le> 1 \<and> 0 \<le> ds_consecutiveErrors st
     \<and> ds_consecutiveErrors st \<le> ds_failedOperations st \<and> ds_failedOperations st \<le> ds_totalOperations st"

definition states_ok :: "DeviceState umap \<Rightarrow> bool" where
  "states_ok sts \<longleftrightarrow> (\<forall>n. state_ok (lookup_or DeviceState_new sts n))"

definition primary_ok :: "nat list umap \<Rightarrow> nat option umap \<Rightarrow> bool" where
  "primary_ok devs prim \<longleftrightarrow> distinct (map fst devs)
     \<and> (\<forall>t d. lookup_or None prim t = Some d \<longrightarrow> d \<in> set (lookup_or [] devs t))"

definition subs_ok :: "EventSubscription list \<Rightarrow> nat \<Rightarrow> bool" where
  "subs_ok subs next \<longleftrightarrow> distinct (map es_id subs) \<and> (\<forall>s \<in> set subs. es_id s < next)"

text \<open>The statistics with \<open>k\<close> connections under way.\<close>

definition stats_ok :: "nat \<Rightarrow> ManagerStatistics \<Rightarrow> bool" where
  "stats_ok k st \<longleftrightarrow> mt_totalConnections st = mt_successfulConnections st + mt_failedConnections st + k
     \<and> mt_totalOperations st = mt_successfulOperations st + mt_failedOperations st"

definition dm_ok :: "nat \<Rightarrow> ('w, 'j) device_manager \<Rightarrow> bool" where
  "dm_ok k m \<longleftrightarrow> primary_ok (dm_devices m) (dm_primaryDevices m) \<and> states_ok (dm_states m) \<and> length (dm_pending m) \<le> MAX_PENDING_EVENTS
     \<and> subs_ok (dm_subscriptions m) (dm_nextCallbackId m) \<and> stats_ok k (dm_statistics m)"

lemma state_ok_simps [simp]:
  "state_ok DeviceState_new" "state_ok (st\<lparr>ds_isConnected := c\<rparr>) = state_ok st" "state_ok (st\<lparr>ds_lastActivity := t\<rparr>) = state_ok st"
  "state_ok (st\<lparr>ds_isBusy := c\<rparr>) = state_ok st"
  by (simp_all add: state_ok_def DeviceState_new_def)

lemma states_ok_update [simp]: "states_ok sts \<Longrightarrow> state_ok v \<Longrightarrow> states_ok (AList.update n v sts)"
  by (simp add: states_ok_def)

lemma states_ok_lookup [simp]: "states_ok sts \<Longrightarrow> state_ok (lookup_or DeviceState_new sts n)"
  by (simp add: states_ok_def)

lemma states_ok_delete [simp]: "states_ok sts \<Longrightarrow> states_ok (AList.delete n sts)"
  by (simp add: states_ok_def)

lemma states_ok_emplace [simp]: "states_ok (try_emplace n DeviceState_new sts) = states_ok sts"
  by (simp add: states_ok_def)

lemma dm_ok_other [simp]:
  "dm_ok k (m\<lparr>dm_world := w\<rparr>) = dm_ok k m" "dm_ok k (m\<lparr>dm_metadata := md\<rparr>) = dm_ok k m"
  "dm_ok k (m\<lparr>dm_retryConfigs := rc\<rparr>) = dm_ok k m" "dm_ok k (m\<lparr>dm_legacyCallback := cb\<rparr>) = dm_ok k m"
  by (simp_all add: dm_ok_def)

lemma dm_ok_emitNow [simp]: "dm_ok k m \<Longrightarrow> dm_ok k (emitNow E t n ty msg m)"
  by (simp add: dm_ok_def storePending_bound)

lemma dm_ok_updateDeviceState [simp]: "dm_ok k m \<Longrightarrow> dm_ok k (updateDeviceState E n c m)"
  by (simp add: dm_ok_def states_ok_def updateDeviceState_states)

lemma dm_ok_forgetName [simp]: "dm_ok k m \<Longrightarrow> dm_ok k (forgetName n m)"
  by (simp add: dm_ok_def states_ok_def)

lemma primary_ok_touch [simp]: "primary_ok devs prim \<Longrightarrow> primary_ok (try_emplace t [] devs) prim"
  by (simp add: primary_ok_def)

lemma lookup_or_emplace: "lookup_or e (try_emplace k v m) k' = (if k' = k \<and> k \<notin> keys m then v else lookup_or e m k')"
  by (auto simp: lookup_or_def map_of_try_emplace)

lemma primary_ok_add:
  "primary_ok devs prim \<Longrightarrow>
     primary_ok (AList.update t (lookup_or [] devs t @ [d]) devs) (try_emplace t (Some d) prim)"
  by (auto simp: primary_ok_def distinct_update lookup_or_emplace split: if_splits)

text \<open>A device \<open>d\<close> leaves the list of its type, and the primary device stays or becomes the first of the rest.\<close>

lemma primary_ok_drop:
  assumes ok: "primary_ok devs prim" and l: "set (lookup_or [] devs t) - {d} \<subseteq> set rest"
    and p: "\<And>k. lookup_or None prim' k = (if k = t then p else lookup_or None prim k)"
    and q: "p = front_of rest \<or> p = lookup_or None prim t \<and> p \<noteq> Some d"
  shows "primary_ok (AList.update t rest devs) prim'"
proof -
  have "x \<in> set rest" if "p = Some x" for x
    using q
  proof
    assume "p = front_of rest"
    then show ?thesis using that by (cases rest) (simp_all add: front_of_def)
  next
    assume "p = lookup_or None prim t \<and> p \<noteq> Some d"
    then have "x \<noteq> d" "x \<in> set (lookup_or [] devs t)" using that ok by (auto simp: primary_ok_def)
    then show ?thesis using l by blast
  qed
  then show ?thesis using ok p by (auto simp: primary_ok_def distinct_update)
qed

lemma addDevice_ok [simp]: "dm_ok k m \<Longrightarrow> dm_ok k (fst (addDevice E t d m))"
proof -
  assume m: "dm_ok k m"
  let ?m1 = "m\<lparr>dm_devices := AList.update t (lookup_or [] (dm_devices m) t @ [d]) (dm_devices m),
    dm_primaryDevices := try_emplace t (Some d) (dm_primaryDevices m),
    dm_states := AList.update (e_getName E d) DeviceState_new (dm_states m)\<rparr>"
  have "dm_ok k ?m1" using m by (simp add: dm_ok_def primary_ok_add)
  then show ?thesis by (simp add: addDevice_def Let_def split: sum.split)
qed

lemma addDeviceWithMetadata_ok [simp]: "dm_ok k m \<Longrightarrow> dm_ok k (fst (addDeviceWithMetadata E t d md m))"
  using addDevice_ok [of k m E t d] by (auto simp: addDeviceWithMetadata_def dm_ok_def split: prod.split sum.split)

lemma removed_ok:
  assumes "dm_ok k m" "primary_ok devs prim"
  shows "dm_ok k (forgetName n (m\<lparr>dm_world := w, dm_devices := devs, dm_primaryDevices := prim\<rparr>))"
  using assms by (intro dm_ok_forgetName) (simp add: dm_ok_def)

lemma remove1_rest: "x \<in> set l \<Longrightarrow> x \<notin> set (remove1 d l) \<Longrightarrow> x = d"
  by (metis in_set_remove1)

lemma find_in: "find P xs = Some x \<Longrightarrow> x \<in> set xs \<and> P x"
  by (induction xs) (auto split: if_splits)

lemma removeDevice_ok [simp]: "dm_ok k m \<Longrightarrow> dm_ok k (fst (removeDevice E t d m))"
proof -
  assume m: "dm_ok k m"
  let ?m = "m\<lparr>dm_devices := try_emplace t [] (dm_devices m)\<rparr>"
  have m': "dm_ok k ?m" using m by (simp add: dm_ok_def)
  let ?prim = "try_emplace t None (dm_primaryDevices m)"
  let ?rest = "remove1 d (lookup_or [] (dm_devices ?m) t)"
  let ?prim' = "if lookup_or None ?prim t = Some d then AList.update t (front_of ?rest) ?prim else ?prim"
  have "primary_ok (AList.update t ?rest (dm_devices ?m)) ?prim'"
    by (rule primary_ok_drop [where prim = "dm_primaryDevices ?m" and d = d
          and p = "if lookup_or None ?prim t = Some d then front_of ?rest else lookup_or None (dm_primaryDevices m) t"])
      (use m' in \<open>auto simp: dm_ok_def dest: remove1_rest\<close>)
  from removed_ok [OF m' this] m' show ?thesis
    by (cases "lookup_or None (dm_primaryDevices m) t = Some d")
      (simp_all add: removeDevice_def Let_def split: prod.split sum.split)
qed

lemma find_first_name: "\<exists>d \<in> set ds. f d = n \<Longrightarrow> f (the (find (\<lambda>d. f d = n) ds)) = n \<and> the (find (\<lambda>d. f d = n) ds) \<in> set ds"
  by (induction ds) auto

lemma removeDeviceByName_ok [simp]: "dm_ok k m \<Longrightarrow> dm_ok k (fst (removeDeviceByName E n m))"
proof (cases "find (\<lambda>(type, ds). \<exists>d \<in> set ds. e_getName E d = n) (dm_devices m)")
  case (Some td)
  assume m: "dm_ok k m"
  obtain t l where td: "td = (t, l)" by fastforce
  then have mem: "(t, l) \<in> set (dm_devices m)" and ex: "\<exists>d \<in> set l. e_getName E d = n"
    using find_in [OF Some] by auto
  have l: "lookup_or [] (dm_devices m) t = l" using mem m by (simp add: lookup_or_def dm_ok_def primary_ok_def)
  let ?d = "the (find (\<lambda>d. e_getName E d = n) l)"
  let ?prim = "try_emplace t None (dm_primaryDevices m)"
  let ?prim' = "case lookup_or None ?prim t of
      Some p \<Rightarrow> if e_getName E p = n then AList.update t (front_of (remove1 ?d l)) ?prim else ?prim | None \<Rightarrow> ?prim"
  let ?p = "case lookup_or None (dm_primaryDevices m) t of
      Some p \<Rightarrow> if e_getName E p = n then front_of (remove1 ?d l) else Some p | None \<Rightarrow> None"
  have "primary_ok (AList.update t (remove1 ?d l) (dm_devices m)) ?prim'"
    by (rule primary_ok_drop [where prim = "dm_primaryDevices m" and d = ?d and p = ?p])
      (use m find_first_name [OF ex] in \<open>auto simp: dm_ok_def l dest: remove1_rest split: option.split\<close>)
  from removed_ok [OF m this] m show ?thesis
    by (simp add: removeDeviceByName_def Some td Let_def split: prod.split sum.split)
qed (simp add: removeDeviceByName_def)

lemma destroyLoop_ok: "dm_ok k m \<Longrightarrow> destroyLoop E ds m = (m', r) \<Longrightarrow>
    dm_ok k m' \<and> dm_devices m' = dm_devices m \<and> dm_primaryDevices m' = dm_primaryDevices m"
proof (induction ds arbitrary: m)
  case (Cons d ds)
  then show ?case using Cons.IH [of "forgetName (e_getName E d) (m\<lparr>dm_world := snd (e_destroy E d (dm_world m))\<rparr>)"]
    by (auto split: prod.splits sum.splits)
qed simp

lemma removeAll_ok [simp]: "dm_ok k m \<Longrightarrow> dm_ok k (fst (removeAllDevicesOfType E t m))"
proof -
  assume m: "dm_ok k m"
  let ?m = "m\<lparr>dm_devices := try_emplace t [] (dm_devices m)\<rparr>"
  have m': "dm_ok k ?m" using m by (simp add: dm_ok_def)
  obtain m1 r where m1: "destroyLoop E (lookup_or [] (dm_devices ?m) t) ?m = (m1, r)" by fastforce
  note d = destroyLoop_ok [OF m' m1]
  have "dm_ok k (m1\<lparr>dm_devices := AList.update t [] (dm_devices m1), dm_primaryDevices := AList.delete t (dm_primaryDevices m1)\<rparr>)"
    using d by (auto simp: dm_ok_def primary_ok_def distinct_update)
  then show ?thesis using d m1 by (simp add: removeAllDevicesOfType_def Let_def split: sum.split)
qed

text \<open>One turn of the loop, by the outcome of the attempt.\<close>

lemma connectLoop_success:
  assumes "a \<le> drc_maxRetries config" "e_connect E d [] t 1 (dm_world m) = (Inr True, w)"
    "m1 = updateDeviceState E n True (m\<lparr>dm_world := w,
       dm_statistics := dm_statistics m\<lparr>mt_successfulConnections := mt_successfulConnections (dm_statistics m) + 1\<rparr>\<rparr>)"
  shows "connectLoop E d n t config a m = Some (emitNow E EvConnected n (Impl_findDeviceType E n m1) [] m1, True)"
  using assms by (subst connectLoop.simps) (simp add: Let_def)

lemma connectLoop_failure:
  assumes "a \<le> drc_maxRetries config" "e_connect E d [] t 1 (dm_world m) = (r, w)" "r \<noteq> Inr True"
  shows "connectLoop E d n t config a m =
     (if a + 1 \<le> drc_maxRetries config then
        (case calculateRetryDelay config (a + 1) of
           None \<Rightarrow> None
         | Some delay \<Rightarrow> connectLoop E d n t config (a + 1) (m\<lparr>dm_world := e_sleep E delay w,
             dm_statistics := dm_statistics m\<lparr>mt_totalRetries := mt_totalRetries (dm_statistics m) + 1\<rparr>\<rparr>))
      else connectLoop E d n t config (a + 1) (m\<lparr>dm_world := w\<rparr>))"
  using assms by (subst connectLoop.simps) (auto simp: Let_def split: sum.split bool.split option.split)

lemma connectLoop_end:
  "\<not> a \<le> drc_maxRetries config \<Longrightarrow> connectLoop E d n t config a m =
     Some (m\<lparr>dm_statistics := dm_statistics m\<lparr>mt_failedConnections := mt_failedConnections (dm_statistics m) + 1\<rparr>\<rparr>, False)"
  by (subst connectLoop.simps) (simp add: Let_def)

lemma connectLoop_ok:
  "connectLoop E d n t config a m = Some (m', b) \<Longrightarrow> dm_ok 1 m \<Longrightarrow> dm_ok 0 m'"
proof (induction "nat (drc_maxRetries config + 1 - a)" arbitrary: a m rule: less_induct)
  case less
  obtain r w where c: "e_connect E d [] t 1 (dm_world m) = (r, w)" by fastforce
  show ?case
  proof (cases "a \<le> drc_maxRetries config")
    case True
    have dec: "nat (drc_maxRetries config + 1 - (a + 1)) < nat (drc_maxRetries config + 1 - a)" using True by linarith
    show ?thesis
    proof (cases "r = Inr True")
      case s: True
      show ?thesis using less.prems connectLoop_success [OF True c [unfolded s] refl]
        by (simp, elim conjE, hypsubst) (intro dm_ok_emitNow dm_ok_updateDeviceState, simp add: dm_ok_def stats_ok_def)
    next
      case False
      show ?thesis using less.prems less.hyps [OF dec] connectLoop_failure [OF True c False, of n]
        by (auto simp: dm_ok_def stats_ok_def split: if_splits option.splits)
    qed
  next
    case False
    then show ?thesis using less.prems by (auto simp: connectLoop_end dm_ok_def stats_ok_def)
  qed
qed

lemma connectDeviceByName_ok: "connectDeviceByName E n t m = Some (m', r) \<Longrightarrow> dm_ok 0 m \<Longrightarrow> dm_ok 0 m'"
  by (auto simp: connectDeviceByName_def Let_def split: option.splits elim!: connectLoop_ok) (simp_all add: dm_ok_def stats_ok_def)

lemma disconnectDeviceByName_ok [simp]: "dm_ok k m \<Longrightarrow> dm_ok k (fst (disconnectDeviceByName E n m))"
  by (simp add: disconnectDeviceByName_def Let_def split: option.split prod.split sum.split bool.split)

lemma connectOne_ok: "dm_ok k m \<Longrightarrow> dm_ok k (connectOne E d m)"
  by (simp add: connectOne_def split: prod.split sum.split)

lemma disconnectOne_ok: "dm_ok k m \<Longrightarrow> dm_ok k (disconnectOne E d m)"
  by (simp add: disconnectOne_def split: prod.split sum.split)

lemma healthCheckOne_ok: "dm_ok k m \<Longrightarrow> dm_ok k (healthCheckOne E td m)"
proof -
  assume m: "dm_ok k m"
  have "dm_ok k (m\<lparr>dm_states := try_emplace n DeviceState_new (dm_states m)\<rparr>)" for n using m by (simp add: dm_ok_def)
  then show ?thesis using m by (simp add: healthCheckOne_def Let_def split: prod.split sum.split)
qed

lemma fold_ok: "(\<And>x m. P m \<Longrightarrow> P (f x m)) \<Longrightarrow> P m \<Longrightarrow> P (fold f xs m)"
  by (induction xs arbitrary: m) auto

lemma refreshLoop_ok: "dm_ok k m \<Longrightarrow> dm_ok k (fst (refreshLoop E ds m))"
  by (induction ds arbitrary: m) (simp_all split: sum.split)

lemma resetDevice_ok [simp]: "dm_ok k m \<Longrightarrow> dm_ok k (fst (resetDevice E n m))"
proof (cases "Impl_findDeviceByName E n m")
  case (Some d)
  assume m: "dm_ok k m"
  have "state_ok (lookup_or DeviceState_new (dm_states m) n)" using m by (simp add: dm_ok_def)
  then have "dm_ok k (m\<lparr>dm_states := AList.update n ((lookup_or DeviceState_new (dm_states m) n)\<lparr>ds_consecutiveErrors := 0,
      ds_healthScore := 1, ds_isBusy := False, ds_lastError := [], ds_lastActivity := now\<rparr>) (dm_states m), dm_world := w\<rparr>)" for now w
    using m by (simp add: dm_ok_def state_ok_def)
  then show ?thesis by (simp add: resetDevice_def Some Let_def split: prod.split)
qed (simp add: resetDevice_def)

lemma healthStep_ok: "state_ok st \<Longrightarrow> state_ok (healthStep b st)"
proof (cases b)
  case False
  assume st: "state_ok st"
  let ?penalty = "1 / 10 * (real_of_int (ds_consecutiveErrors st) + 1)"
  have "0 \<le> ?penalty" "ds_healthScore st \<le> 1" using st by (simp_all add: state_ok_def)
  then have "ds_healthScore st - ?penalty \<le> 1" by (meson diff_le_eq le_add_same_cancel1 order_trans)
  then show ?thesis using st False by (simp add: state_ok_def healthStep_def Let_def)
qed (simp add: state_ok_def healthStep_def Let_def)

lemma updateDeviceHealth_ok [simp]: "dm_ok k m \<Longrightarrow> dm_ok k (updateDeviceHealth E n b m)"
  by (simp add: dm_ok_def updateDeviceHealth_def case_prod_beta Let_def healthStep_ok stats_ok_def)

lemma operationLoop_ok:
  "operationLoop E f d config a res m = Some (m', res') \<Longrightarrow> dm_ok 0 m \<Longrightarrow> dm_ok 0 m'"
proof (induction "nat (drc_maxRetries config + 1 - a)" arbitrary: a m res rule: less_induct)
  case less
  obtain r w where c: "f d (dm_world m) = (r, w)" by fastforce
  have dec: "nat (drc_maxRetries config + 1 - (a + 1)) < nat (drc_maxRetries config + 1 - a)" if "a \<le> drc_maxRetries config"
    using that by linarith
  have k: "dm_ok 0 (m\<lparr>dm_world := w', dm_statistics := dm_statistics m\<lparr>mt_totalRetries := x\<rparr>\<rparr>)" "dm_ok 0 (m\<lparr>dm_world := w'\<rparr>)" for w' x
    using less.prems(2) by (simp_all add: dm_ok_def stats_ok_def)
  show ?case using less.prems less.hyps [OF dec] c k
    by (subst (asm) operationLoop.simps) (auto simp: Let_def split: if_splits sum.splits bool.splits option.splits)
qed

text \<open>The operations of the manager in any order; a primary device is set to a registered device of its type or to none.\<close>

inductive dm_step :: "'w environment \<Rightarrow> ('w, 'j) device_manager \<Rightarrow> ('w, 'j) device_manager \<Rightarrow> bool" for E :: "'w environment" where
  add: "dm_step E m (fst (addDevice E t d m))"
| addMeta: "dm_step E m (fst (addDeviceWithMetadata E t d md m))"
| remove: "dm_step E m (fst (removeDevice E t d m))"
| removeByName: "dm_step E m (fst (removeDeviceByName E n m))"
| removeAll: "dm_step E m (fst (removeAllDevicesOfType E t m))"
| setPrimary: "(\<And>x. d = Some x \<Longrightarrow> x \<in> set (getDevicesByType t m)) \<Longrightarrow> dm_step E m (setPrimaryDevice t d m)"
| metadata: "dm_step E m (updateDeviceMetadata n md m)"
| retryConfig: "dm_step E m (setDeviceRetryConfig n rc m)"
| abort: "dm_step E m (abortDeviceOperation n m)"
| connect: "connectDeviceByName E n timeout m = Some (m', r) \<Longrightarrow> dm_step E m m'"
| disconnect: "dm_step E m (fst (disconnectDeviceByName E n m))"
| connectAll: "dm_step E m (connectAllDevices E m)"
| disconnectAll: "dm_step E m (disconnectAllDevices E m)"
| connectType: "dm_step E m (fst (connectDevicesByType E t m))"
| disconnectType: "dm_step E m (fst (disconnectDevicesByType E t m))"
| initialize: "dm_step E m (fst (initializeDevice E n m))"
| destroy: "dm_step E m (fst (destroyDevice E n m))"
| reset: "dm_step E m (fst (resetDevice E n m))"
| health: "dm_step E m (updateDeviceHealth E n b m)"
| refresh: "dm_step E m (fst (refreshDevices E f m))"
| round: "dm_step E m (healthCheckRound E m)"
| execute: "DeviceManager_executeWithRetry E oper n m = Some (m', res) \<Longrightarrow> dm_step E m m'"
| subscribe: "dm_step E m (fst (subscribeToEvents cb types m))"
| unsubscribe: "dm_step E m (unsubscribeFromEvents i m)"
| callback: "dm_step E m (setEventCallback cbo m)"
| pending: "dm_step E m (fst (getPendingEvents k m))"
| clear: "dm_step E m (clearPendingEvents m)"
| resetStats: "dm_step E m (resetStatistics m)"

lemma dm_step_ok: "dm_step E m m' \<Longrightarrow> dm_ok 0 m \<Longrightarrow> dm_ok 0 m'"
proof (induction rule: dm_step.induct)
  case (setPrimary d t m)
  then show ?case by (auto simp: setPrimaryDevice_def dm_ok_def primary_ok_def getDevicesByType_def)
next
  case (abort m n)
  then have "state_ok st" if "map_of (dm_states m) n = Some st" for st
    using that by (auto simp: dm_ok_def states_ok_def lookup_or_def dest: spec [of _ n])
  then show ?case using abort by (auto simp: abortDeviceOperation_def dm_ok_def split: option.split)
next
  case (connect n timeout m m' r)
  then show ?case by (blast intro: connectDeviceByName_ok)
next
  case (execute oper n m m' res)
  then show ?case by (auto simp: DeviceManager_executeWithRetry_def Let_def split: option.splits elim!: operationLoop_ok)
next
  case (connectAll m)
  then show ?case unfolding connectAllDevices_def by (intro fold_ok [of "dm_ok 0"] connectOne_ok)
next
  case (disconnectAll m)
  then show ?case unfolding disconnectAllDevices_def by (intro fold_ok [of "dm_ok 0"] disconnectOne_ok)
next
  case (connectType m t)
  then show ?case by (auto simp: connectDevicesByType_def split: option.split intro: fold_ok [of "dm_ok 0"] connectOne_ok)
next
  case (disconnectType m t)
  then show ?case by (auto simp: disconnectDevicesByType_def split: option.split intro: fold_ok [of "dm_ok 0"] disconnectOne_ok)
next
  case (round m)
  then show ?case unfolding healthCheckRound_def by (intro fold_ok [of "dm_ok 0"] healthCheckOne_ok)
next
  case (refresh m f)
  then show ?case by (simp add: refreshDevices_def Let_def refreshLoop_ok)
next
  case (initialize m n)
  then show ?case by (simp add: initializeDevice_def split: option.split prod.split)
next
  case (destroy m n)
  then show ?case by (simp add: destroyDevice_def split: option.split prod.split)
next
  case (subscribe m cb types)
  then show ?case by (fastforce simp: subscribeToEvents_def dm_ok_def subs_ok_def Let_def)
next
  case (unsubscribe m i)
  then show ?case by (auto simp: unsubscribeFromEvents_def dm_ok_def subs_ok_def distinct_map_filter)
next
  case (pending m k)
  then show ?case by (auto simp: getPendingEvents_def Let_def dm_ok_def)
next
  case (clear m)
  then show ?case by (simp add: clearPendingEvents_def dm_ok_def)
next
  case (resetStats m)
  then show ?case by (simp add: resetStatistics_def ManagerStatistics_new_def dm_ok_def stats_ok_def)
qed (simp_all add: updateDeviceMetadata_def setDeviceRetryConfig_def setEventCallback_def)

lemma DeviceManager_new_ok: "dm_ok 0 (DeviceManager_new w)"
  by (simp add: dm_ok_def DeviceManager_new_def primary_ok_def states_ok_def subs_ok_def stats_ok_def ManagerStatistics_new_def)

lemma getDeviceHealth_eq: "getDeviceHealth n m = ds_healthScore (getDeviceState n m)"
  by (simp add: getDeviceHealth_def getDeviceState_def lookup_or_def DeviceState_new_def split: option.split)

section \<open>Attempts\<close>

text \<open>The world before attempt \<open>i\<close>, counted from 0, when every earlier one failed and was followed by its delay.\<close>

primrec connect_before :: "'w environment \<Rightarrow> nat \<Rightarrow> int \<Rightarrow> DeviceRetryConfig \<Rightarrow> 'w \<Rightarrow> nat \<Rightarrow> 'w" where
  "connect_before E d t config w 0 = w"
| "connect_before E d t config w (Suc i) =
     e_sleep E (the (calculateRetryDelay config (int i + 1))) (snd (e_connect E d [] t 1 (connect_before E d t config w i)))"

definition attempt_ok :: "'w environment \<Rightarrow> nat \<Rightarrow> int \<Rightarrow> DeviceRetryConfig \<Rightarrow> 'w \<Rightarrow> nat \<Rightarrow> bool" where
  "attempt_ok E d t config w i \<longleftrightarrow> fst (e_connect E d [] t 1 (connect_before E d t config w i)) = Inr True"

definition delays_defined :: "DeviceRetryConfig \<Rightarrow> bool" where
  "delays_defined config \<longleftrightarrow> (\<forall>a. 1 \<le> a \<and> a \<le> drc_maxRetries config \<longrightarrow> calculateRetryDelay config a \<noteq> None)"

abbreviation retried :: "nat \<Rightarrow> ('w, 'j) device_manager \<Rightarrow> ManagerStatistics" where
  "retried i m \<equiv> dm_statistics m\<lparr>mt_totalRetries := mt_totalRetries (dm_statistics m) + i\<rparr>"

lemma connectLoop_runs:
  assumes "delays_defined config" "\<And>j. j < i \<Longrightarrow> \<not> attempt_ok E d t config (dm_world m) j" "int i \<le> drc_maxRetries config"
  shows "connectLoop E d n t config 0 m =
     connectLoop E d n t config (int i) (m\<lparr>dm_world := connect_before E d t config (dm_world m) i, dm_statistics := retried i m\<rparr>)"
  using assms(2,3)
proof (induction i)
  case (Suc i)
  let ?m = "m\<lparr>dm_world := connect_before E d t config (dm_world m) i, dm_statistics := retried i m\<rparr>"
  obtain r w where c: "e_connect E d [] t 1 (dm_world ?m) = (r, w)" by fastforce
  have f: "r \<noteq> Inr True" using Suc.prems(1) [of i] c by (simp add: attempt_ok_def)
  obtain dl where dl: "calculateRetryDelay config (int i + 1) = Some dl"
    using assms(1) [unfolded delays_defined_def, rule_format, of "int i + 1"] Suc.prems(2) by auto
  have "connectLoop E d n t config 0 m = connectLoop E d n t config (int i) ?m" using Suc by simp
  also have "\<dots> = connectLoop E d n t config (int i + 1)
      (?m\<lparr>dm_world := e_sleep E dl w, dm_statistics := dm_statistics ?m\<lparr>mt_totalRetries := mt_totalRetries (dm_statistics ?m) + 1\<rparr>\<rparr>)"
    using connectLoop_failure [OF _ c f, of "int i" config n] Suc.prems(2) dl by simp
  finally show ?case using c dl by (simp add: add.commute)
qed simp

lemma connectLoop_succeeds:
  assumes "delays_defined config" "\<And>j. j < i \<Longrightarrow> \<not> attempt_ok E d t config (dm_world m) j" "int i \<le> drc_maxRetries config"
    "attempt_ok E d t config (dm_world m) i"
  shows "\<exists>m1 now. connectLoop E d n t config 0 m = Some (emitNow E EvConnected n (Impl_findDeviceType E n m) [] m1, True)
     \<and> dm_statistics m1 = dm_statistics m\<lparr>mt_totalRetries := mt_totalRetries (dm_statistics m) + i,
          mt_successfulConnections := mt_successfulConnections (dm_statistics m) + 1\<rparr>
     \<and> dm_pending m1 = dm_pending m
     \<and> (\<forall>k. getDeviceState k m1 = (if k = n then (getDeviceState n m)\<lparr>ds_isConnected := True, ds_lastActivity := now\<rparr>
          else getDeviceState k m))"
proof -
  let ?m = "m\<lparr>dm_world := connect_before E d t config (dm_world m) i, dm_statistics := retried i m\<rparr>"
  obtain w where c: "e_connect E d [] t 1 (dm_world ?m) = (Inr True, w)"
    using assms(4) by (cases "e_connect E d [] t 1 (dm_world ?m)") (simp add: attempt_ok_def)
  let ?m1 = "updateDeviceState E n True (?m\<lparr>dm_world := w, dm_statistics :=
    dm_statistics ?m\<lparr>mt_successfulConnections := mt_successfulConnections (dm_statistics ?m) + 1\<rparr>\<rparr>)"
  have "Impl_findDeviceType E n ?m1 = Impl_findDeviceType E n m" by (simp add: Impl_findDeviceType_def)
  then show ?thesis using connectLoop_runs [OF assms(1-3), of n] connectLoop_success [OF assms(3) c refl, of n]
    by (intro exI [of _ ?m1] exI [of _ "fst (e_now E w)"]) (simp add: getDeviceState_def updateDeviceState_states)
qed

lemma connectLoop_fails:
  assumes "delays_defined config" "\<And>j. j \<le> i \<Longrightarrow> \<not> attempt_ok E d t config (dm_world m) j" "int i = drc_maxRetries config"
  shows "\<exists>w. connectLoop E d n t config 0 m = Some (m\<lparr>dm_world := w, dm_statistics := dm_statistics m\<lparr>
     mt_totalRetries := mt_totalRetries (dm_statistics m) + i, mt_failedConnections := mt_failedConnections (dm_statistics m) + 1\<rparr>\<rparr>, False)"
proof -
  let ?m = "m\<lparr>dm_world := connect_before E d t config (dm_world m) i, dm_statistics := retried i m\<rparr>"
  obtain r w where c: "e_connect E d [] t 1 (dm_world ?m) = (r, w)" by fastforce
  have f: "r \<noteq> Inr True" using assms(2) [of i] c by (simp add: attempt_ok_def)
  have "connectLoop E d n t config 0 m = connectLoop E d n t config (int i) ?m"
    using assms by (intro connectLoop_runs) auto
  also have "\<dots> = connectLoop E d n t config (int i + 1) (?m\<lparr>dm_world := w\<rparr>)"
    using connectLoop_failure [OF _ c f, of "int i" config n] assms(3) by simp
  finally show ?thesis using assms(3) by (intro exI [of _ w]) (simp add: connectLoop_end)
qed

section \<open>Health and events\<close>

text \<open>Consecutive failures cost more and more: four of them bring a healthy device to zero; ten successes restore any.\<close>

lemma health_failures:
  "0 \<le> ds_consecutiveErrors st \<Longrightarrow> 0 \<le> ds_healthScore st \<Longrightarrow>
     ds_consecutiveErrors ((healthStep False ^^ n) st) = ds_consecutiveErrors st + int n
     \<and> ds_healthScore ((healthStep False ^^ n) st) =
         max 0 (ds_healthScore st - (real n * real_of_int (ds_consecutiveErrors st) + real n * (real n + 1) / 2) / 10)"
  by (induction n) (auto simp: healthStep_def Let_def field_simps max_def)

lemma health_successes:
  "ds_healthScore st \<le> 1 \<Longrightarrow> ds_healthScore ((healthStep True ^^ n) st) = min 1 (ds_healthScore st + real n / 10)"
  by (induction n) (auto simp: healthStep_def Let_def field_simps min_def)

definition last_n :: "nat \<Rightarrow> 'a list \<Rightarrow> 'a list" where
  "last_n n xs = drop (length xs - n) xs"

lemma last_n_short [simp]: "length xs \<le> n \<Longrightarrow> last_n n xs = xs"
  by (simp add: last_n_def)

lemma last_n_append: "last_n n (last_n n xs @ ys) = last_n n (xs @ ys)"
  by (cases "length xs \<le> n") (simp_all add: last_n_def add.commute)

lemma storePending_last_n: "storePending e p = last_n MAX_PENDING_EVENTS (p @ [e])"
  by (simp add: storePending_def last_n_def Let_def)

lemma rev_last_n: "rev (last_n n xs) = take n (rev xs)"
  by (cases "length xs \<le> n") (simp_all add: last_n_def rev_drop)

lemma length_last_n [simp]: "length (last_n n xs) \<le> n"
  by (simp add: last_n_def)

text \<open>The pending events are a bounded log.\<close>

interpretation pending_log: bounded_log "\<lambda>e m. Some (DeviceManager_emitEvent E e m)" "\<lambda>m. rev (dm_pending m)"
  "\<lambda>_. MAX_PENDING_EVENTS" "\<lambda>m. length (dm_pending m) \<le> MAX_PENDING_EVENTS"
  by unfold_locales
    (auto simp: DeviceManager_emitEvent_def Let_def storePending_bound storePending_last_n rev_last_n)

lemma emit_all: "pending_log.push_all E es m = Some (fold (DeviceManager_emitEvent E) es m)"
  by (induction es arbitrary: m) auto

text \<open>Clients that poll for events get the newest thousand, oldest first.\<close>

theorem pending_events_newest:
  fixes w :: 'w and E :: "'w environment" and es :: "ManagerEvent list"
  defines "m \<equiv> fold (DeviceManager_emitEvent E) es (DeviceManager_new w :: ('w, 'j) device_manager)"
  shows "snd (getPendingEvents MAX_PENDING_EVENTS m) = last_n MAX_PENDING_EVENTS es"
proof -
  have "rev (dm_pending m) = take MAX_PENDING_EVENTS (rev es)" "length (dm_pending m) \<le> MAX_PENDING_EVENTS"
    using pending_log.push_all_recent [of "DeviceManager_new w :: ('w, 'j) device_manager" E es]
    by (auto simp: emit_all m_def DeviceManager_new_def)
  then have "dm_pending m = last_n MAX_PENDING_EVENTS es" "length (dm_pending m) \<le> MAX_PENDING_EVENTS"
    by (metis rev_last_n rev_rev_ident)+
  then show ?thesis by (simp add: getPendingEvents_def Let_def min_absorb2)
qed

subsection \<open>A round of the health monitor\<close>

definition change_event :: "'w environment \<Rightarrow> (nat \<Rightarrow> bool) \<Rightarrow> string \<times> nat \<Rightarrow> ManagerEventType \<times> string \<times> string" where
  "change_event E c td = (if c (snd td) then EvConnected else EvDisconnected, e_getName E (snd td), fst td)"

definition changed :: "'w environment \<Rightarrow> (nat \<Rightarrow> bool) \<Rightarrow> ('w, 'j) device_manager \<Rightarrow> string \<times> nat \<Rightarrow> bool" where
  "changed E c m td \<longleftrightarrow> ds_isConnected (getDeviceState (e_getName E (snd td)) m) \<noteq> c (snd td)"

abbreviation event_key :: "ManagerEvent \<Rightarrow> ManagerEventType \<times> string \<times> string" where
  "event_key e \<equiv> (ev_type e, ev_deviceName e, ev_deviceType e)"

lemma healthCheckOne_effect:
  assumes "e_isConnected E d (dm_world m) = Inr (c d)"
  shows "ds_isConnected (getDeviceState (e_getName E d) (healthCheckOne E (t, d) m)) = c d"
    "k \<noteq> e_getName E d \<Longrightarrow> getDeviceState k (healthCheckOne E (t, d) m) = getDeviceState k m"
    "\<exists>es. map event_key es = (if changed E c m (t, d) then [change_event E c (t, d)] else [])
       \<and> dm_pending (healthCheckOne E (t, d) m) = (if es = [] then dm_pending m else last_n MAX_PENDING_EVENTS (dm_pending m @ es))"
proof -
  let ?st = "lookup_or DeviceState_new (dm_states m) (e_getName E d)"
  show "ds_isConnected (getDeviceState (e_getName E d) (healthCheckOne E (t, d) m)) = c d"
    "k \<noteq> e_getName E d \<Longrightarrow> getDeviceState k (healthCheckOne E (t, d) m) = getDeviceState k m"
    using assms by (auto simp: healthCheckOne_def getDeviceState_def Let_def updateDeviceState_states)
  show "\<exists>es. map event_key es = (if changed E c m (t, d) then [change_event E c (t, d)] else [])
       \<and> dm_pending (healthCheckOne E (t, d) m) = (if es = [] then dm_pending m else last_n MAX_PENDING_EVENTS (dm_pending m @ es))"
  proof (cases "ds_isConnected ?st = c d")
    case True
    then show ?thesis using assms by (intro exI [of _ "[]"]) (simp add: healthCheckOne_def getDeviceState_def Let_def changed_def)
  next
    case False
    then show ?thesis using assms
      by (intro exI [of _ "[\<lparr>ev_type = if c d then EvConnected else EvDisconnected, ev_deviceName = e_getName E d, ev_deviceType = t,
          ev_message = [], ev_timestamp = fst (e_now E (snd (e_now E (dm_world m))))\<rparr>]"])
        (simp add: healthCheckOne_def getDeviceState_def Let_def changed_def storePending_last_n change_event_def updateDeviceState_def case_prod_beta)
  qed
qed

lemma healthCheck_fold:
  assumes c: "\<And>d w. e_isConnected E d w = Inr (c d)" and dist: "distinct (map (e_getName E \<circ> snd) tds)"
    and p: "length (dm_pending m) \<le> MAX_PENDING_EVENTS" and m': "m' = fold (healthCheckOne E) tds m"
  shows "(\<forall>td \<in> set tds. ds_isConnected (getDeviceState (e_getName E (snd td)) m') = c (snd td))
     \<and> (\<forall>k. k \<notin> (e_getName E \<circ> snd) ` set tds \<longrightarrow> getDeviceState k m' = getDeviceState k m)
     \<and> (\<exists>es. map event_key es = map (change_event E c) (filter (changed E c m) tds)
          \<and> dm_pending m' = last_n MAX_PENDING_EVENTS (dm_pending m @ es))"
  using dist p m'
proof (induction tds arbitrary: m)
  case Nil
  then show ?case by auto
next
  case (Cons td tds)
  obtain t d where td: "td = (t, d)" by fastforce
  let ?m = "healthCheckOne E td m"
  note one = healthCheckOne_effect [where c = c and d = d and m = m and t = t, OF c, folded td]
  obtain es1 where es1: "map event_key es1 = (if changed E c m td then [change_event E c td] else [])"
    "dm_pending ?m = (if es1 = [] then dm_pending m else last_n MAX_PENDING_EVENTS (dm_pending m @ es1))"
    using one(3) by blast
  then have p1: "dm_pending ?m = last_n MAX_PENDING_EVENTS (dm_pending m @ es1)" using Cons.prems(2) by simp
  then have "length (dm_pending ?m) \<le> MAX_PENDING_EVENTS" by simp
  from Cons.IH [OF _ this] Cons.prems have IH: "\<forall>td \<in> set tds. ds_isConnected (getDeviceState (e_getName E (snd td)) m') = c (snd td)"
    "\<And>k. k \<notin> (e_getName E \<circ> snd) ` set tds \<Longrightarrow> getDeviceState k m' = getDeviceState k ?m"
    "\<exists>es. map event_key es = map (change_event E c) (filter (changed E c ?m) tds)
          \<and> dm_pending m' = last_n MAX_PENDING_EVENTS (dm_pending ?m @ es)" by auto
  have same: "getDeviceState k ?m = getDeviceState k m" if "k \<noteq> e_getName E d" for k using one(2) that by simp
  have "changed E c ?m x = changed E c m x" if "x \<in> set tds" for x
    using same [of "e_getName E (snd x)"] that Cons.prems(1) by (force simp: changed_def td)
  then have "filter (changed E c ?m) tds = filter (changed E c m) tds" by (simp cong: filter_cong)
  then obtain es where es: "map event_key es = map (change_event E c) (filter (changed E c m) tds)"
    "dm_pending m' = last_n MAX_PENDING_EVENTS (dm_pending ?m @ es)" using IH(3) by auto
  have ev: "map event_key (es1 @ es) = map (change_event E c) (filter (changed E c m) (td # tds))"
    "dm_pending m' = last_n MAX_PENDING_EVENTS (dm_pending m @ es1 @ es)"
    using es(1) es1(1) by (simp_all add: es(2) p1 last_n_append)
  have "ds_isConnected (getDeviceState (e_getName E d) m') = c d"
    using IH(2) [of "e_getName E d"] one(1) Cons.prems(1) by (simp add: td)
  then have "\<forall>x \<in> set (td # tds). ds_isConnected (getDeviceState (e_getName E (snd x)) m') = c (snd x)"
    "\<forall>k. k \<notin> (e_getName E \<circ> snd) ` set (td # tds) \<longrightarrow> getDeviceState k m' = getDeviceState k m"
    using IH(1,2) same by (auto simp: td)
  then show ?case using ev by blast
qed

lemma typed_devices_snd: "map snd (typed_devices ds) = concat (map snd ds)"
  by (induction ds) (auto simp: typed_devices_def comp_def)

text \<open>
  A round of the health monitor brings the states in line with the drivers. When the names of the devices are distinct and the
  drivers answer, the recorded connection of every registered device is the one its driver reports, all other states are
  untouched, and exactly the changes become events, in the order of the devices.
\<close>

theorem healthCheckRound_correct:
  assumes "\<And>d w. e_isConnected E d w = Inr (c d)" "distinct (map (e_getName E) (concat (map snd (dm_devices m))))"
    "length (dm_pending m) \<le> MAX_PENDING_EVENTS"
  shows "(\<forall>d \<in> set (concat (map snd (dm_devices m))). ds_isConnected (getDeviceState (e_getName E d) (healthCheckRound E m)) = c d)
     \<and> (\<forall>k. (\<forall>d \<in> set (concat (map snd (dm_devices m))). k \<noteq> e_getName E d) \<longrightarrow>
          getDeviceState k (healthCheckRound E m) = getDeviceState k m)
     \<and> (\<exists>es. map event_key es = map (change_event E c) (filter (changed E c m) (typed_devices (dm_devices m)))
          \<and> dm_pending (healthCheckRound E m) = last_n MAX_PENDING_EVENTS (dm_pending m @ es))"
proof -
  let ?tds = "typed_devices (dm_devices m)"
  have s: "set (concat (map snd (dm_devices m))) = snd ` set ?tds" unfolding typed_devices_snd [symmetric] by simp
  have d: "distinct (map (e_getName E \<circ> snd) ?tds)" using assms(2) by (simp add: typed_devices_snd [symmetric])
  from healthCheck_fold [where c = c, OF assms(1) d assms(3) refl] show ?thesis
    unfolding s healthCheckRound_def [symmetric] by (auto simp: image_iff)
qed

section \<open>The manager\<close>

text \<open>An environment for concrete runs: devices named by their number, connected after the third attempt.\<close>

definition demo_env :: "nat environment" where
  "demo_env = \<lparr>e_getName = show_nat, e_initialize = (\<lambda>d w. (Inr True, w)), e_destroy = (\<lambda>d w. (Inr True, w)),
     e_connect = (\<lambda>d port timeout retries w. (Inr (2 \<le> w), w + 1)), e_disconnect = (\<lambda>d w. (Inr True, 0)),
     e_isConnected = (\<lambda>d w. Inr (3 \<le> w)), e_callback = (\<lambda>cb e w. w), e_now = (\<lambda>w. (int w, w)), e_sleep = (\<lambda>ms w. w)\<rparr>"



text \<open>
  C29: Connecting to a registered device tries until it works. As long as the delays are defined, the call returns; it returns
  true exactly when one of the attempts that its retry configuration allows succeeds, makes no attempt after the first that
  does, and then records the device as connected and adds the event of the connection; otherwise it changes no state and adds no
  event. The statistics count one connection, its outcome and the retries made.
\<close>

theorem connectDeviceByName_correct:
  assumes "Impl_findDeviceByName E n m = Some d" "config = getDeviceRetryConfig n m" "0 \<le> drc_maxRetries config" "delays_defined config"
    "ok = attempt_ok E d t config (dm_world m)" "b \<longleftrightarrow> (\<exists>i \<le> nat (drc_maxRetries config). ok i)"
  shows "\<exists>m'. connectDeviceByName E n t m = Some (m', Inr b)
     \<and> (\<forall>k. ds_isConnected (getDeviceState k m') = (if b \<and> k = n then True else ds_isConnected (getDeviceState k m)))
     \<and> (\<exists>now. dm_pending m' = (if b then storePending \<lparr>ev_type = EvConnected, ev_deviceName = n,
           ev_deviceType = Impl_findDeviceType E n m, ev_message = [], ev_timestamp = now\<rparr> (dm_pending m) else dm_pending m))
     \<and> dm_statistics m' = dm_statistics m\<lparr>mt_totalConnections := mt_totalConnections (dm_statistics m) + 1,
          mt_successfulConnections := mt_successfulConnections (dm_statistics m) + of_bool b,
          mt_failedConnections := mt_failedConnections (dm_statistics m) + of_bool (\<not> b),
          mt_totalRetries := mt_totalRetries (dm_statistics m) + (if b then LEAST i. ok i else nat (drc_maxRetries config))\<rparr>"
proof -
  let ?m = "m\<lparr>dm_statistics := dm_statistics m\<lparr>mt_totalConnections := mt_totalConnections (dm_statistics m) + 1\<rparr>\<rparr>"
  have c: "connectDeviceByName E n t m = map_option (\<lambda>(m2, b). (m2, Inr b)) (connectLoop E d n t config 0 ?m)"
    using assms(1,2) by (simp add: connectDeviceByName_def getDeviceRetryConfig_def Let_def)
  have ok: "attempt_ok E d t config (dm_world ?m) = ok" using assms(5) by simp
  have same: "Impl_findDeviceType E n ?m = Impl_findDeviceType E n m" "getDeviceState k ?m = getDeviceState k m" for k
    by (simp_all add: Impl_findDeviceType_def getDeviceState_def)
  show ?thesis
  proof (cases b)
    case True
    then obtain j where j: "j \<le> nat (drc_maxRetries config)" "ok j" using assms(6) by blast
    let ?i = "LEAST i. ok i"
    have i: "ok ?i" "?i \<le> j" using j(2) by (auto intro: LeastI Least_le)
    have "int ?i \<le> drc_maxRetries config" using i(2) j(1) assms(3) by linarith
    from connectLoop_succeeds [OF assms(4) _ this, of E d t ?m n, unfolded ok same]
    obtain m1 now where m1: "connectLoop E d n t config 0 ?m = Some (emitNow E EvConnected n (Impl_findDeviceType E n m) [] m1, True)"
      "dm_statistics m1 = dm_statistics ?m\<lparr>mt_totalRetries := mt_totalRetries (dm_statistics ?m) + ?i,
         mt_successfulConnections := mt_successfulConnections (dm_statistics ?m) + 1\<rparr>" "dm_pending m1 = dm_pending ?m"
      "\<And>k. getDeviceState k m1 = (if k = n then (getDeviceState n m)\<lparr>ds_isConnected := True, ds_lastActivity := now\<rparr> else getDeviceState k m)"
      using i(1) not_less_Least [of _ ok] by blast
    let ?m' = "emitNow E EvConnected n (Impl_findDeviceType E n m) [] m1"
    have cn: "connectDeviceByName E n t m = Some (?m', Inr True)" unfolding c m1(1) by simp
    have "getDeviceState k ?m' = getDeviceState k m1" for k by (simp add: getDeviceState_def)
    then show ?thesis using True by (intro exI [of _ ?m'] conjI) (auto simp: cn m1(2,3,4))
  next
    case False
    have "\<not> ok j" if "j \<le> nat (drc_maxRetries config)" for j using False that assms(6) by blast
    then have "\<exists>w. connectLoop E d n t config 0 ?m = Some (?m\<lparr>dm_world := w, dm_statistics := dm_statistics ?m\<lparr>
       mt_totalRetries := mt_totalRetries (dm_statistics ?m) + nat (drc_maxRetries config),
       mt_failedConnections := mt_failedConnections (dm_statistics ?m) + 1\<rparr>\<rparr>, False)"
      using assms(3) by (intro connectLoop_fails [OF assms(4)]) (simp_all add: assms(5))
    then show ?thesis using False by (auto simp: c getDeviceState_def)
  qed
qed

text \<open>With the default configuration the third attempt connects, after two retries.\<close>

theorem connectDeviceByName_correct_witness:
  "\<exists>m'. connectDeviceByName demo_env (show_nat 7) 5000
       (fst (addDevice demo_env ''camera'' 7 (DeviceManager_new 0 :: (nat, unit) device_manager))) = Some (m', Inr True)
     \<and> ds_isConnected (getDeviceState (show_nat 7) m') \<and> mt_totalRetries (dm_statistics m') = 2
     \<and> mt_successfulConnections (dm_statistics m') = 1"
proof -
  let ?m = "fst (addDevice demo_env ''camera'' 7 (DeviceManager_new 0)) :: (nat, unit) device_manager"
  note defs = addDevice_def demo_env_def DeviceManager_new_def try_emplace_def lookup_or_def emitNow_def
    DeviceManager_emitEvent_def updateDeviceState_def DeviceState_new_def Let_def
  have d: "Impl_findDeviceByName demo_env (show_nat 7) ?m = Some 7" "dm_world ?m = 0"
    "dm_statistics ?m = ManagerStatistics_new" "getDeviceRetryConfig (show_nat 7) ?m = DeviceRetryConfig_new"
    by (simp_all add: Impl_findDeviceByName_def getDeviceRetryConfig_def defs)
  let ?ok = "attempt_ok demo_env 7 5000 DeviceRetryConfig_new (0::nat)"
  have w: "connect_before demo_env 7 5000 DeviceRetryConfig_new 0 i = i" for i
    by (induction i) (simp_all add: demo_env_def)
  have ok: "?ok i \<longleftrightarrow> 2 \<le> i" for i by (simp add: attempt_ok_def w) (simp add: demo_env_def)
  have "calculateRetryDelay DeviceRetryConfig_new a \<noteq> None" if "a = 1 \<or> a = 2 \<or> a = 3" for a
    using that by (elim disjE) (simp_all add: calculateRetryDelay_def DeviceRetryConfig_new_def to_long_long_def in_int64_def Let_def)
  moreover have "a = 1 \<or> a = 2 \<or> a = 3" if "1 \<le> a" "a \<le> drc_maxRetries DeviceRetryConfig_new" for a
    using that by (auto simp: DeviceRetryConfig_new_def)
  ultimately have del: "delays_defined DeviceRetryConfig_new" by (simp add: delays_defined_def)
  have least: "(LEAST i. 2 \<le> i) = (2::nat)" by (rule Least_equality) auto
  have b: "True \<longleftrightarrow> (\<exists>i \<le> nat (drc_maxRetries DeviceRetryConfig_new). ?ok i)"
    unfolding ok by (auto simp: DeviceRetryConfig_new_def intro!: exI [of _ 2])
  have r: "0 \<le> drc_maxRetries DeviceRetryConfig_new" by (simp add: DeviceRetryConfig_new_def)
  have w0: "?ok = attempt_ok demo_env 7 5000 DeviceRetryConfig_new (dm_world ?m)" by (simp only: d(2))
  from connectDeviceByName_correct [OF d(1) d(4) [symmetric] r del w0 b, unfolded ok least d(3)]
  obtain m' where "connectDeviceByName demo_env (show_nat 7) 5000 ?m = Some (m', Inr True)"
    "ds_isConnected (getDeviceState (show_nat 7) m')"
    "dm_statistics m' = ManagerStatistics_new\<lparr>mt_totalConnections := mt_totalConnections ManagerStatistics_new + 1,
          mt_successfulConnections := mt_successfulConnections ManagerStatistics_new + of_bool True,
          mt_failedConnections := mt_failedConnections ManagerStatistics_new + of_bool (\<not> True),
          mt_totalRetries := mt_totalRetries ManagerStatistics_new + 2\<rparr>"
    by (elim exE conjE) simp
  then show ?thesis by (intro exI [of _ m']) (simp add: ManagerStatistics_new_def)
qed

section \<open>Where the code differs from what it says\<close>

text \<open>
  The first device of a type becomes primary only once: after the last device of a type is removed, its entry stays with no
  device, and the next device that is added does not become primary.
\<close>

lemma primary_stays_null:
  assumes "\<And>d w. \<exists>b. e_isConnected E d w = Inr b" "\<And>d w. \<exists>b w'. e_destroy E d w = (Inr b, w')"
    and m: "m1 = fst (addDevice E t d (DeviceManager_new w))" "m2 = fst (removeDevice E t d m1)" "m3 = fst (addDevice E t d' m2)"
  shows "getDevicesByType t m3 = [d'] \<and> getPrimaryDevice t m3 = None"
proof -
  have a: "dm_devices (fst (addDevice E t x m)) = AList.update t (lookup_or [] (dm_devices m) t @ [x]) (dm_devices m)"
    "dm_primaryDevices (fst (addDevice E t x m)) = try_emplace t (Some x) (dm_primaryDevices m)" for x and m :: "('a, 'b) device_manager"
    using assms(1) [of x "dm_world m"] by (auto simp: addDevice_def Let_def)
  have m1: "dm_devices m1 = [(t, [d])]" "dm_primaryDevices m1 = [(t, Some d)]"
    by (simp_all add: m(1) a DeviceManager_new_def try_emplace_def)
  obtain b w' where "e_destroy E d (dm_world m1) = (Inr b, w')" using assms(2) by blast
  then have m2: "dm_devices m2 = [(t, [])]" "dm_primaryDevices m2 = [(t, None)]"
    by (simp_all add: m(2) removeDevice_def m1 Let_def try_emplace_def lookup_or_def front_of_def)
  show ?thesis by (simp add: m(3) getDevicesByType_def getPrimaryDevice_def a m2 try_emplace_def lookup_or_def)
qed

text \<open>Connecting all devices records a device as connected although its driver reported that it is not.\<close>

lemma connectOne_ignores_failure:
  "e_connect E d ''7624'' 5000 3 (dm_world m) = (Inr False, w) \<Longrightarrow>
     ds_isConnected (getDeviceState (e_getName E d) (connectOne E d m))"
  by (simp add: connectOne_def getDeviceState_def updateDeviceState_states)

text \<open>A failed operation reports no retries, however many were made.\<close>

lemma operationLoop_failed:
  "operationLoop E f d config a res m = Some (m', res') \<Longrightarrow> \<not> or_success res \<Longrightarrow> \<not> or_success res' \<Longrightarrow>
     or_retryCount res' = or_retryCount res"
proof (induction "nat (drc_maxRetries config + 1 - a)" arbitrary: a m res rule: less_induct)
  case less
  obtain r w where c: "f d (dm_world m) = (r, w)" by fastforce
  have dec: "nat (drc_maxRetries config + 1 - (a + 1)) < nat (drc_maxRetries config + 1 - a)" if "a \<le> drc_maxRetries config"
    using that by linarith
  show ?case using less.prems less.hyps [OF dec] c
    by (subst (asm) operationLoop.simps) (auto simp: Let_def split: if_splits sum.splits bool.splits option.splits)
qed

lemma failed_operation_count:
  "DeviceManager_executeWithRetry E f n m = Some (m', res) \<Longrightarrow> \<not> or_success res \<Longrightarrow> or_retryCount res = 0"
  by (auto simp: DeviceManager_executeWithRetry_def Let_def split: option.splits dest: operationLoop_failed)

end
