(* ===== verification/Task_Manager.thy ===== *)
theory Task_Manager
  imports Lithium_Prelude "HOL-Library.Signed_Division"
begin

text \<open>
  The background tasks of the server, \<^verbatim>\<open>src/src/server/task_manager.cpp\<close>. Task objects are shared: the manager, the
  jobs on the event loop and the callers hold pointers to them, so they live in a heap (a list, addressed by
  position) and the table maps identifiers to addresses. The manager locks its mutex for the table only; the status
  of a task is read and written without it. The threads are therefore a step relation \<open>tm_step\<close>, with one step for each
  critical section and for each group of statements that read or write a task. The runner of a task may change
  its own task in any way, but keeps its identifier and does not take a request to cancel back. Time points are integers in nanoseconds, identifiers are those of the UUID library, which do
  not repeat. Status callbacks and logging are left out. Periodic tasks have their own table and step relation at the end.
\<close>

section \<open>State\<close>

datatype Status = Pending | Running | Completed | Failed | Cancelled

record 'j TaskInfo =
  ti_id :: string
  ti_type :: string
  ti_status :: Status
  ti_error :: string
  ti_params :: 'j
  ti_result :: 'j
  ti_createdAt :: int
  ti_updatedAt :: int
  ti_cancelRequested :: bool
  ti_priority :: int
  ti_progress :: real
  ti_progressMessage :: string

text \<open>Where the call that submits a task, and then its job, has got to.\<close>

datatype job_place = Registered | Announced | Posted | Checked | Executing | Returned | Closing "Status option" | Finished

text \<open>\<open>tm_cancelling\<close> is the task whose cancellation holds the mutex and has found it pending.\<close>

record 'j task_manager =
  tm_heap :: "'j TaskInfo list"
  tm_place :: "job_place list"
  tm_tasks :: "nat umap"
  tm_order :: "string list"
  tm_cancelling :: "nat option"
  tm_submitted :: nat
  tm_completed :: nat
  tm_failed :: nat
  tm_cancelled :: nat

definition TaskManager_new :: "'j task_manager" where
  "TaskManager_new = \<lparr>tm_heap = [], tm_place = [], tm_tasks = [], tm_order = [], tm_cancelling = None,
     tm_submitted = 0, tm_completed = 0, tm_failed = 0, tm_cancelled = 0\<rparr>"

definition active :: "Status \<Rightarrow> bool" where
  "active st \<longleftrightarrow> st = Pending \<or> st = Running"

section \<open>Queries\<close>

definition getTask :: "string \<Rightarrow> 'j task_manager \<Rightarrow> 'j TaskInfo option" where
  "getTask i s = map_option (\<lambda>a. tm_heap s ! a) (map_of (tm_tasks s) i)"

definition listTasks :: "('j TaskInfo \<Rightarrow> bool) \<Rightarrow> 'j task_manager \<Rightarrow> 'j TaskInfo list" where
  "listTasks P s = filter P (List.map_filter (\<lambda>i. getTask i s) (tm_order s))"

definition listActiveTasks :: "'j task_manager \<Rightarrow> 'j TaskInfo list" where
  "listActiveTasks = listTasks (\<lambda>t. ti_status t = Pending \<or> ti_status t = Running)"

definition listTasksByStatus :: "Status \<Rightarrow> 'j task_manager \<Rightarrow> 'j TaskInfo list" where
  "listTasksByStatus st = listTasks (\<lambda>t. ti_status t = st)"

definition listTasksByType :: "string \<Rightarrow> 'j task_manager \<Rightarrow> 'j TaskInfo list" where
  "listTasksByType ty = listTasks (\<lambda>t. ti_type t = ty)"

fun listAllLoop :: "nat \<Rightarrow> nat \<Rightarrow> 'j task_manager \<Rightarrow> string list \<Rightarrow> nat \<Rightarrow> nat \<Rightarrow> 'j TaskInfo list \<Rightarrow> 'j TaskInfo list" where
  "listAllLoop limit offset s [] skipped n result = result"
| "listAllLoop limit offset s (i # rest) skipped n result =
     (if skipped < offset then listAllLoop limit offset s rest (skipped + 1) n result
      else case getTask i s of
        None \<Rightarrow> listAllLoop limit offset s rest skipped n result
      | Some t \<Rightarrow>
        (let result = result @ [t]; n = n + 1
         in if limit > 0 \<and> n \<ge> limit then result else listAllLoop limit offset s rest skipped n result))"

definition listAllTasks :: "nat \<Rightarrow> nat \<Rightarrow> 'j task_manager \<Rightarrow> 'j TaskInfo list" where
  "listAllTasks limit offset s = listAllLoop limit offset s (rev (tm_order s)) 0 0 []"

definition count_status :: "Status \<Rightarrow> 'j task_manager \<Rightarrow> nat" where
  "count_status st s = length (filter (\<lambda>e. ti_status (tm_heap s ! snd e) = st) (tm_tasks s))"

section \<open>Changes\<close>

definition on_task :: "nat \<Rightarrow> ('j TaskInfo \<Rightarrow> 'j TaskInfo) \<Rightarrow> 'j task_manager \<Rightarrow> 'j task_manager" where
  "on_task a f s = s\<lparr>tm_heap := (tm_heap s)[a := f (tm_heap s ! a)]\<rparr>"

definition at_place :: "nat \<Rightarrow> job_place \<Rightarrow> 'j task_manager \<Rightarrow> 'j task_manager" where
  "at_place a p s = s\<lparr>tm_place := (tm_place s)[a := p]\<rparr>"

text \<open>The first critical section of \<^verbatim>\<open>submitTask\<close>, and of \<^verbatim>\<open>submitDelayedTask\<close>, which sets a message.\<close>

definition new_task :: "string \<Rightarrow> string \<Rightarrow> 'j \<Rightarrow> 'j \<Rightarrow> int \<Rightarrow> int \<Rightarrow> string \<Rightarrow> 'j TaskInfo" where
  "new_task i ty params null prio now msg = \<lparr>ti_id = i, ti_type = ty, ti_status = Pending, ti_error = [], ti_params = params,
     ti_result = null, ti_createdAt = now, ti_updatedAt = now, ti_cancelRequested = False, ti_priority = prio,
     ti_progress = 0, ti_progressMessage = msg\<rparr>"

definition register :: "'j TaskInfo \<Rightarrow> 'j task_manager \<Rightarrow> 'j task_manager" where
  "register t s = s\<lparr>tm_heap := tm_heap s @ [t], tm_place := tm_place s @ [Registered],
     tm_tasks := AList.update (ti_id t) (length (tm_heap s)) (tm_tasks s), tm_order := tm_order s @ [ti_id t]\<rparr>"

definition announce :: "nat \<Rightarrow> 'j task_manager \<Rightarrow> 'j task_manager" where
  "announce a s = at_place a Announced (s\<lparr>tm_submitted := tm_submitted s + 1\<rparr>)"

definition no_event_loop :: "nat \<Rightarrow> 'j task_manager \<Rightarrow> 'j task_manager" where
  "no_event_loop a s = at_place a Finished (on_task a (\<lambda>t. t\<lparr>ti_status := Failed, ti_error := ''EventLoop not available''\<rparr>)
     (s\<lparr>tm_failed := tm_failed s + 1\<rparr>))"

definition cancelled_before_start :: "int \<Rightarrow> nat \<Rightarrow> 'j task_manager \<Rightarrow> 'j task_manager" where
  "cancelled_before_start now a s = at_place a Finished (on_task a (\<lambda>t. t\<lparr>ti_status := Cancelled, ti_updatedAt := now\<rparr>)
     (s\<lparr>tm_cancelled := tm_cancelled s + 1\<rparr>))"

text \<open>A delayed job also clears the message it waited with.\<close>

definition start_job :: "bool \<Rightarrow> int \<Rightarrow> nat \<Rightarrow> 'j task_manager \<Rightarrow> 'j task_manager" where
  "start_job delayed now a s = at_place a Executing (on_task a (\<lambda>t. t\<lparr>ti_status := Running,
     ti_progressMessage := (if delayed then [] else ti_progressMessage t), ti_updatedAt := now\<rparr>) s)"

definition runner_throws :: "int \<Rightarrow> string \<Rightarrow> nat \<Rightarrow> 'j task_manager \<Rightarrow> 'j task_manager" where
  "runner_throws now msg a s = at_place a Finished
     (on_task a (\<lambda>t. t\<lparr>ti_status := Failed, ti_error := msg, ti_updatedAt := now\<rparr>) (s\<lparr>tm_failed := tm_failed s + 1\<rparr>))"

text \<open>What the job decides after the runner has returned, and the write that follows.\<close>

definition job_outcome :: "'j TaskInfo \<Rightarrow> Status option" where
  "job_outcome t =
     (if ti_cancelRequested t \<and> ti_status t \<noteq> Failed then Some Cancelled
      else if ti_status t = Running \<or> ti_status t = Pending then Some Completed else None)"

definition close_job :: "int \<Rightarrow> nat \<Rightarrow> Status option \<Rightarrow> 'j task_manager \<Rightarrow> 'j task_manager" where
  "close_job now a r s = at_place a Finished
     (case r of
        None \<Rightarrow> on_task a (\<lambda>t. t\<lparr>ti_updatedAt := now\<rparr>) s
      | Some st \<Rightarrow>
        if st = Cancelled then on_task a (\<lambda>t. t\<lparr>ti_status := Cancelled, ti_updatedAt := now\<rparr>) (s\<lparr>tm_cancelled := tm_cancelled s + 1\<rparr>)
        else on_task a (\<lambda>t. t\<lparr>ti_status := Completed, ti_progress := 100, ti_updatedAt := now\<rparr>) (s\<lparr>tm_completed := tm_completed s + 1\<rparr>))"

text \<open>\<^verbatim>\<open>cancelTask\<close>: the flag is set and the status read; if it was pending, the status is written, still under the mutex.\<close>

definition request_cancel :: "nat \<Rightarrow> 'j task_manager \<Rightarrow> 'j task_manager" where
  "request_cancel a s = on_task a (\<lambda>t. t\<lparr>ti_cancelRequested := True\<rparr>)
     (if ti_status (tm_heap s ! a) = Pending then s\<lparr>tm_cancelling := Some a\<rparr> else s)"

definition finish_cancel :: "int \<Rightarrow> nat \<Rightarrow> 'j task_manager \<Rightarrow> 'j task_manager" where
  "finish_cancel now a s = on_task a (\<lambda>t. t\<lparr>ti_status := Cancelled, ti_updatedAt := now\<rparr>)
     (s\<lparr>tm_cancelling := None, tm_cancelled := tm_cancelled s + 1\<rparr>)"

definition updateProgress :: "int \<Rightarrow> real \<Rightarrow> string \<Rightarrow> nat \<Rightarrow> 'j task_manager \<Rightarrow> 'j task_manager" where
  "updateProgress now progress message a = on_task a (\<lambda>t. t\<lparr>ti_progress := min (max progress 0) 100,
     ti_progressMessage := (if message \<noteq> [] then message else ti_progressMessage t), ti_updatedAt := now\<rparr>)"

definition setResult :: "int \<Rightarrow> 'j \<Rightarrow> nat \<Rightarrow> 'j task_manager \<Rightarrow> 'j task_manager" where
  "setResult now result a = on_task a (\<lambda>t. t\<lparr>ti_result := result, ti_updatedAt := now\<rparr>)"

definition failTask :: "int \<Rightarrow> string \<Rightarrow> nat \<Rightarrow> 'j task_manager \<Rightarrow> 'j task_manager" where
  "failTask now err a s = on_task a (\<lambda>t. t\<lparr>ti_status := Failed, ti_error := err, ti_updatedAt := now\<rparr>)
     (s\<lparr>tm_failed := tm_failed s + 1\<rparr>)"

fun cleanupTasksLoop :: "int \<Rightarrow> int \<Rightarrow> 'j TaskInfo list \<Rightarrow> string list \<Rightarrow> nat umap \<Rightarrow> string list \<Rightarrow> nat
    \<Rightarrow> nat \<times> nat umap \<times> string list" where
  "cleanupTasksLoop now maxAge heap [] tasks kept removed = (removed, tasks, kept)"
| "cleanupTasksLoop now maxAge heap (i # rest) tasks kept removed =
     (case map_of tasks i of
        None \<Rightarrow> cleanupTasksLoop now maxAge heap rest tasks kept removed
      | Some a \<Rightarrow>
        if ti_status (heap ! a) \<noteq> Pending \<and> ti_status (heap ! a) \<noteq> Running
           \<and> (now - ti_updatedAt (heap ! a)) sdiv 1000000000 > maxAge
        then cleanupTasksLoop now maxAge heap rest (AList.delete i tasks) kept (removed + 1)
        else cleanupTasksLoop now maxAge heap rest tasks (kept @ [i]) removed)"

definition cleanupOldTasks :: "int \<Rightarrow> int \<Rightarrow> 'j task_manager \<Rightarrow> nat \<times> 'j task_manager" where
  "cleanupOldTasks now maxAge s =
     (case cleanupTasksLoop now maxAge (tm_heap s) (tm_order s) (tm_tasks s) [] 0 of
        (removed, tasks, order) \<Rightarrow> (removed, s\<lparr>tm_tasks := tasks, tm_order := order\<rparr>))"

section \<open>Interleavings\<close>

text \<open>
  Steps that need the mutex are possible only while no cancellation holds it. A step of a submission or a job names its
  place; the other operations act on any task somebody has a pointer to.
\<close>

inductive tm_step :: "'j task_manager \<Rightarrow> 'j task_manager \<Rightarrow> bool" where
  submit: "tm_cancelling s = None \<Longrightarrow> i \<notin> ti_id ` set (tm_heap s) \<Longrightarrow> tm_step s (register (new_task i ty p nul prio now msg) s)"
| announce: "a < length (tm_heap s) \<Longrightarrow> tm_place s ! a = Registered \<Longrightarrow> tm_step s (announce a s)"
| post: "a < length (tm_heap s) \<Longrightarrow> tm_place s ! a = Announced \<Longrightarrow> tm_step s (at_place a Posted s)"
| no_loop: "a < length (tm_heap s) \<Longrightarrow> tm_place s ! a = Announced \<Longrightarrow> tm_step s (no_event_loop a s)"
| check_cancelled: "a < length (tm_heap s) \<Longrightarrow> tm_place s ! a = Posted \<Longrightarrow> ti_cancelRequested (tm_heap s ! a)
    \<Longrightarrow> tm_step s (cancelled_before_start now a s)"
| check: "a < length (tm_heap s) \<Longrightarrow> tm_place s ! a = Posted \<Longrightarrow> \<not> ti_cancelRequested (tm_heap s ! a)
    \<Longrightarrow> tm_step s (at_place a Checked s)"
| start: "a < length (tm_heap s) \<Longrightarrow> tm_place s ! a = Checked \<Longrightarrow> tm_step s (start_job delayed now a s)"
| act: "a < length (tm_heap s) \<Longrightarrow> tm_place s ! a = Executing \<Longrightarrow> ti_id t = ti_id (tm_heap s ! a)
    \<Longrightarrow> (ti_cancelRequested (tm_heap s ! a) \<longrightarrow> ti_cancelRequested t) \<Longrightarrow> tm_step s (on_task a (\<lambda>_. t) s)"
| return: "a < length (tm_heap s) \<Longrightarrow> tm_place s ! a = Executing \<Longrightarrow> tm_step s (at_place a Returned s)"
| throw: "a < length (tm_heap s) \<Longrightarrow> tm_place s ! a = Executing \<Longrightarrow> tm_step s (runner_throws now msg a s)"
| decide: "a < length (tm_heap s) \<Longrightarrow> tm_place s ! a = Returned
    \<Longrightarrow> tm_step s (at_place a (Closing (job_outcome (tm_heap s ! a))) s)"
| close: "a < length (tm_heap s) \<Longrightarrow> tm_place s ! a = Closing r \<Longrightarrow> tm_step s (close_job now a r s)"
| cancel: "tm_cancelling s = None \<Longrightarrow> map_of (tm_tasks s) i = Some a \<Longrightarrow> tm_step s (request_cancel a s)"
| cancel_end: "tm_cancelling s = Some a \<Longrightarrow> tm_step s (finish_cancel now a s)"
| progress: "a < length (tm_heap s) \<Longrightarrow> tm_step s (updateProgress now x msg a s)"
| result: "a < length (tm_heap s) \<Longrightarrow> tm_step s (setResult now j a s)"
| fail: "a < length (tm_heap s) \<Longrightarrow> tm_step s (failTask now msg a s)"
| cleanup: "tm_cancelling s = None \<Longrightarrow> tm_step s (snd (cleanupOldTasks now age s))"

inductive_cases tm_stepE: "tm_step s s'"

abbreviation tm_steps :: "'j task_manager \<Rightarrow> 'j task_manager \<Rightarrow> bool" where
  "tm_steps \<equiv> tm_step\<^sup>*\<^sup>*"

section \<open>The table\<close>

definition table_inv :: "'j task_manager \<Rightarrow> bool" where
  "table_inv s \<longleftrightarrow> length (tm_place s) = length (tm_heap s)
     \<and> (\<forall>i a. map_of (tm_tasks s) i = Some a \<longrightarrow> a < length (tm_heap s) \<and> ti_id (tm_heap s ! a) = i)
     \<and> (\<forall>a. tm_cancelling s = Some a \<longrightarrow> a < length (tm_heap s))
     \<and> distinct (tm_order s) \<and> set (tm_order s) = keys (tm_tasks s)"

definition old_task :: "int \<Rightarrow> int \<Rightarrow> 'j TaskInfo \<Rightarrow> bool" where
  "old_task now maxAge t \<longleftrightarrow> \<not> active (ti_status t) \<and> (now - ti_updatedAt t) sdiv 1000000000 > maxAge"

lemma cleanupTasksLoop_eq:
  assumes "distinct is" "set is \<subseteq> keys tasks"
  shows "\<exists>tasks'. cleanupTasksLoop now age h is tasks kp n
      = (n + length (filter (\<lambda>i. old_task now age (h ! the (map_of tasks i))) is), tasks',
         kp @ filter (\<lambda>i. \<not> old_task now age (h ! the (map_of tasks i))) is)
    \<and> map_of tasks' = (\<lambda>i. if i \<in> set is \<and> old_task now age (h ! the (map_of tasks i)) then None else map_of tasks i)"
  using assms
proof (induction "is" arbitrary: tasks kp n)
  case (Cons i js)
  obtain a where a: "map_of tasks i = Some a" using Cons.prems(2) by (auto elim: keysE)
  show ?case
  proof (cases "old_task now age (h ! a)")
    case True
    have other: "map_of (AList.delete i tasks) j = map_of tasks j" if "j \<in> set js" for j
      using Cons.prems(1) that by (auto simp: delete_conv')
    have f: "filter (\<lambda>j. P (map_of (AList.delete i tasks) j)) js = filter (\<lambda>j. P (map_of tasks j)) js" for P
      by (rule filter_cong) (simp_all add: other)
    have "set js \<subseteq> keys (AList.delete i tasks)" using Cons.prems by auto
    from Cons.IH [OF _ this, of kp "Suc n"] Cons.prems(1) show ?thesis
      using True a Cons.prems(1) f [of "\<lambda>x. old_task now age (h ! the x)"] f [of "\<lambda>x. \<not> old_task now age (h ! the x)"]
      by (auto simp: old_task_def active_def delete_conv' fun_eq_iff)
  next
    case False
    then show ?thesis using Cons.IH [of tasks "kp @ [i]" n] Cons.prems a
      by (auto simp: old_task_def active_def fun_eq_iff)
  qed
qed simp

lemmas tm_simps = register_def announce_def at_place_def on_task_def no_event_loop_def cancelled_before_start_def start_job_def
  runner_throws_def close_job_def request_cancel_def finish_cancel_def updateProgress_def setResult_def failTask_def new_task_def

lemma table_inv_new: "table_inv TaskManager_new"
  by (simp add: table_inv_def TaskManager_new_def)

lemma table_inv_address:
  "table_inv s \<Longrightarrow> map_of (tm_tasks s) i = Some a \<Longrightarrow> a < length (tm_heap s) \<and> ti_id (tm_heap s ! a) = i"
  by (simp add: table_inv_def)

lemma table_inv_fresh:
  assumes "table_inv s" "i \<notin> ti_id ` set (tm_heap s)"
  shows "i \<notin> keys (tm_tasks s)"
proof
  assume "i \<in> keys (tm_tasks s)"
  then obtain a where "map_of (tm_tasks s) i = Some a" by (rule keysE)
  from table_inv_address [OF assms(1) this] assms(2) show False by force
qed

lemma table_inv_register:
  assumes inv: "table_inv s" and new: "ti_id t \<notin> ti_id ` set (tm_heap s)" and "tm_cancelling s = None"
  shows "table_inv (register t s)"
  using inv assms(3) table_inv_fresh [OF inv new]
  by (auto simp: table_inv_def register_def update_conv' nth_append less_Suc_eq split: if_splits)

lemma cleanup_correct:
  assumes inv: "table_inv s" and r: "cleanupOldTasks now age s = (n, s')"
  defines "old \<equiv> \<lambda>i. old_task now age (the (getTask i s))"
  shows "n = length (filter old (tm_order s))" "tm_order s' = filter (\<lambda>i. \<not> old i) (tm_order s)"
    "map_of (tm_tasks s') = (\<lambda>i. if i \<in> set (tm_order s) \<and> old i then None else map_of (tm_tasks s) i)"
    "tm_heap s' = tm_heap s" "tm_place s' = tm_place s" "tm_cancelling s' = tm_cancelling s"
proof -
  let ?old = "\<lambda>i. old_task now age (tm_heap s ! the (map_of (tm_tasks s) i))"
  have d: "distinct (tm_order s)" "set (tm_order s) \<subseteq> keys (tm_tasks s)" using inv by (auto simp: table_inv_def)
  have old: "?old i = old i" if "i \<in> set (tm_order s)" for i
  proof -
    obtain a where "map_of (tm_tasks s) i = Some a" using d(2) \<open>i \<in> set (tm_order s)\<close> by (blast elim: keysE)
    then show ?thesis by (simp add: old_def getTask_def)
  qed
  have f: "filter ?old (tm_order s) = filter old (tm_order s)"
    "filter (\<lambda>i. \<not> ?old i) (tm_order s) = filter (\<lambda>i. \<not> old i) (tm_order s)"
    by (auto intro: filter_cong simp: old)
  obtain tasks' where t: "cleanupTasksLoop now age (tm_heap s) (tm_order s) (tm_tasks s) [] 0
      = (length (filter ?old (tm_order s)), tasks', filter (\<lambda>i. \<not> ?old i) (tm_order s))"
      "map_of tasks' = (\<lambda>i. if i \<in> set (tm_order s) \<and> ?old i then None else map_of (tm_tasks s) i)"
    using cleanupTasksLoop_eq [OF d, of now age "tm_heap s" "[]" 0] by auto
  show "n = length (filter old (tm_order s))" "tm_order s' = filter (\<lambda>i. \<not> old i) (tm_order s)"
    "tm_heap s' = tm_heap s" "tm_place s' = tm_place s" "tm_cancelling s' = tm_cancelling s"
    using r t(1) f by (auto simp: cleanupOldTasks_def)
  have "tm_tasks s' = tasks'" using r t(1) by (auto simp: cleanupOldTasks_def)
  then show "map_of (tm_tasks s') = (\<lambda>i. if i \<in> set (tm_order s) \<and> old i then None else map_of (tm_tasks s) i)"
    using t(2) old by (auto simp: fun_eq_iff)
qed

lemma table_inv_cleanup:
  assumes inv: "table_inv s"
  shows "table_inv (snd (cleanupOldTasks now age s))"
proof -
  obtain n s' where r: "cleanupOldTasks now age s = (n, s')" by fastforce
  note c = cleanup_correct [OF inv r]
  have "set (tm_order s') = keys (tm_tasks s')"
    using inv c(2,3) by (auto simp: table_inv_def set_eq_iff simp flip: map_of_None_keys split: if_splits)
      (metis map_of_None_keys option.distinct(1))+
  then show ?thesis using inv c by (auto simp: r table_inv_def split: if_splits)
qed

lemma table_inv_step:
  assumes "tm_step s s'" "table_inv s"
  shows "table_inv s'"
  using assms
proof (cases rule: tm_step.cases)
  case (submit i ty p nul prio now msg)
  then show ?thesis using assms(2) table_inv_register [of s "new_task i ty p nul prio now msg"] by (simp add: new_task_def)
next
  case (cleanup now age)
  then show ?thesis using assms(2) table_inv_cleanup by blast
qed (use assms(2) in \<open>auto simp: tm_simps table_inv_def nth_list_update split: option.splits if_splits\<close>)

lemma table_inv_steps: "tm_steps s s' \<Longrightarrow> table_inv s \<Longrightarrow> table_inv s'"
  by (induction rule: rtranclp_induct) (auto intro: table_inv_step)

lemma cleanup_frame [simp]:
  "tm_heap (snd (cleanupOldTasks now age s)) = tm_heap s" "tm_place (snd (cleanupOldTasks now age s)) = tm_place s"
  "tm_cancelling (snd (cleanupOldTasks now age s)) = tm_cancelling s"
  "tm_submitted (snd (cleanupOldTasks now age s)) = tm_submitted s"
  "tm_completed (snd (cleanupOldTasks now age s)) = tm_completed s"
  by (simp_all add: cleanupOldTasks_def split: prod.split)

section \<open>A job that has ended leaves an inactive task\<close>

definition place_ok :: "job_place \<Rightarrow> 'j TaskInfo \<Rightarrow> bool" where
  "place_ok p t = (case p of
      Finished \<Rightarrow> \<not> active (ti_status t)
    | Closing None \<Rightarrow> \<not> active (ti_status t)
    | Closing (Some st) \<Rightarrow> st = Cancelled \<or> st = Completed
    | _ \<Rightarrow> True)"

definition place_inv :: "'j task_manager \<Rightarrow> bool" where
  "place_inv s \<longleftrightarrow> (\<forall>a < length (tm_heap s). place_ok (tm_place s ! a) (tm_heap s ! a))"

lemma place_ok_simps [simp]:
  "place_ok Registered t" "place_ok Announced t" "place_ok Posted t" "place_ok Checked t" "place_ok Executing t"
  "place_ok Returned t" "place_ok Finished t \<longleftrightarrow> \<not> active (ti_status t)"
  "place_ok (Closing None) t \<longleftrightarrow> \<not> active (ti_status t)"
  "place_ok (Closing (Some st)) t \<longleftrightarrow> st = Cancelled \<or> st = Completed"
  by (simp_all add: place_ok_def)

lemma place_ok_outcome: "place_ok (Closing (job_outcome t)) t"
  by (auto simp: job_outcome_def place_ok_def active_def)

lemma place_ok_inactive: "place_ok p t \<Longrightarrow> ti_status t' = ti_status t \<or> \<not> active (ti_status t') \<Longrightarrow> place_ok p t'"
  by (auto simp: place_ok_def split: job_place.splits option.splits)

lemma active_simps [simp]: "active Pending" "active Running" "\<not> active Completed" "\<not> active Failed" "\<not> active Cancelled"
  by (simp_all add: active_def)

lemma place_inv_step:
  assumes "tm_step s s'" "table_inv s" "place_inv s"
  shows "place_inv s'"
proof -
  have len: "length (tm_place s) = length (tm_heap s)" using assms(2) by (simp add: table_inv_def)
  have ok: "place_ok (tm_place s ! b) (tm_heap s ! b)" if "b < length (tm_heap s)" for b
    using assms(3) that by (simp add: place_inv_def)
  have keep: "place_ok (tm_place s ! b) t" if "b < length (tm_heap s)"
      "ti_status t = ti_status (tm_heap s ! b) \<or> \<not> active (ti_status t)" for b t
    using place_ok_inactive [OF ok] that by blast
  show ?thesis using assms(1)
  proof (cases rule: tm_step.cases)
    case (close a r now)
    then show ?thesis using ok ok [of a] len
      by (auto simp: tm_simps place_inv_def nth_list_update split: option.splits)
  next
    case (decide a)
    then show ?thesis using ok len by (auto simp: tm_simps place_inv_def nth_list_update place_ok_outcome)
  next
    case (submit i ty p nul prio now msg)
    then show ?thesis using ok len by (auto simp: tm_simps place_inv_def nth_append less_Suc_eq)
  next
    case (cancel i a)
    moreover have "a < length (tm_heap s)" using table_inv_address [OF assms(2)] cancel by blast
    ultimately show ?thesis using keep len by (auto simp: tm_simps place_inv_def nth_list_update)
  next
    case (cancel_end a now)
    moreover have "a < length (tm_heap s)" using assms(2) cancel_end by (simp add: table_inv_def)
    ultimately show ?thesis using keep len by (auto simp: tm_simps place_inv_def nth_list_update)
  qed (use keep len in \<open>auto simp: tm_simps place_inv_def nth_list_update\<close>)
qed

lemma place_inv_reachable:
  assumes "tm_steps TaskManager_new s"
  shows "place_inv s"
  using assms
proof (induction rule: rtranclp_induct)
  case base
  show ?case by (simp add: place_inv_def TaskManager_new_def)
next
  case (step s s')
  then show ?case using place_inv_step table_inv_steps [OF step.hyps(1) table_inv_new] by blast
qed

section \<open>What the counters count\<close>

lemma length_filter_update:
  assumes "a < length xs"
  shows "length (filter P (xs[a := x])) + of_bool (P (xs ! a)) = length (filter P xs) + of_bool (P x)"
  using assms
proof (induction xs arbitrary: a)
  case (Cons y ys)
  show ?case
  proof (cases a)
    case (Suc b)
    then show ?thesis using Cons.IH [of b] Cons.prems by (cases "P y") simp_all
  qed simp
qed simp

lemma length_filter_same:
  "a < length xs \<Longrightarrow> P (xs ! a) = P x \<Longrightarrow> length (filter P (xs[a := x])) = length (filter P xs)"
  using length_filter_update [of a xs P x] by simp

lemma length_filter_more:
  "a < length xs \<Longrightarrow> \<not> P (xs ! a) \<Longrightarrow> P x \<Longrightarrow> length (filter P (xs[a := x])) = Suc (length (filter P xs))"
  using length_filter_update [of a xs P x] by simp

definition count_inv :: "'j task_manager \<Rightarrow> bool" where
  "count_inv s \<longleftrightarrow> tm_submitted s = length (filter (\<lambda>p. p \<noteq> Registered) (tm_place s))
     \<and> tm_completed s \<le> length (filter (\<lambda>p. p = Finished) (tm_place s))"

lemma count_inv_step:
  assumes "tm_step s s'" "table_inv s" "count_inv s"
  shows "count_inv s'"
proof -
  have len: "length (tm_place s) = length (tm_heap s)" using assms(2) by (simp add: table_inv_def)
  show ?thesis using assms(1)
  proof (cases rule: tm_step.cases)
    case (submit i ty p nul prio now msg)
    then show ?thesis using assms(3) by (simp add: tm_simps count_inv_def)
  qed (use assms(3) len in \<open>auto simp: tm_simps count_inv_def length_filter_same length_filter_more split: option.splits\<close>)
qed

lemma count_inv_reachable:
  assumes "tm_steps TaskManager_new s"
  shows "count_inv s"
  using assms
proof (induction rule: rtranclp_induct)
  case base
  show ?case by (simp add: count_inv_def TaskManager_new_def)
next
  case (step s s')
  then show ?case using count_inv_step table_inv_steps [OF step.hyps(1) table_inv_new] by blast
qed

section \<open>Every task can be brought to its end\<close>

fun place_rank :: "job_place \<Rightarrow> nat" where
  "place_rank Registered = 7"
| "place_rank Announced = 6"
| "place_rank Posted = 5"
| "place_rank Checked = 4"
| "place_rank Executing = 3"
| "place_rank Returned = 2"
| "place_rank (Closing r) = 1"
| "place_rank Finished = 0"

definition quiet :: "'j task_manager \<Rightarrow> bool" where
  "quiet s \<longleftrightarrow> (\<forall>p \<in> set (tm_place s). p = Finished) \<and> tm_cancelling s = None"

lemma job_moves:
  assumes "a < length (tm_heap s)" "tm_place s ! a \<noteq> Finished"
  shows "\<exists>s' p. tm_step s s' \<and> tm_place s' = (tm_place s)[a := p] \<and> place_rank p < place_rank (tm_place s ! a)
    \<and> length (tm_heap s') = length (tm_heap s)"
proof (cases "tm_place s ! a")
  case Registered
  then show ?thesis using tm_step.announce [of a s] assms by (intro exI [of _ "announce a s"]) (auto simp: tm_simps)
next
  case Announced
  then show ?thesis using tm_step.post [of a s] assms by (intro exI [of _ "at_place a Posted s"]) (auto simp: tm_simps)
next
  case Posted
  show ?thesis
  proof (cases "ti_cancelRequested (tm_heap s ! a)")
    case True
    then show ?thesis using tm_step.check_cancelled [of a s 0] assms Posted
      by (intro exI [of _ "cancelled_before_start 0 a s"]) (auto simp: tm_simps)
  next
    case False
    then show ?thesis using tm_step.check [of a s] assms Posted
      by (intro exI [of _ "at_place a Checked s"]) (auto simp: tm_simps)
  qed
next
  case Checked
  then show ?thesis using tm_step.start [of a s False 0] assms
    by (intro exI [of _ "start_job False 0 a s"]) (auto simp: tm_simps)
next
  case Executing
  then show ?thesis using tm_step.return [of a s] assms by (intro exI [of _ "at_place a Returned s"]) (auto simp: tm_simps)
next
  case Returned
  then show ?thesis using tm_step.decide [of a s] assms
    by (intro exI [of _ "at_place a (Closing (job_outcome (tm_heap s ! a))) s"]) (auto simp: tm_simps)
next
  case (Closing r)
  then show ?thesis using tm_step.close [of a s r 0] assms
    by (intro exI [of _ "close_job 0 a r s"]) (auto simp: tm_simps split: option.split)
qed (use assms in simp)

lemma sum_rank_update: "a < length ps \<Longrightarrow> place_rank p < place_rank (ps ! a) \<Longrightarrow> sum_list (map place_rank (ps[a := p])) < sum_list (map place_rank ps)"
proof (induction ps arbitrary: a)
  case (Cons q ps)
  then show ?case by (cases a) auto
qed simp

lemma jobs_drain:
  assumes "table_inv s"
  shows "\<exists>s'. tm_steps s s' \<and> (\<forall>p \<in> set (tm_place s'). p = Finished) \<and> length (tm_heap s') = length (tm_heap s)"
  using assms
proof (induction "sum_list (map place_rank (tm_place s))" arbitrary: s rule: less_induct)
  case less
  show ?case
  proof (cases "\<forall>p \<in> set (tm_place s). p = Finished")
    case False
    have len: "length (tm_place s) = length (tm_heap s)" using less.prems by (simp add: table_inv_def)
    from False obtain a where a: "a < length (tm_heap s)" "tm_place s ! a \<noteq> Finished" using len by (auto simp: in_set_conv_nth)
    obtain s' p where s': "tm_step s s'" "tm_place s' = (tm_place s)[a := p]" "place_rank p < place_rank (tm_place s ! a)"
      "length (tm_heap s') = length (tm_heap s)" using job_moves [OF a] by blast
    have "sum_list (map place_rank (tm_place s')) < sum_list (map place_rank (tm_place s))"
      using sum_rank_update s'(2,3) a(1) len by metis
    from less.hyps [OF this table_inv_step [OF s'(1) less.prems]] s'(1,4) show ?thesis
      by (metis converse_rtranclp_into_rtranclp)
  qed auto
qed

lemma tasks_quiesce:
  assumes "table_inv s"
  shows "\<exists>s'. tm_steps s s' \<and> quiet s' \<and> length (tm_heap s') = length (tm_heap s)"
proof -
  obtain s' where s': "tm_steps s s'" "\<forall>p \<in> set (tm_place s'). p = Finished" "length (tm_heap s') = length (tm_heap s)"
    using jobs_drain [OF assms] by blast
  show ?thesis
  proof (cases "tm_cancelling s'")
    case None
    then show ?thesis using s' by (auto simp: quiet_def)
  next
    case (Some a)
    then have "tm_step s' (finish_cancel 0 a s')" by (rule tm_step.cancel_end)
    moreover have "quiet (finish_cancel 0 a s')" using s'(2) by (simp add: quiet_def tm_simps)
    moreover have "length (tm_heap (finish_cancel 0 a s')) = length (tm_heap s)" using s'(3) by (simp add: tm_simps)
    ultimately show ?thesis using s'(1) by (meson rtranclp.rtrancl_into_rtrancl)
  qed
qed

lemma quiet_no_active:
  assumes "table_inv s" "place_inv s" "quiet s"
  shows "listActiveTasks s = []"
proof -
  have "\<not> active (ti_status (tm_heap s ! a))" if "map_of (tm_tasks s) i = Some a" for i a
  proof -
    have "a < length (tm_heap s)" "length (tm_place s) = length (tm_heap s)" using assms(1) that by (auto simp: table_inv_def)
    moreover from this have "tm_place s ! a = Finished" using assms(3) by (simp add: quiet_def)
    ultimately show ?thesis using assms(2) by (metis place_inv_def place_ok_simps(7))
  qed
  then show ?thesis
    by (auto simp: listActiveTasks_def listTasks_def filter_empty_conv getTask_def List.map_filter_def active_def)
qed

lemma quiet_counts:
  assumes "table_inv s" "count_inv s" "quiet s"
  shows "tm_submitted s = length (tm_heap s) \<and> tm_completed s \<le> tm_submitted s"
proof -
  have "filter (\<lambda>p. p \<noteq> Registered) (tm_place s) = tm_place s"
    using assms(3) by (auto simp: quiet_def filter_id_conv)
  then show ?thesis using assms(1,2) length_filter_le [of "\<lambda>p. p = Finished" "tm_place s"]
    unfolding count_inv_def table_inv_def by (metis le_trans)
qed


lemma submit_one: "tm_steps TaskManager_new (register (new_task ''id'' ''expose'' () () 0 0 []) TaskManager_new)"
  by (intro r_into_rtranclp tm_step.submit) (simp_all add: TaskManager_new_def)


section \<open>A task cancelled before its start does not start\<close>

definition waiting :: "job_place \<Rightarrow> bool" where
  "waiting p \<longleftrightarrow> p = Registered \<or> p = Announced \<or> p = Posted"

lemma nth_update_if: "xs[a := x] ! b = (if a = b \<and> a < length xs then x else xs ! b)"
  by (cases "a < length xs") (simp_all add: nth_list_update list_update_beyond)

definition never_started :: "nat \<Rightarrow> 'j task_manager \<Rightarrow> bool" where
  "never_started a s \<longleftrightarrow> a < length (tm_heap s) \<and> ti_cancelRequested (tm_heap s ! a)
     \<and> (waiting (tm_place s ! a)
        \<or> tm_place s ! a = Finished \<and> (ti_status (tm_heap s ! a) = Cancelled \<or> ti_status (tm_heap s ! a) = Failed))"

lemma never_started_step:
  assumes "tm_step s s'" "table_inv s" "never_started a s"
  shows "never_started a s'"
proof -
  have "length (tm_place s) = length (tm_heap s)" using assms(2) by (simp add: table_inv_def)
  with assms(1,3) show ?thesis
    by (cases rule: tm_step.cases)
      (auto simp: tm_simps never_started_def waiting_def nth_update_if nth_append split: option.splits)
qed

text \<open>
  C34: Once a task is asked to cancel while its job has not begun, its runner is never called, whatever happens next: in
  every later state the job is still waiting, or it has ended and the task counts as cancelled or failed; in particular it is
  never executing or closing as a completed one.
\<close>

theorem cancelled_never_starts:
  assumes "tm_steps TaskManager_new s" and "a < length (tm_heap s)" and "waiting (tm_place s ! a)"
    and "ti_cancelRequested (tm_heap s ! a)" and "tm_steps s s'"
  shows "waiting (tm_place s' ! a)
    \<or> tm_place s' ! a = Finished \<and> (ti_status (tm_heap s' ! a) = Cancelled \<or> ti_status (tm_heap s' ! a) = Failed)"
proof -
  have "never_started a s'" using assms(5)
  proof (induction rule: rtranclp_induct)
    case base
    show ?case using assms by (simp add: never_started_def)
  next
    case (step x y)
    have "tm_steps TaskManager_new x" using assms(1) step.hyps(1) by (rule rtranclp_trans)
    then show ?case using never_started_step step table_inv_steps table_inv_new by blast
  qed
  then show ?thesis by (auto simp: never_started_def)
qed

theorem cancelled_never_starts_witness:
  "let s = request_cancel 0 (register (new_task ''id'' ''expose'' () () 0 0 []) TaskManager_new) in
     \<forall>s'. tm_steps s s' \<longrightarrow> tm_place s' ! 0 \<noteq> Executing"
proof -
  have c: "tm_steps TaskManager_new (request_cancel 0 (register (new_task ''id'' ''expose'' () () 0 0 []) TaskManager_new))"
    by (rule rtranclp.rtrancl_into_rtrancl [OF submit_one tm_step.cancel [of _ "''id''"]])
      (simp_all add: register_def TaskManager_new_def new_task_def)
  show ?thesis
    using cancelled_never_starts [OF c, of 0]
    by (fastforce simp: tm_simps TaskManager_new_def waiting_def)
qed

text \<open>
  The counters of cancellations: a task cancelled while pending is counted by the request and counted again by its job.
\<close>

lemma cancel_counts_twice:
  assumes "ti_status (tm_heap s ! a) = Pending" "a < length (tm_heap s)"
  shows "tm_cancelled (cancelled_before_start n a (finish_cancel m a (request_cancel a s))) = tm_cancelled s + 2"
  using assms by (simp add: tm_simps)

section \<open>Listing and cleanup\<close>

lemma listAllLoop_skip:
  "skipped \<le> offset \<Longrightarrow> listAllLoop limit offset s is skipped n acc = listAllLoop limit offset s (drop (offset - skipped) is) offset n acc"
proof (induction "is" arbitrary: skipped)
  case (Cons i js)
  then show ?case by (cases "offset - skipped") (auto simp: diff_Suc split: nat.splits)
qed simp

lemma listAllLoop_take:
  assumes "set is \<subseteq> keys (tm_tasks s)" "limit = 0 \<or> n < limit"
  shows "listAllLoop limit offset s is offset n acc
    = acc @ map (\<lambda>i. the (getTask i s)) (if limit = 0 then is else take (limit - n) is)"
  using assms
proof (induction "is" arbitrary: n acc)
  case (Cons i js)
  obtain t where t: "getTask i s = Some t" using Cons.prems(1) by (auto simp: getTask_def elim: keysE)
  then show ?case using Cons.IH [of "Suc n" "acc @ [t]"] Cons.prems
    by (cases "limit - n") (auto simp: Let_def diff_Suc split: nat.splits)
qed simp

text \<open>
  A page of the task list is the page its caller asked for: newest task first, the given number skipped, at most the given
  number returned, zero meaning all. Cleaning up removes exactly the tasks that have ended and were last
  updated more than the given number of seconds ago, returns their number, and keeps the rest in order.
\<close>

lemma task_listing:
  assumes "tm_steps TaskManager_new s"
  shows "listAllTasks limit offset s
      = (let page = drop offset (map (\<lambda>i. the (getTask i s)) (rev (tm_order s))) in if limit = 0 then page else take limit page)
    \<and> (let old = (\<lambda>i. old_task now age (the (getTask i s))); r = cleanupOldTasks now age s
       in fst r = length (filter old (tm_order s)) \<and> tm_order (snd r) = filter (\<lambda>i. \<not> old i) (tm_order s)
        \<and> (\<forall>i. getTask i (snd r) = (if i \<in> set (tm_order s) \<and> old i then None else getTask i s)))"
proof -
  have inv: "table_inv s" using table_inv_steps [OF assms table_inv_new] .
  obtain n s' where r: "cleanupOldTasks now age s = (n, s')" by fastforce
  note c = cleanup_correct [OF inv r]
  have "set (drop offset (rev (tm_order s))) \<subseteq> keys (tm_tasks s)"
    using inv set_drop_subset [of offset "rev (tm_order s)"] by (auto simp: table_inv_def)
  then have "listAllTasks limit offset s = map (\<lambda>i. the (getTask i s))
      (if limit = 0 then drop offset (rev (tm_order s)) else take limit (drop offset (rev (tm_order s))))"
    using listAllLoop_skip [of 0 offset limit s "rev (tm_order s)" 0 "[]"]
      listAllLoop_take [of "drop offset (rev (tm_order s))" s limit 0 offset "[]"] by (cases limit) (simp_all add: listAllTasks_def)
  moreover have "getTask i s' = (if i \<in> set (tm_order s) \<and> old_task now age (the (getTask i s)) then None else getTask i s)" for i
    using c(3,4) by (simp add: getTask_def)
  ultimately show ?thesis using c(1,2) by (simp add: r Let_def drop_map take_map rev_map)
qed

lemma task_listing_witness:
  "length (listAllTasks 0 0 (register (new_task ''id'' ''expose'' () () 0 0 []) TaskManager_new)) = 1
   \<and> fst (cleanupOldTasks (5000000000) 3 (register (new_task ''id'' ''expose'' () () 0 0 []) TaskManager_new)) = 0"
  using task_listing [OF submit_one, of 0 0 5000000000 3]
  by (simp add: Let_def register_def TaskManager_new_def old_task_def getTask_def new_task_def)

section \<open>Periodic tasks\<close>

text \<open>
  A periodic task is a chain of jobs: \<^verbatim>\<open>runPeriodicTask\<close> looks the task up, tests its flag and posts a job; the job tests the flag
  again, calls the runner and calls \<^verbatim>\<open>runPeriodicTask\<close>. \<open>pt_starts\<close> counts the calls of the runner.
\<close>

datatype stage = Looking_up | Found | Queued | Firing | Calling | Stopped

record periodic =
  pt_id :: "string list"
  pt_table :: "nat umap"
  pt_cancelled :: "bool list"
  pt_stage :: "stage list"
  pt_starts :: "nat list"

definition periodic_new :: periodic where
  "periodic_new = \<lparr>pt_id = [], pt_table = [], pt_cancelled = [], pt_stage = [], pt_starts = []\<rparr>"

definition to_stage :: "nat \<Rightarrow> stage \<Rightarrow> periodic \<Rightarrow> periodic" where
  "to_stage a g s = s\<lparr>pt_stage := (pt_stage s)[a := g]\<rparr>"

definition schedulePeriodicTask :: "string \<Rightarrow> periodic \<Rightarrow> periodic" where
  "schedulePeriodicTask i s = s\<lparr>pt_id := pt_id s @ [i], pt_table := AList.update i (length (pt_cancelled s)) (pt_table s),
     pt_cancelled := pt_cancelled s @ [False], pt_stage := pt_stage s @ [Looking_up], pt_starts := pt_starts s @ [0]\<rparr>"

definition cancelPeriodicTask :: "string \<Rightarrow> periodic \<Rightarrow> bool \<times> periodic" where
  "cancelPeriodicTask i s = (case map_of (pt_table s) i of
      None \<Rightarrow> (False, s)
    | Some a \<Rightarrow> (True, s\<lparr>pt_cancelled := (pt_cancelled s)[a := True], pt_table := AList.delete i (pt_table s)\<rparr>))"

definition lookup_periodic :: "nat \<Rightarrow> periodic \<Rightarrow> periodic" where
  "lookup_periodic a s = to_stage a (if map_of (pt_table s) (pt_id s ! a) = None then Stopped else Found) s"

definition post_periodic :: "bool \<Rightarrow> nat \<Rightarrow> periodic \<Rightarrow> periodic" where
  "post_periodic loop_alive a s = to_stage a (if pt_cancelled s ! a then Stopped else if \<not> loop_alive then Stopped else Queued) s"

definition fire_periodic :: "nat \<Rightarrow> periodic \<Rightarrow> periodic" where
  "fire_periodic a s = to_stage a (if pt_cancelled s ! a then Stopped else Firing) s"

definition call_periodic :: "nat \<Rightarrow> periodic \<Rightarrow> periodic" where
  "call_periodic a s = to_stage a Calling (s\<lparr>pt_starts := (pt_starts s)[a := pt_starts s ! a + 1]\<rparr>)"

inductive pt_step :: "periodic \<Rightarrow> periodic \<Rightarrow> bool" where
  schedule: "i \<notin> set (pt_id s) \<Longrightarrow> pt_step s (schedulePeriodicTask i s)"
| lookup: "a < length (pt_stage s) \<Longrightarrow> pt_stage s ! a = Looking_up \<Longrightarrow> pt_step s (lookup_periodic a s)"
| post: "a < length (pt_stage s) \<Longrightarrow> pt_stage s ! a = Found \<Longrightarrow> pt_step s (post_periodic alive a s)"
| fire: "a < length (pt_stage s) \<Longrightarrow> pt_stage s ! a = Queued \<Longrightarrow> pt_step s (fire_periodic a s)"
| call: "a < length (pt_stage s) \<Longrightarrow> pt_stage s ! a = Firing \<Longrightarrow> pt_step s (call_periodic a s)"
| again: "a < length (pt_stage s) \<Longrightarrow> pt_stage s ! a = Calling \<Longrightarrow> pt_step s (to_stage a Looking_up s)"
| cancel: "pt_step s (snd (cancelPeriodicTask i s))"

lemmas pt_simps = to_stage_def schedulePeriodicTask_def cancelPeriodicTask_def lookup_periodic_def post_periodic_def
  fire_periodic_def call_periodic_def

definition pt_inv :: "periodic \<Rightarrow> bool" where
  "pt_inv s \<longleftrightarrow> length (pt_stage s) = length (pt_cancelled s) \<and> length (pt_starts s) = length (pt_cancelled s)
     \<and> (\<forall>i a. map_of (pt_table s) i = Some a \<longrightarrow> a < length (pt_cancelled s))"

lemma pt_inv_step: "pt_step s s' \<Longrightarrow> pt_inv s \<Longrightarrow> pt_inv s'"
  by (induction rule: pt_step.induct)
    (auto simp: pt_simps pt_inv_def update_conv' delete_conv' less_Suc_eq split: option.splits if_splits)

text \<open>What a cancelled periodic task may still do: one call, if its job is past the test of the flag.\<close>

definition calls_left :: "nat \<Rightarrow> periodic \<Rightarrow> nat" where
  "calls_left a s = pt_starts s ! a + of_bool (pt_stage s ! a = Firing)"

lemma calls_left_step:
  assumes "pt_step s s'" "pt_inv s" "a < length (pt_cancelled s)" "pt_cancelled s ! a"
  shows "a < length (pt_cancelled s') \<and> pt_cancelled s' ! a \<and> calls_left a s' \<le> calls_left a s"
  using assms
  by (induction rule: pt_step.induct)
    (auto simp: pt_simps pt_inv_def calls_left_def nth_update_if nth_append split: option.splits)

lemma cancelled_periodic_ends:
  assumes "pt_step\<^sup>*\<^sup>* s s'" "pt_inv s" "a < length (pt_cancelled s)" "pt_cancelled s ! a"
  shows "calls_left a s' \<le> calls_left a s"
proof -
  have "pt_inv s' \<and> a < length (pt_cancelled s') \<and> pt_cancelled s' ! a \<and> calls_left a s' \<le> calls_left a s"
    using assms(1)
  proof (induction rule: rtranclp_induct)
    case base
    show ?case using assms by simp
  next
    case (step x y)
    then show ?case using calls_left_step [of x y a] pt_inv_step by force
  qed
  then show ?thesis by simp
qed

lemma pt_inv_reachable: "pt_step\<^sup>*\<^sup>* periodic_new s \<Longrightarrow> pt_inv s"
proof (induction rule: rtranclp_induct)
  case base
  show ?case by (simp add: pt_inv_def periodic_new_def)
qed (rule pt_inv_step)

text \<open>
  After a periodic task has been cancelled its runner is called at most once more, and only when its job had already tested
  the flag; the identifier is gone from the table, so a second cancellation reports failure.
\<close>

lemma periodic_cancel_final:
  assumes "pt_step\<^sup>*\<^sup>* periodic_new s" and "map_of (pt_table s) i = Some a"
    and "cancelPeriodicTask i s = (ok, t)" and "pt_step\<^sup>*\<^sup>* t s'"
  shows "ok \<and> pt_starts s' ! a \<le> pt_starts s ! a + of_bool (pt_stage s ! a = Firing) \<and> \<not> fst (cancelPeriodicTask i t)"
proof -
  have inv: "pt_inv s" using assms(1) by (rule pt_inv_reachable)
  have t: "t = snd (cancelPeriodicTask i s)" using assms(3) by simp
  have "pt_inv t" unfolding t by (rule pt_inv_step [OF pt_step.cancel inv])
  moreover have "a < length (pt_cancelled s)" using inv assms(2) by (auto simp: pt_inv_def)
  ultimately have "calls_left a s' \<le> calls_left a t"
    using cancelled_periodic_ends [OF assms(4), of a] assms(2) by (simp add: t cancelPeriodicTask_def)
  moreover have "calls_left a t = pt_starts s ! a + of_bool (pt_stage s ! a = Firing)"
    using assms(2) by (simp add: t cancelPeriodicTask_def calls_left_def)
  moreover have "\<not> fst (cancelPeriodicTask i t)" using assms(2) by (simp add: t cancelPeriodicTask_def delete_conv')
  ultimately show ?thesis using assms(2,3) by (auto simp: calls_left_def cancelPeriodicTask_def)
qed

lemma periodic_cancel_final_witness:
  "pt_starts (snd (cancelPeriodicTask ''id'' (schedulePeriodicTask ''id'' periodic_new))) ! 0 \<le> 0"
proof -
  have "pt_step\<^sup>*\<^sup>* periodic_new (schedulePeriodicTask ''id'' periodic_new)"
    by (intro r_into_rtranclp pt_step.schedule) (simp add: periodic_new_def)
  from periodic_cancel_final [OF this, of "''id''" 0 True] show ?thesis
    by (simp add: schedulePeriodicTask_def periodic_new_def cancelPeriodicTask_def)
qed

end
