(* ===== verification/Event_Loop.thy ===== *)
theory Event_Loop
  imports Lithium_Prelude "HOL-Library.Word"
begin

text \<open>
  The event loop of the server, \<^verbatim>\<open>src/src/server/eventloop.cpp\<close>, in the configuration the build files select (no
  \<^verbatim>\<open>USE_ASIO\<close>). The functions that are posted are values of a type \<open>'f\<close>; calling one is recorded in \<open>el_ran\<close>, and what it
  does to the loop are further steps of a client. A priority queue is the list of its elements in no particular order: which of several
  greatest elements it yields first is left open. Time points are integers in milliseconds. Threads are a step relation
  \<open>el_step\<close> with one step for each critical section. The queue mutex is not recursive, so a thread that locks it twice keeps it
  for ever: \<open>el_stuck\<close>. Memory pooling, sleeping, wake-up descriptors and logging are left out.
\<close>

section \<open>Tasks and queues\<close>

datatype task_type = Normal | Delayed | Periodic | Cancelable

record 'f ev_task =
  et_function :: 'f
  et_priority :: int
  et_execution_time :: int
  et_task_id :: "32 word"
  et_is_active :: bool
  et_type :: task_type

definition make_task :: "'f \<Rightarrow> int \<Rightarrow> int \<Rightarrow> 32 word \<Rightarrow> 'f ev_task" where
  "make_task f prio time i = \<lparr>et_function = f, et_priority = prio, et_execution_time = time, et_task_id = i,
     et_is_active = True, et_type = Normal\<rparr>"

definition task_less :: "'f ev_task \<Rightarrow> 'f ev_task \<Rightarrow> bool" where
  "task_less t u = (if et_priority t \<noteq> et_priority u then et_priority t < et_priority u
     else et_execution_time t > et_execution_time u)"

type_synonym 'f pqueue = "'f ev_task list"

text \<open>The elements that may be at the top of a priority queue.\<close>

definition pq_tops :: "'f pqueue \<Rightarrow> 'f ev_task list" where
  "pq_tops q = filter (\<lambda>t. \<forall>u \<in> set q. \<not> task_less t u) q"

text \<open>The three queues of \<^verbatim>\<open>TaskQueue\<close>: positive, zero and negative priority.\<close>

definition queue_index :: "'f ev_task \<Rightarrow> nat" where
  "queue_index t = (if et_priority t > 0 then 0 else if et_priority t < 0 then 2 else 1)"

definition TaskQueue_push :: "'f ev_task \<Rightarrow> 'f pqueue list \<Rightarrow> 'f pqueue list" where
  "TaskQueue_push t qs = qs[queue_index t := qs ! queue_index t @ [t]]"

text \<open>The possible results of \<^verbatim>\<open>pop\<close>; none if it returns false.\<close>

fun TaskQueue_pop :: "'f pqueue list \<Rightarrow> ('f ev_task \<times> 'f pqueue list) list" where
  "TaskQueue_pop [] = []"
| "TaskQueue_pop (q # qs) =
     (if q \<noteq> [] then map (\<lambda>t. (t, remove1 t q # qs)) (pq_tops q)
      else map (\<lambda>(t, qs'). (t, q # qs')) (TaskQueue_pop qs))"

section \<open>The loop\<close>

text \<open>A worker has a task it has popped and not yet judged, tasks to execute, and pops left in its batch.\<close>

record 'f worker =
  wk_held :: "'f ev_task option"
  wk_local :: "'f ev_task list"
  wk_pops :: nat

record 'f event_loop =
  el_queue :: "'f pqueue list"
  el_legacy :: "'f pqueue"
  el_stop :: bool
  el_workers :: "'f worker list"
  el_subscribers :: "'f list umap"
  el_signal_handlers :: "(int \<times> 'f) list"
  el_next_id :: "32 word"
  el_stuck :: bool
  el_ran :: "'f list"

definition batch_size :: nat where
  "batch_size = 16"

definition new_worker :: "'f worker" where
  "new_worker = \<lparr>wk_held = None, wk_local = [], wk_pops = batch_size\<rparr>"

definition EventLoop_new :: "nat \<Rightarrow> 'f event_loop" where
  "EventLoop_new thread_count = \<lparr>el_queue = [[], [], []], el_legacy = [], el_stop = False,
     el_workers = replicate thread_count new_worker, el_subscribers = [], el_signal_handlers = [],
     el_next_id = 0, el_stuck = False, el_ran = []\<rparr>"

definition add_legacy :: "'f \<Rightarrow> int \<Rightarrow> int \<Rightarrow> 'f event_loop \<Rightarrow> 'f event_loop" where
  "add_legacy f prio time l = l\<lparr>el_legacy := el_legacy l @ [make_task f prio time (el_next_id l)], el_next_id := el_next_id l + 1\<rparr>"

definition EventLoop_post :: "int \<Rightarrow> int \<Rightarrow> 'f \<Rightarrow> 'f event_loop \<Rightarrow> 'f event_loop" where
  "EventLoop_post now prio f = add_legacy f prio now"

definition EventLoop_postDelayed :: "int \<Rightarrow> int \<Rightarrow> int \<Rightarrow> 'f \<Rightarrow> 'f event_loop \<Rightarrow> 'f event_loop" where
  "EventLoop_postDelayed now delay prio f = add_legacy f prio (now + delay)"

definition EventLoop_postCancelable :: "int \<Rightarrow> 'f \<Rightarrow> 'f event_loop \<Rightarrow> 'f event_loop" where
  "EventLoop_postCancelable now f = add_legacy f 0 now"

definition schedulePeriodic :: "int \<Rightarrow> int \<Rightarrow> 'f \<Rightarrow> 'f event_loop \<Rightarrow> 'f event_loop" where
  "schedulePeriodic now prio wrapper = EventLoop_post now prio wrapper"

definition setTimeout :: "int \<Rightarrow> int \<Rightarrow> 'f \<Rightarrow> 'f event_loop \<Rightarrow> 'f event_loop" where
  "setTimeout now delay f = EventLoop_postDelayed now delay 0 f"

definition setInterval :: "int \<Rightarrow> 'f \<Rightarrow> 'f event_loop \<Rightarrow> 'f event_loop" where
  "setInterval now wrapper = schedulePeriodic now 0 wrapper"

definition adjustTaskPriority :: "32 word \<Rightarrow> int \<Rightarrow> 'f event_loop \<Rightarrow> bool \<times> 'f event_loop" where
  "adjustTaskPriority task_id new_priority l =
     (\<exists>t \<in> set (el_legacy l). et_task_id t = task_id,
      l\<lparr>el_legacy := map (\<lambda>t. if et_task_id t = task_id then t\<lparr>et_priority := new_priority\<rparr> else t) (el_legacy l)\<rparr>)"

definition subscribeEvent :: "string \<Rightarrow> 'f \<Rightarrow> 'f event_loop \<Rightarrow> 'f event_loop" where
  "subscribeEvent event_name callback l =
     l\<lparr>el_subscribers := AList.update event_name (lookup_or [] (el_subscribers l) event_name @ [callback]) (el_subscribers l)\<rparr>"

text \<open>With a subscriber, \<^verbatim>\<open>emitEvent\<close> calls \<^verbatim>\<open>post\<close> while it holds the mutex that \<^verbatim>\<open>post\<close> locks.\<close>

definition emitEvent :: "string \<Rightarrow> 'f event_loop \<Rightarrow> 'f event_loop" where
  "emitEvent event_name l = (if lookup_or [] (el_subscribers l) event_name \<noteq> [] then l\<lparr>el_stuck := True\<rparr> else l)"

definition addSignalHandler :: "int \<Rightarrow> 'f \<Rightarrow> 'f event_loop \<Rightarrow> 'f event_loop" where
  "addSignalHandler signal_number handler l =
     l\<lparr>el_signal_handlers := AList.update signal_number handler (el_signal_handlers l)\<rparr>"

definition handleSignal :: "int \<Rightarrow> int \<Rightarrow> 'f event_loop \<Rightarrow> 'f event_loop" where
  "handleSignal now signal_value l =
     (case map_of (el_signal_handlers l) signal_value of None \<Rightarrow> l | Some handler \<Rightarrow> EventLoop_post now 0 handler l)"

definition EventLoop_stop :: "'f event_loop \<Rightarrow> 'f event_loop" where
  "EventLoop_stop l = l\<lparr>el_stop := True\<rparr>"

text \<open>\<^verbatim>\<open>run\<close> clears the flag and makes the calling thread a worker.\<close>

definition EventLoop_run :: "'f event_loop \<Rightarrow> 'f event_loop" where
  "EventLoop_run l = l\<lparr>el_stop := False, el_workers := el_workers l @ [new_worker]\<rparr>"

section \<open>Workers\<close>

definition set_worker :: "nat \<Rightarrow> 'f worker \<Rightarrow> 'f event_loop \<Rightarrow> 'f event_loop" where
  "set_worker w x l = l\<lparr>el_workers := (el_workers l)[w := x]\<rparr>"

definition worker_pop :: "nat \<Rightarrow> 'f ev_task \<Rightarrow> 'f pqueue list \<Rightarrow> 'f event_loop \<Rightarrow> 'f event_loop" where
  "worker_pop w t qs l =
     (let x = el_workers l ! w in set_worker w (x\<lparr>wk_held := Some t, wk_pops := wk_pops x - 1\<rparr>) (l\<lparr>el_queue := qs\<rparr>))"

definition worker_judge :: "int \<Rightarrow> nat \<Rightarrow> 'f ev_task \<Rightarrow> 'f event_loop \<Rightarrow> 'f event_loop" where
  "worker_judge now w t l =
     (let x = el_workers l ! w
      in if et_execution_time t \<le> now \<and> et_is_active t
         then set_worker w (x\<lparr>wk_held := None, wk_local := wk_local x @ [t]\<rparr>) l
         else set_worker w (x\<lparr>wk_held := None\<rparr>) (l\<lparr>el_queue := TaskQueue_push t (el_queue l)\<rparr>))"

definition worker_end_batch :: "nat \<Rightarrow> 'f event_loop \<Rightarrow> 'f event_loop" where
  "worker_end_batch w l = set_worker w ((el_workers l ! w)\<lparr>wk_pops := 0\<rparr>) l"

definition worker_execute :: "nat \<Rightarrow> 'f event_loop \<Rightarrow> 'f event_loop" where
  "worker_execute w l =
     (let x = el_workers l ! w
      in case wk_local x of
           [] \<Rightarrow> l
         | t # rest \<Rightarrow>
           (let l = set_worker w (x\<lparr>wk_local := rest\<rparr>) (if et_is_active t then l\<lparr>el_ran := el_ran l @ [et_function t]\<rparr> else l)
            in if et_type t = Periodic
               then l\<lparr>el_queue := TaskQueue_push (t\<lparr>et_execution_time := et_execution_time t + 100\<rparr>) (el_queue l)\<rparr>
               else l))"

definition worker_again :: "nat \<Rightarrow> 'f event_loop \<Rightarrow> 'f event_loop" where
  "worker_again w l = set_worker w ((el_workers l ! w)\<lparr>wk_pops := batch_size\<rparr>) l"

text \<open>
  The steps of clients need the queue mutex, those of the workers do not. A worker pops while its batch lasts, then executes what it has
  collected, then looks at the stop flag.
\<close>

inductive el_step :: "'f event_loop \<Rightarrow> 'f event_loop \<Rightarrow> bool" where
  post: "\<not> el_stuck l \<Longrightarrow> el_step l (EventLoop_post now prio f l)"
| delayed: "\<not> el_stuck l \<Longrightarrow> el_step l (EventLoop_postDelayed now delay prio f l)"
| cancelable: "\<not> el_stuck l \<Longrightarrow> el_step l (EventLoop_postCancelable now f l)"
| schedule: "\<not> el_stuck l \<Longrightarrow> el_step l (schedulePeriodic now prio f l)"
| timeout: "\<not> el_stuck l \<Longrightarrow> el_step l (setTimeout now delay f l)"
| interval: "\<not> el_stuck l \<Longrightarrow> el_step l (setInterval now f l)"
| adjust: "\<not> el_stuck l \<Longrightarrow> el_step l (snd (adjustTaskPriority i prio l))"
| subscribe: "\<not> el_stuck l \<Longrightarrow> el_step l (subscribeEvent e f l)"
| emit: "\<not> el_stuck l \<Longrightarrow> el_step l (emitEvent e l)"
| handler: "\<not> el_stuck l \<Longrightarrow> el_step l (addSignalHandler n f l)"
| signal: "\<not> el_stuck l \<Longrightarrow> w < length (el_workers l) \<Longrightarrow> el_step l (handleSignal now n l)"
| stop: "el_step l (EventLoop_stop l)"
| run: "el_step l (EventLoop_run l)"
| pop: "w < length (el_workers l) \<Longrightarrow> wk_held (el_workers l ! w) = None \<Longrightarrow> wk_pops (el_workers l ! w) > 0
    \<Longrightarrow> (t, qs) \<in> set (TaskQueue_pop (el_queue l)) \<Longrightarrow> el_step l (worker_pop w t qs l)"
| judge: "w < length (el_workers l) \<Longrightarrow> wk_held (el_workers l ! w) = Some t \<Longrightarrow> el_step l (worker_judge now w t l)"
| end_batch: "w < length (el_workers l) \<Longrightarrow> wk_held (el_workers l ! w) = None \<Longrightarrow> TaskQueue_pop (el_queue l) = []
    \<Longrightarrow> el_step l (worker_end_batch w l)"
| execute: "w < length (el_workers l) \<Longrightarrow> wk_held (el_workers l ! w) = None \<Longrightarrow> wk_pops (el_workers l ! w) = 0
    \<Longrightarrow> wk_local (el_workers l ! w) \<noteq> [] \<Longrightarrow> el_step l (worker_execute w l)"
| again: "w < length (el_workers l) \<Longrightarrow> wk_held (el_workers l ! w) = None \<Longrightarrow> wk_pops (el_workers l ! w) = 0
    \<Longrightarrow> wk_local (el_workers l ! w) = [] \<Longrightarrow> \<not> el_stop l \<Longrightarrow> el_step l (worker_again w l)"

abbreviation el_steps :: "'f event_loop \<Rightarrow> 'f event_loop \<Rightarrow> bool" where
  "el_steps \<equiv> el_step\<^sup>*\<^sup>*"

lemmas el_simps = add_legacy_def EventLoop_post_def EventLoop_postDelayed_def EventLoop_postCancelable_def schedulePeriodic_def
  setTimeout_def setInterval_def adjustTaskPriority_def subscribeEvent_def emitEvent_def addSignalHandler_def handleSignal_def
  EventLoop_stop_def EventLoop_run_def set_worker_def worker_pop_def worker_judge_def worker_end_batch_def worker_execute_def
  worker_again_def make_task_def

section \<open>The queue\<close>

text \<open>A queue that is not empty has a top, and popping yields a task of the best class that nothing in its class precedes.\<close>

lemma task_less_trans: "task_less t u \<Longrightarrow> task_less u v \<Longrightarrow> task_less t v"
  by (auto simp: task_less_def split: if_splits)

lemma task_less_irrefl: "\<not> task_less t t"
  by (simp add: task_less_def)

lemma pq_tops_nonempty: "q \<noteq> [] \<Longrightarrow> pq_tops q \<noteq> []"
proof -
  assume "q \<noteq> []"
  then have "\<exists>t \<in> set q. \<forall>u \<in> set q. \<not> task_less t u"
  proof (induction q rule: list_nonempty_induct)
    case (single x)
    then show ?case by (simp add: task_less_irrefl)
  next
    case (cons x xs)
    then obtain t where t: "t \<in> set xs" "\<forall>u \<in> set xs. \<not> task_less t u" by blast
    show ?case
    proof (cases "task_less t x")
      case True
      then have "\<forall>u \<in> set xs. \<not> task_less x u" using t(2) task_less_trans by blast
      then show ?thesis by (auto simp: task_less_irrefl)
    next
      case False
      then show ?thesis using t by auto
    qed
  qed
  then show ?thesis by (auto simp: pq_tops_def filter_empty_conv)
qed

lemma TaskQueue_pop_empty: "TaskQueue_pop qs = [] \<longleftrightarrow> concat qs = []"
  by (induction qs) (auto simp: pq_tops_nonempty)

section \<open>The workers get nothing\<close>

definition idle :: "'f event_loop \<Rightarrow> bool" where
  "idle l \<longleftrightarrow> concat (el_queue l) = [] \<and> (\<forall>x \<in> set (el_workers l). wk_held x = None \<and> wk_local x = []) \<and> el_ran l = []"

lemma idle_step:
  assumes "el_step l l'" "idle l"
  shows "idle l'"
proof -
  have none: "wk_held (el_workers l ! w) = None \<and> wk_local (el_workers l ! w) = []" if "w < length (el_workers l)" for w
    using assms(2) that by (simp add: idle_def)
  show ?thesis using assms(1)
  proof (cases rule: el_step.cases)
    case (pop w t qs)
    then show ?thesis using assms(2) TaskQueue_pop_empty [of "el_queue l"] by (simp add: idle_def)
  next
    case (judge w t now)
    then show ?thesis using none by fastforce
  next
    case (execute w)
    then show ?thesis using none by fastforce
  qed (use assms(2) none in \<open>auto simp: idle_def el_simps new_worker_def Let_def dest!: set_update_subset_insert [THEN subsetD]
        split: option.splits\<close>)
qed

lemma idle_new: "idle (EventLoop_new n)"
  by (auto simp: idle_def EventLoop_new_def new_worker_def)

lemma idle_steps: "el_steps l l' \<Longrightarrow> idle l \<Longrightarrow> idle l'"
  by (induction rule: rtranclp_induct) (auto intro: idle_step)

text \<open>Identifiers count what was posted, as long as they do not wrap around they are distinct.\<close>

definition ids_inv :: "'f event_loop \<Rightarrow> bool" where
  "ids_inv l \<longleftrightarrow> el_next_id l = of_nat (length (el_legacy l))
     \<and> map et_task_id (el_legacy l) = map of_nat [0..<length (el_legacy l)]"

lemma ids_inv_add: "ids_inv l \<Longrightarrow> ids_inv (add_legacy f prio time l)"
  by (simp add: ids_inv_def add_legacy_def make_task_def add.commute)

lemma adjust_ids:
  "map et_task_id (el_legacy (snd (adjustTaskPriority i prio l))) = map et_task_id (el_legacy l)"
  "length (el_legacy (snd (adjustTaskPriority i prio l))) = length (el_legacy l)"
  "el_next_id (snd (adjustTaskPriority i prio l)) = el_next_id l"
  by (simp_all add: adjustTaskPriority_def)

lemma ids_inv_step:
  assumes "el_step l l'" "ids_inv l"
  shows "ids_inv l'"
  using assms(1)
proof (cases rule: el_step.cases)
  case (adjust i prio)
  then show ?thesis using assms(2) adjust_ids [of i prio l] by (simp add: ids_inv_def del: map_eq_conv)
next
  case (signal w now n)
  then show ?thesis using assms(2) ids_inv_add by (auto simp: handleSignal_def EventLoop_post_def split: option.split)
qed (use assms(2) in \<open>auto simp: ids_inv_def el_simps Let_def add.commute split: list.splits\<close>)

text \<open>
  The event loop never calls a function that is posted to it: in every state any interleaving of clients and workers can reach, nothing
  has been called and the queues the workers read are empty, while the queue that clients write holds one entry for each call of
  post, delayed post, timeout or interval, with consecutive identifiers that wrap around at 32 bits.
\<close>

theorem event_loop_never_runs:
  assumes "el_steps (EventLoop_new n) l"
  shows "el_ran l = [] \<and> concat (el_queue l) = [] \<and> el_next_id l = of_nat (length (el_legacy l))
    \<and> map et_task_id (el_legacy l) = map of_nat [0..<length (el_legacy l)]"
proof -
  have "ids_inv l" using assms
    by (induction rule: rtranclp_induct) (auto intro: ids_inv_step, simp add: ids_inv_def EventLoop_new_def)
  then show ?thesis using idle_steps [OF assms idle_new] by (simp add: idle_def ids_inv_def)
qed

theorem event_loop_never_runs_witness:
  "el_ran (EventLoop_post 0 5 ''f'' (EventLoop_new 2)) = [] \<and> length (el_legacy (EventLoop_post 0 5 ''f'' (EventLoop_new 2))) = 1"
proof -
  have "el_steps (EventLoop_new 2) (EventLoop_post 0 5 ''f'' (EventLoop_new 2))"
    by (intro r_into_rtranclp el_step.post) (simp add: EventLoop_new_def)
  from event_loop_never_runs [OF this] show ?thesis by (simp add: el_simps EventLoop_new_def)
qed

text \<open>Once an event with a subscriber is emitted, nobody posts anything again.\<close>

lemma emit_blocks:
  assumes "lookup_or [] (el_subscribers l) e \<noteq> []" "el_steps (emitEvent e l) l'"
  shows "el_stuck l' \<and> el_legacy l' = el_legacy l"
  using assms(2)
proof (induction rule: rtranclp_induct)
  case base
  show ?case using assms(1) by (simp add: emitEvent_def)
next
  case (step x y)
  from step.hyps(2) show ?case using step.IH
    by (cases rule: el_step.cases) (auto simp: el_simps Let_def split: list.splits)
qed

text \<open>The order of the queues: the first class that has tasks, in it the highest priority, then the earliest time.\<close>

lemma TaskQueue_pop_best:
  assumes "(t, qs') \<in> set (TaskQueue_pop qs)"
  shows "\<exists>k < length qs. t \<in> set (qs ! k) \<and> (\<forall>j < k. qs ! j = []) \<and> (\<forall>u \<in> set (qs ! k). \<not> task_less t u)
    \<and> qs' = qs[k := remove1 t (qs ! k)]"
  using assms
proof (induction qs arbitrary: qs')
  case (Cons q qs)
  show ?case
  proof (cases "q = []")
    case True
    then obtain qs2 where q2: "(t, qs2) \<in> set (TaskQueue_pop qs)" "qs' = q # qs2" using Cons.prems by auto
    obtain k where k: "k < length qs" "t \<in> set (qs ! k)" "\<forall>j < k. qs ! j = []" "\<forall>u \<in> set (qs ! k). \<not> task_less t u"
      "qs2 = qs[k := remove1 t (qs ! k)]" using Cons.IH [OF q2(1)] by blast
    show ?thesis using k q2(2) True by (intro exI [of _ "Suc k"]) (auto simp: nth_Cons split: nat.split)
  next
    case False
    then show ?thesis using Cons.prems by (intro exI [of _ 0]) (auto simp: pq_tops_def)
  qed
qed simp

end
