(* ===== verification/Server_Jobs.thy ===== *)
theory Server_Jobs
  imports Task_Manager Event_Loop
begin

text \<open>
  The background tasks on the event loop: \<^verbatim>\<open>src/src/server/task_manager.cpp\<close> posts its jobs to
  \<^verbatim>\<open>src/src/server/eventloop.cpp\<close>, and a job begins when the loop calls it. The state is the pair of both components; \<open>Inl a\<close> is the job of
  task \<open>a\<close>, \<open>Inr\<close> any other function. The loop lives as long as the manager.
\<close>

type_synonym ('j, 'g) server = "'j task_manager \<times> (nat + 'g) event_loop"

text \<open>
  Steps of the manager that neither post a job nor begin one leave the loop alone; posting is a step of both; a job that
  waits begins only when the loop has called it.
\<close>

definition keeps_waiting :: "'j task_manager \<Rightarrow> 'j task_manager \<Rightarrow> bool" where
  "keeps_waiting s s' \<longleftrightarrow> (\<forall>a < length (tm_place s). tm_place s ! a = Announced \<or> tm_place s ! a = Posted \<longrightarrow> tm_place s' ! a = tm_place s ! a)"

inductive srv_step :: "('j, 'g) server \<Rightarrow> ('j, 'g) server \<Rightarrow> bool" where
  manager: "tm_step s s' \<Longrightarrow> keeps_waiting s s' \<Longrightarrow> srv_step (s, l) (s', l)"
| post: "a < length (tm_heap s) \<Longrightarrow> tm_place s ! a = Announced \<Longrightarrow> \<not> el_stuck l
    \<Longrightarrow> srv_step (s, l) (at_place a Posted s, EventLoop_post now (ti_priority (tm_heap s ! a)) (Inl a) l)"
| post_delayed: "a < length (tm_heap s) \<Longrightarrow> tm_place s ! a = Announced \<Longrightarrow> \<not> el_stuck l
    \<Longrightarrow> srv_step (s, l) (at_place a Posted s, EventLoop_postDelayed now delay (ti_priority (tm_heap s ! a)) (Inl a) l)"
| job_cancelled: "Inl a \<in> set (el_ran l) \<Longrightarrow> a < length (tm_heap s) \<Longrightarrow> tm_place s ! a = Posted \<Longrightarrow> ti_cancelRequested (tm_heap s ! a)
    \<Longrightarrow> srv_step (s, l) (cancelled_before_start now a s, l)"
| job: "Inl a \<in> set (el_ran l) \<Longrightarrow> a < length (tm_heap s) \<Longrightarrow> tm_place s ! a = Posted \<Longrightarrow> \<not> ti_cancelRequested (tm_heap s ! a)
    \<Longrightarrow> srv_step (s, l) (at_place a Checked s, l)"
| loop: "el_step l l' \<Longrightarrow> srv_step (s, l) (s, l')"

definition srv_inv :: "('j, 'g) server \<Rightarrow> bool" where
  "srv_inv x \<longleftrightarrow> idle (snd x) \<and> length (tm_place (fst x)) = length (tm_heap (fst x)) \<and> tm_completed (fst x) = 0
     \<and> (\<forall>a < length (tm_heap (fst x)). waiting (tm_place (fst x) ! a)
          \<and> ti_status (tm_heap (fst x) ! a) \<in> {Pending, Cancelled, Failed})"

lemma srv_inv_manager:
  assumes "tm_step s s'" "keeps_waiting s s'" "srv_inv (s, l)"
  shows "srv_inv (s', l)"
proof -
  have w: "waiting (tm_place s ! a)" if "a < length (tm_heap s)" for a using assms(3) that by (simp add: srv_inv_def)
  have len: "length (tm_place s) = length (tm_heap s)" using assms(3) by (simp add: srv_inv_def)
  show ?thesis using assms(1)
  proof (cases rule: tm_step.cases)
    case (submit i ty p nul prio now msg)
    then show ?thesis using assms(3) by (auto simp: srv_inv_def tm_simps nth_append less_Suc_eq waiting_def)
  next
    case (no_loop a)
    then show ?thesis using assms(2) len by (auto simp: keeps_waiting_def tm_simps nth_list_update)
  next
    case (post a)
    then show ?thesis using assms(2) len by (auto simp: keeps_waiting_def tm_simps nth_list_update)
  next
    case (check_cancelled a now)
    then show ?thesis using assms(2) len by (auto simp: keeps_waiting_def tm_simps nth_list_update)
  next
    case (check a)
    then show ?thesis using assms(2) len by (auto simp: keeps_waiting_def tm_simps nth_list_update)
  qed (use w assms(3) in \<open>force simp: srv_inv_def tm_simps nth_update_if waiting_def\<close>)+
qed

lemma srv_inv_step:
  assumes "srv_step x y" "srv_inv x"
  shows "srv_inv y"
  using assms
proof (induction rule: srv_step.induct)
  case (manager s s' l)
  then show ?case by (rule srv_inv_manager)
next
  case (post a s l now)
  then show ?case using idle_step [OF el_step.post, of l]
    by (auto simp: srv_inv_def at_place_def nth_list_update waiting_def)
next
  case (post_delayed a s l now delay)
  then show ?case using idle_step [OF el_step.delayed, of l]
    by (auto simp: srv_inv_def at_place_def nth_list_update waiting_def)
next
  case (loop l l' s)
  then show ?case using idle_step by (auto simp: srv_inv_def)
qed (auto simp: srv_inv_def idle_def)

text \<open>
  C32: On its event loop, no background task of the server ever runs: from a new manager and a new loop, in every interleaving of
  requests, workers and other users of the loop, each task is still waiting for its job, its status is pending, cancelled or
  failed and never running or completed, and the number of completed tasks is zero.
\<close>

theorem server_tasks_never_run:
  assumes "srv_step\<^sup>*\<^sup>* (TaskManager_new, EventLoop_new n) (s, l)" and "a < length (tm_heap s)"
  shows "waiting (tm_place s ! a) \<and> ti_status (tm_heap s ! a) \<in> {Pending, Cancelled, Failed} \<and> tm_completed s = 0"
proof -
  have "srv_inv (s, l)" using assms(1)
  proof (induction rule: rtranclp_induct)
    case base
    show ?case by (simp add: srv_inv_def TaskManager_new_def idle_new)
  next
    case (step x y)
    then show ?case using srv_inv_step by blast
  qed
  then show ?thesis using assms(2) by (simp add: srv_inv_def)
qed

theorem server_tasks_never_run_witness:
  "ti_status (tm_heap (register (new_task ''id'' ''expose'' () () 0 0 []) TaskManager_new) ! 0) \<in> {Pending, Cancelled, Failed}"
proof -
  let ?s = "register (new_task ''id'' ''expose'' () () 0 0 []) TaskManager_new"
  have "tm_step TaskManager_new ?s" by (rule tm_step.submit) (simp_all add: TaskManager_new_def)
  then have "srv_step\<^sup>*\<^sup>* (TaskManager_new, EventLoop_new 1 :: (nat + unit) event_loop) (?s, EventLoop_new 1)"
    by (intro r_into_rtranclp srv_step.manager) (simp_all add: keeps_waiting_def TaskManager_new_def)
  from server_tasks_never_run [OF this, of 0] show ?thesis by (simp add: register_def)
qed

end
