(* ===== verification/Json_Value.thy ===== *)
theory Json_Value
  imports Lithium_Prelude
begin

text \<open>
  JSON values as the configuration components handle them. An object is the list of its members in iteration order, which is the
  order of the keys. The values are those of the JSON format; what the components use of the library \<^verbatim>\<open>nlohmann::json\<close>
  beyond looking at a value is the parameter \<open>json_lib\<close>, together with \<^verbatim>\<open>std::regex\<close>. What they rely on is \<open>json_lib_ok\<close>,
  the documented behaviour: assigning through \<^verbatim>\<open>operator[]\<close> adds or replaces a member of an object, makes an object of
  null and throws on every other value, and a value that was moved from is null.
  Floating point numbers are real numbers, and strings are valid UTF-8.
\<close>

datatype json = JNull | JBool bool | JInt int | JFloat real | JString string | JArray "json list" | JObject "(string \<times> json) list"

record json_lib =
  jl_assign :: "string \<Rightarrow> json \<Rightarrow> json \<Rightarrow> json result"
  jl_moved :: json
  jl_equal :: "json \<Rightarrow> json \<Rightarrow> bool"
  jl_get_size :: "json \<Rightarrow> nat result"
  jl_get_double :: "json \<Rightarrow> real result"
  jl_get_string :: "json \<Rightarrow> string result"
  jl_type_name :: "json \<Rightarrow> string"
  jl_regex_match :: "string \<Rightarrow> string \<Rightarrow> bool option"

section \<open>Members\<close>

text \<open>\<^verbatim>\<open>contains\<close> followed by a read: absent on every value that is not an object.\<close>

definition jget :: "string \<Rightarrow> json \<Rightarrow> json option" where
  "jget k j = (case j of JObject m \<Rightarrow> map_of m k | _ \<Rightarrow> None)"

fun is_object :: "json \<Rightarrow> bool" where
  "is_object (JObject m) = True"
| "is_object _ = False"

fun is_array :: "json \<Rightarrow> bool" where
  "is_array (JArray xs) = True"
| "is_array _ = False"

fun is_string :: "json \<Rightarrow> bool" where
  "is_string (JString s) = True"
| "is_string _ = False"

fun is_number :: "json \<Rightarrow> bool" where
  "is_number (JInt i) = True"
| "is_number (JFloat x) = True"
| "is_number _ = False"

fun members :: "json \<Rightarrow> (string \<times> json) list" where
  "members (JObject m) = m"
| "members _ = []"

fun elements :: "json \<Rightarrow> json list" where
  "elements (JArray xs) = xs"
| "elements _ = []"

text \<open>The values a range-based loop visits.\<close>

fun iterate :: "json \<Rightarrow> json list" where
  "iterate JNull = []"
| "iterate (JArray xs) = xs"
| "iterate (JObject m) = map snd m"
| "iterate j = [j]"

text \<open>The assignment to a member of an ordered map: the value of a key is replaced, a new key is inserted in order.\<close>

fun obj_insert :: "string \<Rightarrow> json \<Rightarrow> (string \<times> json) list \<Rightarrow> (string \<times> json) list" where
  "obj_insert k v [] = [(k, v)]"
| "obj_insert k v ((k', v') # m) = (if k < k' then (k, v) # (k', v') # m else (k', v') # obj_insert k v m)"

definition obj_put :: "string \<Rightarrow> json \<Rightarrow> (string \<times> json) list \<Rightarrow> (string \<times> json) list" where
  "obj_put k v m = (if map_of m k = None then obj_insert k v m else AList.update k v m)"

definition json_lib_ok :: "json_lib \<Rightarrow> bool" where
  "json_lib_ok L \<longleftrightarrow>
     (\<forall>k v m. jl_assign L k v (JObject m) = Inr (JObject (obj_put k v m)))
     \<and> (\<forall>k v. jl_assign L k v JNull = Inr (JObject [(k, v)]))
     \<and> (\<forall>k v j. \<not> is_object j \<and> j \<noteq> JNull \<longrightarrow> (\<exists>e. jl_assign L k v j = Inl e))
     \<and> jl_moved L = JNull"

lemma map_of_obj_insert: "map_of m k = None \<Longrightarrow> map_of (obj_insert k v m) k' = (if k' = k then Some v else map_of m k')"
  by (induction k v m rule: obj_insert.induct) (auto split: if_splits)

lemma map_of_obj_put [simp]: "map_of (obj_put k v m) k' = (if k' = k then Some v else map_of m k')"
  by (simp add: obj_put_def map_of_obj_insert update_conv')

lemma update_same: "map_of m k = Some v \<Longrightarrow> AList.update k v m = m"
  by (induction m) auto

lemma obj_put_same: "map_of m k = Some v \<Longrightarrow> obj_put k v m = m"
  by (simp add: obj_put_def update_same)

lemma update_inserted: "map_of m k = None \<Longrightarrow> AList.update k w (obj_insert k v m) = obj_insert k w m"
  by (induction k v m rule: obj_insert.induct) (auto split: if_splits)

lemma update_again: "AList.update k w (AList.update k v m) = AList.update k w m"
  by (induction m) auto

lemma obj_put_again [simp]: "obj_put k w (obj_put k v m) = obj_put k w m"
proof -
  have "map_of (obj_put k v m) k \<noteq> None" by simp
  then have "obj_put k w (obj_put k v m) = AList.update k w (obj_put k v m)" unfolding obj_put_def [of k w "obj_put k v m"] by simp
  then show ?thesis by (simp add: obj_put_def update_inserted update_again)
qed

lemma map_of_delete_key [simp]: "map_of (AList.delete k m) k' = (if k' = k then None else map_of m k')"
  by (simp add: delete_conv')

lemma jget_simps [simp]:
  "jget k (JObject m) = map_of m k" "jget k JNull = None" "jget k (JBool b) = None" "jget k (JInt i) = None"
  "jget k (JFloat x) = None" "jget k (JString s) = None" "jget k (JArray xs) = None"
  by (simp_all add: jget_def)

lemma jget_object: "jget k j = Some v \<Longrightarrow> \<exists>m. j = JObject m \<and> map_of m k = Some v"
  by (cases j) auto

lemma size_member [termination_simp]: "(k, v) \<in> set m \<Longrightarrow> size v < Suc (size_list (size_prod f size) m)"
  by (induction m) auto

lemma size_element [termination_simp]: "v \<in> set xs \<Longrightarrow> size v < Suc (size_list size xs)"
  by (induction xs) auto

lemma size_zipped [termination_simp]: "(i, v) \<in> set (zip ns xs) \<Longrightarrow> size v < Suc (size_list size xs)"
  by (drule set_zip_rightD) (rule size_element)

lemma assign_ok: "json_lib_ok L \<Longrightarrow> is_object j \<or> j = JNull \<Longrightarrow> jl_assign L k v j = Inr (JObject (obj_put k v (members j)))"
  by (cases j) (auto simp: json_lib_ok_def obj_put_def)

lemma assign_throws: "json_lib_ok L \<Longrightarrow> \<not> (is_object j \<or> j = JNull) \<Longrightarrow> \<exists>e. jl_assign L k v j = Inl e"
  by (simp add: json_lib_ok_def)

section \<open>Paths\<close>

text \<open>The value at a path of member names.\<close>

fun path_get :: "string list \<Rightarrow> json \<Rightarrow> json option" where
  "path_get [] j = Some j"
| "path_get (k # ks) j = (case jget k j of None \<Rightarrow> None | Some v \<Rightarrow> path_get ks v)"

lemma path_get_append: "path_get (ps @ qs) j = (case path_get ps j of None \<Rightarrow> None | Some v \<Rightarrow> path_get qs v)"
  by (induction ps arbitrary: j) (auto split: option.split)

lemma path_get_null [simp]: "path_get ps JNull = (if ps = [] then Some JNull else None)"
  by (cases ps) auto

section \<open>A concrete library\<close>

text \<open>The documented behaviour as functions, for concrete runs; patterns match literally.\<close>

fun demo_assign :: "string \<Rightarrow> json \<Rightarrow> json \<Rightarrow> json result" where
  "demo_assign k v (JObject m) = Inr (JObject (obj_put k v m))"
| "demo_assign k v JNull = Inr (JObject [(k, v)])"
| "demo_assign k v j = Inl (OtherException ''type_error'')"

fun demo_size :: "json \<Rightarrow> nat result" where
  "demo_size (JInt i) = Inr (nat i)"
| "demo_size j = Inl (OtherException ''type_error'')"

fun demo_double :: "json \<Rightarrow> real result" where
  "demo_double (JInt i) = Inr (real_of_int i)"
| "demo_double (JFloat x) = Inr x"
| "demo_double j = Inl (OtherException ''type_error'')"

fun demo_string :: "json \<Rightarrow> string result" where
  "demo_string (JString s) = Inr s"
| "demo_string j = Inl (OtherException ''type_error'')"

definition demo_lib :: json_lib where
  "demo_lib = \<lparr>jl_assign = demo_assign, jl_moved = JNull, jl_equal = (=), jl_get_size = demo_size, jl_get_double = demo_double,
     jl_get_string = demo_string, jl_type_name = (\<lambda>j. ''value''), jl_regex_match = (\<lambda>p s. Some (p = s))\<rparr>"

lemma demo_lib_ok: "json_lib_ok demo_lib"
proof -
  have "\<exists>e. demo_assign k v j = Inl e" if "\<not> is_object j" "j \<noteq> JNull" for k v j
    using that by (cases j) auto
  then show ?thesis by (simp add: json_lib_ok_def demo_lib_def)
qed

end
