(* ===== verification/Config_Validator.thy ===== *)
theory Config_Validator
  imports Json_Value Csv_Catalogue
begin

text \<open>
  The configuration validator, \<^verbatim>\<open>src/src/config/components/validator.cpp\<close>: a JSON value is checked against a schema, itself a
  JSON value, and against custom rules. Conversions of schema values may throw, which is \<open>Inl\<close>; the public operation catches
  what is thrown. The cache of compiled patterns and logging are left out.
\<close>

section \<open>Results\<close>

record ValidatorConfig =
  vc_strictMode :: bool
  vc_allowAdditionalProperties :: bool
  vc_validateFormats :: bool
  vc_coerceTypes :: bool

definition ValidatorConfig_new :: ValidatorConfig where
  "ValidatorConfig_new = \<lparr>vc_strictMode = False, vc_allowAdditionalProperties = True, vc_validateFormats = True, vc_coerceTypes = False\<rparr>"

record ValidationResult =
  vr_isValid :: bool
  vr_errors :: "string list"
  vr_warnings :: "string list"
  vr_path :: string

definition ValidationResult_at :: "string \<Rightarrow> ValidationResult" where
  "ValidationResult_at path = \<lparr>vr_isValid = True, vr_errors = [], vr_warnings = [], vr_path = path\<rparr>"

definition addError :: "string \<Rightarrow> ValidationResult \<Rightarrow> ValidationResult" where
  "addError err r = r\<lparr>vr_isValid := False, vr_errors := vr_errors r @ [err]\<rparr>"

definition hasErrors :: "ValidationResult \<Rightarrow> bool" where
  "hasErrors r \<longleftrightarrow> vr_errors r \<noteq> []"

definition hasWarnings :: "ValidationResult \<Rightarrow> bool" where
  "hasWarnings r \<longleftrightarrow> vr_warnings r \<noteq> []"

definition addWarning :: "string \<Rightarrow> ValidationResult \<Rightarrow> ValidationResult" where
  "addWarning w r = r\<lparr>vr_warnings := vr_warnings r @ [w]\<rparr>"

text \<open>The numbered lines of a report.\<close>

definition numbered_lines :: "string list \<Rightarrow> string" where
  "numbered_lines xs = concat (map (\<lambda>(i, x). ''  '' @ show_nat (i + 1) @ ''. '' @ x @ [CHR 0x0A]) (zip [0..<length xs] xs))"

definition getErrorMessage :: "ValidationResult \<Rightarrow> string" where
  "getErrorMessage r =
     (if vr_errors r = [] then []
      else ''Validation errors'' @ (if vr_path r \<noteq> [] then '' at '' @ [CHR 0x27] @ vr_path r @ [CHR 0x27] else []) @ '':'' @ [CHR 0x0A]
        @ numbered_lines (vr_errors r))"

definition getWarningMessage :: "ValidationResult \<Rightarrow> string" where
  "getWarningMessage r =
     (if vr_warnings r = [] then []
      else ''Validation warnings'' @ (if vr_path r \<noteq> [] then '' at '' @ [CHR 0x27] @ vr_path r @ [CHR 0x27] else []) @ '':'' @ [CHR 0x0A]
        @ numbered_lines (vr_warnings r))"

definition mergeResults :: "ValidationResult \<Rightarrow> ValidationResult \<Rightarrow> ValidationResult" where
  "mergeResults target source =
     target\<lparr>vr_isValid := (if \<not> vr_isValid source then False else vr_isValid target),
       vr_errors := vr_errors target @ vr_errors source, vr_warnings := vr_warnings target @ vr_warnings source\<rparr>"

section \<open>Keywords\<close>

text \<open>Whether a value has a type; \<open>None\<close> for an unknown name.\<close>

definition type_matches :: "string \<Rightarrow> json \<Rightarrow> bool option" where
  "type_matches ty data =
     (if ty = ''null'' then Some (data = JNull)
      else if ty = ''boolean'' then Some (case data of JBool b \<Rightarrow> True | _ \<Rightarrow> False)
      else if ty = ''integer'' then Some (case data of JInt i \<Rightarrow> True | _ \<Rightarrow> False)
      else if ty = ''number'' then Some (is_number data)
      else if ty = ''string'' then Some (is_string data)
      else if ty = ''array'' then Some (is_array data)
      else if ty = ''object'' then Some (is_object data)
      else None)"

definition validateSingleType :: "json_lib \<Rightarrow> json \<Rightarrow> string \<Rightarrow> bool \<Rightarrow> ValidationResult \<Rightarrow> bool \<times> ValidationResult" where
  "validateSingleType L data expectedType addErr r =
     (case type_matches expectedType data of
        None \<Rightarrow> (False, if addErr then addError (''Unknown type: '' @ expectedType) r else r)
      | Some isValid \<Rightarrow>
          (isValid,
           if \<not> isValid \<and> addErr
           then addError (''Expected type '' @ expectedType @ '' but got '' @ (if data = JNull then ''null'' else jl_type_name L data)) r
           else r))"

fun typeLoop :: "json_lib \<Rightarrow> json \<Rightarrow> json list \<Rightarrow> ValidationResult \<Rightarrow> bool \<times> ValidationResult" where
  "typeLoop L data [] r = (False, addError ''Value does not match any of the expected types'' r)"
| "typeLoop L data (JString ty # tys) r =
     (case validateSingleType L data ty False r of (True, r') \<Rightarrow> (True, r') | (False, r') \<Rightarrow> typeLoop L data tys r')"
| "typeLoop L data (ty # tys) r = typeLoop L data tys r"

definition validateType :: "json_lib \<Rightarrow> json \<Rightarrow> json \<Rightarrow> ValidationResult \<Rightarrow> bool \<times> ValidationResult" where
  "validateType L data expectedType r =
     (case expectedType of
        JString ty \<Rightarrow> validateSingleType L data ty True r
      | JArray tys \<Rightarrow> typeLoop L data tys r
      | _ \<Rightarrow> (True, r))"

fun requiredLoop :: "json \<Rightarrow> json list \<Rightarrow> ValidationResult \<Rightarrow> ValidationResult" where
  "requiredLoop data [] r = r"
| "requiredLoop data (JString field # flds) r =
     requiredLoop data flds (if jget field data = None then addError (''Missing required field: '' @ field) r else r)"
| "requiredLoop data (field # flds) r = requiredLoop data flds r"

definition validateRequiredKeyword :: "json \<Rightarrow> json \<Rightarrow> ValidationResult \<Rightarrow> ValidationResult" where
  "validateRequiredKeyword data schema r =
     (case jget ''required'' schema of Some (JArray flds) \<Rightarrow> requiredLoop data flds r | _ \<Rightarrow> r)"

text \<open>
  The loop over the members of an object, after the results of those that have a schema: \<open>None\<close> is a member without one.
\<close>

fun memberLoop :: "ValidatorConfig \<Rightarrow> (string \<times> ValidationResult result option) list \<Rightarrow> ValidationResult \<Rightarrow> ValidationResult result" where
  "memberLoop cfg [] r = Inr r"
| "memberLoop cfg ((key, Some (Inl e)) # subs) r = Inl e"
| "memberLoop cfg ((key, Some (Inr s)) # subs) r = memberLoop cfg subs (mergeResults r s)"
| "memberLoop cfg ((key, None) # subs) r =
     memberLoop cfg subs (if \<not> vc_allowAdditionalProperties cfg then addError (''Additional property not allowed: '' @ key) r else r)"

fun elementLoop :: "ValidationResult result list \<Rightarrow> ValidationResult \<Rightarrow> ValidationResult result" where
  "elementLoop [] r = Inr r"
| "elementLoop (Inl e # subs) r = Inl e"
| "elementLoop (Inr s # subs) r = elementLoop subs (mergeResults r s)"

text \<open>A bound given by a keyword: the check of the converted value, or the exception of the conversion.\<close>

definition keyword :: "(json \<Rightarrow> 'a result) \<Rightarrow> string \<Rightarrow> json \<Rightarrow> ('a \<Rightarrow> ValidationResult \<Rightarrow> ValidationResult) \<Rightarrow> ValidationResult
    \<Rightarrow> ValidationResult result" where
  "keyword get name schema check r =
     (case jget name schema of
        None \<Rightarrow> Inr r
      | Some j \<Rightarrow> (case get j of Inl e \<Rightarrow> Inl e | Inr x \<Rightarrow> Inr (check x r)))"

definition validateArrayBounds :: "json_lib \<Rightarrow> nat \<Rightarrow> json \<Rightarrow> ValidationResult \<Rightarrow> ValidationResult result" where
  "validateArrayBounds L len schema r =
     (case keyword (jl_get_size L) ''minItems'' schema
         (\<lambda>n r. if len < n then addError (''Array has '' @ show_nat len @ '' items, minimum is '' @ show_nat n) r else r) r of
        Inl e \<Rightarrow> Inl e
      | Inr r' \<Rightarrow> keyword (jl_get_size L) ''maxItems'' schema
         (\<lambda>n r. if len > n then addError (''Array has '' @ show_nat len @ '' items, maximum is '' @ show_nat n) r else r) r')"

definition validateNumber :: "json_lib \<Rightarrow> json \<Rightarrow> json \<Rightarrow> ValidationResult \<Rightarrow> ValidationResult result" where
  "validateNumber L data schema r =
     (case jl_get_double L data of
        Inl e \<Rightarrow> Inl e
      | Inr val \<Rightarrow>
          (case keyword (jl_get_double L) ''minimum'' schema
              (\<lambda>x r. if val < x then addError (''Value '' @ fixed6 val @ '' is below minimum '' @ fixed6 x) r else r) r of
             Inl e \<Rightarrow> Inl e
           | Inr r' \<Rightarrow> keyword (jl_get_double L) ''maximum'' schema
              (\<lambda>x r. if val > x then addError (''Value '' @ fixed6 val @ '' is above maximum '' @ fixed6 x) r else r) r'))"

definition checkPattern :: "json_lib \<Rightarrow> string \<Rightarrow> string \<Rightarrow> ValidationResult \<Rightarrow> ValidationResult" where
  "checkPattern L str pattern r =
     (case jl_regex_match L pattern str of
        None \<Rightarrow> addError (''Invalid regex pattern: '' @ pattern) r
      | Some b \<Rightarrow> if \<not> b then addError (''String does not match pattern: '' @ pattern) r else r)"

definition validateString :: "json_lib \<Rightarrow> string \<Rightarrow> json \<Rightarrow> ValidationResult \<Rightarrow> ValidationResult result" where
  "validateString L str schema r =
     (case keyword (jl_get_size L) ''minLength'' schema
         (\<lambda>n r. if length str < n then addError (''String length '' @ show_nat (length str) @ '' is below minimum '' @ show_nat n) r else r) r of
        Inl e \<Rightarrow> Inl e
      | Inr r1 \<Rightarrow>
          (case keyword (jl_get_size L) ''maxLength'' schema
              (\<lambda>n r. if length str > n then addError (''String length '' @ show_nat (length str) @ '' is above maximum '' @ show_nat n) r
                 else r) r1 of
             Inl e \<Rightarrow> Inl e
           | Inr r2 \<Rightarrow> keyword (jl_get_string L) ''pattern'' schema (checkPattern L str) r2))"

definition validateEnumConstraint :: "json_lib \<Rightarrow> json \<Rightarrow> json list \<Rightarrow> ValidationResult \<Rightarrow> ValidationResult" where
  "validateEnumConstraint L data enumValues r =
     (if \<exists>v \<in> set enumValues. jl_equal L data v then r else addError ''Value is not one of the allowed enum values'' r)"

section \<open>Validation\<close>

definition join_path :: "string \<Rightarrow> string \<Rightarrow> string" where
  "join_path path key = (if path \<noteq> [] then path @ ''.'' @ key else key)"

fun validateRecursive :: "json_lib \<Rightarrow> ValidatorConfig \<Rightarrow> json \<Rightarrow> string \<Rightarrow> json \<Rightarrow> ValidationResult result" where
  "validateRecursive L cfg schema path data =
     (case (case jget ''type'' schema of None \<Rightarrow> (True, ValidationResult_at path)
             | Some ty \<Rightarrow> validateType L data ty (ValidationResult_at path)) of
        (False, r) \<Rightarrow> Inr r
      | (True, r) \<Rightarrow>
          (case
             (case data of
                JObject m \<Rightarrow>
                  (let r1 = validateRequiredKeyword data schema r
                   in case jget ''properties'' schema of
                        None \<Rightarrow> Inr r1
                      | Some properties \<Rightarrow>
                          memberLoop cfg
                            (map (\<lambda>(key, v). (key, case jget key properties of
                                 None \<Rightarrow> None | Some s \<Rightarrow> Some (validateRecursive L cfg s (join_path path key) v))) m) r1)
              | JArray xs \<Rightarrow>
                  (case (case jget ''items'' schema of
                           None \<Rightarrow> Inr r
                         | Some s \<Rightarrow> elementLoop (map (\<lambda>(i, v). validateRecursive L cfg s (path @ ''['' @ show_nat i @ '']'') v)
                             (zip [0..<length xs] xs)) r) of
                     Inl e \<Rightarrow> Inl e
                   | Inr r1 \<Rightarrow> validateArrayBounds L (length xs) schema r1)
              | JInt i \<Rightarrow> validateNumber L data schema r
              | JFloat x \<Rightarrow> validateNumber L data schema r
              | JString str \<Rightarrow> validateString L str schema r
              | _ \<Rightarrow> Inr r) of
             Inl e \<Rightarrow> Inl e
           | Inr r2 \<Rightarrow>
               (case jget ''enum'' schema of None \<Rightarrow> Inr r2 | Some vs \<Rightarrow> Inr (validateEnumConstraint L data (iterate vs) r2))))"

declare validateRecursive.simps [simp del]

text \<open>A custom rule may throw.\<close>

type_synonym rule = "json \<Rightarrow> string \<Rightarrow> ValidationResult result"

record config_validator =
  cv_config :: ValidatorConfig
  cv_schema :: json
  cv_hasSchema :: bool
  cv_rules :: "rule umap"

definition ConfigValidator_new :: "ValidatorConfig \<Rightarrow> config_validator" where
  "ConfigValidator_new config = \<lparr>cv_config = config, cv_schema = JNull, cv_hasSchema = False, cv_rules = []\<rparr>"

definition setSchema :: "json \<Rightarrow> config_validator \<Rightarrow> config_validator" where
  "setSchema schema v = v\<lparr>cv_schema := schema, cv_hasSchema := True\<rparr>"

text \<open>A schema in a text, and in a file: \<open>None\<close> is a file that cannot be opened.\<close>

definition setSchema_text :: "(string \<Rightarrow> json result) \<Rightarrow> string \<Rightarrow> config_validator \<Rightarrow> bool \<times> config_validator" where
  "setSchema_text parse schemaJson v = (case parse schemaJson of Inl e \<Rightarrow> (False, v) | Inr schema \<Rightarrow> (True, setSchema schema v))"

definition loadSchema :: "(string \<Rightarrow> json result option) \<Rightarrow> string \<Rightarrow> config_validator \<Rightarrow> bool \<times> config_validator" where
  "loadSchema schemas schemaPath v =
     (case schemas schemaPath of Some (Inr schema) \<Rightarrow> (True, setSchema schema v) | _ \<Rightarrow> (False, v))"

fun ruleLoop :: "rule umap \<Rightarrow> json \<Rightarrow> string \<Rightarrow> ValidationResult \<Rightarrow> ValidationResult" where
  "ruleLoop [] data path r = r"
| "ruleLoop ((name, rule) # rules) data path r =
     ruleLoop rules data path
       (case rule data path of
          Inr custom \<Rightarrow> mergeResults r custom
        | Inl e \<Rightarrow> addError (''Custom rule '' @ [CHR 0x27] @ name @ [CHR 0x27] @ '' failed: '' @ what e) r)"

definition ConfigValidator_validate :: "json_lib \<Rightarrow> json \<Rightarrow> string \<Rightarrow> config_validator \<Rightarrow> ValidationResult" where
  "ConfigValidator_validate L data path v =
     (if \<not> cv_hasSchema v then addWarning ''No schema loaded for validation'' (ValidationResult_at path)
      else case validateRecursive L (cv_config v) (cv_schema v) path data of
          Inl e \<Rightarrow> addError (''Validation error: '' @ what e) (ValidationResult_at path)
        | Inr r \<Rightarrow> ruleLoop (cv_rules v) data path r)"

text \<open>The parts of a path between separators, as \<^verbatim>\<open>std::getline\<close> yields them: nothing for the empty string.\<close>

lemma drop_past_less: "c \<in> set s \<Longrightarrow> length (dropWhile (\<lambda>x. x \<noteq> c) s) - Suc 0 < length s"
  using length_dropWhile_le [of "\<lambda>x. x \<noteq> c" s] length_pos_if_in_set [of c s] by linarith

function split_path :: "char \<Rightarrow> string \<Rightarrow> string list" where
  "split_path c s =
     (let w = takeWhile (\<lambda>x. x \<noteq> c) s; rest = dropWhile (\<lambda>x. x \<noteq> c) s
      in if rest = [] then (if w = [] then [] else [w]) else w # split_path c (tl rest))"
  by pat_completeness auto
termination split_path
  by (relation "measure (\<lambda>(c, s). length s)") (auto intro: drop_past_less)

declare split_path.simps [simp del]

text \<open>Following a path; the segment that is not found.\<close>

fun navigate_json :: "string list \<Rightarrow> json \<Rightarrow> string + json" where
  "navigate_json [] j = Inr j"
| "navigate_json (k # ks) j = (case jget k j of None \<Rightarrow> Inl k | Some v \<Rightarrow> navigate_json ks v)"

definition validateValue :: "json_lib \<Rightarrow> json \<Rightarrow> string \<Rightarrow> config_validator \<Rightarrow> ValidationResult" where
  "validateValue L data valuePath v =
     (case (if valuePath \<noteq> [] \<and> valuePath \<noteq> ''/'' then navigate_json (filter (\<lambda>s. s \<noteq> []) (split_path (CHR ''.'') valuePath)) data
            else Inr data) of
        Inl segment \<Rightarrow> addError (''Path not found: '' @ segment) (ValidationResult_at [])
      | Inr current \<Rightarrow> ConfigValidator_validate L current valuePath v)"

definition addRule :: "string \<Rightarrow> rule \<Rightarrow> config_validator \<Rightarrow> config_validator" where
  "addRule name rule v = v\<lparr>cv_rules := AList.update name rule (cv_rules v)\<rparr>"

definition removeRule :: "string \<Rightarrow> config_validator \<Rightarrow> config_validator \<times> bool" where
  "removeRule name v = (v\<lparr>cv_rules := AList.delete name (cv_rules v)\<rparr>, name \<in> keys (cv_rules v))"

definition clearRules :: "config_validator \<Rightarrow> config_validator" where
  "clearRules v = v\<lparr>cv_rules := []\<rparr>"

definition ConfigValidator_setConfig :: "ValidatorConfig \<Rightarrow> config_validator \<Rightarrow> config_validator" where
  "ConfigValidator_setConfig config v = v\<lparr>cv_config := config\<rparr>"

section \<open>Single checks\<close>

definition validateRequired :: "json \<Rightarrow> string list \<Rightarrow> string \<Rightarrow> ValidationResult" where
  "validateRequired data requiredFields path =
     (let r = ValidationResult_at path
      in if \<not> is_object data then addError ''Expected object for required field validation'' r
         else fold (\<lambda>f r. if jget f data = None then addError (''Missing required field: '' @ f) r else r) requiredFields r)"

text \<open>The two optional bounds of the checks below.\<close>

definition checkBounds :: "('a::linorder \<Rightarrow> string) \<Rightarrow> ('a \<Rightarrow> string) \<Rightarrow> 'a option \<Rightarrow> 'a option \<Rightarrow> 'a \<Rightarrow> ValidationResult \<Rightarrow> ValidationResult" where
  "checkBounds below beyond lo hi x r =
     (let r1 = (case lo of Some l \<Rightarrow> if x < l then addError (below l) r else r | None \<Rightarrow> r)
      in case hi of Some h \<Rightarrow> if x > h then addError (beyond h) r1 else r1 | None \<Rightarrow> r1)"

definition validateRange :: "json_lib \<Rightarrow> json \<Rightarrow> real option \<Rightarrow> real option \<Rightarrow> string \<Rightarrow> ValidationResult result" where
  "validateRange L j lo hi path =
     (let r = ValidationResult_at path
      in if \<not> is_number j then Inr (addError ''Expected numeric value for range validation'' r)
         else case jl_get_double L j of
             Inl e \<Rightarrow> Inl e
           | Inr x \<Rightarrow> Inr (checkBounds (\<lambda>l. ''Value '' @ fixed6 x @ '' is below minimum '' @ fixed6 l)
               (\<lambda>h. ''Value '' @ fixed6 x @ '' is above maximum '' @ fixed6 h) lo hi x r))"

definition validatePattern :: "json_lib \<Rightarrow> json \<Rightarrow> string \<Rightarrow> string \<Rightarrow> ValidationResult" where
  "validatePattern L j pattern path =
     (let r = ValidationResult_at path
      in case j of JString s \<Rightarrow> checkPattern L s pattern r | _ \<Rightarrow> addError ''Expected string value for pattern validation'' r)"

definition validateLength :: "json \<Rightarrow> nat option \<Rightarrow> nat option \<Rightarrow> string \<Rightarrow> ValidationResult" where
  "validateLength j minLength maxLength path =
     (let r = ValidationResult_at path
      in case j of
           JString s \<Rightarrow> checkBounds (\<lambda>l. ''String length '' @ show_nat (length s) @ '' is below minimum '' @ show_nat l)
             (\<lambda>h. ''String length '' @ show_nat (length s) @ '' is above maximum '' @ show_nat h) minLength maxLength (length s) r
         | _ \<Rightarrow> addError ''Expected string value for length validation'' r)"

definition validateArraySize :: "json \<Rightarrow> nat option \<Rightarrow> nat option \<Rightarrow> string \<Rightarrow> ValidationResult" where
  "validateArraySize j minItems maxItems path =
     (let r = ValidationResult_at path
      in case j of
           JArray xs \<Rightarrow> checkBounds (\<lambda>l. ''Array has '' @ show_nat (length xs) @ '' items, minimum is '' @ show_nat l)
             (\<lambda>h. ''Array has '' @ show_nat (length xs) @ '' items, maximum is '' @ show_nat h) minItems maxItems (length xs) r
         | _ \<Rightarrow> addError ''Expected array value for size validation'' r)"

definition validateEnum :: "json_lib \<Rightarrow> json \<Rightarrow> json list \<Rightarrow> string \<Rightarrow> ValidationResult" where
  "validateEnum L j allowedValues path = validateEnumConstraint L j allowedValues (ValidationResult_at path)"

section \<open>The meaning of a schema\<close>

text \<open>The types a schema allows; a value of another kind under \<open>type\<close> allows all.\<close>

definition allows_type :: "json \<Rightarrow> json \<Rightarrow> bool" where
  "allows_type ty data \<longleftrightarrow>
     (case ty of
        JString t \<Rightarrow> type_matches t data = Some True
      | JArray ts \<Rightarrow> (\<exists>t. JString t \<in> set ts \<and> type_matches t data = Some True)
      | _ \<Rightarrow> True)"

text \<open>A keyword holds when it is absent or its value converts and satisfies the condition.\<close>

definition holds :: "(json \<Rightarrow> 'a result) \<Rightarrow> string \<Rightarrow> json \<Rightarrow> ('a \<Rightarrow> bool) \<Rightarrow> bool" where
  "holds get name schema P \<longleftrightarrow> (\<forall>j. jget name schema = Some j \<longrightarrow> (\<exists>x. get j = Inr x \<and> P x))"

text \<open>
  When a value conforms to a schema. This is the specification: no order of checks, no messages, no exceptions.
\<close>

fun conforms :: "json_lib \<Rightarrow> ValidatorConfig \<Rightarrow> json \<Rightarrow> json \<Rightarrow> bool" where
  "conforms L cfg schema data \<longleftrightarrow>
     (\<forall>ty. jget ''type'' schema = Some ty \<longrightarrow> allows_type ty data)
     \<and> (\<forall>vs. jget ''enum'' schema = Some vs \<longrightarrow> (\<exists>v \<in> set (iterate vs). jl_equal L data v))
     \<and> (case data of
          JObject m \<Rightarrow>
            (\<forall>fs f. jget ''required'' schema = Some (JArray fs) \<and> JString f \<in> set fs \<longrightarrow> map_of m f \<noteq> None)
            \<and> (\<forall>props. jget ''properties'' schema = Some props \<longrightarrow>
                 (\<forall>(key, v) \<in> set m. case jget key props of
                    None \<Rightarrow> vc_allowAdditionalProperties cfg | Some s \<Rightarrow> conforms L cfg s v))
        | JArray xs \<Rightarrow>
            (\<forall>s. jget ''items'' schema = Some s \<longrightarrow> (\<forall>v \<in> set xs. conforms L cfg s v))
            \<and> holds (jl_get_size L) ''minItems'' schema (\<lambda>n. n \<le> length xs)
            \<and> holds (jl_get_size L) ''maxItems'' schema (\<lambda>n. length xs \<le> n)
        | JString s \<Rightarrow>
            holds (jl_get_size L) ''minLength'' schema (\<lambda>n. n \<le> length s)
            \<and> holds (jl_get_size L) ''maxLength'' schema (\<lambda>n. length s \<le> n)
            \<and> holds (jl_get_string L) ''pattern'' schema (\<lambda>p. jl_regex_match L p s = Some True)
        | JInt i \<Rightarrow>
            (\<exists>x. jl_get_double L data = Inr x \<and> holds (jl_get_double L) ''minimum'' schema (\<lambda>l. l \<le> x)
               \<and> holds (jl_get_double L) ''maximum'' schema (\<lambda>h. x \<le> h))
        | JFloat y \<Rightarrow>
            (\<exists>x. jl_get_double L data = Inr x \<and> holds (jl_get_double L) ''minimum'' schema (\<lambda>l. l \<le> x)
               \<and> holds (jl_get_double L) ''maximum'' schema (\<lambda>h. x \<le> h))
        | _ \<Rightarrow> True)"

declare conforms.simps [simp del]

text \<open>Its equations per constructor, for evaluation.\<close>

lemmas conforms_at =
  conforms.simps [where data = "JObject m" for m] conforms.simps [where data = "JArray xs" for xs]
  conforms.simps [where data = "JInt i" for i] conforms.simps [where data = "JString s" for s] conforms.simps [where data = JNull]

section \<open>Checks\<close>

text \<open>A result is consistent when it is invalid exactly if it has an error; a verdict is the outcome of a validation.\<close>

definition consistent :: "ValidationResult \<Rightarrow> bool" where
  "consistent r \<longleftrightarrow> (vr_isValid r \<longleftrightarrow> vr_errors r = [])"

definition verdict :: "ValidationResult result \<Rightarrow> bool" where
  "verdict x = (case x of Inl e \<Rightarrow> False | Inr r \<Rightarrow> vr_isValid r)"

definition result_ok :: "ValidationResult result \<Rightarrow> bool" where
  "result_ok x = (case x of Inl e \<Rightarrow> True | Inr r \<Rightarrow> consistent r)"

text \<open>A step of the validation checks a condition.\<close>

definition checks :: "(ValidationResult \<Rightarrow> ValidationResult result) \<Rightarrow> bool \<Rightarrow> bool" where
  "checks f P \<longleftrightarrow> (\<forall>r. verdict (f r) = (vr_isValid r \<and> P) \<and> (consistent r \<longrightarrow> result_ok (f r)))"

lemma verdict_simps [simp]: "verdict (Inl e) = False" "verdict (Inr r) = vr_isValid r" "result_ok (Inl e)" "result_ok (Inr r) = consistent r"
  by (simp_all add: verdict_def result_ok_def)

lemma result_simps [simp]:
  "vr_isValid (addError e r) = False" "consistent (addError e r)" "vr_isValid (ValidationResult_at path)"
  "consistent (ValidationResult_at path)" "vr_isValid (mergeResults r s) = (vr_isValid r \<and> vr_isValid s)"
  by (auto simp: addError_def consistent_def ValidationResult_at_def mergeResults_def)

lemma consistent_merge [simp]: "consistent r \<Longrightarrow> consistent s \<Longrightarrow> consistent (mergeResults r s)"
  by (auto simp: consistent_def mergeResults_def)

lemma checks_Inr: "checks Inr True"
  by (simp add: checks_def)

lemma checks_if: "checks (\<lambda>r. Inr (if bad then addError e r else r)) (\<not> bad)"
  by (simp add: checks_def)

lemma checks_then:
  "checks f P \<Longrightarrow> checks g Q \<Longrightarrow> checks (\<lambda>r. case f r of Inl e \<Rightarrow> Inl e | Inr r' \<Rightarrow> g r') (P \<and> Q)"
  by (auto simp: checks_def split: sum.split) (metis verdict_simps result_ok_def sum.case)+

lemma checks_cong: "checks f P \<Longrightarrow> P = Q \<Longrightarrow> checks f Q"
  by simp

lemma checks_keyword:
  assumes "\<And>x. checks (\<lambda>r. Inr (check x r)) (P x)"
  shows "checks (keyword get name schema check) (holds get name schema P)"
  using assms by (auto simp: checks_def keyword_def holds_def split: option.split sum.split)

lemma checks_bounds: "checks (validateArrayBounds L len schema)
    (holds (jl_get_size L) ''minItems'' schema (\<lambda>n. n \<le> len) \<and> holds (jl_get_size L) ''maxItems'' schema (\<lambda>n. len \<le> n))"
  unfolding validateArrayBounds_def
  by (intro checks_then checks_keyword) (rule checks_cong [OF checks_if], linarith)+

lemma checks_number: "checks (validateNumber L data schema)
    (\<exists>x. jl_get_double L data = Inr x \<and> holds (jl_get_double L) ''minimum'' schema (\<lambda>l. l \<le> x)
       \<and> holds (jl_get_double L) ''maximum'' schema (\<lambda>h. x \<le> h))"
proof (cases "jl_get_double L data")
  case (Inr x)
  have "checks (\<lambda>r. case keyword (jl_get_double L) ''minimum'' schema
              (\<lambda>l r. if x < l then addError (''Value '' @ fixed6 x @ '' is below minimum '' @ fixed6 l) r else r) r of
             Inl e \<Rightarrow> Inl e
           | Inr r' \<Rightarrow> keyword (jl_get_double L) ''maximum'' schema
              (\<lambda>h r. if x > h then addError (''Value '' @ fixed6 x @ '' is above maximum '' @ fixed6 h) r else r) r')
     (holds (jl_get_double L) ''minimum'' schema (\<lambda>l. l \<le> x) \<and> holds (jl_get_double L) ''maximum'' schema (\<lambda>h. x \<le> h))"
    by (intro checks_then checks_keyword) (rule checks_cong [OF checks_if], linarith)+
  then show ?thesis by (simp add: checks_def validateNumber_def Inr)
qed (simp add: validateNumber_def checks_def)

lemma checks_string: "checks (validateString L s schema)
    (holds (jl_get_size L) ''minLength'' schema (\<lambda>n. n \<le> length s) \<and> holds (jl_get_size L) ''maxLength'' schema (\<lambda>n. length s \<le> n)
       \<and> holds (jl_get_string L) ''pattern'' schema (\<lambda>p. jl_regex_match L p s = Some True))"
  unfolding validateString_def
proof (intro checks_then checks_keyword)
  show "checks (\<lambda>r. Inr (checkPattern L s p r)) (jl_regex_match L p s = Some True)" for p
    by (auto simp: checks_def checkPattern_def split: option.split)
qed (rule checks_cong [OF checks_if], linarith)+

lemma checks_required: "checks (\<lambda>r. Inr (requiredLoop data fs r)) (\<forall>f. JString f \<in> set fs \<longrightarrow> jget f data \<noteq> None)"
proof (induction fs)
  case (Cons f fs)
  show ?case
  proof (cases "is_string f")
    case True
    then obtain s where "f = JString s" by (cases f) auto
    then show ?thesis using Cons by (auto simp: checks_def)
  next
    case False
    then show ?thesis using Cons by (cases f) (auto simp: checks_def)
  qed
qed (simp add: checks_def)

lemma checks_members:
  "(\<And>key s. (key, Some (Inr s)) \<in> set subs \<Longrightarrow> consistent s) \<Longrightarrow>
   checks (memberLoop cfg subs)
     (\<forall>(key, sub) \<in> set subs. case sub of None \<Rightarrow> vc_allowAdditionalProperties cfg | Some x \<Rightarrow> verdict x)"
proof (induction subs)
  case (Cons a subs)
  obtain key sub where a: "a = (key, sub)" by fastforce
  have IH: "checks (memberLoop cfg subs)
     (\<forall>(key, sub) \<in> set subs. case sub of None \<Rightarrow> vc_allowAdditionalProperties cfg | Some x \<Rightarrow> verdict x)"
    by (rule Cons.IH) (metis Cons.prems list.set_intros(2))
  have "consistent s" if "sub = Some (Inr s)" for s using Cons.prems [of key s] that by (simp add: a)
  then show ?case using IH by (cases sub; cases "the sub") (auto simp: a checks_def)
qed (simp add: checks_def)

lemma checks_elements:
  "(\<And>s. Inr s \<in> set subs \<Longrightarrow> consistent s) \<Longrightarrow> checks (elementLoop subs) (\<forall>x \<in> set subs. verdict x)"
proof (induction subs)
  case (Cons x subs)
  then show ?case by (cases x) (auto simp: checks_def)
qed (simp add: checks_def)

lemma checks_enum: "checks (\<lambda>r. Inr (validateEnumConstraint L data vs r)) (\<exists>v \<in> set vs. jl_equal L data v)"
  by (simp add: checks_def validateEnumConstraint_def)

lemma single_type:
  "fst (validateSingleType L data ty addErr r) = (type_matches ty data = Some True)"
  "vr_isValid (snd (validateSingleType L data ty addErr r)) = (vr_isValid r \<and> (addErr \<longrightarrow> type_matches ty data = Some True))"
  "consistent r \<Longrightarrow> consistent (snd (validateSingleType L data ty addErr r))"
  by (auto simp: validateSingleType_def split: option.split)

lemma type_loop:
  "fst (typeLoop L data tys r) = (\<exists>t. JString t \<in> set tys \<and> type_matches t data = Some True)
   \<and> vr_isValid (snd (typeLoop L data tys r)) = (vr_isValid r \<and> fst (typeLoop L data tys r))
   \<and> (consistent r \<longrightarrow> consistent (snd (typeLoop L data tys r)))"
proof (induction tys arbitrary: r)
  case (Cons ty tys)
  show ?case
  proof (cases "is_string ty")
    case True
    then obtain t where t: "ty = JString t" by (cases ty) auto
    obtain b r' where v: "validateSingleType L data t False r = (b, r')" by fastforce
    then have "b = (type_matches t data = Some True)" "vr_isValid r' = vr_isValid r" "consistent r \<Longrightarrow> consistent r'"
      using single_type [where L = L and data = data and ty = t and addErr = False and r = r] by simp_all
    then show ?thesis using Cons [of r'] v by (cases b) (auto simp: t)
  next
    case False
    then show ?thesis using Cons by (cases ty) auto
  qed
qed simp

section \<open>Validation is exact\<close>

lemma checks_type: "validateType L data ty r = (b, r') \<Longrightarrow>
   b = allows_type ty data \<and> vr_isValid r' = (vr_isValid r \<and> b) \<and> (consistent r \<longrightarrow> consistent r')"
  using single_type [where L = L and data = data and addErr = True and r = r]
    type_loop [where L = L and data = data and r = r]
  by (cases ty) (auto simp: validateType_def allows_type_def, (metis fst_conv snd_conv)+)

text \<open>A step that checks a condition, applied to a result.\<close>

lemma checksD: "checks f P \<Longrightarrow> consistent r \<Longrightarrow> verdict (f r) = (vr_isValid r \<and> P) \<and> result_ok (f r)"
  by (simp add: checks_def)

lemma checks_required_keyword:
  "checks (\<lambda>r. Inr (validateRequiredKeyword (JObject m) schema r))
     (\<forall>fs f. jget ''required'' schema = Some (JArray fs) \<and> JString f \<in> set fs \<longrightarrow> map_of m f \<noteq> None)"
proof (cases "\<exists>fs. jget ''required'' schema = Some (JArray fs)")
  case True
  then obtain fs where "jget ''required'' schema = Some (JArray fs)" by blast
  then show ?thesis using checks_required [of "JObject m" fs] by (simp add: checks_def validateRequiredKeyword_def)
next
  case False
  then have "validateRequiredKeyword (JObject m) schema r = r" for r
    by (auto simp: validateRequiredKeyword_def split: option.split json.split)
  then show ?thesis using False by (simp add: checks_def)
qed

text \<open>The checks of one value, given that those of its parts are exact.\<close>

lemma checks_object:
  assumes "\<And>key v s. (key, v) \<in> set m \<Longrightarrow> jget key props = Some s \<Longrightarrow> verdict (sub key s v) = ok s v \<and> result_ok (sub key s v)"
  shows "checks (memberLoop cfg (map (\<lambda>(key, v). (key, case jget key props of None \<Rightarrow> None | Some s \<Rightarrow> Some (sub key s v))) m))
    (\<forall>(key, v) \<in> set m. case jget key props of None \<Rightarrow> vc_allowAdditionalProperties cfg | Some s \<Rightarrow> ok s v)"
proof (rule checks_cong [OF checks_members])
  show "consistent s"
    if mem: "(key, Some (Inr s)) \<in> set (map (\<lambda>(key, v). (key, case jget key props of None \<Rightarrow> None | Some s \<Rightarrow> Some (sub key s v))) m)"
    for key s
  proof -
    obtain t v where "(key, v) \<in> set m" "jget key props = Some t" "sub key t v = Inr s"
      using mem by (auto split: option.splits)
    then show ?thesis using assms [of key v t] by simp
  qed
next
  have "(case (case jget key props of None \<Rightarrow> None | Some s \<Rightarrow> Some (sub key s v)) of
          None \<Rightarrow> vc_allowAdditionalProperties cfg | Some x \<Rightarrow> verdict x)
      = (case jget key props of None \<Rightarrow> vc_allowAdditionalProperties cfg | Some s \<Rightarrow> ok s v)" if "(key, v) \<in> set m" for key v
    using that assms by (auto split: option.split)
  then show "(\<forall>(key, sub) \<in> set (map (\<lambda>(key, v). (key, case jget key props of None \<Rightarrow> None | Some s \<Rightarrow> Some (sub key s v))) m).
       case sub of None \<Rightarrow> vc_allowAdditionalProperties cfg | Some x \<Rightarrow> verdict x)
     = (\<forall>(key, v) \<in> set m. case jget key props of None \<Rightarrow> vc_allowAdditionalProperties cfg | Some s \<Rightarrow> ok s v)"
    by fastforce
qed

lemma checks_items:
  assumes "\<And>i v. (i, v) \<in> set (zip [0..<length xs] xs) \<Longrightarrow> verdict (sub i v) = ok v \<and> result_ok (sub i v)"
  shows "checks (elementLoop (map (\<lambda>(i, v). sub i v) (zip [0..<length xs] xs))) (\<forall>v \<in> set xs. ok v)"
proof (rule checks_cong [OF checks_elements])
  show "consistent s" if mem: "Inr s \<in> set (map (\<lambda>(i, v). sub i v) (zip [0..<length xs] xs))" for s
  proof -
    obtain i v where "(i, v) \<in> set (zip [0..<length xs] xs)" "sub i v = Inr s"
      using mem by auto
    then show ?thesis using assms [of i v] by simp
  qed
next
  have "(\<forall>x \<in> set (map (\<lambda>(i, v). sub i v) (zip [0..<length xs] xs)). verdict x) = (\<forall>(i, v) \<in> set (zip [0..<length xs] xs). ok v)"
    using assms by fastforce
  also have "\<dots> = (\<forall>v \<in> set xs. ok v)"
    by (fastforce simp: set_zip in_set_conv_nth)
  finally show "(\<forall>x \<in> set (map (\<lambda>(i, v). sub i v) (zip [0..<length xs] xs)). verdict x) = (\<forall>v \<in> set xs. ok v)" .
qed

lemma checks_enum_keyword:
  "checks (\<lambda>r. case jget ''enum'' schema of None \<Rightarrow> Inr r | Some vs \<Rightarrow> Inr (validateEnumConstraint L data (iterate vs) r))
     (\<forall>vs. jget ''enum'' schema = Some vs \<longrightarrow> (\<exists>v \<in> set (iterate vs). jl_equal L data v))"
  using checks_enum by (auto simp: checks_def split: option.split)

lemma validateRecursive_exact:
  "verdict (validateRecursive L cfg schema path data) = conforms L cfg schema data \<and> result_ok (validateRecursive L cfg schema path data)"
proof (induction L cfg schema path data rule: validateRecursive.induct)
  case (1 L cfg schema path data)
  obtain b r where br: "(case jget ''type'' schema of None \<Rightarrow> (True, ValidationResult_at path)
      | Some ty \<Rightarrow> validateType L data ty (ValidationResult_at path)) = (b, r)" by fastforce
  then have ty: "b = (\<forall>ty. jget ''type'' schema = Some ty \<longrightarrow> allows_type ty data)" "vr_isValid r = b" "consistent r"
    by (auto split: option.splits dest: checks_type)
  note unfold = validateRecursive.simps [of L cfg schema path data] br conforms.simps [of L cfg schema data] ty(1) [symmetric]
  note enum = checks_then [OF _ checks_enum_keyword [where schema = schema and L = L and data = data]]
  show ?case
  proof (cases b)
    case False
    then show ?thesis using ty(2,3) by (simp add: unfold)
  next
    case True
    have b: "b = True" using True by simp
    note IHe = "1.IH"(1) [OF br [symmetric] b] and IHm = "1.IH"(2) [OF br [symmetric] b]
    note step = checksD [OF enum \<open>consistent r\<close>]
    show ?thesis
    proof (cases data)
      case (JObject m)
      have "checks (\<lambda>r. case jget ''properties'' schema of None \<Rightarrow> Inr r | Some properties \<Rightarrow>
           memberLoop cfg (map (\<lambda>(key, v). (key, case jget key properties of
              None \<Rightarrow> None | Some s \<Rightarrow> Some (validateRecursive L cfg s (join_path path key) v))) m) r)
         (\<forall>props. jget ''properties'' schema = Some props \<longrightarrow>
            (\<forall>(key, v) \<in> set m. case jget key props of None \<Rightarrow> vc_allowAdditionalProperties cfg | Some s \<Rightarrow> conforms L cfg s v))"
      proof (cases "jget ''properties'' schema")
        case (Some props)
        have "verdict (validateRecursive L cfg s (join_path path key) v) = conforms L cfg s v
            \<and> result_ok (validateRecursive L cfg s (join_path path key) v)" if "(key, v) \<in> set m" "jget key props = Some s" for key v s
          using IHm [OF JObject refl Some _ refl that(2)] that(1) by simp
        from checks_object [OF this] Some show ?thesis by simp
      qed (simp add: checks_Inr)
      from step [OF checks_then [OF checks_required_keyword [where schema = schema and m = m] this]] show ?thesis
        using b ty(2) unfolding unfold by (simp add: JObject Let_def conj_ac)
    next
      case (JArray xs)
      have "checks (\<lambda>r. case jget ''items'' schema of None \<Rightarrow> Inr r
           | Some s \<Rightarrow> elementLoop (map (\<lambda>(i, v). validateRecursive L cfg s (path @ ''['' @ show_nat i @ '']'') v) (zip [0..<length xs] xs)) r)
         (\<forall>s. jget ''items'' schema = Some s \<longrightarrow> (\<forall>v \<in> set xs. conforms L cfg s v))"
      proof (cases "jget ''items'' schema")
        case (Some s)
        have "verdict (validateRecursive L cfg s (path @ ''['' @ show_nat i @ '']'') v) = conforms L cfg s v
            \<and> result_ok (validateRecursive L cfg s (path @ ''['' @ show_nat i @ '']'') v)"
          if "(i, v) \<in> set (zip [0..<length xs] xs)" for i v
          using IHe [OF JArray Some that refl] .
        from checks_items [OF this] Some show ?thesis by simp
      qed (simp add: checks_Inr)
      from step [OF checks_then [OF this checks_bounds]] show ?thesis
        using b ty(2) unfolding unfold by (simp add: JArray conj_ac)
    next
      case (JInt i)
      from step [OF checks_number] show ?thesis using b ty(2) unfolding unfold by (simp add: JInt conj_ac)
    next
      case (JFloat x)
      from step [OF checks_number] show ?thesis using b ty(2) unfolding unfold by (simp add: JFloat conj_ac)
    next
      case (JString str)
      from step [OF checks_string] show ?thesis using b ty(2) unfolding unfold by (simp add: JString conj_ac)
    next
      case JNull
      from step [OF checks_Inr] show ?thesis using b ty(2) unfolding unfold by (simp add: JNull conj_ac)
    next
      case (JBool x)
      from step [OF checks_Inr] show ?thesis using b ty(2) unfolding unfold by (simp add: JBool conj_ac)
    qed
  qed
qed

text \<open>A custom rule passes when it returns a valid result.\<close>

definition rule_passes :: "rule \<Rightarrow> json \<Rightarrow> string \<Rightarrow> bool" where
  "rule_passes rule data path \<longleftrightarrow> (\<exists>c. rule data path = Inr c \<and> vr_isValid c)"

lemma ruleLoop_valid:
  "vr_isValid (ruleLoop rules data path r) \<longleftrightarrow> vr_isValid r \<and> (\<forall>(name, rule) \<in> set rules. rule_passes rule data path)"
  by (induction rules data path r rule: ruleLoop.induct) (auto simp: rule_passes_def split: sum.split)

lemma ruleLoop_consistent:
  "consistent r \<Longrightarrow> (\<And>name rule c. (name, rule) \<in> set rules \<Longrightarrow> rule data path = Inr c \<Longrightarrow> consistent c) \<Longrightarrow>
   consistent (ruleLoop rules data path r)"
proof (induction rules data path r rule: ruleLoop.induct)
  case (2 name rule rules data path r)
  show ?case unfolding ruleLoop.simps
  proof (rule "2.IH")
    show "consistent (case rule data path of Inl e \<Rightarrow> addError (''Custom rule '' @ [CHR 0x27] @ name @ [CHR 0x27] @ '' failed: '' @ what e) r
        | Inr custom \<Rightarrow> mergeResults r custom)"
      using "2.prems"(1) "2.prems"(2) [of name rule] by (auto split: sum.split)
  qed (use "2.prems" in auto)
qed simp

text \<open>
  C18: The validator accepts a value exactly when the value conforms to the schema and every custom rule passes: a required member is
  present, every member and element conforms to its own schema, and every bound, pattern and enumeration holds, whatever
  the order of the checks. A schema whose own values do not convert rejects. A result is invalid exactly when it lists an error.
\<close>

theorem validate_exact:
  assumes "cv_hasSchema v"
  shows "(vr_isValid (ConfigValidator_validate L data path v)
        \<longleftrightarrow> conforms L (cv_config v) (cv_schema v) data \<and> (\<forall>(name, rule) \<in> set (cv_rules v). rule_passes rule data path))
    \<and> ((\<forall>(name, rule) \<in> set (cv_rules v). \<forall>c. rule data path = Inr c \<longrightarrow> consistent c) \<longrightarrow>
        consistent (ConfigValidator_validate L data path v))"
  using validateRecursive_exact [where L = L and cfg = "cv_config v" and schema = "cv_schema v" and path = path and data = data] assms
  by (auto simp: ConfigValidator_validate_def ruleLoop_valid intro!: ruleLoop_consistent split: sum.splits)

text \<open>An object with a bounded number and a list of names.\<close>

definition demo_schema :: json where
  "demo_schema = JObject [(''properties'', JObject
       [(''filters'', JObject [(''items'', JObject [(''type'', JArray [JString ''string'', JString ''null''])]), (''minItems'', JInt 1)]),
        (''gain'', JObject [(''maximum'', JInt 100), (''type'', JString ''integer'')])]),
     (''required'', JArray [JString ''gain'']), (''type'', JString ''object'')]"

theorem validate_exact_witness:
  "let v = setSchema demo_schema (ConfigValidator_new ValidatorConfig_new)
   in vr_isValid (ConfigValidator_validate demo_lib (JObject [(''filters'', JArray [JString ''R'', JNull]), (''gain'', JInt 7)]) [] v)
    \<and> \<not> vr_isValid (ConfigValidator_validate demo_lib (JObject [(''gain'', JInt 101)]) [] v)
    \<and> \<not> vr_isValid (ConfigValidator_validate demo_lib (JObject [(''filters'', JArray [])]) [] v)
    \<and> consistent (ConfigValidator_validate demo_lib (JArray []) [] v)"
proof -
  define v where "v = setSchema demo_schema (ConfigValidator_new ValidatorConfig_new)"
  then have v: "cv_hasSchema v" "cv_rules v = []" "cv_schema v = demo_schema" "cv_config v = ValidatorConfig_new"
    by (simp_all add: setSchema_def ConfigValidator_new_def)
  have exact: "vr_isValid (ConfigValidator_validate demo_lib data [] v) = conforms demo_lib ValidatorConfig_new demo_schema data
      \<and> consistent (ConfigValidator_validate demo_lib data [] v)" for data
    using validate_exact [OF v(1), of demo_lib data "[]"] by (simp add: v)
  have "conforms demo_lib ValidatorConfig_new demo_schema (JObject [(''filters'', JArray [JString ''R'', JNull]), (''gain'', JInt 7)])"
    "\<not> conforms demo_lib ValidatorConfig_new demo_schema (JObject [(''gain'', JInt 101)])"
    "\<not> conforms demo_lib ValidatorConfig_new demo_schema (JObject [(''filters'', JArray [])])"
    by (simp_all add: demo_schema_def conforms_at allows_type_def type_matches_def holds_def demo_lib_def)
      (rule exI [of _ "''null''"], simp)
  then show ?thesis by (simp add: v_def [symmetric] exact)
qed

end
