(* ===== verification/Config_Manager.thy ===== *)
theory Config_Manager
  imports Config_Validator Config_Cache "HOL-Library.Sublist"
begin

text \<open>
  The configuration manager, \<^verbatim>\<open>src/src/config/core/manager.cpp\<close>: one JSON document addressed by paths such as
  \<^verbatim>\<open>camera/gain\<close>, in front of it the cache of \<open>Config_Cache\<close> and the validator of \<open>Config_Validator\<close>. The operations run
  under one lock, so each is one step. The clock readings of an operation are a function of their position, \<open>clk 0\<close> is
  the first. Reading and writing files is a parameter. A callback is known by its identifier; its calls are a log, and what it
  throws is caught. Logging and the threads of the file watcher are left out.
\<close>

section \<open>Paths\<close>

text \<open>\<^verbatim>\<open>std::ranges::views::split\<close>: an empty string has no parts, a trailing separator is followed by an empty part.\<close>

fun split_parts :: "char \<Rightarrow> string \<Rightarrow> string list" where
  "split_parts c [] = [[]]"
| "split_parts c (x # xs) =
     (if x = c then [] # split_parts c xs
      else case split_parts c xs of [] \<Rightarrow> [[x]] | p # ps \<Rightarrow> (x # p) # ps)"

definition splitString :: "string \<Rightarrow> string list" where
  "splitString str = (if str = [] then [] else split_parts (CHR ''/'') str)"

definition segments :: "string \<Rightarrow> string list" where
  "segments key = filter (\<lambda>k. k \<noteq> []) (splitString key)"

section \<open>State\<close>

record Options =
  op_cache_options :: CacheConfig
  op_validator_options :: ValidatorConfig
  op_enable_auto_reload :: bool
  op_enable_validation :: bool
  op_enable_caching :: bool
  op_auto_save_delay :: int

record Metrics =
  me_total_operations :: nat
  me_cache_hits :: nat
  me_cache_misses :: nat
  me_validation_successes :: nat
  me_validation_failures :: nat
  me_files_loaded :: nat
  me_files_saved :: nat
  me_auto_reloads :: nat
  me_average_access_time_ms :: real
  me_average_save_time_ms :: real
  me_last_operation :: int

record config_manager =
  cm_options :: Options
  cm_config :: json
  cm_cache :: "json config_cache"
  cm_validator :: config_validator
  cm_callbacks :: "nat list"
  cm_nextCallbackId :: nat
  cm_pendingSaves :: "int umap"
  cm_metrics :: Metrics
  cm_notified :: "(nat \<times> string) list"

definition Options_default :: Options where
  "Options_default = \<lparr>op_cache_options = CacheConfig_default, op_validator_options = ValidatorConfig_new, op_enable_auto_reload = True,
     op_enable_validation = True, op_enable_caching = True, op_auto_save_delay = 5000\<rparr>"

definition Metrics_new :: "int \<Rightarrow> Metrics" where
  "Metrics_new now = \<lparr>me_total_operations = 0, me_cache_hits = 0, me_cache_misses = 0, me_validation_successes = 0,
     me_validation_failures = 0, me_files_loaded = 0, me_files_saved = 0, me_auto_reloads = 0, me_average_access_time_ms = 0,
     me_average_save_time_ms = 0, me_last_operation = now\<rparr>"

definition ConfigManager_new :: "int \<Rightarrow> Options \<Rightarrow> config_manager" where
  "ConfigManager_new now options =
     \<lparr>cm_options = options, cm_config = JNull, cm_cache = ConfigCache_new (op_cache_options options),
      cm_validator = ConfigValidator_new (op_validator_options options), cm_callbacks = [], cm_nextCallbackId = 1,
      cm_pendingSaves = [], cm_metrics = Metrics_new now, cm_notified = []\<rparr>"

text \<open>Readings of the clock are in nanoseconds; the duration is truncated to microseconds.\<close>

definition updateOperationMetrics :: "string \<Rightarrow> int \<Rightarrow> int \<Rightarrow> config_manager \<Rightarrow> config_manager" where
  "updateOperationMetrics operation_type start_time end_time m =
     (let duration_ms = real_of_int ((end_time - start_time) div 1000) / 1000;
          me = (cm_metrics m)\<lparr>me_total_operations := me_total_operations (cm_metrics m) + 1, me_last_operation := end_time\<rparr>
      in m\<lparr>cm_metrics :=
        (if operation_type = ''get'' \<or> operation_type = ''has'' then
           me\<lparr>me_average_access_time_ms :=
             (if me_total_operations me = 1 then duration_ms
              else (me_average_access_time_ms me * (real (me_total_operations me) - 1) + duration_ms) / real (me_total_operations me))\<rparr>
         else if operation_type = ''save'' \<or> operation_type = ''auto_save'' then
           me\<lparr>me_average_save_time_ms :=
             (if me_files_saved me = 1 then duration_ms
              else (me_average_save_time_ms me * (real (me_files_saved me) - 1) + duration_ms) / real (me_files_saved me))\<rparr>
         else me)\<rparr>)"

definition updateMetrics :: "string \<Rightarrow> int \<Rightarrow> int \<Rightarrow> int \<Rightarrow> config_manager \<Rightarrow> config_manager" where
  "updateMetrics operation_type duration now end_time m = updateOperationMetrics operation_type (now - duration) end_time m"

definition notifyChanges :: "string \<Rightarrow> config_manager \<Rightarrow> config_manager" where
  "notifyChanges path m = m\<lparr>cm_notified := cm_notified m @ map (\<lambda>i. (i, path)) (cm_callbacks m)\<rparr>"

definition put_cached :: "int \<Rightarrow> string \<Rightarrow> json \<Rightarrow> config_manager \<Rightarrow> config_manager" where
  "put_cached now key v m =
     (if op_enable_caching (cm_options m) then m\<lparr>cm_cache := ConfigCache_put now key v 0 (cm_cache m)\<rparr> else m)"

definition clear_cached :: "config_manager \<Rightarrow> config_manager" where
  "clear_cached m = (if op_enable_caching (cm_options m) then m\<lparr>cm_cache := ConfigCache_clear (cm_cache m)\<rparr> else m)"

section \<open>Writing\<close>

text \<open>
  The statement that writes the last member of a path: the document afterwards and the value stored there, or \<open>None\<close> when the
  target of an append is not an array.
\<close>

definition setLeaf :: "json_lib \<Rightarrow> bool \<Rightarrow> json \<Rightarrow> string \<Rightarrow> json \<Rightarrow> (json \<times> json) option result" where
  "setLeaf L appending val k j =
     (if appending then
        (case jget k j of
           None \<Rightarrow>
             (case jl_assign L k (JArray []) j of
                Inl e \<Rightarrow> Inl e
              | Inr j1 \<Rightarrow> Inr (Some (JObject (obj_put k (JArray [val]) (members j1)), JArray [val])))
         | Some (JArray xs) \<Rightarrow> Inr (Some (JObject (obj_put k (JArray (xs @ [val])) (members j)), JArray (xs @ [val])))
         | Some _ \<Rightarrow> Inr None)
      else case jl_assign L k val j of Inl e \<Rightarrow> Inl e | Inr j1 \<Rightarrow> Inr (Some (j1, val)))"

definition join_slash :: "string \<Rightarrow> string \<Rightarrow> string" where
  "join_slash path k = (if path \<noteq> [] then path @ ''/'' @ k else k)"

text \<open>
  The loop over the parts of a path, on the value the pointer points to: the value afterwards, and an exception, \<open>Inr None\<close> for
  \<^verbatim>\<open>return false\<close>, or the path and the value that were written.
\<close>

fun setLoop :: "json_lib \<Rightarrow> bool \<Rightarrow> json \<Rightarrow> string list \<Rightarrow> string \<Rightarrow> json \<Rightarrow> json \<times> (string \<times> json) option result" where
  "setLoop L appending val [] currentPath j = (j, Inr None)"
| "setLoop L appending val (k # ks) currentPath j =
     (if k = [] then setLoop L appending val ks currentPath j
      else if ks = [] then
        (case setLeaf L appending val k j of
           Inl e \<Rightarrow> (j, Inl e)
         | Inr None \<Rightarrow> (j, Inr None)
         | Inr (Some (j', stored)) \<Rightarrow> (j', Inr (Some (join_slash currentPath k, stored))))
      else
        (case (case jget k j of Some (JObject m) \<Rightarrow> Inr j | _ \<Rightarrow> jl_assign L k (JObject []) j) of
           Inl e \<Rightarrow> (j, Inl e)
         | Inr j1 \<Rightarrow>
             (case setLoop L appending val ks (join_slash currentPath k) (case jget k j1 of None \<Rightarrow> JNull | Some child \<Rightarrow> child) of
                (child', out) \<Rightarrow> (JObject (obj_put k child' (members j1)), out))))"

text \<open>The validation at the start; \<open>False\<close> rejects.\<close>

definition validate_first :: "json_lib \<Rightarrow> string \<Rightarrow> json \<Rightarrow> config_manager \<Rightarrow> bool \<times> config_manager" where
  "validate_first L key_path val m =
     (if \<not> op_enable_validation (cm_options m) then (True, m)
      else if vr_isValid (ConfigValidator_validate L val key_path (cm_validator m))
      then (True, m\<lparr>cm_metrics := (cm_metrics m)\<lparr>me_validation_successes := me_validation_successes (cm_metrics m) + 1\<rparr>\<rparr>)
      else (False, m\<lparr>cm_metrics := (cm_metrics m)\<lparr>me_validation_failures := me_validation_failures (cm_metrics m) + 1\<rparr>\<rparr>))"

text \<open>
  The value is forwarded twice, to the validator and to the document. An rvalue has then been moved from: it is what the library
  leaves behind.
\<close>

definition setOrAppendImpl :: "json_lib \<Rightarrow> (nat \<Rightarrow> int) \<Rightarrow> bool \<Rightarrow> string \<Rightarrow> json \<Rightarrow> bool \<Rightarrow> config_manager \<Rightarrow> bool \<times> config_manager" where
  "setOrAppendImpl L clk rvalue key_path val0 appending m0 =
     (case validate_first L key_path val0 m0 of
        (False, m) \<Rightarrow> (False, m)
      | (True, m) \<Rightarrow>
          (let val = (if op_enable_validation (cm_options m) \<and> rvalue then jl_moved L else val0)
           in if key_path = ''/'' then
                (let config = (if appending then JArray (elements (cm_config m) @ [val]) else val)
                 in (True, updateOperationMetrics ''set_root'' (clk 0) (clk 2)
                       (notifyChanges ''/'' (put_cached (clk 1) ''/'' config (m\<lparr>cm_config := config\<rparr>)))))
              else
                (case setLoop L appending val (splitString key_path) [] (cm_config m) of
                   (config, Inr (Some (currentPath, stored))) \<Rightarrow>
                     (True, updateOperationMetrics (if appending then ''append'' else ''set'') (clk 0) (clk 2)
                        (notifyChanges currentPath (put_cached (clk 1) currentPath stored (m\<lparr>cm_config := config\<rparr>))))
                 | (config, _) \<Rightarrow> (False, m\<lparr>cm_config := config\<rparr>))))"

definition ConfigManager_set :: "json_lib \<Rightarrow> (nat \<Rightarrow> int) \<Rightarrow> bool \<Rightarrow> string \<Rightarrow> json \<Rightarrow> config_manager \<Rightarrow> bool \<times> config_manager" where
  "ConfigManager_set L clk rvalue key_path val m = setOrAppendImpl L clk rvalue key_path val False m"

definition ConfigManager_append :: "json_lib \<Rightarrow> (nat \<Rightarrow> int) \<Rightarrow> string \<Rightarrow> json \<Rightarrow> config_manager \<Rightarrow> bool \<times> config_manager" where
  "ConfigManager_append L clk key_path val m = setOrAppendImpl L clk False key_path val True m"

text \<open>A value converted from another type is a temporary.\<close>

definition set_value :: "json_lib \<Rightarrow> (nat \<Rightarrow> int) \<Rightarrow> string \<Rightarrow> json \<Rightarrow> config_manager \<Rightarrow> bool \<times> config_manager" where
  "set_value L clk key_path val m = ConfigManager_set L clk True key_path val m"

definition append_value :: "json_lib \<Rightarrow> (nat \<Rightarrow> int) \<Rightarrow> string \<Rightarrow> json \<Rightarrow> config_manager \<Rightarrow> bool \<times> config_manager" where
  "append_value L clk key_path val m = ConfigManager_append L clk key_path val m"

section \<open>Reading and removing\<close>

definition ConfigManager_get :: "(nat \<Rightarrow> int) \<Rightarrow> string \<Rightarrow> config_manager \<Rightarrow> json option \<times> config_manager" where
  "ConfigManager_get clk key_path m0 =
     (let (hit, m) =
        (if op_enable_caching (cm_options m0) then
           (case ConfigCache_get (clk 1) (clk 2) key_path (cm_cache m0) of
              (Some v, c) \<Rightarrow> (Some v, m0\<lparr>cm_cache := c, cm_metrics := (cm_metrics m0)\<lparr>me_cache_hits := me_cache_hits (cm_metrics m0) + 1\<rparr>\<rparr>)
            | (None, c) \<Rightarrow> (None, m0\<lparr>cm_cache := c, cm_metrics := (cm_metrics m0)\<lparr>me_cache_misses := me_cache_misses (cm_metrics m0) + 1\<rparr>\<rparr>))
         else (None, m0))
      in case hit of
           Some v \<Rightarrow> (Some v, updateOperationMetrics ''get'' (clk 0) (clk 4) m)
         | None \<Rightarrow>
             (case path_get (segments key_path) (cm_config m) of
                None \<Rightarrow> (None, updateOperationMetrics ''get'' (clk 0) (clk 4) m)
              | Some v \<Rightarrow> (Some v, updateOperationMetrics ''get'' (clk 0) (clk 4) (put_cached (clk 3) key_path v m))))"

definition get_as :: "(json \<Rightarrow> 'a result) \<Rightarrow> (nat \<Rightarrow> int) \<Rightarrow> string \<Rightarrow> config_manager \<Rightarrow> 'a option \<times> config_manager" where
  "get_as conv clk key_path m =
     (case ConfigManager_get clk key_path m of
        (None, m') \<Rightarrow> (None, m')
      | (Some v, m') \<Rightarrow> (case conv v of Inl e \<Rightarrow> None | Inr x \<Rightarrow> Some x, m'))"

text \<open>The loop of \<^verbatim>\<open>remove\<close>; \<open>None\<close> is a path that is not there.\<close>

fun removeLoop :: "string list \<Rightarrow> json \<Rightarrow> json option" where
  "removeLoop [] j = None"
| "removeLoop (k # ks) j =
     (case jget k j of
        None \<Rightarrow> None
      | Some child \<Rightarrow>
          if ks = [] then Some (JObject (AList.delete k (members j)))
          else map_option (\<lambda>c. JObject (obj_put k c (members j))) (removeLoop ks child))"

definition ConfigManager_remove :: "(nat \<Rightarrow> int) \<Rightarrow> string \<Rightarrow> config_manager \<Rightarrow> bool \<times> config_manager" where
  "ConfigManager_remove clk key_path m =
     (case removeLoop (segments key_path) (cm_config m) of
        None \<Rightarrow> (False, m)
      | Some config \<Rightarrow>
          (True, updateOperationMetrics ''remove'' (clk 0) (clk 1) (notifyChanges key_path
             (let m1 = m\<lparr>cm_config := config\<rparr>
              in if op_enable_caching (cm_options m1) then m1\<lparr>cm_cache := snd (ConfigCache_remove key_path (cm_cache m1))\<rparr> else m1))))"

definition ConfigManager_has :: "(nat \<Rightarrow> int) \<Rightarrow> string \<Rightarrow> config_manager \<Rightarrow> bool \<times> config_manager" where
  "ConfigManager_has clk key_path m =
     (let cached = op_enable_caching (cm_options m) \<and> ConfigCache_contains (clk 1) key_path (cm_cache m);
          me = cm_metrics m;
          m1 = (if cached then m\<lparr>cm_metrics := me\<lparr>me_cache_hits := me_cache_hits me + 1\<rparr>\<rparr>
                else if op_enable_caching (cm_options m) then m\<lparr>cm_metrics := me\<lparr>me_cache_misses := me_cache_misses me + 1\<rparr>\<rparr>
                else m)
      in if cached then (True, updateOperationMetrics ''has'' (clk 0) (clk 2) m1)
         else case ConfigManager_get (\<lambda>i. clk (i + 2)) key_path m1 of
             (r, m2) \<Rightarrow> (r \<noteq> None, updateOperationMetrics ''has'' (clk 0) (clk 7) m2))"

definition getKeys :: "config_manager \<Rightarrow> string list" where
  "getKeys m = map fst (members (cm_config m))"

fun collectPaths :: "json \<Rightarrow> string \<Rightarrow> string list" where
  "collectPaths (JObject m) pre =
     concat (map (\<lambda>(k, v). let path = (if pre = [] then k else pre @ ''/'' @ k) in path # collectPaths v path) m)"
| "collectPaths j pre = []"

definition listPaths :: "config_manager \<Rightarrow> string list" where
  "listPaths m = collectPaths (cm_config m) []"

section \<open>Merging\<close>

function (sequential) merge_json :: "json \<Rightarrow> json \<Rightarrow> json"
  and merge_members :: "(string \<times> json) list \<Rightarrow> (string \<times> json) list \<Rightarrow> (string \<times> json) list" where
  "merge_json (JObject src) (JObject target) = JObject (merge_members src target)"
| "merge_json src target = src"
| "merge_members [] target = target"
| "merge_members ((k, v) # src) target =
     merge_members src (obj_put k (case map_of target k of
        Some t \<Rightarrow> if is_object t \<and> is_object v then merge_json v t else v
      | None \<Rightarrow> v) target)"
  by pat_completeness auto
termination merge_json
  by (relation "measure (\<lambda>x. case x of Inl (src, t) \<Rightarrow> size src | Inr (src, t) \<Rightarrow> size_list (size_prod (\<lambda>k. 0) size) src)") auto

definition ConfigManager_merge :: "json \<Rightarrow> config_manager \<Rightarrow> config_manager" where
  "ConfigManager_merge src m = notifyChanges ''/'' (clear_cached (m\<lparr>cm_config := merge_json src (cm_config m)\<rparr>))"

definition ConfigManager_clear :: "config_manager \<Rightarrow> config_manager" where
  "ConfigManager_clear m = clear_cached (m\<lparr>cm_config := JObject []\<rparr>)"

definition ConfigManager_tidy :: "int \<Rightarrow> config_manager \<Rightarrow> config_manager" where
  "ConfigManager_tidy now m =
     (if op_enable_caching (cm_options m) then m\<lparr>cm_cache := snd (ConfigCache_cleanup now (cm_cache m))\<rparr> else m)"

section \<open>Files\<close>

text \<open>\<^verbatim>\<open>filename()\<close>, \<^verbatim>\<open>stem()\<close> and \<^verbatim>\<open>extension()\<close> of a path: a name that starts with its only dot has no extension.\<close>

definition file_name :: "string \<Rightarrow> string" where
  "file_name path = rev (takeWhile (\<lambda>c. c \<noteq> CHR ''/'') (rev path))"

definition dot_split :: "string \<Rightarrow> string \<times> string" where
  "dot_split name =
     (let ext = rev (takeWhile (\<lambda>c. c \<noteq> CHR ''.'') (rev name)); n = length name - length ext
      in if name = ''..'' \<or> n \<le> 1 then (name, []) else (take (n - 1) name, CHR ''.'' # ext))"

definition stem :: "string \<Rightarrow> string" where
  "stem path = fst (dot_split (file_name path))"

definition extension :: "string \<Rightarrow> string" where
  "extension path = snd (dot_split (file_name path))"

text \<open>What a file deserializes to is the parameter \<open>files\<close>; \<open>None\<close> is a result that is not valid.\<close>

definition loadFromFile :: "json_lib \<Rightarrow> (string \<Rightarrow> json option) \<Rightarrow> (nat \<Rightarrow> int) \<Rightarrow> string \<Rightarrow> config_manager \<Rightarrow> bool \<times> config_manager" where
  "loadFromFile L files clk path m =
     (case files path of
        None \<Rightarrow> (False, m)
      | Some data \<Rightarrow>
          (case jl_assign L (stem path) data (cm_config m) of
             Inl e \<Rightarrow> (False, m)
           | Inr config \<Rightarrow>
               (let m1 = clear_cached (m\<lparr>cm_config := config\<rparr>)
                in (True, updateOperationMetrics ''load'' (clk 0) (clk 1)
                      (m1\<lparr>cm_metrics := (cm_metrics m1)\<lparr>me_files_loaded := me_files_loaded (cm_metrics m1) + 1\<rparr>\<rparr>)))))"

fun loadFromFiles :: "json_lib \<Rightarrow> (string \<Rightarrow> json option) \<Rightarrow> (nat \<Rightarrow> int) \<Rightarrow> string list \<Rightarrow> config_manager \<Rightarrow> nat \<times> config_manager" where
  "loadFromFiles L files clk [] m = (0, m)"
| "loadFromFiles L files clk (path # paths) m =
     (case loadFromFile L files clk path m of (ok, m1) \<Rightarrow>
        (case loadFromFiles L files (\<lambda>i. clk (i + 2)) paths m1 of (n, m2) \<Rightarrow> ((if ok then n + 1 else n), m2)))"

text \<open>
  A directory is the list of its entries, with whether each is a regular file, and whether the iteration throws after them;
  \<open>None\<close> is a path that is not a directory.
\<close>

definition loadFromDir ::
    "json_lib \<Rightarrow> (string \<Rightarrow> json option) \<Rightarrow> (nat \<Rightarrow> int) \<Rightarrow> ((string \<times> bool) list \<times> bool) option \<Rightarrow> config_manager \<Rightarrow> bool \<times> config_manager" where
  "loadFromDir L files clk dir m =
     (case dir of
        None \<Rightarrow> (False, m)
      | Some (entries, throws) \<Rightarrow>
          (case loadFromFiles L files clk
              (map fst (filter (\<lambda>(p, regular). regular \<and> extension p \<in> {''.json'', ''.json5'', ''.lithium''}) entries)) m of
             (loaded, m1) \<Rightarrow> (\<not> throws \<and> loaded > 0, m1)))"

text \<open>\<^verbatim>\<open>operator/\<close> of paths.\<close>

definition path_join :: "string \<Rightarrow> string \<Rightarrow> string" where
  "path_join dir f =
     (if take 1 f = ''/'' then f else if dir = [] \<or> last dir = CHR ''/'' then dir @ f else dir @ ''/'' @ f)"

text \<open>Writing a file changes the file system, which is passed along.\<close>

definition ConfigManager_save ::
    "(json \<Rightarrow> string \<Rightarrow> 'f \<Rightarrow> bool \<times> 'f) \<Rightarrow> (nat \<Rightarrow> int) \<Rightarrow> string \<Rightarrow> 'f \<times> config_manager \<Rightarrow> bool \<times> 'f \<times> config_manager" where
  "ConfigManager_save serializeToFile clk file_path s =
     (case s of (fs, m) \<Rightarrow>
        (case serializeToFile (cm_config m) file_path fs of
           (False, fs') \<Rightarrow> (False, fs', m)
         | (True, fs') \<Rightarrow> (True, fs', updateOperationMetrics ''save'' (clk 0) (clk 1)
             (m\<lparr>cm_metrics := (cm_metrics m)\<lparr>me_files_saved := me_files_saved (cm_metrics m) + 1\<rparr>\<rparr>))))"

fun saveSections :: "(json \<Rightarrow> string \<Rightarrow> 'f \<Rightarrow> bool \<times> 'f) \<Rightarrow> string \<Rightarrow> (string \<times> json) list \<Rightarrow> 'f \<Rightarrow> bool \<times> 'f" where
  "saveSections serializeToFile dir [] fs = (True, fs)"
| "saveSections serializeToFile dir ((k, v) # sections) fs =
     (case serializeToFile v (path_join dir (k @ ''.json'')) fs of (ok, fs1) \<Rightarrow>
        (case saveSections serializeToFile dir sections fs1 of (rest, fs2) \<Rightarrow> (ok \<and> rest, fs2)))"

definition saveAll ::
    "(json \<Rightarrow> string \<Rightarrow> 'f \<Rightarrow> bool \<times> 'f) \<Rightarrow> (nat \<Rightarrow> int) \<Rightarrow> string \<Rightarrow> 'f \<times> config_manager \<Rightarrow> bool \<times> 'f \<times> config_manager" where
  "saveAll serializeToFile clk dir s =
     (case s of (fs, m) \<Rightarrow>
        (case cm_config m of
           JObject sections \<Rightarrow> (case saveSections serializeToFile dir sections fs of (ok, fs') \<Rightarrow> (ok, fs', m))
         | _ \<Rightarrow> ConfigManager_save serializeToFile clk (path_join dir ''config.json'') (fs, m)))"

definition scheduleSave :: "int \<Rightarrow> string \<Rightarrow> config_manager \<Rightarrow> config_manager" where
  "scheduleSave now path m =
     m\<lparr>cm_pendingSaves := AList.update path (now + op_auto_save_delay (cm_options m) * 1000000) (cm_pendingSaves m)\<rparr>"

definition takeDue :: "int \<Rightarrow> config_manager \<Rightarrow> string list \<times> config_manager" where
  "takeDue now m =
     (map fst (filter (\<lambda>(p, t). t \<le> now) (cm_pendingSaves m)), m\<lparr>cm_pendingSaves := filter (\<lambda>(p, t). \<not> t \<le> now) (cm_pendingSaves m)\<rparr>)"

fun autoSave :: "(json \<Rightarrow> string \<Rightarrow> 'f \<Rightarrow> bool \<times> 'f) \<Rightarrow> (nat \<Rightarrow> int) \<Rightarrow> string list \<Rightarrow> 'f \<times> config_manager \<Rightarrow> 'f \<times> config_manager" where
  "autoSave serializeToFile clk [] s = s"
| "autoSave serializeToFile clk (path # paths) (fs, m) =
     autoSave serializeToFile (\<lambda>i. clk (i + 2)) paths
       (case jget (stem path) (cm_config m) of
          None \<Rightarrow> (fs, m)
        | Some section \<Rightarrow>
            (case serializeToFile section path fs of
               (False, fs') \<Rightarrow> (fs', m)
             | (True, fs') \<Rightarrow> (fs', updateOperationMetrics ''auto_save'' (clk 0) (clk 1)
                 (m\<lparr>cm_metrics := (cm_metrics m)\<lparr>me_files_saved := me_files_saved (cm_metrics m) + 1\<rparr>\<rparr>))))"

definition savingRound :: "(json \<Rightarrow> string \<Rightarrow> 'f \<Rightarrow> bool \<times> 'f) \<Rightarrow> (nat \<Rightarrow> int) \<Rightarrow> 'f \<times> config_manager \<Rightarrow> 'f \<times> config_manager" where
  "savingRound serializeToFile clk s =
     (case s of (fs, m) \<Rightarrow> (case takeDue (clk 0) m of (paths, m1) \<Rightarrow> autoSave serializeToFile (\<lambda>i. clk (i + 1)) paths (fs, m1)))"

section \<open>Callbacks, options and validation\<close>

definition onChanged :: "config_manager \<Rightarrow> nat \<times> config_manager" where
  "onChanged m =
     (cm_nextCallbackId m, m\<lparr>cm_nextCallbackId := cm_nextCallbackId m + 1, cm_callbacks := cm_callbacks m @ [cm_nextCallbackId m]\<rparr>)"

definition ConfigManager_removeCallback :: "nat \<Rightarrow> config_manager \<Rightarrow> bool \<times> config_manager" where
  "ConfigManager_removeCallback i m = (if i \<in> set (cm_callbacks m) then (True, m\<lparr>cm_callbacks := remove1 i (cm_callbacks m)\<rparr>) else (False, m))"

definition updateOptions :: "Options \<Rightarrow> config_manager \<Rightarrow> config_manager" where
  "updateOptions options m = m\<lparr>cm_options := options\<rparr>"

definition getMetrics :: "nat \<Rightarrow> config_manager \<Rightarrow> Metrics" where
  "getMetrics watcher_events m =
     (let st = fst (getStatistics (cm_cache m))
      in (cm_metrics m)\<lparr>me_cache_hits := st_hits st, me_cache_misses := st_misses st, me_auto_reloads := watcher_events\<rparr>)"

definition resetMetrics :: "int \<Rightarrow> config_manager \<Rightarrow> config_manager" where
  "resetMetrics now m = m\<lparr>cm_metrics := Metrics_new now\<rparr>"

definition ConfigManager_setSchema :: "string \<Rightarrow> json \<Rightarrow> config_manager \<Rightarrow> bool \<times> config_manager" where
  "ConfigManager_setSchema schema_path schema m = (True, m\<lparr>cm_validator := setSchema schema (cm_validator m)\<rparr>)"

definition ConfigManager_loadSchema :: "(string \<Rightarrow> json result option) \<Rightarrow> string \<Rightarrow> string \<Rightarrow> config_manager \<Rightarrow> bool \<times> config_manager" where
  "ConfigManager_loadSchema schemas schema_path file_path m =
     (case loadSchema schemas file_path (cm_validator m) of (ok, v) \<Rightarrow> (ok, m\<lparr>cm_validator := v\<rparr>))"

definition ConfigManager_validate :: "json_lib \<Rightarrow> (nat \<Rightarrow> int) \<Rightarrow> string \<Rightarrow> config_manager \<Rightarrow> ValidationResult \<times> config_manager" where
  "ConfigManager_validate L clk config_path m =
     (case ConfigManager_get clk config_path m of
        (None, m') \<Rightarrow> (\<lparr>vr_isValid = False, vr_errors = [], vr_warnings = [], vr_path = ''Configuration path not found: '' @ config_path\<rparr>, m')
      | (Some v, m') \<Rightarrow> (ConfigValidator_validate L v config_path (cm_validator m'), m'))"

definition validateAll :: "json_lib \<Rightarrow> config_manager \<Rightarrow> ValidationResult" where
  "validateAll L m = ConfigValidator_validate L (cm_config m) [] (cm_validator m)"

datatype FileEvent = CREATED | MODIFIED | DELETED | MOVED

definition onFileChanged :: "json_lib \<Rightarrow> (string \<Rightarrow> json option) \<Rightarrow> (nat \<Rightarrow> int) \<Rightarrow> string \<Rightarrow> FileEvent \<Rightarrow> config_manager \<Rightarrow> config_manager" where
  "onFileChanged L files clk file_path event m =
     (if event = MODIFIED \<or> event = CREATED then
        (case loadFromFile L files clk file_path m of
           (True, m1) \<Rightarrow> m1\<lparr>cm_metrics := (cm_metrics m1)\<lparr>me_auto_reloads := me_auto_reloads (cm_metrics m1) + 1\<rparr>\<rparr>
         | (False, m1) \<Rightarrow> m1)
      else if event = DELETED then snd (ConfigManager_remove clk (CHR ''/'' # stem file_path) m)
      else m)"

section \<open>Keys\<close>

text \<open>A key is canonical when none of its parts is empty: no separator at either end and no two in a row.\<close>

definition canonical :: "string \<Rightarrow> bool" where
  "canonical key \<longleftrightarrow> [] \<notin> set (splitString key)"

lemma segments_canonical: "canonical key \<Longrightarrow> segments key = splitString key"
  unfolding canonical_def segments_def by (rule filter_True) auto

lemma split_parts_ne [simp]: "split_parts c s \<noteq> []"
  by (cases s) (auto split: list.split)

fun join_with :: "char \<Rightarrow> string list \<Rightarrow> string" where
  "join_with c [] = []"
| "join_with c [p] = p"
| "join_with c (p # ps) = p @ c # join_with c ps"

lemma join_with_Cons: "ps \<noteq> [] \<Longrightarrow> join_with c (p # ps) = p @ c # join_with c ps"
  by (cases ps) auto

lemma join_split: "join_with c (split_parts c s) = s"
proof (induction c s rule: split_parts.induct)
  case (2 c x xs)
  obtain p ps where p: "split_parts c xs = p # ps" by (cases "split_parts c xs") auto
  with 2 show ?case by (cases ps) (auto simp: join_with_Cons)
qed simp

text \<open>The path the loop builds up.\<close>

abbreviation built :: "string list \<Rightarrow> string \<Rightarrow> string" where
  "built ks path \<equiv> fold (\<lambda>k p. join_slash p k) ks path"

lemma built_join: "[] \<notin> set ks \<Longrightarrow> ks \<noteq> [] \<Longrightarrow> built ks path = (if path = [] then join_with (CHR ''/'') ks else path @ ''/'' @ join_with (CHR ''/'') ks)"
proof (induction ks arbitrary: path)
  case (Cons k ks)
  then show ?case by (cases "ks = []") (auto simp: join_slash_def join_with_Cons)
qed simp

lemma built_canonical: "canonical key \<Longrightarrow> key \<noteq> [] \<Longrightarrow> built (segments key) [] = key"
  using built_join [of "splitString key" "[]"]
  by (simp add: segments_canonical canonical_def splitString_def join_split)

lemma segments_ne: "canonical key \<Longrightarrow> key \<noteq> [] \<Longrightarrow> segments key \<noteq> []"
  by (simp add: segments_canonical splitString_def)

section \<open>Writing at a path\<close>

text \<open>The specification of a write: every value on the way that is not an object becomes one.\<close>

definition child_object :: "string \<Rightarrow> json \<Rightarrow> json" where
  "child_object k j = (case jget k j of Some (JObject m) \<Rightarrow> JObject m | _ \<Rightarrow> JObject [])"

fun path_put :: "string list \<Rightarrow> json \<Rightarrow> json \<Rightarrow> json" where
  "path_put [] v j = v"
| "path_put (k # ks) v j = JObject (obj_put k (path_put ks v (child_object k j)) (members j))"

lemma jget_members: "map_of (members j) k = jget k j"
  by (cases j) auto

lemma path_put_below: "path_get (ks @ qs) (path_put ks v j) = path_get qs v"
  by (induction ks v j rule: path_put.induct) auto

lemma path_put_beside:
  "\<not> prefix ks qs \<Longrightarrow> \<not> prefix qs ks \<Longrightarrow> path_get qs (path_put ks v j) = path_get qs j"
proof (induction ks v j arbitrary: qs rule: path_put.induct)
  case (2 k ks v j)
  then obtain q qs' where qs: "qs = q # qs'" by (cases qs) auto
  show ?case
  proof (cases "q = k")
    case True
    then have "path_get qs' (path_put ks v (child_object k j)) = path_get qs' (child_object k j)"
      using 2 by (auto simp: qs)
    moreover have "qs' \<noteq> []" using 2 True by (auto simp: qs)
    ultimately show ?thesis
      by (cases qs') (auto simp: qs True child_object_def split: option.split json.split)
  qed (simp add: qs jget_members)
qed simp

text \<open>What is stored: an append needs an array or nothing at its path.\<close>

definition new_value :: "bool \<Rightarrow> json \<Rightarrow> json option \<Rightarrow> json option" where
  "new_value appending v old =
     (if appending then (case old of None \<Rightarrow> Some (JArray [v]) | Some (JArray xs) \<Rightarrow> Some (JArray (xs @ [v])) | Some _ \<Rightarrow> None)
      else Some v)"

lemma setLeaf_spec:
  assumes "json_lib_ok L" and "is_object j \<or> j = JNull"
  shows "setLeaf L appending v k j =
    Inr (case new_value appending v (jget k j) of None \<Rightarrow> None | Some w \<Rightarrow> Some (JObject (obj_put k w (members j)), w))"
  by (cases "jget k j"; cases "the (jget k j)") (auto simp: setLeaf_def new_value_def assign_ok [OF assms])

lemma no_path: "ks \<noteq> [] \<Longrightarrow> \<nexists>m. jget k j = Some (JObject m) \<Longrightarrow> path_get (k # ks) j = None"
  by (cases ks; cases "jget k j"; cases "the (jget k j)") auto

text \<open>The loop is the specification of the write, on every path whose parts are not empty.\<close>

lemma setLoop_spec:
  "json_lib_ok L \<Longrightarrow> is_object j \<or> j = JNull \<Longrightarrow> ks \<noteq> [] \<Longrightarrow> [] \<notin> set ks \<Longrightarrow>
   setLoop L appending v ks path j =
     (case new_value appending v (path_get ks j) of
        None \<Rightarrow> (j, Inr None)
      | Some w \<Rightarrow> (path_put ks w j, Inr (Some (built ks path, w))))"
proof (induction ks arbitrary: path j)
  case (Cons k ks)
  note L = \<open>json_lib_ok L\<close> and j = \<open>is_object j \<or> j = JNull\<close>
  show ?case
  proof (cases "ks = []")
    case True
    then show ?thesis using Cons.prems by (auto simp: setLeaf_spec [OF L j] split: option.split)
  next
    case False
    note IH = Cons.IH [OF L _ False, of "child_object k j" "join_slash path k"]
    show ?thesis
    proof (cases "\<exists>m. jget k j = Some (JObject m)")
      case True
      then obtain m where m: "jget k j = Some (JObject m)" by blast
      then have c: "child_object k j = JObject m" and same: "JObject (obj_put k (JObject m) (members j)) = j"
        by (cases j; simp add: child_object_def obj_put_same)+
      show ?thesis using Cons.prems False IH same by (auto simp: m c split: option.split)
    next
      case no: False
      then have c: "child_object k j = JObject []"
        and put: "(case jget k j of Some (JObject m) \<Rightarrow> Inr j | _ \<Rightarrow> jl_assign L k (JObject []) j) = Inr (JObject (obj_put k (JObject []) (members j)))"
        by (auto simp: child_object_def assign_ok [OF L j] split: option.split json.split)
      have "path_get ks (JObject []) = None" using False by (cases ks) auto
      then show ?thesis using Cons.prems False IH no_path [OF False no] put
        by (auto simp: c new_value_def)
    qed
  qed
qed simp

text \<open>On any other document the first assignment throws and nothing changes.\<close>

lemma setLoop_throws:
  assumes "json_lib_ok L" "\<not> (is_object j \<or> j = JNull)" "ks \<noteq> []" "[] \<notin> set ks"
  shows "\<exists>e. setLoop L appending v ks path j = (j, Inl e)"
proof -
  obtain k ks' where ks: "ks = k # ks'" using assms(3) by (cases ks) auto
  have "jget k j = None" using assms(2) by (cases j) auto
  moreover obtain e e' where "jl_assign L k (JObject []) j = Inl e" "setLeaf L appending v k j = Inl e'"
    using assign_throws [OF assms(1,2)] \<open>jget k j = None\<close> by (metis (no_types, lifting) setLeaf_def option.simps(4) sum.simps(5))
  ultimately show ?thesis using assms(4) by (auto simp: ks)
qed

lemma removeLoop_None: "removeLoop ks j = None \<longleftrightarrow> ks = [] \<or> path_get ks j = None"
  by (induction ks j rule: removeLoop.induct) (auto split: option.split)

lemma removeLoop_below: "removeLoop ks j = Some j' \<Longrightarrow> path_get (ks @ qs) j' = None"
  by (induction ks j arbitrary: j' rule: removeLoop.induct) (auto split: option.splits if_splits)

lemma removeLoop_beside:
  "removeLoop ks j = Some j' \<Longrightarrow> \<not> prefix ks qs \<Longrightarrow> \<not> prefix qs ks \<Longrightarrow> path_get qs j' = path_get qs j"
proof (induction ks j arbitrary: j' qs rule: removeLoop.induct)
  case (2 k ks j)
  then obtain q qs' where qs: "qs = q # qs'" by (cases qs) auto
  show ?case
  proof (cases "q = k")
    case True
    then show ?thesis using 2 by (auto simp: qs split: option.splits if_splits)
  next
    case False
    then show ?thesis using "2.prems"(1) by (auto simp: qs jget_members split: option.splits if_splits)
  qed
qed simp

text \<open>A merge is an overlay: a member of the source wins, and two objects are merged in turn.\<close>

lemma merge_json_other: "\<not> (is_object v \<and> is_object t) \<Longrightarrow> merge_json v t = v"
  by (cases v; cases t) auto

lemma merge_members_get:
  "distinct (map fst src) \<Longrightarrow> map_of (merge_members src target) k =
     (case map_of src k of
        None \<Rightarrow> map_of target k
      | Some v \<Rightarrow> Some (case map_of target k of None \<Rightarrow> v | Some t \<Rightarrow> merge_json v t))"
proof (induction src arbitrary: target)
  case (Cons x src)
  obtain k' v where x: "x = (k', v)" by fastforce
  then have "map_of src k' = None" using Cons.prems by (simp add: map_of_eq_None_iff)
  then show ?case using Cons by (auto simp: x merge_json_other split: option.split)
qed simp

lemma merge_get:
  assumes "distinct (map fst src)"
  shows "jget k (merge_json (JObject src) (JObject target)) =
    (case map_of src k of None \<Rightarrow> map_of target k | Some v \<Rightarrow> Some (case map_of target k of None \<Rightarrow> v | Some t \<Rightarrow> merge_json v t))"
  using merge_members_get [OF assms] by simp

section \<open>The cache of the manager\<close>

definition cached :: "json config_cache \<Rightarrow> string \<Rightarrow> json option" where
  "cached c k = map_option en_value (map_of (cc_cache c) k)"

abbreviation distinct_keys :: "json config_cache \<Rightarrow> bool" where
  "distinct_keys c \<equiv> distinct (map fst (cc_cache c))"

lemma cached_change:
  "cc_cache c' = AList.update k e (cc_cache c) \<Longrightarrow> cached c' k' = (if k' = k then Some (en_value e) else cached c k')"
  "cc_cache c' = AList.delete k (cc_cache c) \<Longrightarrow> cached c' k' = (if k' = k then None else cached c k')"
  "cc_cache c' = cc_cache c \<Longrightarrow> cached c' k' = cached c k'"
  "map_of (cc_cache c) k = Some e \<Longrightarrow> cached c k = Some (en_value e)"
  by (simp_all add: cached_def update_conv' delete_conv')

lemma distinct_change:
  "distinct_keys c \<Longrightarrow> cc_cache c' = AList.update k e (cc_cache c) \<Longrightarrow> distinct_keys c'"
  "distinct_keys c \<Longrightarrow> cc_cache c' = AList.delete k (cc_cache c) \<Longrightarrow> distinct_keys c'"
  by (simp_all add: distinct_update distinct_delete)

lemma evict_cached:
  assumes "distinct_keys c"
  shows "distinct_keys (evictLru c) \<and> (cached (evictLru c) k = Some w \<longrightarrow> cached c k = Some w)"
proof (cases "cc_cache c")
  case (Cons x xs)
  then have e: "cc_cache (evictLru c) = AList.delete (fst (min_access x xs)) (cc_cache c)" by (simp add: evictLru_def)
  show ?thesis using distinct_change(2) [OF assms e] cached_change(2) [OF e, of k] by simp
qed (simp add: evictLru_def)

lemma put_cached_only:
  assumes d: "distinct_keys c"
  shows "distinct_keys (ConfigCache_put now k v ttl c) \<and> cached (ConfigCache_put now k v ttl c) k = Some v
    \<and> (cached (ConfigCache_put now k v ttl c) k' = Some w \<longrightarrow> k' \<noteq> k \<longrightarrow> cached c k' = Some w)"
proof (rule put_cache [of c k v ttl now])
  assume p: "cc_cache (ConfigCache_put now k v ttl c) =
      AList.update k (CacheEntry_new now v (if ttl > 0 then ttl else cfg_defaultTtl (cc_config c))) (cc_cache c)"
  show ?thesis using distinct_change(1) [OF d p] cached_change(1) [OF p] by (auto simp: CacheEntry_new_def)
next
  assume p: "cc_cache (ConfigCache_put now k v ttl c) =
      AList.update k (CacheEntry_new now v (if ttl > 0 then ttl else cfg_defaultTtl (cc_config c))) (cc_cache (evictLru c))"
  show ?thesis using distinct_change(1) [OF conjunct1 [OF evict_cached [OF d]] p] cached_change(1) [OF p] evict_cached [OF d, of k' w]
    by (auto simp: CacheEntry_new_def)
qed (rule d)

lemma get_cached:
  assumes d: "distinct_keys c"
  shows "distinct_keys (snd (ConfigCache_get t1 t2 k c)) \<and> (fst (ConfigCache_get t1 t2 k c) = Some v \<longrightarrow> cached c k = Some v)
    \<and> (cached (snd (ConfigCache_get t1 t2 k c)) k' = Some w \<longrightarrow> cached c k' = Some w)"
proof (cases "map_of (cc_cache c) k")
  case None
  then have g: "ConfigCache_get t1 t2 k c = (None, count_miss c)" by (simp add: ConfigCache_get_def get_read_def)
  show ?thesis using d cached_change(3) [of "count_miss c" c] by (simp add: g)
next
  case (Some e)
  let ?e = "e\<lparr>en_lastAccess := t2, en_accessCount := en_accessCount e + 1\<rparr>"
  let ?c = "snd (ConfigCache_get t1 t2 k c)"
  note v = cached_change(4) [OF Some]
  consider "\<not> entry_expired t1 e" | "entry_expired t1 e" "entry_expired t2 e" | "entry_expired t1 e" "\<not> entry_expired t2 e" by blast
  then show ?thesis
  proof cases
    case 1
    then have "cc_cache ?c = AList.update k ?e (cc_cache c)" and r: "fst (ConfigCache_get t1 t2 k c) = Some (en_value e)"
      by (simp_all add: ConfigCache_get_def get_read_def Some)
    from distinct_change(1) [OF d this(1)] cached_change(1) [OF this(1), of k'] show ?thesis using v r by auto
  next
    case 2
    then have "cc_cache ?c = AList.delete k (cc_cache c)" and r: "fst (ConfigCache_get t1 t2 k c) = None"
      by (simp_all add: ConfigCache_get_def get_read_def get_erase_def Some)
    from distinct_change(2) [OF d this(1)] cached_change(2) [OF this(1), of k'] show ?thesis using r by auto
  next
    case 3
    then have "ConfigCache_get t1 t2 k c = (None, c)" by (simp add: ConfigCache_get_def get_read_def get_erase_def Some)
    then show ?thesis using d by simp
  qed
qed

lemma remove_cached:
  assumes d: "distinct_keys c"
  shows "distinct_keys (snd (ConfigCache_remove k c))
    \<and> (cached (snd (ConfigCache_remove k c)) k' = Some w \<longrightarrow> k' \<noteq> k \<and> cached c k' = Some w)"
proof (cases "map_of (cc_cache c) k")
  case None
  then have "cached c k = None" by (simp add: cached_def)
  then show ?thesis using d None by (auto simp: ConfigCache_remove_def)
next
  case (Some e)
  then have "cc_cache (snd (ConfigCache_remove k c)) = AList.delete k (cc_cache c)" by (simp add: ConfigCache_remove_def)
  from distinct_change(2) [OF d this] cached_change(2) [OF this, of k'] show ?thesis by auto
qed

lemma cleanup_cached:
  assumes "distinct_keys c"
  shows "distinct_keys (snd (ConfigCache_cleanup now c)) \<and> (cached (snd (ConfigCache_cleanup now c)) k = Some w \<longrightarrow> cached c k = Some w)"
  using assms by (auto simp: cc_op_defs cached_def distinct_map_filter)

section \<open>Histories\<close>

datatype mgr_op = CmSet bool string json | CmAppend string json | CmGet string | CmHas string | CmRemove string
  | CmLoad string | CmFileChanged string FileEvent | CmMerge json | CmClear | CmTidy
  | CmSetSchema string json | CmValidate string | CmValidateAll | CmOnChanged | CmRemoveCallback nat

datatype mgr_out = OutBool bool | OutValue "json option" | OutResult ValidationResult | OutId nat | OutUnit

fun mgr_step :: "json_lib \<Rightarrow> (string \<Rightarrow> json option) \<Rightarrow> (nat \<Rightarrow> int) \<Rightarrow> mgr_op \<Rightarrow> config_manager \<Rightarrow> mgr_out \<times> config_manager" where
  "mgr_step L files clk (CmSet rvalue key v) m = apfst OutBool (ConfigManager_set L clk rvalue key v m)"
| "mgr_step L files clk (CmAppend key v) m = apfst OutBool (ConfigManager_append L clk key v m)"
| "mgr_step L files clk (CmGet key) m = apfst OutValue (ConfigManager_get clk key m)"
| "mgr_step L files clk (CmHas key) m = apfst OutBool (ConfigManager_has clk key m)"
| "mgr_step L files clk (CmRemove key) m = apfst OutBool (ConfigManager_remove clk key m)"
| "mgr_step L files clk (CmLoad path) m = apfst OutBool (loadFromFile L files clk path m)"
| "mgr_step L files clk (CmFileChanged path event) m = (OutUnit, onFileChanged L files clk path event m)"
| "mgr_step L files clk (CmMerge src) m = (OutUnit, ConfigManager_merge src m)"
| "mgr_step L files clk CmClear m = (OutUnit, ConfigManager_clear m)"
| "mgr_step L files clk CmTidy m = (OutUnit, ConfigManager_tidy (clk 0) m)"
| "mgr_step L files clk (CmSetSchema path schema) m = apfst OutBool (ConfigManager_setSchema path schema m)"
| "mgr_step L files clk (CmValidate path) m = apfst OutResult (ConfigManager_validate L clk path m)"
| "mgr_step L files clk CmValidateAll m = (OutResult (validateAll L m), m)"
| "mgr_step L files clk CmOnChanged m = apfst OutId (onChanged m)"
| "mgr_step L files clk (CmRemoveCallback i) m = apfst OutBool (ConfigManager_removeCallback i m)"

fun mgr_run :: "json_lib \<Rightarrow> (string \<Rightarrow> json option) \<Rightarrow> ((nat \<Rightarrow> int) \<times> mgr_op) list \<Rightarrow> config_manager \<Rightarrow> mgr_out list \<times> config_manager" where
  "mgr_run L files [] m = ([], m)"
| "mgr_run L files ((clk, op) # ops) m =
     (let (out, m1) = mgr_step L files clk op m; (outs, m2) = mgr_run L files ops m1 in (out # outs, m2))"

text \<open>The keys an operation names; a deleted file is removed under its name after a separator.\<close>

fun op_keys :: "mgr_op \<Rightarrow> string set" where
  "op_keys (CmSet rvalue key v) = {key}"
| "op_keys (CmAppend key v) = {key}"
| "op_keys (CmGet key) = {key}"
| "op_keys (CmHas key) = {key}"
| "op_keys (CmRemove key) = {key}"
| "op_keys (CmValidate key) = {key}"
| "op_keys (CmFileChanged path DELETED) = {CHR ''/'' # stem path}"
| "op_keys op = {}"

text \<open>Keys that address separate parts of the document.\<close>

definition separate :: "string set \<Rightarrow> bool" where
  "separate K \<longleftrightarrow> (\<forall>k \<in> K. canonical k) \<and> (\<forall>k \<in> K. \<forall>k' \<in> K. k \<noteq> k' \<longrightarrow> \<not> prefix (segments k) (segments k'))"

definition cache_coherent :: "string set \<Rightarrow> config_manager \<Rightarrow> bool" where
  "cache_coherent K m \<longleftrightarrow> op_enable_caching (cm_options m) \<and> distinct_keys (cm_cache m)
     \<and> (\<forall>k v. cached (cm_cache m) k = Some v \<longrightarrow> k \<in> K \<and> path_get (segments k) (cm_config m) = Some v)"

text \<open>Two managers that differ in their caches and metrics only.\<close>

definition alike :: "config_manager \<Rightarrow> config_manager \<Rightarrow> bool" where
  "alike m n \<longleftrightarrow> cm_config m = cm_config n \<and> cm_validator m = cm_validator n \<and> cm_callbacks m = cm_callbacks n
     \<and> cm_nextCallbackId m = cm_nextCallbackId n \<and> cm_notified m = cm_notified n
     \<and> op_enable_validation (cm_options m) = op_enable_validation (cm_options n)"

definition uncached :: "config_manager \<Rightarrow> bool" where
  "uncached m \<longleftrightarrow> \<not> op_enable_caching (cm_options m)"

lemma metrics_simps [simp]:
  "cm_config (updateOperationMetrics t a b m) = cm_config m" "cm_cache (updateOperationMetrics t a b m) = cm_cache m"
  "cm_validator (updateOperationMetrics t a b m) = cm_validator m" "cm_callbacks (updateOperationMetrics t a b m) = cm_callbacks m"
  "cm_nextCallbackId (updateOperationMetrics t a b m) = cm_nextCallbackId m" "cm_notified (updateOperationMetrics t a b m) = cm_notified m"
  "cm_options (updateOperationMetrics t a b m) = cm_options m"
  by (simp_all add: updateOperationMetrics_def Let_def)

lemma notify_simps [simp]:
  "cm_config (notifyChanges p m) = cm_config m" "cm_cache (notifyChanges p m) = cm_cache m"
  "cm_validator (notifyChanges p m) = cm_validator m" "cm_callbacks (notifyChanges p m) = cm_callbacks m"
  "cm_nextCallbackId (notifyChanges p m) = cm_nextCallbackId m" "cm_options (notifyChanges p m) = cm_options m"
  "cm_notified (notifyChanges p m) = cm_notified m @ map (\<lambda>i. (i, p)) (cm_callbacks m)"
  by (simp_all add: notifyChanges_def)

lemma put_clear_simps [simp]:
  "cm_config (put_cached now k v m) = cm_config m" "cm_config (clear_cached m) = cm_config m"
  "cm_validator (put_cached now k v m) = cm_validator m" "cm_validator (clear_cached m) = cm_validator m"
  "cm_callbacks (put_cached now k v m) = cm_callbacks m" "cm_callbacks (clear_cached m) = cm_callbacks m"
  "cm_nextCallbackId (put_cached now k v m) = cm_nextCallbackId m" "cm_nextCallbackId (clear_cached m) = cm_nextCallbackId m"
  "cm_notified (put_cached now k v m) = cm_notified m" "cm_notified (clear_cached m) = cm_notified m"
  "cm_options (put_cached now k v m) = cm_options m" "cm_options (clear_cached m) = cm_options m"
  by (simp_all add: put_cached_def clear_cached_def)

lemma validate_first_simps:
  assumes "validate_first L key v m = (b, m')"
  shows "cm_config m' = cm_config m" "cm_cache m' = cm_cache m" "cm_validator m' = cm_validator m" "cm_callbacks m' = cm_callbacks m"
    "cm_nextCallbackId m' = cm_nextCallbackId m" "cm_notified m' = cm_notified m" "cm_options m' = cm_options m"
    "b = (op_enable_validation (cm_options m) \<longrightarrow> vr_isValid (ConfigValidator_validate L v key (cm_validator m)))"
  using assms by (auto simp: validate_first_def split: if_splits)

section \<open>Coherence\<close>

lemma cache_coherentD: "cache_coherent K m \<Longrightarrow> cached (cm_cache m) k = Some v \<Longrightarrow> k \<in> K \<and> path_get (segments k) (cm_config m) = Some v"
  by (simp add: cache_coherent_def)

lemma separateD:
  assumes "separate K" "k \<in> K" "k' \<in> K" "k \<noteq> k'"
  shows "\<not> prefix (segments k) (segments k')" "\<not> prefix (segments k') (segments k)"
  using assms by (auto simp: separate_def)

text \<open>A write and a removal keep the cache coherent when they change the entry of their key.\<close>

lemma cache_coherent_write:
  assumes K: "separate K" "key \<in> K" and m: "cache_coherent K m" and seg: "segments key \<noteq> []"
  shows "cache_coherent K (put_cached now key w (m\<lparr>cm_config := path_put (segments key) w (cm_config m)\<rparr>))"
proof -
  have d: "distinct_keys (cm_cache m)" and on: "op_enable_caching (cm_options m)" using m by (simp_all add: cache_coherent_def)
  have "k \<in> K \<and> path_get (segments k) (path_put (segments key) w (cm_config m)) = Some v"
    if c: "cached (ConfigCache_put now key w 0 (cm_cache m)) k = Some v" for k v
  proof (cases "k = key")
    case True
    then show ?thesis using K(2) put_cached_only [OF d, of now key w 0] c path_put_below [of "segments key" "[]"] by simp
  next
    case False
    then have "cached (cm_cache m) k = Some v" using put_cached_only [OF d] c by blast
    then have k: "k \<in> K" "path_get (segments k) (cm_config m) = Some v" using cache_coherentD [OF m] by simp_all
    then show ?thesis using path_put_beside [OF separateD [OF K(1,2) k(1)]] False by simp
  qed
  then show ?thesis using on put_cached_only [OF d, of now key w 0] by (simp add: cache_coherent_def put_cached_def)
qed

lemma cache_coherent_remove:
  assumes K: "separate K" "key \<in> K" and m: "cache_coherent K m" and r: "removeLoop (segments key) (cm_config m) = Some config"
  shows "cache_coherent K (m\<lparr>cm_config := config, cm_cache := snd (ConfigCache_remove key (cm_cache m))\<rparr>)"
proof -
  have d: "distinct_keys (cm_cache m)" and on: "op_enable_caching (cm_options m)" using m by (simp_all add: cache_coherent_def)
  have "k \<in> K \<and> path_get (segments k) config = Some v" if c: "cached (snd (ConfigCache_remove key (cm_cache m))) k = Some v" for k v
  proof -
    have "k \<noteq> key" "cached (cm_cache m) k = Some v" using remove_cached [OF d] c by blast+
    then have k: "k \<in> K" "path_get (segments k) (cm_config m) = Some v" using cache_coherentD [OF m] by simp_all
    then show ?thesis using removeLoop_beside [OF r separateD [OF K(1,2) k(1)]] \<open>k \<noteq> key\<close> by simp
  qed
  then show ?thesis using on remove_cached [OF d, of key] by (simp add: cache_coherent_def)
qed

lemma cache_coherent_fewer:
  assumes "cache_coherent K m" "cm_config m' = cm_config m" "cm_options m' = cm_options m" "distinct_keys (cm_cache m')"
    "\<And>k v. cached (cm_cache m') k = Some v \<Longrightarrow> cached (cm_cache m) k = Some v"
  shows "cache_coherent K m'"
  using assms by (auto simp: cache_coherent_def)

lemma cache_coherent_cleared: "op_enable_caching (cm_options m) \<Longrightarrow> cache_coherent K (clear_cached m)"
  by (simp add: cache_coherent_def clear_cached_def ConfigCache_clear_def cached_def)

lemma cache_coherent_read:
  assumes "cache_coherent K m" "key \<in> K" "path_get (segments key) (cm_config m) = Some v"
  shows "cache_coherent K (put_cached now key v m)"
proof -
  have d: "distinct_keys (cm_cache m)" using assms(1) by (simp add: cache_coherent_def)
  have "k \<in> K \<and> path_get (segments k) (cm_config m) = Some w" if "cached (ConfigCache_put now key v 0 (cm_cache m)) k = Some w" for k w
    using that assms cache_coherentD [OF assms(1)] put_cached_only [OF d, of now key v 0 k w] by (cases "k = key") auto
  then show ?thesis using assms(1) put_cached_only [OF d] by (simp add: cache_coherent_def put_cached_def)
qed

text \<open>Only the document, the cache and the options matter.\<close>

lemma cache_coherent_cong: "cm_config m' = cm_config m \<Longrightarrow> cm_options m' = cm_options m \<Longrightarrow> cm_cache m' = cm_cache m \<Longrightarrow> cache_coherent K m' = cache_coherent K m"
  by (simp add: cache_coherent_def)

lemma cache_coherent_more [simp]:
  "cache_coherent K (updateOperationMetrics t a b m) = cache_coherent K m" "cache_coherent K (notifyChanges p m) = cache_coherent K m"
  "cache_coherent K (m\<lparr>cm_metrics := x\<rparr>) = cache_coherent K m"
  by (simp_all add: cache_coherent_def)

section \<open>Operations with and without the cache\<close>

text \<open>The relation of a manager with a coherent cache to one without.\<close>

definition same_view :: "string set \<Rightarrow> config_manager \<Rightarrow> config_manager \<Rightarrow> bool" where
  "same_view K m n \<longleftrightarrow> alike m n \<and> uncached n \<and> cache_coherent K m"

lemma get_exact:
  assumes m: "cache_coherent K m" and k: "key \<in> K"
  shows "fst (ConfigManager_get clk key m) = path_get (segments key) (cm_config m)
    \<and> alike (snd (ConfigManager_get clk key m)) m \<and> cache_coherent K (snd (ConfigManager_get clk key m))"
proof -
  have on: "op_enable_caching (cm_options m)" and d: "distinct_keys (cm_cache m)" using m by (simp_all add: cache_coherent_def)
  obtain r c where g: "ConfigCache_get (clk 1) (clk 2) key (cm_cache m) = (r, c)" by fastforce
  note gc = get_cached [OF d, of "clk 1" "clk 2" key, unfolded g fst_conv snd_conv]
  have coh: "cache_coherent K (m\<lparr>cm_cache := c, cm_metrics := x\<rparr>)" for x
    by (rule cache_coherent_fewer [OF m]) (use gc in auto)
  show ?thesis
  proof (cases r)
    case (Some v)
    then have "path_get (segments key) (cm_config m) = Some v" using gc cache_coherentD [OF m] by blast
    then show ?thesis using coh by (simp add: ConfigManager_get_def on g Some alike_def del: One_nat_def)
  next
    case None
    then show ?thesis using coh cache_coherent_read [OF coh k]
      by (cases "path_get (segments key) (cm_config m)") (simp_all add: ConfigManager_get_def on g alike_def None del: One_nat_def)
  qed
qed

lemma get_uncached:
  "uncached n \<Longrightarrow> fst (ConfigManager_get clk key n) = path_get (segments key) (cm_config n)
    \<and> alike (snd (ConfigManager_get clk key n)) n \<and> uncached (snd (ConfigManager_get clk key n))"
  by (auto simp: ConfigManager_get_def uncached_def alike_def put_cached_def split: option.split)

lemma alike_refl [simp]: "alike m m" by (simp add: alike_def)

lemma alike_trans: "alike l m \<Longrightarrow> alike m n \<Longrightarrow> alike l n" by (simp add: alike_def)

lemma alike_sym: "alike m n \<Longrightarrow> alike n m" by (simp add: alike_def)

lemma same_viewI: "alike m' m \<Longrightarrow> alike n' n \<Longrightarrow> same_view K m n \<Longrightarrow> uncached n' \<Longrightarrow> cache_coherent K m' \<Longrightarrow> same_view K m' n'"
  by (auto simp: same_view_def alike_def)

text \<open>What a write under a canonical key does to the document.\<close>

lemma set_document:
  assumes L: "json_lib_ok L" and c: "canonical key" and s: "setLoop L appending v (splitString key) [] j = (j', out)"
  obtains (stored) w where "out = Inr (Some (key, w))" "j' = path_put (segments key) w j" "segments key \<noteq> []"
      "new_value appending v (path_get (segments key) j) = Some w"
  | (failed) "j' = j" "\<And>x. out \<noteq> Inr (Some x)" "key = [] \<or> \<not> (is_object j \<or> j = JNull) \<or> new_value appending v (path_get (segments key) j) = None"
proof (cases "key = []")
  case True
  then show thesis using s failed by (auto simp: splitString_def)
next
  case False
  have seg: "splitString key = segments key" "segments key \<noteq> []" "[] \<notin> set (segments key)"
    using c segments_ne [OF c False] by (simp_all add: segments_canonical canonical_def)
  show thesis
  proof (cases "is_object j \<or> j = JNull")
    case True
    show thesis
      using s setLoop_spec [OF L True seg(2,3), of appending v "[]"] stored failed seg(2)
      by (auto simp: seg(1) built_canonical [OF c False] split: option.splits)
  next
    case no: False
    then show thesis using s setLoop_throws [OF L no seg(2,3), of appending v "[]"] failed by (auto simp: seg(1))
  qed
qed

lemma canonical_slash: "\<not> canonical ''/''"
  by (simp add: canonical_def splitString_def)

lemma write_view:
  assumes L: "json_lib_ok L" and K: "separate K" "key \<in> K" and v: "same_view K m n"
  shows "fst (setOrAppendImpl L clk rv key x ap m) = fst (setOrAppendImpl L clk' rv key x ap n)
    \<and> same_view K (snd (setOrAppendImpl L clk rv key x ap m)) (snd (setOrAppendImpl L clk' rv key x ap n))"
proof -
  have c: "canonical key" "key \<noteq> ''/''" using K canonical_slash by (auto simp: separate_def)
  have al: "alike m n" "uncached n" "cache_coherent K m" using v by (simp_all add: same_view_def)
  obtain b m1 where m1: "validate_first L key x m = (b, m1)" by fastforce
  obtain b' n1 where n1: "validate_first L key x n = (b', n1)" by fastforce
  note ms = validate_first_simps [OF m1] and ns = validate_first_simps [OF n1]
  have b: "b' = b" using ms(8) ns(8) al by (simp add: alike_def)
  have v1: "alike m1 n1" "uncached n1" "cache_coherent K m1"
    using al ms(1-7) ns(1-7) by (simp_all add: alike_def uncached_def cache_coherent_def)
  show ?thesis
  proof (cases b)
    case False
    then show ?thesis using v1 b by (simp add: setOrAppendImpl_def m1 n1 same_view_def)
  next
    case True
    define w where "w = (if op_enable_validation (cm_options m1) \<and> rv then jl_moved L else x)"
    have w: "w = (if op_enable_validation (cm_options n1) \<and> rv then jl_moved L else x)" using v1 by (simp add: w_def alike_def)
    obtain j' out where s: "setLoop L ap w (splitString key) [] (cm_config m1) = (j', out)" by fastforce
    have s': "setLoop L ap w (splitString key) [] (cm_config n1) = (j', out)" using s v1 by (simp add: alike_def)
    note unfold = setOrAppendImpl_def m1 n1 b True w_def [symmetric] w [symmetric] c(2) s s'
    from L c(1) s show ?thesis
    proof (cases rule: set_document)
      case (stored y)
      then show ?thesis using v1 cache_coherent_write [OF K v1(3) stored(3), of "clk 1" y]
        by (simp add: unfold same_view_def alike_def uncached_def del: One_nat_def)
    next
      case failed
      then show ?thesis using v1 by (cases out; cases "projr out") (auto simp: unfold same_view_def alike_def uncached_def cache_coherent_def)
    qed
  qed
qed

lemma remove_view:
  assumes K: "separate K" "key \<in> K" and v: "same_view K m n"
  shows "fst (ConfigManager_remove clk key m) = fst (ConfigManager_remove clk' key n)
    \<and> same_view K (snd (ConfigManager_remove clk key m)) (snd (ConfigManager_remove clk' key n))"
proof -
  have al: "alike m n" "uncached n" "cache_coherent K m" using v by (simp_all add: same_view_def)
  show ?thesis
  proof (cases "removeLoop (segments key) (cm_config m)")
    case None
    then show ?thesis using al v by (simp add: ConfigManager_remove_def alike_def)
  next
    case (Some config)
    have "op_enable_caching (cm_options m)" using al(3) by (simp add: cache_coherent_def)
    then show ?thesis using al Some cache_coherent_remove [OF K al(3) Some]
      by (simp add: ConfigManager_remove_def same_view_def alike_def uncached_def Let_def)
  qed
qed

lemma load_view:
  assumes v: "same_view K m n"
  shows "fst (loadFromFile L files clk path m) = fst (loadFromFile L files clk' path n)
    \<and> same_view K (snd (loadFromFile L files clk path m)) (snd (loadFromFile L files clk' path n))"
proof -
  have al: "alike m n" "uncached n" "cache_coherent K m" using v by (simp_all add: same_view_def)
  then have "op_enable_caching (cm_options (m\<lparr>cm_config := config\<rparr>))" for config by (simp add: cache_coherent_def)
  from cache_coherent_cleared [OF this] show ?thesis using al
    by (auto simp: loadFromFile_def same_view_def alike_def uncached_def Let_def split: option.split sum.split)
qed

lemma get_view:
  assumes "key \<in> K" and v: "same_view K m n"
  shows "fst (ConfigManager_get clk key m) = fst (ConfigManager_get clk' key n)
    \<and> same_view K (snd (ConfigManager_get clk key m)) (snd (ConfigManager_get clk' key n))"
proof -
  have al: "alike m n" "uncached n" "cache_coherent K m" using v by (simp_all add: same_view_def)
  note e = get_exact [OF al(3) assms(1), of clk] and u = get_uncached [OF al(2), of clk' key]
  show ?thesis using e u al(1) same_viewI [OF _ _ v] by (simp add: alike_def)
qed

lemma has_exact:
  assumes m: "cache_coherent K m" and k: "key \<in> K"
  shows "fst (ConfigManager_has clk key m) = (path_get (segments key) (cm_config m) \<noteq> None)
    \<and> alike (snd (ConfigManager_has clk key m)) m \<and> cache_coherent K (snd (ConfigManager_has clk key m))"
proof -
  have on: "op_enable_caching (cm_options m)" using m by (simp add: cache_coherent_def)
  show ?thesis
  proof (cases "ConfigCache_contains (clk 1) key (cm_cache m)")
    case True
    then obtain v where "cached (cm_cache m) key = Some v"
      by (auto simp: ConfigCache_contains_def cached_def split: option.splits)
    then show ?thesis using True m cache_coherentD [OF m]
      by (simp add: ConfigManager_has_def on alike_def Let_def del: One_nat_def)
  next
    case False
    define m1 where "m1 = m\<lparr>cm_metrics := (cm_metrics m)\<lparr>me_cache_misses := me_cache_misses (cm_metrics m) + 1\<rparr>\<rparr>"
    have m1: "alike m1 m" "cache_coherent K m1" "cm_config m1 = cm_config m" using m by (simp_all add: m1_def alike_def)
    show ?thesis using get_exact [OF m1(2) k, of "\<lambda>i. clk (i + 2)"] m1(1,3)
      by (simp add: ConfigManager_has_def on False m1_def [symmetric] Let_def alike_def split_beta del: One_nat_def)
  qed
qed

lemma has_uncached:
  "uncached n \<Longrightarrow> fst (ConfigManager_has clk key n) = (path_get (segments key) (cm_config n) \<noteq> None)
    \<and> alike (snd (ConfigManager_has clk key n)) n \<and> uncached (snd (ConfigManager_has clk key n))"
  using get_uncached [of n "\<lambda>i. clk (i + 2)" key]
  by (simp add: ConfigManager_has_def uncached_def Let_def alike_def split_beta)

lemma has_view:
  assumes "key \<in> K" and v: "same_view K m n"
  shows "fst (ConfigManager_has clk key m) = fst (ConfigManager_has clk' key n)
    \<and> same_view K (snd (ConfigManager_has clk key m)) (snd (ConfigManager_has clk' key n))"
proof -
  have al: "alike m n" "uncached n" "cache_coherent K m" using v by (simp_all add: same_view_def)
  note e = has_exact [OF al(3) assms(1), of clk] and u = has_uncached [OF al(2), of clk' key]
  show ?thesis using e u al(1) same_viewI [OF _ _ v] by (simp add: alike_def)
qed

lemma validate_view:
  assumes "key \<in> K" and v: "same_view K m n"
  shows "fst (ConfigManager_validate L clk key m) = fst (ConfigManager_validate L clk' key n)
    \<and> same_view K (snd (ConfigManager_validate L clk key m)) (snd (ConfigManager_validate L clk' key n))"
  using get_view [OF assms, of clk clk']
  by (auto simp: ConfigManager_validate_def same_view_def alike_def split: prod.splits option.splits)

lemma changed_view:
  assumes K: "separate K" "op_keys (CmFileChanged path event) \<subseteq> K" and v: "same_view K m n"
  shows "same_view K (onFileChanged L files clk path event m) (onFileChanged L files clk' path event n)"
proof -
  have load: "same_view K (onFileChanged L files clk path e m) (onFileChanged L files clk' path e n)" if "e = MODIFIED \<or> e = CREATED" for e
    using load_view [OF v, of L files clk path clk'] that
    by (auto simp: onFileChanged_def same_view_def alike_def uncached_def split: prod.splits bool.splits)
  show ?thesis using load [of event] remove_view [OF K(1) _ v, of "CHR ''/'' # stem path" clk clk'] K(2) v
    by (cases event) (auto simp: onFileChanged_def)
qed

lemma step_view:
  assumes L: "json_lib_ok L" and K: "separate K" "op_keys op \<subseteq> K" and v: "same_view K m n"
  shows "fst (mgr_step L files clk op m) = fst (mgr_step L files clk' op n)
    \<and> same_view K (snd (mgr_step L files clk op m)) (snd (mgr_step L files clk' op n))"
proof -
  have al: "alike m n" "uncached n" "cache_coherent K m" using v by (simp_all add: same_view_def)
  have on: "op_enable_caching (cm_options m)" and d: "distinct_keys (cm_cache m)" using al(3) by (simp_all add: cache_coherent_def)
  have cleared: "cache_coherent K (clear_cached (m\<lparr>cm_config := config\<rparr>))" for config
    by (rule cache_coherent_cleared) (simp add: on)
  show ?thesis
  proof (cases op)
    case (CmSet rv key x)
    then show ?thesis using write_view [OF L K(1) _ v, of key clk rv x False clk'] K(2) by (simp add: ConfigManager_set_def)
  next
    case (CmAppend key x)
    then show ?thesis using write_view [OF L K(1) _ v, of key clk False x True clk'] K(2) by (simp add: ConfigManager_append_def)
  next
    case (CmGet key)
    then show ?thesis using get_view [OF _ v, of key clk clk'] K(2) by simp
  next
    case (CmHas key)
    then show ?thesis using has_view [OF _ v, of key clk clk'] K(2) by simp
  next
    case (CmRemove key)
    then show ?thesis using remove_view [OF K(1) _ v, of key clk clk'] K(2) by simp
  next
    case (CmLoad path)
    then show ?thesis using load_view [OF v, of L files clk path clk'] by simp
  next
    case (CmFileChanged path event)
    then show ?thesis using changed_view [OF K(1) _ v] K(2) by simp
  next
    case (CmMerge src)
    then show ?thesis using al cleared by (simp add: ConfigManager_merge_def same_view_def alike_def uncached_def)
  next
    case CmClear
    then show ?thesis using al cleared by (simp add: ConfigManager_clear_def same_view_def alike_def uncached_def)
  next
    case CmTidy
    have "cache_coherent K (m\<lparr>cm_cache := snd (ConfigCache_cleanup now (cm_cache m))\<rparr>)" for now
      by (rule cache_coherent_fewer [OF al(3)]) (use cleanup_cached [OF d] in auto)
    then show ?thesis using CmTidy al by (simp add: ConfigManager_tidy_def same_view_def alike_def uncached_def)
  next
    case (CmValidate key)
    then show ?thesis using validate_view [OF _ v, of key L clk clk'] K(2) by simp
  qed (use al v in \<open>auto simp: ConfigManager_setSchema_def validateAll_def onChanged_def ConfigManager_removeCallback_def same_view_def alike_def
         uncached_def cache_coherent_def\<close>)
qed

lemma run_view:
  "json_lib_ok L \<Longrightarrow> separate K \<Longrightarrow> \<forall>x \<in> set ops. op_keys (snd x) \<subseteq> K \<Longrightarrow> map snd ops' = map snd ops \<Longrightarrow> same_view K m n \<Longrightarrow>
   fst (mgr_run L files ops m) = fst (mgr_run L files ops' n) \<and> same_view K (snd (mgr_run L files ops m)) (snd (mgr_run L files ops' n))"
proof (induction ops arbitrary: ops' m n)
  case (Cons x ops)
  obtain clk op where x: "x = (clk, op)" by fastforce
  obtain clk' ops'' where o: "ops' = (clk', op) # ops''" "map snd ops'' = map snd ops"
    using Cons.prems(4) by (cases ops') (auto simp: x)
  have K: "op_keys op \<subseteq> K" using Cons.prems(3) by (simp add: x)
  note st = step_view [OF Cons.prems(1,2) K Cons.prems(5), of files clk clk']
  have "\<forall>x \<in> set ops. op_keys (snd x) \<subseteq> K" using Cons.prems(3) by simp
  from Cons.IH [OF Cons.prems(1,2) this o(2) conjunct2 [OF st]] show ?case
    using st by (simp add: x o(1) Let_def split_beta)
qed simp

section \<open>Properties\<close>

text \<open>A history on a new manager whose clock stands still, with no files.\<close>

definition demo_run :: "Options \<Rightarrow> mgr_op list \<Rightarrow> mgr_out list" where
  "demo_run opts ops = fst (mgr_run demo_lib (\<lambda>p. None) (map (Pair (\<lambda>i. 0)) ops) (ConfigManager_new 0 opts))"

text \<open>
  C19: The cache is transparent for keys that address separate parts of the document. For every history whose keys are canonical
  and not below one another, of writes, appends, reads, removals, reloads, merges, validations and callbacks, a manager with
  a cache of any size and lifetime gives the answers, the document and the notifications of a manager without one, at
  any times.
\<close>

theorem cache_transparent:
  assumes "json_lib_ok L" "separate K" "\<forall>x \<in> set ops. op_keys (snd x) \<subseteq> K" "map snd ops' = map snd ops"
  shows "let (outs, m) = mgr_run L files ops (ConfigManager_new now (opts\<lparr>op_enable_caching := True\<rparr>));
             (outs', n) = mgr_run L files ops' (ConfigManager_new now' (opts\<lparr>op_enable_caching := False\<rparr>))
         in outs = outs' \<and> cm_config m = cm_config n \<and> cm_notified m = cm_notified n"
proof -
  have "same_view K (ConfigManager_new now (opts\<lparr>op_enable_caching := True\<rparr>)) (ConfigManager_new now' (opts\<lparr>op_enable_caching := False\<rparr>))"
    by (simp add: same_view_def alike_def uncached_def cache_coherent_def ConfigManager_new_def ConfigCache_new_def cached_def)
  from run_view [OF assms this, of files] show ?thesis by (simp add: same_view_def alike_def Let_def split_beta)
qed

theorem cache_transparent_witness:
  "demo_run (Options_default\<lparr>op_enable_caching := True\<rparr>)
     [CmSet False ''cam/gain'' (JInt 1), CmGet ''cam/gain'', CmGet ''focus'', CmSet False ''cam/gain'' (JInt 2), CmGet ''cam/gain'',
      CmRemove ''cam/gain'', CmHas ''cam/gain'']
   = [OutBool True, OutValue (Some (JInt 1)), OutValue None, OutBool True, OutValue (Some (JInt 2)), OutBool True, OutBool False]"
proof -
  let ?K = "{''cam/gain'', ''focus''}"
  let ?ops = "[CmSet False ''cam/gain'' (JInt 1), CmGet ''cam/gain'', CmGet ''focus'', CmSet False ''cam/gain'' (JInt 2), CmGet ''cam/gain'',
      CmRemove ''cam/gain'', CmHas ''cam/gain'']"
  have "separate ?K" by (auto simp: separate_def canonical_def segments_def splitString_def)
  from cache_transparent [OF demo_lib_ok this, of "map (Pair (\<lambda>i. 0)) ?ops" "map (Pair (\<lambda>i. 0)) ?ops" "\<lambda>p. None" 0 Options_default 0]
  have "demo_run (Options_default\<lparr>op_enable_caching := True\<rparr>) ?ops = demo_run (Options_default\<lparr>op_enable_caching := False\<rparr>) ?ops"
    by (simp add: demo_run_def Let_def split_beta)
  moreover have "demo_run (Options_default\<lparr>op_enable_caching := False\<rparr>) ?ops =
    [OutBool True, OutValue (Some (JInt 1)), OutValue None, OutBool True, OutValue (Some (JInt 2)), OutBool True, OutBool False]"
    by code_simp
  ultimately show ?thesis by simp
qed

text \<open>Without the conditions on the keys the cache shows values that are no longer in the document.\<close>

lemma stale_slash:
  "demo_run Options_default [CmSet False ''/a'' (JInt 1), CmGet ''/a'', CmSet False ''/a'' (JInt 2), CmGet ''/a'']
   = [OutBool True, OutValue (Some (JInt 1)), OutBool True, OutValue (Some (JInt 1))]"
  by code_simp

lemma stale_parent:
  "demo_run Options_default [CmSet False ''a/b'' (JInt 1), CmGet ''a'', CmSet False ''a/b'' (JInt 2), CmGet ''a'']
   = [OutBool True, OutValue (Some (JObject [(''b'', JInt 1)])), OutBool True, OutValue (Some (JObject [(''b'', JInt 1)]))]"
  by code_simp

lemma stale_removed:
  "demo_run Options_default [CmSet False ''a'' (JInt 1), CmRemove ''/a'', CmGet ''a'']
   = [OutBool True, OutBool True, OutValue (Some (JInt 1))]"
  by code_simp

lemma stale_deleted_file:
  "demo_run Options_default [CmSet False ''a'' (JInt 1), CmFileChanged ''conf/a.json'' DELETED, CmHas ''a'']
   = [OutBool True, OutUnit, OutBool True]"
  by code_simp

text \<open>A value that is moved in is validated, and null is stored.\<close>

lemma moved_value_lost:
  "demo_run Options_default [CmSet True ''a'' (JInt 1), CmGet ''a''] = [OutBool True, OutValue (Some JNull)]"
  by code_simp

text \<open>A key that ends in a separator fails, after it has replaced the value by an empty object.\<close>

lemma trailing_slash_overwrites:
  "demo_run Options_default [CmSet False ''a'' (JInt 1), CmSet False ''a/'' (JInt 2), CmClear, CmGet ''a'']
     = [OutBool True, OutBool False, OutUnit, OutValue None]
   \<and> demo_run (Options_default\<lparr>op_enable_caching := False\<rparr>) [CmSet False ''a'' (JInt 1), CmSet False ''a/'' (JInt 2), CmGet ''a'']
     = [OutBool True, OutBool False, OutValue (Some (JObject []))]"
  by (rule conjI) code_simp+

text \<open>A path that is not there is invalid without an error.\<close>

lemma validate_missing_inconsistent:
  "fst (ConfigManager_get clk key m) = None \<Longrightarrow>
   \<not> consistent (fst (ConfigManager_validate L clk key m)) \<and> getErrorMessage (fst (ConfigManager_validate L clk key m)) = []"
  by (auto simp: ConfigManager_validate_def consistent_def getErrorMessage_def split: prod.splits option.splits)

text \<open>
  C23: A write and a read agree. A write under a canonical key into a document that is an object or still null, of a value that
  the validator accepts and that is not moved away, succeeds; the value is then at its path, every path beside it is
  unchanged, the callbacks hear of exactly that key, and a read returns the value, with any cache.
\<close>

theorem set_then_get:
  assumes L: "json_lib_ok L" and key: "canonical key" "key \<noteq> []" and j: "is_object (cm_config m) \<or> cm_config m = JNull"
    and valid: "op_enable_validation (cm_options m) \<longrightarrow> \<not> rvalue \<and> vr_isValid (ConfigValidator_validate L v key (cm_validator m))"
    and d: "distinct_keys (cm_cache m)"
  shows "let (ok, m') = ConfigManager_set L clk rvalue key v m
         in ok \<and> path_get (segments key @ ps) (cm_config m') = path_get ps v
          \<and> (\<not> prefix (segments key) qs \<and> \<not> prefix qs (segments key) \<longrightarrow> path_get qs (cm_config m') = path_get qs (cm_config m))
          \<and> cm_notified m' = cm_notified m @ map (\<lambda>i. (i, key)) (cm_callbacks m)
          \<and> fst (ConfigManager_get clk' key m') = Some v"
proof -
  obtain b m1 where m1: "validate_first L key v m = (b, m1)" by fastforce
  note ms = validate_first_simps [OF m1]
  have b: "b" using ms(8) valid by simp
  have w: "(if op_enable_validation (cm_options m1) \<and> rvalue then jl_moved L else v) = v" using valid ms(7) by auto
  have slash: "key \<noteq> ''/''" using key canonical_slash by auto
  have ne: "segments key \<noteq> []" using segments_ne [OF key] .
  have seg: "splitString key = segments key" "[] \<notin> set (segments key)"
    using key(1) by (simp_all add: segments_canonical canonical_def)
  define m2 where "m2 = put_cached (clk 1) key v (m1\<lparr>cm_config := path_put (segments key) v (cm_config m)\<rparr>)"
  have set: "ConfigManager_set L clk rvalue key v m = (True, updateOperationMetrics ''set'' (clk 0) (clk 2) (notifyChanges key m2))"
    using setLoop_spec [OF L j ne seg(2), of False v "[]"] b w slash
    by (simp add: ConfigManager_set_def setOrAppendImpl_def m1 seg(1) ms(1) new_value_def built_canonical [OF key] m2_def del: One_nat_def)
  have at: "path_get (segments key) (cm_config m2) = Some v" using path_put_below [of "segments key" "[]"] by (simp add: m2_def)
  have d1: "distinct_keys (cm_cache m1)" using d ms(2) by simp
  have c: "op_enable_caching (cm_options m2) \<Longrightarrow> cached (cm_cache m2) key = Some v \<and> distinct_keys (cm_cache m2)"
    using put_cached_only [OF d1, of "clk 1" key v 0] by (auto simp: m2_def put_cached_def split: if_splits)
  have "fst (ConfigManager_get clk' key m') = Some v"
    if m': "cm_options m' = cm_options m2" "cm_cache m' = cm_cache m2" "cm_config m' = cm_config m2" for m'
    using c get_cached [of "cm_cache m2" "clk' 1" "clk' 2" key] at
    by (auto simp: ConfigManager_get_def m' split: prod.split option.split simp del: One_nat_def)
  then show ?thesis using path_put_below path_put_beside
    by (simp add: set m2_def ms)
qed

theorem set_then_get_witness:
  "let (ok, m') = ConfigManager_set demo_lib (\<lambda>i. 0) False ''cam/gain'' (JInt 5) (ConfigManager_new 0 Options_default)
   in ok \<and> path_get [''cam'', ''gain''] (cm_config m') = Some (JInt 5) \<and> fst (ConfigManager_get (\<lambda>i. 10 ^ 12) ''cam/gain'' m') = Some (JInt 5)"
proof -
  have "canonical ''cam/gain''" "segments ''cam/gain'' = [''cam'', ''gain'']"
    by (simp_all add: canonical_def segments_def splitString_def)
  moreover have "vr_isValid (ConfigValidator_validate demo_lib (JInt 5) ''cam/gain'' (cm_validator (ConfigManager_new 0 Options_default)))"
    by (simp add: ConfigValidator_validate_def ConfigManager_new_def ConfigValidator_new_def addWarning_def ValidationResult_at_def)
  ultimately show ?thesis
    using set_then_get [OF demo_lib_ok, of "''cam/gain''" "ConfigManager_new 0 Options_default" False "JInt 5" "\<lambda>i. 0" "[]" "[]" "\<lambda>i. 10 ^ 12"]
    by (auto simp: ConfigManager_new_def ConfigCache_new_def)
qed

end
