(* ===== verification/Config_Json5.thy ===== *)
theory Config_Json5
  imports Csv_Catalogue
begin

text \<open>
  The conversion of JSON5 to JSON, \<^verbatim>\<open>src/src/config/utils/json5.hpp\<close>: comments are removed, and words before a colon are put
  between quotation marks. A loop over the characters is a recursion that returns the characters pushed from there on, with
  the flags at the end of the input. The class \<^verbatim>\<open>expected\<close> is a sum. Character classes are those of the C locale.
\<close>

section \<open>Errors\<close>

record JSON5ParseError =
  je_message :: string
  je_position :: nat

definition JSON5ParseError_what :: "JSON5ParseError \<Rightarrow> string" where
  "JSON5ParseError_what e = je_message e @ (if je_position e > 0 then '' at position '' @ show_nat (je_position e) else [])"

section \<open>Removing comments\<close>

abbreviation backslash :: char where "backslash \<equiv> CHR 0x5C"
abbreviation quote :: char where "quote \<equiv> CHR 0x22"
abbreviation newline :: char where "newline \<equiv> CHR 0x0A"

definition push :: "string \<Rightarrow> 'a \<times> string \<Rightarrow> 'a \<times> string" where
  "push s r = (fst r, s @ snd r)"

text \<open>The flags are those for a comment to the end of the line, a comment in delimiters, a string and an escape.\<close>

function (sequential) commentLoop :: "bool \<Rightarrow> bool \<Rightarrow> bool \<Rightarrow> bool \<Rightarrow> string \<Rightarrow> (bool \<times> bool) \<times> string" where
  "commentLoop inLine inBlock inString escaped [] = ((inBlock, inString), [])"
| "commentLoop inLine inBlock inString escaped (c # s) =
     (if \<not> inLine \<and> \<not> inBlock \<and> c = backslash \<and> inString then push [c] (commentLoop inLine inBlock inString (\<not> escaped) s)
      else if \<not> inLine \<and> \<not> inBlock \<and> c = quote \<and> \<not> escaped then push [c] (commentLoop inLine inBlock (\<not> inString) escaped s)
      else if escaped then push [c] (commentLoop inLine inBlock inString False s)
      else if inString then push [c] (commentLoop inLine inBlock inString escaped s)
      else if \<not> inBlock \<and> \<not> inLine \<and> s \<noteq> [] \<and> c = CHR ''/'' \<and> hd s = CHR ''/'' then commentLoop True inBlock inString escaped (tl s)
      else if \<not> inBlock \<and> \<not> inLine \<and> s \<noteq> [] \<and> c = CHR ''/'' \<and> hd s = CHR ''*'' then commentLoop inLine True inString escaped (tl s)
      else if inLine then
        (if c = newline then push [newline] (commentLoop False inBlock inString escaped s) else commentLoop inLine inBlock inString escaped s)
      else if inBlock then
        (if s \<noteq> [] \<and> c = CHR ''*'' \<and> hd s = CHR ''/'' then commentLoop inLine False inString escaped (tl s)
         else commentLoop inLine inBlock inString escaped s)
      else push [c] (commentLoop inLine inBlock inString escaped s))"
  by pat_completeness auto
termination commentLoop
  by (relation "measure (\<lambda>(l, b, q, e, s). length s)") auto

definition removeComments :: "string \<Rightarrow> JSON5ParseError + string" where
  "removeComments input =
     (if input = [] then Inr []
      else case commentLoop False False False False input of
          ((inBlock, inString), out) \<Rightarrow>
            if inString then Inl \<lparr>je_message = ''Unterminated string'', je_position = length input\<rparr>
            else if inBlock then Inl \<lparr>je_message = ''Unterminated multi-line comment'', je_position = length input\<rparr>
            else Inr out)"

section \<open>Quoting keys\<close>

definition isalpha :: "char \<Rightarrow> bool" where
  "isalpha c \<longleftrightarrow> (65::nat) \<le> of_char c \<and> of_char c \<le> (90::nat) \<or> (97::nat) \<le> of_char c \<and> of_char c \<le> (122::nat)"

definition word_start :: "char \<Rightarrow> bool" where
  "word_start c \<longleftrightarrow> isalpha c \<or> c = CHR ''_''"

definition word_char :: "char \<Rightarrow> bool" where
  "word_char c \<longleftrightarrow> isalpha c \<or> is_digit c \<or> c = CHR ''_'' \<or> c = CHR ''-''"

definition colon_follows :: "string \<Rightarrow> bool" where
  "colon_follows s = (case dropWhile isspace s of [] \<Rightarrow> False | c # s' \<Rightarrow> c = CHR '':'')"

lemma dropWhile_word_less: "word_start c \<Longrightarrow> length (dropWhile word_char (c # s)) < Suc (length s)"
  using length_dropWhile_le [of word_char s] by (auto simp: word_start_def word_char_def)

function (sequential) keyLoop :: "bool \<Rightarrow> bool \<Rightarrow> string \<Rightarrow> bool \<times> string" where
  "keyLoop inString escaped [] = (inString, [])"
| "keyLoop inString escaped (c # s) =
     (if escaped then push [c] (keyLoop inString False s)
      else if c = backslash \<and> inString then push [c] (keyLoop inString True s)
      else if c = quote then push [c] (keyLoop (\<not> inString) escaped s)
      else if inString then push [c] (keyLoop inString escaped s)
      else if word_start c then
        (let word = takeWhile word_char (c # s); rest = dropWhile word_char (c # s)
         in push (if colon_follows rest then quote # word @ [quote] else word) (keyLoop inString escaped rest))
      else push [c] (keyLoop inString escaped s))"
  by pat_completeness auto
termination keyLoop
  by (relation "measure (\<lambda>(q, e, s). length s)") (auto dest: dropWhile_word_less simp del: dropWhile.simps)

definition convertJSON5toJSON :: "string \<Rightarrow> JSON5ParseError + string" where
  "convertJSON5toJSON json5 =
     (case removeComments json5 of
        Inl e \<Rightarrow> Inl e
      | Inr json \<Rightarrow>
          if json = [] then Inr []
          else case keyLoop False False json of
              (inString, out) \<Rightarrow>
                if inString then Inl \<lparr>je_message = ''Unterminated string in JSON5'', je_position = length json\<rparr> else Inr out)"

section \<open>Texts as pieces\<close>

text \<open>
  The lexical structure of a text: string literals, comments to the end of the line, comments in delimiters, and single characters
  outside of them.
\<close>

datatype piece = Quoted string | Line string | Block string | Char char

fun piece_text :: "piece \<Rightarrow> string" where
  "piece_text (Quoted body) = quote # body @ [quote]"
| "piece_text (Line body) = ''//'' @ body @ [newline]"
| "piece_text (Block body) = ''/*'' @ body @ ''*/''"
| "piece_text (Char c) = [c]"

definition render :: "piece list \<Rightarrow> string" where
  "render ps = concat (map piece_text ps)"

text \<open>The body of a literal: a quotation mark occurs after a backslash only, which stands before every other character it escapes.\<close>

fun body_ok :: "string \<Rightarrow> bool" where
  "body_ok [] = True"
| "body_ok (c # s) = (if c = backslash then s \<noteq> [] \<and> body_ok (tl s) else c \<noteq> quote \<and> body_ok s)"

text \<open>The body of a comment in delimiters does not hold the closing delimiter.\<close>

fun block_ok :: "string \<Rightarrow> bool" where
  "block_ok [] = True"
| "block_ok (c # s) = (\<not> (c = CHR ''*'' \<and> s \<noteq> [] \<and> hd s = CHR ''/'') \<and> block_ok s)"

fun piece_ok :: "piece \<Rightarrow> string \<Rightarrow> bool" where
  "piece_ok (Quoted body) next = body_ok body"
| "piece_ok (Line body) next = (newline \<notin> set body)"
| "piece_ok (Block body) next = block_ok body"
| "piece_ok (Char c) next = (c \<noteq> quote \<and> (c = CHR ''/'' \<longrightarrow> next = [] \<or> hd next \<notin> {CHR ''/'', CHR ''*''}))"

fun pieces_ok :: "piece list \<Rightarrow> string \<Rightarrow> bool" where
  "pieces_ok [] end_text = True"
| "pieces_ok (p # ps) end_text = (piece_ok p (render ps @ end_text) \<and> pieces_ok ps end_text)"

text \<open>The text may end in a comment without a newline.\<close>

definition last_comment :: "string option \<Rightarrow> string" where
  "last_comment t = (case t of None \<Rightarrow> [] | Some body \<Rightarrow> ''//'' @ body)"

fun without_comments :: "piece list \<Rightarrow> piece list" where
  "without_comments [] = []"
| "without_comments (Line body # ps) = Char newline # without_comments ps"
| "without_comments (Block body # ps) = without_comments ps"
| "without_comments (p # ps) = p # without_comments ps"

section \<open>Comments\<close>

lemma push_push [simp]: "push a (push b r) = push (a @ b) r"
  by (simp add: push_def)

lemma push_Nil [simp]: "push [] r = r"
  by (simp add: push_def)

lemma push_Pair [simp]: "push a (x, s) = (x, a @ s)"
  by (simp add: push_def)

lemma comment_literal:
  "body_ok body \<Longrightarrow> commentLoop False False True False (body @ quote # s) = push (body @ [quote]) (commentLoop False False False False s)"
proof (induction body rule: body_ok.induct)
  case (2 c body)
  show ?case
  proof (cases "c = backslash")
    case True
    then show ?thesis using 2 by (cases body) auto
  next
    case False
    then show ?thesis using 2 by auto
  qed
qed simp

lemma comment_line:
  "newline \<notin> set body \<Longrightarrow> commentLoop True False False False (body @ newline # s) = push [newline] (commentLoop False False False False s)"
  "newline \<notin> set body \<Longrightarrow> commentLoop True False False False body = ((False, False), [])"
  by (induction body) auto

lemma comment_block:
  "block_ok body \<Longrightarrow> commentLoop False True False False (body @ CHR ''*'' # CHR ''/'' # s) = commentLoop False False False False s"
proof (induction body)
  case (Cons c body)
  then show ?case by (cases body) auto
qed simp

lemma render_Cons [simp]: "render (p # ps) = piece_text p @ render ps" "render [] = []"
  by (simp_all add: render_def)

lemma commentLoop_pieces:
  "pieces_ok ps (last_comment t) \<Longrightarrow> (\<forall>body. t = Some body \<longrightarrow> newline \<notin> set body) \<Longrightarrow>
   commentLoop False False False False (render ps @ last_comment t) = ((False, False), render (without_comments ps))"
proof (induction ps)
  case Nil
  then show ?case by (cases t) (auto simp: last_comment_def comment_line)
next
  case (Cons p ps)
  then show ?case
    by (cases p; cases "render ps @ last_comment t") (auto simp: comment_literal comment_line comment_block)
qed

text \<open>What is left has no comments, and is cut at the same places.\<close>

lemma hd_without:
  "render ps @ u = [] \<or> hd (render ps @ u) \<notin> {CHR ''/'', CHR ''*''} \<Longrightarrow> render (without_comments ps) = [] \<or> hd (render (without_comments ps)) \<notin> {CHR ''/'', CHR ''*''}"
  by (cases ps rule: without_comments.cases) auto

lemma pieces_without: "pieces_ok ps u \<Longrightarrow> pieces_ok (without_comments ps) []"
proof (induction ps)
  case (Cons p ps)
  then show ?case using hd_without [of ps u] by (cases p) auto
qed simp

lemma without_twice: "without_comments (without_comments ps) = without_comments ps"
  by (induction ps rule: without_comments.induct) auto

text \<open>Removing comments again changes nothing, whatever the text.\<close>

lemma commentLoop_hd:
  "commentLoop False False False False s = (f, out) \<Longrightarrow> s = [] \<or> hd s \<notin> {CHR ''/'', CHR ''*''} \<Longrightarrow> out = [] \<or> hd out \<notin> {CHR ''/'', CHR ''*''}"
  by (cases s) (auto simp: push_def split: if_splits)

lemma push_eq: "push a r = (f, out) \<longleftrightarrow> (\<exists>out'. r = (f, out') \<and> out = a @ out')"
  by (cases r) auto

text \<open>The loop inside comments, and outside of them.\<close>

lemma in_comment:
  assumes "l \<or> b"
  shows "commentLoop l b False False (c # s) =
    (if l then (if c = newline then push [newline] (commentLoop False b False False s) else commentLoop l b False False s)
     else if s \<noteq> [] \<and> c = CHR ''*'' \<and> hd s = CHR ''/'' then commentLoop l False False False (tl s)
     else commentLoop l b False False s)"
  using assms by auto

lemma outside_comment:
  assumes "e \<longrightarrow> q"
  shows "commentLoop False False q e (c # s) =
    (if q then push [c] (if c = backslash then commentLoop False False q (\<not> e) s
       else commentLoop False False (\<not> (c = quote \<and> \<not> e)) False s)
     else if c = CHR ''/'' \<and> s \<noteq> [] \<and> hd s = CHR ''/'' then commentLoop True False q e (tl s)
     else if c = CHR ''/'' \<and> s \<noteq> [] \<and> hd s = CHR ''*'' then commentLoop False True q e (tl s)
     else push [c] (commentLoop False False (c = quote) False s))"
  using assms by auto

lemma commentLoop_again:
  "commentLoop l b q e s = ((x, y), out) \<Longrightarrow> (l \<or> b \<longrightarrow> \<not> q \<and> \<not> e) \<Longrightarrow> (e \<longrightarrow> q) \<Longrightarrow> commentLoop False False q e out = ((False, y), out)"
proof (induction "length s" arbitrary: l b q e s x y out rule: less_induct)
  case less
  show ?case
  proof (cases s)
    case Nil
    then show ?thesis using less.prems by auto
  next
    case (Cons c s')
    have IH: "commentLoop l' b' q' e' r = ((x', y'), out') \<Longrightarrow> (l' \<or> b' \<longrightarrow> \<not> q' \<and> \<not> e') \<Longrightarrow> (e' \<longrightarrow> q') \<Longrightarrow>
        r = s' \<or> r = tl s' \<Longrightarrow> commentLoop False False q' e' out' = ((False, y'), out')" for l' b' q' e' r x' y' out'
      by (rule less.hyps) (auto simp: Cons)
    show ?thesis
    proof (cases "l \<or> b")
      case True
      then have qe: "q = False" "e = False" using less.prems by auto
      show ?thesis using less.prems(1) IH unfolding Cons qe in_comment [OF True]
        by (auto simp: push_eq outside_comment split: if_splits)
    next
      case False
      then have lb: "l = False" "b = False" by auto
      show ?thesis
      proof (cases q)
        case True
        show ?thesis using less.prems(1,3) IH True unfolding Cons lb outside_comment [OF less.prems(3)]
          by (auto simp: push_eq outside_comment split: if_splits)
      next
        case q: False
        then have qe: "q = False" "e = False" using less.prems(3) by auto
        note loop = outside_comment [of False False, simplified]
        show ?thesis
        proof (cases "c = CHR ''/'' \<and> s' \<noteq> [] \<and> hd s' \<in> {CHR ''/'', CHR ''*''}")
          case True
          then show ?thesis using less.prems(1) IH [of True False False False "tl s'"] IH [of False True False False "tl s'"]
            unfolding Cons lb qe loop by (auto split: if_splits)
        next
          case pushed: False
          then obtain o' where o': "commentLoop False False (c = quote) False s' = ((x, y), o')" "out = c # o'"
            using less.prems(1) unfolding Cons lb qe loop by (auto simp: push_eq split: if_splits)
          have "\<not> (c = CHR ''/'' \<and> o' \<noteq> [] \<and> hd o' \<in> {CHR ''/'', CHR ''*''})"
            using pushed commentLoop_hd [of s' "(x, y)" o'] o'(1) by auto
          then show ?thesis using IH [OF o'(1)] unfolding qe o'(2) loop by auto
        qed
      qed
    qed
  qed
qed

section \<open>Keys\<close>

lemma key_literal: "body_ok body \<Longrightarrow> keyLoop True False (body @ quote # s) = push (body @ [quote]) (keyLoop False False s)"
proof (induction body rule: body_ok.induct)
  case (2 c body)
  show ?case
  proof (cases "c = backslash")
    case True
    then show ?thesis using 2 by (cases body) auto
  next
    case False
    then show ?thesis using 2 by auto
  qed
qed simp

text \<open>A text of literals and characters in which no word stands before a colon.\<close>

fun no_bare_keys :: "piece list \<Rightarrow> bool" where
  "no_bare_keys [] = True"
| "no_bare_keys (Quoted body # ps) = no_bare_keys ps"
| "no_bare_keys (Char c # ps) =
     ((word_start c \<longrightarrow> \<not> colon_follows (dropWhile word_char (render (Char c # ps)))) \<and> no_bare_keys ps)"
| "no_bare_keys (p # ps) = False"

fun word_piece :: "piece \<Rightarrow> bool" where
  "word_piece (Char c) = word_char c"
| "word_piece p = False"

lemma word_pieces:
  assumes "no_bare_keys ps"
  shows "dropWhile word_char (render ps) = render (dropWhile word_piece ps)
    \<and> takeWhile word_char (render ps) @ render (dropWhile word_piece ps) = render ps \<and> no_bare_keys (dropWhile word_piece ps)"
  using assms
proof (induction ps rule: no_bare_keys.induct)
  case (2 body ps)
  have "\<not> word_char quote" by (simp add: word_char_def isalpha_def is_digit_def)
  then show ?case using 2 by simp
qed auto

lemma pieces_ok_dropWhile: "pieces_ok ps u \<Longrightarrow> pieces_ok (dropWhile P ps) u"
  by (induction ps) auto

lemma keyLoop_identity:
  "pieces_ok ps [] \<Longrightarrow> no_bare_keys ps \<Longrightarrow> keyLoop False False (render ps) = (False, render ps)"
proof (induction "length ps" arbitrary: ps rule: less_induct)
  case less
  show ?case
  proof (cases ps rule: no_bare_keys.cases)
    case (2 body qs)
    then show ?thesis using less.prems less.hyps [of qs] by (simp add: key_literal)
  next
    case (3 c qs)
    show ?thesis
    proof (cases "word_start c")
      case True
      let ?rest = "dropWhile word_piece qs"
      have c: "word_char c" using True by (auto simp: word_start_def word_char_def)
      have qs: "pieces_ok qs []" "no_bare_keys qs" "\<not> colon_follows (dropWhile word_char (render qs))"
        using less.prems 3 True c by simp_all
      note w = word_pieces [OF qs(2)]
      have len: "length ?rest < length ps" using length_dropWhile_le [of word_piece qs] by (simp add: 3)
      have "keyLoop False False (render ?rest) = (False, render ?rest)"
        using less.hyps [OF len pieces_ok_dropWhile [OF qs(1)]] w by simp
      then show ?thesis using less.prems(1) 3 True c qs(3) w by (simp add: Let_def)
    next
      case False
      then show ?thesis using 3 less.prems less.hyps [of qs] by simp
    qed
  qed (use less.prems in auto)
qed

text \<open>A word before a colon is quoted, and the rest is converted on its own.\<close>

lemma keyLoop_key:
  assumes "word_start c" "\<forall>x \<in> set w. word_char x" "\<forall>x \<in> set sp. isspace x"
  shows "keyLoop False False (c # w @ sp @ CHR '':'' # s) = push (quote # c # w @ [quote]) (keyLoop False False (sp @ CHR '':'' # s))"
proof -
  have c: "word_char c" "c \<noteq> quote"
    using assms(1) by (auto simp: word_start_def word_char_def isalpha_def)
  have no: "\<not> word_char (CHR '':'')" "\<And>x. isspace x \<Longrightarrow> \<not> word_char x"
    by (auto simp: word_char_def isalpha_def is_digit_def isspace_def)
  have stop: "dropWhile word_char (sp @ CHR '':'' # s) = sp @ CHR '':'' # s" "takeWhile word_char (sp @ CHR '':'' # s) = []"
    using assms(3) no by (cases sp; simp)+
  have rest: "dropWhile word_char (w @ sp @ CHR '':'' # s) = sp @ CHR '':'' # s" "takeWhile word_char (w @ sp @ CHR '':'' # s) = w"
    using assms(2) stop by (simp_all add: dropWhile_append2 takeWhile_append2)
  have "colon_follows (sp @ CHR '':'' # s)"
    using assms(3) by (induction sp) (auto simp: colon_follows_def isspace_def)
  then show ?thesis using assms(1) c by (simp add: rest Let_def)
qed

section \<open>Properties\<close>

lemma removeComments_loop: "commentLoop False False False False s = ((False, False), out) \<Longrightarrow> removeComments s = Inr out"
  by (cases "s = []") (auto simp: removeComments_def)

text \<open>
  C22: Comments are removed exactly. On every text made of string literals with escapes, comments of both kinds and other characters,
  possibly ending in a comment without a newline, the result is the text without its comments: literals are kept whole
  whatever they contain, a comment to the end of the line leaves its newline, and what is left holds no comment, so
  that removing again changes nothing.
\<close>

theorem removeComments_exact:
  assumes "pieces_ok ps (last_comment t)" "\<forall>body. t = Some body \<longrightarrow> newline \<notin> set body"
  shows "removeComments (render ps @ last_comment t) = Inr (render (without_comments ps))
    \<and> removeComments (render (without_comments ps)) = Inr (render (without_comments ps))"
proof -
  have "commentLoop False False False False (render (without_comments ps)) = ((False, False), render (without_comments ps))"
    using commentLoop_pieces [of "without_comments ps" None] pieces_without [OF assms(1)] by (simp add: last_comment_def without_twice)
  then show ?thesis using commentLoop_pieces [OF assms] by (simp add: removeComments_loop)
qed

theorem removeComments_exact_witness:
  "removeComments (''{'' @ [quote] @ ''a//b'' @ [backslash, quote, quote] @ '': 1 /* one */ }// end'')
    = Inr (''{'' @ [quote] @ ''a//b'' @ [backslash, quote, quote] @ '': 1  }'')"
  using removeComments_exact [of "[Char (CHR ''{''), Quoted (''a//b'' @ [backslash, quote]), Char (CHR '':''), Char (CHR '' ''),
      Char (CHR ''1''), Char (CHR '' ''), Block '' one '', Char (CHR '' ''), Char (CHR ''}'')]" "Some '' end''"]
  by (simp add: last_comment_def)

text \<open>A second removal changes nothing on any text that is accepted.\<close>

lemma removeComments_again: "removeComments s = Inr out \<Longrightarrow> removeComments out = Inr out"
  using commentLoop_again [of False False False False s]
  by (auto simp: removeComments_def split: if_splits prod.splits)

text \<open>A text of JSON is not changed by the conversion, with or without comments around its tokens.\<close>

lemma convert_identity:
  assumes "pieces_ok ps (last_comment t)" "\<forall>body. t = Some body \<longrightarrow> newline \<notin> set body" "no_bare_keys (without_comments ps)"
  shows "convertJSON5toJSON (render ps @ last_comment t) = Inr (render (without_comments ps))"
  using commentLoop_pieces [OF assms(1,2)] keyLoop_identity [OF pieces_without [OF assms(1)] assms(3)]
  by (simp add: convertJSON5toJSON_def removeComments_loop)

text \<open>Literals in single quotes are not literals here: a comment sign inside them cuts the text.\<close>

lemma single_quotes_cut:
  "convertJSON5toJSON (''{url: '' @ [CHR 0x27] @ ''http://x'' @ [CHR 0x27] @ ''}'')
    = Inr (''{'' @ [quote] @ ''url'' @ [quote] @ '': '' @ [CHR 0x27, quote] @ ''http'' @ [quote] @ '':'')"
  by code_simp

end
