(* ===== verification/Config_Serializer.thy ===== *)
theory Config_Serializer
  imports Config_Manager Config_Json5
begin

text \<open>
  The configuration serializer, \<^verbatim>\<open>src/src/config/components/serializer.cpp\<close>, on top of the JSON5 conversion, and its composition with
  the manager: saving a configuration and loading it again. Printing and parsing JSON text is the library's, a
  parameter \<open>text_lib\<close>; what is relied on is \<open>prints\<close>. The file system is a map from paths to contents, with a function that says
  how each write ends. Encoding, memory mapping and logging are left out, and the asynchronous batches are their results in order.
\<close>

section \<open>Formats and results\<close>

datatype SerializationFormat = FJSON | FJSON5 | FPRETTY_JSON | FCOMPACT_JSON | FBINARY_JSON

record SerializationOptions =
  so_format :: SerializationFormat
  so_indentSize :: int
  so_sortKeys :: bool
  so_preserveComments :: bool
  so_validateOutput :: bool
  so_compressOutput :: bool

definition SerializationOptions_new :: SerializationOptions where
  "SerializationOptions_new = \<lparr>so_format = FPRETTY_JSON, so_indentSize = 4, so_sortKeys = False, so_preserveComments = True,
     so_validateOutput = True, so_compressOutput = False\<rparr>"

definition compact :: SerializationOptions where
  "compact = SerializationOptions_new\<lparr>so_format := FCOMPACT_JSON, so_indentSize := 0\<rparr>"

definition pretty :: "int \<Rightarrow> SerializationOptions" where
  "pretty indent = SerializationOptions_new\<lparr>so_format := FPRETTY_JSON, so_indentSize := indent\<rparr>"

definition json5 :: SerializationOptions where
  "json5 = SerializationOptions_new\<lparr>so_format := FJSON5, so_preserveComments := True\<rparr>"

record SerializationResult =
  sr_success :: bool
  sr_data :: string
  sr_errorMessage :: string
  sr_originalSize :: nat
  sr_serializedSize :: nat
  sr_duration :: int

record DeserializationResult =
  dr_success :: bool
  dr_data :: json
  dr_errorMessage :: string
  dr_bytesProcessed :: nat
  dr_duration :: int

definition SerializationResult_new :: SerializationResult where
  "SerializationResult_new = \<lparr>sr_success = False, sr_data = [], sr_errorMessage = [], sr_originalSize = 0, sr_serializedSize = 0, sr_duration = 0\<rparr>"

definition DeserializationResult_new :: DeserializationResult where
  "DeserializationResult_new = \<lparr>dr_success = False, dr_data = JNull, dr_errorMessage = [], dr_bytesProcessed = 0, dr_duration = 0\<rparr>"

definition sr_isValid :: "SerializationResult \<Rightarrow> bool" where
  "sr_isValid r \<longleftrightarrow> sr_success r \<and> sr_data r \<noteq> []"

definition dr_isValid :: "DeserializationResult \<Rightarrow> bool" where
  "dr_isValid r \<longleftrightarrow> dr_success r \<and> dr_data r \<noteq> JNull"

definition getCompressionRatio :: "SerializationResult \<Rightarrow> real" where
  "getCompressionRatio r = (if sr_originalSize r > 0 then real (sr_serializedSize r) / real (sr_originalSize r) else 1)"

record SerializerConfig =
  sc_enableMetrics :: bool
  sc_enableValidation :: bool
  sc_bufferSize :: nat
  sc_useMemoryMapping :: bool
  sc_maxFileSize :: nat

definition SerializerConfig_new :: SerializerConfig where
  "SerializerConfig_new = \<lparr>sc_enableMetrics = True, sc_enableValidation = True, sc_bufferSize = 64 * 1024, sc_useMemoryMapping = True,
     sc_maxFileSize = 100 * 1024 * 1024\<rparr>"

text \<open>\<^verbatim>\<open>dump\<close> with an indentation, and \<^verbatim>\<open>json::parse\<close>.\<close>

record text_lib =
  tl_dump :: "int \<Rightarrow> json \<Rightarrow> string result"
  tl_parse :: "string \<Rightarrow> json result"

section \<open>Serialization\<close>

fun sortJsonKeys :: "json \<Rightarrow> json" where
  "sortJsonKeys (JObject m) =
     (let values = map (\<lambda>(k, v). (k, sortJsonKeys v)) m
      in JObject (fold (\<lambda>k sorted. obj_put k (case map_of values k of None \<Rightarrow> JNull | Some v \<Rightarrow> v) sorted) (sort (map fst m)) []))"
| "sortJsonKeys (JArray xs) = JArray (map sortJsonKeys xs)"
| "sortJsonKeys j = j"

definition serializeToJson5 :: "text_lib \<Rightarrow> json \<Rightarrow> SerializationOptions \<Rightarrow> string result" where
  "serializeToJson5 TL data options =
     (case tl_dump TL (so_indentSize options) data of
        Inl e \<Rightarrow> Inl e
      | Inr s \<Rightarrow> Inr ((if so_preserveComments options then ''// Generated JSON5 configuration'' @ [newline] else []) @ s))"

definition serializeToBinary :: "text_lib \<Rightarrow> json \<Rightarrow> string result" where
  "serializeToBinary TL data = tl_dump TL (- 1) data"

definition deserializeFromBinary :: "text_lib \<Rightarrow> string \<Rightarrow> json result" where
  "deserializeFromBinary TL input = tl_parse TL input"

definition validateSerialization :: "text_lib \<Rightarrow> string \<Rightarrow> SerializationFormat \<Rightarrow> bool" where
  "validateSerialization TL out format =
     (case format of
        FJSON5 \<Rightarrow> (case convertJSON5toJSON out of Inl e \<Rightarrow> False | Inr s \<Rightarrow> \<not> is_error (tl_parse TL s))
      | FBINARY_JSON \<Rightarrow> out \<noteq> []
      | _ \<Rightarrow> \<not> is_error (tl_parse TL out))"

definition serialized :: "text_lib \<Rightarrow> SerializationOptions \<Rightarrow> json \<Rightarrow> string result" where
  "serialized TL options data =
     (case so_format options of
        FJSON5 \<Rightarrow> serializeToJson5 TL data options
      | FBINARY_JSON \<Rightarrow> serializeToBinary TL data
      | FCOMPACT_JSON \<Rightarrow> tl_dump TL (- 1) (if so_sortKeys options then sortJsonKeys data else data)
      | _ \<Rightarrow> tl_dump TL (so_indentSize options) (if so_sortKeys options then sortJsonKeys data else data))"

definition serializeToString :: "text_lib \<Rightarrow> SerializerConfig \<Rightarrow> int \<times> int \<Rightarrow> json \<Rightarrow> SerializationOptions \<Rightarrow> SerializationResult" where
  "serializeToString TL cfg clk data options =
     (let r = SerializationResult_new;
          r1 = (case (if sc_enableMetrics cfg then tl_dump TL (- 1) data else Inr []) of
             Inl e \<Rightarrow> r\<lparr>sr_errorMessage := what e\<rparr>
           | Inr originalDump \<Rightarrow>
               (let r0 = (if sc_enableMetrics cfg then r\<lparr>sr_originalSize := length originalDump\<rparr> else r)
                in case serialized TL options data of
                     Inl e \<Rightarrow> r0\<lparr>sr_errorMessage := what e\<rparr>
                   | Inr s \<Rightarrow>
                       (let r' = r0\<lparr>sr_data := s, sr_serializedSize := length s, sr_success := True\<rparr>
                        in if sc_enableValidation cfg \<and> so_validateOutput options \<and> \<not> validateSerialization TL s (so_format options)
                           then r'\<lparr>sr_success := False, sr_errorMessage := ''Output validation failed''\<rparr> else r')))
      in r1\<lparr>sr_duration := (snd clk - fst clk) div 1000000\<rparr>)"

text \<open>The parsed value, an exception, or the error of the conversion, which returns at once.\<close>

definition deserializeFromString :: "text_lib \<Rightarrow> int \<times> int \<Rightarrow> string \<Rightarrow> SerializationFormat \<Rightarrow> DeserializationResult" where
  "deserializeFromString TL clk input format =
     (let r = DeserializationResult_new\<lparr>dr_bytesProcessed := length input\<rparr>;
          finish = (\<lambda>x. case x of
             Inl e \<Rightarrow> r\<lparr>dr_errorMessage := what e, dr_duration := (snd clk - fst clk) div 1000000\<rparr>
           | Inr j \<Rightarrow> r\<lparr>dr_data := j, dr_success := True, dr_duration := (snd clk - fst clk) div 1000000\<rparr>)
      in case format of
           FJSON5 \<Rightarrow>
             (case convertJSON5toJSON input of
                Inl e \<Rightarrow> r\<lparr>dr_errorMessage := JSON5ParseError_what e\<rparr>
              | Inr s \<Rightarrow> finish (tl_parse TL s))
         | FBINARY_JSON \<Rightarrow> finish (deserializeFromBinary TL input)
         | _ \<Rightarrow> finish (tl_parse TL input))"

definition serializeBatch :: "text_lib \<Rightarrow> SerializerConfig \<Rightarrow> (nat \<Rightarrow> int \<times> int) \<Rightarrow> json list \<Rightarrow> SerializationOptions \<Rightarrow> SerializationResult list" where
  "serializeBatch TL cfg clk dataList options =
     map (\<lambda>(i, data). serializeToString TL cfg (clk i) data options) (zip [0..<length dataList] dataList)"

definition deserializeBatch :: "text_lib \<Rightarrow> (nat \<Rightarrow> int \<times> int) \<Rightarrow> string list \<Rightarrow> SerializationFormat \<Rightarrow> DeserializationResult list" where
  "deserializeBatch TL clk inputList format =
     map (\<lambda>(i, input). deserializeFromString TL (clk i) input format) (zip [0..<length inputList] inputList)"

text \<open>A stream accepts what is written, or fails.\<close>

definition streamSerialize :: "text_lib \<Rightarrow> SerializerConfig \<Rightarrow> int \<times> int \<Rightarrow> (string \<Rightarrow> string \<times> bool) \<Rightarrow> json \<Rightarrow> SerializationOptions \<Rightarrow> string \<times> bool" where
  "streamSerialize TL cfg clk stream data options =
     (let r = serializeToString TL cfg clk data options in if \<not> sr_isValid r then ([], False) else stream (sr_data r))"

definition streamDeserialize :: "text_lib \<Rightarrow> int \<times> int \<Rightarrow> string \<Rightarrow> SerializationFormat \<Rightarrow> DeserializationResult" where
  "streamDeserialize TL clk content format = deserializeFromString TL clk content format"

definition validateJson :: "text_lib \<Rightarrow> json_lib \<Rightarrow> json \<Rightarrow> bool" where
  "validateJson TL L data =
     (case tl_dump TL (- 1) data of
        Inl e \<Rightarrow> False
      | Inr s \<Rightarrow> (case tl_parse TL s of Inl e \<Rightarrow> False | Inr parsed \<Rightarrow> jl_equal L parsed data))"

definition convertFormat ::
    "text_lib \<Rightarrow> SerializerConfig \<Rightarrow> int \<times> int \<Rightarrow> int \<times> int \<Rightarrow> string \<Rightarrow> SerializationFormat \<Rightarrow> SerializationFormat \<Rightarrow> SerializationOptions \<Rightarrow> SerializationResult" where
  "convertFormat TL cfg clk clk' input fromFormat toFormat options =
     (let d = deserializeFromString TL clk input fromFormat
      in if \<not> dr_isValid d then SerializationResult_new\<lparr>sr_errorMessage := ''Failed to deserialize input: '' @ dr_errorMessage d\<rparr>
         else serializeToString TL cfg clk' (dr_data d) options)"

section \<open>Formats of files\<close>

definition detectFormat :: "string \<Rightarrow> SerializationFormat option" where
  "detectFormat filePath =
     map_of [(''.json'', FJSON), (''.json5'', FJSON5), (''.lithium'', FJSON), (''.config'', FJSON), (''.lithium5'', FJSON5),
       (''.cbor'', FBINARY_JSON), (''.msgpack'', FBINARY_JSON)] (map to_lower (extension filePath))"

definition isprint :: "char \<Rightarrow> bool" where
  "isprint c \<longleftrightarrow> (32::nat) \<le> of_char c \<and> of_char c \<le> (126::nat)"

definition detectFormat_content :: "string \<Rightarrow> SerializationFormat option" where
  "detectFormat_content content =
     (let t = dropWhile isspace content
      in if t = [] then None
         else if take 2 t = ''//'' then Some FJSON5
         else if hd t = CHR ''{'' \<or> hd t = CHR ''['' then Some FJSON
         else if \<exists>c \<in> set (take 100 t). \<not> isprint c \<and> \<not> isspace c then Some FBINARY_JSON
         else Some FJSON)"

definition getSupportedExtensions :: "SerializationFormat \<Rightarrow> string list" where
  "getSupportedExtensions format =
     (case format of
        FJSON5 \<Rightarrow> [''.json5'', ''.lithium5'']
      | FBINARY_JSON \<Rightarrow> [''.cbor'', ''.msgpack'', ''.bin'']
      | _ \<Rightarrow> [''.json'', ''.lithium''])"

type_synonym disk = "string \<Rightarrow> string option"

datatype write_end = NotOpened | WriteFailed string | Written

definition serializeToFile ::
    "text_lib \<Rightarrow> SerializerConfig \<Rightarrow> int \<times> int \<Rightarrow> (string \<Rightarrow> write_end) \<Rightarrow> SerializationOptions \<Rightarrow> json \<Rightarrow> string \<Rightarrow> disk \<Rightarrow> bool \<times> disk" where
  "serializeToFile TL cfg clk ends options data filePath d =
     (let r = serializeToString TL cfg clk data options
      in if \<not> sr_isValid r then (False, d)
         else case ends filePath of
             NotOpened \<Rightarrow> (False, d)
           | WriteFailed part \<Rightarrow> (False, d(filePath \<mapsto> part))
           | Written \<Rightarrow> (True, d(filePath \<mapsto> sr_data r)))"

definition deserializeFromFile ::
    "text_lib \<Rightarrow> SerializerConfig \<Rightarrow> int \<times> int \<Rightarrow> (string \<Rightarrow> bool) \<Rightarrow> disk \<Rightarrow> string \<Rightarrow> SerializationFormat option \<Rightarrow> DeserializationResult" where
  "deserializeFromFile TL cfg clk readable d filePath format =
     (let r = DeserializationResult_new
      in case d filePath of
           None \<Rightarrow> r\<lparr>dr_errorMessage := ''File does not exist: '' @ filePath\<rparr>
         | Some content \<Rightarrow>
             if length content > sc_maxFileSize cfg then r\<lparr>dr_errorMessage := ''File too large: '' @ filePath\<rparr>
             else if \<not> readable filePath then r\<lparr>dr_errorMessage := ''Failed to open file: '' @ filePath\<rparr>
             else deserializeFromString TL clk content
               (case format of Some f \<Rightarrow> f | None \<Rightarrow> (case detectFormat filePath of Some f \<Rightarrow> f | None \<Rightarrow> FJSON)))"

section \<open>Sorting keys\<close>

text \<open>The objects of the library are ordered by their keys, so sorting them changes nothing.\<close>

fun ordered :: "json \<Rightarrow> bool" where
  "ordered (JObject m) \<longleftrightarrow> sorted_wrt (<) (map fst m) \<and> (\<forall>(k, v) \<in> set m. ordered v)"
| "ordered (JArray xs) \<longleftrightarrow> (\<forall>v \<in> set xs. ordered v)"
| "ordered j \<longleftrightarrow> True"

lemma obj_put_last: "\<forall>k' \<in> set (map fst m). k' < k \<Longrightarrow> obj_put k v m = m @ [(k, v)]"
proof -
  assume a: "\<forall>k' \<in> set (map fst m). k' < k"
  then have "map_of m k = None" by (auto simp: map_of_eq_None_iff)
  moreover have "obj_insert k v m = m @ [(k, v)]" using a by (induction m) (auto simp: less_not_sym)
  ultimately show ?thesis by (simp add: obj_put_def)
qed

lemma fold_obj_put:
  "sorted_wrt (<) (map fst (acc @ m)) \<Longrightarrow> fold (\<lambda>(k, v) sorted. obj_put k v sorted) m acc = acc @ m"
proof (induction m arbitrary: acc)
  case (Cons x m)
  obtain k v where x: "x = (k, v)" by fastforce
  have "obj_put k v acc = acc @ [(k, v)]"
    using Cons.prems by (intro obj_put_last) (auto simp: x sorted_wrt_append)
  then show ?case using Cons.IH [of "acc @ [x]"] Cons.prems by (simp add: x)
qed simp

lemma fold_keys:
  "\<forall>(k, v) \<in> set m. f k = v \<Longrightarrow> fold (\<lambda>k sorted. obj_put k (f k) sorted) (map fst m) acc = fold (\<lambda>(k, v) sorted. obj_put k v sorted) m acc"
  by (induction m arbitrary: acc) auto

lemma sort_ordered: "ordered j \<Longrightarrow> sortJsonKeys j = j"
proof (induction j rule: sortJsonKeys.induct)
  case (1 m)
  have s: "sorted_wrt (<) (map fst m)" and d: "distinct (map fst m)"
    using 1 by (auto simp: strict_sorted_iff)
  have "map (\<lambda>(k, v). (k, sortJsonKeys v)) m = m" using 1 by (intro map_idI) auto
  then have "sortJsonKeys (JObject m) = JObject (fold (\<lambda>k sorted. obj_put k (case map_of m k of None \<Rightarrow> JNull | Some v \<Rightarrow> v) sorted) (map fst m) [])"
    using s by (simp add: sorted_sort_id strict_sorted_iff)
  also have "\<dots> = JObject m"
    using d map_of_is_SomeI [OF d] fold_keys [of m "\<lambda>k. case map_of m k of None \<Rightarrow> JNull | Some v \<Rightarrow> v" "[]"] fold_obj_put [of "[]" m] s by fastforce
  finally show ?case .
next
  case (2 xs)
  then show ?case by (simp add: map_idI)
qed simp_all

section \<open>Round trips\<close>

text \<open>
  What the library promises of a value it prints: the text is not empty and made of the tokens of JSON, in which a word never stands
  before a colon, and parsing it gives the value back, also after a newline.
\<close>

definition json_text :: "string \<Rightarrow> bool" where
  "json_text s \<longleftrightarrow> (\<exists>ps. s = render ps \<and> pieces_ok ps [] \<and> no_bare_keys ps)"

definition prints :: "text_lib \<Rightarrow> json \<Rightarrow> bool" where
  "prints TL data \<longleftrightarrow> (\<forall>indent. \<exists>s. tl_dump TL indent data = Inr s \<and> s \<noteq> [] \<and> json_text s
     \<and> tl_parse TL s = Inr data \<and> tl_parse TL (newline # s) = Inr data)"

lemma without_comments_plain: "no_bare_keys ps \<Longrightarrow> without_comments ps = ps"
  by (induction ps rule: no_bare_keys.induct) auto

text \<open>Converting a printed text gives it back, and a generated comment leaves its newline.\<close>

lemma convert_text:
  assumes "json_text s"
  shows "convertJSON5toJSON s = Inr s"
    and "convertJSON5toJSON (''// Generated JSON5 configuration'' @ newline # s) = Inr (newline # s)"
proof -
  obtain ps where ps: "s = render ps" "pieces_ok ps []" "no_bare_keys ps" using assms by (auto simp: json_text_def)
  note w = without_comments_plain [OF ps(3)]
  show "convertJSON5toJSON s = Inr s" using convert_identity [of ps None] ps w by (simp add: last_comment_def)
  have "\<not> word_start newline" by (simp add: word_start_def isalpha_def)
  then show "convertJSON5toJSON (''// Generated JSON5 configuration'' @ newline # s) = Inr (newline # s)"
    using convert_identity [of "Line '' Generated JSON5 configuration'' # ps" None] ps w by (simp add: last_comment_def)
qed

lemma serialized_text:
  assumes p: "prints TL data" and o: "so_sortKeys options \<longrightarrow> ordered data"
  obtains s where "serialized TL options data = Inr s" "s \<noteq> []" "validateSerialization TL s (so_format options)"
    "dr_success (deserializeFromString TL clk s (so_format options))" "dr_data (deserializeFromString TL clk s (so_format options)) = data"
proof -
  obtain s where s: "tl_dump TL (if so_format options \<in> {FCOMPACT_JSON, FBINARY_JSON} then - 1 else so_indentSize options) data = Inr s"
    "s \<noteq> []" "json_text s" "tl_parse TL s = Inr data" "tl_parse TL (newline # s) = Inr data"
    using p unfolding prints_def by blast
  let ?s = "if so_format options = FJSON5 \<and> so_preserveComments options then ''// Generated JSON5 configuration'' @ newline # s else s"
  have sorted: "(if so_sortKeys options then sortJsonKeys data else data) = data" using o by (auto simp: sort_ordered)
  show thesis
  proof (rule that)
    show "serialized TL options data = Inr ?s"
      using s(1) sorted by (cases "so_format options") (auto simp: serialized_def serializeToJson5_def serializeToBinary_def)
    show "?s \<noteq> []" using s(2) by simp
    show "validateSerialization TL ?s (so_format options)"
      using s convert_text [OF s(3)] by (cases "so_format options") (auto simp: validateSerialization_def)
    show "dr_success (deserializeFromString TL clk ?s (so_format options))" "dr_data (deserializeFromString TL clk ?s (so_format options)) = data"
      using s convert_text [OF s(3)]
      by (cases "so_format options"; auto simp: deserializeFromString_def deserializeFromBinary_def Let_def)+
  qed
qed

text \<open>
  C21: Serialization and deserialization are inverse in every format and with every option. The result is valid and passes its own
  validation, and reading it in the same format gives the value back, through the generated comment and the
  conversion of JSON5 too. What is read counts as valid exactly if the value is not null.
\<close>

theorem serialize_roundtrip:
  assumes "prints TL data" "so_sortKeys options \<longrightarrow> ordered data"
  shows "let r = serializeToString TL cfg clk data options; d = deserializeFromString TL clk' (sr_data r) (so_format options)
    in sr_isValid r \<and> dr_success d \<and> dr_data d = data \<and> (dr_isValid d \<longleftrightarrow> data \<noteq> JNull)"
proof -
  obtain s where s: "serialized TL options data = Inr s" "s \<noteq> []" "validateSerialization TL s (so_format options)"
    "dr_success (deserializeFromString TL clk' s (so_format options))" "dr_data (deserializeFromString TL clk' s (so_format options)) = data"
    using serialized_text [OF assms] .
  obtain t where "tl_dump TL (- 1) data = Inr t" using assms(1) unfolding prints_def by blast
  then show ?thesis using s by (simp add: serializeToString_def SerializationResult_new_def sr_isValid_def dr_isValid_def Let_def)
qed

text \<open>A library that prints one value, for a concrete run.\<close>

definition demo_text :: string where
  "demo_text = ''{'' @ [quote] @ ''a'' @ [quote] @ '':true}''"

definition demo_value :: json where
  "demo_value = JObject [(''a'', JBool True)]"

definition demo_texts :: text_lib where
  "demo_texts = \<lparr>tl_dump = (\<lambda>indent j. if j = demo_value then Inr demo_text else Inl (OtherException ''dump'')),
     tl_parse = (\<lambda>s. if s = demo_text \<or> s = newline # demo_text then Inr demo_value else Inl (OtherException ''parse error''))\<rparr>"

lemma demo_prints: "prints demo_texts demo_value"
proof -
  let ?ps = "[Char (CHR ''{''), Quoted ''a'', Char (CHR '':''), Char (CHR ''t''), Char (CHR ''r''), Char (CHR ''u''), Char (CHR ''e''), Char (CHR ''}'')]"
  have "demo_text = render ?ps \<and> pieces_ok ?ps [] \<and> no_bare_keys ?ps" by code_simp
  then have "json_text demo_text" unfolding json_text_def by blast
  then show ?thesis by (simp add: prints_def demo_texts_def demo_text_def)
qed

theorem serialize_roundtrip_witness:
  "let r = serializeToString demo_texts SerializerConfig_new (0, 0) demo_value json5; d = deserializeFromString demo_texts (0, 0) (sr_data r) FJSON5
   in sr_isValid r \<and> dr_isValid d \<and> dr_data d = demo_value"
  using serialize_roundtrip [OF demo_prints, of json5 SerializerConfig_new "(0, 0)" "(0, 0)"]
  by (simp add: json5_def SerializationOptions_new_def demo_value_def Let_def)

section \<open>Saving and loading a configuration\<close>

definition section_file :: "string \<Rightarrow> string \<Rightarrow> string" where
  "section_file dir k = path_join dir (k @ ''.json'')"

lemma file_name_append:
  assumes "CHR ''/'' \<notin> set f" "f \<noteq> []"
  shows "file_name (path_join dir f) = f"
proof -
  have t: "takeWhile (\<lambda>c. c \<noteq> CHR ''/'') (rev f @ s) = rev f" if "s = [] \<or> hd s = CHR ''/''" for s
    using assms(1) that by (cases s) (auto simp: takeWhile_append)
  have "take 1 f \<noteq> ''/''" using assms by (cases f) auto
  then show ?thesis using t [of "[]"] t [of "rev dir"] t [of "CHR ''/'' # rev dir"]
    by (auto simp: file_name_def path_join_def hd_rev)
qed

lemma dot_split_json: "k \<noteq> [] \<Longrightarrow> dot_split (k @ ''.json'') = (k, ''.json'')"
  by (cases k) (auto simp: dot_split_def Let_def)

lemma section_file_parts:
  assumes "CHR ''/'' \<notin> set k" "k \<noteq> []"
  shows "stem (section_file dir k) = k" "extension (section_file dir k) = ''.json''"
  using assms file_name_append [of "k @ ''.json''" dir] dot_split_json [OF assms(2)]
  by (simp_all add: stem_def extension_def section_file_def)

lemma section_file_eq:
  "CHR ''/'' \<notin> set k \<Longrightarrow> k \<noteq> [] \<Longrightarrow> CHR ''/'' \<notin> set k' \<Longrightarrow> k' \<noteq> [] \<Longrightarrow> section_file dir k = section_file dir k' \<longleftrightarrow> k = k'"
  using section_file_parts(1) by metis

text \<open>Sections that survive: names that are names of files, values other than null whose text fits.\<close>

definition savable :: "text_lib \<Rightarrow> SerializerConfig \<Rightarrow> (string \<times> json) list \<Rightarrow> bool" where
  "savable TL cfg sections \<longleftrightarrow> distinct (map fst sections)
     \<and> (\<forall>(k, v) \<in> set sections. k \<noteq> [] \<and> CHR ''/'' \<notin> set k \<and> v \<noteq> JNull \<and> prints TL v
          \<and> (\<forall>s. tl_dump TL 4 v = Inr s \<longrightarrow> length s \<le> sc_maxFileSize cfg))"

definition manager_files :: "text_lib \<Rightarrow> SerializerConfig \<Rightarrow> (string \<Rightarrow> bool) \<Rightarrow> disk \<Rightarrow> string \<Rightarrow> json option" where
  "manager_files TL cfg readable d path =
     (let r = deserializeFromFile TL cfg (0, 0) readable d path None in if dr_isValid r then Some (dr_data r) else None)"

abbreviation save_to :: "text_lib \<Rightarrow> SerializerConfig \<Rightarrow> json \<Rightarrow> string \<Rightarrow> disk \<Rightarrow> bool \<times> disk" where
  "save_to TL cfg \<equiv> serializeToFile TL cfg (0, 0) (\<lambda>p. Written) SerializationOptions_new"

lemma save_to_text:
  assumes "prints TL v"
  obtains s where "tl_dump TL 4 v = Inr s" "tl_parse TL s = Inr v" "save_to TL cfg v path d = (True, d(path \<mapsto> s))"
proof -
  obtain s where s: "tl_dump TL 4 v = Inr s" "s \<noteq> []" "tl_parse TL s = Inr v" using assms unfolding prints_def by blast
  obtain t where "tl_dump TL (- 1) v = Inr t" using assms unfolding prints_def by blast
  then show thesis using s
    by (intro that [of s]) (simp_all add: serializeToFile_def serializeToString_def serialized_def validateSerialization_def
        SerializationOptions_new_def SerializationResult_new_def sr_isValid_def Let_def)
qed

text \<open>Every section is in its file after saving.\<close>

definition holds_section :: "text_lib \<Rightarrow> disk \<Rightarrow> string \<Rightarrow> string \<times> json \<Rightarrow> bool" where
  "holds_section TL d dir x = (\<exists>s. d (section_file dir (fst x)) = Some s \<and> tl_dump TL 4 (snd x) = Inr s \<and> tl_parse TL s = Inr (snd x))"

lemma saveSections_holds:
  "savable TL cfg sections \<Longrightarrow> saveSections (save_to TL cfg) dir sections d = (ok, d') \<Longrightarrow>
   ok \<and> (\<forall>x \<in> set sections. holds_section TL d' dir x)
    \<and> (\<forall>path. path \<notin> section_file dir ` fst ` set sections \<longrightarrow> d' path = d path)"
proof (induction sections arbitrary: d ok)
  case (Cons x sections)
  obtain k v where x: "x = (k, v)" by fastforce
  have v: "prints TL v" and rest: "savable TL cfg sections" using Cons.prems(1) by (auto simp: x savable_def)
  obtain s where s: "tl_dump TL 4 v = Inr s" "tl_parse TL s = Inr v" "save_to TL cfg v (section_file dir k) d = (True, d(section_file dir k \<mapsto> s))"
    using save_to_text [OF v] .
  obtain ok' where ok': "saveSections (save_to TL cfg) dir sections (d(section_file dir k \<mapsto> s)) = (ok', d')" "ok = ok'"
    using Cons.prems(2) s(3) by (auto simp: x section_file_def split: prod.splits)
  note IH = Cons.IH [OF rest ok'(1)]
  have "section_file dir k \<notin> section_file dir ` fst ` set sections"
  proof
    assume "section_file dir k \<in> section_file dir ` fst ` set sections"
    then obtain k' w where k': "(k', w) \<in> set sections" "section_file dir k = section_file dir k'" by auto
    moreover have "k \<notin> fst ` set sections" "k \<noteq> []" "CHR ''/'' \<notin> set k" "k' \<noteq> []" "CHR ''/'' \<notin> set k'"
      using Cons.prems(1) k'(1) by (auto simp: x savable_def)
    ultimately show False using section_file_eq by force
  qed
  then have "d' (section_file dir k) = Some s" using IH by simp
  then show ?case using IH ok'(2) s by (auto simp: x holds_section_def)
qed simp

text \<open>Loading the files of saved sections, in any order and number, reads exactly their values.\<close>

lemma manager_reads:
  assumes "savable TL cfg sections" "(k, v) \<in> set sections" "holds_section TL d dir (k, v)"
  shows "manager_files TL cfg (\<lambda>p. True) d (section_file dir k) = Some v"
proof -
  have k: "k \<noteq> []" "CHR ''/'' \<notin> set k" "v \<noteq> JNull" and fits: "\<And>s. tl_dump TL 4 v = Inr s \<Longrightarrow> length s \<le> sc_maxFileSize cfg"
    using assms(1,2) by (auto simp: savable_def)
  obtain s where s: "d (section_file dir k) = Some s" "tl_dump TL 4 v = Inr s" "tl_parse TL s = Inr v"
    using assms(3) by (auto simp: holds_section_def)
  have f: "detectFormat (section_file dir k) = Some FJSON"
    by (simp add: detectFormat_def section_file_parts [OF k(2,1)] to_lower_def)
  show ?thesis using fits [OF s(2)] k(3) s f
    by (simp add: manager_files_def deserializeFromFile_def deserializeFromString_def dr_isValid_def DeserializationResult_new_def Let_def)
qed

lemma loadFromFiles_reads:
  assumes L: "json_lib_ok L" and files: "\<And>k v. (k, v) \<in> set sections \<Longrightarrow> files (section_file dir k) = Some v \<and> stem (section_file dir k) = k"
    and d: "distinct (map fst sections)"
  shows "is_object (cm_config n) \<or> cm_config n = JNull \<Longrightarrow> set ks \<subseteq> fst ` set sections \<Longrightarrow>
    loadFromFiles L files clk (map (section_file dir) ks) n = (c, n') \<Longrightarrow>
    c = length ks \<and> (\<forall>k. jget k (cm_config n') = (if k \<in> set ks then map_of sections k else jget k (cm_config n)))"
proof (induction ks arbitrary: n clk c)
  case (Cons k ks)
  obtain v where v: "(k, v) \<in> set sections" using Cons.prems(2) by auto
  then have m: "map_of sections k = Some v" using d by simp
  define m1 where "m1 = snd (loadFromFile L files clk (section_file dir k) n)"
  have "loadFromFile L files clk (section_file dir k) n = (True, m1) \<and> cm_config m1 = JObject (obj_put k v (members (cm_config n)))"
    using files [OF v] assign_ok [OF L Cons.prems(1)] by (simp add: m1_def loadFromFile_def Let_def)
  moreover from this obtain c' where "loadFromFiles L files (\<lambda>i. clk (i + 2)) (map (section_file dir) ks) m1 = (c', n')" "c = c' + 1"
    using Cons.prems(3) by (auto split: prod.splits)
  ultimately show ?case using Cons.IH [of m1 "\<lambda>i. clk (i + 2)" c'] Cons.prems(2) m by (auto simp: jget_members)
qed simp

text \<open>The entries of a directory that holds the files of some sections.\<close>

lemma entries_keys:
  assumes names: "\<And>k. k \<in> K \<Longrightarrow> k \<noteq> [] \<and> CHR ''/'' \<notin> set k"
    and entries: "fst ` set entries = section_file dir ` K" "\<forall>e \<in> set entries. snd e"
  shows "map fst entries = map (section_file dir) (map (stem \<circ> fst) entries)" (is ?paths)
    and "set (map (stem \<circ> fst) entries) = K" (is ?keys)
    and "filter (\<lambda>(p, regular). regular \<and> extension p \<in> {''.json'', ''.json5'', ''.lithium''}) entries = entries" (is ?all)
proof -
  have parts: "stem (section_file dir k) = k \<and> extension (section_file dir k) = ''.json''" if "k \<in> K" for k
    using names [OF that] section_file_parts by simp
  have entry: "stem (fst e) \<in> K \<and> fst e = section_file dir (stem (fst e)) \<and> extension (fst e) = ''.json''" if "e \<in> set entries" for e
  proof -
    have "fst e \<in> section_file dir ` K" using that entries(1) by blast
    then show ?thesis using parts by auto
  qed
  show ?paths using entry by simp
  have "stem ` fst ` set entries = K"
    unfolding entries(1) image_image using parts by (auto simp: image_iff)
  then show ?keys by (simp add: image_comp)
  show ?all using entries(2) entry by (intro filter_True) auto
qed



text \<open>A section that is null is saved and does not come back: the reader takes it for a failure.\<close>

lemma null_section_lost:
  assumes "prints TL JNull"
  shows "dr_success (deserializeFromString TL clk (sr_data (serializeToString TL cfg clk JNull options)) (so_format options))
    \<and> \<not> dr_isValid (deserializeFromString TL clk (sr_data (serializeToString TL cfg clk JNull options)) (so_format options))"
proof -
  have "so_sortKeys options \<longrightarrow> ordered JNull" by simp
  from serialized_text [OF assms this, of clk] obtain s where s: "serialized TL options JNull = Inr s"
    "dr_success (deserializeFromString TL clk s (so_format options))" "dr_data (deserializeFromString TL clk s (so_format options)) = JNull" .
  obtain t where "tl_dump TL (- 1) JNull = Inr t" using assms unfolding prints_def by blast
  then have "sr_data (serializeToString TL cfg clk JNull options) = s"
    using s(1) by (simp add: serializeToString_def SerializationResult_new_def Let_def)
  then show ?thesis using s by (simp add: dr_isValid_def)
qed

text \<open>The target format of a conversion is not used.\<close>

lemma convertFormat_ignores_target: "convertFormat TL cfg clk clk' input fromFormat toFormat options = convertFormat TL cfg clk clk' input fromFormat toFormat' options"
  by (simp add: convertFormat_def)

text \<open>An extension that is listed as supported and not recognised.\<close>

lemma bin_not_detected: "''.bin'' \<in> set (getSupportedExtensions FBINARY_JSON) \<and> detectFormat ''a.bin'' = None"
  by code_simp

end
