(* ===== verification/Command_History.thy ===== *)
theory Command_History
  imports Config_Serializer Bounded_Log
begin

text \<open>
  The command history of the debug terminal, \<^verbatim>\<open>src/src/debug/terminal/history_manager.cpp\<close>: a bounded list of commands with a
  position for walking through it, searches, tags, statistics and its conversion to JSON. An operation that reads outside the
  list, or that locks the mutex its thread holds, is \<open>None\<close>. Time points are in nanoseconds, readings of the clock arguments.
  Regular expressions, the conversions of the JSON library and files are parameters.
\<close>

section \<open>Entries\<close>

record CommandResult =
  cr_success :: bool
  cr_output :: string
  cr_error :: string
  cr_executionTime :: int
  cr_exitCode :: int

record HistoryEntry =
  he_command :: string
  he_timestamp :: int
  he_result :: "CommandResult option"
  he_favorite :: bool
  he_tags :: "string list"

record HistoryConfig =
  hc_maxEntries :: nat
  hc_persistOnAdd :: bool
  hc_deduplicateConsecutive :: bool
  hc_trackTimestamps :: bool
  hc_trackResults :: bool
  hc_historyFile :: string

record HistorySearchOptions =
  ho_caseSensitive :: bool
  ho_regexSearch :: bool
  ho_prefixMatch :: bool
  ho_reverseOrder :: bool
  ho_maxResults :: nat
  ho_afterTime :: "int option"
  ho_beforeTime :: "int option"
  ho_tags :: "string list"

record HistoryStats =
  hs_totalEntries :: nat
  hs_uniqueCommands :: nat
  hs_favoriteCount :: nat
  hs_oldestEntry :: int
  hs_newestEntry :: int
  hs_topCommands :: "(string \<times> nat) list"

record cmd_history =
  h_config :: HistoryConfig
  h_entries :: "HistoryEntry list"
  h_currentPos :: nat

definition HistoryConfig_new :: HistoryConfig where
  "HistoryConfig_new = \<lparr>hc_maxEntries = 1000, hc_persistOnAdd = False, hc_deduplicateConsecutive = True, hc_trackTimestamps = True,
     hc_trackResults = False, hc_historyFile = []\<rparr>"

definition HistorySearchOptions_new :: HistorySearchOptions where
  "HistorySearchOptions_new = \<lparr>ho_caseSensitive = False, ho_regexSearch = False, ho_prefixMatch = False, ho_reverseOrder = True,
     ho_maxResults = 50, ho_afterTime = None, ho_beforeTime = None, ho_tags = []\<rparr>"

definition HistoryEntry_new :: "string \<Rightarrow> int \<Rightarrow> HistoryEntry" where
  "HistoryEntry_new command now = \<lparr>he_command = command, he_timestamp = now, he_result = None, he_favorite = False, he_tags = []\<rparr>"

section \<open>Adding and removing\<close>

function trimFront :: "nat \<Rightarrow> 'a list \<Rightarrow> 'a list" where
  "trimFront maxEntries es = (if length es > maxEntries then trimFront maxEntries (tl es) else es)"
  by pat_completeness auto
termination trimFront
  by (relation "measure (\<lambda>(n, es). length es)") auto

declare trimFront.simps [simp del]

text \<open>Saving from inside \<^verbatim>\<open>add\<close> locks the mutex that \<^verbatim>\<open>add\<close> holds.\<close>

definition addEntry :: "HistoryEntry \<Rightarrow> cmd_history \<Rightarrow> cmd_history option" where
  "addEntry entry h =
     (if hc_deduplicateConsecutive (h_config h) \<and> h_entries h \<noteq> [] \<and> he_command (last (h_entries h)) = he_command entry then Some h
      else let es = trimFront (hc_maxEntries (h_config h)) (h_entries h @ [entry])
           in if hc_persistOnAdd (h_config h) \<and> hc_historyFile (h_config h) \<noteq> [] then None
              else Some (h\<lparr>h_entries := es, h_currentPos := length es\<rparr>))"

definition add_command :: "string \<Rightarrow> int \<Rightarrow> cmd_history \<Rightarrow> cmd_history option" where
  "add_command command now h = addEntry (HistoryEntry_new command now) h"

definition add_with_result :: "string \<Rightarrow> CommandResult \<Rightarrow> int \<Rightarrow> cmd_history \<Rightarrow> cmd_history option" where
  "add_with_result command r now h = addEntry ((HistoryEntry_new command now)\<lparr>he_result := Some r\<rparr>) h"

definition History_setConfig :: "HistoryConfig \<Rightarrow> cmd_history \<Rightarrow> cmd_history" where
  "History_setConfig config h = h\<lparr>h_config := config\<rparr>"

definition History_get :: "nat \<Rightarrow> cmd_history \<Rightarrow> HistoryEntry option" where
  "History_get index h = (if index \<ge> length (h_entries h) then None else Some (h_entries h ! index))"

definition getLast :: "cmd_history \<Rightarrow> HistoryEntry option" where
  "getLast h = (if h_entries h = [] then None else Some (last (h_entries h)))"

definition getRelative :: "int \<Rightarrow> cmd_history \<Rightarrow> HistoryEntry option" where
  "getRelative offset h =
     (let pos = int (h_currentPos h) + offset
      in if pos < 0 \<or> pos \<ge> int (length (h_entries h)) then None else Some (h_entries h ! nat pos))"

definition History_remove :: "nat \<Rightarrow> cmd_history \<Rightarrow> bool \<times> cmd_history" where
  "History_remove index h =
     (if index \<ge> length (h_entries h) then (False, h)
      else (True, h\<lparr>h_entries := take index (h_entries h) @ drop (index + 1) (h_entries h),
         h_currentPos := (if h_currentPos h > index then h_currentPos h - 1 else h_currentPos h)\<rparr>))"

fun removeIfLoop :: "(HistoryEntry \<Rightarrow> bool) \<Rightarrow> HistoryEntry list \<Rightarrow> nat \<Rightarrow> HistoryEntry list \<times> nat" where
  "removeIfLoop predicate [] removed = ([], removed)"
| "removeIfLoop predicate (e # es) removed =
     (if predicate e then removeIfLoop predicate es (removed + 1)
      else case removeIfLoop predicate es removed of (es', n) \<Rightarrow> (e # es', n))"

definition removeIf :: "(HistoryEntry \<Rightarrow> bool) \<Rightarrow> cmd_history \<Rightarrow> nat \<times> cmd_history" where
  "removeIf predicate h =
     (case removeIfLoop predicate (h_entries h) 0 of (es, removed) \<Rightarrow> (removed, h\<lparr>h_entries := es, h_currentPos := length es\<rparr>))"

definition History_clear :: "cmd_history \<Rightarrow> cmd_history" where
  "History_clear h = h\<lparr>h_entries := [], h_currentPos := 0\<rparr>"

section \<open>Walking\<close>

definition previous :: "cmd_history \<Rightarrow> (HistoryEntry option \<times> cmd_history) option" where
  "previous h =
     (if h_entries h = [] \<or> h_currentPos h = 0 then Some (None, h)
      else let pos = h_currentPos h - 1
           in if pos < length (h_entries h) then Some (Some (h_entries h ! pos), h\<lparr>h_currentPos := pos\<rparr>) else None)"

definition next_entry :: "cmd_history \<Rightarrow> HistoryEntry option \<times> cmd_history" where
  "next_entry h =
     (if h_currentPos h \<ge> length (h_entries h) then (None, h)
      else let pos = h_currentPos h + 1; h' = h\<lparr>h_currentPos := pos\<rparr>
           in if pos \<ge> length (h_entries h) then (None, h') else (Some (h_entries h ! pos), h'))"

definition resetNavigation :: "cmd_history \<Rightarrow> cmd_history" where
  "resetNavigation h = h\<lparr>h_currentPos := length (h_entries h)\<rparr>"

definition setPosition :: "nat \<Rightarrow> cmd_history \<Rightarrow> cmd_history" where
  "setPosition pos h = h\<lparr>h_currentPos := min pos (length (h_entries h))\<rparr>"

section \<open>Searching\<close>

text \<open>\<^verbatim>\<open>std::string::find\<close> of a pattern: at the start, and anywhere.\<close>

definition found_first :: "string \<Rightarrow> string \<Rightarrow> bool" where
  "found_first s pattern \<longleftrightarrow> take (length pattern) s = pattern"

fun found :: "string \<Rightarrow> string \<Rightarrow> bool" where
  "found [] pattern = (pattern = [])"
| "found (c # s) pattern = (found_first (c # s) pattern \<or> found s pattern)"

abbreviation lower :: "string \<Rightarrow> string" where
  "lower s \<equiv> map to_lower s"

text \<open>The time and tag filters, then the pattern; \<open>re\<close> is the search with the compiled expression.\<close>

definition matchEntry :: "(string \<Rightarrow> bool) \<Rightarrow> string \<Rightarrow> HistorySearchOptions \<Rightarrow> HistoryEntry \<Rightarrow> bool" where
  "matchEntry re pattern options entry =
     (if (case ho_afterTime options of Some t \<Rightarrow> he_timestamp entry < t | None \<Rightarrow> False) then False
      else if (case ho_beforeTime options of Some t \<Rightarrow> he_timestamp entry > t | None \<Rightarrow> False) then False
      else if ho_tags options \<noteq> [] \<and> \<not> (\<exists>tag \<in> set (ho_tags options). tag \<in> set (he_tags entry)) then False
      else if ho_regexSearch options then re (he_command entry)
      else if ho_prefixMatch options then
        (if ho_caseSensitive options then found_first (he_command entry) pattern else found_first (lower (he_command entry)) (lower pattern))
      else if ho_caseSensitive options then found (he_command entry) pattern
      else found (lower (he_command entry)) (lower pattern))"

fun searchLoop :: "(HistoryEntry \<Rightarrow> bool) \<Rightarrow> nat \<Rightarrow> HistoryEntry list \<Rightarrow> HistoryEntry list \<Rightarrow> HistoryEntry list" where
  "searchLoop matches maxResults [] results = results"
| "searchLoop matches maxResults (e # es) results =
     (if length results \<ge> maxResults then results
      else searchLoop matches maxResults es (if matches e then results @ [e] else results))"

text \<open>A regular expression compiles, for a case sensitivity, to a search or not at all.\<close>

definition History_search :: "(bool \<Rightarrow> string \<Rightarrow> (string \<Rightarrow> bool) option) \<Rightarrow> string \<Rightarrow> HistorySearchOptions \<Rightarrow> cmd_history \<Rightarrow> HistoryEntry list" where
  "History_search regex pattern options h =
     (case (if ho_regexSearch options then regex (ho_caseSensitive options) pattern else Some (\<lambda>s. False)) of
        None \<Rightarrow> []
      | Some re \<Rightarrow> searchLoop (matchEntry re pattern options) (ho_maxResults options)
          (if ho_reverseOrder options then rev (h_entries h) else h_entries h) [])"

definition searchPrefix :: "(bool \<Rightarrow> string \<Rightarrow> (string \<Rightarrow> bool) option) \<Rightarrow> string \<Rightarrow> nat \<Rightarrow> cmd_history \<Rightarrow> HistoryEntry list" where
  "searchPrefix regex pre maxResults h =
     History_search regex pre (HistorySearchOptions_new\<lparr>ho_prefixMatch := True, ho_maxResults := maxResults\<rparr>) h"

definition getMatching :: "(bool \<Rightarrow> string \<Rightarrow> (string \<Rightarrow> bool) option) \<Rightarrow> string \<Rightarrow> cmd_history \<Rightarrow> string list" where
  "getMatching regex substring h = map he_command (History_search regex substring HistorySearchOptions_new h)"

fun reverseLoop :: "string \<Rightarrow> HistoryEntry list \<Rightarrow> nat \<Rightarrow> HistoryEntry option" where
  "reverseLoop pattern es 0 = (if found (lower (he_command (es ! 0))) (lower pattern) then Some (es ! 0) else None)"
| "reverseLoop pattern es (Suc pos) =
     (if found (lower (he_command (es ! Suc pos))) (lower pattern) then Some (es ! Suc pos) else reverseLoop pattern es pos)"

definition reverseSearch :: "string \<Rightarrow> nat \<Rightarrow> cmd_history \<Rightarrow> HistoryEntry option option" where
  "reverseSearch pattern startPos h =
     (if h_entries h = [] then Some None
      else let pos = (if startPos = 0 then length (h_entries h) - 1 else startPos - 1)
           in if pos < length (h_entries h) then Some (reverseLoop pattern (h_entries h) pos) else None)"

definition getInTimeRange :: "int \<Rightarrow> int \<Rightarrow> cmd_history \<Rightarrow> HistoryEntry list" where
  "getInTimeRange start end_time h = filter (\<lambda>e. he_timestamp e \<ge> start \<and> he_timestamp e \<le> end_time) (h_entries h)"

definition getRecent :: "nat \<Rightarrow> cmd_history \<Rightarrow> HistoryEntry list" where
  "getRecent count h = (let start = (if length (h_entries h) > count then length (h_entries h) - count else 0) in drop start (h_entries h))"

section \<open>Favourites, tags and statistics\<close>

definition setFavorite :: "nat \<Rightarrow> bool \<Rightarrow> cmd_history \<Rightarrow> bool \<times> cmd_history" where
  "setFavorite index favorite h =
     (if index \<ge> length (h_entries h) then (False, h)
      else (True, h\<lparr>h_entries := (h_entries h)[index := (h_entries h ! index)\<lparr>he_favorite := favorite\<rparr>]\<rparr>))"

definition toggleFavorite :: "nat \<Rightarrow> cmd_history \<Rightarrow> bool \<times> cmd_history" where
  "toggleFavorite index h =
     (if index \<ge> length (h_entries h) then (False, h)
      else (True, h\<lparr>h_entries := (h_entries h)[index := (h_entries h ! index)\<lparr>he_favorite := \<not> he_favorite (h_entries h ! index)\<rparr>]\<rparr>))"

definition getFavorites :: "cmd_history \<Rightarrow> HistoryEntry list" where
  "getFavorites h = filter he_favorite (h_entries h)"

definition addTag :: "nat \<Rightarrow> string \<Rightarrow> cmd_history \<Rightarrow> bool \<times> cmd_history" where
  "addTag index tag h =
     (if index \<ge> length (h_entries h) then (False, h)
      else let e = h_entries h ! index
           in (True, if tag \<in> set (he_tags e) then h else h\<lparr>h_entries := (h_entries h)[index := e\<lparr>he_tags := he_tags e @ [tag]\<rparr>]\<rparr>))"

definition removeTag :: "nat \<Rightarrow> string \<Rightarrow> cmd_history \<Rightarrow> bool \<times> cmd_history" where
  "removeTag index tag h =
     (if index \<ge> length (h_entries h) then (False, h)
      else let e = h_entries h ! index
           in if tag \<in> set (he_tags e) then (True, h\<lparr>h_entries := (h_entries h)[index := e\<lparr>he_tags := remove1 tag (he_tags e)\<rparr>]\<rparr>)
              else (False, h))"

definition getByTag :: "string \<Rightarrow> cmd_history \<Rightarrow> HistoryEntry list" where
  "getByTag tag h = filter (\<lambda>e. tag \<in> set (he_tags e)) (h_entries h)"

definition getAllTags :: "cmd_history \<Rightarrow> string list" where
  "getAllTags h = fold List.insert (concat (map he_tags (h_entries h))) []"

definition commandCounts :: "HistoryEntry list \<Rightarrow> nat umap" where
  "commandCounts es = fold (\<lambda>e m. AList.update (he_command e) (lookup_or 0 m (he_command e) + 1) m) es []"

definition sorted_counts :: "HistoryEntry list \<Rightarrow> (string \<times> nat) list" where
  "sorted_counts es = sort_key (\<lambda>(c, n). - int n) (commandCounts es)"

definition getCommandFrequency :: "nat \<Rightarrow> cmd_history \<Rightarrow> (string \<times> nat) list" where
  "getCommandFrequency topN h = take topN (sorted_counts (h_entries h))"

definition History_getStats :: "cmd_history \<Rightarrow> HistoryStats" where
  "History_getStats h =
     (let es = h_entries h
      in \<lparr>hs_totalEntries = length es, hs_uniqueCommands = length (fold List.insert (map he_command es) []),
          hs_favoriteCount = length (filter he_favorite es),
          hs_oldestEntry = (if es = [] then 0 else he_timestamp (hd es)), hs_newestEntry = (if es = [] then 0 else he_timestamp (last es)),
          hs_topCommands = take 10 (sorted_counts es)\<rparr>)"

section \<open>Conversion to JSON\<close>

text \<open>Seconds since the epoch, truncated.\<close>

definition to_time_t :: "int \<Rightarrow> int" where
  "to_time_t t = (if t \<ge> 0 then t div 1000000000 else - ((- t) div 1000000000))"

definition from_time_t :: "int \<Rightarrow> int" where
  "from_time_t s = s * 1000000000"

definition entry_json :: "HistoryEntry \<Rightarrow> json" where
  "entry_json e = JObject [(''command'', JString (he_command e)), (''favorite'', JBool (he_favorite e)),
     (''tags'', JArray (map JString (he_tags e))), (''timestamp'', JInt (to_time_t (he_timestamp e)))]"

definition history_json :: "cmd_history \<Rightarrow> json" where
  "history_json h = JObject [(''entries'', JArray (map entry_json (h_entries h)))]"

definition exportJson :: "text_lib \<Rightarrow> cmd_history \<Rightarrow> string result" where
  "exportJson TL h = tl_dump TL 2 (history_json h)"

text \<open>The conversions of the library, which may throw.\<close>

record entry_lib =
  el_string :: "json \<Rightarrow> string result"
  el_int64 :: "json \<Rightarrow> int result"
  el_bool :: "json \<Rightarrow> bool result"
  el_strings :: "json \<Rightarrow> string list result"

text \<open>A member that is optional.\<close>

definition optional_member :: "string \<Rightarrow> (json \<Rightarrow> 'a result) \<Rightarrow> json \<Rightarrow> ('a \<Rightarrow> HistoryEntry \<Rightarrow> HistoryEntry) \<Rightarrow> HistoryEntry result \<Rightarrow> HistoryEntry result" where
  "optional_member k get item upd e =
     (case e of
        Inl x \<Rightarrow> Inl x
      | Inr entry \<Rightarrow>
          (case jget k item of
             None \<Rightarrow> Inr entry
           | Some j \<Rightarrow> (case get j of Inl x \<Rightarrow> Inl x | Inr a \<Rightarrow> Inr (upd a entry))))"

text \<open>
  One element: reading a member of a value that is no object throws, reading a member that an object does not have is
  undefined, \<open>None\<close>.
\<close>

definition entry_of_json :: "entry_lib \<Rightarrow> json \<Rightarrow> HistoryEntry result option" where
  "entry_of_json EL item =
     (if \<not> is_object item then Some (Inl (OtherException ''type_error''))
      else case jget ''command'' item of
          None \<Rightarrow> None
        | Some c \<Rightarrow>
            Some (optional_member ''tags'' (el_strings EL) item (\<lambda>x e. e\<lparr>he_tags := x\<rparr>)
              (optional_member ''favorite'' (el_bool EL) item (\<lambda>x e. e\<lparr>he_favorite := x\<rparr>)
                (optional_member ''timestamp'' (el_int64 EL) item (\<lambda>x e. e\<lparr>he_timestamp := from_time_t x\<rparr>)
                  (case el_string EL c of Inl x \<Rightarrow> Inl x | Inr s \<Rightarrow> Inr (HistoryEntry_new s 0))))))"

text \<open>The loop over the elements: the entries read so far, and whether an exception ended it.\<close>

fun importLoop :: "entry_lib \<Rightarrow> json list \<Rightarrow> (HistoryEntry list \<times> bool) option" where
  "importLoop EL [] = Some ([], True)"
| "importLoop EL (item # items) =
     (case entry_of_json EL item of
        None \<Rightarrow> None
      | Some (Inl x) \<Rightarrow> Some ([], False)
      | Some (Inr e) \<Rightarrow> map_option (\<lambda>(es, ok). (e # es, ok)) (importLoop EL items))"

text \<open>The elements of the member, which is added as null to an object or to null; any other value throws.\<close>

definition entries_of_json :: "json \<Rightarrow> json list option" where
  "entries_of_json j =
     (case j of
        JObject m \<Rightarrow> Some (case map_of m ''entries'' of None \<Rightarrow> [] | Some v \<Rightarrow> iterate v)
      | JNull \<Rightarrow> Some []
      | _ \<Rightarrow> None)"

definition import_entries :: "entry_lib \<Rightarrow> json \<Rightarrow> (HistoryEntry list \<times> bool) option" where
  "import_entries EL j = (case entries_of_json j of None \<Rightarrow> Some ([], False) | Some items \<Rightarrow> importLoop EL items)"

definition importJson :: "text_lib \<Rightarrow> entry_lib \<Rightarrow> string \<Rightarrow> cmd_history \<Rightarrow> (bool \<times> cmd_history) option" where
  "importJson TL EL text h =
     (case tl_parse TL text of
        Inl e \<Rightarrow> Some (False, h)
      | Inr j \<Rightarrow>
          (case import_entries EL j of
             None \<Rightarrow> None
           | Some (es, False) \<Rightarrow> Some (False, h\<lparr>h_entries := es\<rparr>)
           | Some (es, True) \<Rightarrow> Some (True, h\<lparr>h_entries := es, h_currentPos := length es\<rparr>)))"

text \<open>The library reads one value from the start of a file, \<open>read\<close>. A file that does not hold such a value is read as lines, each at the time it is read.\<close>

definition entries_of_lines :: "(nat \<Rightarrow> int) \<Rightarrow> string \<Rightarrow> HistoryEntry list" where
  "entries_of_lines clk content =
     map (\<lambda>(i, l). HistoryEntry_new l (clk i))
       (let ls = filter (\<lambda>l. l \<noteq> []) (split_path newline content) in zip [0..<length ls] ls)"

definition History_load :: "(string \<Rightarrow> json result) \<Rightarrow> entry_lib \<Rightarrow> (nat \<Rightarrow> int) \<Rightarrow> string option \<Rightarrow> cmd_history \<Rightarrow> (bool \<times> cmd_history) option" where
  "History_load read EL clk content h =
     (case content of
        None \<Rightarrow> Some (False, h)
      | Some text \<Rightarrow>
          (let as_lines = (let es = entries_of_lines clk text in Some (True, h\<lparr>h_entries := es, h_currentPos := length es\<rparr>))
           in case read text of
                Inl e \<Rightarrow> as_lines
              | Inr j \<Rightarrow>
                  (case import_entries EL j of
                     None \<Rightarrow> None
                   | Some (es, False) \<Rightarrow> as_lines
                   | Some (es, True) \<Rightarrow> Some (True, h\<lparr>h_entries := es, h_currentPos := length es\<rparr>))))"

text \<open>Saving to a file that may not open; an exception of printing leaves the function.\<close>

definition History_save :: "text_lib \<Rightarrow> bool \<Rightarrow> cmd_history \<Rightarrow> (string option) result" where
  "History_save TL opens h =
     (if \<not> opens then Inr None else case tl_dump TL 2 (history_json h) of Inl e \<Rightarrow> Inl e | Inr s \<Rightarrow> Inr (Some s))"

definition HistoryManager_new :: "(string \<Rightarrow> json result) \<Rightarrow> entry_lib \<Rightarrow> (nat \<Rightarrow> int) \<Rightarrow> (string \<Rightarrow> string option) \<Rightarrow> HistoryConfig \<Rightarrow> cmd_history option" where
  "HistoryManager_new read EL clk files config =
     (let h = \<lparr>h_config = config, h_entries = [], h_currentPos = 0\<rparr>
      in if hc_historyFile config \<noteq> [] then map_option snd (History_load read EL clk (files (hc_historyFile config)) h) else Some h)"

section \<open>What the history holds\<close>

lemma trimFront_drop: "trimFront n es = drop (length es - n) es"
proof (induction n es rule: trimFront.induct)
  case (1 n es)
  show ?case
  proof (cases "length es > n")
    case True
    then have "trimFront n es = trimFront n (tl es)" by (simp add: trimFront.simps [of n es])
    then show ?thesis using 1 True by (cases es) (simp_all add: Suc_diff_le)
  qed (simp add: trimFront.simps)
qed

lemma removeIfLoop_filter: "removeIfLoop P es n = (filter (\<lambda>e. \<not> P e) es, n + length (filter P es))"
  by (induction P es n rule: removeIfLoop.induct) auto

lemma searchLoop_take: "length res \<le> n \<Longrightarrow> searchLoop P n es res = res @ take (n - length res) (filter P es)"
  by (induction P n es res rule: searchLoop.induct) (auto simp: take_Cons')

text \<open>Without the removal of repetitions the history is a bounded log.\<close>

definition plain_config :: "cmd_history \<Rightarrow> bool" where
  "plain_config h \<longleftrightarrow> \<not> hc_deduplicateConsecutive (h_config h) \<and> \<not> (hc_persistOnAdd (h_config h) \<and> hc_historyFile (h_config h) \<noteq> [])"

lemma take_rev_drop: "take n (rev xs) = rev (drop (length xs - n) xs)"
  by (simp add: take_rev)

interpretation hist: bounded_log addEntry "\<lambda>h. rev (h_entries h)" "\<lambda>h. hc_maxEntries (h_config h)" plain_config
proof unfold_locales
  fix h :: cmd_history and e h'
  assume p: "plain_config h"
  then show "\<exists>h'. addEntry e h = Some h'" by (auto simp: plain_config_def addEntry_def Let_def)
  assume a: "addEntry e h = Some h'"
  show "plain_config h' \<and> hc_maxEntries (h_config h') = hc_maxEntries (h_config h)"
    using p a by (auto simp: plain_config_def addEntry_def Let_def)
  show "rev (h_entries h') = take (hc_maxEntries (h_config h)) (e # rev (h_entries h))"
    using p a take_rev_drop [of "hc_maxEntries (h_config h)" "h_entries h @ [e]"]
    by (auto simp: plain_config_def addEntry_def Let_def trimFront_drop)
qed

text \<open>Repeated commands, each run of which leaves its first entry.\<close>

fun dedupe :: "HistoryEntry list \<Rightarrow> HistoryEntry list" where
  "dedupe [] = []"
| "dedupe [e] = [e]"
| "dedupe (e # f # es) = (if he_command e = he_command f then dedupe (e # es) else e # dedupe (f # es))"

lemma dedupe_empty [simp]: "dedupe es = [] \<longleftrightarrow> es = []"
  by (induction es rule: dedupe.induct) auto

lemma dedupe_snoc:
  "dedupe (es @ [e]) = (if es \<noteq> [] \<and> he_command (last (dedupe es)) = he_command e then dedupe es else dedupe es @ [e])"
proof (induction es rule: dedupe.induct)
  case (3 a b es)
  then show ?case by (cases "he_command a = he_command b") auto
qed auto

fun addAll :: "HistoryEntry list \<Rightarrow> cmd_history \<Rightarrow> cmd_history option" where
  "addAll [] h = Some h"
| "addAll (e # es) h = (case addEntry e h of None \<Rightarrow> None | Some h' \<Rightarrow> addAll es h')"

lemma addAll_snoc: "addAll (es @ [e]) h = (case addAll es h of None \<Rightarrow> None | Some h' \<Rightarrow> addEntry e h')"
  by (induction es h rule: addAll.induct) (auto split: option.split)

definition kept_entries :: "HistoryConfig \<Rightarrow> HistoryEntry list \<Rightarrow> HistoryEntry list" where
  "kept_entries cfg es =
     (let d = (if hc_deduplicateConsecutive cfg then dedupe es else es) in drop (length d - hc_maxEntries cfg) d)"

definition empty_history :: "HistoryConfig \<Rightarrow> cmd_history" where
  "empty_history cfg = \<lparr>h_config = cfg, h_entries = [], h_currentPos = 0\<rparr>"

lemma kept_snoc: "drop (length (drop (length d - n) d @ [e]) - n) (drop (length d - n) d @ [e]) = drop (length (d @ [e]) - n) (d @ [e])"
  by (cases "length d \<ge> n") (auto simp: Suc_diff_le)

text \<open>Adding shows the newest of the commands that differ from the one before them.\<close>

lemma addAll_kept:
  assumes p: "\<not> (hc_persistOnAdd cfg \<and> hc_historyFile cfg \<noteq> [])"
  shows "addAll es (empty_history cfg) = Some \<lparr>h_config = cfg, h_entries = kept_entries cfg es, h_currentPos = length (kept_entries cfg es)\<rparr>"
proof (induction es rule: rev_induct)
  case Nil
  then show ?case by (simp add: empty_history_def kept_entries_def)
next
  case (snoc e es)
  define n where "n = hc_maxEntries cfg"
  define d where "d = (if hc_deduplicateConsecutive cfg then dedupe es else es)"
  have k: "kept_entries cfg es = drop (length d - n) d" by (simp add: kept_entries_def d_def n_def Let_def)
  have last_kept: "drop (length d - n) d \<noteq> [] \<Longrightarrow> last (drop (length d - n) d) = last d" by simp
  show ?case
  proof (cases "hc_deduplicateConsecutive cfg \<and> d \<noteq> [] \<and> he_command (last d) = he_command e")
    case True
    then have k': "kept_entries cfg (es @ [e]) = drop (length d - n) d"
      by (auto simp: kept_entries_def d_def n_def dedupe_snoc Let_def)
    have "0 < length d" using True by simp
    then have "0 < n \<Longrightarrow> \<not> length d \<le> length d - n" by linarith
    then show ?thesis
      using True p last_kept by (cases "n = 0") (auto simp: addAll_snoc snoc.IH k k' addEntry_def trimFront_drop n_def [symmetric] Let_def)
  next
    case False
    then have k': "kept_entries cfg (es @ [e]) = drop (length (d @ [e]) - n) (d @ [e])"
      by (auto simp: kept_entries_def d_def n_def dedupe_snoc Let_def)
    have "\<not> (hc_deduplicateConsecutive cfg \<and> drop (length d - n) d \<noteq> [] \<and> he_command (last (drop (length d - n) d)) = he_command e)"
      using False last_kept by auto
    then show ?thesis
      using p kept_snoc [of d n e] by (auto simp: addAll_snoc snoc.IH k k' addEntry_def trimFront_drop n_def [symmetric] Let_def)
  qed
qed

section \<open>Walking through the history\<close>

fun walkBack :: "nat \<Rightarrow> cmd_history \<Rightarrow> (HistoryEntry option list \<times> cmd_history) option" where
  "walkBack 0 h = Some ([], h)"
| "walkBack (Suc n) h =
     (case previous h of
        None \<Rightarrow> None
      | Some (r, h') \<Rightarrow> map_option (\<lambda>(rs, h''). (r # rs, h'')) (walkBack n h'))"

lemma walkBack_shows:
  "h_currentPos h \<le> length (h_entries h) \<Longrightarrow> \<exists>h'. walkBack n h = Some (map Some (take n (rev (take (h_currentPos h) (h_entries h))))
     @ replicate (n - h_currentPos h) None, h')"
proof (induction n arbitrary: h)
  case (Suc n)
  show ?case
  proof (cases "h_currentPos h")
    case 0
    then have p: "previous h = Some (None, h)" by (simp add: previous_def)
    then show ?thesis using Suc.IH [of h] 0 by auto
  next
    case (Suc pos)
    then have lt: "pos < length (h_entries h)" using Suc.prems by simp
    then have p: "previous h = Some (Some (h_entries h ! pos), h\<lparr>h_currentPos := pos\<rparr>)" using Suc by (auto simp: previous_def Let_def)
    show ?thesis using Suc.IH [of "h\<lparr>h_currentPos := pos\<rparr>"] lt Suc by (auto simp: p take_Suc_conv_app_nth)
  qed
qed simp

section \<open>Histories of operations\<close>

datatype hist_op = HAdd HistoryEntry | HRemove nat | HRemoveIf "HistoryEntry \<Rightarrow> bool" | HClear | HPrevious | HNext | HReset
  | HSetPosition nat | HSetFavorite nat bool | HToggle nat | HAddTag nat string | HRemoveTag nat string
  | HImport string | HLoad "string option" | HSetConfig HistoryConfig

text \<open>Reading files and parsing text are the same conversion here.\<close>

fun hist_step :: "text_lib \<Rightarrow> entry_lib \<Rightarrow> (nat \<Rightarrow> int) \<Rightarrow> hist_op \<Rightarrow> cmd_history \<Rightarrow> cmd_history option" where
  "hist_step TL EL clk (HAdd e) h = addEntry e h"
| "hist_step TL EL clk (HRemove i) h = Some (snd (History_remove i h))"
| "hist_step TL EL clk (HRemoveIf P) h = Some (snd (removeIf P h))"
| "hist_step TL EL clk HClear h = Some (History_clear h)"
| "hist_step TL EL clk HPrevious h = map_option snd (previous h)"
| "hist_step TL EL clk HNext h = Some (snd (next_entry h))"
| "hist_step TL EL clk HReset h = Some (resetNavigation h)"
| "hist_step TL EL clk (HSetPosition i) h = Some (setPosition i h)"
| "hist_step TL EL clk (HSetFavorite i b) h = Some (snd (setFavorite i b h))"
| "hist_step TL EL clk (HToggle i) h = Some (snd (toggleFavorite i h))"
| "hist_step TL EL clk (HAddTag i t) h = Some (snd (addTag i t h))"
| "hist_step TL EL clk (HRemoveTag i t) h = Some (snd (removeTag i t h))"
| "hist_step TL EL clk (HImport text) h = map_option snd (importJson TL EL text h)"
| "hist_step TL EL clk (HLoad content) h = map_option snd (History_load (tl_parse TL) EL clk content h)"
| "hist_step TL EL clk (HSetConfig cfg) h = Some (History_setConfig cfg h)"

text \<open>The operations that stay inside the list: no import that fails half way, no saving on every addition.\<close>

fun careful :: "text_lib \<Rightarrow> entry_lib \<Rightarrow> hist_op \<Rightarrow> bool" where
  "careful TL EL (HImport text) \<longleftrightarrow> (\<forall>j. tl_parse TL text = Inr j \<longrightarrow> (\<exists>es. import_entries EL j = Some (es, True)))"
| "careful TL EL (HLoad (Some text)) \<longleftrightarrow> (\<forall>j. tl_parse TL text = Inr j \<longrightarrow> import_entries EL j \<noteq> None)"
| "careful TL EL (HSetConfig cfg) \<longleftrightarrow> \<not> hc_persistOnAdd cfg"
| "careful TL EL op \<longleftrightarrow> True"

definition in_range :: "cmd_history \<Rightarrow> bool" where
  "in_range h \<longleftrightarrow> h_currentPos h \<le> length (h_entries h) \<and> \<not> hc_persistOnAdd (h_config h)"

lemma hist_step_in_range:
  "in_range h \<Longrightarrow> careful TL EL op \<Longrightarrow> \<exists>h'. hist_step TL EL clk op h = Some h' \<and> in_range h'"
proof (cases op)
  case (HImport t)
  assume "in_range h" "careful TL EL op"
  then show ?thesis using HImport by (cases "tl_parse TL t") (auto simp: importJson_def in_range_def)
next
  case (HLoad content)
  assume "in_range h" "careful TL EL op"
  then show ?thesis using HLoad
    by (cases content; cases "tl_parse TL (the content)")
      (auto simp: History_load_def in_range_def Let_def split: option.splits bool.splits)
qed (auto simp: in_range_def addEntry_def History_remove_def removeIf_def History_clear_def previous_def next_entry_def resetNavigation_def
    setPosition_def setFavorite_def toggleFavorite_def addTag_def removeTag_def History_setConfig_def Let_def split: prod.splits)

fun hist_run :: "text_lib \<Rightarrow> entry_lib \<Rightarrow> (nat \<Rightarrow> int) \<Rightarrow> hist_op list \<Rightarrow> cmd_history \<Rightarrow> cmd_history option" where
  "hist_run TL EL clk [] h = Some h"
| "hist_run TL EL clk (op # ops) h = (case hist_step TL EL clk op h of None \<Rightarrow> None | Some h' \<Rightarrow> hist_run TL EL clk ops h')"

lemma hist_run_in_range:
  "in_range h \<Longrightarrow> \<forall>op \<in> set ops. careful TL EL op \<Longrightarrow> \<exists>h'. hist_run TL EL clk ops h = Some h' \<and> in_range h'"
proof (induction ops arbitrary: h)
  case (Cons op ops)
  then show ?case using hist_step_in_range [of h TL EL op clk] by fastforce
qed simp

section \<open>Properties\<close>

text \<open>
  C24: The history shows the newest commands. After any additions it holds the last entries, at most its maximum, of the commands
  that differ from the one before them, or of all commands if repetitions are kept. Going back from there shows them from
  the newest to the oldest and then nothing, and never reads outside the list.
\<close>

theorem history_shows_newest:
  assumes "\<not> (hc_persistOnAdd cfg \<and> hc_historyFile cfg \<noteq> [])"
  shows "\<exists>h h'. addAll es (empty_history cfg) = Some h \<and> h_entries h = kept_entries cfg es
    \<and> length (h_entries h) \<le> hc_maxEntries cfg
    \<and> walkBack n h = Some (map Some (take n (rev (kept_entries cfg es))) @ replicate (n - length (kept_entries cfg es)) None, h')"
proof -
  let ?h = "\<lparr>h_config = cfg, h_entries = kept_entries cfg es, h_currentPos = length (kept_entries cfg es)\<rparr>"
  have "length (kept_entries cfg es) \<le> hc_maxEntries cfg" by (simp add: kept_entries_def Let_def)
  then show ?thesis using addAll_kept [OF assms, of es] walkBack_shows [of ?h n] by auto
qed

theorem history_shows_newest_witness:
  "let cfg = HistoryConfig_new\<lparr>hc_maxEntries := 2\<rparr>; e = (\<lambda>c. HistoryEntry_new c 0)
   in \<exists>h h'. addAll [e ''a'', e ''b'', e ''b'', e ''c''] (empty_history cfg) = Some h \<and> walkBack 3 h = Some ([Some (e ''c''), Some (e ''b''), None], h')"
proof -
  let ?cfg = "HistoryConfig_new\<lparr>hc_maxEntries := 2\<rparr>" and ?e = "\<lambda>c. HistoryEntry_new c 0"
  have k: "kept_entries ?cfg [?e ''a'', ?e ''b'', ?e ''b'', ?e ''c''] = [?e ''b'', ?e ''c'']" by code_simp
  have "\<not> (hc_persistOnAdd ?cfg \<and> hc_historyFile ?cfg \<noteq> [])" by (simp add: HistoryConfig_new_def)
  from history_shows_newest [OF this, of "[?e ''a'', ?e ''b'', ?e ''b'', ?e ''c'']" 3] show ?thesis
    unfolding k Let_def by auto
qed

text \<open>No careful operation leaves the list or blocks.\<close>

lemma history_never_out_of_range:
  assumes "\<not> hc_persistOnAdd cfg" "\<forall>op \<in> set ops. careful TL EL op"
  shows "\<exists>h. hist_run TL EL clk ops (empty_history cfg) = Some h \<and> h_currentPos h \<le> length (h_entries h)"
  using hist_run_in_range [of "empty_history cfg" ops TL EL clk] assms by (auto simp: in_range_def empty_history_def)

text \<open>An import that fails half way leaves a position outside the list, and going back reads there.\<close>

lemma partial_import_undefined:
  assumes "tl_parse TL text = Inr (JObject [(''entries'', JArray [item, JNull])])" "entry_of_json EL item = Some (Inr e)"
    "h_currentPos h > 1"
  shows "\<exists>h'. importJson TL EL text h = Some (False, h') \<and> previous h' = None"
  using assms by (simp add: importJson_def import_entries_def entries_of_json_def entry_of_json_def [of EL JNull] previous_def Let_def)

text \<open>With saving on every addition, the first addition never returns.\<close>

lemma persist_blocks: "hc_persistOnAdd cfg \<Longrightarrow> hc_historyFile cfg \<noteq> [] \<Longrightarrow> addEntry e (empty_history cfg) = None"
  by (simp add: addEntry_def empty_history_def Let_def)

text \<open>A repeated command does not reset the position.\<close>

lemma repeated_keeps_position:
  "hc_deduplicateConsecutive (h_config h) \<Longrightarrow> h_entries h \<noteq> [] \<Longrightarrow> he_command (last (h_entries h)) = he_command e \<Longrightarrow> addEntry e h = Some h"
  by (simp add: addEntry_def)

text \<open>Exporting and importing keep the commands, the favourites, the tags and the times to the second; results are lost.\<close>

definition reads_entries :: "entry_lib \<Rightarrow> bool" where
  "reads_entries EL \<longleftrightarrow> (\<forall>s. el_string EL (JString s) = Inr s) \<and> (\<forall>i. el_int64 EL (JInt i) = Inr i) \<and> (\<forall>b. el_bool EL (JBool b) = Inr b)
     \<and> (\<forall>xs. el_strings EL (JArray (map JString xs)) = Inr xs)"

definition stored_entry :: "HistoryEntry \<Rightarrow> HistoryEntry" where
  "stored_entry e = e\<lparr>he_result := None, he_timestamp := from_time_t (to_time_t (he_timestamp e))\<rparr>"

lemma entry_roundtrip: "reads_entries EL \<Longrightarrow> entry_of_json EL (entry_json e) = Some (Inr (stored_entry e))"
  by (simp add: entry_of_json_def entry_json_def optional_member_def reads_entries_def stored_entry_def HistoryEntry_new_def)

lemma importLoop_roundtrip: "reads_entries EL \<Longrightarrow> importLoop EL (map entry_json es) = Some (map stored_entry es, True)"
  by (induction es) (simp_all add: entry_roundtrip)

lemma export_import:
  assumes "prints TL (history_json h)" "reads_entries EL" "exportJson TL h = Inr s"
  shows "importJson TL EL s h' = Some (True, h'\<lparr>h_entries := map stored_entry (h_entries h), h_currentPos := length (h_entries h)\<rparr>)"
proof -
  have "tl_parse TL s = Inr (history_json h)" using assms(1,3) unfolding prints_def exportJson_def by (metis sum.inject(2))
  then show ?thesis
    by (simp add: importJson_def import_entries_def entries_of_json_def history_json_def importLoop_roundtrip [OF assms(2)])
qed

end
