(* ===== verification/Device_Type_Registry.thy ===== *)
theory Device_Type_Registry
  imports Json_Value
begin

text \<open>
  The registry of device types, \<^verbatim>\<open>src/src/device/service/device_type_registry.cpp\<close>: types and categories by name, subscribers that
  are told of every change, and the conversion to JSON. A subscriber is known by its identifier and its calls are a log; what
  it throws is caught. Where an operation gives up the lock between two sections, what other threads do there is an argument.
  Of the error codes only those the registry returns are listed. Logging is left out.
\<close>

section \<open>Types, categories and events\<close>

record DeviceCapabilities =
  canConnect :: bool
  canDisconnect :: bool
  canAbort :: bool
  canPark :: bool
  canHome :: bool
  canSync :: bool
  canSlew :: bool
  canTrack :: bool
  canGuide :: bool
  canCool :: bool
  canFocus :: bool
  canRotate :: bool
  hasShutter :: bool
  hasTemperature :: bool
  hasPosition :: bool
  supportsAsync :: bool
  supportsEvents :: bool
  supportsProperties :: bool
  supportsBatch :: bool

definition DeviceCapabilities_new :: DeviceCapabilities where
  "DeviceCapabilities_new = \<lparr>canConnect = True, canDisconnect = True, canAbort = False, canPark = False, canHome = False, canSync = False,
     canSlew = False, canTrack = False, canGuide = False, canCool = False, canFocus = False, canRotate = False, hasShutter = False,
     hasTemperature = False, hasPosition = False, supportsAsync = True, supportsEvents = True, supportsProperties = True,
     supportsBatch = False\<rparr>"

record DeviceTypeInfo =
  ti_typeName :: string
  ti_category :: string
  ti_displayName :: string
  ti_description :: string
  ti_pluginName :: string
  ti_version :: string
  ti_capabilities :: DeviceCapabilities
  ti_propertySchema :: json
  ti_metadata :: json
  ti_priority :: int
  ti_enabled :: bool

record DeviceCategoryInfo =
  ci_categoryName :: string
  ci_displayName :: string
  ci_description :: string
  ci_iconName :: string
  ci_sortOrder :: int
  ci_isBuiltIn :: bool

datatype Action = Registered | Unregistered | Updated | Enabled | Disabled

record TypeRegistrationEvent =
  te_action :: Action
  te_typeName :: string
  te_category :: string
  te_pluginName :: string

datatype DeviceErrorCode = CodeInvalidArgument | CodeAlreadyExists | CodeNotFound

type_synonym device_result = "(DeviceErrorCode \<times> string) + bool"

record type_registry =
  tr_types :: "DeviceTypeInfo umap"
  tr_categories :: "DeviceCategoryInfo umap"
  tr_subscribers :: "nat list"
  tr_nextCallbackId :: nat
  tr_log :: "(nat \<times> TypeRegistrationEvent) list"

section \<open>Conversion to JSON\<close>

text \<open>An object that is filled member by member.\<close>

definition object_of :: "(string \<times> json) list \<Rightarrow> json" where
  "object_of ms = JObject (fold (\<lambda>(k, v) m. obj_put k v m) ms [])"

text \<open>\<^verbatim>\<open>j.value(k, d)\<close>: the converted member or the default; it throws on a value that is no object.\<close>

definition json_value :: "(json \<Rightarrow> 'a result) \<Rightarrow> string \<Rightarrow> 'a \<Rightarrow> json \<Rightarrow> 'a result" where
  "json_value conv k d j =
     (if \<not> is_object j then Inl (OtherException ''type_error'') else case jget k j of None \<Rightarrow> Inr d | Some v \<Rightarrow> conv v)"

definition then_set :: "'a result \<Rightarrow> ('a \<Rightarrow> 'b \<Rightarrow> 'b) \<Rightarrow> 'b result \<Rightarrow> 'b result" where
  "then_set x upd r = (case r of Inl e \<Rightarrow> Inl e | Inr b \<Rightarrow> (case x of Inl e \<Rightarrow> Inl e | Inr a \<Rightarrow> Inr (upd a b)))"

record value_lib =
  vl_bool :: "json \<Rightarrow> bool result"
  vl_string :: "json \<Rightarrow> string result"
  vl_int :: "json \<Rightarrow> int result"

definition DeviceCapabilities_toJson :: "DeviceCapabilities \<Rightarrow> json" where
  "DeviceCapabilities_toJson c = object_of
     [(''canConnect'', JBool (canConnect c)), (''canDisconnect'', JBool (canDisconnect c)), (''canAbort'', JBool (canAbort c)),
      (''canPark'', JBool (canPark c)), (''canHome'', JBool (canHome c)), (''canSync'', JBool (canSync c)), (''canSlew'', JBool (canSlew c)),
      (''canTrack'', JBool (canTrack c)), (''canGuide'', JBool (canGuide c)), (''canCool'', JBool (canCool c)),
      (''canFocus'', JBool (canFocus c)), (''canRotate'', JBool (canRotate c)), (''hasShutter'', JBool (hasShutter c)),
      (''hasTemperature'', JBool (hasTemperature c)), (''hasPosition'', JBool (hasPosition c)), (''supportsAsync'', JBool (supportsAsync c)),
      (''supportsEvents'', JBool (supportsEvents c)), (''supportsProperties'', JBool (supportsProperties c)),
      (''supportsBatch'', JBool (supportsBatch c))]"

definition DeviceCapabilities_fromJson :: "value_lib \<Rightarrow> json \<Rightarrow> DeviceCapabilities result" where
  "DeviceCapabilities_fromJson VL j =
     (let v = (\<lambda>k d. json_value (vl_bool VL) k d j)
      in then_set (v ''supportsBatch'' False) (\<lambda>b c. c\<lparr>supportsBatch := b\<rparr>)
        (then_set (v ''supportsProperties'' True) (\<lambda>b c. c\<lparr>supportsProperties := b\<rparr>)
        (then_set (v ''supportsEvents'' True) (\<lambda>b c. c\<lparr>supportsEvents := b\<rparr>)
        (then_set (v ''supportsAsync'' True) (\<lambda>b c. c\<lparr>supportsAsync := b\<rparr>)
        (then_set (v ''hasPosition'' False) (\<lambda>b c. c\<lparr>hasPosition := b\<rparr>)
        (then_set (v ''hasTemperature'' False) (\<lambda>b c. c\<lparr>hasTemperature := b\<rparr>)
        (then_set (v ''hasShutter'' False) (\<lambda>b c. c\<lparr>hasShutter := b\<rparr>)
        (then_set (v ''canRotate'' False) (\<lambda>b c. c\<lparr>canRotate := b\<rparr>)
        (then_set (v ''canFocus'' False) (\<lambda>b c. c\<lparr>canFocus := b\<rparr>)
        (then_set (v ''canCool'' False) (\<lambda>b c. c\<lparr>canCool := b\<rparr>)
        (then_set (v ''canGuide'' False) (\<lambda>b c. c\<lparr>canGuide := b\<rparr>)
        (then_set (v ''canTrack'' False) (\<lambda>b c. c\<lparr>canTrack := b\<rparr>)
        (then_set (v ''canSlew'' False) (\<lambda>b c. c\<lparr>canSlew := b\<rparr>)
        (then_set (v ''canSync'' False) (\<lambda>b c. c\<lparr>canSync := b\<rparr>)
        (then_set (v ''canHome'' False) (\<lambda>b c. c\<lparr>canHome := b\<rparr>)
        (then_set (v ''canPark'' False) (\<lambda>b c. c\<lparr>canPark := b\<rparr>)
        (then_set (v ''canAbort'' False) (\<lambda>b c. c\<lparr>canAbort := b\<rparr>)
        (then_set (v ''canDisconnect'' True) (\<lambda>b c. c\<lparr>canDisconnect := b\<rparr>)
        (then_set (v ''canConnect'' True) (\<lambda>b c. c\<lparr>canConnect := b\<rparr>) (Inr DeviceCapabilities_new))))))))))))))))))))"

definition DeviceTypeInfo_new :: DeviceTypeInfo where
  "DeviceTypeInfo_new = \<lparr>ti_typeName = [], ti_category = [], ti_displayName = [], ti_description = [], ti_pluginName = [], ti_version = [],
     ti_capabilities = DeviceCapabilities_new, ti_propertySchema = JNull, ti_metadata = JNull, ti_priority = 0, ti_enabled = True\<rparr>"

definition DeviceTypeInfo_toJson :: "DeviceTypeInfo \<Rightarrow> json" where
  "DeviceTypeInfo_toJson i = object_of
     [(''typeName'', JString (ti_typeName i)), (''category'', JString (ti_category i)), (''displayName'', JString (ti_displayName i)),
      (''description'', JString (ti_description i)), (''pluginName'', JString (ti_pluginName i)), (''version'', JString (ti_version i)),
      (''capabilities'', DeviceCapabilities_toJson (ti_capabilities i)), (''propertySchema'', ti_propertySchema i),
      (''metadata'', ti_metadata i), (''priority'', JInt (ti_priority i)), (''enabled'', JBool (ti_enabled i))]"

definition DeviceTypeInfo_fromJson :: "value_lib \<Rightarrow> json \<Rightarrow> DeviceTypeInfo result" where
  "DeviceTypeInfo_fromJson VL j =
     (let s = (\<lambda>k d. json_value (vl_string VL) k d j)
      in then_set (json_value (vl_bool VL) ''enabled'' True j) (\<lambda>b i. i\<lparr>ti_enabled := b\<rparr>)
        (then_set (json_value (vl_int VL) ''priority'' 0 j) (\<lambda>n i. i\<lparr>ti_priority := n\<rparr>)
        (then_set (Inr (jget ''metadata'' j)) (\<lambda>x i. case x of None \<Rightarrow> i | Some v \<Rightarrow> i\<lparr>ti_metadata := v\<rparr>)
        (then_set (Inr (jget ''propertySchema'' j)) (\<lambda>x i. case x of None \<Rightarrow> i | Some v \<Rightarrow> i\<lparr>ti_propertySchema := v\<rparr>)
        (then_set (case jget ''capabilities'' j of None \<Rightarrow> Inr None | Some v \<Rightarrow> map_sum id Some (DeviceCapabilities_fromJson VL v))
            (\<lambda>x i. case x of None \<Rightarrow> i | Some c \<Rightarrow> i\<lparr>ti_capabilities := c\<rparr>)
        (then_set (s ''version'' ''1.0.0'') (\<lambda>x i. i\<lparr>ti_version := x\<rparr>)
        (then_set (s ''pluginName'' []) (\<lambda>x i. i\<lparr>ti_pluginName := x\<rparr>)
        (then_set (s ''description'' []) (\<lambda>x i. i\<lparr>ti_description := x\<rparr>)
        (then_set (s ''displayName'' []) (\<lambda>x i. i\<lparr>ti_displayName := x\<rparr>)
        (then_set (s ''category'' []) (\<lambda>x i. i\<lparr>ti_category := x\<rparr>)
        (then_set (s ''typeName'' []) (\<lambda>x i. i\<lparr>ti_typeName := x\<rparr>) (Inr DeviceTypeInfo_new))))))))))))"

definition DeviceCategoryInfo_new :: DeviceCategoryInfo where
  "DeviceCategoryInfo_new = \<lparr>ci_categoryName = [], ci_displayName = [], ci_description = [], ci_iconName = [], ci_sortOrder = 0, ci_isBuiltIn = False\<rparr>"

definition DeviceCategoryInfo_toJson :: "DeviceCategoryInfo \<Rightarrow> json" where
  "DeviceCategoryInfo_toJson i = object_of
     [(''categoryName'', JString (ci_categoryName i)), (''displayName'', JString (ci_displayName i)), (''description'', JString (ci_description i)),
      (''iconName'', JString (ci_iconName i)), (''sortOrder'', JInt (ci_sortOrder i)), (''isBuiltIn'', JBool (ci_isBuiltIn i))]"

definition DeviceCategoryInfo_fromJson :: "value_lib \<Rightarrow> json \<Rightarrow> DeviceCategoryInfo result" where
  "DeviceCategoryInfo_fromJson VL j =
     (let s = (\<lambda>k. json_value (vl_string VL) k [] j)
      in then_set (json_value (vl_bool VL) ''isBuiltIn'' False j) (\<lambda>b i. i\<lparr>ci_isBuiltIn := b\<rparr>)
        (then_set (json_value (vl_int VL) ''sortOrder'' 0 j) (\<lambda>n i. i\<lparr>ci_sortOrder := n\<rparr>)
        (then_set (s ''iconName'') (\<lambda>x i. i\<lparr>ci_iconName := x\<rparr>)
        (then_set (s ''description'') (\<lambda>x i. i\<lparr>ci_description := x\<rparr>)
        (then_set (s ''displayName'') (\<lambda>x i. i\<lparr>ci_displayName := x\<rparr>)
        (then_set (s ''categoryName'') (\<lambda>x i. i\<lparr>ci_categoryName := x\<rparr>) (Inr DeviceCategoryInfo_new)))))))"

section \<open>Operations\<close>

definition notifySubscribers :: "TypeRegistrationEvent \<Rightarrow> type_registry \<Rightarrow> type_registry" where
  "notifySubscribers event r = r\<lparr>tr_log := tr_log r @ map (\<lambda>i. (i, event)) (tr_subscribers r)\<rparr>"

definition event_of :: "Action \<Rightarrow> DeviceTypeInfo \<Rightarrow> TypeRegistrationEvent" where
  "event_of action info =
     \<lparr>te_action = action, te_typeName = ti_typeName info, te_category = ti_category info, te_pluginName = ti_pluginName info\<rparr>"

definition registerType :: "DeviceTypeInfo \<Rightarrow> type_registry \<Rightarrow> device_result \<times> type_registry" where
  "registerType info r =
     (if ti_typeName info = [] then (Inl (CodeInvalidArgument, ''Type name cannot be empty''), r)
      else if map_of (tr_types r) (ti_typeName info) \<noteq> None then (Inl (CodeAlreadyExists, ''Type already registered: '' @ ti_typeName info), r)
      else (Inr True, notifySubscribers (event_of Registered info) (r\<lparr>tr_types := AList.update (ti_typeName info) info (tr_types r)\<rparr>)))"

definition registerTypeFromPlugin :: "DeviceTypeInfo \<Rightarrow> string \<Rightarrow> type_registry \<Rightarrow> device_result \<times> type_registry" where
  "registerTypeFromPlugin info pluginName r = registerType (info\<lparr>ti_pluginName := pluginName\<rparr>) r"

definition unregisterType :: "string \<Rightarrow> type_registry \<Rightarrow> device_result \<times> type_registry" where
  "unregisterType typeName r =
     (case map_of (tr_types r) typeName of
        None \<Rightarrow> (Inl (CodeNotFound, ''Type not found: '' @ typeName), r)
      | Some info \<Rightarrow>
          (Inr True, notifySubscribers ((event_of Unregistered info)\<lparr>te_typeName := typeName\<rparr>) (r\<lparr>tr_types := AList.delete typeName (tr_types r)\<rparr>)))"

text \<open>The lock is free around every notification: \<open>others\<close> is what other threads do there.\<close>

fun unregisterLoop :: "(type_registry \<Rightarrow> type_registry) list \<Rightarrow> string \<Rightarrow> string list \<Rightarrow> type_registry \<Rightarrow> type_registry" where
  "unregisterLoop others pluginName [] r = r"
| "unregisterLoop others pluginName (name # names) r =
     (case map_of (tr_types r) name of
        None \<Rightarrow> unregisterLoop others pluginName names r
      | Some info \<Rightarrow>
          (let r1 = notifySubscribers \<lparr>te_action = Unregistered, te_typeName = name, te_category = ti_category info, te_pluginName = pluginName\<rparr>
                 (r\<lparr>tr_types := AList.delete name (tr_types r)\<rparr>)
           in case others of
                [] \<Rightarrow> unregisterLoop [] pluginName names r1
              | f # fs \<Rightarrow> unregisterLoop fs pluginName names (f r1)))"

definition unregisterPluginTypes :: "(type_registry \<Rightarrow> type_registry) list \<Rightarrow> string \<Rightarrow> type_registry \<Rightarrow> nat \<times> type_registry" where
  "unregisterPluginTypes others pluginName r =
     (let toRemove = map fst (filter (\<lambda>(name, info). ti_pluginName info = pluginName) (tr_types r))
      in (length toRemove, unregisterLoop others pluginName toRemove r))"

definition updateType :: "DeviceTypeInfo \<Rightarrow> type_registry \<Rightarrow> device_result \<times> type_registry" where
  "updateType info r =
     (if map_of (tr_types r) (ti_typeName info) = None then (Inl (CodeNotFound, ''Type not found: '' @ ti_typeName info), r)
      else (Inr True, notifySubscribers (event_of Updated info) (r\<lparr>tr_types := AList.update (ti_typeName info) info (tr_types r)\<rparr>)))"

text \<open>Enabling and disabling differ in the flag and the event.\<close>

definition setTypeEnabled :: "bool \<Rightarrow> string \<Rightarrow> type_registry \<Rightarrow> device_result \<times> type_registry" where
  "setTypeEnabled on typeName r =
     (case map_of (tr_types r) typeName of
        None \<Rightarrow> (Inl (CodeNotFound, ''Type not found: '' @ typeName), r)
      | Some info \<Rightarrow>
          if ti_enabled info = on then (Inr True, r)
          else (Inr True, notifySubscribers ((event_of (if on then Enabled else Disabled) info)\<lparr>te_typeName := typeName\<rparr>)
            (r\<lparr>tr_types := AList.update typeName (info\<lparr>ti_enabled := on\<rparr>) (tr_types r)\<rparr>)))"

definition enableType :: "string \<Rightarrow> type_registry \<Rightarrow> device_result \<times> type_registry" where
  "enableType typeName r = setTypeEnabled True typeName r"

definition disableType :: "string \<Rightarrow> type_registry \<Rightarrow> device_result \<times> type_registry" where
  "disableType typeName r = setTypeEnabled False typeName r"

definition hasType :: "string \<Rightarrow> type_registry \<Rightarrow> bool" where
  "hasType typeName r \<longleftrightarrow> map_of (tr_types r) typeName \<noteq> None"

definition getTypeInfo :: "string \<Rightarrow> type_registry \<Rightarrow> DeviceTypeInfo option" where
  "getTypeInfo typeName r = map_of (tr_types r) typeName"

definition getAllTypes :: "type_registry \<Rightarrow> DeviceTypeInfo list" where
  "getAllTypes r = map snd (tr_types r)"

definition getTypesByCategory :: "string \<Rightarrow> type_registry \<Rightarrow> DeviceTypeInfo list" where
  "getTypesByCategory category r = filter (\<lambda>i. ti_category i = category) (map snd (tr_types r))"

definition getPluginTypes :: "string \<Rightarrow> type_registry \<Rightarrow> DeviceTypeInfo list" where
  "getPluginTypes pluginName r = filter (\<lambda>i. ti_pluginName i = pluginName) (map snd (tr_types r))"

definition getEnabledTypes :: "type_registry \<Rightarrow> DeviceTypeInfo list" where
  "getEnabledTypes r = filter ti_enabled (map snd (tr_types r))"

definition getTypeNames :: "type_registry \<Rightarrow> string list" where
  "getTypeNames r = map fst (tr_types r)"

definition isTypeEnabled :: "string \<Rightarrow> type_registry \<Rightarrow> bool" where
  "isTypeEnabled typeName r = (case map_of (tr_types r) typeName of None \<Rightarrow> False | Some info \<Rightarrow> ti_enabled info)"

definition registerCategory :: "DeviceCategoryInfo \<Rightarrow> type_registry \<Rightarrow> device_result \<times> type_registry" where
  "registerCategory info r =
     (if ci_categoryName info = [] then (Inl (CodeInvalidArgument, ''Category name cannot be empty''), r)
      else if map_of (tr_categories r) (ci_categoryName info) \<noteq> None
      then (Inl (CodeAlreadyExists, ''Category already registered: '' @ ci_categoryName info), r)
      else (Inr True, r\<lparr>tr_categories := AList.update (ci_categoryName info) info (tr_categories r)\<rparr>))"

definition getCategoryInfo :: "string \<Rightarrow> type_registry \<Rightarrow> DeviceCategoryInfo option" where
  "getCategoryInfo categoryName r = map_of (tr_categories r) categoryName"

definition getAllCategories :: "type_registry \<Rightarrow> DeviceCategoryInfo list" where
  "getAllCategories r = sort_key ci_sortOrder (map snd (tr_categories r))"

definition hasCategory :: "string \<Rightarrow> type_registry \<Rightarrow> bool" where
  "hasCategory categoryName r \<longleftrightarrow> map_of (tr_categories r) categoryName \<noteq> None"

definition TypeRegistry_subscribe :: "type_registry \<Rightarrow> nat \<times> type_registry" where
  "TypeRegistry_subscribe r =
     (tr_nextCallbackId r, r\<lparr>tr_nextCallbackId := tr_nextCallbackId r + 1, tr_subscribers := tr_subscribers r @ [tr_nextCallbackId r]\<rparr>)"

definition TypeRegistry_unsubscribe :: "nat \<Rightarrow> type_registry \<Rightarrow> type_registry" where
  "TypeRegistry_unsubscribe i r = r\<lparr>tr_subscribers := removeAll i (tr_subscribers r)\<rparr>"

definition TypeRegistry_clear :: "type_registry \<Rightarrow> type_registry" where
  "TypeRegistry_clear r = r\<lparr>tr_types := [], tr_categories := []\<rparr>"

definition builtInCategories :: "(string \<times> string \<times> string) list" where
  "builtInCategories =
     [(''Camera'', ''Camera'', ''CCD/CMOS cameras''), (''Telescope'', ''Telescope'', ''Telescope mounts''),
      (''Focuser'', ''Focuser'', ''Focus controllers''), (''FilterWheel'', ''Filter Wheel'', ''Filter wheel controllers''),
      (''Dome'', ''Dome'', ''Observatory domes''), (''Rotator'', ''Rotator'', ''Field rotators''), (''Guider'', ''Guider'', ''Autoguiding systems''),
      (''Weather'', ''Weather'', ''Weather stations''), (''GPS'', ''GPS'', ''GPS receivers''), (''AuxiliaryDevice'', ''Auxiliary'', ''Auxiliary devices''),
      (''Switch'', ''Switch'', ''Power switches''), (''SafetyMonitor'', ''Safety Monitor'', ''Safety monitoring''),
      (''CoverCalibrator'', ''Cover/Calibrator'', ''Cover and calibrator''),
      (''ObservingConditions'', ''Observing Conditions'', ''Observing conditions sensors''), (''Video'', ''Video'', ''Video cameras'')]"

definition initializeBuiltInTypes :: "type_registry \<Rightarrow> type_registry" where
  "initializeBuiltInTypes r =
     r\<lparr>tr_categories := fold (\<lambda>(order, name, display, desc). AList.update name
         (DeviceCategoryInfo_new\<lparr>ci_categoryName := name, ci_displayName := display, ci_description := desc, ci_sortOrder := int order, ci_isBuiltIn := True\<rparr>))
       (zip [0..<length builtInCategories] builtInCategories) (tr_categories r)\<rparr>"

definition DeviceTypeRegistry_new :: type_registry where
  "DeviceTypeRegistry_new = initializeBuiltInTypes \<lparr>tr_types = [], tr_categories = [], tr_subscribers = [], tr_nextCallbackId = 1, tr_log = []\<rparr>"

definition TypeRegistry_getStatistics :: "type_registry \<Rightarrow> json" where
  "TypeRegistry_getStatistics r =
     (let types = map snd (tr_types r); n = int (length types); enabledCount = int (length (filter ti_enabled types));
          pluginTypeCount = int (length (filter (\<lambda>i. ti_pluginName i \<noteq> []) types));
          categoryStats = (if tr_categories r = [] then JNull
            else object_of (map (\<lambda>(c, info). (c, JInt (int (length (filter (\<lambda>i. ti_category i = c) types))))) (tr_categories r)))
      in object_of [(''totalTypes'', JInt n), (''totalCategories'', JInt (int (length (tr_categories r)))),
           (''subscriberCount'', JInt (int (length (tr_subscribers r)))), (''typesPerCategory'', categoryStats),
           (''enabledTypes'', JInt enabledCount), (''disabledTypes'', JInt (n - enabledCount)), (''pluginTypes'', JInt pluginTypeCount),
           (''builtInTypes'', JInt (n - pluginTypeCount))])"

section \<open>Round trips\<close>

definition reads_values :: "value_lib \<Rightarrow> bool" where
  "reads_values VL \<longleftrightarrow> (\<forall>b. vl_bool VL (JBool b) = Inr b) \<and> (\<forall>s. vl_string VL (JString s) = Inr s) \<and> (\<forall>i. vl_int VL (JInt i) = Inr i)"

lemma fold_put_get: "map_of (fold (\<lambda>(k, v) m. obj_put k v m) ms m0) k = (case map_of (rev ms) k of None \<Rightarrow> map_of m0 k | Some v \<Rightarrow> Some v)"
  by (induction ms arbitrary: m0) (auto simp: map_of_append map_add_def split: option.split)

lemma json_value_object: "json_value conv k d (object_of ms) = (case map_of (rev ms) k of None \<Rightarrow> Inr d | Some v \<Rightarrow> conv v)"
  by (simp add: json_value_def object_of_def fold_put_get split: option.split)

lemma jget_object_of: "jget k (object_of ms) = map_of (rev ms) k"
  by (simp add: object_of_def fold_put_get split: option.split)

lemma capabilities_roundtrip:
  assumes "reads_values VL"
  shows "DeviceCapabilities_fromJson VL (DeviceCapabilities_toJson c) = Inr c"
proof -
  have "\<forall>b. vl_bool VL (JBool b) = Inr b" using assms by (simp add: reads_values_def)
  then show ?thesis
    by (simp add: DeviceCapabilities_fromJson_def DeviceCapabilities_toJson_def json_value_object then_set_def DeviceCapabilities_new_def Let_def)
qed

lemma type_info_roundtrip:
  assumes "reads_values VL"
  shows "DeviceTypeInfo_fromJson VL (DeviceTypeInfo_toJson i) = Inr i"
proof -
  have "(\<forall>b. vl_bool VL (JBool b) = Inr b) \<and> (\<forall>s. vl_string VL (JString s) = Inr s) \<and> (\<forall>i. vl_int VL (JInt i) = Inr i)"
    using assms by (simp add: reads_values_def)
  then show ?thesis
    by (simp add: DeviceTypeInfo_fromJson_def DeviceTypeInfo_toJson_def json_value_object jget_object_of capabilities_roundtrip [OF assms]
        then_set_def DeviceTypeInfo_new_def Let_def)
qed

lemma category_info_roundtrip:
  assumes "reads_values VL"
  shows "DeviceCategoryInfo_fromJson VL (DeviceCategoryInfo_toJson i) = Inr i"
proof -
  have "(\<forall>b. vl_bool VL (JBool b) = Inr b) \<and> (\<forall>s. vl_string VL (JString s) = Inr s) \<and> (\<forall>i. vl_int VL (JInt i) = Inr i)"
    using assms by (simp add: reads_values_def)
  then show ?thesis
    by (simp add: DeviceCategoryInfo_fromJson_def DeviceCategoryInfo_toJson_def json_value_object then_set_def DeviceCategoryInfo_new_def Let_def)
qed

section \<open>Histories\<close>

datatype tr_op = TRegister DeviceTypeInfo | TRegisterPlugin DeviceTypeInfo string | TUnregister string | TUnregisterPlugin string | TUpdate DeviceTypeInfo
  | TEnable string | TDisable string | TCategory DeviceCategoryInfo | TSubscribe | TUnsubscribe nat

fun tr_step :: "tr_op \<Rightarrow> type_registry \<Rightarrow> type_registry" where
  "tr_step (TRegister info) r = snd (registerType info r)"
| "tr_step (TRegisterPlugin info p) r = snd (registerTypeFromPlugin info p r)"
| "tr_step (TUnregister name) r = snd (unregisterType name r)"
| "tr_step (TUnregisterPlugin p) r = snd (unregisterPluginTypes [] p r)"
| "tr_step (TUpdate info) r = snd (updateType info r)"
| "tr_step (TEnable name) r = snd (enableType name r)"
| "tr_step (TDisable name) r = snd (disableType name r)"
| "tr_step (TCategory info) r = snd (registerCategory info r)"
| "tr_step TSubscribe r = snd (TypeRegistry_subscribe r)"
| "tr_step (TUnsubscribe i) r = TypeRegistry_unsubscribe i r"

text \<open>Every type is registered under its own name, which is not empty, and once.\<close>

definition registry_ok :: "type_registry \<Rightarrow> bool" where
  "registry_ok r \<longleftrightarrow> distinct (map fst (tr_types r)) \<and> (\<forall>(name, info) \<in> set (tr_types r). ti_typeName info = name \<and> name \<noteq> [])"

text \<open>What a subscriber knows of the names after the events it was told of.\<close>

fun follow :: "TypeRegistrationEvent \<Rightarrow> string set \<Rightarrow> string set" where
  "follow e S = (case te_action e of Registered \<Rightarrow> insert (te_typeName e) S | Unregistered \<Rightarrow> S - {te_typeName e} | _ \<Rightarrow> S)"

definition told :: "nat \<Rightarrow> type_registry \<Rightarrow> TypeRegistrationEvent list" where
  "told i r = map snd (filter (\<lambda>(j, e). j = i) (tr_log r))"

definition up_to_date :: "nat \<Rightarrow> string set \<Rightarrow> type_registry \<Rightarrow> bool" where
  "up_to_date i S r \<longleftrightarrow> i \<in> set (tr_subscribers r) \<and> fold follow (told i r) S = keys (tr_types r)"

lemma follow_again: "follow e (follow e S) = follow e S"
  by (auto split: Action.split)

lemma follow_many: "n > 0 \<Longrightarrow> (follow e ^^ n) S = follow e S"
proof (induction n arbitrary: S)
  case (Suc n)
  then show ?case by (cases "n = 0") (simp_all add: follow_again del: follow.simps)
qed simp

lemma told_notify:
  assumes "i \<in> set (tr_subscribers r)"
  shows "fold follow (told i (notifySubscribers e r)) S = follow e (fold follow (told i r) S)"
proof -
  have "map snd (filter (\<lambda>(j, e). j = i) (map (\<lambda>j. (j, e)) js)) = replicate (count_list js i) e" for js :: "nat list"
    by (induction js) auto
  moreover have "count_list (tr_subscribers r) i > 0" using assms by (metis count_list_0_iff gr0I)
  ultimately show ?thesis by (simp add: told_def notifySubscribers_def follow_many del: follow.simps)
qed

lemma told_same: "tr_log r' = tr_log r \<Longrightarrow> told i r' = told i r"
  by (simp add: told_def)

lemma notify_fields [simp]: "tr_types (notifySubscribers e r) = tr_types r" "tr_subscribers (notifySubscribers e r) = tr_subscribers r"
  by (simp_all add: notifySubscribers_def)

text \<open>A change of the types followed by its event keeps the subscriber up to date.\<close>

lemma up_to_date_change:
  assumes "up_to_date i S r" "keys m = follow e (keys (tr_types r))"
  shows "up_to_date i S (notifySubscribers e (r\<lparr>tr_types := m\<rparr>))"
  using assms told_notify [of i "r\<lparr>tr_types := m\<rparr>" e S] told_same [of "r\<lparr>tr_types := m\<rparr>" r i]
  by (simp add: up_to_date_def del: follow.simps)

lemma unregisterLoop_up_to_date:
  "up_to_date i S r \<Longrightarrow> up_to_date i S (unregisterLoop [] p names r)"
proof (induction names arbitrary: r)
  case (Cons name names)
  have "keys (AList.delete name (tr_types r)) = keys (tr_types r) - {name}" by (simp add: keys_delete)
  then show ?case
    by (auto simp: Let_def split: option.split intro!: Cons.IH up_to_date_change [OF Cons.prems] Cons.prems)
qed simp

lemma up_to_date_same:
  assumes "up_to_date i S r" "tr_types r' = tr_types r" "tr_log r' = tr_log r" "i \<in> set (tr_subscribers r')"
  shows "up_to_date i S r'"
  using assms told_same [of r' r i] by (simp add: up_to_date_def)

lemma step_up_to_date:
  assumes r: "up_to_date i S r" and op: "op \<noteq> TUnsubscribe i"
  shows "up_to_date i S (tr_step op r)"
proof -
  have present: "insert k (keys (tr_types r)) = keys (tr_types r)" if "map_of (tr_types r) k = Some info" for k info
    using that by (metis insert_absorb map_of_None_keys option.distinct(1))
  have i: "i \<in> set (tr_subscribers r)" using r by (simp add: up_to_date_def)
  show ?thesis
  proof (cases op)
    case (TUnregisterPlugin p)
    then show ?thesis using unregisterLoop_up_to_date [OF r] by (simp add: unregisterPluginTypes_def Let_def)
  next
    case (TCategory info)
    then show ?thesis using r i by (auto simp: registerCategory_def intro: up_to_date_same [OF r])
  next
    case TSubscribe
    then show ?thesis using i by (auto simp: TypeRegistry_subscribe_def intro: up_to_date_same [OF r])
  next
    case (TUnsubscribe k)
    then show ?thesis using i op by (auto simp: TypeRegistry_unsubscribe_def intro: up_to_date_same [OF r])
  qed (use r in \<open>auto simp: registerType_def registerTypeFromPlugin_def unregisterType_def updateType_def enableType_def disableType_def
      setTypeEnabled_def event_of_def keys_update keys_delete present intro!: up_to_date_change split: option.split\<close>)
qed

text \<open>
  A subscriber that stays subscribed can follow the registry by its events: whatever is registered, removed, updated, enabled or
  disabled, the names it has been told of are the names registered.
\<close>

theorem subscriber_follows_registry:
  assumes "\<forall>op \<in> set ops. op \<noteq> TUnsubscribe i" "up_to_date i S r"
  shows "up_to_date i S (fold tr_step ops r)"
  using assms step_up_to_date by (induction ops arbitrary: r) (auto simp del: tr_step.simps)

theorem subscribe_follows:
  assumes fresh: "told (tr_nextCallbackId r) r = []" and ops: "\<forall>op \<in> set ops. op \<noteq> TUnsubscribe (tr_nextCallbackId r)"
  shows "fold follow (told (tr_nextCallbackId r) (fold tr_step ops (snd (TypeRegistry_subscribe r)))) (keys (tr_types r)) =
         keys (tr_types (fold tr_step ops (snd (TypeRegistry_subscribe r))))"
proof -
  have "told (tr_nextCallbackId r) (snd (TypeRegistry_subscribe r)) = []" using fresh by (simp add: TypeRegistry_subscribe_def told_def)
  then have "up_to_date (tr_nextCallbackId r) (keys (tr_types r)) (snd (TypeRegistry_subscribe r))"
    by (simp add: up_to_date_def TypeRegistry_subscribe_def)
  from subscriber_follows_registry [OF ops this] show ?thesis by (simp add: up_to_date_def)
qed

text \<open>Clearing the registry tells nobody: a subscriber still believes in the types there were.\<close>

lemma clear_tells_nobody:
  assumes "up_to_date i S r" "tr_types r \<noteq> []"
  shows "\<not> up_to_date i S (TypeRegistry_clear r)"
proof -
  have "told i (TypeRegistry_clear r) = told i r" by (simp add: TypeRegistry_clear_def told_def)
  then show ?thesis using assms by (cases "tr_types r") (auto simp: up_to_date_def TypeRegistry_clear_def)
qed

section \<open>The invariant\<close>

lemma registry_ok_new: "registry_ok DeviceTypeRegistry_new"
  by (simp add: registry_ok_def DeviceTypeRegistry_new_def initializeBuiltInTypes_def)

lemma ok_update:
  assumes ok: "registry_ok r" and "ti_typeName info = name" "name \<noteq> []"
  shows "registry_ok (notifySubscribers e (r\<lparr>tr_types := AList.update name info (tr_types r)\<rparr>))"
proof -
  have d: "distinct (map fst (tr_types r))" using ok by (simp add: registry_ok_def)
  show ?thesis using assms by (auto simp: registry_ok_def distinct_update set_update_distinct [OF d])
qed

lemma ok_delete: "registry_ok r \<Longrightarrow> registry_ok (notifySubscribers e (r\<lparr>tr_types := AList.delete name (tr_types r)\<rparr>))"
  by (auto simp: registry_ok_def distinct_delete AList.delete_eq distinct_map_filter)

lemma ok_loop: "registry_ok r \<Longrightarrow> registry_ok (unregisterLoop [] p names r)"
  by (induction names arbitrary: r) (auto simp: Let_def ok_delete split: option.split)

lemma ok_named: "registry_ok r \<Longrightarrow> map_of (tr_types r) name = Some info \<Longrightarrow> ti_typeName info = name \<and> name \<noteq> []"
  by (drule map_of_SomeD) (auto simp: registry_ok_def)

lemma ok_frame: "registry_ok r \<Longrightarrow> tr_types r' = tr_types r \<Longrightarrow> registry_ok r'"
  by (simp add: registry_ok_def)

theorem registry_ok_step: "registry_ok r \<Longrightarrow> registry_ok (tr_step op r)"
proof (cases op)
  case (TUnregisterPlugin p)
  then show "registry_ok r \<Longrightarrow> ?thesis" by (simp add: unregisterPluginTypes_def Let_def ok_loop)
next
  case (TCategory info)
  then show "registry_ok r \<Longrightarrow> ?thesis" by (auto simp: registerCategory_def intro: ok_frame)
qed (auto simp: registerType_def registerTypeFromPlugin_def unregisterType_def updateType_def enableType_def disableType_def setTypeEnabled_def
    TypeRegistry_subscribe_def TypeRegistry_unsubscribe_def intro!: ok_update ok_delete intro: ok_frame simp flip: map_of_None_keys dest: ok_named split: option.split)

section \<open>Removing the types of a plugin\<close>

lemma loop_types: "tr_types (unregisterLoop [] p names r) = filter (\<lambda>(n, info). n \<notin> set names) (tr_types r)"
proof (induction names arbitrary: r)
  case (Cons name names)
  have "filter (\<lambda>(n, info). n \<notin> set names) (tr_types r) = filter (\<lambda>(n, info). name \<noteq> n \<and> n \<notin> set names) (tr_types r)"
    if "map_of (tr_types r) name = None"
    using that by (intro filter_cong) (auto simp: map_of_eq_None_iff image_iff)
  then show ?case using Cons.IH by (auto simp: Let_def AList.delete_eq case_prod_unfold eq_commute [of _ name] split: option.split)
qed (simp add: filter_True)

text \<open>
  With no other thread between the notifications, the types of the plugin are gone, the others are all there in their order, and
  the number returned is that of the types removed.
\<close>

theorem unregisterPluginTypes_exact:
  assumes "registry_ok r"
  shows "tr_types (snd (unregisterPluginTypes [] p r)) = filter (\<lambda>(n, info). ti_pluginName info \<noteq> p) (tr_types r)"
    "fst (unregisterPluginTypes [] p r) + length (tr_types (snd (unregisterPluginTypes [] p r))) = length (tr_types r)"
proof -
  let ?names = "map fst (filter (\<lambda>(name, info). ti_pluginName info = p) (tr_types r))"
  have d: "distinct (map fst (tr_types r))" using assms by (simp add: registry_ok_def)
  have same: "n \<in> set ?names \<longleftrightarrow> ti_pluginName info = p" if "(n, info) \<in> set (tr_types r)" for n info
  proof
    assume "n \<in> set ?names"
    then obtain info' where i: "(n, info') \<in> set (tr_types r)" "ti_pluginName info' = p" by auto
    then show "ti_pluginName info = p" using d that by (metis eq_key_imp_eq_value)
  qed (use that in force)
  have "filter (\<lambda>(n, info). n \<notin> set ?names) (tr_types r) = filter (\<lambda>(n, info). ti_pluginName info \<noteq> p) (tr_types r)"
    using same by (intro filter_cong) auto
  then show types: "tr_types (snd (unregisterPluginTypes [] p r)) = filter (\<lambda>(n, info). ti_pluginName info \<noteq> p) (tr_types r)"
    by (simp add: unregisterPluginTypes_def Let_def loop_types)
  show "fst (unregisterPluginTypes [] p r) + length (tr_types (snd (unregisterPluginTypes [] p r))) = length (tr_types r)"
    unfolding types using sum_length_filter_compl [of "\<lambda>(n, info). ti_pluginName info = p" "tr_types r"]
    by (simp add: unregisterPluginTypes_def Let_def case_prod_unfold)
qed

text \<open>
  With another thread in between it is otherwise: that thread unregisters a type that is planned for removal and registers the
  name for its own plugin, and the loop, which looks the name up again but not the plugin, removes the type of the other plugin.
\<close>

definition plugin_type :: "string \<Rightarrow> string \<Rightarrow> DeviceTypeInfo" where
  "plugin_type name p = DeviceTypeInfo_new\<lparr>ti_typeName := name, ti_pluginName := p\<rparr>"

lemma foreign_type_removed:
  "let r = snd (registerType (plugin_type ''b'' ''old'') (snd (registerType (plugin_type ''a'' ''old'') DeviceTypeRegistry_new)));
       other = (\<lambda>r. snd (registerType (plugin_type ''b'' ''new'') (snd (unregisterType ''b'' r))))
   in map_of (tr_types (other r)) ''b'' = Some (plugin_type ''b'' ''new'') \<and>
      getAllTypes (snd (unregisterPluginTypes [other] ''old'' r)) = []"
  by (simp add: Let_def registerType_def unregisterType_def unregisterPluginTypes_def getAllTypes_def plugin_type_def DeviceTypeInfo_new_def
      DeviceTypeRegistry_new_def initializeBuiltInTypes_def notifySubscribers_def event_of_def)

text \<open>An update can switch a type off, and its subscribers hear of an update only.\<close>

lemma update_disables:
  assumes "map_of (tr_types r) (ti_typeName info) \<noteq> None"
  shows "isTypeEnabled (ti_typeName info) (snd (updateType info r)) = ti_enabled info"
    "tr_log (snd (updateType info r)) = tr_log r @ map (\<lambda>i. (i, event_of Updated info)) (tr_subscribers r)"
  using assms by (auto simp: updateType_def isTypeEnabled_def notifySubscribers_def update_conv)

end
