(* ===== verification/Spec2Isabelle.thy ===== *)
theory Spec2Isabelle
  imports Version Dependency_Graph Task Task_Factory Exposure Target Sequencer Trie_Index Fuzzy_Matcher Ring_Buffer
    Rate_Limiter Api_Rate_Limiter Ipc_Message Cache_Manager Config_Cache Script_Versioning Script_Retry Script_Hooks
    Memory_Repository Cached_Repository Filter_Evaluator Event_Bus Component_Manager Spatial_Index Search_Engine
    Csv_Catalogue Result_Merger Device_Manager Server_Jobs Config_Serializer
    Command_History Device_Type_Registry
begin

text \<open>
  Lithium-Next, an astrophotography terminal: a verification of its core logic.

  The program runs imaging sequences on astronomical equipment. A \<^emph>\<open>sequencer\<close> executes targets, a
  \<^emph>\<open>target\<close> executes tasks and keeps exposure plans, and a \<^emph>\<open>task\<close> runs an action under a timeout. Modules are
  loaded by the \<^emph>\<open>component manager\<close> in the order of a \<^emph>\<open>dependency graph\<close> with \<^emph>\<open>semantic versions\<close>. Targets
  come from a \<^emph>\<open>catalogue\<close> with a repository, three indexes, filters and a search engine. Around these are services:
  the configuration with its cache, validator and files, caches, the rate limiter and the background tasks of the server, the log buffer, the event bus of the devices, and
  the scripts with their versions, retries and the messages to subprocesses. All paths below are under
  \<^verbatim>\<open>src/src\<close>.

  \<^bold>\<open>The library.\<close> \<^verbatim>\<open>Lithium_Prelude\<close> has what the components share: exceptions as values, hash maps as
  association lists in iteration order, the string and number functions of the C++ library the code calls, and their
  lemmas. \<^verbatim>\<open>Graph_Search\<close> relates the depth-first searches to paths. \<^verbatim>\<open>Edit_Distance\<close> defines the edit distance
  and shows that it is a metric. \<^verbatim>\<open>Wildcard\<close> defines the language of a pattern. \<^verbatim>\<open>Sphere\<close> has the haversine.
  The interfaces are locales: \<^verbatim>\<open>term_index\<close> (\<^verbatim>\<open>Term_Index\<close>: an index of strings, interpreted for the trie and the
  fuzzy matcher), \<^verbatim>\<open>bounded_log\<close> (\<^verbatim>\<open>Bounded_Log\<close>: the newest entries of a history, interpreted for the ring buffer,
  the event history, the histories of hooks and of commands), \<^verbatim>\<open>expiring_store\<close> (\<^verbatim>\<open>Expiring_Store\<close>: a key-value store with deadlines, interpreted for both
  caches), \<^verbatim>\<open>wildcard_matcher\<close> (interpreted for the two pattern matchers) and \<^verbatim>\<open>catalogue\<close> (\<^verbatim>\<open>Search_Engine\<close>: what the
  engine needs of a repository, interpreted for the in-memory repository).

  \<^bold>\<open>Components\<close>, with the code each theory translates and what it shows.

  \<^item> \<^verbatim>\<open>Version\<close> (\<^verbatim>\<open>components/core/version.cpp\<close>): parsing and printing of versions and dates round trip, the
  comparisons are a total order up to build metadata, the constraint operators mean what they say.
  \<^item> \<^verbatim>\<open>Dependency_Graph\<close> (\<^verbatim>\<open>components/core/dependency.cpp\<close>): the two edge maps stay converse under all operations;
  cycle detection is exact; sorting and transitive dependencies are correct; resolving package files gives an order
  that respects all dependencies or an error; the batched resolution agrees with the sequential one.
  \<^item> \<^verbatim>\<open>Component_Manager\<close> (\<^verbatim>\<open>components/manager\<close>): the operations with their mutex. Since loading locks the mutex
  twice, no load that passes the module loader returns, and no manager ever holds a component.
  \<^item> \<^verbatim>\<open>Task\<close> (\<^verbatim>\<open>task/core/task.cpp\<close>): every execution ends in a status that classifies its outcome; cancelled tasks
  never run their action; parameter validation reports exactly the violations; post-tasks.
  \<^item> \<^verbatim>\<open>Exposure\<close> (\<^verbatim>\<open>tools/astronomy\<close>): exposure plans, constraints, meridian flip.
  \<^item> \<^verbatim>\<open>Target\<close> (\<^verbatim>\<open>task/core/target.cpp\<close>): execution of the tasks in order with groups, failures and skipping.
  \<^item> \<^verbatim>\<open>Sequencer\<close> (\<^verbatim>\<open>task/core/sequencer.cpp\<close>): dependencies stay acyclic, the ready status is the greatest fixed
  point, the execution loop returns and runs every ready target once, and the control operations interleave safely
  with the sequence thread (\<open>ctl_step\<close>).
  \<^item> \<^verbatim>\<open>Trie_Index\<close>, \<^verbatim>\<open>Fuzzy_Matcher\<close>, \<^verbatim>\<open>Spatial_Index\<close> (\<^verbatim>\<open>target/index\<close>): completions, approximate matches through the
  BK-tree and searches by box or radius against the stored terms; where the spatial index loses objects.
  \<^item> \<^verbatim>\<open>Celestial_Model\<close>, \<^verbatim>\<open>Memory_Repository\<close> (\<^verbatim>\<open>target/model\<close>, \<^verbatim>\<open>target/repository/memory_repository.cpp\<close>): the two
  maps of the repository agree; its searches.
  \<^item> \<^verbatim>\<open>Filter_Evaluator\<close> (\<^verbatim>\<open>target/search/filter_evaluator.cpp\<close>): filtering, sorting, paging, patterns.
  \<^item> \<^verbatim>\<open>Search_Engine\<close> (\<^verbatim>\<open>target/search/search_engine.cpp\<close>): the composition of repository and indexes answers queries
  soundly, and finds something whenever there is something to find.
  \<^item> \<^verbatim>\<open>Cached_Repository\<close> (\<^verbatim>\<open>target/repository/cached_repository.cpp\<close>): lookups through caches that may forget answer as the
  repository does, on the histories that avoid the gaps of the code, which are shown too.
  \<^item> \<^verbatim>\<open>Csv_Handler\<close>, \<^verbatim>\<open>Csv_Catalogue\<close> (\<^verbatim>\<open>target/io/csv_handler.cpp\<close>): a catalogue written to a file is read back.
  \<^item> \<^verbatim>\<open>Api_Rate_Limiter\<close> (\<^verbatim>\<open>target/online/rate_limiter\<close>): a request is let through exactly when the limits allow it, and the
  quotas hold over every interval.
  \<^item> \<^verbatim>\<open>Result_Merger\<close> (\<^verbatim>\<open>target/online/merger\<close>): merging lists loses no object and repeats none, merging two objects loses
  no field, ranked results are in order; where duplicates of several providers stay.
  \<^item> \<^verbatim>\<open>Device_Manager\<close> (\<^verbatim>\<open>device/manager\<close>): the registered devices, their states and events under every history of operations
  (\<open>dm_step\<close>), connecting with retries, rounds of the health monitor; the pending events are a bounded log.
  \<^item> \<^verbatim>\<open>Task_Factory\<close> (\<^verbatim>\<open>task/core/factory.cpp\<close>): when a task is created.
  \<^item> \<^verbatim>\<open>Task_Manager\<close> (\<^verbatim>\<open>server/task_manager.cpp\<close>): the background tasks with all interleavings of submissions, jobs and
  cancellations (\<open>tm_step\<close>): jobs can always end, a task cancelled before its start never starts; periodic tasks.
  \<^item> \<^verbatim>\<open>Event_Loop\<close> (\<^verbatim>\<open>server/eventloop.cpp\<close>): clients and workers interleaved (\<open>el_step\<close>). The workers read queues that nobody fills.
  \<^item> \<^verbatim>\<open>Server_Jobs\<close>: both composed (\<open>srv_step\<close>): no background task ever runs on this loop.
  \<^item> \<^verbatim>\<open>Script_Hooks\<close> (\<^verbatim>\<open>script/shell/hooks.cpp\<close>): every hook runs, whatever the others do; the history is a bounded log.
  \<^item> \<^verbatim>\<open>Json_Value\<close>, \<^verbatim>\<open>Config_Validator\<close> (\<^verbatim>\<open>config/components/validator.cpp\<close>): a value is accepted exactly when it conforms to the schema
  (\<open>conforms\<close>) and the custom rules pass.
  \<^item> \<^verbatim>\<open>Config_Manager\<close> (\<^verbatim>\<open>config/core/manager.cpp\<close>), on \<^verbatim>\<open>Config_Cache\<close> and the validator: writes and reads agree, and the cache is transparent
  for keys that address separate parts of the document; the histories in which it is stale are shown too.
  \<^item> \<^verbatim>\<open>Config_Json5\<close> (\<^verbatim>\<open>config/utils/json5.hpp\<close>), \<^verbatim>\<open>Config_Serializer\<close> (\<^verbatim>\<open>config/components/serializer.cpp\<close>): comments are removed exactly,
  every format is read back, and a configuration that was saved is loaded again.
  \<^item> \<^verbatim>\<open>Command_History\<close> (\<^verbatim>\<open>debug/terminal/history_manager.cpp\<close>): the history is a bounded log of the commands without repetitions, and walking
  through it stays inside the list.
  \<^item> \<^verbatim>\<open>Device_Type_Registry\<close> (\<^verbatim>\<open>device/service/device_type_registry.cpp\<close>): a subscriber can follow the registered names by its events,
  the types of a plugin are removed exactly when no other thread intervenes, descriptions survive the conversion to JSON.
  \<^item> \<^verbatim>\<open>Cache_Manager\<close> (\<^verbatim>\<open>database/cache\<close>) and \<^verbatim>\<open>Config_Cache\<close> (\<^verbatim>\<open>config/components/cache.cpp\<close>): both caches refine the
  store with deadlines; the second evicts the least recently used entry.
  \<^item> \<^verbatim>\<open>Rate_Limiter\<close> (\<^verbatim>\<open>server/rate_limiter.cpp\<close>): the token bucket never grants more than its bound, the sliding
  windows count exactly.
  \<^item> \<^verbatim>\<open>Ring_Buffer\<close> (\<^verbatim>\<open>logging/sinks/ring_buffer_sink.cpp\<close>): the ring shows the newest messages in order.
  \<^item> \<^verbatim>\<open>Event_Bus\<close> (\<^verbatim>\<open>device/events/device_event_bus.cpp\<close>): concurrent publishers, any interleaving (\<open>pub_step\<close>).
  \<^item> \<^verbatim>\<open>Ipc_Message\<close> (\<^verbatim>\<open>script/ipc/message.cpp\<close>): the binary frames round trip and bad frames are rejected, on machine
  words.
  \<^item> \<^verbatim>\<open>Script_Versioning\<close>, \<^verbatim>\<open>Script_Retry\<close> (\<^verbatim>\<open>script/shell\<close>): version numbers stay stable, retries stop at the first
  success.

  \<^bold>\<open>How the code is modelled.\<close> A class is a record of its fields, a method a function from the record to its result
  and the new record, an exception a value of \<^verbatim>\<open>exn\<close>. Undefined behaviour, and an operation that blocks because its
  thread holds the lock it needs, is the value \<^verbatim>\<open>None\<close>. A critical section is one step; where the sections of several
  threads interleave there is a step relation, and the theorem holds on all its paths. A reading of the clock is an
  argument. Hash maps are lists in an arbitrary iteration order, so no result rests on an order of theirs;
  \<^verbatim>\<open>std::sort\<close> is the stable sort. A \<^verbatim>\<open>double\<close> is a real number: rounding, infinities and values that are not
  numbers are not modelled. \<^verbatim>\<open>size_t\<close> and 64-bit counters are natural numbers where no run can exhaust them; the codec
  and every place where the code narrows or overflows an integer keep the width. External code is a parameter: the
  JSON library, the message bus, the module loader, the file system, actions, callbacks and listeners.

  \<^bold>\<open>Loops.\<close> No definition has fuel. Loops are structural recursion or have a termination measure; the two mutually
  recursive searches of a graph use the number of unvisited nodes. The loop of a sequence may run forever in
  principle; it is a partial function, and the theorem on it shows that it returns.

  \<^bold>\<open>Not modelled.\<close> Device drivers and protocol clients (INDI, INDIGO, ASCOM, PHD2, solvers), the HTTP and WebSocket
  controllers, the Python and shell interpreters, the database and its mapping, file watching and dynamic loading are
  interaction with the outside through third-party libraries. The conversion of objects to JSON, the parsing of JSON text and YAML
  are left out, as is logging. The task generator rests on regular expressions over JSON. The debug terminal around its command history is user interface.
  Floating-point astronomy (visibility, ephemerides) and the recommendation engine would need a model of rounding to say
  more than their formulas do.

  \<^bold>\<open>Plan.\<close> Next are the preferences of the recommendation engine.
\<close>

end
